(* ===== verification/Prelude.thy ===== *)
theory Prelude
  imports Main "HOL-Library.Word"
begin

unbundle bit_operations_syntax

text \<open>
  What the component theories share: the names of the machine integer types of the C and C++
  sources, the sequencing combinator for fallible code, the collections of rewrite rules, and
  generic lemmas on words, arrays and results.
\<close>

section \<open>Machine integers\<close>

text \<open>The fixed-width types of \<^verbatim>\<open>libs/defs.h\<close> and \<^verbatim>\<open><cstdint>\<close>.\<close>

type_synonym u8 = "8 word"
type_synonym u16 = "16 word"
type_synonym u32 = "32 word"
type_synonym u64 = "64 word"

section \<open>Fallible code\<close>

text \<open>
  A call that may fail yields \<open>Inl\<close> of an error or \<open>Inr\<close> of its result; \<open>bindE m f\<close> runs
  \<open>f\<close> on the result of \<open>m\<close> and stops at the first error, as an abort of the source does.
\<close>

definition bindE :: "'e + 'a \<Rightarrow> ('a \<Rightarrow> 'e + 'b) \<Rightarrow> 'e + 'b" where
  "bindE m f = (case m of Inl e \<Rightarrow> Inl e | Inr x \<Rightarrow> f x)"

text \<open>\<open>guardE b e\<close> is the source's check: go on when \<open>b\<close> holds, stop with \<open>e\<close> otherwise.\<close>

definition guardE :: "bool \<Rightarrow> 'e \<Rightarrow> 'e + unit" where
  "guardE b e = (if b then Inr () else Inl e)"

section \<open>Collections of rules\<close>

named_theorems emu_fields \<open>bounds and projections of the emulator's instruction fields\<close>
named_theorems emu_exec \<open>definitions of the emulator's instruction handlers\<close>
named_theorems emu_mem \<open>definitions of the emulator's memory accesses\<close>

section \<open>Results\<close>

lemma bindE_simps [simp]:
  "bindE (Inl e) f = Inl e"
  "bindE (Inr x) f = f x"
  by (simp_all add: bindE_def)

lemma bindE_Inr_iff: "bindE m f = Inr y \<longleftrightarrow> (\<exists>x. m = Inr x \<and> f x = Inr y)"
  by (cases m) auto

lemma bindE_Inl_iff: "bindE m f = Inl e \<longleftrightarrow> m = Inl e \<or> (\<exists>x. m = Inr x \<and> f x = Inl e)"
  by (cases m) auto

lemma bindE_assoc: "bindE (bindE m f) g = bindE m (\<lambda>x. bindE (f x) g)"
  by (cases m) auto

lemma guardE_simps [simp]:
  "guardE True e = Inr ()"
  "guardE False e = Inl e"
  by (simp_all add: guardE_def)

lemma guardE_Inr_iff [simp]: "guardE b e = Inr x \<longleftrightarrow> b"
  by (simp add: guardE_def)

lemma bindE_guardE_Inr [simp]: "bindE (guardE b e) f = Inr y \<longleftrightarrow> b \<and> f () = Inr y"
  by (simp add: guardE_def)

lemma bindE_cong [fundef_cong]:
  "m = m' \<Longrightarrow> (\<And>x. m' = Inr x \<Longrightarrow> f x = f' x) \<Longrightarrow> bindE m f = bindE m' f'"
  by (cases m') auto

section \<open>Words\<close>

lemma unat_and_mask_less: "unat (x AND mask n :: 'a::len word) < 2 ^ n"
  by (simp add: take_bit_eq_mask [symmetric] unsigned_take_bit_eq)

lemma unat_and_31_less [simp]: "unat (x AND 31 :: u32) < 32"
  using unat_and_mask_less [of x 5] by (simp add: mask_eq_exp_minus_1)

text \<open>
  Two 32-bit words are equal when their 32 bits agree. Unfolded with \<open>bit_simps\<close> this turns an
  equation between masks and shifts into propositional logic.
\<close>

lemma u32_eq_bits: "(x :: u32) = y \<longleftrightarrow> (\<forall>n \<in> set [0..<32]. bit x n = bit y n)"
  by (auto simp: bit_eq_iff)

lemma upt_32: "[0..<32] =
  [0, 1, 2, 3, 4, 5, 6, 7, 8, 9, 10, 11, 12, 13, 14, 15, 16, 17, 18, 19, 20, 21, 22, 23, 24, 25,
   26, 27, 28, 29, 30, 31]"
  by (simp add: upt_rec)

lemma u32_bit_beyond: "32 \<le> n \<Longrightarrow> \<not> bit (x :: u32) n"
  by (auto dest: bit_imp_le_length)

lemmas u32_bitwise = u32_eq_bits [unfolded upt_32 list.set ball_simps] bit_simps u32_bit_beyond

text \<open>Masks and shifts of a 32-bit word read as remainders and quotients of its value.\<close>

lemma u32_of_nat_mod: "of_nat (unat x mod 2 ^ n) = (x :: u32) AND mask n"
proof -
  have "of_nat (unat x mod 2 ^ n) = (of_nat (unat (take_bit n x)) :: u32)"
    by (simp only: unsigned_take_bit_eq take_bit_eq_mod [where 'a = nat])
  then show ?thesis by (simp add: take_bit_eq_mask)
qed

lemma u32_unat_and_mask: "unat ((x :: u32) AND mask n) = unat x mod 2 ^ n"
  by (simp only: take_bit_eq_mask [symmetric] unsigned_take_bit_eq take_bit_eq_mod [where 'a = nat])

lemma u32_of_nat_div: "of_nat (unat x div 2 ^ n) = drop_bit n (x :: u32)"
proof -
  have "of_nat (unat x div 2 ^ n) = (of_nat (unat (drop_bit n x)) :: u32)"
    by (simp only: unat_drop_bit_eq drop_bit_eq_div [where 'a = nat])
  then show ?thesis by simp
qed

lemma u32_drop_bit_eq_iff:
  "drop_bit n (x :: u32) = drop_bit n y \<longleftrightarrow> unat x div 2 ^ n = unat y div 2 ^ n"
  by (simp only: word_unat_eq_iff unat_drop_bit_eq drop_bit_eq_div [where 'a = nat])

lemma u32_drop_bit_and_1: "drop_bit n (x :: u32) AND 1 = of_bool (bit x n)"
  by (rule bit_word_eqI) (auto simp: bit_simps bit_1_iff)

lemma u32_bit_iff: "bit (x :: u32) n \<longleftrightarrow> odd (unat x div 2 ^ n)"
proof -
  have "bit (unat x) n = bit x n"
    by (auto simp: bit_unsigned_iff dest: bit_imp_le_length)
  then show ?thesis by (simp add: bit_iff_odd)
qed

section \<open>Arrays\<close>

lemma replicate_16: "replicate 16 x = [x, x, x, x, x, x, x, x, x, x, x, x, x, x, x, x]"
  by (simp add: numeral_eq_Suc)

lemma list_update_nth_same: "i < length xs \<Longrightarrow> xs[i := xs ! i] = xs"
  by simp

lemma u32_unat_less: "unat (x :: u32) < 2 ^ 32"
  using unsigned_less [where 'a = nat, of x] by simp

lemma sint_small:
  assumes "unat a < 2 ^ 31"
  shows "sint (a :: u32) = int (unat a)"
proof -
  have "int (unat a) < int 2147483648" using assms by (subst of_nat_less_iff) simp
  then have "uint a < 2147483648" by (simp only: uint_nat of_nat_numeral)
  moreover have "- 2147483648 \<le> uint a" by (rule order_trans [of _ 0]) simp_all
  ultimately show ?thesis by (simp add: sint_uint signed_take_bit_int_eq_self)
qed

lemma unat_of_nat_u32: "n < 2 ^ 32 \<Longrightarrow> unat (of_nat n :: u32) = n"
  by (simp add: unsigned_of_nat take_bit_nat_eq_self)

lemma of_nat_u32_inj: "i < 2 ^ 32 \<Longrightarrow> j < 2 ^ 32 \<Longrightarrow> (of_nat i :: u32) = of_nat j \<longleftrightarrow> i = j"
  by (metis unat_of_nat_u32)

end
