(* ===== verification/Cp0.thy ===== *)
theory Cp0
  imports Prelude
begin

unbundle bit_operations_syntax

text \<open>
  Coprocessor 0 of the emulated CPU (\<^verbatim>\<open>src/cp0.h\<close>): the array of 32 system registers and the
  accessors of the Status and Cause fields. \<^verbatim>\<open>registers_\<close> is \<open>cp0_registers\<close>, a list whose
  length is 32 in every well-formed state (\<open>cp0_wf\<close>).
\<close>

section \<open>State\<close>

record cp0 =
  cp0_registers :: "u32 list"

text \<open>The register numbers and exception codes of the two enumerations.\<close>

abbreviation (input) CP0_Index :: nat where "CP0_Index \<equiv> 0"
abbreviation (input) CP0_EntryLo0 :: nat where "CP0_EntryLo0 \<equiv> 2"
abbreviation (input) CP0_EntryLo1 :: nat where "CP0_EntryLo1 \<equiv> 3"
abbreviation (input) CP0_Context :: nat where "CP0_Context \<equiv> 4"
abbreviation (input) CP0_BadVAddr :: nat where "CP0_BadVAddr \<equiv> 8"
abbreviation (input) CP0_Count :: nat where "CP0_Count \<equiv> 9"
abbreviation (input) CP0_EntryHi :: nat where "CP0_EntryHi \<equiv> 10"
abbreviation (input) CP0_Compare :: nat where "CP0_Compare \<equiv> 11"
abbreviation (input) CP0_SR :: nat where "CP0_SR \<equiv> 12"
abbreviation (input) CP0_Cause :: nat where "CP0_Cause \<equiv> 13"
abbreviation (input) CP0_EPC :: nat where "CP0_EPC \<equiv> 14"
abbreviation (input) CP0_EBase :: nat where "CP0_EBase \<equiv> 15"

abbreviation (input) Exc_Int :: u32 where "Exc_Int \<equiv> 0"
abbreviation (input) Exc_Mod :: u32 where "Exc_Mod \<equiv> 1"
abbreviation (input) Exc_TLBL :: u32 where "Exc_TLBL \<equiv> 2"
abbreviation (input) Exc_TLBS :: u32 where "Exc_TLBS \<equiv> 3"
abbreviation (input) Exc_AdEL :: u32 where "Exc_AdEL \<equiv> 4"
abbreviation (input) Exc_AdES :: u32 where "Exc_AdES \<equiv> 5"
abbreviation (input) Exc_Syscall :: u32 where "Exc_Syscall \<equiv> 8"
abbreviation (input) Exc_RI :: u32 where "Exc_RI \<equiv> 10"

abbreviation (input) IP_7 :: u32 where "IP_7 \<equiv> 128"

section \<open>Operations\<close>

definition CP0_init :: cp0 where
  "CP0_init = \<lparr>cp0_registers = (replicate 32 0)[CP0_EBase := 0x80000180]\<rparr>"

text \<open>Reading and assigning one register: \<^verbatim>\<open>registers_[i]\<close> on either side of an assignment.\<close>

definition cp0_get :: "cp0 \<Rightarrow> nat \<Rightarrow> u32" where
  "cp0_get p i = cp0_registers p ! i"

definition cp0_set :: "cp0 \<Rightarrow> nat \<Rightarrow> u32 \<Rightarrow> cp0" where
  "cp0_set p i v = p\<lparr>cp0_registers := (cp0_registers p)[i := v]\<rparr>"

definition set_exception_code :: "u32 \<Rightarrow> cp0 \<Rightarrow> cp0" where
  "set_exception_code exc_code p =
     (let p = cp0_set p CP0_Cause (cp0_get p CP0_Cause AND 0xffffff83)
      in cp0_set p CP0_Cause (cp0_get p CP0_Cause OR push_bit 2 exc_code))"

definition set_interrupt_code :: "u32 \<Rightarrow> cp0 \<Rightarrow> cp0" where
  "set_interrupt_code interrupt_code p =
     cp0_set p CP0_Cause (cp0_get p CP0_Cause OR push_bit 8 interrupt_code)"

definition global_interrupt_enabled :: "cp0 \<Rightarrow> bool" where
  "global_interrupt_enabled p \<longleftrightarrow> cp0_get p CP0_SR AND 0b111 = 0b001"

definition interrupt_enabled :: "cp0 \<Rightarrow> u32 \<Rightarrow> bool" where
  "interrupt_enabled p interrupt_mask \<longleftrightarrow> cp0_get p CP0_SR AND push_bit 8 interrupt_mask \<noteq> 0"

definition set_Status_EXL :: "cp0 \<Rightarrow> cp0" where
  "set_Status_EXL p = cp0_set p CP0_SR (cp0_get p CP0_SR OR 0x02)"

definition unset_Status_EXL :: "cp0 \<Rightarrow> cp0" where
  "unset_Status_EXL p = cp0_set p CP0_SR (cp0_get p CP0_SR AND 0xfffffffd)"

definition Status_EXL :: "cp0 \<Rightarrow> bool" where
  "Status_EXL p \<longleftrightarrow> cp0_get p CP0_SR AND 0x02 \<noteq> 0"

section \<open>The array invariant and the register file laws\<close>

definition cp0_wf :: "cp0 \<Rightarrow> bool" where
  "cp0_wf p \<longleftrightarrow> length (cp0_registers p) = 32"

lemma cp0_wf_init [simp]: "cp0_wf CP0_init"
  by (simp add: cp0_wf_def CP0_init_def)

lemma CP0_init_get:
  "i < 32 \<Longrightarrow> cp0_get CP0_init i = (if i = CP0_EBase then 0x80000180 else 0)"
  by (simp add: CP0_init_def cp0_get_def)

lemma cp0_wf_set [simp]: "cp0_wf (cp0_set p i v) = cp0_wf p"
  by (simp add: cp0_wf_def cp0_set_def)

lemma cp0_get_set:
  "cp0_wf p \<Longrightarrow> i < 32 \<Longrightarrow> cp0_get (cp0_set p i v) j = (if i = j then v else cp0_get p j)"
  by (simp add: cp0_wf_def cp0_get_def cp0_set_def)

lemma cp0_get_set_other [simp]: "i \<noteq> j \<Longrightarrow> cp0_get (cp0_set p i v) j = cp0_get p j"
  by (simp add: cp0_get_def cp0_set_def)

lemma cp0_get_set_same [simp]: "cp0_wf p \<Longrightarrow> i < 32 \<Longrightarrow> cp0_get (cp0_set p i v) i = v"
  by (simp add: cp0_get_set)

lemma cp0_set_set [simp]: "cp0_set (cp0_set p i v) i w = cp0_set p i w"
  by (simp add: cp0_set_def)

lemma cp0_set_swap: "i \<noteq> j \<Longrightarrow> cp0_set (cp0_set p i v) j w = cp0_set (cp0_set p j w) i v"
  by (simp add: cp0_set_def list_update_swap)

lemma cp0_set_get [simp]: "cp0_set p i (cp0_get p i) = p"
  by (simp add: cp0_set_def cp0_get_def)

lemma cp0_wf_ops [simp]:
  "cp0_wf (set_exception_code e p) = cp0_wf p"
  "cp0_wf (set_interrupt_code e p) = cp0_wf p"
  "cp0_wf (set_Status_EXL p) = cp0_wf p"
  "cp0_wf (unset_Status_EXL p) = cp0_wf p"
  by (simp_all add: set_exception_code_def set_interrupt_code_def set_Status_EXL_def
      unset_Status_EXL_def Let_def)

lemma cp0_get_frame [simp]:
  "i \<noteq> CP0_Cause \<Longrightarrow> cp0_get (set_exception_code e p) i = cp0_get p i"
  "i \<noteq> CP0_Cause \<Longrightarrow> cp0_get (set_interrupt_code e p) i = cp0_get p i"
  "i \<noteq> CP0_SR \<Longrightarrow> cp0_get (set_Status_EXL p) i = cp0_get p i"
  "i \<noteq> CP0_SR \<Longrightarrow> cp0_get (unset_Status_EXL p) i = cp0_get p i"
  by (simp_all add: set_exception_code_def set_interrupt_code_def set_Status_EXL_def
      unset_Status_EXL_def Let_def)

text \<open>The ExcCode field (bits 6 to 2 of Cause) reads back as the code that was set.\<close>

definition ExcCode :: "cp0 \<Rightarrow> u32" where
  "ExcCode p = drop_bit 2 (cp0_get p CP0_Cause) AND 0x1f"

lemma and_or_field_word:
  fixes x e :: u32
  assumes "e AND 0x1f = e"
  shows "drop_bit 2 (x AND 0xffffff83 OR push_bit 2 e) AND 0x1f = e"
proof -
  have "drop_bit 2 (x AND 0xffffff83 OR push_bit 2 e) AND 0x1f = e AND (0x1f :: u32)"
    by (simp add: u32_bitwise)
  with assms show ?thesis by simp
qed

lemma ExcCode_set_exception_code:
  "cp0_wf p \<Longrightarrow> e AND 0x1f = e \<Longrightarrow> ExcCode (set_exception_code e p) = e"
  by (simp add: ExcCode_def set_exception_code_def Let_def and_or_field_word del: drop_bit_and drop_bit_or)

lemma exl_set_word: "((x :: u32) OR 2) AND 2 \<noteq> 0"
proof
  assume "(x OR 2) AND 2 = 0"
  then have "bit ((x OR 2) AND 2) 1 = bit (0 :: u32) 1" by simp
  then show False by (simp add: bit_simps)
qed

lemma exl_unset_word: "((x :: u32) AND 0xfffffffd) AND 2 = 0"
  by (simp add: and.assoc)

lemma Status_EXL_set [simp]: "cp0_wf p \<Longrightarrow> Status_EXL (set_Status_EXL p)"
  by (simp add: Status_EXL_def set_Status_EXL_def exl_set_word)

lemma Status_EXL_unset [simp]: "cp0_wf p \<Longrightarrow> \<not> Status_EXL (unset_Status_EXL p)"
  by (simp add: Status_EXL_def unset_Status_EXL_def exl_unset_word)

text \<open>No interrupt is accepted at exception level.\<close>

lemma exl_masks_interrupts: "Status_EXL p \<Longrightarrow> \<not> global_interrupt_enabled p"
proof
  assume exl: "Status_EXL p" and en: "global_interrupt_enabled p"
  let ?s = "cp0_get p CP0_SR"
  have "?s AND 2 = (?s AND 7) AND 2" by (simp add: and.assoc)
  also have "\<dots> = 0" using en by (simp add: global_interrupt_enabled_def)
  finally show False using exl by (simp add: Status_EXL_def)
qed

lemma status_frame [simp]:
  "i \<noteq> CP0_SR \<Longrightarrow> global_interrupt_enabled (cp0_set p i v) = global_interrupt_enabled p"
  "i \<noteq> CP0_SR \<Longrightarrow> interrupt_enabled (cp0_set p i v) m = interrupt_enabled p m"
  "i \<noteq> CP0_SR \<Longrightarrow> Status_EXL (cp0_set p i v) = Status_EXL p"
  by (simp_all add: global_interrupt_enabled_def interrupt_enabled_def Status_EXL_def)

end
