(* ===== verification/Mmu.thy ===== *)
theory Mmu
  imports Cp0
begin

unbundle bit_operations_syntax

text \<open>
  The memory management unit of the emulator (\<^verbatim>\<open>src/mmu.h\<close>): the physical address map (RAM, ROM,
  flash, serial port), the 16-entry TLB, address translation, and the byte, half-word and word
  accesses with their alignment and TLB exceptions.

  The MMU holds a reference to the CPU's CP0, so every operation takes the CP0 state and returns
  it; \<^verbatim>\<open>bool& exception\<close> is passed in and handed back. RAM is the 8 MB string \<^verbatim>\<open>ram_\<close>, a function
  on the offset, only read and written inside its bounds. \<open>rom\<close> and \<open>flash\<close> are the contents of the
  two streams; a read past their end leaves the source's \<^verbatim>\<open>val\<close> uninitialised, which is
  the value \<open>Inl\<close> of the model. \<open>cout\<close> is what was put to \<^verbatim>\<open>std::cout\<close>, oldest byte first.
\<close>

section \<open>State\<close>

datatype ub =
    Rom_read_past_end
  | Flash_read_past_end
  | Shift_too_large
  | Signed_overflow
  | Tlb_index_out_of_range

record mmu =
  ram :: "u32 \<Rightarrow> u8"
  rom :: "u8 list"
  flash :: "u8 list"
  cout :: "u8 list"
  tlb_key :: "u32 list"
  tlb_data :: "u32 list list"

abbreviation (input) KSEG0_BASE :: u32 where "KSEG0_BASE \<equiv> 0x80000000"
abbreviation (input) KSEG0_SIZE :: u32 where "KSEG0_SIZE \<equiv> 0x20000000"
abbreviation (input) KSEG1_BASE :: u32 where "KSEG1_BASE \<equiv> 0xa0000000"
abbreviation (input) KSEG1_SIZE :: u32 where "KSEG1_SIZE \<equiv> 0x20000000"
abbreviation (input) RAM_BASE :: u32 where "RAM_BASE \<equiv> 0"
abbreviation (input) RAM_SIZE :: u32 where "RAM_SIZE \<equiv> 0x800000"
abbreviation (input) ROM_BASE :: u32 where "ROM_BASE \<equiv> 0x1fc00000"
abbreviation (input) ROM_SIZE :: u32 where "ROM_SIZE \<equiv> 0x1000"
abbreviation (input) FLASH_BASE :: u32 where "FLASH_BASE \<equiv> 0x1e000000"
abbreviation (input) FLASH_SIZE :: u32 where "FLASH_SIZE \<equiv> 0x800000"
abbreviation (input) SERIAL_PORT :: u32 where "SERIAL_PORT \<equiv> 0x1fd003f8"
abbreviation (input) SERIAL_STATUS :: u32 where "SERIAL_STATUS \<equiv> 0x1fd003fc"
abbreviation (input) k_TLB_ENTRIES :: nat where "k_TLB_ENTRIES \<equiv> 16"

text \<open>The constructor; the TLB arrays are not initialised by it, so their contents are arguments.\<close>

definition MMU_init :: "u8 list \<Rightarrow> u8 list \<Rightarrow> u32 list \<Rightarrow> u32 list list \<Rightarrow> mmu" where
  "MMU_init rom0 flash0 key data =
     \<lparr>ram = (\<lambda>_. 0), rom = rom0, flash = flash0, cout = [], tlb_key = key, tlb_data = data\<rparr>"

section \<open>Physical accesses\<close>

definition read_physical :: "mmu \<Rightarrow> u32 \<Rightarrow> ub + u8" where
  "read_physical m addr =
     (if addr \<ge> RAM_BASE \<and> addr < RAM_BASE + RAM_SIZE then Inr (ram m (addr - RAM_BASE))
      else if addr \<ge> ROM_BASE \<and> addr < ROM_BASE + ROM_SIZE then
        (let i = unat (addr - ROM_BASE)
         in if i < length (rom m) then Inr (rom m ! i) else Inl Rom_read_past_end)
      else if addr \<ge> FLASH_BASE \<and> addr < FLASH_BASE + FLASH_SIZE then
        (let i = unat (addr - FLASH_BASE)
         in if i < length (flash m) then Inr (flash m ! i) else Inl Flash_read_past_end)
      else if addr = SERIAL_STATUS then Inr 0x01
      else Inr 0x00)"

definition write_physical :: "mmu \<Rightarrow> u32 \<Rightarrow> u8 \<Rightarrow> mmu" where
  "write_physical m addr data =
     (let m = (if addr \<ge> RAM_BASE \<and> addr < RAM_BASE + RAM_SIZE
               then m\<lparr>ram := (ram m)(addr - RAM_BASE := data)\<rparr> else m)
      in if addr = SERIAL_PORT then m\<lparr>cout := cout m @ [data]\<rparr> else m)"

section \<open>Address translation\<close>

text \<open>The scan \<^verbatim>\<open>for (i = 0; i < k_TLB_ENTRIES; ++i) if (tlb_key_[i] >> 13 == vpn2)\<close>.\<close>

function tlb_scan :: "mmu \<Rightarrow> u32 \<Rightarrow> nat \<Rightarrow> nat option" where
  "tlb_scan m vpn2 i =
     (if i < k_TLB_ENTRIES
      then if drop_bit 13 (tlb_key m ! i) = vpn2 then Some i else tlb_scan m vpn2 (Suc i)
      else None)"
  by pat_completeness auto
termination
  by (relation "measure (\<lambda>(m, vpn2, i). k_TLB_ENTRIES - i)") auto

text \<open>The block of assignments that the three TLB exceptions share.\<close>

definition tlb_fault :: "u32 \<Rightarrow> u32 \<Rightarrow> cp0 \<Rightarrow> cp0" where
  "tlb_fault exc_code virtual_addr p =
     (let p = set_exception_code exc_code p;
          p = cp0_set p CP0_BadVAddr virtual_addr;
          p = cp0_set p CP0_Context (cp0_get p CP0_Context AND 0xff80000f);
          p = cp0_set p CP0_Context (cp0_get p CP0_Context OR push_bit 4 (drop_bit 13 virtual_addr));
          p = cp0_set p CP0_EntryHi (cp0_get p CP0_EntryHi AND 0x00001fff);
          p = cp0_set p CP0_EntryHi (cp0_get p CP0_EntryHi OR (virtual_addr AND 0xffffe000))
      in p)"

definition addr_translate :: "cp0 \<Rightarrow> mmu \<Rightarrow> u32 \<Rightarrow> bool \<Rightarrow> bool \<Rightarrow> u32 \<times> bool \<times> cp0" where
  "addr_translate p m virtual_addr write exception =
     (if virtual_addr \<ge> KSEG0_BASE \<and> virtual_addr < KSEG0_BASE + KSEG0_SIZE
      then (virtual_addr AND 0x1fffffff, exception, p)
      else if virtual_addr \<ge> KSEG1_BASE \<and> virtual_addr < KSEG1_BASE + KSEG1_SIZE
      then (virtual_addr AND 0x1fffffff, exception, p)
      else
        (let vpn2 = drop_bit 13 virtual_addr in
         case tlb_scan m vpn2 0 of
           Some i \<Rightarrow>
             (let entry_lo = tlb_data m ! unat (drop_bit 12 virtual_addr AND 0x01) ! i in
              if drop_bit 1 entry_lo AND 0x01 = 0
              then (0x00, True, tlb_fault (if write then Exc_TLBS else Exc_TLBL) virtual_addr p)
              else if drop_bit 2 entry_lo AND 0x01 = 0 \<and> write
              then (0x00, True, tlb_fault Exc_Mod virtual_addr p)
              else ((push_bit 6 entry_lo AND 0xfffff000) OR (virtual_addr AND 0x00000fff),
                    exception, p))
         | None \<Rightarrow>
             (0x00, True, tlb_fault (if write then Exc_TLBS else Exc_TLBL) virtual_addr p)))"

section \<open>Loads and stores\<close>

definition address_error :: "u32 \<Rightarrow> u32 \<Rightarrow> cp0 \<Rightarrow> cp0" where
  "address_error exc_code virtual_addr p =
     cp0_set (set_exception_code exc_code p) CP0_BadVAddr virtual_addr"

definition read_byte :: "cp0 \<Rightarrow> mmu \<Rightarrow> u32 \<Rightarrow> bool \<Rightarrow> ub + (u8 \<times> bool \<times> cp0)" where
  "read_byte p m virtual_addr exception =
     (case addr_translate p m virtual_addr False exception of (physical_addr, exception, p) \<Rightarrow>
        if exception then Inr (0x00, exception, p)
        else bindE (read_physical m physical_addr) (\<lambda>b. Inr (b, exception, p)))"

definition read_half_word :: "cp0 \<Rightarrow> mmu \<Rightarrow> u32 \<Rightarrow> bool \<Rightarrow> ub + (u16 \<times> bool \<times> cp0)" where
  "read_half_word p m virtual_addr exception =
     (if virtual_addr AND 0x01 \<noteq> 0
      then Inr (0x00, True, address_error Exc_AdEL virtual_addr p)
      else case addr_translate p m virtual_addr False exception of (physical_addr, exception, p) \<Rightarrow>
        if exception then Inr (0x00, exception, p)
        else bindE (read_physical m (physical_addr + 0)) (\<lambda>b0.
             bindE (read_physical m (physical_addr + 1)) (\<lambda>b1.
             Inr (ucast b0 OR push_bit 8 (ucast b1), exception, p))))"

definition read_word :: "cp0 \<Rightarrow> mmu \<Rightarrow> u32 \<Rightarrow> bool \<Rightarrow> ub + (u32 \<times> bool \<times> cp0)" where
  "read_word p m virtual_addr exception =
     (if virtual_addr AND 0x03 \<noteq> 0
      then Inr (0x00, True, address_error Exc_AdEL virtual_addr p)
      else case addr_translate p m virtual_addr False exception of (physical_addr, exception, p) \<Rightarrow>
        if exception then Inr (0x00, exception, p)
        else bindE (read_physical m (physical_addr + 0)) (\<lambda>b0.
             bindE (read_physical m (physical_addr + 1)) (\<lambda>b1.
             bindE (read_physical m (physical_addr + 2)) (\<lambda>b2.
             bindE (read_physical m (physical_addr + 3)) (\<lambda>b3.
             Inr (ucast b0 OR push_bit 8 (ucast b1) OR push_bit 16 (ucast b2) OR
                  push_bit 24 (ucast b3), exception, p))))))"

definition write_byte :: "cp0 \<Rightarrow> mmu \<Rightarrow> u32 \<Rightarrow> u8 \<Rightarrow> bool \<Rightarrow> bool \<times> cp0 \<times> mmu" where
  "write_byte p m virtual_addr data exception =
     (case addr_translate p m virtual_addr True exception of (physical_addr, exception, p) \<Rightarrow>
        if exception then (exception, p, m)
        else (exception, p, write_physical m physical_addr data))"

definition write_half_word :: "cp0 \<Rightarrow> mmu \<Rightarrow> u32 \<Rightarrow> u16 \<Rightarrow> bool \<Rightarrow> bool \<times> cp0 \<times> mmu" where
  "write_half_word p m virtual_addr data exception =
     (if virtual_addr AND 0x01 \<noteq> 0
      then (True, address_error Exc_AdES virtual_addr p, m)
      else case addr_translate p m virtual_addr True exception of (physical_addr, exception, p) \<Rightarrow>
        if exception then (exception, p, m)
        else (let m = write_physical m (physical_addr + 0) (ucast data);
                  m = write_physical m (physical_addr + 1) (ucast (drop_bit 8 data))
              in (exception, p, m)))"

definition write_word :: "cp0 \<Rightarrow> mmu \<Rightarrow> u32 \<Rightarrow> u32 \<Rightarrow> bool \<Rightarrow> bool \<times> cp0 \<times> mmu" where
  "write_word p m virtual_addr data exception =
     (if virtual_addr AND 0x03 \<noteq> 0
      then (True, address_error Exc_AdES virtual_addr p, m)
      else case addr_translate p m virtual_addr True exception of (physical_addr, exception, p) \<Rightarrow>
        if exception then (exception, p, m)
        else (let m = write_physical m (physical_addr + 0) (ucast data);
                  m = write_physical m (physical_addr + 1) (ucast (drop_bit 8 data));
                  m = write_physical m (physical_addr + 2) (ucast (drop_bit 16 data));
                  m = write_physical m (physical_addr + 3) (ucast (drop_bit 24 data))
              in (exception, p, m)))"

section \<open>The shape of the TLB arrays\<close>

definition mmu_wf :: "mmu \<Rightarrow> bool" where
  "mmu_wf m \<longleftrightarrow>
     length (tlb_key m) = k_TLB_ENTRIES \<and> length (tlb_data m) = 2 \<and>
     (\<forall>row \<in> set (tlb_data m). length row = k_TLB_ENTRIES)"

declare tlb_scan.simps [simp del]

lemma mmu_wf_init:
  "length key = 16 \<Longrightarrow> length d0 = 16 \<Longrightarrow> length d1 = 16 \<Longrightarrow> mmu_wf (MMU_init r f key [d0, d1])"
  by (simp add: mmu_wf_def MMU_init_def)

lemma mmu_wf_write_physical [simp]: "mmu_wf (write_physical m a d) = mmu_wf m"
  by (simp add: mmu_wf_def write_physical_def Let_def)

lemma write_physical_tlb [simp]:
  "tlb_key (write_physical m a d) = tlb_key m"
  "tlb_data (write_physical m a d) = tlb_data m"
  "rom (write_physical m a d) = rom m"
  "flash (write_physical m a d) = flash m"
  by (simp_all add: write_physical_def Let_def)

lemma cp0_wf_fault [simp]:
  "cp0_wf (tlb_fault e a p) = cp0_wf p"
  "cp0_wf (address_error e a p) = cp0_wf p"
  by (simp_all add: tlb_fault_def address_error_def Let_def)

lemma cp0_wf_addr_translate:
  "addr_translate p m a w e = (pa, e', p') \<Longrightarrow> cp0_wf p' = cp0_wf p"
  by (auto simp: addr_translate_def Let_def split: if_splits option.splits)

lemma addr_translate_write_physical [simp]:
  "addr_translate p (write_physical m b d) a w e = addr_translate p m a w e"
proof -
  have "tlb_scan (write_physical m b d) v i = tlb_scan m v i" for v i
  proof (induction m v i rule: tlb_scan.induct)
    case (1 m v i)
    then show ?case
      by (simp add: tlb_scan.simps [of "write_physical m b d" v i] tlb_scan.simps [of m v i])
  qed
  then show ?thesis by (auto simp: addr_translate_def Let_def split: option.split)
qed

section \<open>Translation refines the architectural TLB lookup\<close>

text \<open>
  The specification: a TLB is a list of entries \<open>(EntryHi, EntryLo0, EntryLo1)\<close>, of which the first
  with the right virtual page pair is used. Addresses are read as numbers: a page is 4096 bytes, a
  pair of pages 8192, the page frame number is the field above the six flag bits.
\<close>

datatype xlate = Phys u32 | Fault u32

type_synonym tlb_entry = "u32 \<times> u32 \<times> u32"

definition tlb_entries :: "mmu \<Rightarrow> tlb_entry list" where
  "tlb_entries m = zip (tlb_key m) (zip (tlb_data m ! 0) (tlb_data m ! 1))"

definition entry_matches :: "u32 \<Rightarrow> tlb_entry \<Rightarrow> bool" where
  "entry_matches va e \<longleftrightarrow> unat (fst e) div 8192 = unat va div 8192"

definition entry_lo :: "u32 \<Rightarrow> tlb_entry \<Rightarrow> u32" where
  "entry_lo va e = (if even (unat va div 4096) then fst (snd e) else snd (snd e))"

definition frame_addr :: "u32 \<Rightarrow> u32 \<Rightarrow> u32" where
  "frame_addr lo va = of_nat (unat lo div 64 * 4096 + unat va mod 4096)"

definition translate_spec :: "tlb_entry list \<Rightarrow> u32 \<Rightarrow> bool \<Rightarrow> xlate" where
  "translate_spec tlb va write =
     (if 2 ^ 31 \<le> unat va \<and> unat va < 2 ^ 31 + 2 ^ 30 then Phys (of_nat (unat va mod 2 ^ 29))
      else case List.find (entry_matches va) tlb of
        None \<Rightarrow> Fault (if write then Exc_TLBS else Exc_TLBL)
      | Some e \<Rightarrow>
          (let lo = entry_lo va e in
           if \<not> bit lo 1 then Fault (if write then Exc_TLBS else Exc_TLBL)
           else if write \<and> \<not> bit lo 2 then Fault Exc_Mod
           else Phys (frame_addr lo va)))"

lemma segment_words:
  "(va \<ge> KSEG0_BASE \<and> va < KSEG0_BASE + KSEG0_SIZE) \<or> (va \<ge> KSEG1_BASE \<and> va < KSEG1_BASE + KSEG1_SIZE)
   \<longleftrightarrow> 2 ^ 31 \<le> unat va \<and> unat va < 2 ^ 31 + 2 ^ 30"
  by (auto simp: word_le_nat_alt word_less_nat_alt)

lemma page_number_eq: "drop_bit 13 (x :: u32) = drop_bit 13 y \<longleftrightarrow> unat x div 8192 = unat y div 8192"
  using u32_drop_bit_eq_iff [of 13 x y] by simp

lemma page_select: "unat (drop_bit 12 (x :: u32) AND 1) = (if even (unat x div 4096) then 0 else 1)"
  using u32_bit_iff [of x 12] by (simp add: u32_drop_bit_and_1)

lemma unmapped_word: "(x :: u32) AND 0x1fffffff = of_nat (unat x mod 2 ^ 29)"
  by (simp only: u32_of_nat_mod) (simp add: mask_eq_exp_minus_1)

lemma frame_addr_word:
  "(push_bit 6 lo AND 0xfffff000) OR (va AND 0xfff) = frame_addr lo va"
proof -
  have "(push_bit 6 lo AND 0xfffff000) OR (va AND 0xfff)
      = push_bit 12 (drop_bit 6 lo) OR (va AND mask 12)"
    by (simp add: u32_bitwise mask_eq_exp_minus_1)
  also have "\<dots> = push_bit 12 (drop_bit 6 lo) + (va AND mask 12)"
    by (rule disjunctive_add [symmetric]) (auto simp: bit_simps)
  also have "\<dots> = frame_addr lo va"
    using u32_of_nat_div [of lo 6] u32_of_nat_mod [of va 12]
    by (simp add: frame_addr_def push_bit_eq_mult)
  finally show ?thesis .
qed

lemma mmu_wf_rows:
  assumes "mmu_wf m"
  obtains d0 d1 where "tlb_data m = [d0, d1]" "length d0 = 16" "length d1 = 16"
    "length (tlb_key m) = 16"
proof -
  from assms have "length (tlb_data m) = 2" by (simp add: mmu_wf_def)
  then obtain d0 d1 where "tlb_data m = [d0, d1]"
    by (cases "tlb_data m"; cases "tl (tlb_data m)") auto
  with assms that show thesis by (simp add: mmu_wf_def)
qed

lemma tlb_scan_find:
  assumes "mmu_wf m"
  shows "case tlb_scan m (drop_bit 13 va) i of
      None \<Rightarrow> List.find (entry_matches va) (drop i (tlb_entries m)) = None
    | Some j \<Rightarrow> j < 16 \<and>
        List.find (entry_matches va) (drop i (tlb_entries m)) = Some (tlb_entries m ! j)"
proof -
  from assms obtain d0 d1 where d: "tlb_data m = [d0, d1]" "length d0 = 16" "length d1 = 16"
    "length (tlb_key m) = 16" by (rule mmu_wf_rows)
  then have len: "length (tlb_entries m) = 16" by (simp add: tlb_entries_def)
  show ?thesis
  proof (induction "16 - i" arbitrary: i)
    case 0
    then show ?case by (simp add: tlb_scan.simps [of m _ i] len)
  next
    case (Suc n)
    then have i: "i < 16" by simp
    have "drop i (tlb_entries m) = tlb_entries m ! i # drop (Suc i) (tlb_entries m)"
      using i len by (simp add: Cons_nth_drop_Suc)
    moreover have "entry_matches va (tlb_entries m ! i) \<longleftrightarrow> drop_bit 13 (tlb_key m ! i) = drop_bit 13 va"
      using i d by (simp add: entry_matches_def tlb_entries_def page_number_eq)
    moreover note Suc.hyps(1) [of "Suc i"] Suc.hyps(2)
    ultimately show ?case
      using i by (auto simp: tlb_scan.simps [of m _ i] split: option.splits)
  qed
qed

text \<open>
  C2. For every TLB content, virtual address and access kind, \<^verbatim>\<open>addr_translate\<close> computes the
  architectural lookup: the physical address with CP0 and the exception flag untouched, or the
  right TLB exception (refill, invalid or modified) with its CP0 registers set.
\<close>

theorem addr_translate_refines:
  assumes "mmu_wf m"
  shows "addr_translate p m va write exception =
    (case translate_spec (tlb_entries m) va write of
       Phys pa \<Rightarrow> (pa, exception, p)
     | Fault code \<Rightarrow> (0, True, tlb_fault code va p))"
proof (cases "2 ^ 31 \<le> unat va \<and> unat va < 2 ^ 31 + 2 ^ 30")
  case True
  then show ?thesis
    using segment_words [of va]
    by (auto simp: addr_translate_def translate_spec_def unmapped_word)
next
  case False
  note seg = False [folded segment_words]
  from assms obtain d0 d1 where d: "tlb_data m = [d0, d1]" "length d0 = 16" "length d1 = 16"
    "length (tlb_key m) = 16" by (rule mmu_wf_rows)
  have lo: "tlb_data m ! unat (drop_bit 12 va AND 1) ! i = entry_lo va (tlb_entries m ! i)"
    if "i < 16" for i
    using that d by (simp add: entry_lo_def tlb_entries_def page_select)
  show ?thesis
  proof (cases "tlb_scan m (drop_bit 13 va) 0")
    case None
    then show ?thesis
      using seg False tlb_scan_find [OF assms, of va 0]
      by (auto simp: addr_translate_def translate_spec_def Let_def)
  next
    case (Some i)
    then show ?thesis
      using seg False tlb_scan_find [OF assms, of va 0] lo [of i]
      by (auto simp: addr_translate_def translate_spec_def Let_def u32_drop_bit_and_1
          frame_addr_word)
  qed
qed

theorem addr_translate_refines_witness:
  "addr_translate CP0_init (MMU_init [] [] (0x00400000 # replicate 15 0)
       [replicate 16 0, 0x000001c6 # replicate 15 0]) 0x00401abc True False
   = (0x7abc, False, CP0_init)"
proof -
  let ?m = "MMU_init [] [] (0x00400000 # replicate 15 0)
    [replicate 16 0, 0x000001c6 # replicate 15 0]"
  have wf: "mmu_wf ?m" by (simp add: mmu_wf_def MMU_init_def)
  have "translate_spec (tlb_entries ?m) 0x00401abc True = Phys 0x7abc"
    by (simp add: translate_spec_def tlb_entries_def MMU_init_def entry_matches_def entry_lo_def
        frame_addr_def Let_def replicate_16)
  then show ?thesis using addr_translate_refines [OF wf, of CP0_init "0x00401abc" True False] by simp
qed

section \<open>The registers a TLB exception sets\<close>

lemma fault_words:
  fixes x va :: u32
  shows "drop_bit 4 ((x AND 0xff80000f) OR push_bit 4 (drop_bit 13 va)) AND 0x7ffff = drop_bit 13 va"
    and "((x AND 0xff80000f) OR push_bit 4 (drop_bit 13 va)) AND 0xff80000f = x AND 0xff80000f"
    and "drop_bit 13 ((x AND 0x1fff) OR (va AND 0xffffe000)) = drop_bit 13 va"
    and "((x AND 0x1fff) OR (va AND 0xffffe000)) AND 0x1fff = x AND 0x1fff"
  by (simp_all add: u32_bitwise)

lemma tlb_fault_get:
  assumes "cp0_wf p"
  shows "cp0_get (tlb_fault e va p) i =
    (if i = CP0_Cause then cp0_get (set_exception_code e p) CP0_Cause
     else if i = CP0_BadVAddr then va
     else if i = CP0_Context then (cp0_get p i AND 0xff80000f) OR push_bit 4 (drop_bit 13 va)
     else if i = CP0_EntryHi then (cp0_get p i AND 0x1fff) OR (va AND 0xffffe000)
     else cp0_get p i)"
  using assms by (simp add: tlb_fault_def Let_def cp0_get_set)

section \<open>Physical memory: reads after writes\<close>

lemma read_write_physical:
  "read_physical (write_physical m a d) b =
     (if a = b \<and> b < RAM_SIZE then Inr d else read_physical m b)"
  by (auto simp: read_physical_def write_physical_def Let_def)

lemma word_of_bytes:
  "ucast (ucast w :: u8) OR push_bit 8 (ucast (ucast (drop_bit 8 w) :: u8)) OR
   push_bit 16 (ucast (ucast (drop_bit 16 w) :: u8)) OR
   push_bit 24 (ucast (ucast (drop_bit 24 w) :: u8)) = (w :: u32)"
  by (simp add: u32_bitwise)

lemma page_offset_words:
  fixes va lo :: u32
  shows "(va AND 0x1fffffff) AND 0xfff = va AND 0xfff"
    and "((push_bit 6 lo AND 0xfffff000) OR (va AND 0xfff)) AND 0xfff = va AND 0xfff"
  by (simp_all add: u32_bitwise)

lemma addr_translate_page_offset:
  "addr_translate p m va w e = (pa, False, p') \<Longrightarrow> pa AND 0xfff = va AND 0xfff"
  by (auto simp: addr_translate_def Let_def page_offset_words split: if_splits option.splits)

lemma addr_translate_ok_cp0: "addr_translate p m va w e = (pa, False, p') \<Longrightarrow> p' = p \<and> \<not> e"
  by (auto simp: addr_translate_def Let_def split: if_splits option.splits)

text \<open>An address that can be written can be read, at the same place.\<close>

lemma addr_translate_write_read:
  "addr_translate p m va True e = (pa, False, p') \<Longrightarrow> addr_translate p m va False e = (pa, False, p')"
  by (auto simp: addr_translate_def Let_def split: if_splits option.splits)

lemma word_aligned_in_ram:
  fixes pa :: u32
  assumes "pa AND 3 = 0" and "pa < RAM_SIZE"
  shows "pa + 1 < RAM_SIZE" and "pa + 2 < RAM_SIZE" and "pa + 3 < RAM_SIZE"
proof -
  have m: "unat pa mod 4 = 0"
    using u32_unat_and_mask [of pa 2] assms(1) by (simp add: mask_eq_exp_minus_1)
  have l: "unat pa < 8388608" using assms(2) by (simp add: word_less_nat_alt)
  have "unat pa + 3 < 8388608" using m l by presburger
  then show "pa + 1 < RAM_SIZE" and "pa + 2 < RAM_SIZE" and "pa + 3 < RAM_SIZE"
    by (simp_all add: word_less_nat_alt unat_word_ariths)
qed

text \<open>
  A TLB exception records the fault completely and nothing else: ExcCode is the code, BadVAddr the
  address, the BadVPN2 field of Context and the VPN2 field of EntryHi are the page pair of the
  address, the PTEBase and ASID fields and every other CP0 register keep their values.
\<close>

theorem tlb_fault_effect:
  assumes "cp0_wf p" and "e AND 0x1f = e"
  shows "ExcCode (tlb_fault e va p) = e \<and>
    cp0_get (tlb_fault e va p) CP0_BadVAddr = va \<and>
    drop_bit 4 (cp0_get (tlb_fault e va p) CP0_Context) AND 0x7ffff = drop_bit 13 va \<and>
    cp0_get (tlb_fault e va p) CP0_Context AND 0xff80000f = cp0_get p CP0_Context AND 0xff80000f \<and>
    drop_bit 13 (cp0_get (tlb_fault e va p) CP0_EntryHi) = drop_bit 13 va \<and>
    cp0_get (tlb_fault e va p) CP0_EntryHi AND 0x1fff = cp0_get p CP0_EntryHi AND 0x1fff \<and>
    (\<forall>i. i \<notin> {CP0_Cause, CP0_BadVAddr, CP0_Context, CP0_EntryHi} \<longrightarrow>
       cp0_get (tlb_fault e va p) i = cp0_get p i)"
  using ExcCode_set_exception_code [OF assms] assms(1) fault_words
  by (simp add: ExcCode_def tlb_fault_get del: drop_bit_or drop_bit_and)

theorem tlb_fault_effect_witness:
  "ExcCode (tlb_fault Exc_TLBS 0x00403004 CP0_init) = Exc_TLBS \<and>
   cp0_get (tlb_fault Exc_TLBS 0x00403004 CP0_init) CP0_BadVAddr = 0x00403004 \<and>
   cp0_get (tlb_fault Exc_TLBS 0x00403004 CP0_init) CP0_EBase = 0x80000180"
  using tlb_fault_effect [of CP0_init Exc_TLBS "0x00403004"]
  by (simp add: CP0_init_get)

text \<open>
  A word stored to a mapped, word-aligned RAM address is read back by the next load from that
  address; the store raises no exception, leaves CP0 alone and changes no other physical byte.
\<close>

theorem write_read_word:
  assumes "mmu_wf m" and "va AND 3 = 0"
    and "addr_translate p m va True False = (pa, False, p')" and "pa < RAM_SIZE"
  shows "\<exists>m'. write_word p m va w False = (False, p, m') \<and>
    read_word p m' va False = Inr (w, False, p) \<and>
    (\<forall>a. a \<notin> {pa, pa + 1, pa + 2, pa + 3} \<longrightarrow> read_physical m' a = read_physical m a)"
proof -
  from assms(3) have p': "p' = p" by (simp add: addr_translate_ok_cp0)
  have "pa AND 0xfff = va AND 0xfff" using assms(3) by (rule addr_translate_page_offset)
  then have "(pa AND 0xfff) AND 3 = (va AND 0xfff) AND 3" by simp
  then have "pa AND 3 = 0" using assms(2) by (simp add: and.assoc)
  note ram = word_aligned_in_ram [OF this assms(4)] assms(4)
  show ?thesis
    using ram addr_translate_write_read [OF assms(3)] assms(2,3) word_of_bytes [of w]
    by (simp add: write_word_def read_word_def p' Let_def read_write_physical)
qed

theorem write_read_word_witness:
  "\<exists>m'. write_word CP0_init (MMU_init [] [] (replicate 16 0) (replicate 2 (replicate 16 0)))
      0x80001000 0xdeadbeef False = (False, CP0_init, m') \<and>
    read_word CP0_init m' 0x80001000 False = Inr (0xdeadbeef, False, CP0_init)"
proof -
  let ?m = "MMU_init [] [] (replicate 16 0) (replicate 2 (replicate 16 0))"
  have wf: "mmu_wf ?m" by (simp add: mmu_wf_def MMU_init_def)
  have tr: "addr_translate CP0_init ?m 0x80001000 True False = (0x1000, False, CP0_init)"
    by (simp add: addr_translate_def)
  show ?thesis
    using write_read_word [OF wf _ tr, of "0xdeadbeef"] by auto
qed

end
