(* ===== verification/Cpu.thy ===== *)
theory Cpu
  imports Mmu
begin

unbundle bit_operations_syntax

text \<open>
  The CPU of the emulator (\<^verbatim>\<open>src/cpu.h\<close>, \<^verbatim>\<open>src/cpu.cc\<close>, \<^verbatim>\<open>src/cpu_instructions.cc\<close>): the register
  file, the instruction fields, one definition per \<^verbatim>\<open>exe_*\<close> handler, the decoder, and the
  fetch-decode-execute step with exception entry and the clock interrupt.

  A handler that ignores its \<^verbatim>\<open>bool&\<close> is a function on the CPU state; one that can raise an exception
  also returns the flag; one whose C++ is undefined for some operands yields \<open>Inl\<close> there.
\<close>

section \<open>State\<close>

record cpu =
  cp0 :: cp0
  mmu :: mmu
  registers :: "u32 list"
  pc :: u32
  instruction :: u32
  hi :: u32
  lo :: u32

abbreviation (input) PC_INITIAL :: u32 where "PC_INITIAL \<equiv> 0xbfc00000"
abbreviation (input) REG_ZERO :: nat where "REG_ZERO \<equiv> 0"
abbreviation (input) REG_RA :: nat where "REG_RA \<equiv> 31"

text \<open>
  The constructor leaves the general registers, \<^verbatim>\<open>instruction_\<close>, \<^verbatim>\<open>hi_\<close>, \<^verbatim>\<open>lo_\<close> and the TLB without a
  value; the model takes what memory held there as arguments.
\<close>

definition CPU_init :: "mmu \<Rightarrow> u32 list \<Rightarrow> u32 \<Rightarrow> u32 \<Rightarrow> u32 \<Rightarrow> cpu" where
  "CPU_init m regs0 instr0 hi0 lo0 =
     \<lparr>cp0 = CP0_init, mmu = m, registers = regs0, pc = PC_INITIAL, instruction = instr0,
      hi = hi0, lo = lo0\<rparr>"

section \<open>Fields of the instruction\<close>

definition main_opcode :: "cpu \<Rightarrow> u32" where "main_opcode c = drop_bit 26 (instruction c)"
definition sub_opcode :: "cpu \<Rightarrow> u32" where "sub_opcode c = instruction c AND 0x3f"
definition rs :: "cpu \<Rightarrow> u32" where "rs c = drop_bit 21 (instruction c) AND 0x1f"
definition rt :: "cpu \<Rightarrow> u32" where "rt c = drop_bit 16 (instruction c) AND 0x1f"
definition rd :: "cpu \<Rightarrow> u32" where "rd c = drop_bit 11 (instruction c) AND 0x1f"
definition shift :: "cpu \<Rightarrow> u32" where "shift c = drop_bit 6 (instruction c) AND 0x1f"
definition branch_offset :: "cpu \<Rightarrow> u16" where "branch_offset c = ucast (instruction c AND 0xffff)"
definition jump_target :: "cpu \<Rightarrow> u32" where "jump_target c = instruction c AND 0x3ffffff"
definition signed_immediate :: "cpu \<Rightarrow> u16" where "signed_immediate c = ucast (instruction c AND 0xffff)"
definition unsigned_immediate :: "cpu \<Rightarrow> u16" where "unsigned_immediate c = ucast (instruction c AND 0xffff)"

text \<open>\<^verbatim>\<open>registers_[i]\<close> read and assigned, and the assignment \<^verbatim>\<open>pc_ += n\<close>.\<close>

definition reg :: "cpu \<Rightarrow> u32 \<Rightarrow> u32" where
  "reg c i = registers c ! unat i"

definition set_reg :: "u32 \<Rightarrow> u32 \<Rightarrow> cpu \<Rightarrow> cpu" where
  "set_reg i v c = c\<lparr>registers := (registers c)[unat i := v]\<rparr>"

definition pc_add :: "u32 \<Rightarrow> cpu \<Rightarrow> cpu" where
  "pc_add n c = c\<lparr>pc := pc c + n\<rparr>"

section \<open>Instruction handlers\<close>

definition exe_sll :: "cpu \<Rightarrow> cpu" where
  "exe_sll c = pc_add 4 (set_reg (rd c) (push_bit (unat (shift c)) (reg c (rt c))) c)"

definition exe_srl :: "cpu \<Rightarrow> cpu" where
  "exe_srl c = pc_add 4 (set_reg (rd c) (drop_bit (unat (shift c)) (reg c (rt c))) c)"

definition exe_sra :: "cpu \<Rightarrow> cpu" where
  "exe_sra c = pc_add 4 (set_reg (rd c) (signed_drop_bit (unat (shift c)) (reg c (rt c))) c)"

definition exe_sllv :: "cpu \<Rightarrow> ub + cpu" where
  "exe_sllv c =
     (if reg c (rs c) < 32
      then Inr (pc_add 4 (set_reg (rd c) (push_bit (unat (reg c (rs c))) (reg c (rt c))) c))
      else Inl Shift_too_large)"

definition exe_srlv :: "cpu \<Rightarrow> ub + cpu" where
  "exe_srlv c =
     (if reg c (rs c) < 32
      then Inr (pc_add 4 (set_reg (rd c) (drop_bit (unat (reg c (rs c))) (reg c (rt c))) c))
      else Inl Shift_too_large)"

definition exe_srav :: "cpu \<Rightarrow> ub + cpu" where
  "exe_srav c =
     (if reg c (rs c) < 32
      then Inr (pc_add 4 (set_reg (rd c) (signed_drop_bit (unat (reg c (rs c))) (reg c (rt c))) c))
      else Inl Shift_too_large)"

definition exe_jr :: "cpu \<Rightarrow> cpu" where
  "exe_jr c = c\<lparr>pc := reg c (rs c)\<rparr>"

definition exe_jalr :: "cpu \<Rightarrow> cpu" where
  "exe_jalr c =
     (let npc = reg c (rs c); c = set_reg (rd c) (pc c + 4) c in c\<lparr>pc := npc\<rparr>)"

definition exe_syscall :: "cpu \<Rightarrow> cpu \<times> bool" where
  "exe_syscall c = (c\<lparr>cp0 := set_exception_code Exc_Syscall (cp0 c)\<rparr>, True)"

definition exe_mfhi :: "cpu \<Rightarrow> cpu" where
  "exe_mfhi c = pc_add 4 (set_reg (rd c) (hi c) c)"

definition exe_mthi :: "cpu \<Rightarrow> cpu" where
  "exe_mthi c = pc_add 4 (c\<lparr>hi := reg c (rs c)\<rparr>)"

definition exe_mflo :: "cpu \<Rightarrow> cpu" where
  "exe_mflo c = pc_add 4 (set_reg (rd c) (lo c) c)"

definition exe_mtlo :: "cpu \<Rightarrow> cpu" where
  "exe_mtlo c = pc_add 4 (c\<lparr>lo := reg c (rs c)\<rparr>)"

definition exe_mult :: "cpu \<Rightarrow> ub + cpu" where
  "exe_mult c =
     (let a = ucast (reg c (rs c)) :: u64; b = ucast (reg c (rt c)) :: u64 in
      if sint a * sint b < - (2 ^ 63) \<or> 2 ^ 63 \<le> sint a * sint b then Inl Signed_overflow
      else (let a = a * b
            in Inr (pc_add 4 (c\<lparr>hi := ucast (signed_drop_bit 32 a), lo := ucast a\<rparr>))))"

definition exe_addu :: "cpu \<Rightarrow> cpu" where
  "exe_addu c = pc_add 4 (set_reg (rd c) (reg c (rs c) + reg c (rt c)) c)"

definition exe_subu :: "cpu \<Rightarrow> cpu" where
  "exe_subu c = pc_add 4 (set_reg (rd c) (reg c (rs c) - reg c (rt c)) c)"

definition exe_and :: "cpu \<Rightarrow> cpu" where
  "exe_and c = pc_add 4 (set_reg (rd c) (reg c (rs c) AND reg c (rt c)) c)"

definition exe_or :: "cpu \<Rightarrow> cpu" where
  "exe_or c = pc_add 4 (set_reg (rd c) (reg c (rs c) OR reg c (rt c)) c)"

definition exe_xor :: "cpu \<Rightarrow> cpu" where
  "exe_xor c = pc_add 4 (set_reg (rd c) (reg c (rs c) XOR reg c (rt c)) c)"

definition exe_nor :: "cpu \<Rightarrow> cpu" where
  "exe_nor c = pc_add 4 (set_reg (rd c) (NOT (reg c (rs c) OR reg c (rt c))) c)"

definition exe_slt :: "cpu \<Rightarrow> cpu" where
  "exe_slt c = pc_add 4 (set_reg (rd c) (if sint (reg c (rs c)) < sint (reg c (rt c)) then 0x01 else 0x00) c)"

definition exe_sltu :: "cpu \<Rightarrow> cpu" where
  "exe_sltu c = pc_add 4 (set_reg (rd c) (if reg c (rs c) < reg c (rt c) then 0x01 else 0x00) c)"

definition exe_bltz :: "cpu \<Rightarrow> cpu" where
  "exe_bltz c =
     pc_add 4 (if sint (reg c (rs c)) < 0 then pc_add (scast (branch_offset c) * 4) c else c)"

definition exe_bgez :: "cpu \<Rightarrow> cpu" where
  "exe_bgez c =
     pc_add 4 (if sint (reg c (rs c)) \<ge> 0 then pc_add (scast (branch_offset c) * 4) c else c)"

definition exe_j :: "cpu \<Rightarrow> cpu" where
  "exe_j c = c\<lparr>pc := (pc c AND 0xf0000000) OR jump_target c * 4\<rparr>"

definition exe_jal :: "cpu \<Rightarrow> cpu" where
  "exe_jal c =
     (let c = set_reg (of_nat REG_RA) (pc c + 4) c
      in c\<lparr>pc := (pc c AND 0xf0000000) OR jump_target c * 4\<rparr>)"

definition exe_beq :: "cpu \<Rightarrow> cpu" where
  "exe_beq c =
     pc_add 4 (if reg c (rs c) = reg c (rt c) then pc_add (scast (branch_offset c) * 4) c else c)"

definition exe_bne :: "cpu \<Rightarrow> cpu" where
  "exe_bne c =
     pc_add 4 (if reg c (rs c) \<noteq> reg c (rt c) then pc_add (scast (branch_offset c) * 4) c else c)"

definition exe_blez :: "cpu \<Rightarrow> cpu" where
  "exe_blez c =
     pc_add 4 (if sint (reg c (rs c)) \<le> 0 then pc_add (scast (branch_offset c) * 4) c else c)"

definition exe_bgtz :: "cpu \<Rightarrow> cpu" where
  "exe_bgtz c =
     pc_add 4 (if sint (reg c (rs c)) > 0 then pc_add (scast (branch_offset c) * 4) c else c)"

definition exe_addiu :: "cpu \<Rightarrow> cpu" where
  "exe_addiu c = pc_add 4 (set_reg (rt c) (reg c (rs c) + scast (signed_immediate c)) c)"

definition exe_slti :: "cpu \<Rightarrow> cpu" where
  "exe_slti c = pc_add 4 (set_reg (rt c) (if sint (reg c (rs c)) < sint (signed_immediate c) then 0x01 else 0x00) c)"

definition exe_sltiu :: "cpu \<Rightarrow> cpu" where
  "exe_sltiu c = pc_add 4 (set_reg (rt c) (if reg c (rs c) < ucast (unsigned_immediate c) then 0x01 else 0x00) c)"

definition exe_andi :: "cpu \<Rightarrow> cpu" where
  "exe_andi c = pc_add 4 (set_reg (rt c) (reg c (rs c) AND ucast (unsigned_immediate c)) c)"

definition exe_ori :: "cpu \<Rightarrow> cpu" where
  "exe_ori c = pc_add 4 (set_reg (rt c) (reg c (rs c) OR ucast (unsigned_immediate c)) c)"

definition exe_xori :: "cpu \<Rightarrow> cpu" where
  "exe_xori c = pc_add 4 (set_reg (rt c) (reg c (rs c) XOR ucast (unsigned_immediate c)) c)"

definition exe_lui :: "cpu \<Rightarrow> cpu" where
  "exe_lui c = pc_add 4 (set_reg (rt c) (push_bit 16 (ucast (unsigned_immediate c))) c)"

definition exe_mfc0 :: "cpu \<Rightarrow> cpu" where
  "exe_mfc0 c = pc_add 4 (set_reg (rt c) (cp0_get (cp0 c) (unat (rd c))) c)"

definition exe_mtc0 :: "cpu \<Rightarrow> cpu" where
  "exe_mtc0 c = pc_add 4 (c\<lparr>cp0 := cp0_set (cp0 c) (unat (rd c)) (reg c (rt c))\<rparr>)"

definition exe_tlbwi :: "cpu \<Rightarrow> ub + cpu" where
  "exe_tlbwi c =
     (let p = cp0 c; m = mmu c; i = unat (cp0_get p CP0_Index) in
      if k_TLB_ENTRIES \<le> i then Inl Tlb_index_out_of_range
      else
        (let m = m\<lparr>tlb_key := (tlb_key m)[i := cp0_get p CP0_EntryHi]\<rparr>;
             m = m\<lparr>tlb_data := (tlb_data m)[0 := (tlb_data m ! 0)[i := cp0_get p CP0_EntryLo0]]\<rparr>;
             m = m\<lparr>tlb_data := (tlb_data m)[1 := (tlb_data m ! 1)[i := cp0_get p CP0_EntryLo1]]\<rparr>
         in Inr (pc_add 4 (c\<lparr>mmu := m\<rparr>))))"

definition exe_eret :: "cpu \<Rightarrow> cpu" where
  "exe_eret c =
     (let c = c\<lparr>pc := cp0_get (cp0 c) CP0_EPC\<rparr> in c\<lparr>cp0 := unset_Status_EXL (cp0 c)\<rparr>)"

definition exe_lb :: "cpu \<Rightarrow> bool \<Rightarrow> ub + (cpu \<times> bool)" where
  "exe_lb c exception =
     bindE (read_byte (cp0 c) (mmu c) (reg c (rs c) + scast (signed_immediate c)) exception)
       (\<lambda>(v, exception, p).
          (let c = c\<lparr>cp0 := p\<rparr> in
           if exception then Inr (c, exception)
           else Inr (pc_add 4 (set_reg (rt c) (scast v) c), exception)))"

definition exe_lw :: "cpu \<Rightarrow> bool \<Rightarrow> ub + (cpu \<times> bool)" where
  "exe_lw c exception =
     bindE (read_word (cp0 c) (mmu c) (reg c (rs c) + scast (signed_immediate c)) exception)
       (\<lambda>(v, exception, p).
          (let c = c\<lparr>cp0 := p\<rparr> in
           if exception then Inr (c, exception)
           else Inr (pc_add 4 (set_reg (rt c) (v) c), exception)))"

definition exe_lbu :: "cpu \<Rightarrow> bool \<Rightarrow> ub + (cpu \<times> bool)" where
  "exe_lbu c exception =
     bindE (read_byte (cp0 c) (mmu c) (reg c (rs c) + scast (signed_immediate c)) exception)
       (\<lambda>(v, exception, p).
          (let c = c\<lparr>cp0 := p\<rparr> in
           if exception then Inr (c, exception)
           else Inr (pc_add 4 (set_reg (rt c) (ucast v) c), exception)))"

definition exe_lhu :: "cpu \<Rightarrow> bool \<Rightarrow> ub + (cpu \<times> bool)" where
  "exe_lhu c exception =
     bindE (read_half_word (cp0 c) (mmu c) (reg c (rs c) + scast (signed_immediate c)) exception)
       (\<lambda>(v, exception, p).
          (let c = c\<lparr>cp0 := p\<rparr> in
           if exception then Inr (c, exception)
           else Inr (pc_add 4 (set_reg (rt c) (ucast v) c), exception)))"

definition exe_sb :: "cpu \<Rightarrow> bool \<Rightarrow> cpu \<times> bool" where
  "exe_sb c exception =
     (case write_byte (cp0 c) (mmu c) (reg c (rs c) + scast (signed_immediate c)) (ucast (reg c (rt c) AND 0xff)) exception of
        (exception, p, m) \<Rightarrow>
          (let c = c\<lparr>cp0 := p, mmu := m\<rparr> in
           if exception then (c, exception) else (pc_add 4 c, exception)))"

definition exe_sw :: "cpu \<Rightarrow> bool \<Rightarrow> cpu \<times> bool" where
  "exe_sw c exception =
     (case write_word (cp0 c) (mmu c) (reg c (rs c) + scast (signed_immediate c)) (reg c (rt c)) exception of
        (exception, p, m) \<Rightarrow>
          (let c = c\<lparr>cp0 := p, mmu := m\<rparr> in
           if exception then (c, exception) else (pc_add 4 c, exception)))"

definition exe_cache :: "cpu \<Rightarrow> cpu" where
  "exe_cache c = pc_add 4 c"

section \<open>Decoder\<close>

definition reserved_instruction :: "cpu \<Rightarrow> cpu \<times> bool" where
  "reserved_instruction c = (c\<lparr>cp0 := set_exception_code Exc_RI (cp0 c)\<rparr>, True)"

text \<open>The outcome of a handler that does not touch the exception flag.\<close>

definition plain :: "bool \<Rightarrow> cpu \<Rightarrow> ub + (cpu \<times> bool)" where
  "plain exception c = Inr (c, exception)"

definition plainE :: "bool \<Rightarrow> ub + cpu \<Rightarrow> ub + (cpu \<times> bool)" where
  "plainE exception r = bindE r (plain exception)"

definition instruction_decode :: "cpu \<Rightarrow> bool \<Rightarrow> ub + (cpu \<times> bool)" where
  "instruction_decode c e =
    (if main_opcode c = 0b000000 then
       (if sub_opcode c = 0b000000 then plain e (exe_sll c)
        else if sub_opcode c = 0b000010 then plain e (exe_srl c)
        else if sub_opcode c = 0b000011 then plain e (exe_sra c)
        else if sub_opcode c = 0b000100 then plainE e (exe_sllv c)
        else if sub_opcode c = 0b000110 then plainE e (exe_srlv c)
        else if sub_opcode c = 0b000111 then plainE e (exe_srav c)
        else if sub_opcode c = 0b001000 then plain e (exe_jr c)
        else if sub_opcode c = 0b001001 then plain e (exe_jalr c)
        else if sub_opcode c = 0b001100 then Inr (exe_syscall c)
        else if sub_opcode c = 0b010000 then plain e (exe_mfhi c)
        else if sub_opcode c = 0b010001 then plain e (exe_mthi c)
        else if sub_opcode c = 0b010010 then plain e (exe_mflo c)
        else if sub_opcode c = 0b010011 then plain e (exe_mtlo c)
        else if sub_opcode c = 0b011000 then plainE e (exe_mult c)
        else if sub_opcode c = 0b100001 then plain e (exe_addu c)
        else if sub_opcode c = 0b100011 then plain e (exe_subu c)
        else if sub_opcode c = 0b100100 then plain e (exe_and c)
        else if sub_opcode c = 0b100101 then plain e (exe_or c)
        else if sub_opcode c = 0b100110 then plain e (exe_xor c)
        else if sub_opcode c = 0b100111 then plain e (exe_nor c)
        else if sub_opcode c = 0b101010 then plain e (exe_slt c)
        else if sub_opcode c = 0b101011 then plain e (exe_sltu c)
        else Inr (reserved_instruction c))
     else if main_opcode c = 0b000001 then
       (if rt c = 0b00000 then plain e (exe_bltz c)
        else if rt c = 0b00001 then plain e (exe_bgez c)
        else Inr (reserved_instruction c))
     else if main_opcode c = 0b000010 then plain e (exe_j c)
     else if main_opcode c = 0b000011 then plain e (exe_jal c)
     else if main_opcode c = 0b000100 then plain e (exe_beq c)
     else if main_opcode c = 0b000101 then plain e (exe_bne c)
     else if main_opcode c = 0b000110 then plain e (exe_blez c)
     else if main_opcode c = 0b000111 then plain e (exe_bgtz c)
     else if main_opcode c = 0b001001 then plain e (exe_addiu c)
     else if main_opcode c = 0b001010 then plain e (exe_slti c)
     else if main_opcode c = 0b001011 then plain e (exe_sltiu c)
     else if main_opcode c = 0b001100 then plain e (exe_andi c)
     else if main_opcode c = 0b001101 then plain e (exe_ori c)
     else if main_opcode c = 0b001110 then plain e (exe_xori c)
     else if main_opcode c = 0b001111 then plain e (exe_lui c)
     else if main_opcode c = 0b010000 then
       (if sub_opcode c = 0b000000 then
          (if rs c = 0b00000 then plain e (exe_mfc0 c)
           else if rs c = 0b00100 then plain e (exe_mtc0 c)
           else Inr (reserved_instruction c))
        else if sub_opcode c = 0b000010 then plainE e (exe_tlbwi c)
        else if sub_opcode c = 0b011000 then plain e (exe_eret c)
        else Inr (reserved_instruction c))
     else if main_opcode c = 0b100000 then exe_lb c e
     else if main_opcode c = 0b100011 then exe_lw c e
     else if main_opcode c = 0b100100 then exe_lbu c e
     else if main_opcode c = 0b100101 then exe_lhu c e
     else if main_opcode c = 0b101000 then Inr (exe_sb c e)
     else if main_opcode c = 0b101011 then Inr (exe_sw c e)
     else if main_opcode c = 0b101111 then plain e (exe_cache c)
     else Inr (reserved_instruction c))"

section \<open>The step and the loop\<close>

text \<open>\<^verbatim>\<open>CPU::next\<close>: one instruction, its exception flag handed back.\<close>

definition cpu_next :: "cpu \<Rightarrow> bool \<Rightarrow> ub + (cpu \<times> bool)" where
  "cpu_next c exception =
     (let c = set_reg (of_nat REG_ZERO) 0x00 c;
          c = c\<lparr>cp0 := cp0_set (cp0 c) CP0_Count (cp0_get (cp0 c) CP0_Count + 1)\<rparr> in
      bindE (read_word (cp0 c) (mmu c) (pc c) exception) (\<lambda>(v, exception, p).
        (let c = c\<lparr>cp0 := p, instruction := v\<rparr> in
         if exception then Inr (c, exception)
         else bindE (instruction_decode c exception) (\<lambda>(c, exception).
           if exception then Inr (c, exception)
           else if cp0_get (cp0 c) CP0_Count \<ge> cp0_get (cp0 c) CP0_Compare then
             (let c = c\<lparr>cp0 := cp0_set (cp0 c) CP0_Count 0x00\<rparr> in
              if global_interrupt_enabled (cp0 c) \<and> interrupt_enabled (cp0 c) IP_7
              then Inr (c\<lparr>cp0 := set_exception_code Exc_Int (set_interrupt_code IP_7 (cp0 c))\<rparr>, True)
              else Inr (c, exception))
           else Inr (c, exception)))))"

text \<open>Exception entry in the body of \<^verbatim>\<open>CPU::run\<close>.\<close>

definition take_exception :: "cpu \<Rightarrow> cpu" where
  "take_exception c =
     (let c = (if \<not> Status_EXL (cp0 c) then c\<lparr>cp0 := cp0_set (cp0 c) CP0_EPC (pc c)\<rparr> else c);
          c = c\<lparr>pc := cp0_get (cp0 c) CP0_EBase\<rparr>
      in c\<lparr>cp0 := set_Status_EXL (cp0 c)\<rparr>)"

text \<open>One round of \<^verbatim>\<open>while (true)\<close> in \<^verbatim>\<open>CPU::run\<close>, and \<open>n\<close> rounds.\<close>

definition run_step :: "cpu \<Rightarrow> ub + cpu" where
  "run_step c =
     bindE (cpu_next c False) (\<lambda>(c, exception). if exception then Inr (take_exception c) else Inr c)"

fun run_n :: "nat \<Rightarrow> cpu \<Rightarrow> ub + cpu" where
  "run_n 0 c = Inr c"
| "run_n (Suc n) c = bindE (run_step c) (run_n n)"

end
