(* ===== verification/Cpu_Decode.thy ===== *)
theory Cpu_Decode
  imports Cpu
begin

unbundle bit_operations_syntax

text \<open>
  The instruction set as a flat table of opcode masks and values, one row for each of the 48
  instructions the README lists, and the proof that the nested switches of
  \<^verbatim>\<open>CPU::instruction_decode\<close> dispatch exactly by it.
\<close>

section \<open>The table\<close>

datatype mnemonic =
    I_SLL | I_SRL | I_SRA | I_SLLV | I_SRLV | I_SRAV | I_JR | I_JALR | I_SYSCALL | I_MFHI
  | I_MTHI | I_MFLO | I_MTLO | I_MULT | I_ADDU | I_SUBU | I_AND | I_OR | I_XOR | I_NOR | I_SLT
  | I_SLTU | I_BLTZ | I_BGEZ | I_J | I_JAL | I_BEQ | I_BNE | I_BLEZ | I_BGTZ | I_ADDIU
  | I_SLTI | I_SLTIU | I_ANDI | I_ORI | I_XORI | I_LUI | I_LB | I_LW | I_LBU | I_LHU | I_SB
  | I_SW | I_CACHE | I_MFC0 | I_MTC0 | I_TLBWI | I_ERET

text \<open>The handler of each instruction.\<close>

fun exec_mn :: "mnemonic \<Rightarrow> cpu \<Rightarrow> bool \<Rightarrow> ub + (cpu \<times> bool)" where
  "exec_mn I_SLL c e = plain e (exe_sll c)"
| "exec_mn I_SRL c e = plain e (exe_srl c)"
| "exec_mn I_SRA c e = plain e (exe_sra c)"
| "exec_mn I_SLLV c e = plainE e (exe_sllv c)"
| "exec_mn I_SRLV c e = plainE e (exe_srlv c)"
| "exec_mn I_SRAV c e = plainE e (exe_srav c)"
| "exec_mn I_JR c e = plain e (exe_jr c)"
| "exec_mn I_JALR c e = plain e (exe_jalr c)"
| "exec_mn I_SYSCALL c e = Inr (exe_syscall c)"
| "exec_mn I_MFHI c e = plain e (exe_mfhi c)"
| "exec_mn I_MTHI c e = plain e (exe_mthi c)"
| "exec_mn I_MFLO c e = plain e (exe_mflo c)"
| "exec_mn I_MTLO c e = plain e (exe_mtlo c)"
| "exec_mn I_MULT c e = plainE e (exe_mult c)"
| "exec_mn I_ADDU c e = plain e (exe_addu c)"
| "exec_mn I_SUBU c e = plain e (exe_subu c)"
| "exec_mn I_AND c e = plain e (exe_and c)"
| "exec_mn I_OR c e = plain e (exe_or c)"
| "exec_mn I_XOR c e = plain e (exe_xor c)"
| "exec_mn I_NOR c e = plain e (exe_nor c)"
| "exec_mn I_SLT c e = plain e (exe_slt c)"
| "exec_mn I_SLTU c e = plain e (exe_sltu c)"
| "exec_mn I_BLTZ c e = plain e (exe_bltz c)"
| "exec_mn I_BGEZ c e = plain e (exe_bgez c)"
| "exec_mn I_J c e = plain e (exe_j c)"
| "exec_mn I_JAL c e = plain e (exe_jal c)"
| "exec_mn I_BEQ c e = plain e (exe_beq c)"
| "exec_mn I_BNE c e = plain e (exe_bne c)"
| "exec_mn I_BLEZ c e = plain e (exe_blez c)"
| "exec_mn I_BGTZ c e = plain e (exe_bgtz c)"
| "exec_mn I_ADDIU c e = plain e (exe_addiu c)"
| "exec_mn I_SLTI c e = plain e (exe_slti c)"
| "exec_mn I_SLTIU c e = plain e (exe_sltiu c)"
| "exec_mn I_ANDI c e = plain e (exe_andi c)"
| "exec_mn I_ORI c e = plain e (exe_ori c)"
| "exec_mn I_XORI c e = plain e (exe_xori c)"
| "exec_mn I_LUI c e = plain e (exe_lui c)"
| "exec_mn I_LB c e = exe_lb c e"
| "exec_mn I_LW c e = exe_lw c e"
| "exec_mn I_LBU c e = exe_lbu c e"
| "exec_mn I_LHU c e = exe_lhu c e"
| "exec_mn I_SB c e = Inr (exe_sb c e)"
| "exec_mn I_SW c e = Inr (exe_sw c e)"
| "exec_mn I_CACHE c e = plain e (exe_cache c)"
| "exec_mn I_MFC0 c e = plain e (exe_mfc0 c)"
| "exec_mn I_MTC0 c e = plain e (exe_mtc0 c)"
| "exec_mn I_TLBWI c e = plainE e (exe_tlbwi c)"
| "exec_mn I_ERET c e = plain e (exe_eret c)"

text \<open>
  Rows \<open>(mask, value, instruction)\<close>: a word encodes the instruction when its masked bits are the
  value. The masks select the opcode field, and with it the function field (SPECIAL), the rt field
  (REGIMM), or the rs and function fields (COP0 moves).
\<close>

definition isa_table :: "(u32 \<times> u32 \<times> mnemonic) list" where
  "isa_table =
    [(0xfc00003f, 0x00000000, I_SLL),
     (0xfc00003f, 0x00000002, I_SRL),
     (0xfc00003f, 0x00000003, I_SRA),
     (0xfc00003f, 0x00000004, I_SLLV),
     (0xfc00003f, 0x00000006, I_SRLV),
     (0xfc00003f, 0x00000007, I_SRAV),
     (0xfc00003f, 0x00000008, I_JR),
     (0xfc00003f, 0x00000009, I_JALR),
     (0xfc00003f, 0x0000000c, I_SYSCALL),
     (0xfc00003f, 0x00000010, I_MFHI),
     (0xfc00003f, 0x00000011, I_MTHI),
     (0xfc00003f, 0x00000012, I_MFLO),
     (0xfc00003f, 0x00000013, I_MTLO),
     (0xfc00003f, 0x00000018, I_MULT),
     (0xfc00003f, 0x00000021, I_ADDU),
     (0xfc00003f, 0x00000023, I_SUBU),
     (0xfc00003f, 0x00000024, I_AND),
     (0xfc00003f, 0x00000025, I_OR),
     (0xfc00003f, 0x00000026, I_XOR),
     (0xfc00003f, 0x00000027, I_NOR),
     (0xfc00003f, 0x0000002a, I_SLT),
     (0xfc00003f, 0x0000002b, I_SLTU),
     (0xfc1f0000, 0x04000000, I_BLTZ),
     (0xfc1f0000, 0x04010000, I_BGEZ),
     (0xfc000000, 0x08000000, I_J),
     (0xfc000000, 0x0c000000, I_JAL),
     (0xfc000000, 0x10000000, I_BEQ),
     (0xfc000000, 0x14000000, I_BNE),
     (0xfc000000, 0x18000000, I_BLEZ),
     (0xfc000000, 0x1c000000, I_BGTZ),
     (0xfc000000, 0x24000000, I_ADDIU),
     (0xfc000000, 0x28000000, I_SLTI),
     (0xfc000000, 0x2c000000, I_SLTIU),
     (0xfc000000, 0x30000000, I_ANDI),
     (0xfc000000, 0x34000000, I_ORI),
     (0xfc000000, 0x38000000, I_XORI),
     (0xfc000000, 0x3c000000, I_LUI),
     (0xfc000000, 0x80000000, I_LB),
     (0xfc000000, 0x8c000000, I_LW),
     (0xfc000000, 0x90000000, I_LBU),
     (0xfc000000, 0x94000000, I_LHU),
     (0xfc000000, 0xa0000000, I_SB),
     (0xfc000000, 0xac000000, I_SW),
     (0xfc000000, 0xbc000000, I_CACHE),
     (0xffe0003f, 0x40000000, I_MFC0),
     (0xffe0003f, 0x40800000, I_MTC0),
     (0xfc00003f, 0x40000002, I_TLBWI),
     (0xfc00003f, 0x40000018, I_ERET)]"

definition isa_decode :: "u32 \<Rightarrow> mnemonic option" where
  "isa_decode w =
     map_option (\<lambda>(msk, v, i). i) (List.find (\<lambda>(msk, v, i). w AND msk = v) isa_table)"

section \<open>Masks and fields\<close>

lemma and_or_eq:
  fixes w v :: u32
  assumes "v AND (a OR b) = v"
  shows "w AND (a OR b) = v \<longleftrightarrow> w AND a = v AND a \<and> w AND b = v AND b"
proof
  assume "w AND (a OR b) = v"
  moreover have "(w AND (a OR b)) AND a = w AND a" "(w AND (a OR b)) AND b = w AND b"
    by (auto intro!: bit_word_eqI simp: bit_simps)
  ultimately show "w AND a = v AND a \<and> w AND b = v AND b" by auto
next
  assume "w AND a = v AND a \<and> w AND b = v AND b"
  then have "w AND (a OR b) = v AND (a OR b)" by (simp add: bit.conj_disj_distrib)
  with assms show "w AND (a OR b) = v" by simp
qed

lemma and_field_eq:
  fixes w v :: u32
  shows "w AND 0xfc000000 = v AND 0xfc000000 \<longleftrightarrow> drop_bit 26 w = drop_bit 26 v"
    and "w AND 0x001f0000 = v AND 0x001f0000 \<longleftrightarrow>
      drop_bit 16 w AND 0x1f = drop_bit 16 v AND 0x1f"
    and "w AND 0x03e00000 = v AND 0x03e00000 \<longleftrightarrow>
      drop_bit 21 w AND 0x1f = drop_bit 21 v AND 0x1f"
  by (simp_all add: u32_bitwise)

lemma mask_fields:
  fixes w v :: u32
  shows "v AND 0xfc000000 = v \<Longrightarrow> w AND 0xfc000000 = v \<longleftrightarrow> drop_bit 26 w = drop_bit 26 v"
    and "v AND 0xfc00003f = v \<Longrightarrow>
      w AND 0xfc00003f = v \<longleftrightarrow> drop_bit 26 w = drop_bit 26 v \<and> w AND 0x3f = v AND 0x3f"
    and "v AND 0xfc1f0000 = v \<Longrightarrow>
      w AND 0xfc1f0000 = v \<longleftrightarrow> drop_bit 26 w = drop_bit 26 v \<and>
        drop_bit 16 w AND 0x1f = drop_bit 16 v AND 0x1f"
    and "v AND 0xffe0003f = v \<Longrightarrow>
      w AND 0xffe0003f = v \<longleftrightarrow> drop_bit 26 w = drop_bit 26 v \<and> w AND 0x3f = v AND 0x3f \<and>
        drop_bit 21 w AND 0x1f = drop_bit 21 v AND 0x1f"
  subgoal using and_or_eq [of v "0xfc000000" 0 w] and_field_eq(1) [of w v] by simp
  subgoal using and_or_eq [of v "0xfc000000" "0x3f" w] and_field_eq(1) [of w v] by simp
  subgoal using and_or_eq [of v "0xfc000000" "0x1f0000" w] and_field_eq [of w v] by simp
  subgoal
    using and_or_eq [of v "0xfc00003f" "0x3e00000" w] and_field_eq [of w v]
      and_or_eq [of "v AND 0xfc00003f" "0xfc000000" "0x3f" w] and_field_eq [of w v]
    by (auto simp: and.assoc)
  done

section \<open>The decoder is the table\<close>

lemma find_Cons_if: "List.find P (x # xs) = (if P x then Some x else List.find P xs)"
  by simp

lemma decode_by_table:
  "instruction_decode c e =
     (case isa_decode (instruction c) of
        Some i \<Rightarrow> exec_mn i c e
      | None \<Rightarrow> Inr (reserved_instruction c))"
proof -
  have fields: "main_opcode c = drop_bit 26 (instruction c)" "sub_opcode c = instruction c AND 0x3f"
    "rs c = drop_bit 21 (instruction c) AND 0x1f" "rt c = drop_bit 16 (instruction c) AND 0x1f"
    by (simp_all add: main_opcode_def sub_opcode_def rs_def rt_def)
  consider "main_opcode c = 0" | "main_opcode c = 1" | "main_opcode c = 16"
    | "main_opcode c \<noteq> 0 \<and> main_opcode c \<noteq> 1 \<and> main_opcode c \<noteq> 16" by blast
  then show ?thesis
    unfolding isa_decode_def isa_table_def find_Cons_if prod.case
    by cases (simp_all add: mask_fields fields [symmetric] instruction_decode_def
        del: find.simps(2) split: if_split)
qed

text \<open>No word matches two rows: any two rows differ in a bit that both masks select.\<close>

lemma isa_table_disjoint:
  "sorted_wrt (\<lambda>(m, v, i) (m', v', i'). (v XOR v') AND (m AND m') \<noteq> 0) isa_table"
  by (simp add: isa_table_def)

lemma row_conflict:
  fixes w v v' m m' :: u32
  assumes "w AND m = v" and "w AND m' = v'"
  shows "(v XOR v') AND (m AND m') = 0"
proof -
  have "(v XOR v') AND (m AND m') = ((w AND m) XOR (w AND m')) AND (m AND m')"
    using assms by simp
  also have "\<dots> = 0" by (rule bit_word_eqI) (auto simp: bit_simps)
  finally show ?thesis .
qed

lemma find_disjoint:
  assumes "sorted_wrt (\<lambda>(m, v, i) (m', v', i'). (v XOR v') AND (m AND m') \<noteq> 0) rows"
    and "(m, v, i) \<in> set rows" and "(w :: u32) AND m = v"
  shows "List.find (\<lambda>(m, v, i). w AND m = v) rows = Some (m, v, i)"
  using assms(1,2)
proof (induction rows)
  case Nil
  then show ?case by simp
next
  case (Cons r rows)
  obtain m' v' i' where r: "r = (m', v', i')" by (cases r)
  show ?case
  proof (cases "(m, v, i) = r")
    case True
    then show ?thesis using assms(3) r by simp
  next
    case False
    then have "(m, v, i) \<in> set rows" using Cons.prems by simp
    moreover have "w AND m' \<noteq> v'"
      using row_conflict [of w m' v' m v] assms(3) Cons.prems(1) calculation r by fastforce
    ultimately show ?thesis using Cons r by simp
  qed
qed

text \<open>
  C5. An instruction word that encodes one of the 48 instructions runs that instruction's handler, and
  a word that encodes none of them raises Reserved Instruction: the nested switches of
  \<^verbatim>\<open>CPU::instruction_decode\<close> decode exactly the instruction table, whose rows are unambiguous.
\<close>

theorem instruction_decode_correct:
  "(\<forall>(msk, v, i) \<in> set isa_table. instruction c AND msk = v \<longrightarrow>
      instruction_decode c e = exec_mn i c e) \<and>
   ((\<forall>(msk, v, i) \<in> set isa_table. instruction c AND msk \<noteq> v) \<longrightarrow>
      instruction_decode c e = Inr (reserved_instruction c))"
proof (intro conjI ballI impI)
  fix r assume r: "r \<in> set isa_table"
  obtain m v i where mvi: "r = (m, v, i)" by (cases r)
  have "instruction_decode c e = exec_mn i c e" if "instruction c AND m = v"
    using find_disjoint [OF isa_table_disjoint] r mvi that
    by (simp add: decode_by_table isa_decode_def)
  then show "case r of (m, v, i) \<Rightarrow> instruction c AND m = v \<longrightarrow>
      instruction_decode c e = exec_mn i c e"
    using mvi by simp
next
  assume "\<forall>(msk, v, i) \<in> set isa_table. instruction c AND msk \<noteq> v"
  then have "List.find (\<lambda>(m, v, i). instruction c AND m = v) isa_table = None"
    by (auto simp: find_None_iff)
  then show "instruction_decode c e = Inr (reserved_instruction c)"
    by (simp add: decode_by_table isa_decode_def)
qed

theorem instruction_decode_correct_witness:
  "instruction_decode (CPU_init (MMU_init [] [] [] []) (replicate 32 7) 0x00221821 0 0) False =
     Inr (exe_addu (CPU_init (MMU_init [] [] [] []) (replicate 32 7) 0x00221821 0 0), False)"
proof -
  let ?c = "CPU_init (MMU_init [] [] [] []) (replicate 32 7) 0x00221821 0 0"
  have row: "(0xfc00003f, 0x21, I_ADDU) \<in> set isa_table" by (simp add: isa_table_def)
  have "instruction ?c AND 0xfc00003f = 0x21" by (simp add: CPU_init_def)
  then have "instruction_decode ?c False = exec_mn I_ADDU ?c False"
    using instruction_decode_correct [of ?c False] row by blast
  then show ?thesis by (simp add: plain_def)
qed

end
