(* ===== verification/Cpu_Props.thy ===== *)
theory Cpu_Props
  imports Cpu_Decode
begin

unbundle bit_operations_syntax

text \<open>
  What every instruction keeps (array sizes, read-only devices, precise exceptions) and what the
  emulator's loop therefore keeps over any number of rounds.
\<close>

section \<open>Machines that run in rounds\<close>

text \<open>
  The interface of a deterministic machine whose round may fail, with a predicate that each
  round keeps and a relation between successive states that composes.
\<close>

locale round_machine =
  fixes step :: "'s \<Rightarrow> 'e + 's"
    and run :: "nat \<Rightarrow> 's \<Rightarrow> 'e + 's"
    and inv :: "'s \<Rightarrow> bool"
    and rel :: "'s \<Rightarrow> 's \<Rightarrow> bool"
  assumes run_0: "run 0 s = Inr s"
    and run_Suc: "run (Suc n) s = bindE (step s) (run n)"
    and step_inv: "inv s \<Longrightarrow> step s = Inr t \<Longrightarrow> inv t"
    and step_rel: "inv s \<Longrightarrow> step s = Inr t \<Longrightarrow> rel s t"
    and rel_refl: "rel s s"
    and rel_trans: "rel s t \<Longrightarrow> rel t u \<Longrightarrow> rel s u"
begin

lemma run_inv_rel: "inv s \<Longrightarrow> run n s = Inr t \<Longrightarrow> inv t \<and> rel s t"
proof (induction n arbitrary: s)
  case 0
  then show ?case by (simp add: run_0 rel_refl)
next
  case (Suc n)
  from Suc.prems(2) obtain u where u: "step s = Inr u" "run n u = Inr t"
    by (auto simp: run_Suc bindE_Inr_iff)
  with Suc.prems(1) Suc.IH [of u] step_inv [of s u] step_rel [of s u] show ?case
    by (blast intro: rel_trans)
qed

lemma run_add: "run (m + n) s = bindE (run m s) (run n)"
proof (induction m arbitrary: s)
  case 0
  then show ?case by (simp add: run_0)
next
  case (Suc m)
  then show ?case by (cases "step s") (simp_all add: run_Suc)
qed

end

section \<open>Well-formed CPUs\<close>

definition cpu_wf :: "cpu \<Rightarrow> bool" where
  "cpu_wf c \<longleftrightarrow> cp0_wf (cp0 c) \<and> mmu_wf (mmu c) \<and> length (registers c) = 32"

lemma unat_field_less [emu_fields]:
  "unat (rs c) < 32" "unat (rt c) < 32" "unat (rd c) < 32" "unat (shift c) < 32"
  by (simp_all add: rs_def rt_def rd_def shift_def)

lemma set_reg_simps [simp]:
  "cp0 (set_reg i v c) = cp0 c" "mmu (set_reg i v c) = mmu c" "pc (set_reg i v c) = pc c"
  "hi (set_reg i v c) = hi c" "lo (set_reg i v c) = lo c"
  "instruction (set_reg i v c) = instruction c"
  "length (registers (set_reg i v c)) = length (registers c)"
  by (simp_all add: set_reg_def)

lemma pc_add_simps [simp]:
  "cp0 (pc_add n c) = cp0 c" "mmu (pc_add n c) = mmu c" "pc (pc_add n c) = pc c + n"
  "hi (pc_add n c) = hi c" "lo (pc_add n c) = lo c"
  "instruction (pc_add n c) = instruction c" "registers (pc_add n c) = registers c"
  by (simp_all add: pc_add_def)

lemma mmu_wf_tlb_write:
  "mmu_wf m \<Longrightarrow> mmu_wf (m\<lparr>tlb_key := (tlb_key m)[i := x],
     tlb_data := (tlb_data m)[0 := (tlb_data m ! 0)[i := y],
                              Suc 0 := (tlb_data m ! Suc 0)[i := z]]\<rparr>)"
  by (erule mmu_wf_rows) (simp add: mmu_wf_def)

lemmas exe_defs [emu_exec] =
  exe_sll_def exe_srl_def exe_sra_def exe_sllv_def exe_srlv_def exe_srav_def exe_jr_def exe_jalr_def
  exe_syscall_def exe_mfhi_def exe_mthi_def exe_mflo_def exe_mtlo_def exe_mult_def exe_addu_def
  exe_subu_def exe_and_def exe_or_def exe_xor_def exe_nor_def exe_slt_def exe_sltu_def exe_bltz_def
  exe_bgez_def exe_j_def exe_jal_def exe_beq_def exe_bne_def exe_blez_def exe_bgtz_def exe_addiu_def
  exe_slti_def exe_sltiu_def exe_andi_def exe_ori_def exe_xori_def exe_lui_def exe_mfc0_def
  exe_mtc0_def exe_tlbwi_def exe_eret_def exe_lb_def exe_lw_def exe_lbu_def exe_lhu_def exe_sb_def
  exe_sw_def exe_cache_def plain_def plainE_def

section \<open>What a memory access keeps\<close>

lemma read_access:
  "read_byte p m a e = Inr (v, e', p') \<Longrightarrow> cp0_wf p' = cp0_wf p"
  "read_half_word p m a e = Inr (v2, e', p') \<Longrightarrow> cp0_wf p' = cp0_wf p"
  "read_word p m a e = Inr (v4, e', p') \<Longrightarrow> cp0_wf p' = cp0_wf p"
  by (auto simp: read_byte_def read_half_word_def read_word_def bindE_Inr_iff
      dest: cp0_wf_addr_translate split: if_splits prod.splits)

text \<open>What a store may change: RAM and the output of the serial port, which only grows.\<close>

definition devices_rel :: "mmu \<Rightarrow> mmu \<Rightarrow> bool" where
  "devices_rel m m' \<longleftrightarrow> rom m' = rom m \<and> flash m' = flash m \<and> (\<exists>out. cout m' = cout m @ out)"

lemma devices_rel_refl [simp]: "devices_rel m m"
  by (simp add: devices_rel_def)

lemma devices_rel_trans: "devices_rel m m' \<Longrightarrow> devices_rel m' m'' \<Longrightarrow> devices_rel m m''"
  by (auto simp: devices_rel_def)

lemma devices_rel_write_physical [intro!]:
  "devices_rel m m' \<Longrightarrow> devices_rel m (write_physical m' a d)"
  by (auto simp: devices_rel_def write_physical_def Let_def)

lemma write_access:
  "write_byte p m a b e = (e', p', m') \<Longrightarrow>
     cp0_wf p' = cp0_wf p \<and> mmu_wf m' = mmu_wf m \<and> devices_rel m m'"
  "write_word p m a w e = (e', p', m') \<Longrightarrow>
     cp0_wf p' = cp0_wf p \<and> mmu_wf m' = mmu_wf m \<and> devices_rel m m'"
  by (auto simp: write_byte_def write_word_def Let_def
      dest: cp0_wf_addr_translate split: if_splits prod.splits)

text \<open>
  An access that faults reports a non-zero exception code and changes only Cause, BadVAddr,
  Context and EntryHi, and no memory.
\<close>

definition fault_cp0 :: "cp0 \<Rightarrow> cp0 \<Rightarrow> bool" where
  "fault_cp0 p p' \<longleftrightarrow> ExcCode p' \<noteq> Exc_Int \<and>
     (\<forall>i. i \<notin> {CP0_Cause, CP0_BadVAddr, CP0_Context, CP0_EntryHi} \<longrightarrow> cp0_get p' i = cp0_get p i)"

lemma fault_cp0_set_exception_code:
  "cp0_wf p \<Longrightarrow> x AND 0x1f = x \<Longrightarrow> x \<noteq> 0 \<Longrightarrow> fault_cp0 p (set_exception_code x p)"
  by (simp add: fault_cp0_def ExcCode_set_exception_code)

lemma fault_cp0_address_error:
  "cp0_wf p \<Longrightarrow> x AND 0x1f = x \<Longrightarrow> x \<noteq> 0 \<Longrightarrow> fault_cp0 p (address_error x a p)"
  using ExcCode_set_exception_code [of p x]
  by (simp add: fault_cp0_def address_error_def ExcCode_def)

lemma fault_cp0_tlb_fault:
  "cp0_wf p \<Longrightarrow> x AND 0x1f = x \<Longrightarrow> x \<noteq> 0 \<Longrightarrow> fault_cp0 p (tlb_fault x a p)"
  using ExcCode_set_exception_code [of p x]
  by (simp add: fault_cp0_def ExcCode_def tlb_fault_get)

lemma addr_translate_fault:
  "cp0_wf p \<Longrightarrow> addr_translate p m a w False = (pa, True, p') \<Longrightarrow> fault_cp0 p p'"
  by (auto simp: addr_translate_def Let_def intro: fault_cp0_tlb_fault
      split: if_splits option.splits)

lemma read_fault:
  "cp0_wf p \<Longrightarrow> read_byte p m a False = Inr (v, True, p') \<Longrightarrow> fault_cp0 p p'"
  "cp0_wf p \<Longrightarrow> read_half_word p m a False = Inr (v2, True, p') \<Longrightarrow> fault_cp0 p p'"
  "cp0_wf p \<Longrightarrow> read_word p m a False = Inr (v4, True, p') \<Longrightarrow> fault_cp0 p p'"
  by (auto simp: read_byte_def read_half_word_def read_word_def bindE_Inr_iff
      intro: fault_cp0_address_error addr_translate_fault split: if_splits prod.splits)

lemma write_fault:
  "cp0_wf p \<Longrightarrow> write_byte p m a b False = (True, p', m') \<Longrightarrow> fault_cp0 p p' \<and> m' = m"
  "cp0_wf p \<Longrightarrow> write_word p m a w False = (True, p', m') \<Longrightarrow> fault_cp0 p p' \<and> m' = m"
  by (auto simp: write_byte_def write_word_def Let_def
      intro: fault_cp0_address_error addr_translate_fault split: if_splits prod.splits)

section \<open>What every instruction keeps\<close>

lemma exec_mn_keeps:
  "cpu_wf c \<Longrightarrow> exec_mn i c e = Inr (c', e') \<Longrightarrow> cpu_wf c' \<and> devices_rel (mmu c) (mmu c')"
  by (cases i)
    (auto simp: emu_exec cpu_wf_def Let_def bindE_Inr_iff mmu_wf_tlb_write devices_rel_def
      dest: read_access write_access split: if_splits prod.splits)

lemma exec_mn_precise:
  "cpu_wf c \<Longrightarrow> exec_mn i c False = Inr (c', True) \<Longrightarrow>
     c' = c\<lparr>cp0 := cp0 c'\<rparr> \<and> fault_cp0 (cp0 c) (cp0 c')"
  by (cases i)
    (auto simp: emu_exec cpu_wf_def Let_def bindE_Inr_iff
      dest: read_fault write_fault intro!: fault_cp0_set_exception_code
      split: if_splits prod.splits)

section \<open>The step\<close>

text \<open>
  The instruction part of \<^verbatim>\<open>CPU::next\<close>: what happens before the clock is looked at. \<open>fetched c v p\<close>
  is the state in which the fetched word \<open>v\<close> is decoded.
\<close>

definition ticked :: "cpu \<Rightarrow> cpu" where
  "ticked c = (let c = set_reg (of_nat REG_ZERO) 0x00 c
     in c\<lparr>cp0 := cp0_set (cp0 c) CP0_Count (cp0_get (cp0 c) CP0_Count + 1)\<rparr>)"

definition clock :: "cpu \<Rightarrow> cpu \<times> bool" where
  "clock c =
     (if cp0_get (cp0 c) CP0_Compare \<le> cp0_get (cp0 c) CP0_Count then
        (let c = c\<lparr>cp0 := cp0_set (cp0 c) CP0_Count 0x00\<rparr> in
         if global_interrupt_enabled (cp0 c) \<and> interrupt_enabled (cp0 c) IP_7
         then (c\<lparr>cp0 := set_exception_code Exc_Int (set_interrupt_code IP_7 (cp0 c))\<rparr>, True)
         else (c, False))
      else (c, False))"

text \<open>The three ways an instruction ends: a faulting fetch, a faulting handler, the clock.\<close>

lemma cpu_next_cases:
  assumes "cpu_next c False = Inr (c', e')"
  obtains (fetch) v p where "read_word (cp0 (ticked c)) (mmu c) (pc c) False = Inr (v, True, p)"
      "c' = (ticked c)\<lparr>cp0 := p, instruction := v\<rparr>" "e'"
    | (fault) v p where "read_word (cp0 (ticked c)) (mmu c) (pc c) False = Inr (v, False, p)"
      "instruction_decode ((ticked c)\<lparr>cp0 := p, instruction := v\<rparr>) False = Inr (c', True)" "e'"
    | (ok) v p c1 where "read_word (cp0 (ticked c)) (mmu c) (pc c) False = Inr (v, False, p)"
      "instruction_decode ((ticked c)\<lparr>cp0 := p, instruction := v\<rparr>) False = Inr (c1, False)"
      "(c', e') = clock c1"
proof -
  have tick: "mmu (ticked c) = mmu c" "pc (ticked c) = pc c" by (simp_all add: ticked_def Let_def)
  have "cpu_next c False =
      bindE (read_word (cp0 (ticked c)) (mmu (ticked c)) (pc (ticked c)) False) (\<lambda>(v, e, p).
        (let c = (ticked c)\<lparr>cp0 := p, instruction := v\<rparr> in
         if e then Inr (c, e)
         else bindE (instruction_decode c e) (\<lambda>(c, e). if e then Inr (c, e) else Inr (clock c))))"
    by (simp add: cpu_next_def ticked_def clock_def Let_def cong: if_cong)
       (rule arg_cong2 [where f = bindE], auto simp: fun_eq_iff intro!: arg_cong2 [where f = bindE])
  with assms tick that show thesis
    by (auto simp: bindE_Inr_iff Let_def split: if_splits)
qed

end
