(* ===== verification/Emulator.thy ===== *)
theory Emulator
  imports Cpu_Props
begin

unbundle bit_operations_syntax

text \<open>
  The theorems about the emulator as a whole: its loop, its exceptions and interrupts, and the
  instructions whose C++ has a restricted domain.
\<close>

section \<open>The loop\<close>

lemma ticked_keeps:
  "cpu_wf c \<Longrightarrow> cpu_wf (ticked c)" "mmu (ticked c) = mmu c" "pc (ticked c) = pc c"
  "hi (ticked c) = hi c" "lo (ticked c) = lo c"
  "0 < i \<Longrightarrow> registers (ticked c) ! i = registers c ! i"
  "i \<noteq> CP0_Count \<Longrightarrow> cp0_get (cp0 (ticked c)) i = cp0_get (cp0 c) i"
  by (simp_all add: ticked_def Let_def cpu_wf_def set_reg_def)

lemma clock_keeps:
  "clock c = (c', e) \<Longrightarrow> c' = c\<lparr>cp0 := cp0 c'\<rparr> \<and> cp0_wf (cp0 c') = cp0_wf (cp0 c)"
  by (auto simp: clock_def Let_def split: if_splits)

lemma instruction_decode_keeps:
  assumes "cpu_wf c" and "instruction_decode c e = Inr (c', e')"
  shows "cpu_wf c' \<and> devices_rel (mmu c) (mmu c')"
proof (cases "isa_decode (instruction c)")
  case None
  then show ?thesis
    using assms by (auto simp: decode_by_table reserved_instruction_def cpu_wf_def)
next
  case (Some i)
  then show ?thesis
    using assms exec_mn_keeps [of c i e c' e'] by (simp add: decode_by_table)
qed

lemma instruction_decode_precise:
  assumes "cpu_wf c" and "instruction_decode c False = Inr (c', True)"
  shows "c' = c\<lparr>cp0 := cp0 c'\<rparr> \<and> fault_cp0 (cp0 c) (cp0 c')"
proof (cases "isa_decode (instruction c)")
  case None
  then show ?thesis
    using assms fault_cp0_set_exception_code [of "cp0 c" Exc_RI]
    by (auto simp: decode_by_table reserved_instruction_def cpu_wf_def)
next
  case (Some i)
  then show ?thesis
    using assms exec_mn_precise [of c i c'] by (simp add: decode_by_table)
qed

lemma fetched_wf:
  assumes "cpu_wf c" and "read_word (cp0 (ticked c)) (mmu c) (pc c) False = Inr (v, e, p)"
  shows "cpu_wf ((ticked c)\<lparr>cp0 := p, instruction := v\<rparr>)"
  using assms read_access(3) [OF assms(2)] ticked_keeps(1) [OF assms(1)]
  by (simp add: cpu_wf_def)

lemma cpu_next_keeps:
  assumes "cpu_wf c" and "cpu_next c False = Inr (c', e')"
  shows "cpu_wf c' \<and> devices_rel (mmu c) (mmu c')"
  using assms(2)
proof (cases rule: cpu_next_cases)
  case (fetch v p)
  then show ?thesis using fetched_wf [OF assms(1)] by (simp add: ticked_keeps)
next
  case (fault v p)
  then show ?thesis
    using instruction_decode_keeps [OF fetched_wf [OF assms(1) fault(1)] fault(2)]
    by (simp add: ticked_keeps)
next
  case (ok v p c1)
  have "cpu_wf c1 \<and> devices_rel (mmu c) (mmu c1)"
    using instruction_decode_keeps [OF fetched_wf [OF assms(1) ok(1)] ok(2)]
    by (simp add: ticked_keeps)
  moreover have "c' = c1\<lparr>cp0 := cp0 c'\<rparr>" "cp0_wf (cp0 c') = cp0_wf (cp0 c1)"
    using clock_keeps [of c1 c' e'] ok(3) by simp_all
  ultimately show ?thesis by (metis cpu.select_convs(2,3) cpu.surjective cpu.update_convs(1) cpu_wf_def)
qed

lemma take_exception_keeps:
  "cpu_wf (take_exception c) = cpu_wf c" "mmu (take_exception c) = mmu c"
  by (simp_all add: take_exception_def cpu_wf_def Let_def)

lemma run_step_keeps:
  "cpu_wf c \<Longrightarrow> run_step c = Inr c' \<Longrightarrow> cpu_wf c' \<and> devices_rel (mmu c) (mmu c')"
  using cpu_next_keeps
  by (fastforce simp: run_step_def bindE_Inr_iff take_exception_keeps split: if_splits)

interpretation emu: round_machine run_step run_n cpu_wf "\<lambda>c c'. devices_rel (mmu c) (mmu c')"
  by unfold_locales (auto dest: run_step_keeps intro: devices_rel_trans)

text \<open>
  However long the emulator runs, the sizes of the register arrays and of the TLB never change,
  the ROM and flash images are never written, and the bytes already sent to the serial port stay
  sent.
\<close>

theorem run_keeps_invariant:
  assumes "cpu_wf c" and "run_n n c = Inr c'"
  shows "cpu_wf c' \<and> rom (mmu c') = rom (mmu c) \<and> flash (mmu c') = flash (mmu c) \<and>
    (\<exists>out. cout (mmu c') = cout (mmu c) @ out)"
  using emu.run_inv_rel [OF assms] by (simp add: devices_rel_def)

text \<open>A ROM image that begins with \<open>lui $1, 0xbfd0\<close>; \<open>ori $2, $0, 0x41\<close>; \<open>sb $2, 0x3f8($1)\<close>.\<close>

definition hello_rom :: "u8 list" where
  "hello_rom = [0xd0, 0xbf, 0x01, 0x3c, 0x41, 0x00, 0x02, 0x34, 0xf8, 0x03, 0x22, 0xa0]"

definition hello_cpu :: cpu where
  "hello_cpu = CPU_init (MMU_init hello_rom [] (replicate 16 0) (replicate 2 (replicate 16 0)))
     (replicate 32 0) 0 0 0"

lemma hello_cpu_wf: "cpu_wf hello_cpu"
  by (simp add: hello_cpu_def cpu_wf_def CPU_init_def mmu_wf_def MMU_init_def)

lemma hello_cpu_runs: "map_sum id (\<lambda>c. cout (mmu c)) (run_n 3 hello_cpu) = Inr [0x41]"
  by code_simp

theorem run_keeps_invariant_witness:
  "\<exists>c'. run_n 3 hello_cpu = Inr c' \<and> cout (mmu c') = [0x41] \<and> rom (mmu c') = hello_rom"
proof -
  obtain c' where c': "run_n 3 hello_cpu = Inr c'" "cout (mmu c') = [0x41]"
    using hello_cpu_runs by (cases "run_n 3 hello_cpu") auto
  with run_keeps_invariant [OF hello_cpu_wf c'(1)] show ?thesis
    by (simp add: hello_cpu_def CPU_init_def MMU_init_def)
qed

section \<open>The zero register\<close>

text \<open>
  Whatever an earlier instruction left in \<^verbatim>\<open>registers_[REG_ZERO]\<close>, the next one behaves as if it were
  zero: the outcome of \<^verbatim>\<open>next\<close> does not depend on it, and no handler sees another value.
\<close>

theorem zero_register_ignored:
  assumes "cpu_wf c"
  shows "cpu_next (c\<lparr>registers := (registers c)[REG_ZERO := v]\<rparr>) e = cpu_next c e \<and>
    reg (ticked (c\<lparr>registers := (registers c)[REG_ZERO := v]\<rparr>)) 0 = 0"
proof -
  have "set_reg (of_nat REG_ZERO) 0 (c\<lparr>registers := (registers c)[REG_ZERO := v]\<rparr>)
      = set_reg (of_nat REG_ZERO) 0 c"
    by (simp add: set_reg_def)
  moreover have "reg (ticked (c\<lparr>registers := (registers c)[REG_ZERO := v]\<rparr>)) 0 = 0"
    using assms by (simp add: ticked_def reg_def set_reg_def cpu_wf_def Let_def)
  ultimately show ?thesis by (simp only: cpu_next_def simp_thms)
qed

theorem zero_register_ignored_witness:
  "cpu_next (hello_cpu\<lparr>registers := (registers hello_cpu)[REG_ZERO := 0xdead]\<rparr>) False
     = cpu_next hello_cpu False"
  using zero_register_ignored [OF hello_cpu_wf, of "0xdead" False] by blast

section \<open>Precise exceptions\<close>

text \<open>The state in which a faulting instruction leaves the CPU.\<close>

lemma cpu_next_fault:
  assumes "cpu_wf c" and "cpu_next c False = Inr (c', True)" and "ExcCode (cp0 c') \<noteq> Exc_Int"
  shows "(\<exists>v. c' = (ticked c)\<lparr>instruction := v, cp0 := cp0 c'\<rparr>) \<and>
    fault_cp0 (cp0 (ticked c)) (cp0 c')"
  using assms(2)
proof (cases rule: cpu_next_cases)
  case (fetch v p)
  have "fault_cp0 (cp0 (ticked c)) p"
    using read_fault(3) [OF _ fetch(1)] ticked_keeps(1) [OF assms(1)] by (simp add: cpu_wf_def)
  then show ?thesis using fetch(2) by (auto intro!: exI [of _ v] cpu.equality)
next
  case (fault v p)
  let ?f = "(ticked c)\<lparr>cp0 := p, instruction := v\<rparr>"
  have "c' = ?f\<lparr>cp0 := cp0 c'\<rparr>" and "fault_cp0 p (cp0 c')"
    using instruction_decode_precise [OF fetched_wf [OF assms(1) fault(1)] fault(2)] by simp_all
  moreover have "p = cp0 (ticked c)"
    using fault(1) by (auto simp: read_word_def bindE_Inr_iff addr_translate_ok_cp0
        split: if_splits prod.splits)
  ultimately show ?thesis by auto
next
  case (ok v p c1)
  have "cpu_wf c1"
    using instruction_decode_keeps [OF fetched_wf [OF assms(1) ok(1)] ok(2)] by simp
  then have "ExcCode (cp0 c') = Exc_Int"
    using ok(3) ExcCode_set_exception_code [of _ Exc_Int]
    by (auto simp: clock_def Let_def cpu_wf_def set_interrupt_code_def split: if_splits)
  with assms(3) show ?thesis by simp
qed

lemma take_exception_enters:
  assumes "cp0_wf (cp0 c)"
  shows "pc (take_exception c) = cp0_get (cp0 c) CP0_EBase"
    "cp0_get (cp0 (take_exception c)) CP0_EPC = (if Status_EXL (cp0 c) then cp0_get (cp0 c) CP0_EPC else pc c)"
    "cp0_get (cp0 (take_exception c)) CP0_SR = cp0_get (cp0 c) CP0_SR OR 2"
    "Status_EXL (cp0 (take_exception c))"
    "ExcCode (cp0 (take_exception c)) = ExcCode (cp0 c)"
    "hi (take_exception c) = hi c" "lo (take_exception c) = lo c"
    "mmu (take_exception c) = mmu c" "registers (take_exception c) = registers c"
  using assms by (simp_all add: take_exception_def Let_def ExcCode_def set_Status_EXL_def)
    (simp_all add: Status_EXL_def exl_set_word)

text \<open>
  C1. Exceptions are precise. When an instruction faults (any exception but an interrupt), the
  program counter still points at it, and memory, TLB, HI and LO and the general registers are as
  they were. The round of \<^verbatim>\<open>CPU::run\<close> ends in the handler, with nothing but coprocessor 0 and the program
  counter changed: the program counter is EBase, the exception level bit is set in Status and no
  other, so that interrupts are masked, Cause still holds the exception code, and EPC is the
  address of the faulting instruction; when the CPU was already at exception level, EPC is kept
  instead.
\<close>

theorem precise_exception:
  assumes "cpu_wf c" and "cpu_next c False = Inr (c', True)" and "ExcCode (cp0 c') \<noteq> Exc_Int"
  shows "pc c' = pc c \<and> mmu c' = mmu c \<and> hi c' = hi c \<and> lo c' = lo c \<and>
    (\<forall>i. 0 < i \<longrightarrow> registers c' ! i = registers c ! i) \<and>
    (\<exists>h. run_step c = Inr h \<and> h = take_exception c' \<and>
      pc h = cp0_get (cp0 c) CP0_EBase \<and>
      cp0_get (cp0 h) CP0_EPC = (if Status_EXL (cp0 c) then cp0_get (cp0 c) CP0_EPC else pc c) \<and>
      cp0_get (cp0 h) CP0_SR = cp0_get (cp0 c) CP0_SR OR 2 \<and> Status_EXL (cp0 h) \<and>
      \<not> global_interrupt_enabled (cp0 h) \<and> ExcCode (cp0 h) = ExcCode (cp0 c') \<and>
      mmu h = mmu c \<and> hi h = hi c \<and> lo h = lo c \<and>
      (\<forall>i. 0 < i \<longrightarrow> registers h ! i = registers c ! i))"
proof -
  obtain v where c': "c' = (ticked c)\<lparr>instruction := v, cp0 := cp0 c'\<rparr>"
    and sr: "fault_cp0 (cp0 (ticked c)) (cp0 c')"
    using cpu_next_fault [OF assms] by blast
  have k: "pc c' = pc c \<and> mmu c' = mmu c \<and> hi c' = hi c \<and> lo c' = lo c \<and>
      (\<forall>i. 0 < i \<longrightarrow> registers c' ! i = registers c ! i)"
    by (subst (1 2 3 4 5) c') (simp add: ticked_keeps)
  have wf: "cp0_wf (cp0 c')" using cpu_next_keeps [OF assms(1,2)] by (simp add: cpu_wf_def)
  have get: "cp0_get (cp0 c') i = cp0_get (cp0 c) i" if "i \<in> {CP0_SR, CP0_EPC, CP0_EBase}" for i
    using sr that by (auto simp: fault_cp0_def ticked_keeps)
  note h = take_exception_enters [OF wf]
  have "run_step c = Inr (take_exception c')" using assms(2) by (simp add: run_step_def)
  moreover have "\<not> global_interrupt_enabled (cp0 (take_exception c'))" by (rule exl_masks_interrupts [OF h(4)])
  moreover have "Status_EXL (cp0 c') = Status_EXL (cp0 c)" by (simp add: Status_EXL_def get)
  ultimately show ?thesis using h k get by simp
qed

text \<open>A word load from an odd address: \<open>lw $1, 1($0)\<close>.\<close>

definition unaligned_cpu :: cpu where
  "unaligned_cpu = CPU_init (MMU_init [0x01, 0x00, 0x01, 0x8c] [] (replicate 16 0)
     (replicate 2 (replicate 16 0))) (replicate 32 5) 0 0 0"

lemma unaligned_cpu_faults:
  "case cpu_next unaligned_cpu False of
     Inl u \<Rightarrow> False | Inr (c', e) \<Rightarrow> e \<and> ExcCode (cp0 c') = Exc_AdEL"
  by code_simp

theorem precise_exception_witness:
  "\<exists>c'. cpu_next unaligned_cpu False = Inr (c', True) \<and> ExcCode (cp0 c') = Exc_AdEL \<and>
     pc c' = 0xbfc00000 \<and> run_step unaligned_cpu = Inr (take_exception c') \<and>
     cp0_get (cp0 (take_exception c')) CP0_EPC = 0xbfc00000 \<and>
     pc (take_exception c') = 0x80000180 \<and> Status_EXL (cp0 (take_exception c'))"
proof -
  obtain c' where c': "cpu_next unaligned_cpu False = Inr (c', True)" "ExcCode (cp0 c') = Exc_AdEL"
    using unaligned_cpu_faults by (auto split: sum.splits)
  have wf: "cpu_wf unaligned_cpu"
    by (simp add: unaligned_cpu_def cpu_wf_def CPU_init_def mmu_wf_def MMU_init_def)
  have "\<not> Status_EXL (cp0 unaligned_cpu)" "pc unaligned_cpu = 0xbfc00000"
    "cp0_get (cp0 unaligned_cpu) CP0_EBase = 0x80000180"
    by (simp_all add: unaligned_cpu_def CPU_init_def Status_EXL_def CP0_init_get)
  with precise_exception [OF wf c'(1)] c' show ?thesis by auto
qed

section \<open>Exception entry and return\<close>

lemma exl_clear_word: "(x :: u32) AND 2 = 0 \<Longrightarrow> (x OR 2) AND 0xfffffffd = x"
proof -
  assume "x AND 2 = 0"
  moreover have "(x OR 2) AND 0xfffffffd = x AND 0xfffffffd" by (simp add: u32_bitwise)
  moreover have "(x AND 0xfffffffd) OR (x AND 2) = x" by (simp add: u32_bitwise)
  ultimately show ?thesis by simp
qed

text \<open>
  C19. Entering an exception handler from normal level and leaving it with \<^verbatim>\<open>eret\<close> is a round trip: the
  handler starts at EBase with interrupts off, and \<^verbatim>\<open>eret\<close> resumes at the interrupted program
  counter with the Status register, and everything else but EPC, as before.
\<close>

theorem exception_eret_roundtrip:
  assumes "cpu_wf c" and "\<not> Status_EXL (cp0 c)"
  shows "pc (take_exception c) = cp0_get (cp0 c) CP0_EBase \<and>
    \<not> global_interrupt_enabled (cp0 (take_exception c)) \<and>
    exe_eret (take_exception c) = c\<lparr>cp0 := cp0_set (cp0 c) CP0_EPC (pc c)\<rparr>"
proof -
  have wf: "cp0_wf (cp0 c)" using assms(1) by (simp add: cpu_wf_def)
  have cp0_c: "cp0 (take_exception c) = set_Status_EXL (cp0_set (cp0 c) CP0_EPC (pc c))"
    using assms(2) by (simp add: take_exception_def Let_def)
  have "unset_Status_EXL (cp0 (take_exception c)) = cp0_set (cp0 c) CP0_EPC (pc c)"
    using assms(2) wf exl_clear_word [of "cp0_get (cp0 c) CP0_SR"]
    by (simp add: cp0_c set_Status_EXL_def unset_Status_EXL_def Status_EXL_def
        cp0_set_swap [of CP0_EPC CP0_SR])
  then have "exe_eret (take_exception c) = c\<lparr>cp0 := cp0_set (cp0 c) CP0_EPC (pc c)\<rparr>"
    using assms(2) wf cp0_c by (simp add: exe_eret_def take_exception_def Let_def)
  moreover have "\<not> global_interrupt_enabled (cp0 (take_exception c))"
    using wf by (intro exl_masks_interrupts) (simp add: cp0_c)
  ultimately show ?thesis using assms(2) by (simp add: take_exception_def Let_def)
qed

theorem exception_eret_roundtrip_witness:
  "pc (take_exception hello_cpu) = 0x80000180 \<and>
   pc (exe_eret (take_exception hello_cpu)) = 0xbfc00000"
proof -
  have "\<not> Status_EXL (cp0 hello_cpu)"
    by (simp add: hello_cpu_def CPU_init_def Status_EXL_def CP0_init_get)
  from exception_eret_roundtrip [OF hello_cpu_wf this] show ?thesis
    by (simp add: hello_cpu_def CPU_init_def CP0_init_get)
qed

section \<open>Multiplication\<close>

lemma sint_ucast_u64: "sint (ucast (x :: u32) :: u64) = int (unat x)"
proof -
  have "uint (ucast x :: u64) = uint x" by (rule uint_up_ucast) (simp add: is_up)
  moreover have "uint x < 2 ^ 32" using unsigned_less [of x] by simp
  moreover have "- (2 ^ 63) \<le> uint x" by (rule order_trans [of _ 0]) simp_all
  ultimately have "signed_take_bit 63 (uint x) = uint x"
    by (intro signed_take_bit_int_eq_self) simp_all
  with \<open>uint (ucast x :: u64) = uint x\<close> show ?thesis by (simp add: sint_uint)
qed

lemma ucast_u64_of_nat: "n < 2 ^ 64 \<Longrightarrow> (ucast (of_nat n :: u64) :: u32) = of_nat n"
proof -
  assume "n < 2 ^ 64"
  then have "unat (of_nat n :: u64) = n" by (simp add: unsigned_of_nat take_bit_nat_eq_self)
  then show ?thesis by (metis of_nat_unat)
qed

lemma ucast_high_u64: "(ucast (signed_drop_bit 32 (w :: u64)) :: u32) = ucast (drop_bit 32 w)"
  by (rule bit_word_eqI) (simp add: bit_simps add.commute)

lemma drop_bit_u64_of_nat: "n < 2 ^ 64 \<Longrightarrow> drop_bit 32 (of_nat n :: u64) = of_nat (n div 2 ^ 32)"
proof -
  assume n: "n < 2 ^ 64"
  have "unat (drop_bit 32 (of_nat n :: u64)) = n div 2 ^ 32"
    using n by (simp only: unat_drop_bit_eq drop_bit_eq_div [where 'a = nat])
       (simp add: unsigned_of_nat take_bit_nat_eq_self)
  then show ?thesis by (metis of_nat_unat ucast_id)
qed

text \<open>
  \<^verbatim>\<open>exe_mult\<close> leaves the 64-bit product of its operands, read as \<^emph>\<open>unsigned\<close> numbers, in HI and LO
  whenever that product fits a signed 64-bit integer; otherwise the C++ multiplication overflows.
\<close>

theorem exe_mult_unsigned:
  "exe_mult c =
     (let n = unat (reg c (rs c)) * unat (reg c (rt c)) in
      if n < 2 ^ 63
      then Inr (pc_add 4 (c\<lparr>hi := of_nat (n div 2 ^ 32), lo := of_nat (n mod 2 ^ 32)\<rparr>))
      else Inl Signed_overflow)"
proof -
  let ?x = "reg c (rs c)" and ?y = "reg c (rt c)"
  let ?n = "unat ?x * unat ?y"
  have prod: "ucast ?x * ucast ?y = (of_nat ?n :: u64)" by simp
  have ovf: "sint (ucast ?x :: u64) * sint (ucast ?y :: u64) = int ?n" by (simp add: sint_ucast_u64)
  have lo: "(ucast (of_nat ?n :: u64) :: u32) = of_nat (?n mod 2 ^ 32)" if "?n < 2 ^ 63"
    using that ucast_u64_of_nat [of ?n]
    by (simp add: word_of_nat_eq_iff take_bit_eq_mod del: of_nat_mult)
  have hi: "(ucast (signed_drop_bit 32 (of_nat ?n :: u64)) :: u32) = of_nat (?n div 2 ^ 32)"
    if "?n < 2 ^ 63"
  proof -
    have "?n < 2 ^ 64" and "?n div 2 ^ 32 < 2 ^ 64" using that by simp_all
    then show ?thesis by (simp only: ucast_high_u64 drop_bit_u64_of_nat ucast_u64_of_nat)
  qed
  show ?thesis
    using lo hi unfolding exe_mult_def Let_def prod ovf
    by (auto simp: not_less simp del: of_nat_mult)
qed

definition signed_product :: "u32 \<Rightarrow> u32 \<Rightarrow> u64" where
  "signed_product x y = of_int (sint x * sint y)"

definition mult_cpu :: cpu where
  "mult_cpu = CPU_init (MMU_init [] [] [] []) ([0, 0xffffffff, 1] @ replicate 29 0) 0x00220018 0 0"

text \<open>
  On a negative operand \<^verbatim>\<open>exe_mult\<close> does not compute the signed product that the MULT instruction
  of the MIPS32 manual defines: with \<open>-1\<close> and \<open>1\<close> in the source registers HI is 0, not \<open>-1\<close>.
\<close>

theorem exe_mult_not_signed:
  "\<exists>c'. exe_mult mult_cpu = Inr c' \<and> reg mult_cpu (rs mult_cpu) = - 1 \<and> reg mult_cpu (rt mult_cpu) = 1 \<and>
     hi c' = 0 \<and> ucast (drop_bit 32 (signed_product (- 1) 1)) = (0xffffffff :: u32)"
proof -
  have r: "reg mult_cpu (rs mult_cpu) = 0xffffffff" "reg mult_cpu (rt mult_cpu) = 1"
    by (simp_all add: mult_cpu_def CPU_init_def reg_def rs_def rt_def)
  have "exe_mult mult_cpu = Inr (pc_add 4 (mult_cpu\<lparr>hi := 0, lo := 0xffffffff\<rparr>))"
    by (simp add: exe_mult_def r sint_ucast_u64)
  moreover have "ucast (drop_bit 32 (signed_product (- 1) 1)) = (0xffffffff :: u32)"
    by (simp add: signed_product_def) (simp add: mask_eq_exp_minus_1)
  ultimately show ?thesis using r by simp
qed

section \<open>The TLB write instruction\<close>

text \<open>
  \<^verbatim>\<open>exe_tlbwi\<close> with an index below 16 installs the page pair: afterwards an access to a mapped address
  of that pair that the entry permits, and that no entry with a smaller index also covers,
  goes to the frame of the EntryLo register of its page. With an index of 16 or more the C++
  writes past the end of the TLB arrays.
\<close>

theorem tlbwi_installs:
  assumes "cpu_wf c" and "unat (cp0_get (cp0 c) CP0_Index) = i"
    and "drop_bit 13 (cp0_get (cp0 c) CP0_EntryHi) = drop_bit 13 va"
    and "\<not> (2 ^ 31 \<le> unat va \<and> unat va < 2 ^ 31 + 2 ^ 30)"
    and "\<forall>j < i. j < 16 \<longrightarrow> drop_bit 13 (tlb_key (mmu c) ! j) \<noteq> drop_bit 13 va"
    and "lo' = cp0_get (cp0 c) (if even (unat va div 4096) then CP0_EntryLo0 else CP0_EntryLo1)"
    and "bit lo' 1" and "write \<longrightarrow> bit lo' 2"
  shows "if i < 16
    then \<exists>c'. exe_tlbwi c = Inr c' \<and> pc c' = pc c + 4 \<and>
      addr_translate (cp0 c') (mmu c') va write False = (frame_addr lo' va, False, cp0 c')
    else exe_tlbwi c = Inl Tlb_index_out_of_range"
proof (cases "i < 16")
  case False
  then show ?thesis using assms(2) by (simp add: exe_tlbwi_def Let_def)
next
  case True
  from assms(1) obtain d0 d1 where d: "tlb_data (mmu c) = [d0, d1]" "length d0 = 16"
    "length d1 = 16" "length (tlb_key (mmu c)) = 16"
    using mmu_wf_rows by (auto simp: cpu_wf_def)
  let ?m = "(mmu c)\<lparr>tlb_key := (tlb_key (mmu c))[i := cp0_get (cp0 c) CP0_EntryHi],
    tlb_data := [d0[i := cp0_get (cp0 c) CP0_EntryLo0], d1[i := cp0_get (cp0 c) CP0_EntryLo1]]\<rparr>"
  have exe: "exe_tlbwi c = Inr (pc_add 4 (c\<lparr>mmu := ?m\<rparr>))"
    using True assms(2) d(1) by (simp add: exe_tlbwi_def Let_def)
  have scan: "tlb_scan ?m (drop_bit 13 va) j = Some i" if "j \<le> i" for j
    using that
  proof (induction "i - j" arbitrary: j)
    case 0
    then show ?case using True assms(3) d(4) by (subst tlb_scan.simps) simp
  next
    case (Suc n)
    then show ?case using True assms(5) d(4) by (simp add: tlb_scan.simps [of ?m _ j])
  qed
  have seg: "\<not> (va \<ge> KSEG0_BASE \<and> va < KSEG0_BASE + KSEG0_SIZE)"
    "\<not> (va \<ge> KSEG1_BASE \<and> va < KSEG1_BASE + KSEG1_SIZE)"
    using assms(4) segment_words [of va] by blast+
  have elo: "tlb_data ?m ! unat (drop_bit 12 va AND 1) ! i = lo'"
    using True d(2,3) assms(6) by (simp add: page_select)
  have "addr_translate (cp0 c) ?m va write False = (frame_addr lo' va, False, cp0 c)"
    unfolding addr_translate_def if_not_P [OF seg(1)] if_not_P [OF seg(2)] Let_def
      scan [OF le0] option.case elo
    using assms(7,8) by (auto simp: u32_drop_bit_and_1 frame_addr_word)
  with exe True show ?thesis by simp
qed

definition tlb_cpu :: cpu where
  "tlb_cpu = hello_cpu\<lparr>cp0 := \<lparr>cp0_registers =
     [3, 0, 0x0000014f, 0x000001c6, 0, 0, 0, 0, 0, 0, 0x00400000, 0, 0, 0, 0, 0x80000180] @
     replicate 16 0\<rparr>\<rparr>"

theorem tlbwi_installs_witness:
  "\<exists>c'. exe_tlbwi tlb_cpu = Inr c' \<and>
     addr_translate (cp0 c') (mmu c') 0x00401abc True False = (0x7abc, False, cp0 c')"
proof -
  have wf: "cpu_wf tlb_cpu"
    using hello_cpu_wf by (simp add: tlb_cpu_def cpu_wf_def cp0_wf_def)
  have regs: "cp0_get (cp0 tlb_cpu) CP0_Index = 3" "cp0_get (cp0 tlb_cpu) CP0_EntryHi = 0x00400000"
    "cp0_get (cp0 tlb_cpu) CP0_EntryLo1 = 0x000001c6"
    by (simp_all add: tlb_cpu_def cp0_get_def)
  have keys: "\<forall>j < 3. j < 16 \<longrightarrow>
      drop_bit 13 (tlb_key (mmu tlb_cpu) ! j) \<noteq> drop_bit 13 (0x00401abc :: u32)"
    by (simp add: tlb_cpu_def hello_cpu_def CPU_init_def MMU_init_def)
  have "frame_addr 0x000001c6 0x00401abc = 0x7abc" by (simp add: frame_addr_def)
  then show ?thesis
    using tlbwi_installs [OF wf, of 3 "0x00401abc" "0x000001c6" True] regs keys by auto
qed

section \<open>The clock interrupt\<close>

text \<open>
  The timer. After an instruction that raises nothing, Count has been reset or is below Compare. An
  interrupt is delivered only after a completed instruction, with Count reset, the clock's pending
  bit set in Cause, and with interrupts enabled globally, for the clock, and not at exception level.
\<close>

theorem clock_interrupt:
  assumes "cpu_wf c" and "cpu_next c False = Inr (c', e)"
  shows "(\<not> e \<longrightarrow> cp0_get (cp0 c') CP0_Count = 0 \<or>
      cp0_get (cp0 c') CP0_Count < cp0_get (cp0 c') CP0_Compare) \<and>
    (e \<and> ExcCode (cp0 c') = Exc_Int \<longrightarrow>
      cp0_get (cp0 c') CP0_Count = 0 \<and> bit (cp0_get (cp0 c') CP0_Cause) 15 \<and>
      global_interrupt_enabled (cp0 c') \<and> interrupt_enabled (cp0 c') IP_7 \<and>
      \<not> Status_EXL (cp0 c'))"
  using assms(2)
proof (cases rule: cpu_next_cases)
  case (fetch v p)
  have "cp0_wf (cp0 (ticked c))" using ticked_keeps(1) [OF assms(1)] by (simp add: cpu_wf_def)
  then have "fault_cp0 (cp0 (ticked c)) p" using fetch(1) by (rule read_fault(3))
  with fetch show ?thesis by (simp add: fault_cp0_def)
next
  case (fault v p)
  then show ?thesis
    using instruction_decode_precise [OF fetched_wf [OF assms(1) fault(1)] fault(2)]
    by (simp add: fault_cp0_def)
next
  case (ok v p c1)
  have wf: "cp0_wf (cp0 c1)"
    using instruction_decode_keeps [OF fetched_wf [OF assms(1) ok(1)] ok(2)]
    by (simp add: cpu_wf_def)
  have pending: "bit (((x :: u32) OR 0x8000) AND 0xffffff83) 15" for x by (simp add: bit_simps)
  show ?thesis
    using ok(3) wf pending
    by (auto simp: clock_def Let_def set_interrupt_code_def set_exception_code_def
        dest: exl_masks_interrupts split: if_splits)
qed

text \<open>An enabled clock that expires at once, before a \<open>sll\<close> (the word 0).\<close>

definition clock_cpu :: cpu where
  "clock_cpu = CPU_init (MMU_init [0, 0, 0, 0] [] (replicate 16 0)
     (replicate 2 (replicate 16 0))) (replicate 32 0) 0 0 0
     \<lparr>cp0 := cp0_set CP0_init CP0_SR 0x8001\<rparr>"

lemma clock_cpu_interrupted:
  "case cpu_next clock_cpu False of
     Inl u \<Rightarrow> False | Inr (c', e) \<Rightarrow> e \<and> ExcCode (cp0 c') = Exc_Int \<and> pc c' = 0xbfc00004"
  by code_simp

theorem clock_interrupt_witness:
  "\<exists>c'. cpu_next clock_cpu False = Inr (c', True) \<and> ExcCode (cp0 c') = Exc_Int \<and>
     cp0_get (cp0 c') CP0_Count = 0 \<and> global_interrupt_enabled (cp0 c') \<and> \<not> Status_EXL (cp0 c')"
proof -
  obtain c' where c': "cpu_next clock_cpu False = Inr (c', True)" "ExcCode (cp0 c') = Exc_Int"
    using clock_cpu_interrupted by (auto split: sum.splits)
  have wf: "cpu_wf clock_cpu"
    by (simp add: clock_cpu_def cpu_wf_def CPU_init_def mmu_wf_def MMU_init_def)
  from clock_interrupt [OF wf c'(1)] c' show ?thesis by auto
qed

section \<open>Undefined behaviour\<close>

definition full_images :: "mmu \<Rightarrow> bool" where
  "full_images m \<longleftrightarrow> unat ROM_SIZE \<le> length (rom m) \<and> unat FLASH_SIZE \<le> length (flash m)"

lemma read_physical_total: "full_images m \<Longrightarrow> read_physical m a \<noteq> Inl u"
proof -
  assume m: "full_images m"
  have "unat (a - ROM_BASE) < length (rom m)" if "a \<ge> ROM_BASE" "a < ROM_BASE + ROM_SIZE"
    using that m by (auto simp: full_images_def word_le_nat_alt word_less_nat_alt unat_sub)
  moreover have "unat (a - FLASH_BASE) < length (flash m)"
    if "a \<ge> FLASH_BASE" "a < FLASH_BASE + FLASH_SIZE"
    using that m by (auto simp: full_images_def word_le_nat_alt word_less_nat_alt unat_sub)
  ultimately show ?thesis by (auto simp: read_physical_def Let_def)
qed

lemma read_total:
  "full_images m \<Longrightarrow> read_byte p m a e \<noteq> Inl u"
  "full_images m \<Longrightarrow> read_half_word p m a e \<noteq> Inl u"
  "full_images m \<Longrightarrow> read_word p m a e \<noteq> Inl u"
  by (auto simp: read_byte_def read_half_word_def read_word_def bindE_Inl_iff read_physical_total
      split: if_splits prod.splits)

text \<open>The instruction and operands on which a handler's C++ is undefined.\<close>

definition undefined_at :: "ub \<Rightarrow> mnemonic \<Rightarrow> cpu \<Rightarrow> bool" where
  "undefined_at u i c \<longleftrightarrow>
     u = Shift_too_large \<and> i \<in> {I_SLLV, I_SRLV, I_SRAV} \<and> 32 \<le> reg c (rs c) \<or>
     u = Signed_overflow \<and> i = I_MULT \<and> 2 ^ 63 \<le> unat (reg c (rs c)) * unat (reg c (rt c)) \<or>
     u = Tlb_index_out_of_range \<and> i = I_TLBWI \<and> 16 \<le> unat (cp0_get (cp0 c) CP0_Index)"

lemma exe_mult_undefined:
  "exe_mult c = Inl u \<longleftrightarrow> undefined_at u I_MULT c"
proof -
  let ?x = "reg c (rs c)" and ?y = "reg c (rt c)"
  have e: "sint (ucast ?x :: u64) * sint (ucast ?y :: u64) = int (unat ?x * unat ?y)"
    by (simp add: sint_ucast_u64)
  have "2 ^ 63 \<le> int (unat ?x * unat ?y) \<longleftrightarrow> 2 ^ 63 \<le> unat ?x * unat ?y"
    by (metis of_nat_le_iff of_nat_numeral of_nat_power)
  moreover have "- (2 ^ 63) \<le> int (unat ?x * unat ?y)" by (rule order_trans [of _ 0]) simp_all
  ultimately show ?thesis
    unfolding undefined_at_def exe_mult_def Let_def e by auto
qed

lemma exec_mn_undefined:
  "full_images (mmu c) \<Longrightarrow> exec_mn i c e = Inl u \<longleftrightarrow> undefined_at u i c"
  using exe_mult_undefined [of c u]
  by (cases i)
    (auto simp: plain_def plainE_def bindE_Inl_iff undefined_at_def exe_sllv_def exe_srlv_def
      exe_srav_def exe_tlbwi_def exe_lb_def exe_lw_def exe_lbu_def exe_lhu_def read_total Let_def
      split: if_splits)

text \<open>
  C10. With complete ROM and flash images, a round of the emulator has undefined behaviour exactly
  when the instruction it fetches is one of these, with these operands: a variable shift by 32 or
  more, a multiplication whose product reaches \<open>2 ^ 63\<close>, a \<^verbatim>\<open>tlbwi\<close> with an index of 16 or more, which
  stores past the TLB arrays. Every other round completes: no fetch, load or store of any address,
  and no other instruction, leaves the images or is undefined on any state.
\<close>

theorem run_step_undefined:
  assumes "full_images (mmu c)"
  shows "run_step c = Inl u \<longleftrightarrow>
    (\<exists>v p i. read_word (cp0 (ticked c)) (mmu c) (pc c) False = Inr (v, False, p) \<and>
      isa_decode v = Some i \<and> undefined_at u i ((ticked c)\<lparr>cp0 := p, instruction := v\<rparr>))"
proof -
  obtain v e p where f: "read_word (cp0 (ticked c)) (mmu c) (pc c) False = Inr (v, e, p)"
    using read_total(3) [OF assms] by (metis sum.exhaust prod_cases3)
  let ?c = "(ticked c)\<lparr>cp0 := p, instruction := v\<rparr>"
  have nx: "run_step c = Inl u \<longleftrightarrow> \<not> e \<and> instruction_decode ?c False = Inl u"
    using f by (auto simp: run_step_def cpu_next_def ticked_def Let_def bindE_Inl_iff split: if_splits)
  have "instruction_decode ?c False = Inl u \<longleftrightarrow> (\<exists>i. isa_decode v = Some i \<and> exec_mn i ?c False = Inl u)"
    by (auto simp: decode_by_table split: option.splits)
  also have "\<dots> \<longleftrightarrow> (\<exists>i. isa_decode v = Some i \<and> undefined_at u i ?c)"
    using exec_mn_undefined [of ?c] assms by (simp add: ticked_keeps)
  finally show ?thesis using nx f by auto
qed

text \<open>\<open>sllv $1, $2, $3\<close> with 40 in register 3.\<close>

definition shift_cpu :: cpu where
  "shift_cpu = CPU_init (MMU_init ([0x04, 0x08, 0x62, 0x00] @ replicate 4092 0) (replicate 8388608 0)
     (replicate 16 0) (replicate 2 (replicate 16 0))) ([0, 0, 1, 40] @ replicate 28 0) 0 0 0"

lemma shift_cpu_undefined: "run_step shift_cpu = Inl Shift_too_large"
  by (simp add: shift_cpu_def run_step_def cpu_next_def Let_def CPU_init_def set_reg_def
      read_word_def addr_translate_def read_physical_def MMU_init_def instruction_decode_def
      main_opcode_def sub_opcode_def exe_sllv_def plainE_def reg_def rs_def)

theorem run_step_undefined_witness:
  "\<exists>v p i. read_word (cp0 (ticked shift_cpu)) (mmu shift_cpu) (pc shift_cpu) False = Inr (v, False, p) \<and>
    isa_decode v = Some i \<and>
    undefined_at Shift_too_large i ((ticked shift_cpu)\<lparr>cp0 := p, instruction := v\<rparr>)"
proof -
  have "full_images (mmu shift_cpu)"
    by (simp add: full_images_def shift_cpu_def CPU_init_def MMU_init_def)
  from run_step_undefined [OF this] shift_cpu_undefined show ?thesis by blast
qed

end
