(* ===== verification/Clist.thy ===== *)
theory Clist
  imports Prelude
begin

text \<open>
  The kernel's intrusive circular doubly linked lists (\<^verbatim>\<open>ucore_OS/libs/list.h\<close>). A \<open>lheap\<close> holds the two
  pointers of every \<^verbatim>\<open>list_entry_t\<close>; \<open>'a\<close> is the type of addresses of list entries, which each client
  chooses (the list heads and the entries embedded in its structures). Each inline function of the
  header is a function on that heap, with the header's order of assignments.

  \<open>clist h l xs\<close> says that in \<open>h\<close> the entries \<open>xs\<close> hang in this order on the list head \<open>l\<close>. The locale
  \<open>linked_list\<close> states what the operations promise in terms of it, and is what the clients of the
  lists rely on.
\<close>

section \<open>Operations\<close>

record 'a lheap =
  prev_of :: "'a \<Rightarrow> 'a"
  next_of :: "'a \<Rightarrow> 'a"

definition set_prev :: "'a \<Rightarrow> 'a \<Rightarrow> 'a lheap \<Rightarrow> 'a lheap" where
  "set_prev e v h = h\<lparr>prev_of := (prev_of h)(e := v)\<rparr>"

definition set_next :: "'a \<Rightarrow> 'a \<Rightarrow> 'a lheap \<Rightarrow> 'a lheap" where
  "set_next e v h = h\<lparr>next_of := (next_of h)(e := v)\<rparr>"

definition list_init :: "'a lheap \<Rightarrow> 'a \<Rightarrow> 'a lheap" where
  "list_init h elm = set_prev elm elm (set_next elm elm h)"

text \<open>\<^verbatim>\<open>__list_add\<close> and \<^verbatim>\<open>__list_del\<close>.\<close>

definition list_add_between :: "'a lheap \<Rightarrow> 'a \<Rightarrow> 'a \<Rightarrow> 'a \<Rightarrow> 'a lheap" where
  "list_add_between h elm prev nxt =
     (let h = set_prev nxt elm h;
          h = set_next prev elm h;
          h = set_next elm nxt h
      in set_prev elm prev h)"

definition list_del_between :: "'a lheap \<Rightarrow> 'a \<Rightarrow> 'a \<Rightarrow> 'a lheap" where
  "list_del_between h prev nxt = set_prev nxt prev (set_next prev nxt h)"

definition list_add_before :: "'a lheap \<Rightarrow> 'a \<Rightarrow> 'a \<Rightarrow> 'a lheap" where
  "list_add_before h listelm elm = list_add_between h elm (prev_of h listelm) listelm"

definition list_add_after :: "'a lheap \<Rightarrow> 'a \<Rightarrow> 'a \<Rightarrow> 'a lheap" where
  "list_add_after h listelm elm = list_add_between h elm listelm (next_of h listelm)"

definition list_add :: "'a lheap \<Rightarrow> 'a \<Rightarrow> 'a \<Rightarrow> 'a lheap" where
  "list_add h listelm elm = list_add_after h listelm elm"

definition list_del :: "'a lheap \<Rightarrow> 'a \<Rightarrow> 'a lheap" where
  "list_del h listelm = list_del_between h (prev_of h listelm) (next_of h listelm)"

definition list_del_init :: "'a lheap \<Rightarrow> 'a \<Rightarrow> 'a lheap" where
  "list_del_init h listelm = list_init (list_del h listelm) listelm"

definition list_empty :: "'a lheap \<Rightarrow> 'a \<Rightarrow> bool" where
  "list_empty h l \<longleftrightarrow> next_of h l = l"

definition list_next :: "'a lheap \<Rightarrow> 'a \<Rightarrow> 'a" where
  "list_next h listelm = next_of h listelm"

definition list_prev :: "'a lheap \<Rightarrow> 'a \<Rightarrow> 'a" where
  "list_prev h listelm = prev_of h listelm"

section \<open>The list a heap holds\<close>

fun links :: "'a lheap \<Rightarrow> 'a list \<Rightarrow> bool" where
  "links h (x # y # zs) \<longleftrightarrow> next_of h x = y \<and> prev_of h y = x \<and> links h (y # zs)"
| "links h _ \<longleftrightarrow> True"

definition clist :: "'a lheap \<Rightarrow> 'a \<Rightarrow> 'a list \<Rightarrow> bool" where
  "clist h l xs \<longleftrightarrow> distinct (l # xs) \<and> links h (l # xs @ [l])"

lemma heap_fields [simp]:
  "prev_of (set_prev e v h) = (prev_of h)(e := v)" "next_of (set_prev e v h) = next_of h"
  "next_of (set_next e v h) = (next_of h)(e := v)" "prev_of (set_next e v h) = prev_of h"
  by (simp_all add: set_prev_def set_next_def)

lemma links_append:
  "links h (xs @ y # ys) \<longleftrightarrow> links h (xs @ [y]) \<and> links h (y # ys)"
  by (induction h xs rule: links.induct) (auto simp: neq_Nil_conv)

lemma links_frame:
  "\<forall>x \<in> set (butlast zs). next_of h' x = next_of h x \<Longrightarrow>
   \<forall>x \<in> set (tl zs). prev_of h' x = prev_of h x \<Longrightarrow> links h' zs = links h zs"
  by (induction h zs rule: links.induct) auto

lemma links_nth:
  "links h zs \<longleftrightarrow> (\<forall>i. Suc i < length zs \<longrightarrow>
     next_of h (zs ! i) = zs ! Suc i \<and> prev_of h (zs ! Suc i) = zs ! i)"
proof (induction h zs rule: links.induct)
  case (1 h x y zs)
  show ?case
  proof
    assume "links h (x # y # zs)"
    with 1 show "\<forall>i. Suc i < length (x # y # zs) \<longrightarrow>
       next_of h ((x # y # zs) ! i) = (x # y # zs) ! Suc i \<and>
       prev_of h ((x # y # zs) ! Suc i) = (x # y # zs) ! i"
      by (auto simp: nth_Cons split: nat.split)
  next
    assume a: "\<forall>i. Suc i < length (x # y # zs) \<longrightarrow>
       next_of h ((x # y # zs) ! i) = (x # y # zs) ! Suc i \<and>
       prev_of h ((x # y # zs) ! Suc i) = (x # y # zs) ! i"
    from a [rule_format, of 0] have "next_of h x = y" "prev_of h y = x" by simp_all
    moreover have "links h (y # zs)"
      using 1 a [rule_format, of "Suc _"] by simp
    ultimately show "links h (x # y # zs)" by simp
  qed
qed auto

lemma clist_nil [simp]: "clist h l [] \<longleftrightarrow> next_of h l = l \<and> prev_of h l = l"
  by (auto simp: clist_def)

text \<open>Around a position: the list is \<open>xs @ ys\<close>, the neighbours there are \<open>last (l # xs)\<close> and \<open>hd (ys @ [l])\<close>.\<close>

lemma clist_split:
  "clist h l (xs @ ys) \<longleftrightarrow>
     distinct (l # xs @ ys) \<and> links h (l # xs) \<and> links h (ys @ [l]) \<and>
     next_of h (last (l # xs)) = hd (ys @ [l]) \<and> prev_of h (hd (ys @ [l])) = last (l # xs)"
proof -
  obtain as a where a: "l # xs = as @ [a]" by (metis neq_Nil_conv rev_exhaust list.distinct(1))
  obtain b bs where b: "ys @ [l] = b # bs" by (cases "ys @ [l]") auto
  have "l # (xs @ ys) @ [l] = as @ a # b # bs" using a b by (metis append.assoc append_Cons append_Nil)
  moreover have "links h (as @ a # b # bs) \<longleftrightarrow> links h (as @ [a]) \<and> links h (a # b # bs)"
    by (rule links_append)
  ultimately show ?thesis
    unfolding clist_def by (simp only: a b) auto
qed

section \<open>What the operations do to it\<close>

lemma clist_list_init: "clist (list_init h l) l []"
  by (simp add: list_init_def)

lemma set_butlast_append_tl:
  "x \<in> set (butlast (l # xs)) \<Longrightarrow> x \<noteq> last (l # xs) \<or> \<not> distinct (l # xs)"
  by (metis append_butlast_last_id distinct_butlast list.distinct(1) not_distinct_conv_prefix
      distinct_append disjoint_iff list.set_intros(1))

text \<open>A change of the links at one position leaves the two halves alone.\<close>

lemma links_cut:
  assumes d: "distinct (l # xs @ ys)" and p: "p = last (l # xs)" and n: "n = hd (ys @ [l])"
    and e: "E \<inter> set (l # xs @ ys) = {}"
    and nx: "\<And>x. x \<noteq> p \<Longrightarrow> x \<notin> E \<Longrightarrow> next_of h' x = next_of h x"
    and pv: "\<And>x. x \<noteq> n \<Longrightarrow> x \<notin> E \<Longrightarrow> prev_of h' x = prev_of h x"
  shows "links h' (l # xs) = links h (l # xs)" "links h' (ys @ [l]) = links h (ys @ [l])"
proof -
  have pin: "p \<in> set (l # xs)" unfolding p by (rule last_in_set) simp
  show "links h' (l # xs) = links h (l # xs)"
  proof (rule links_frame; intro ballI)
    fix x assume x: "x \<in> set (butlast (l # xs))"
    then have "x \<noteq> p" using set_butlast_append_tl [OF x] d p by auto
    moreover have "x \<notin> E" using in_set_butlastD [OF x] e by auto
    ultimately show "next_of h' x = next_of h x" by (rule nx)
  next
    fix x assume x: "x \<in> set (tl (l # xs))"
    then have "x \<noteq> n" using d n by (cases ys) auto
    moreover have "x \<notin> E" using x e by auto
    ultimately show "prev_of h' x = prev_of h x" by (rule pv)
  qed
  show "links h' (ys @ [l]) = links h (ys @ [l])"
  proof (rule links_frame; intro ballI)
    fix x assume "x \<in> set (butlast (ys @ [l]))"
    then have x: "x \<in> set ys" by simp
    then have "x \<noteq> p" "x \<notin> E" using d pin e by auto
    then show "next_of h' x = next_of h x" by (rule nx)
  next
    fix x assume x: "x \<in> set (tl (ys @ [l]))"
    then have "x \<noteq> n" using d n by (cases ys) auto
    moreover have "x \<notin> E" using x e by (cases ys) auto
    ultimately show "prev_of h' x = prev_of h x" by (rule pv)
  qed
qed

lemma clist_add_between:
  assumes l: "clist h l (xs @ ys)" and e: "elm \<notin> set (l # xs @ ys)"
  shows "clist (list_add_between h elm (last (l # xs)) (hd (ys @ [l]))) l (xs @ elm # ys)"
proof -
  define p n where p: "p = last (l # xs)" and n: "n = hd (ys @ [l])"
  define h' where h': "h' = list_add_between h elm p n"
  have d: "distinct (l # xs @ ys)" using l by (simp add: clist_def)
  have "p \<in> set (l # xs)" unfolding p by (rule last_in_set) simp
  moreover have "n \<in> set (ys @ [l])" unfolding n by (rule hd_in_set) simp
  ultimately have ne: "p \<noteq> elm" "n \<noteq> elm" using e by auto
  have nx: "next_of h' = (next_of h)(p := elm, elm := n)"
    and pv: "prev_of h' = (prev_of h)(n := elm, elm := p)"
    by (simp_all add: h' list_add_between_def Let_def)
  have "links h' (l # xs) = links h (l # xs)" "links h' (ys @ [l]) = links h (ys @ [l])"
    by (rule links_cut [OF d p n, where E = "{elm}"]; use e in \<open>auto simp: nx pv\<close>)+
  moreover have "links h' (elm # ys @ [l]) \<longleftrightarrow> links h' (ys @ [l])"
    using ne by (cases ys) (auto simp: nx pv n)
  ultimately have "clist h' l (xs @ elm # ys)"
    using l e ne unfolding clist_split by (auto simp: nx pv simp flip: p n simp del: last.simps)
  then show ?thesis by (simp add: h' p n)
qed

lemma clist_neighbours:
  assumes "clist h l (xs @ ys)"
  shows "next_of h (last (l # xs)) = hd (ys @ [l])" "prev_of h (hd (ys @ [l])) = last (l # xs)"
  using assms by (auto simp: clist_split)

lemma clist_add_before:
  assumes "clist h l (xs @ ys)" "elm \<notin> set (l # xs @ ys)" "n = hd (ys @ [l])"
  shows "clist (list_add_before h n elm) l (xs @ elm # ys)"
  using clist_add_between [OF assms(1,2)] clist_neighbours(2) [OF assms(1)] assms(3)
  by (simp add: list_add_before_def)

lemma clist_add_after:
  assumes "clist h l (xs @ ys)" "elm \<notin> set (l # xs @ ys)" "p = last (l # xs)"
  shows "clist (list_add_after h p elm) l (xs @ elm # ys)"
  using clist_add_between [OF assms(1,2)] clist_neighbours(1) [OF assms(1)] assms(3)
  by (simp add: list_add_after_def)

lemma clist_list_del:
  assumes l: "clist h l (xs @ e # ys)"
  shows "clist (list_del h e) l (xs @ ys)"
proof -
  define p n where p: "p = last (l # xs)" and n: "n = hd (ys @ [l])"
  have d: "distinct (l # xs @ ys)" using l by (simp add: clist_def)
  have pe: "prev_of h e = p" using clist_neighbours(2) [OF l] by (simp add: p)
  have ne: "next_of h e = n"
    using clist_neighbours(1) [of h l "xs @ [e]" ys] l by (simp add: n)
  have nx: "next_of (list_del h e) = (next_of h)(p := n)"
    and pv: "prev_of (list_del h e) = (prev_of h)(n := p)"
    by (simp_all add: list_del_def list_del_between_def pe ne)
  have "links (list_del h e) (l # xs) = links h (l # xs)"
    "links (list_del h e) (ys @ [l]) = links h (ys @ [l])"
    by (rule links_cut [OF d p n, where E = "{}"]; simp add: nx pv)+
  moreover have "links h (l # xs)" "links h (ys @ [l])"
    using l clist_split [of h l "xs @ [e]" ys] clist_split [of h l xs "e # ys"] by simp_all
  ultimately show ?thesis
    using d unfolding clist_split by (simp add: nx pv del: last.simps flip: p n)
qed

text \<open>The entry taken out keeps its own pointers: \<^verbatim>\<open>list_del\<close> leaves it dangling, \<^verbatim>\<open>list_del_init\<close> makes
  it a list of its own.\<close>

lemma list_del_self:
  assumes "clist h l (xs @ e # ys)"
  shows "prev_of (list_del h e) e = last (l # xs)" "next_of (list_del h e) e = hd (ys @ [l])"
proof -
  have d: "distinct (l # xs @ e # ys)" using assms by (simp add: clist_def)
  have pe: "prev_of h e = last (l # xs)" using clist_neighbours(2) [OF assms] by simp
  have ne: "next_of h e = hd (ys @ [l])"
    using clist_neighbours(1) [of h l "xs @ [e]" ys] assms by simp
  have "last (l # xs) \<in> set (l # xs)" "hd (ys @ [l]) \<in> set (ys @ [l])"
    by (rule last_in_set, simp) (rule hd_in_set, simp)
  with d have "last (l # xs) \<noteq> e" "hd (ys @ [l]) \<noteq> e" by auto
  then show "prev_of (list_del h e) e = last (l # xs)" "next_of (list_del h e) e = hd (ys @ [l])"
    by (simp_all add: list_del_def list_del_between_def pe ne)
qed

lemma clist_list_del_init:
  assumes "clist h l (xs @ e # ys)"
  shows "clist (list_del_init h e) l (xs @ ys)" "clist (list_del_init h e) e []"
proof -
  have d: "distinct (l # xs @ e # ys)" using assms by (simp add: clist_def)
  have "links (list_del_init h e) (l # (xs @ ys) @ [l]) = links (list_del h e) (l # (xs @ ys) @ [l])"
    by (rule links_frame)
      (use d in \<open>auto simp: list_del_init_def list_init_def dest: in_set_butlastD\<close>)
  then show "clist (list_del_init h e) l (xs @ ys)"
    using clist_list_del [OF assms] by (simp add: clist_def)
  show "clist (list_del_init h e) e []"
    by (simp add: list_del_init_def list_init_def)
qed

lemma clist_list_empty: "clist h l xs \<Longrightarrow> list_empty h l \<longleftrightarrow> xs = []"
  by (cases xs) (auto simp: list_empty_def clist_def)

text \<open>Lists that share no entry with the one an operation works on keep their content.\<close>

lemma clist_frame:
  assumes "\<And>x. x \<in> set (k # ys) \<Longrightarrow> next_of h' x = next_of h x \<and> prev_of h' x = prev_of h x"
  shows "clist h' k ys = clist h k ys"
proof -
  have "links h' (k # ys @ [k]) = links h (k # ys @ [k])"
    by (rule links_frame; intro ballI) (use assms in \<open>auto dest: in_set_butlastD split: if_splits\<close>)
  then show ?thesis by (simp add: clist_def)
qed

lemma clist_closed:
  assumes "clist h l xs" "p \<in> set (l # xs)"
  shows "next_of h p \<in> set (l # xs)" "prev_of h p \<in> set (l # xs)"
proof -
  obtain as bs where s: "l # xs = as @ p # bs" using assms(2) by (metis split_list)
  have "last (p # bs) \<in> set (l # xs)"
    unfolding s using last_in_set [of "p # bs"] by auto
  have 1: "next_of h p = hd (bs @ [l])"
  proof (cases as)
    case Nil
    with s assms(1) show ?thesis using clist_neighbours(1) [of h l "[]" xs] by simp
  next
    case (Cons a as')
    with s have "xs = (as' @ [p]) @ bs" by simp
    with assms(1) show ?thesis using clist_neighbours(1) [of h l "as' @ [p]" bs] by simp
  qed
  have "hd (bs @ [l]) \<in> set (bs @ [l])" by (rule hd_in_set) simp
  then show "next_of h p \<in> set (l # xs)" unfolding 1 using s by (cases as) auto
  have 2: "prev_of h p = (if as = [] then last (l # xs) else last as)"
  proof (cases as)
    case Nil
    with s assms(1) show ?thesis using clist_neighbours(2) [of h l xs "[]"] by simp
  next
    case (Cons a as')
    with s have "xs = as' @ p # bs" "a = l" by simp_all
    with assms(1) Cons show ?thesis using clist_neighbours(2) [of h l as' "p # bs"] by simp
  qed
  show "prev_of h p \<in> set (l # xs)"
    unfolding 2 s [symmetric] using last_in_set [of as] last_in_set [of "l # xs"] s
    by (auto simp del: last.simps)
qed

lemma clist_add_before_other:
  assumes "clist h l xs" "clist h k ys" "set (l # xs) \<inter> set (k # ys) = {}" 
    "p \<in> set (l # xs)" "e \<notin> set (k # ys)"
  shows "clist (list_add_before h p e) k ys"
proof -
  note c = clist_closed [OF assms(1,4)]
  have "clist (list_add_before h p e) k ys = clist h k ys"
  proof (rule clist_frame)
    fix x assume x: "x \<in> set (k # ys)"
    then have "x \<notin> set (l # xs)" using assms(3) by blast
    then have "x \<noteq> next_of h p" "x \<noteq> prev_of h p" "x \<noteq> p"
      using c assms(4) by metis+
    then show "next_of (list_add_before h p e) x = next_of h x \<and> prev_of (list_add_before h p e) x = prev_of h x"
      using x assms(5) by (auto simp: list_add_before_def list_add_between_def Let_def)
  qed
  with assms(2) show ?thesis by simp
qed

lemma clist_add_after_other:
  assumes "clist h l xs" "clist h k ys" "set (l # xs) \<inter> set (k # ys) = {}" 
    "p \<in> set (l # xs)" "e \<notin> set (k # ys)"
  shows "clist (list_add_after h p e) k ys"
proof -
  note c = clist_closed [OF assms(1,4)]
  have "clist (list_add_after h p e) k ys = clist h k ys"
  proof (rule clist_frame)
    fix x assume x: "x \<in> set (k # ys)"
    then have "x \<notin> set (l # xs)" using assms(3) by blast
    then have "x \<noteq> next_of h p" "x \<noteq> prev_of h p" "x \<noteq> p"
      using c assms(4) by metis+
    then show "next_of (list_add_after h p e) x = next_of h x \<and> prev_of (list_add_after h p e) x = prev_of h x"
      using x assms(5) by (auto simp: list_add_after_def list_add_between_def Let_def)
  qed
  with assms(2) show ?thesis by simp
qed

lemma clist_del_other:
  assumes "clist h l xs" "clist h k ys" "set (l # xs) \<inter> set (k # ys) = {}" "e \<in> set xs"
  shows "clist (list_del h e) k ys"
proof -
  have e: "e \<in> set (l # xs)" using assms(4) by simp
  note c = clist_closed [OF assms(1) e]
  have "clist (list_del h e) k ys = clist h k ys"
  proof (rule clist_frame)
    fix x assume x: "x \<in> set (k # ys)"
    then have "x \<notin> set (l # xs)" using assms(3) by blast
    then have "x \<noteq> next_of h e" "x \<noteq> prev_of h e" "x \<noteq> e"
      using c assms(4) e by metis+
    then show "next_of (list_del h e) x = next_of h x \<and> prev_of (list_del h e) x = prev_of h x"
      using x by (auto simp: list_del_def list_del_between_def)
  qed
  with assms(2) show ?thesis by simp
qed

section \<open>The interface the clients use\<close>

locale linked_list =
  fixes init :: "'h \<Rightarrow> 'a \<Rightarrow> 'h"
    and add_before :: "'h \<Rightarrow> 'a \<Rightarrow> 'a \<Rightarrow> 'h"
    and add_after :: "'h \<Rightarrow> 'a \<Rightarrow> 'a \<Rightarrow> 'h"
    and del :: "'h \<Rightarrow> 'a \<Rightarrow> 'h"
    and nxt :: "'h \<Rightarrow> 'a \<Rightarrow> 'a"
    and prv :: "'h \<Rightarrow> 'a \<Rightarrow> 'a"
    and empty :: "'h \<Rightarrow> 'a \<Rightarrow> bool"
    and rep :: "'h \<Rightarrow> 'a \<Rightarrow> 'a list \<Rightarrow> bool"
  assumes rep_init: "rep (init h l) l []"
    and rep_distinct: "rep h l xs \<Longrightarrow> distinct (l # xs)"
    and rep_nxt: "rep h l (xs @ ys) \<Longrightarrow> nxt h (last (l # xs)) = hd (ys @ [l])"
    and rep_prv: "rep h l (xs @ ys) \<Longrightarrow> prv h (hd (ys @ [l])) = last (l # xs)"
    and rep_empty: "rep h l xs \<Longrightarrow> empty h l \<longleftrightarrow> xs = []"
    and rep_add_before: "\<lbrakk>rep h l (xs @ ys); e \<notin> set (l # xs @ ys); n = hd (ys @ [l])\<rbrakk>
          \<Longrightarrow> rep (add_before h n e) l (xs @ e # ys)"
    and rep_add_after: "\<lbrakk>rep h l (xs @ ys); e \<notin> set (l # xs @ ys); p = last (l # xs)\<rbrakk>
          \<Longrightarrow> rep (add_after h p e) l (xs @ e # ys)"
    and rep_del: "rep h l (xs @ e # ys) \<Longrightarrow> rep (del h e) l (xs @ ys)"
begin

lemma nxt_head: "rep h l xs \<Longrightarrow> nxt h l = hd (xs @ [l])"
  using rep_nxt [of h l "[]" xs] by simp

lemma nxt_elem: "rep h l (xs @ e # ys) \<Longrightarrow> nxt h e = hd (ys @ [l])"
  using rep_nxt [of h l "xs @ [e]" ys] by simp

lemma prv_elem: "rep h l (xs @ e # ys) \<Longrightarrow> prv h e = last (l # xs)"
  using rep_prv [of h l xs "e # ys"] by simp

lemma push_back: "rep h l xs \<Longrightarrow> e \<notin> set (l # xs) \<Longrightarrow> rep (add_before h l e) l (xs @ [e])"
  using rep_add_before [of h l xs "[]" e l] by simp

lemma push_front: "rep h l xs \<Longrightarrow> e \<notin> set (l # xs) \<Longrightarrow> rep (add_after h l e) l (e # xs)"
  using rep_add_after [of h l "[]" xs e l] by simp

lemma pop_front: "rep h l (x # xs) \<Longrightarrow> nxt h l = x \<and> rep (del h x) l xs"
  using rep_del [of h l "[]" x xs] nxt_head [of h l "x # xs"] by simp

lemma del_elem: "rep h l xs \<Longrightarrow> e \<in> set xs \<Longrightarrow> rep (del h e) l (remove1 e xs)"
  by (metis rep_del split_list_first remove1_split)

lemma nxt_wrap: "rep h l (xs @ [e]) \<Longrightarrow> nxt h e = l"
  using nxt_elem [of h l xs e "[]"] by simp

end

interpretation cl: linked_list list_init list_add_before list_add_after list_del
  list_next list_prev list_empty clist
proof unfold_locales
  fix h :: "'a lheap" and l :: 'a and xs ys
  show "clist h l xs \<Longrightarrow> distinct (l # xs)" by (simp add: clist_def)
  show "clist h l (xs @ ys) \<Longrightarrow> list_next h (last (l # xs)) = hd (ys @ [l])"
    using clist_neighbours(1) by (simp only: list_next_def)
  show "clist h l (xs @ ys) \<Longrightarrow> list_prev h (hd (ys @ [l])) = last (l # xs)"
    using clist_neighbours(2) by (simp only: list_prev_def)
qed (rule clist_list_init | (rule clist_list_empty clist_add_before clist_add_after clist_list_del; assumption))+

lemmas list_add_rep = cl.rep_add_after [folded list_add_def]

section \<open>All the lists of a heap\<close>

text \<open>
  Kernel objects hang on many lists at once. \<open>heap_lists h F\<close> describes a whole heap: \<open>F l\<close> are the entries
  hanging on the list head \<open>l\<close>; an entry that hangs on no list points to itself, as \<^verbatim>\<open>list_init\<close> and
  \<^verbatim>\<open>list_del_init\<close> leave it; no entry hangs on two lists.
\<close>

definition linked :: "('a \<Rightarrow> 'a list) \<Rightarrow> 'a \<Rightarrow> bool" where
  "linked F x \<longleftrightarrow> (\<exists>y. x \<in> set (F y))"

definition heap_lists :: "'a lheap \<Rightarrow> ('a \<Rightarrow> 'a list) \<Rightarrow> bool" where
  "heap_lists h F \<longleftrightarrow>
     (\<forall>x. \<not> linked F x \<longrightarrow> clist h x (F x)) \<and>
     (\<forall>x. linked F x \<longrightarrow> F x = []) \<and>
     (\<forall>x y. x \<noteq> y \<longrightarrow> set (F x) \<inter> set (F y) = {})"

lemma heap_listsD:
  assumes "heap_lists h F"
  shows "\<not> linked F x \<Longrightarrow> clist h x (F x)" "linked F x \<Longrightarrow> F x = []"
    "x \<noteq> y \<Longrightarrow> set (F x) \<inter> set (F y) = {}" "F x \<noteq> [] \<Longrightarrow> \<not> linked F x"
  using assms unfolding heap_lists_def by blast+

lemma linked_member: "y \<in> set (F x) \<Longrightarrow> linked F y"
  by (auto simp: linked_def)

lemma clist_disjoint:
  assumes "heap_lists h F" "\<not> linked F x" "\<not> linked F y" "x \<noteq> y"
  shows "set (x # F x) \<inter> set (y # F y) = {}"
  using heap_listsD(3) [OF assms(1,4)] assms(2-4) linked_member [of _ F] by auto

lemma heap_lists_insert:
  assumes hl: "heap_lists h F" and l: "\<not> linked F l" "F l = xs @ ys"
    and e: "\<not> linked F e" "F e = []" "e \<noteq> l" and n: "n = hd (ys @ [l])"
  shows "heap_lists (list_add_before h n e) (F(l := xs @ e # ys))"
proof -
  let ?F = "F(l := xs @ e # ys)" and ?h = "list_add_before h n e"
  have lk: "linked ?F x \<longleftrightarrow> linked F x \<or> x = e" for x
  proof
    assume "linked ?F x"
    then obtain y where "x \<in> set (?F y)" by (auto simp: linked_def)
    then show "linked F x \<or> x = e" using l(2) linked_member [of x F y] by (cases "y = l") auto
  next
    assume "linked F x \<or> x = e"
    then show "linked ?F x"
    proof
      assume "linked F x"
      then obtain y where "x \<in> set (F y)" by (auto simp: linked_def)
      then show ?thesis using l(2) by (auto simp: linked_def intro!: exI [of _ y])
    qed (auto simp: linked_def intro!: exI [of _ l])
  qed
  have nin: "n \<in> set (l # F l)" unfolding n l(2) by (cases ys) auto
  have "clist ?h x (?F x)" if x: "\<not> linked ?F x" for x
  proof (cases "x = l")
    case True
    have "e \<notin> set (l # xs @ ys)" using e linked_member [of e F l] l(2) by auto
    then show ?thesis
      using clist_add_before [OF _ _ n, of h xs e] heap_listsD(1) [OF hl l(1)] l(2) True by simp
  next
    case False
    have x': "\<not> linked F x" "x \<noteq> e" using x lk by auto
    have "e \<notin> set (x # F x)" using x' e linked_member [of e F x] by auto
    then have "clist ?h x (F x)"
      using clist_add_before_other [OF heap_listsD(1) [OF hl l(1)] heap_listsD(1) [OF hl x'(1)]
          clist_disjoint [OF hl l(1) x'(1)] nin] False by auto
    then show ?thesis using False by simp
  qed
  moreover have "?F x = []" if "linked ?F x" for x
    using that heap_listsD(2) [OF hl, of x] e l(1) unfolding lk by auto
  moreover have "set (?F x) \<inter> set (?F y) = {}" if "x \<noteq> y" for x y
    using heap_listsD(3) [OF hl that] that e(1) linked_member [of e F x] linked_member [of e F y] l(2)
    by (cases "x = l"; cases "y = l") auto
  ultimately show ?thesis unfolding heap_lists_def by blast
qed

lemma heap_lists_push_back:
  "\<lbrakk>heap_lists h F; \<not> linked F l; \<not> linked F e; F e = []; e \<noteq> l\<rbrakk> \<Longrightarrow>
   heap_lists (list_add_before h l e) (F(l := F l @ [e]))"
  using heap_lists_insert [of h F l "F l" "[]" e l] by simp

lemma heap_lists_del:
  assumes hl: "heap_lists h F" and l: "F l = xs @ e # ys"
  shows "heap_lists (list_del_init h e) (F(l := xs @ ys))"
proof -
  let ?F = "F(l := xs @ ys)" and ?h = "list_del_init h e"
  have nl: "\<not> linked F l" using heap_listsD(4) [OF hl] l by simp
  note c = heap_listsD(1) [OF hl nl]
  have d: "distinct (l # xs @ e # ys)" using c l by (simp add: clist_def)
  have le: "linked F e" "F e = []" using l linked_member [of e F l] heap_listsD(2) [OF hl] by auto
  have ne: "e \<notin> set (F x)" if "x \<noteq> l" for x using heap_listsD(3) [OF hl that] l by auto
  have lk: "linked ?F x \<longleftrightarrow> linked F x \<and> x \<noteq> e" for x
  proof
    assume "linked ?F x"
    then obtain y where "x \<in> set (?F y)" by (auto simp: linked_def)
    then show "linked F x \<and> x \<noteq> e" using l d ne [of y] linked_member [of x F y] by (cases "y = l") auto
  next
    assume "linked F x \<and> x \<noteq> e"
    then obtain y where "x \<in> set (F y)" "x \<noteq> e" by (auto simp: linked_def)
    then show "linked ?F x" using l by (auto simp: linked_def intro!: exI [of _ y])
  qed
  have "clist ?h x (?F x)" if x: "\<not> linked ?F x" for x
  proof -
    consider "x = e" | "x = l" | "x \<noteq> e" "x \<noteq> l" "\<not> linked F x" using x lk by auto
    then show ?thesis
    proof cases
      case 1
      then show ?thesis using clist_list_del_init(2) [of h l xs e ys] c l le(2) d by auto
    next
      case 2
      then show ?thesis using clist_list_del_init(1) [of h l xs e ys] c l by simp
    next
      case 3
      have "clist (list_del h e) x (F x)"
        using clist_del_other [OF c heap_listsD(1) [OF hl 3(3)] clist_disjoint [OF hl nl 3(3)]] l 3(2) by auto
      moreover have "clist ?h x (F x) = clist (list_del h e) x (F x)"
        by (rule clist_frame) (use 3 ne in \<open>auto simp: list_del_init_def list_init_def\<close>)
      ultimately show ?thesis using 3(2) by simp
    qed
  qed
  moreover have "?F x = []" if "linked ?F x" for x
    using that heap_listsD(2) [OF hl, of x] nl unfolding lk by auto
  moreover have "set (?F x) \<inter> set (?F y) = {}" if "x \<noteq> y" for x y
    using heap_listsD(3) [OF hl that] that l by (cases "x = l"; cases "y = l") auto
  ultimately show ?thesis unfolding heap_lists_def by blast
qed

lemma heap_lists_reinit:
  assumes hl: "heap_lists h F" and e: "\<not> linked F e" "F e = []"
  shows "heap_lists (list_init h e) F"
proof -
  have "clist (list_init h e) x (F x)" if x: "\<not> linked F x" for x
  proof (cases "x = e")
    case True
    then show ?thesis using e clist_list_init by simp
  next
    case False
    have "clist (list_init h e) x (F x) = clist h x (F x)"
      by (rule clist_frame) (use False e linked_member [of e F x] in \<open>auto simp: list_init_def\<close>)
    then show ?thesis using heap_listsD(1) [OF hl x] by simp
  qed
  with hl show ?thesis unfolding heap_lists_def by blast
qed

text \<open>Reading: the neighbours of an entry, and whether it hangs on a list.\<close>

lemma heap_lists_next:
  assumes "heap_lists h F" "F l = xs @ ys" "\<not> linked F l"
  shows "list_next h (last (l # xs)) = hd (ys @ [l])"
  by (rule cl.rep_nxt) (use heap_listsD(1) [OF assms(1,3)] assms(2) in simp)

lemma heap_lists_first: "heap_lists h F \<Longrightarrow> \<not> linked F l \<Longrightarrow> list_next h l = hd (F l @ [l])"
  using heap_lists_next [of h F l "[]" "F l"] by simp

lemma heap_lists_last: "heap_lists h F \<Longrightarrow> \<not> linked F l \<Longrightarrow> list_prev h l = last (l # F l)"
  using cl.rep_prv [of h l "F l" "[]"] heap_listsD(1) [of h F l] by simp

lemma heap_lists_after:
  "heap_lists h F \<Longrightarrow> F l = xs @ e # ys \<Longrightarrow> list_next h e = hd (ys @ [l])"
  using heap_lists_next [of h F l "xs @ [e]" ys] heap_listsD(4) [of h F l] by simp

lemma heap_lists_before:
  "heap_lists h F \<Longrightarrow> F l = xs @ e # ys \<Longrightarrow> list_prev h e = last (l # xs)"
  using cl.prv_elem [of h l xs e ys] heap_listsD(1,4) [of h F l] by simp

lemma heap_lists_empty_entry:
  assumes hl: "heap_lists h F" and e: "F e = []"
  shows "list_empty h e \<longleftrightarrow> \<not> linked F e"
proof (cases "linked F e")
  case False
  then show ?thesis using clist_list_empty [OF heap_listsD(1) [OF hl False]] e by simp
next
  case True
  then obtain l xs ys where l: "F l = xs @ e # ys" unfolding linked_def by (metis split_list)
  have nl: "\<not> linked F l" using heap_listsD(4) [OF hl] l by simp
  have "distinct (l # xs @ e # ys)" using heap_listsD(1) [OF hl nl] l by (simp add: clist_def)
  then have "hd (ys @ [l]) \<noteq> e" by (cases ys) auto
  with heap_lists_after [OF hl l] True show ?thesis by (simp add: list_empty_def list_next_def)
qed

lemma heap_lists_empty_head: "heap_lists h F \<Longrightarrow> \<not> linked F l \<Longrightarrow> list_empty h l \<longleftrightarrow> F l = []"
  by (rule clist_list_empty) (rule heap_listsD(1))

lemma heap_lists_distinct: "heap_lists h F \<Longrightarrow> distinct (F l)"
  using heap_listsD(1,2) [of h F l] by (cases "linked F l") (auto simp: clist_def)

lemma heap_lists_fresh: "heap_lists \<lparr>prev_of = id, next_of = id\<rparr> (\<lambda>_. [])"
  by (simp add: heap_lists_def linked_def)

lemma list_add_same:
  assumes "heap_lists h F" "\<not> linked F l" "F l = xs @ ys"
  shows "list_add h (last (l # xs)) e = list_add_before h (hd (ys @ [l])) e"
proof -
  have "clist h l (xs @ ys)" using heap_listsD(1) [OF assms(1,2)] assms(3) by simp
  from clist_neighbours [OF this] show ?thesis
    by (simp only: list_add_def list_add_after_def list_add_before_def)
qed

text \<open>
  C32. The list operations on a heap full of lists. Inserting an unlinked entry before or after a position of
  one list puts it exactly there; deleting it again with \<^verbatim>\<open>list_del_init\<close> restores the heap's lists; all other
  lists keep their entries and their order.
\<close>

theorem list_ops_refine:
  assumes "heap_lists h F" and "\<not> linked F l" and "F l = xs @ ys"
    and "\<not> linked F e" and "F e = []" and "e \<noteq> l"
  shows "heap_lists (list_add_before h (hd (ys @ [l])) e) (F(l := xs @ e # ys)) \<and>
    heap_lists (list_add h (last (l # xs)) e) (F(l := xs @ e # ys)) \<and>
    heap_lists (list_del_init (list_add h (last (l # xs)) e) e) F"
proof -
  have 1: "heap_lists (list_add_before h (hd (ys @ [l])) e) (F(l := xs @ e # ys))"
    by (rule heap_lists_insert [OF assms refl])
  have "heap_lists (list_del_init (list_add_before h (hd (ys @ [l])) e) e) ((F(l := xs @ e # ys))(l := xs @ ys))"
    by (rule heap_lists_del [OF 1]) simp
  moreover have "(F(l := xs @ e # ys))(l := xs @ ys) = F" using assms(3) by auto
  ultimately show ?thesis using 1 list_add_same [OF assms(1-3)] by simp
qed

theorem list_ops_refine_witness:
  "heap_lists (list_add (\<lparr>prev_of = id, next_of = id\<rparr> :: nat lheap) 0 1) ((\<lambda>_. [])(0 := [1]))"
  using list_ops_refine [OF heap_lists_fresh, of "0 :: nat" "[]" "[]" 1] by (simp add: linked_def)

end
