(* ===== verification/Cstring.thy ===== *)
theory Cstring
  imports Prelude
begin

text \<open>
  The string library of the kernel and of the user programs (\<^verbatim>\<open>ucore_OS/libs/string.c\<close>), over byte-addressed
  memory with 32-bit pointers. A loop that ends at a terminator is a \<open>partial_function (option)\<close>, so that
  a string without terminator, on which the C loop runs on, is not silently given a result; a loop over
  a count recurses on the count. Writing through a pointer is an update of the memory, in the order of the
  source, so overlapping arguments behave as they do in C.

  \<open>cstr\<close> and \<open>bytes_at\<close> say what is stored at an address; \<open>span\<close> is the set of addresses of a buffer.
\<close>

type_synonym mem = "u32 \<Rightarrow> u8"

section \<open>Strings\<close>

partial_function (option) strlen_loop :: "mem \<Rightarrow> u32 \<Rightarrow> u32 \<Rightarrow> u32 option" where
  "strlen_loop m s cnt = (if m s \<noteq> 0 then strlen_loop m (s + 1) (cnt + 1) else Some cnt)"

definition strlen :: "mem \<Rightarrow> u32 \<Rightarrow> u32 option" where
  "strlen m s = strlen_loop m s 0"

text \<open>The loop of \<^verbatim>\<open>strnlen\<close>, \<open>k\<close> being what is left of \<^verbatim>\<open>len\<close>.\<close>

fun strnlen_loop :: "mem \<Rightarrow> u32 \<Rightarrow> nat \<Rightarrow> u32 \<Rightarrow> u32" where
  "strnlen_loop m s 0 cnt = cnt"
| "strnlen_loop m s (Suc k) cnt = (if m s \<noteq> 0 then strnlen_loop m (s + 1) k (cnt + 1) else cnt)"

definition strnlen :: "mem \<Rightarrow> u32 \<Rightarrow> u32 \<Rightarrow> u32" where
  "strnlen m s len = strnlen_loop m s (unat len) 0"

partial_function (option) strcpy_loop :: "mem \<Rightarrow> u32 \<Rightarrow> u32 \<Rightarrow> mem option" where
  "strcpy_loop m p src =
     (let c = m src; m = m(p := c) in if c \<noteq> 0 then strcpy_loop m (p + 1) (src + 1) else Some m)"

definition strcpy :: "mem \<Rightarrow> u32 \<Rightarrow> u32 \<Rightarrow> (mem \<times> u32) option" where
  "strcpy m dst src = map_option (\<lambda>m. (m, dst)) (strcpy_loop m dst src)"

definition strcat :: "mem \<Rightarrow> u32 \<Rightarrow> u32 \<Rightarrow> (mem \<times> u32) option" where
  "strcat m dst src = Option.bind (strlen m dst) (\<lambda>n. strcpy m (dst + n) src)"

fun strncpy_loop :: "mem \<Rightarrow> u32 \<Rightarrow> u32 \<Rightarrow> nat \<Rightarrow> mem" where
  "strncpy_loop m p src 0 = m"
| "strncpy_loop m p src (Suc len) =
     (let c = m src; m = m(p := c) in strncpy_loop m (p + 1) (if c \<noteq> 0 then src + 1 else src) len)"

definition strncpy :: "mem \<Rightarrow> u32 \<Rightarrow> u32 \<Rightarrow> u32 \<Rightarrow> mem \<times> u32" where
  "strncpy m dst src len = (strncpy_loop m dst src (unat len), dst)"

definition byte_diff :: "u8 \<Rightarrow> u8 \<Rightarrow> int" where
  "byte_diff a b = int (unat a) - int (unat b)"

partial_function (option) strcmp :: "mem \<Rightarrow> u32 \<Rightarrow> u32 \<Rightarrow> int option" where
  "strcmp m s1 s2 =
     (if m s1 \<noteq> 0 \<and> m s1 = m s2 then strcmp m (s1 + 1) (s2 + 1)
      else Some (byte_diff (m s1) (m s2)))"

fun strncmp_loop :: "mem \<Rightarrow> u32 \<Rightarrow> u32 \<Rightarrow> nat \<Rightarrow> int" where
  "strncmp_loop m s1 s2 0 = 0"
| "strncmp_loop m s1 s2 (Suc n) =
     (if m s1 \<noteq> 0 \<and> m s1 = m s2 then strncmp_loop m (s1 + 1) (s2 + 1) n
      else byte_diff (m s1) (m s2))"

definition strncmp :: "mem \<Rightarrow> u32 \<Rightarrow> u32 \<Rightarrow> u32 \<Rightarrow> int" where
  "strncmp m s1 s2 n = strncmp_loop m s1 s2 (unat n)"

text \<open>\<^verbatim>\<open>NULL\<close> is the address 0.\<close>

partial_function (option) strchr :: "mem \<Rightarrow> u32 \<Rightarrow> u8 \<Rightarrow> u32 option" where
  "strchr m s c = (if m s \<noteq> 0 then if m s = c then Some s else strchr m (s + 1) c else Some 0)"

partial_function (option) strfind :: "mem \<Rightarrow> u32 \<Rightarrow> u8 \<Rightarrow> u32 option" where
  "strfind m s c = (if m s \<noteq> 0 then if m s = c then Some s else strfind m (s + 1) c else Some s)"

section \<open>Numbers\<close>

text \<open>
  \<^verbatim>\<open>strtol\<close>. A \<^verbatim>\<open>long\<close> is the 32-bit word of its two's complement; the source says that it does not detect
  overflow, and the additions and multiplications wrap.
\<close>

partial_function (option) skip_blanks :: "mem \<Rightarrow> u32 \<Rightarrow> u32 option" where
  "skip_blanks m s = (if m s = 0x20 \<or> m s = 0x09 then skip_blanks m (s + 1) else Some s)"

definition digit_of :: "u8 \<Rightarrow> int option" where
  "digit_of c =
     (if c \<ge> 0x30 \<and> c \<le> 0x39 then Some (int (unat c) - 0x30)
      else if c \<ge> 0x61 \<and> c \<le> 0x7a then Some (int (unat c) - 0x61 + 10)
      else if c \<ge> 0x41 \<and> c \<le> 0x5a then Some (int (unat c) - 0x41 + 10)
      else None)"

partial_function (option) strtol_digits :: "mem \<Rightarrow> u32 \<Rightarrow> int \<Rightarrow> u32 \<Rightarrow> (u32 \<times> u32) option" where
  "strtol_digits m s base val =
     (case digit_of (m s) of
        None \<Rightarrow> Some (val, s)
      | Some dig \<Rightarrow>
          if dig \<ge> base then Some (val, s)
          else strtol_digits m (s + 1) base (val * of_int base + of_int dig))"

definition strtol :: "mem \<Rightarrow> u32 \<Rightarrow> int \<Rightarrow> (u32 \<times> u32) option" where
  "strtol m s base =
     Option.bind (skip_blanks m s) (\<lambda>s.
       let (s, neg) = (if m s = 0x2b then (s + 1, False)
                       else if m s = 0x2d then (s + 1, True) else (s, False));
           (s, base) = (if (base = 0 \<or> base = 16) \<and> m s = 0x30 \<and> m (s + 1) = 0x78 then (s + 2, 16)
                        else if base = 0 \<and> m s = 0x30 then (s + 1, 8)
                        else if base = 0 then (s, 10) else (s, base))
       in map_option (\<lambda>(val, s). (if neg then - val else val, s)) (strtol_digits m s base 0))"

section \<open>Buffers\<close>

fun memset_loop :: "mem \<Rightarrow> u32 \<Rightarrow> u8 \<Rightarrow> nat \<Rightarrow> mem" where
  "memset_loop m p c 0 = m"
| "memset_loop m p c (Suc n) = memset_loop (m(p := c)) (p + 1) c n"

definition memset :: "mem \<Rightarrow> u32 \<Rightarrow> u8 \<Rightarrow> u32 \<Rightarrow> mem \<times> u32" where
  "memset m s c n = (memset_loop m s c (unat n), s)"

fun copy_up :: "mem \<Rightarrow> u32 \<Rightarrow> u32 \<Rightarrow> nat \<Rightarrow> mem" where
  "copy_up m d s 0 = m"
| "copy_up m d s (Suc n) = copy_up (m(d := m s)) (d + 1) (s + 1) n"

fun copy_down :: "mem \<Rightarrow> u32 \<Rightarrow> u32 \<Rightarrow> nat \<Rightarrow> mem" where
  "copy_down m d s 0 = m"
| "copy_down m d s (Suc n) =
     (let s = s - 1; d = d - 1 in copy_down (m(d := m s)) d s n)"

definition memmove :: "mem \<Rightarrow> u32 \<Rightarrow> u32 \<Rightarrow> u32 \<Rightarrow> mem \<times> u32" where
  "memmove m dst src n =
     (if src < dst \<and> src + n > dst then (copy_down m (dst + n) (src + n) (unat n), dst)
      else (copy_up m dst src (unat n), dst))"

definition memcpy :: "mem \<Rightarrow> u32 \<Rightarrow> u32 \<Rightarrow> u32 \<Rightarrow> mem \<times> u32" where
  "memcpy m dst src n = (copy_up m dst src (unat n), dst)"

partial_function (option) flash_loop :: "mem \<Rightarrow> u32 \<Rightarrow> u32 \<Rightarrow> u32 \<Rightarrow> mem option" where
  "flash_loop m d s n =
     (if n > 0 then
        (let m = m(d := m s); m = m(d + 1 := m (s + 1))
         in flash_loop m (d + 2) (s + 4) (n - 2))
      else Some m)"

definition memcpy_flash :: "mem \<Rightarrow> u32 \<Rightarrow> u32 \<Rightarrow> u32 \<Rightarrow> (mem \<times> u32) option" where
  "memcpy_flash m dst src n = map_option (\<lambda>m. (m, dst)) (flash_loop m dst src n)"

fun memcmp_loop :: "mem \<Rightarrow> u32 \<Rightarrow> u32 \<Rightarrow> nat \<Rightarrow> int" where
  "memcmp_loop m s1 s2 0 = 0"
| "memcmp_loop m s1 s2 (Suc n) =
     (if m s1 \<noteq> m s2 then byte_diff (m s1) (m s2) else memcmp_loop m (s1 + 1) (s2 + 1) n)"

definition memcmp :: "mem \<Rightarrow> u32 \<Rightarrow> u32 \<Rightarrow> u32 \<Rightarrow> int" where
  "memcmp m v1 v2 n = memcmp_loop m v1 v2 (unat n)"

section \<open>What is stored at an address\<close>

fun cstr :: "mem \<Rightarrow> u32 \<Rightarrow> u8 list \<Rightarrow> bool" where
  "cstr m a [] \<longleftrightarrow> m a = 0"
| "cstr m a (c # s) \<longleftrightarrow> m a = c \<and> c \<noteq> 0 \<and> cstr m (a + 1) s"

fun bytes_at :: "mem \<Rightarrow> u32 \<Rightarrow> u8 list \<Rightarrow> bool" where
  "bytes_at m a [] \<longleftrightarrow> True"
| "bytes_at m a (c # s) \<longleftrightarrow> m a = c \<and> bytes_at m (a + 1) s"

definition span :: "u32 \<Rightarrow> nat \<Rightarrow> u32 set" where
  "span a n = (\<lambda>i. a + of_nat i) ` {..<n}"

lemma span_0 [simp]: "span a 0 = {}"
  by (simp add: span_def)

lemma span_Suc: "span a (Suc n) = insert a (span (a + 1) n)"
  unfolding span_def by (simp only: lessThan_Suc_eq_insert_0) (auto simp: image_image ac_simps)

lemma bytes_at_frame:
  "(\<And>x. x \<in> span a (length s) \<Longrightarrow> m' x = m x) \<Longrightarrow> bytes_at m' a s = bytes_at m a s"
  by (induction s arbitrary: a) (auto simp: span_Suc)

lemma cstr_bytes_at: "cstr m a s \<longleftrightarrow> bytes_at m a (s @ [0]) \<and> 0 \<notin> set s"
  by (induction s arbitrary: a) auto

lemma cstr_frame:
  "(\<And>x. x \<in> span a (Suc (length s)) \<Longrightarrow> m' x = m x) \<Longrightarrow> cstr m' a s = cstr m a s"
  unfolding cstr_bytes_at using bytes_at_frame [of a "s @ [0]" m' m] by simp

lemma cstr_append: "cstr m a (s @ t) \<longleftrightarrow> bytes_at m a s \<and> 0 \<notin> set s \<and> cstr m (a + of_nat (length s)) t"
  by (induction s arbitrary: a) (auto simp: ac_simps)

section \<open>Reading\<close>

lemma strlen_loop_cstr: "cstr m s xs \<Longrightarrow> strlen_loop m s cnt = Some (cnt + of_nat (length xs))"
  by (induction xs arbitrary: s cnt) (auto simp: strlen_loop.simps ac_simps)

lemma strlen_cstr: "cstr m s xs \<Longrightarrow> strlen m s = Some (of_nat (length xs))"
  by (simp add: strlen_def strlen_loop_cstr)

lemma strnlen_loop_cstr:
  "cstr m s xs \<Longrightarrow> strnlen_loop m s k cnt = cnt + of_nat (min k (length xs))"
  by (induction xs arbitrary: s cnt k; case_tac k) (auto simp: ac_simps)

lemma strnlen_cstr:
  "cstr m s xs \<Longrightarrow> strnlen m s len = of_nat (min (unat len) (length xs))"
  by (simp add: strnlen_def strnlen_loop_cstr)

lemma byte_diff_sign [simp]:
  "byte_diff a b = 0 \<longleftrightarrow> a = b" "byte_diff a b < 0 \<longleftrightarrow> a < b" "0 < byte_diff a b \<longleftrightarrow> b < a"
  by (auto simp: byte_diff_def word_less_def word_uint_eq_iff)

text \<open>
  \<^verbatim>\<open>strcmp\<close> on two terminated strings returns, and the sign of what it returns is their lexicographic
  order by unsigned bytes.
\<close>

theorem strcmp_lexicographic:
  assumes "cstr m a s" and "cstr m b t"
  shows "\<exists>r. strcmp m a b = Some r \<and> (r = 0 \<longleftrightarrow> s = t) \<and> (r < 0 \<longleftrightarrow> ord_class.lexordp s t) \<and> (0 < r \<longleftrightarrow> ord_class.lexordp t s)"
  using assms
proof (induction s arbitrary: a b t)
  case Nil
  then show ?case by (cases t) (auto simp: strcmp.simps word_gt_0)
next
  case (Cons c s)
  show ?case
  proof (cases t)
    case Nil
    with Cons.prems show ?thesis by (auto simp: strcmp.simps word_gt_0)
  next
    case (Cons e t')
    with Cons.prems Cons.IH [of "a + 1" "b + 1" t'] show ?thesis
      by (cases "c = e") (auto simp: strcmp.simps)
  qed
qed

definition abc_mem :: mem where
  "abc_mem = (\<lambda>_. 0)(0x100 := 0x61, 0x101 := 0x62, 0x200 := 0x61, 0x201 := 0x63)"

theorem strcmp_lexicographic_witness:
  "cstr abc_mem 0x100 [0x61, 0x62] \<and> cstr abc_mem 0x200 [0x61, 0x63] \<and>
   (\<exists>r. strcmp abc_mem 0x100 0x200 = Some r \<and> r < 0)"
  using strcmp_lexicographic [of abc_mem "0x100" "[0x61, 0x62]" "0x200" "[0x61, 0x63]"]
  by (auto simp: abc_mem_def)

section \<open>Copying\<close>

lemma u32_pred_less:
  assumes "(x :: u32) \<noteq> 0" shows "unat (x - 1) = unat x - 1" "0 < unat x"
  using assms by (auto simp: unat_minus_one unat_gt_0)

lemma copy_up_at:
  "n \<le> 2 ^ 32 \<Longrightarrow> (\<And>k. 0 < k \<Longrightarrow> k < n \<Longrightarrow> s + of_nat k \<noteq> d) \<Longrightarrow>
   copy_up m d s n a = (if unat (a - d) < n then m (s + (a - d)) else m a)"
proof (induction n arbitrary: m d s)
  case (Suc n)
  let ?m = "m(d := m s)"
  have "s + 1 + of_nat k \<noteq> d + 1" if "0 < k" "k < n" for k
    using Suc.prems(2) [of k] that by (auto simp: algebra_simps)
  then have "copy_up ?m (d + 1) (s + 1) n a =
      (if unat (a - (d + 1)) < n then ?m (s + 1 + (a - (d + 1))) else ?m a)"
    using Suc.prems(1) by (intro Suc.IH) auto
  moreover have "a - (d + 1) = a - d - 1" "s + 1 + (a - (d + 1)) = s + (a - d)" by simp_all
  ultimately have ih: "copy_up m d s (Suc n) a =
      (if unat (a - d - 1) < n then ?m (s + (a - d)) else ?m a)"
    by (simp only: copy_up.simps)
  show ?case
  proof (cases "a = d")
    case True
    then show ?thesis using ih Suc.prems(1) by simp
  next
    case False
    then have ne: "a - d \<noteq> 0" by simp
    have "s + (a - d) \<noteq> d" if "unat (a - d) < Suc n"
      using Suc.prems(2) [OF u32_pred_less(2) [OF ne] that] by simp
    with ih False u32_pred_less [OF ne] show ?thesis by auto
  qed
qed simp

lemma copy_down_at:
  "n \<le> 2 ^ 32 \<Longrightarrow> (\<And>k. 0 < k \<Longrightarrow> k < n \<Longrightarrow> d + of_nat k \<noteq> s) \<Longrightarrow>
   copy_down m (d + of_nat n) (s + of_nat n) n a = (if unat (a - d) < n then m (s + (a - d)) else m a)"
proof (induction n arbitrary: m)
  case (Suc n)
  let ?m = "m(d + of_nat n := m (s + of_nat n))"
  have ih: "copy_down m (d + of_nat (Suc n)) (s + of_nat (Suc n)) (Suc n) a =
      (if unat (a - d) < n then ?m (s + (a - d)) else ?m a)"
  proof -
    have "copy_down m (d + of_nat (Suc n)) (s + of_nat (Suc n)) (Suc n) a =
        copy_down ?m (d + of_nat n) (s + of_nat n) n a"
      by (simp only: copy_down.simps Let_def) (simp only: of_nat_Suc add.assoc [symmetric] add.commute [of 1] add_diff_cancel_right')
    also have "\<dots> = (if unat (a - d) < n then ?m (s + (a - d)) else ?m a)"
      using Suc.prems by (intro Suc.IH) auto
    finally show ?thesis .
  qed
  have un: "unat (of_nat n :: u32) = n"
    using Suc.prems(1) by (simp add: unsigned_of_nat take_bit_nat_eq_self)
  have top: "a = d + of_nat n \<longleftrightarrow> unat (a - d) = n"
    using un by (metis add_diff_cancel_left' diff_add_cancel add.commute unsigned_word_eqI)
  have "s + (a - d) \<noteq> d + of_nat n" if "unat (a - d) < n"
  proof
    assume e: "s + (a - d) = d + of_nat n"
    have "d + of_nat (n - unat (a - d)) = s"
      using that e by (simp add: of_nat_diff algebra_simps)
    moreover have "0 < n - unat (a - d)" "n - unat (a - d) < Suc n" using that by simp_all
    ultimately show False using Suc.prems(2) by blast
  qed
  with ih top show ?case by (auto simp: less_Suc_eq)
qed simp

lemma u32_add_of_nat_less:
  assumes "unat (a :: u32) + k < 2 ^ 32" shows "unat (a + of_nat k) = unat a + k"
  using assms by (simp add: unat_word_ariths unsigned_of_nat take_bit_nat_eq_self)

text \<open>
  C34. \<^verbatim>\<open>memmove\<close> leaves at the destination what was at the source before the call, byte for byte, and
  changes nothing else, also when the two buffers overlap in either direction.
\<close>

theorem memmove_correct:
  assumes "unat src + unat n < 2 ^ 32" and "unat dst + unat n < 2 ^ 32"
  shows "memmove m dst src n = (m', dst) \<longrightarrow>
    m' a = (if unat (a - dst) < unat n then m (src + (a - dst)) else m a)"
proof (cases "src < dst \<and> src + n > dst")
  case True
  have "dst + of_nat k \<noteq> src" if "k < unat n" for k
    using True that assms(2) u32_add_of_nat_less [of dst k]
    by (auto simp: word_less_nat_alt)
  then have "copy_down m (dst + of_nat (unat n)) (src + of_nat (unat n)) (unat n) a =
      (if unat (a - dst) < unat n then m (src + (a - dst)) else m a)"
    using u32_unat_less [of n] by (intro copy_down_at) auto
  then show ?thesis using True by (auto simp: memmove_def)
next
  case False
  have "src + of_nat k \<noteq> dst" if "0 < k" "k < unat n" for k
  proof
    assume e: "src + of_nat k = dst"
    have "unat dst = unat src + k" unfolding e [symmetric]
      by (rule u32_add_of_nat_less) (use that assms(1) in simp)
    moreover have "unat (src + n) = unat src + unat n"
      using u32_add_of_nat_less [of src "unat n"] assms(1) by simp
    ultimately show False using that False by (simp add: word_less_nat_alt)
  qed
  then have "copy_up m dst src (unat n) a =
      (if unat (a - dst) < unat n then m (src + (a - dst)) else m a)"
    using u32_unat_less [of n] by (intro copy_up_at) auto
  then show ?thesis using False by (auto simp: memmove_def)
qed

theorem memmove_correct_witness:
  "\<exists>m'. memmove abc_mem 0x101 0x100 2 = (m', 0x101) \<and> m' 0x101 = 0x61 \<and> m' 0x102 = 0x62"
proof -
  obtain m' where m': "memmove abc_mem 0x101 0x100 2 = (m', 0x101)"
    by (auto simp: memmove_def)
  have "m' a = (if unat (a - 0x101) < unat (2 :: u32) then abc_mem (0x100 + (a - 0x101)) else abc_mem a)" for a
    using memmove_correct [of "0x100" 2 "0x101" abc_mem m' a] m' by simp
  from this [of "0x101"] this [of "0x102"] m' show ?thesis by (auto simp: abc_mem_def)
qed

text \<open>The buffers of a copy that have no byte in common.\<close>

lemma span_iff: "n \<le> 2 ^ 32 \<Longrightarrow> x \<in> span a n \<longleftrightarrow> unat (x - a) < n"
proof
  assume n: "n \<le> 2 ^ 32" and "x \<in> span a n"
  then obtain i where "i < n" "x = a + of_nat i" by (auto simp: span_def)
  with n show "unat (x - a) < n" by (simp add: unat_of_nat_u32)
next
  assume "unat (x - a) < n"
  then show "x \<in> span a n"
    unfolding span_def by (intro image_eqI [of _ _ "unat (x - a)"]) simp_all
qed

lemma span_mono: "j + k \<le> n \<Longrightarrow> span (a + of_nat j) k \<subseteq> span a n"
proof
  fix x assume "j + k \<le> n" "x \<in> span (a + of_nat j) k"
  then obtain i where "i < k" "x = a + of_nat (j + i)" by (auto simp: span_def ac_simps)
  with \<open>j + k \<le> n\<close> show "x \<in> span a n" unfolding span_def
    by (intro image_eqI [of _ _ "j + i"]) auto
qed

lemma span_base: "0 < n \<Longrightarrow> a \<in> span a n"
  unfolding span_def by (rule image_eqI [of _ _ 0]) auto

lemma span_add: "i < n \<Longrightarrow> a + of_nat i \<in> span a n"
  unfolding span_def by blast

lemma flash_loop_even:
  "2 * k < 2 ^ 32 \<Longrightarrow> span d (2 * k) \<inter> span s (4 * k) = {} \<Longrightarrow>
   \<exists>m'. flash_loop m d s (of_nat (2 * k)) = Some m' \<and>
     (\<forall>i < k. m' (d + of_nat (2 * i)) = m (s + of_nat (4 * i)) \<and>
              m' (d + of_nat (2 * i + 1)) = m (s + of_nat (4 * i + 1))) \<and>
     (\<forall>a. a \<notin> span d (2 * k) \<longrightarrow> m' a = m a)"
proof (induction k arbitrary: m d s)
  case 0
  then show ?case by (simp add: flash_loop.simps)
next
  case (Suc k)
  let ?m = "m(d := m s, d + 1 := m (s + 1))"
  have sd: "span (d + 2) (2 * k) \<subseteq> span d (2 * Suc k)" "span (s + 4) (4 * k) \<subseteq> span s (4 * Suc k)"
    using span_mono [of 2 "2 * k" "2 * Suc k" d] span_mono [of 4 "4 * k" "4 * Suc k" s] by simp_all
  have dis: "x \<noteq> d" "x \<noteq> d + 1" if "x \<in> span s (4 * Suc k)" for x
    using Suc.prems(2) that span_add [of 0 "2 * Suc k" d] span_add [of 1 "2 * Suc k" d] by auto
  have "0 < (of_nat (2 * Suc k) :: u32)"
    using unat_of_nat_u32 [OF Suc.prems(1)] by (simp only: word_less_nat_alt) simp
  moreover have "of_nat (2 * Suc k) - 2 = (of_nat (2 * k) :: u32)" by simp
  moreover have "(m(d := m s)) (s + 1) = m (s + 1)"
    using dis(1) [OF span_add [of 1 "4 * Suc k" s]] by simp
  ultimately have step: "flash_loop m d s (of_nat (2 * Suc k)) = flash_loop ?m (d + 2) (s + 4) (of_nat (2 * k))"
    by (subst flash_loop.simps) (simp only: if_True Let_def)
  obtain m' where m': "flash_loop ?m (d + 2) (s + 4) (of_nat (2 * k)) = Some m'"
    and cp: "\<And>i. i < k \<Longrightarrow> m' (d + 2 + of_nat (2 * i)) = ?m (s + 4 + of_nat (4 * i)) \<and>
              m' (d + 2 + of_nat (2 * i + 1)) = ?m (s + 4 + of_nat (4 * i + 1))"
    and fr: "\<And>a. a \<notin> span (d + 2) (2 * k) \<Longrightarrow> m' a = ?m a"
  proof -
    have "2 * k < 2 ^ 32" "span (d + 2) (2 * k) \<inter> span (s + 4) (4 * k) = {}"
      using Suc.prems sd by auto
    from Suc.IH [OF this, of ?m] that show thesis by blast
  qed
  have out: "d + of_nat j \<notin> span (d + 2) (2 * k)" if "j < 2" for j
  proof
    assume "d + of_nat j \<in> span (d + 2) (2 * k)"
    then obtain i where i: "i < 2 * k" "d + of_nat j = d + of_nat (2 + i)"
      by (auto simp: span_def ac_simps)
    then have "(of_nat j :: u32) = of_nat (2 + i)" by simp
    then have "j = 2 + i"
      by (subst (asm) of_nat_u32_inj) (use i(1) that Suc.prems(1) in simp_all)
    with that show False by simp
  qed
  have "m' (d + of_nat (2 * i)) = m (s + of_nat (4 * i)) \<and>
        m' (d + of_nat (2 * i + 1)) = m (s + of_nat (4 * i + 1))" if i: "i < Suc k" for i
  proof (cases i)
    case 0
    then show ?thesis using fr [OF out [of 0]] fr [OF out [of 1]] by simp
  next
    case (Suc j)
    have "s + of_nat (4 * i) \<in> span s (4 * Suc k)" "s + of_nat (4 * i + 1) \<in> span s (4 * Suc k)"
      using i by (intro span_add; simp)+
    note dis [OF this(1)] dis [OF this(2)]
    moreover have "d + of_nat (2 * i) = d + 2 + of_nat (2 * j)" "d + of_nat (2 * i + 1) = d + 2 + of_nat (2 * j + 1)"
      "s + of_nat (4 * i) = s + 4 + of_nat (4 * j)" "s + of_nat (4 * i + 1) = s + 4 + of_nat (4 * j + 1)"
      using Suc by simp_all
    ultimately show ?thesis using cp [of j] i Suc by (simp only: fun_upd_other)
  qed
  moreover have "m' a = m a" if "a \<notin> span d (2 * Suc k)" for a
  proof -
    have "a \<noteq> d" "a \<noteq> d + 1"
      using that span_add [of 0 "2 * Suc k" d] span_add [of 1 "2 * Suc k" d] by auto
    then show ?thesis using fr [of a] sd(1) that by auto
  qed
  ultimately show ?case using step m' by auto
qed

lemma flash_loop_ends: "flash_loop m d s n = Some y \<Longrightarrow> even (unat n)"
proof (rule flash_loop.raw_induct [of "\<lambda>m d s n y. even (unat n)"])
  fix loop m d s n y
  assume ih: "\<And>m d s n y. loop m d s n = Some y \<Longrightarrow> even (unat (n :: u32))"
    and run: "(if n > 0 then (let m = m(d := m s); m = m(d + 1 := m (s + 1))
         in loop m (d + 2) (s + 4) (n - 2)) else Some m) = Some y"
  show "even (unat n)"
  proof (cases "n > 0")
    case True
    with run have "even (unat (n - 2))" by (auto simp: Let_def intro: ih)
    moreover have "unat n = unat (n - 2) + 2 \<or> n = 1" using True by unat_arith
    moreover have "odd (unat (1 - 2 :: u32))" by (simp add: unsigned_minus_1_eq_mask mask_eq_exp_minus_1)
    ultimately show ?thesis by auto
  qed (auto simp: word_le_nat_alt not_less)
qed

text \<open>
  \<^verbatim>\<open>memcpy_flash\<close> copies the first two bytes of every four bytes of the flash window. With an even
  \<^verbatim>\<open>n\<close> it returns, the destination holds these bytes and nothing else has changed. With an odd \<^verbatim>\<open>n\<close> the
  unsigned counter skips zero and the loop never ends.
\<close>

theorem memcpy_flash_correct:
  assumes "span dst (unat n) \<inter> span src (2 * unat n) = {}"
  shows "if even (unat n)
    then \<exists>m'. memcpy_flash m dst src n = Some (m', dst) \<and>
      (\<forall>i < unat n div 2. m' (dst + of_nat (2 * i)) = m (src + of_nat (4 * i)) \<and>
                          m' (dst + of_nat (2 * i + 1)) = m (src + of_nat (4 * i + 1))) \<and>
      (\<forall>a. a \<notin> span dst (unat n) \<longrightarrow> m' a = m a)
    else memcpy_flash m dst src n = None"
proof (cases "even (unat n)")
  case True
  then obtain k where k: "unat n = 2 * k" by blast
  then have "n = of_nat (2 * k)" by (metis of_nat_unat ucast_id)
  with flash_loop_even [of k dst src m] assms k u32_unat_less [of n] show ?thesis
    unfolding memcpy_flash_def by fastforce
next
  case False
  then have "flash_loop m dst src n = None"
    using flash_loop_ends by (cases "flash_loop m dst src n") blast+
  with False show ?thesis by (simp add: memcpy_flash_def)
qed

theorem memcpy_flash_correct_witness:
  "(\<exists>m'. memcpy_flash abc_mem 0x300 0x200 2 = Some (m', 0x300) \<and> m' 0x300 = 0x61 \<and> m' 0x301 = 0x63) \<and>
   memcpy_flash abc_mem 0x300 0x200 1 = None"
proof
  have sp: "span 0x300 2 = {0x300, 0x301}" "span 0x200 4 = {0x200, 0x201, 0x202, 0x203}"
    "span 0x300 (Suc 0) = {0x300}" "span 0x200 2 = {0x200, 0x201}"
    by (auto simp: numeral_eq_Suc span_Suc)
  from memcpy_flash_correct [of "0x300" 2 "0x200" abc_mem]
  obtain m' where "memcpy_flash abc_mem 0x300 0x200 2 = Some (m', 0x300)"
    "m' 0x300 = abc_mem 0x200" "m' 0x301 = abc_mem 0x201"
    by (auto simp: sp)
  then show "\<exists>m'. memcpy_flash abc_mem 0x300 0x200 2 = Some (m', 0x300) \<and> m' 0x300 = 0x61 \<and> m' 0x301 = 0x63"
    by (simp add: abc_mem_def)
  show "memcpy_flash abc_mem 0x300 0x200 1 = None"
    using memcpy_flash_correct [of "0x300" 1 "0x200" abc_mem] by (simp add: sp)
qed

lemma base_notin_span: "n < 2 ^ 32 \<Longrightarrow> a \<notin> span (a + 1) n"
proof
  assume n: "n < 2 ^ 32" and "a \<in> span (a + 1) n"
  then obtain i where i: "i < n" "a = a + of_nat (Suc i)" by (auto simp: span_def ac_simps)
  then have "(of_nat (Suc i) :: u32) = of_nat 0" by simp
  then show False using i(1) n by (subst (asm) of_nat_u32_inj) simp_all
qed

lemma strcpy_loop_cstr:
  "cstr m src xs \<Longrightarrow> length xs < 2 ^ 32 \<Longrightarrow>
   span dst (Suc (length xs)) \<inter> span src (Suc (length xs)) = {} \<Longrightarrow>
   \<exists>m'. strcpy_loop m dst src = Some m' \<and> cstr m' dst xs \<and>
     (\<forall>a. a \<notin> span dst (Suc (length xs)) \<longrightarrow> m' a = m a)"
proof (induction xs arbitrary: m dst src)
  case Nil
  then show ?case by (auto simp: strcpy_loop.simps span_Suc)
next
  case (Cons c xs)
  let ?m = "m(dst := c)"
  have sub: "span (dst + 1) (Suc (length xs)) \<subseteq> span dst (Suc (length (c # xs)))"
    "span (src + 1) (Suc (length xs)) \<subseteq> span src (Suc (length (c # xs)))"
    by (auto simp: span_Suc)
  have "dst \<notin> span (src + 1) (Suc (length xs))"
    using Cons.prems(3) sub span_base [of "Suc (length (c # xs))" dst] by auto
  then have "cstr ?m (src + 1) xs = cstr m (src + 1) xs" by (intro cstr_frame) auto
  then have "cstr ?m (src + 1) xs" using Cons.prems(1) by simp
  moreover have "span (dst + 1) (Suc (length xs)) \<inter> span (src + 1) (Suc (length xs)) = {}"
    using Cons.prems(3) sub by blast
  moreover have "length xs < 2 ^ 32" using Cons.prems(2) by simp
  ultimately obtain m' where m': "strcpy_loop ?m (dst + 1) (src + 1) = Some m'" "cstr m' (dst + 1) xs"
    "\<And>a. a \<notin> span (dst + 1) (Suc (length xs)) \<Longrightarrow> m' a = ?m a"
    using Cons.IH by blast
  have "dst \<notin> span (dst + 1) (Suc (length xs))"
    using base_notin_span [of "Suc (length xs)" dst] Cons.prems(2) by simp
  with m' Cons.prems(1) sub(1) show ?case
    by (intro exI [of _ m']) (auto simp: strcpy_loop.simps [of m] span_Suc)
qed

text \<open>
  \<^verbatim>\<open>strcat\<close> on strings whose buffers are apart appends the second to the first and changes no byte
  outside the room for it. The pointer it returns is the one \<^verbatim>\<open>strcpy\<close> gives: it is the end of the old
  string, not the start of the result.
\<close>

theorem strcat_appends:
  assumes "cstr m dst ys" and "cstr m src xs" and "length ys + length xs < 2 ^ 32"
    and "span dst (Suc (length ys + length xs)) \<inter> span src (Suc (length xs)) = {}"
  shows "\<exists>m'. strcat m dst src = Some (m', dst + of_nat (length ys)) \<and> cstr m' dst (ys @ xs) \<and>
    (\<forall>a. a \<notin> span dst (Suc (length ys + length xs)) \<longrightarrow> m' a = m a)"
proof -
  let ?d = "dst + of_nat (length ys)"
  have sub: "span ?d (Suc (length xs)) \<subseteq> span dst (Suc (length ys + length xs))"
    by (rule span_mono) simp
  then obtain m' where m': "strcpy_loop m ?d src = Some m'" "cstr m' ?d xs"
    "\<And>a. a \<notin> span ?d (Suc (length xs)) \<Longrightarrow> m' a = m a"
    using strcpy_loop_cstr [OF assms(2), of ?d] assms(3,4) by fastforce
  have "a \<notin> span ?d (Suc (length xs))" if "a \<in> span dst (length ys)" for a
  proof
    assume "a \<in> span ?d (Suc (length xs))"
    then obtain i where i: "i < Suc (length xs)" "a = dst + of_nat (length ys + i)"
      by (auto simp: span_def ac_simps)
    from that obtain j where j: "j < length ys" "a = dst + of_nat j" by (auto simp: span_def)
    then have "(of_nat (length ys + i) :: u32) = of_nat j" using i by simp
    then show False using i(1) j(1) assms(3) by (subst (asm) of_nat_u32_inj) simp_all
  qed
  then have "bytes_at m' dst ys \<longleftrightarrow> bytes_at m dst ys"
    by (intro bytes_at_frame m'(3)) blast
  then have "cstr m' dst (ys @ xs)"
    using assms(1) m'(2) cstr_append [of m dst ys "[]"] by (simp add: cstr_append)
  with m' sub strlen_cstr [OF assms(1)] show ?thesis
    by (intro exI [of _ m']) (auto simp: strcat_def strcpy_def)
qed

theorem strcat_appends_witness:
  "\<exists>m'. strcat abc_mem 0x100 0x200 = Some (m', 0x102) \<and> cstr m' 0x100 [0x61, 0x62, 0x61, 0x63]"
proof -
  have "cstr abc_mem 0x100 [0x61, 0x62]" "cstr abc_mem 0x200 [0x61, 0x63]"
    by (auto simp: abc_mem_def)
  moreover have "span 0x100 (Suc (Suc (Suc (Suc (Suc 0))))) \<inter> span 0x200 (Suc (Suc (Suc 0))) = {}"
    by (auto simp: span_Suc)
  ultimately show ?thesis
    using strcat_appends [of abc_mem "0x100" "[0x61, 0x62]" "0x200" "[0x61, 0x63]"] by auto
qed

section \<open>Parsing numbers\<close>

lemma digit_of_cases:
  "digit_of c = Some v \<Longrightarrow> c \<noteq> 0x20 \<and> c \<noteq> 0x09 \<and> c \<noteq> 0x2b \<and> c \<noteq> 0x2d \<and> c \<noteq> 0"
  by (auto simp: digit_of_def word_le_nat_alt split: if_splits)

lemma skip_blanks_at:
  "bytes_at m s bl \<Longrightarrow> set bl \<subseteq> {0x20, 0x09} \<Longrightarrow> m (s + of_nat (length bl)) \<notin> {0x20, 0x09} \<Longrightarrow>
   skip_blanks m s = Some (s + of_nat (length bl))"
  by (induction bl arbitrary: s) (auto simp: skip_blanks.simps ac_simps)

lemma strtol_digits_at:
  "bytes_at m s cs \<Longrightarrow> map digit_of cs = map Some ds \<Longrightarrow> \<forall>d \<in> set ds. d < base \<Longrightarrow>
   \<forall>d. digit_of (m (s + of_nat (length cs))) = Some d \<longrightarrow> base \<le> d \<Longrightarrow>
   strtol_digits m s base val =
     Some (foldl (\<lambda>v d. v * of_int base + of_int d) val ds, s + of_nat (length cs))"
proof (induction cs arbitrary: s val ds)
  case Nil
  then show ?case by (auto simp: strtol_digits.simps split: option.split)
next
  case (Cons c cs)
  then obtain d ds' where ds: "ds = d # ds'" "digit_of c = Some d" "map digit_of cs = map Some ds'"
    by auto
  with Cons.prems Cons.IH [of "s + 1" ds' "val * of_int base + of_int d"] show ?case
    by (simp add: strtol_digits.simps [of m s] ac_simps)
qed

lemma foldl_of_int:
  "foldl (\<lambda>v d. v * of_int base + of_int d) (of_int a :: u32) ds =
   of_int (foldl (\<lambda>v d. v * base + d) a ds)"
  by (induction ds arbitrary: a) (simp_all flip: of_int_add of_int_mult)

text \<open>
  \<^verbatim>\<open>strtol\<close> with an explicit base other than 16 skips the blanks, reads an optional sign and the longest
  run of digits of that base, returns their value modulo \<open>2 ^ 32\<close>, and reports where the number ends.
\<close>

theorem strtol_reads:
  assumes "bytes_at m s (bl @ sg @ cs)" and "set bl \<subseteq> {0x20, 0x09}"
    and "sg = [] \<or> sg = [0x2b] \<or> sg = [0x2d]"
    and "cs \<noteq> []" and "map digit_of cs = map Some ds" and "\<forall>d \<in> set ds. d < base"
    and "\<forall>d. digit_of (m (s + of_nat (length (bl @ sg @ cs)))) = Some d \<longrightarrow> base \<le> d"
    and "base \<noteq> 0" and "base \<noteq> 16"
  shows "strtol m s base =
    Some (of_int ((if sg = [0x2d] then - 1 else 1) * foldl (\<lambda>v d. v * base + d) 0 ds),
          s + of_nat (length (bl @ sg @ cs)))"
proof -
  have app: "bytes_at m a (xs @ ys) \<longleftrightarrow> bytes_at m a xs \<and> bytes_at m (a + of_nat (length xs)) ys"
    for a xs ys by (induction xs arbitrary: a) (auto simp: ac_simps)
  let ?p = "s + of_nat (length bl)"
  obtain c cs' d where c: "cs = c # cs'" "digit_of c = Some d"
    using assms(4,5) by (cases cs) auto
  have b: "bytes_at m s bl" "bytes_at m ?p sg" "bytes_at m (?p + of_nat (length sg)) cs"
    using assms(1) by (simp_all add: app)
  have "m ?p \<notin> {0x20, 0x09}"
    using assms(3) b c digit_of_cases [OF c(2)] by auto
  then have sk: "skip_blanks m s = Some ?p"
    using skip_blanks_at b(1) assms(2) by blast
  have dg: "strtol_digits m (?p + of_nat (length sg)) base 0 =
      Some (of_int (foldl (\<lambda>v d. v * base + d) 0 ds), s + of_nat (length (bl @ sg @ cs)))"
    using strtol_digits_at [OF b(3) assms(5,6)] assms(7) foldl_of_int [of base 0 ds]
    by (simp add: ac_simps)
  show ?thesis
    using assms(3)
  proof (elim disjE)
    assume "sg = []"
    with b(3) c have "m ?p = c" by simp
    with digit_of_cases [OF c(2)] show ?thesis
      using sk dg assms(8,9) \<open>sg = []\<close> by (simp add: strtol_def)
  qed (use sk dg b(2) assms(8,9) in \<open>simp_all add: strtol_def\<close>)
qed

definition number_mem :: mem where
  "number_mem = (\<lambda>_. 0)(0x100 := 0x20, 0x101 := 0x2d, 0x102 := 0x34, 0x103 := 0x32)"

theorem strtol_reads_witness: "strtol number_mem 0x100 10 = Some (- 42, 0x104)"
proof -
  have "digit_of 0x34 = Some 4" "digit_of 0x32 = Some 2" "digit_of 0 = None"
    by (simp_all add: digit_of_def)
  then show ?thesis
    using strtol_reads [of number_mem "0x100" "[0x20]" "[0x2d]" "[0x34, 0x32]" "[4, 2]" 10]
    by (simp add: number_mem_def)
qed

end
