(* ===== verification/Kernlib.thy ===== *)
theory Kernlib
  imports Prelude
begin

text \<open>
  The small shared helpers of the kernel: the bit operations of \<^verbatim>\<open>libs/atomic.h\<close> on the word they are given
  (they run with interrupts off, hence in one step), the rounding macros of \<^verbatim>\<open>libs/defs.h\<close>, \<^verbatim>\<open>hash32\<close> and
  \<^verbatim>\<open>rand\<close>, and the error codes of \<^verbatim>\<open>libs/error.h\<close>. A failed \<^verbatim>\<open>assert\<close> is the value \<open>Inl Assert_failed\<close>; a
  walk over a list that has used up its fuel is \<open>Inl Fuel_exhausted\<close>, an access through \<^verbatim>\<open>NULL\<close> is
  \<open>Inl Null_deref\<close>, a call of \<^verbatim>\<open>panic\<close> is \<open>Inl Panicked\<close>, an index outside an array is \<open>Inl Out_of_bounds\<close>, and a
  pointer to no object of its type is \<open>Inl Bad_pointer\<close>.
\<close>

datatype kpanic = Assert_failed | Fuel_exhausted | Null_deref | Panicked | Out_of_bounds | Bad_pointer

abbreviation assertE :: "bool \<Rightarrow> kpanic + unit" where
  "assertE b \<equiv> guardE b Assert_failed"

section \<open>Error codes\<close>

abbreviation (input) E_UNSPECIFIED :: int where "E_UNSPECIFIED \<equiv> 1"
abbreviation (input) E_BAD_PROC :: int where "E_BAD_PROC \<equiv> 2"
abbreviation (input) E_INVAL :: int where "E_INVAL \<equiv> 3"
abbreviation (input) E_NO_MEM :: int where "E_NO_MEM \<equiv> 4"
abbreviation (input) E_NO_FREE_PROC :: int where "E_NO_FREE_PROC \<equiv> 5"
abbreviation (input) E_FAULT :: int where "E_FAULT \<equiv> 6"
abbreviation (input) E_SWAP_FAULT :: int where "E_SWAP_FAULT \<equiv> 7"
abbreviation (input) E_INVAL_ELF :: int where "E_INVAL_ELF \<equiv> 8"
abbreviation (input) E_KILLED :: int where "E_KILLED \<equiv> 9"
abbreviation (input) E_PANIC :: int where "E_PANIC \<equiv> 10"
abbreviation (input) E_TIMEOUT :: int where "E_TIMEOUT \<equiv> 11"
abbreviation (input) E_TOO_BIG :: int where "E_TOO_BIG \<equiv> 12"
abbreviation (input) E_NO_DEV :: int where "E_NO_DEV \<equiv> 13"
abbreviation (input) E_NA_DEV :: int where "E_NA_DEV \<equiv> 14"
abbreviation (input) E_BUSY :: int where "E_BUSY \<equiv> 15"
abbreviation (input) E_NOENT :: int where "E_NOENT \<equiv> 16"
abbreviation (input) E_ISDIR :: int where "E_ISDIR \<equiv> 17"
abbreviation (input) E_NOTDIR :: int where "E_NOTDIR \<equiv> 18"
abbreviation (input) E_XDEV :: int where "E_XDEV \<equiv> 19"
abbreviation (input) E_UNIMP :: int where "E_UNIMP \<equiv> 20"
abbreviation (input) E_SEEK :: int where "E_SEEK \<equiv> 21"
abbreviation (input) E_MAX_OPEN :: int where "E_MAX_OPEN \<equiv> 22"
abbreviation (input) E_EXISTS :: int where "E_EXISTS \<equiv> 23"
abbreviation (input) E_NOTEMPTY :: int where "E_NOTEMPTY \<equiv> 24"

section \<open>Bits in a word\<close>

definition set_bit_w :: "nat \<Rightarrow> u32 \<Rightarrow> u32" where
  "set_bit_w nr w = w OR push_bit nr 1"

definition clear_bit_w :: "nat \<Rightarrow> u32 \<Rightarrow> u32" where
  "clear_bit_w nr w = w AND NOT (push_bit nr 1)"

definition change_bit_w :: "nat \<Rightarrow> u32 \<Rightarrow> u32" where
  "change_bit_w nr w = w XOR push_bit nr 1"

definition test_bit_w :: "nat \<Rightarrow> u32 \<Rightarrow> bool" where
  "test_bit_w nr w = (w AND push_bit nr 1 \<noteq> 0)"

definition test_and_set_bit :: "nat \<Rightarrow> u32 \<Rightarrow> bool \<times> u32" where
  "test_and_set_bit nr w = (w AND push_bit nr 1 \<noteq> 0, w OR push_bit nr 1)"

definition test_and_clear_bit :: "nat \<Rightarrow> u32 \<Rightarrow> bool \<times> u32" where
  "test_and_clear_bit nr w = (w AND push_bit nr 1 \<noteq> 0, w AND NOT (push_bit nr 1))"

lemma bit_2_pow: "bit (2 ^ i :: u32) n \<longleftrightarrow> n = i \<and> i < 32"
  by (auto simp: bit_exp_iff)

lemma u32_and_bit_eq_0: "(w :: u32) AND 2 ^ i = 0 \<longleftrightarrow> \<not> (i < 32 \<and> bit w i)"
proof
  assume "w AND 2 ^ i = 0"
  then have "\<not> bit (w AND 2 ^ i) i" by simp
  then show "\<not> (i < 32 \<and> bit w i)" by (auto simp: bit_and_iff bit_2_pow)
next
  assume "\<not> (i < 32 \<and> bit w i)"
  then show "w AND 2 ^ i = 0"
    by (intro bit_word_eqI) (auto simp: bit_and_iff bit_2_pow)
qed

text \<open>For a bit number below 32 these are the usual read and write of one bit.\<close>

lemma test_bit_w_iff [simp]: "i < 32 \<Longrightarrow> test_bit_w i w \<longleftrightarrow> bit w i"
  by (simp add: test_bit_w_def u32_and_bit_eq_0)

lemma bit_set_bit_w: "i < 32 \<Longrightarrow> bit (set_bit_w i w) n \<longleftrightarrow> bit w n \<or> n = i"
  by (auto simp: set_bit_w_def bit_or_iff bit_2_pow)

lemma bit_clear_bit_w: "bit (clear_bit_w i w) n \<longleftrightarrow> bit w n \<and> n \<noteq> i"
  by (auto simp: clear_bit_w_def bit_and_iff bit_not_iff bit_2_pow dest: bit_imp_le_length)

lemma bit_change_bit_w: "i < 32 \<Longrightarrow> bit (change_bit_w i w) n \<longleftrightarrow> (bit w n \<noteq> (n = i))"
  by (auto simp: change_bit_w_def bit_xor_iff bit_2_pow)

lemma test_and_set_bit_iff:
  "i < 32 \<Longrightarrow> test_and_set_bit i w = (bit w i, set_bit_w i w)"
  by (simp add: test_and_set_bit_def set_bit_w_def u32_and_bit_eq_0)

lemma test_and_clear_bit_iff:
  "i < 32 \<Longrightarrow> test_and_clear_bit i w = (bit w i, clear_bit_w i w)"
  by (simp add: test_and_clear_bit_def clear_bit_w_def u32_and_bit_eq_0)

section \<open>Rounding\<close>

definition ROUNDDOWN :: "u32 \<Rightarrow> u32 \<Rightarrow> u32" where
  "ROUNDDOWN a n = a - a mod n"

definition ROUNDUP :: "u32 \<Rightarrow> u32 \<Rightarrow> u32" where
  "ROUNDUP a n = ROUNDDOWN (a + n - 1) n"

definition ROUNDUP_DIV :: "u32 \<Rightarrow> u32 \<Rightarrow> u32" where
  "ROUNDUP_DIV a n = (a + n - 1) div n"

lemma unat_ROUNDDOWN: "unat (ROUNDDOWN a n) = unat a - unat a mod unat n"
proof -
  have "a mod n \<le> a" by (simp add: word_le_nat_alt unat_mod)
  then have "unat (a - a mod n) = unat a - unat (a mod n)" by (rule unat_sub)
  then show ?thesis by (simp add: ROUNDDOWN_def unat_mod)
qed

lemma unat_ROUNDDOWN_div: "unat (ROUNDDOWN a n) = unat a div unat n * unat n"
  by (simp add: unat_ROUNDDOWN minus_mod_eq_div_mult)

lemma unat_round_sum:
  assumes "0 < n" "unat a + unat n \<le> 2 ^ 32"
  shows "unat (a + n - 1 :: u32) = unat a + unat n - 1"
proof -
  from assms(1) have n: "1 \<le> n" "1 \<le> unat n" by (simp_all add: word_less_nat_alt word_le_nat_alt)
  have e: "a + n - 1 = a + (n - 1)" by simp
  have "unat (n - 1) = unat n - 1" using n(1) by (simp add: unat_sub)
  then have "unat (a + (n - 1)) = unat a + (unat n - 1)"
    using assms(2) n(2) by (simp add: unat_word_ariths)
  then show ?thesis unfolding e using n(2) by simp
qed

lemma unat_ROUNDUP:
  assumes "0 < n" "unat a + unat n \<le> 2 ^ 32"
  shows "unat (ROUNDUP a n) = (unat a + unat n - 1) div unat n * unat n"
  by (simp only: ROUNDUP_def unat_ROUNDDOWN_div unat_round_sum [OF assms])

lemma unat_ROUNDUP_DIV:
  assumes "0 < n" "unat a + unat n \<le> 2 ^ 32"
  shows "unat (ROUNDUP_DIV a n) = (unat a + unat n - 1) div unat n"
  by (simp only: ROUNDUP_DIV_def unat_div unat_round_sum [OF assms])

text \<open>\<^verbatim>\<open>ROUNDUP\<close> is the least multiple that is not below its argument.\<close>

lemma ROUNDUP_least:
  assumes "0 < n" "unat a + unat n \<le> 2 ^ 32"
  shows "unat a \<le> unat (ROUNDUP a n)" "unat n dvd unat (ROUNDUP a n)"
    "unat n dvd k \<Longrightarrow> unat a \<le> k \<Longrightarrow> unat (ROUNDUP a n) \<le> k"
proof -
  have n: "0 < unat n" using assms(1) by (simp add: word_less_nat_alt)
  note r = unat_ROUNDUP [OF assms]
  show "unat n dvd unat (ROUNDUP a n)" by (simp add: r)
  have "(unat a + unat n - 1) mod unat n < unat n" using n by simp
  then show "unat a \<le> unat (ROUNDUP a n)"
    unfolding r using div_mult_mod_eq [of "unat a + unat n - 1" "unat n"] n by linarith
  assume "unat n dvd k" "unat a \<le> k"
  then obtain j where k: "k = unat n * j" by blast
  have "(unat a + unat n - 1) div unat n \<le> (unat n * j + (unat n - 1)) div unat n"
    by (rule div_le_mono) (use \<open>unat a \<le> k\<close> k n in simp)
  also have "\<dots> = j" using n by (simp only: div_mult_self4 div_less diff_less zero_less_one)
  finally show "unat (ROUNDUP a n) \<le> k" unfolding r k by (simp add: mult.commute)
qed

section \<open>Hashing and random numbers\<close>

abbreviation (input) GOLDEN_RATIO_PRIME_32 :: u32 where "GOLDEN_RATIO_PRIME_32 \<equiv> 0x9e370001"

definition hash32 :: "u32 \<Rightarrow> nat \<Rightarrow> u32" where
  "hash32 val bits = (let hash = val * GOLDEN_RATIO_PRIME_32 in drop_bit (32 - bits) hash)"

lemma hash32_bound: "bits \<le> 32 \<Longrightarrow> unat (hash32 val bits) < 2 ^ bits"
proof -
  assume b: "bits \<le> 32"
  have "unat (drop_bit (32 - bits) w) < 2 ^ bits" for w :: u32
  proof -
    have "unat w < 2 ^ bits * 2 ^ (32 - bits)"
      using u32_unat_less [of w] b by (simp flip: power_add)
    then show ?thesis
      by (simp add: unat_drop_bit_eq drop_bit_eq_div [where 'a = nat] less_mult_imp_div_less)
  qed
  then show ?thesis by (simp add: hash32_def Let_def)
qed

abbreviation (input) RAND_MAX :: u32 where "RAND_MAX \<equiv> 2147483647"

text \<open>The state \<^verbatim>\<open>next\<close> of the generator is an \<^verbatim>\<open>unsigned long long\<close>.\<close>

definition rand :: "u64 \<Rightarrow> u32 \<times> u64" where
  "rand st = (let st = ucast ((ucast st :: u32) * 1103515245 + 12345) in (ucast st mod (RAND_MAX + 1), st))"

definition srand :: "u32 \<Rightarrow> u64" where
  "srand seed = ucast seed"

lemma rand_range: "fst (rand st) \<le> RAND_MAX"
proof -
  have "unat (w mod 2147483648 :: u32) < 2147483648" for w by (simp add: unat_mod)
  then have "unat (w mod 2147483648 :: u32) \<le> 2147483647" for w
    using less_Suc_eq_le [of "unat (w mod 2147483648)" 2147483647] by simp
  then show ?thesis by (simp add: rand_def Let_def word_le_nat_alt)
qed

end
