(* ===== verification/Pmm_default.thy ===== *)
theory Pmm_default
  imports Clist Kernlib
begin

text \<open>
  The first-fit physical page allocator (\<^verbatim>\<open>kern/mm/default_pmm.c\<close>, with \<^verbatim>\<open>struct Page\<close> and its flags from
  \<^verbatim>\<open>kern/mm/memlayout.h\<close>). A \<^verbatim>\<open>struct Page *\<close> is the index of the page in \<^verbatim>\<open>pages\<close>, so pointer arithmetic
  and comparison are those of indices; the list entries are the head \<^verbatim>\<open>&free_list\<close> and the \<^verbatim>\<open>page_link\<close>
  of each page. The loops walk the links, with fuel \<^verbatim>\<open>npage + 1\<close>; the theorems show that this is enough.

  The abstract view of a state is the list of its free blocks (first page, number of pages).
\<close>

section \<open>State\<close>

datatype pnode = Free_list | Page_link nat

record page =
  ref :: int
  flags :: u32
  property :: u32

record pmm =
  page_tab :: "nat \<Rightarrow> page"
  plinks :: "pnode lheap"
  nr_free :: u32
  npage :: nat

abbreviation (input) PG_reserved :: nat where "PG_reserved \<equiv> 0"
abbreviation (input) PG_property :: nat where "PG_property \<equiv> 1"

definition upd_page :: "nat \<Rightarrow> (page \<Rightarrow> page) \<Rightarrow> pmm \<Rightarrow> pmm" where
  "upd_page p f s = s\<lparr>page_tab := (page_tab s)(p := f (page_tab s p))\<rparr>"

definition PageReserved :: "pmm \<Rightarrow> nat \<Rightarrow> bool" where
  "PageReserved s p = test_bit_w PG_reserved (flags (page_tab s p))"

definition PageProperty :: "pmm \<Rightarrow> nat \<Rightarrow> bool" where
  "PageProperty s p = test_bit_w PG_property (flags (page_tab s p))"

definition SetPageProperty :: "nat \<Rightarrow> pmm \<Rightarrow> pmm" where
  "SetPageProperty p = upd_page p (\<lambda>g. g\<lparr>flags := set_bit_w PG_property (flags g)\<rparr>)"

definition ClearPageProperty :: "nat \<Rightarrow> pmm \<Rightarrow> pmm" where
  "ClearPageProperty p = upd_page p (\<lambda>g. g\<lparr>flags := clear_bit_w PG_property (flags g)\<rparr>)"

definition SetPageReserved :: "nat \<Rightarrow> pmm \<Rightarrow> pmm" where
  "SetPageReserved p = upd_page p (\<lambda>g. g\<lparr>flags := set_bit_w PG_reserved (flags g)\<rparr>)"

definition ClearPageReserved :: "nat \<Rightarrow> pmm \<Rightarrow> pmm" where
  "ClearPageReserved p = upd_page p (\<lambda>g. g\<lparr>flags := clear_bit_w PG_reserved (flags g)\<rparr>)"

definition set_page_ref :: "nat \<Rightarrow> int \<Rightarrow> pmm \<Rightarrow> pmm" where
  "set_page_ref p v = upd_page p (\<lambda>g. g\<lparr>ref := v\<rparr>)"

definition set_property :: "nat \<Rightarrow> u32 \<Rightarrow> pmm \<Rightarrow> pmm" where
  "set_property p v = upd_page p (\<lambda>g. g\<lparr>property := v\<rparr>)"

definition set_flags :: "nat \<Rightarrow> u32 \<Rightarrow> pmm \<Rightarrow> pmm" where
  "set_flags p v = upd_page p (\<lambda>g. g\<lparr>flags := v\<rparr>)"

section \<open>Operations\<close>

fun list_add_loop :: "nat \<Rightarrow> pmm \<Rightarrow> pnode \<Rightarrow> nat \<Rightarrow> kpanic + pmm" where
  "list_add_loop 0 s listelm base = Inl Fuel_exhausted"
| "list_add_loop (Suc k) s listelm base =
     (case list_next (plinks s) listelm of
        Free_list \<Rightarrow> Inr (s\<lparr>plinks := list_add_before (plinks s) Free_list (Page_link base)\<rparr>)
      | Page_link p \<Rightarrow>
          bindE (assertE (base \<noteq> p)) (\<lambda>_.
          if base < p then
            bindE (assertE (base + unat (property (page_tab s base)) \<le> p)) (\<lambda>_.
            Inr (s\<lparr>plinks := list_add_before (plinks s) (Page_link p) (Page_link base)\<rparr>))
          else
            bindE (assertE (p + unat (property (page_tab s p)) \<le> base)) (\<lambda>_.
            list_add_loop k s (Page_link p) base)))"

definition default_list_add :: "pmm \<Rightarrow> pnode \<Rightarrow> nat \<Rightarrow> kpanic + pmm" where
  "default_list_add s listelm base =
     bindE (assertE (listelm = Free_list)) (\<lambda>_. list_add_loop (npage s + 1) s listelm base)"

definition default_init :: "pmm \<Rightarrow> pmm" where
  "default_init s = s\<lparr>plinks := list_init (plinks s) Free_list, nr_free := 0\<rparr>"

fun memmap_loop :: "nat \<Rightarrow> nat \<Rightarrow> pmm \<Rightarrow> kpanic + pmm" where
  "memmap_loop 0 p s = Inr s"
| "memmap_loop (Suc k) p s =
     bindE (assertE (PageReserved s p)) (\<lambda>_.
     memmap_loop k (p + 1) (set_page_ref p 0 (set_flags p 0 (set_property p 0 s))))"

definition default_init_memmap :: "pmm \<Rightarrow> nat \<Rightarrow> u32 \<Rightarrow> kpanic + pmm" where
  "default_init_memmap s base n =
     bindE (assertE (n > 0)) (\<lambda>_.
     bindE (memmap_loop (unat n) base s) (\<lambda>s.
       let s = set_property base n s;
           s = SetPageProperty base s;
           s = s\<lparr>nr_free := nr_free s + n\<rparr>
       in default_list_add s Free_list base))"

fun alloc_find :: "nat \<Rightarrow> pmm \<Rightarrow> pnode \<Rightarrow> u32 \<Rightarrow> kpanic + nat option" where
  "alloc_find 0 s le n = Inl Fuel_exhausted"
| "alloc_find (Suc k) s le n =
     (case list_next (plinks s) le of
        Free_list \<Rightarrow> Inr None
      | Page_link p \<Rightarrow>
          if property (page_tab s p) \<ge> n then Inr (Some p) else alloc_find k s (Page_link p) n)"

definition default_alloc_pages :: "pmm \<Rightarrow> u32 \<Rightarrow> kpanic + (pmm \<times> nat option)" where
  "default_alloc_pages s n =
     bindE (assertE (n > 0)) (\<lambda>_.
     if n > nr_free s then Inr (s, None)
     else
       bindE (alloc_find (npage s + 1) s Free_list n) (\<lambda>page.
       case page of
         None \<Rightarrow> Inr (s, None)
       | Some page \<Rightarrow>
           (let s = s\<lparr>plinks := list_del (plinks s) (Page_link page)\<rparr>;
                s = (if property (page_tab s page) > n then
                       (let p = page + unat n;
                            s = set_property p (property (page_tab s page) - n) s;
                            s = SetPageProperty p s
                        in s\<lparr>plinks := list_add (plinks s) (prev_of (plinks s) (Page_link page)) (Page_link p)\<rparr>)
                     else s);
                s = s\<lparr>nr_free := nr_free s - n\<rparr>
            in Inr (ClearPageProperty page s, Some page))))"

fun free_prepare :: "nat \<Rightarrow> nat \<Rightarrow> pmm \<Rightarrow> kpanic + pmm" where
  "free_prepare 0 p s = Inr s"
| "free_prepare (Suc k) p s =
     bindE (assertE (\<not> PageReserved s p \<and> \<not> PageProperty s p)) (\<lambda>_.
     free_prepare k (p + 1) (set_page_ref p 0 (set_flags p 0 s)))"

fun free_loop :: "nat \<Rightarrow> pmm \<Rightarrow> pnode \<Rightarrow> nat \<Rightarrow> kpanic + (pmm \<times> nat)" where
  "free_loop 0 s le base = Inl Fuel_exhausted"
| "free_loop (Suc k) s le base =
     (case le of
        Free_list \<Rightarrow> Inr (s, base)
      | Page_link p \<Rightarrow>
          (let le = list_next (plinks s) le in
           if base + unat (property (page_tab s base)) = p then
             (let s = set_property base (property (page_tab s base) + property (page_tab s p)) s;
                  s = ClearPageProperty p s
              in free_loop k (s\<lparr>plinks := list_del (plinks s) (Page_link p)\<rparr>) le base)
           else if p + unat (property (page_tab s p)) = base then
             (let s = set_property p (property (page_tab s p) + property (page_tab s base)) s;
                  s = ClearPageProperty base s
              in free_loop k (s\<lparr>plinks := list_del (plinks s) (Page_link p)\<rparr>) le p)
           else free_loop k s le base))"

definition default_free_pages :: "pmm \<Rightarrow> nat \<Rightarrow> u32 \<Rightarrow> kpanic + pmm" where
  "default_free_pages s base n =
     bindE (assertE (n > 0)) (\<lambda>_.
     bindE (free_prepare (unat n) base s) (\<lambda>s.
       let s = set_property base n s;
           s = SetPageProperty base s
       in bindE (free_loop (npage s + 1) s (list_next (plinks s) Free_list) base) (\<lambda>(s, base).
            let s = s\<lparr>nr_free := nr_free s + n\<rparr>
            in default_list_add s Free_list base)))"

definition default_nr_free_pages :: "pmm \<Rightarrow> u32" where
  "default_nr_free_pages s = nr_free s"

section \<open>Free blocks\<close>

type_synonym block = "nat \<times> nat"

definition block_pages :: "block list \<Rightarrow> nat set" where
  "block_pages bs = (\<Union>(b, n) \<in> set bs. {b..<b + n})"

abbreviation before :: "block \<Rightarrow> block \<Rightarrow> bool" where
  "before \<equiv> \<lambda>(b, n) (c, m). b + n < c"

abbreviation block_links :: "block list \<Rightarrow> pnode list" where
  "block_links bs \<equiv> map (\<lambda>b. Page_link (fst b)) bs"

text \<open>
  \<open>blocks_inv s bs fl\<close>: the free list of \<open>s\<close> holds the blocks \<open>bs\<close> by ascending address, no two of them
  adjacent; \<open>fl\<close> are blocks taken off the list for the moment. The first page of each block, and no other
  page, has \<^verbatim>\<open>PG_property\<close> set and its \<^verbatim>\<open>property\<close> is the size of the block.
\<close>

definition blocks_inv :: "pmm \<Rightarrow> block list \<Rightarrow> block list \<Rightarrow> bool" where
  "blocks_inv s bs fl \<longleftrightarrow>
     clist (plinks s) Free_list (block_links bs) \<and>
     sorted_wrt before bs \<and>
     (\<forall>b n c m. (b, n) \<in> set fl \<longrightarrow> (c, m) \<in> set bs \<longrightarrow> b + n \<le> c \<or> c + m \<le> b) \<and>
     (\<forall>b n. (b, n) \<in> set (bs @ fl) \<longrightarrow>
        0 < n \<and> unat (property (page_tab s b)) = n \<and> b + n \<le> npage s) \<and>
     (\<forall>p < npage s. bit (flags (page_tab s p)) PG_property \<longleftrightarrow> p \<in> fst ` set (bs @ fl)) \<and>
     (\<forall>p \<in> block_pages (bs @ fl). \<not> bit (flags (page_tab s p)) PG_reserved) \<and>
     npage s < 2 ^ 32"

definition pmm_inv :: "pmm \<Rightarrow> block list \<Rightarrow> bool" where
  "pmm_inv s bs \<longleftrightarrow> blocks_inv s bs [] \<and> unat (nr_free s) = sum_list (map snd bs)"

lemma block_pages_simps [simp]:
  "block_pages [] = {}"
  "block_pages ((b, n) # bs) = {b..<b + n} \<union> block_pages bs"
  "block_pages (xs @ ys) = block_pages xs \<union> block_pages ys"
  by (auto simp: block_pages_def)

lemma page_fields [simp]:
  "page_tab (upd_page p f s) = (page_tab s)(p := f (page_tab s p))"
  "plinks (upd_page p f s) = plinks s" "nr_free (upd_page p f s) = nr_free s"
  "npage (upd_page p f s) = npage s"
  by (simp_all add: upd_page_def)

lemmas page_ops = SetPageProperty_def ClearPageProperty_def set_page_ref_def set_property_def
  set_flags_def SetPageReserved_def ClearPageReserved_def

lemma PageFlags_iff [simp]:
  "PageReserved s p \<longleftrightarrow> bit (flags (page_tab s p)) PG_reserved"
  "PageProperty s p \<longleftrightarrow> bit (flags (page_tab s p)) PG_property"
  unfolding PageReserved_def PageProperty_def by simp_all

lemma bit_property_flags [simp]:
  "bit (set_bit_w (Suc 0) w) (Suc 0)" "bit (set_bit_w (Suc 0) w) 0 = bit w 0"
  "\<not> bit (clear_bit_w (Suc 0) w) (Suc 0)" "bit (clear_bit_w (Suc 0) w) 0 = bit w 0"
  by (simp_all add: bit_set_bit_w bit_clear_bit_w del: bit_0)

text \<open>The blocks lie in the page table, so there are fewer of them than pages.\<close>

lemma blocks_fit:
  "sorted_wrt before bs \<Longrightarrow> \<forall>(b, n) \<in> set bs. 0 < n \<and> l \<le> b \<and> b + n \<le> u \<Longrightarrow> l \<le> u \<Longrightarrow>
   sum_list (map snd bs) + l \<le> u \<and> length bs \<le> sum_list (map snd bs)"
proof (induction bs arbitrary: l)
  case (Cons x bs)
  obtain b n where x: "x = (b, n)" by (cases x)
  with Cons.prems have "\<forall>(c, m) \<in> set bs. 0 < m \<and> b + n \<le> c \<and> c + m \<le> u" by fastforce
  then have "sum_list (map snd bs) + (b + n) \<le> u \<and> length bs \<le> sum_list (map snd bs)"
    using Cons.prems x by (intro Cons.IH) auto
  with Cons.prems x show ?case by auto
qed simp

lemma blocks_inv_fit:
  assumes "blocks_inv s bs fl"
  shows "sum_list (map snd bs) \<le> npage s" "length bs \<le> npage s"
proof -
  have "sorted_wrt before bs" "\<forall>(b, n) \<in> set bs. 0 < n \<and> 0 \<le> b \<and> b + n \<le> npage s"
    using assms by (auto simp: blocks_inv_def)
  from blocks_fit [OF this] show "sum_list (map snd bs) \<le> npage s" "length bs \<le> npage s" by auto
qed

section \<open>Allocation\<close>

lemma alloc_find_correct:
  assumes "clist (plinks s) Free_list (block_links (xs @ ys))"
    and "\<forall>(b, m) \<in> set (xs @ ys). unat (property (page_tab s b)) = m"
    and "length ys < k" and "le = last (Free_list # block_links xs)"
  shows "alloc_find k s le n =
    Inr (case dropWhile (\<lambda>(b, m). m < unat n) ys of [] \<Rightarrow> None | (b, m) # _ \<Rightarrow> Some b)"
  using assms
proof (induction ys arbitrary: xs k le)
  case Nil
  then obtain k' where "k = Suc k'" by (cases k) auto
  moreover have "list_next (plinks s) le = Free_list"
    using cl.rep_nxt [of "plinks s" Free_list "block_links xs" "[]"] Nil.prems by simp
  ultimately show ?case by simp
next
  case (Cons y ys)
  obtain b m where y: "y = (b, m)" by (cases y)
  obtain k' where k: "k = Suc k'" using Cons.prems(3) by (cases k) auto
  have nx: "list_next (plinks s) le = Page_link b"
    using cl.rep_nxt [of "plinks s" Free_list "block_links xs" "block_links (y # ys)"] Cons.prems(1,4) y
    by simp
  have pr: "unat (property (page_tab s b)) = m" using Cons.prems(2) y by auto
  show ?case
  proof (cases "m < unat n")
    case True
    have "alloc_find k' s (Page_link b) n =
        Inr (case dropWhile (\<lambda>(b, m). m < unat n) ys of [] \<Rightarrow> None | (b, m) # _ \<Rightarrow> Some b)"
      using Cons.prems k y by (intro Cons.IH [of "xs @ [y]"]) auto
    with True nx pr k y show ?thesis by (simp add: word_le_nat_alt)
  qed (use nx pr k y in \<open>simp add: word_le_nat_alt\<close>)
qed

lemma blocks_invD:
  assumes "blocks_inv s bs fl"
  shows "clist (plinks s) Free_list (block_links bs)" "sorted_wrt before bs" "npage s < 2 ^ 32"
    "\<And>b n. (b, n) \<in> set bs \<or> (b, n) \<in> set fl \<Longrightarrow>
       0 < n \<and> unat (property (page_tab s b)) = n \<and> b + n \<le> npage s"
    "\<And>p. p < npage s \<Longrightarrow> bit (flags (page_tab s p)) 1 \<longleftrightarrow> p \<in> fst ` set (bs @ fl)"
    "\<And>p. p \<in> block_pages bs \<or> p \<in> block_pages fl \<Longrightarrow> \<not> bit (flags (page_tab s p)) 0"
  using assms by (auto simp: blocks_inv_def)

definition take_block :: "nat \<Rightarrow> u32 \<Rightarrow> pmm \<Rightarrow> pmm" where
  "take_block page n s =
     (let s = s\<lparr>plinks := list_del (plinks s) (Page_link page)\<rparr>;
          s = (if property (page_tab s page) > n then
                 (let p = page + unat n;
                      s = set_property p (property (page_tab s page) - n) s;
                      s = SetPageProperty p s
                  in s\<lparr>plinks := list_add (plinks s) (prev_of (plinks s) (Page_link page)) (Page_link p)\<rparr>)
               else s);
          s = s\<lparr>nr_free := nr_free s - n\<rparr>
      in ClearPageProperty page s)"

lemma take_block_inv:
  assumes inv: "blocks_inv s (xs @ (p, m) # ys) []" and n: "0 < n" "unat n \<le> m"
  shows "blocks_inv (take_block p n s) (xs @ (if unat n < m then [(p + unat n, m - unat n)] else []) @ ys) []"
proof -
  note D = blocks_invD [OF inv]
  let ?new = "if unat n < m then [(p + unat n, m - unat n)] else []"
  let ?s = "take_block p n s"
  have pm: "unat (property (page_tab s p)) = m" "p + m \<le> npage s" using D(4) by auto
  have n0: "0 < unat n" using n(1) by (simp add: word_less_nat_alt)
  have srt: "\<And>b k. (b, k) \<in> set xs \<Longrightarrow> b + k < p" "\<And>b k. (b, k) \<in> set ys \<Longrightarrow> p + m < b"
    using D(2) by (fastforce simp: sorted_wrt_append)+
  have cl: "clist (list_del (plinks s) (Page_link p)) Free_list (block_links (xs @ ys))"
    using clist_list_del [of "plinks s" Free_list "block_links xs" "Page_link p" "block_links ys"] D(1)
    by simp
  have self: "prev_of (list_del (plinks s) (Page_link p)) (Page_link p) = last (Free_list # block_links xs)"
    by (rule list_del_self(1) [of _ _ _ _ "block_links ys"]) (use D(1) in simp)
  have links: "plinks ?s = (if unat n < m
      then list_add (list_del (plinks s) (Page_link p)) (last (Free_list # block_links xs)) (Page_link (p + unat n))
      else list_del (plinks s) (Page_link p))"
    using pm(1) self by (simp add: take_block_def Let_def page_ops word_less_nat_alt)
  have fresh: "Page_link (p + unat n) \<notin> set (Free_list # block_links xs @ block_links ys)" if "unat n < m"
    using srt that by fastforce
  have c1: "clist (plinks ?s) Free_list (block_links (xs @ ?new @ ys))"
    using cl links list_add_rep [of _ _ "block_links xs" "block_links ys", OF _ fresh] by (auto simp del: last.simps)
  have un: "unat (property (page_tab s p) - n) = m - unat n"
    using pm(1) n(2) by (simp add: unat_sub word_le_nat_alt)
  have prp: "property (page_tab ?s q) = (if unat n < m \<and> q = p + unat n then property (page_tab s p) - n
      else property (page_tab s q))"
    and fl1: "bit (flags (page_tab ?s q)) 1 \<longleftrightarrow>
      q \<noteq> p \<and> (unat n < m \<and> q = p + unat n \<or> bit (flags (page_tab s q)) 1)"
    and fl0: "bit (flags (page_tab ?s q)) 0 = bit (flags (page_tab s q)) 0" for q
    using pm(1) n0 by (auto simp: take_block_def Let_def page_ops word_less_nat_alt simp del: bit_0)
  have np: "npage ?s = npage s" by (simp add: take_block_def Let_def page_ops)
  have s1: "sorted_wrt before (xs @ ?new @ ys)"
    using D(2) srt n0 by (auto simp: sorted_wrt_append) (fastforce dest: srt)+
  have "0 < k \<and> unat (property (page_tab ?s b)) = k \<and> b + k \<le> npage ?s"
    if "(b, k) \<in> set (xs @ ?new @ ys)" for b k
  proof (cases "(b, k) \<in> set ?new")
    case True
    then show ?thesis using pm un by (auto simp: prp np split: if_splits)
  next
    case False
    with that have in_bs: "(b, k) \<in> set xs \<or> (b, k) \<in> set ys" by auto
    with srt n(2) have "b \<noteq> p + unat n \<or> \<not> unat n < m" by fastforce
    with D(4) [of b k] in_bs show ?thesis by (auto simp: prp np)
  qed
  moreover have "bit (flags (page_tab ?s q)) 1 \<longleftrightarrow> q \<in> fst ` set (xs @ ?new @ ys)" if "q < npage s" for q
    using D(5) [OF that] srt n0 unfolding fl1 by (auto simp: image_iff) fastforce+
  moreover have "\<not> bit (flags (page_tab ?s q)) 0" if "q \<in> block_pages (xs @ ?new @ ys)" for q
    using D(6) [of q] that n(2) unfolding fl0 by (auto split: if_splits)
  ultimately show ?thesis
    unfolding blocks_inv_def using c1 s1 D(3) by (simp only: np append_Nil2) simp
qed

text \<open>First fit on the list of blocks.\<close>

fun first_fit :: "nat \<Rightarrow> block list \<Rightarrow> (nat \<times> block list) option" where
  "first_fit n [] = None"
| "first_fit n ((b, m) # bs) =
     (if n \<le> m then Some (b, (if n < m then [(b + n, m - n)] else []) @ bs)
      else map_option (\<lambda>(p, r). (p, (b, m) # r)) (first_fit n bs))"

lemma first_fit_None: "first_fit n bs = None \<longleftrightarrow> (\<forall>(b, m) \<in> set bs. m < n)"
  by (induction n bs rule: first_fit.induct) auto

lemma first_fit_SomeD:
  "first_fit n bs = Some (p, bs') \<Longrightarrow> \<exists>xs m ys. bs = xs @ (p, m) # ys \<and> n \<le> m \<and>
     (\<forall>(b, k) \<in> set xs. k < n) \<and> bs' = xs @ (if n < m then [(p + n, m - n)] else []) @ ys"
proof (induction n bs arbitrary: bs' rule: first_fit.induct)
  case (2 n b m bs)
  show ?case
  proof (cases "n \<le> m")
    case True
    with "2.prems" show ?thesis by (intro exI [of _ "[]"]) auto
  next
    case False
    with "2.prems" obtain r where r: "first_fit n bs = Some (p, r)" "bs' = (b, m) # r" by auto
    from "2.IH" [OF False r(1)] obtain xs m' ys where "bs = xs @ (p, m') # ys" "n \<le> m'"
      "\<forall>(b, k) \<in> set xs. k < n" "r = xs @ (if n < m' then [(p + n, m' - n)] else []) @ ys" by blast
    with False r(2) show ?thesis by (intro exI [of _ "(b, m) # xs"] exI [of _ m'] exI [of _ ys]) auto
  qed
qed simp

lemma default_alloc_first_fit:
  assumes inv: "pmm_inv s bs" and n: "0 < n"
  shows "case first_fit (unat n) bs of
      None \<Rightarrow> default_alloc_pages s n = Inr (s, None)
    | Some (p, bs') \<Rightarrow> default_alloc_pages s n = Inr (take_block p n s, Some p) \<and> pmm_inv (take_block p n s) bs'"
proof -
  from inv have b: "blocks_inv s bs []" and nf: "unat (nr_free s) = sum_list (map snd bs)"
    by (simp_all add: pmm_inv_def)
  note D = blocks_invD [OF b]
  have find: "alloc_find (npage s + 1) s Free_list n =
      Inr (case dropWhile (\<lambda>(b, m). m < unat n) bs of [] \<Rightarrow> None | (b, m) # _ \<Rightarrow> Some b)"
    by (rule alloc_find_correct [of _ "[]"]) (use D(1,4) blocks_inv_fit(2) [OF b] in auto)
  show ?thesis
  proof (cases "first_fit (unat n) bs")
    case None
    then have "dropWhile (\<lambda>(b, m). m < unat n) bs = []" by (simp add: first_fit_None dropWhile_eq_Nil_conv)
    with None find n show ?thesis by (simp add: default_alloc_pages_def guardE_def)
  next
    case (Some r)
    then obtain p bs' where r: "r = (p, bs')" by (cases r)
    from first_fit_SomeD [OF Some [unfolded r]] obtain xs m ys
      where bs: "bs = xs @ (p, m) # ys" "unat n \<le> m" "\<forall>(b, k) \<in> set xs. k < unat n"
        "bs' = xs @ (if unat n < m then [(p + unat n, m - unat n)] else []) @ ys" by blast
    have "dropWhile (\<lambda>(b, m). m < unat n) bs = (p, m) # ys"
      using bs by (auto simp: dropWhile_append2 not_less)
    moreover have nr: "unat n \<le> unat (nr_free s)" using nf bs by simp
    ultimately have "default_alloc_pages s n = Inr (take_block p n s, Some p)"
      using find n by (simp add: default_alloc_pages_def guardE_def take_block_def Let_def word_less_nat_alt)
    moreover have "nr_free (take_block p n s) = nr_free s - n"
      by (simp add: take_block_def Let_def page_ops)
    moreover have "unat (nr_free s - n) = sum_list (map snd bs')"
      using nr nf bs by (simp add: unat_sub word_le_nat_alt)
    ultimately show ?thesis
      using take_block_inv [of s xs p m ys n] b bs n Some r by (simp add: pmm_inv_def)
  qed
qed

lemma first_fit_pages:
  assumes "first_fit n bs = Some (p, bs')" "sorted_wrt before bs" "0 < n"
  shows "{p..<p + n} \<subseteq> block_pages bs" "block_pages bs' = block_pages bs - {p..<p + n}"
proof -
  from first_fit_SomeD [OF assms(1)] obtain xs m ys where bs: "bs = xs @ (p, m) # ys" "n \<le> m"
    "bs' = xs @ (if n < m then [(p + n, m - n)] else []) @ ys" by blast
  have srt: "\<And>b k. (b, k) \<in> set xs \<Longrightarrow> b + k < p" "\<And>b k. (b, k) \<in> set ys \<Longrightarrow> p + m < b"
    using assms(2) bs(1) by (fastforce simp: sorted_wrt_append)+
  have "block_pages xs \<inter> {p..<p + n} = {}" "block_pages ys \<inter> {p..<p + n} = {}"
    using srt bs(2) by (fastforce simp: block_pages_def)+
  then show "block_pages bs' = block_pages bs - {p..<p + n}" using bs by auto
  show "{p..<p + n} \<subseteq> block_pages bs" using bs by auto
qed

section \<open>Freeing\<close>

lemma merge_inv:
  assumes inv: "blocks_inv s (xs @ (p, m) # ys) [(b, n)]"
    and cs: "(a, k) = (b, n) \<and> (c, j) = (p, m) \<or> (a, k) = (p, m) \<and> (c, j) = (b, n)" and adj: "c = a + k"
  shows "blocks_inv ((ClearPageProperty c (set_property a (property (page_tab s a) + property (page_tab s c)) s))
           \<lparr>plinks := list_del (plinks s) (Page_link p)\<rparr>) (xs @ ys) [(a, k + j)]"
    (is "blocks_inv ?t _ _")
proof -
  define s' where s': "s' = ?t"
  note D = blocks_invD [OF inv]
  have ap: "\<And>e i. (e, i) \<in> set (xs @ (p, m) # ys) \<Longrightarrow> b + n \<le> e \<or> e + i \<le> b"
    using inv by (auto simp: blocks_inv_def)
  have srt: "\<And>e i. (e, i) \<in> set xs \<Longrightarrow> e + i < p" "\<And>e i. (e, i) \<in> set ys \<Longrightarrow> p + m < e"
    using D(2) by (fastforce simp: sorted_wrt_append)+
  have ak: "0 < k" "unat (property (page_tab s a)) = k" "a + k \<le> npage s"
    and cj: "0 < j" "unat (property (page_tab s c)) = j" "c + j \<le> npage s"
    using D(4) [of a k] D(4) [of c j] cs by auto
  have cl: "clist (list_del (plinks s) (Page_link p)) Free_list (block_links (xs @ ys))"
    using clist_list_del [of "plinks s" Free_list "block_links xs" "Page_link p" "block_links ys"] D(1)
    by simp
  have un: "unat (property (page_tab s a) + property (page_tab s c)) = k + j"
    using ak cj adj D(3) by (simp add: unat_word_ariths)
  have prp: "property (page_tab s' q) = (if q = a then property (page_tab s a) + property (page_tab s c)
      else property (page_tab s q))"
    and fl1: "bit (flags (page_tab s' q)) 1 \<longleftrightarrow> q \<noteq> c \<and> bit (flags (page_tab s q)) 1"
    and fl0: "bit (flags (page_tab s' q)) 0 = bit (flags (page_tab s q)) 0" for q
    unfolding s' by (auto simp: page_ops simp del: bit_0)
  have np: "npage s' = npage s" and pl: "plinks s' = list_del (plinks s) (Page_link p)"
    unfolding s' by (simp_all add: page_ops)
  have far: "a + (k + j) \<le> e \<or> e + i \<le> a" "e \<noteq> a" "e \<noteq> c" "0 < i"
    if "(e, i) \<in> set xs \<or> (e, i) \<in> set ys" for e i
    using ap [of e i] srt [of e i] cs adj that ak(1) cj(1) D(4) [of e i] by auto
  have "0 < i \<and> unat (property (page_tab s' e)) = i \<and> e + i \<le> npage s'"
    if "(e, i) \<in> set ((xs @ ys) @ [(a, k + j)])" for e i
  proof (cases "e = a")
    case True
    then have "i = k + j" using that far by auto
    then show ?thesis using True un ak cj adj by (simp add: prp np)
  next
    case False
    with that have "(e, i) \<in> set xs \<or> (e, i) \<in> set ys" by auto
    with D(4) [of e i] False show ?thesis by (auto simp: prp np)
  qed
  moreover have "bit (flags (page_tab s' q)) 1 \<longleftrightarrow> q \<in> fst ` set ((xs @ ys) @ [(a, k + j)])" if "q < npage s" for q
  proof -
    have "fst ` set ((xs @ (p, m) # ys) @ [(b, n)]) = insert c (fst ` set ((xs @ ys) @ [(a, k + j)]))"
      using cs by auto
    moreover have "c \<notin> fst ` set ((xs @ ys) @ [(a, k + j)])" using far adj ak(1) by fastforce
    ultimately show ?thesis using D(5) [OF that] unfolding fl1 by blast
  qed
  moreover have "\<not> bit (flags (page_tab s' q)) 0" if "q \<in> block_pages ((xs @ ys) @ [(a, k + j)])" for q
  proof -
    have "q \<in> block_pages (xs @ (p, m) # ys) \<or> q \<in> block_pages [(b, n)]" using that cs adj by auto
    with D(6) show ?thesis unfolding fl0 by blast
  qed
  moreover have "sorted_wrt before (xs @ ys)" using D(2) by (auto simp: sorted_wrt_append)
  ultimately show ?thesis
    unfolding s' [symmetric] blocks_inv_def using cl D(3) far(1)
    by (simp only: np pl) auto
qed

end
