(* ===== verification/Pmm_free.thy ===== *)
theory Pmm_free
  imports Pmm_default
begin

text \<open>
  Freeing pages and the contract of the page allocator: \<^verbatim>\<open>default_free_pages\<close> merges the freed range with its
  neighbours and keeps the free list sorted and free of adjacent blocks. The locale \<open>page_allocator\<close> is what
  the rest of the memory manager relies on.
\<close>

text \<open>What the loop of \<^verbatim>\<open>default_free_pages\<close> keeps: the blocks behind it do not touch the floating one.\<close>

definition detached :: "block list \<Rightarrow> nat \<Rightarrow> nat \<Rightarrow> bool" where
  "detached bs b n \<longleftrightarrow> (\<forall>c m. (c, m) \<in> set bs \<longrightarrow> c + m \<noteq> b \<and> b + n \<noteq> c)"

definition same_pages :: "pmm \<Rightarrow> block list \<Rightarrow> pmm \<Rightarrow> block list \<Rightarrow> bool" where
  "same_pages s bs s' bs' \<longleftrightarrow>
     block_pages bs' = block_pages bs \<and> sum_list (map snd bs') = sum_list (map snd bs) \<and>
     nr_free s' = nr_free s \<and> npage s' = npage s \<and>
     (\<forall>q. bit (flags (page_tab s' q)) 0 = bit (flags (page_tab s q)) 0)"

lemma same_pages_trans: "same_pages s bs s' bs' \<Longrightarrow> same_pages s' bs' s'' bs'' \<Longrightarrow> same_pages s bs s'' bs''"
  by (simp add: same_pages_def)

lemma free_loop_correct:
  assumes "blocks_inv s (ks @ rs) [(b, n)]" and "le = hd (block_links rs @ [Free_list])"
    and "length rs < k" and "detached ks b n"
  shows "\<exists>s' b' n' bs'. free_loop k s le b = Inr (s', b') \<and> blocks_inv s' bs' [(b', n')] \<and>
    detached bs' b' n' \<and> same_pages s (ks @ rs @ [(b, n)]) s' (bs' @ [(b', n')])"
  using assms
proof (induction rs arbitrary: s ks b n le k)
  case Nil
  then show ?case by (cases k) (auto simp: same_pages_def)
next
  case (Cons r rs)
  obtain p m where r: "r = (p, m)" by (cases r)
  obtain k' where k: "k = Suc k'" "length rs < k'" using Cons.prems(3) by (cases k) auto
  note inv = Cons.prems(1) [unfolded r]
  note D = blocks_invD [OF inv]
  have pm: "0 < m" "unat (property (page_tab s p)) = m" and bn: "0 < n" "unat (property (page_tab s b)) = n"
    using D(4) [of p m] D(4) [of b n] by auto
  have srt: "\<And>e i. (e, i) \<in> set ks \<Longrightarrow> e + i < p"
    using D(2) by (fastforce simp: sorted_wrt_append)
  have nx: "list_next (plinks s) (Page_link p) = hd (block_links rs @ [Free_list])"
    by (rule cl.nxt_elem [of _ _ "block_links ks"]) (use D(1) in simp)
  have le: "le = Page_link p" using Cons.prems(2) r by simp
  have det: "(e, i) \<in> set ks \<Longrightarrow> e + i \<noteq> b" for e i using Cons.prems(4) by (auto simp: detached_def)
  define merged where "merged a c t = (ClearPageProperty c
      (set_property a (property (page_tab s a) + property (page_tab s c)) s))
      \<lparr>plinks := list_del (plinks s) (Page_link t)\<rparr>" for a c t
  consider "b + n = p" | "p + m = b" "b + n \<noteq> p" | "b + n \<noteq> p" "p + m \<noteq> b" by blast
  then show ?case
  proof cases
    case 1
    have "blocks_inv (merged b p p) (ks @ rs) [(b, n + m)]"
      unfolding merged_def by (rule merge_inv [OF inv]) (use 1 in auto)
    moreover have "detached ks b (n + m)"
      using det srt 1 by (fastforce simp: detached_def)
    ultimately obtain s' b' n' bs' where IH: "free_loop k' (merged b p p) (hd (block_links rs @ [Free_list])) b = Inr (s', b')"
      "blocks_inv s' bs' [(b', n')]" "detached bs' b' n'"
      "same_pages (merged b p p) (ks @ rs @ [(b, n + m)]) s' (bs' @ [(b', n')])"
      using Cons.IH [OF _ refl k(2)] by blast
    have "free_loop k s le b = free_loop k' (merged b p p) (hd (block_links rs @ [Free_list])) b"
      using 1 bn pm by (simp add: k le nx merged_def Let_def page_ops)
    moreover have sp: "same_pages s (ks @ (r # rs) @ [(b, n)]) (merged b p p) (ks @ rs @ [(b, n + m)])"
    proof -
      have "{b..<b + (n + m)} = {b..<b + n} \<union> {p..<p + m}" using 1 by auto
      then show ?thesis unfolding same_pages_def r by (simp add: merged_def page_ops Un_ac del: bit_0)
    qed
    ultimately show ?thesis
      using IH(1,2,3) same_pages_trans [OF sp IH(4)] by (intro exI [of _ s'] exI [of _ b'] exI [of _ n'] exI [of _ bs']) simp
  next
    case 2
    have "blocks_inv (merged p b p) (ks @ rs) [(p, m + n)]"
      unfolding merged_def by (rule merge_inv [OF inv]) (use 2 in auto)
    moreover have "detached ks p (m + n)"
      using srt by (fastforce simp: detached_def)
    ultimately obtain s' b' n' bs' where IH: "free_loop k' (merged p b p) (hd (block_links rs @ [Free_list])) p = Inr (s', b')"
      "blocks_inv s' bs' [(b', n')]" "detached bs' b' n'"
      "same_pages (merged p b p) (ks @ rs @ [(p, m + n)]) s' (bs' @ [(b', n')])"
      using Cons.IH [OF _ refl k(2)] by blast
    have "free_loop k s le b = free_loop k' (merged p b p) (hd (block_links rs @ [Free_list])) p"
      using 2 bn pm by (simp add: k le nx merged_def Let_def page_ops)
    moreover have sp: "same_pages s (ks @ (r # rs) @ [(b, n)]) (merged p b p) (ks @ rs @ [(p, m + n)])"
    proof -
      have "{p..<p + (m + n)} = {p..<p + m} \<union> {b..<b + n}" using 2 by auto
      then show ?thesis unfolding same_pages_def r by (simp add: merged_def page_ops Un_ac del: bit_0)
    qed
    ultimately show ?thesis
      using IH(1,2,3) same_pages_trans [OF sp IH(4)] by (intro exI [of _ s'] exI [of _ b'] exI [of _ n'] exI [of _ bs']) simp
  next
    case 3
    have "detached (ks @ [r]) b n" using 3 Cons.prems(4) r by (auto simp: detached_def)
    moreover have "blocks_inv s ((ks @ [r]) @ rs) [(b, n)]" using inv r by simp
    ultimately obtain s' b' n' bs' where "free_loop k' s (hd (block_links rs @ [Free_list])) b = Inr (s', b')"
      "blocks_inv s' bs' [(b', n')]" "detached bs' b' n'"
      "same_pages s ((ks @ [r]) @ rs @ [(b, n)]) s' (bs' @ [(b', n')])"
      using Cons.IH [OF _ refl k(2)] by blast
    moreover have "free_loop k s le b = free_loop k' s (hd (block_links rs @ [Free_list])) b"
      using 3 bn pm by (simp add: k le nx Let_def)
    ultimately show ?thesis by auto
  qed
qed

text \<open>Putting the floating block back.\<close>

lemma insert_inv:
  assumes inv: "blocks_inv s (us @ vs) [(b, n)]"
    and u: "\<And>c m. (c, m) \<in> set us \<Longrightarrow> c + m < b" and v: "\<And>c m. (c, m) \<in> set vs \<Longrightarrow> b + n < c"
    and nd: "node = hd (block_links vs @ [Free_list])"
  shows "blocks_inv (s\<lparr>plinks := list_add_before (plinks s) node (Page_link b)\<rparr>) (us @ (b, n) # vs) []"
proof -
  note D = blocks_invD [OF inv]
  have "Page_link b \<notin> set (Free_list # block_links us @ block_links vs)"
    using u v D(4) [of b n] by fastforce
  then have c: "clist (list_add_before (plinks s) node (Page_link b)) Free_list (block_links (us @ (b, n) # vs))"
    using cl.rep_add_before [of "plinks s" Free_list "block_links us" "block_links vs" "Page_link b" node] D(1) nd
    by simp
  have "sorted_wrt before (us @ (b, n) # vs)"
    using D(2) u v by (fastforce simp: sorted_wrt_append)
  with c inv show ?thesis by (auto simp: blocks_inv_def)
qed

lemma list_add_loop_correct:
  assumes "blocks_inv s (xs @ ys) [(b, n)]" and "\<And>c m. (c, m) \<in> set xs \<Longrightarrow> c + m < b"
    and "detached ys b n" and "length ys < k" and "le = last (Free_list # block_links xs)"
  shows "\<exists>us vs h. xs @ ys = us @ vs \<and> list_add_loop k s le b = Inr (s\<lparr>plinks := h\<rparr>) \<and>
    blocks_inv (s\<lparr>plinks := h\<rparr>) (us @ (b, n) # vs) []"
  using assms
proof (induction ys arbitrary: xs k le)
  case Nil
  then obtain k' where "k = Suc k'" by (cases k) auto
  moreover have "list_next (plinks s) le = Free_list"
    using cl.rep_nxt [of "plinks s" Free_list "block_links xs" "[]"] Nil.prems(5) blocks_invD(1) [OF Nil.prems(1)]
    by simp
  ultimately have "list_add_loop k s le b =
      Inr (s\<lparr>plinks := list_add_before (plinks s) Free_list (Page_link b)\<rparr>)" by simp
  moreover have "blocks_inv (s\<lparr>plinks := list_add_before (plinks s) Free_list (Page_link b)\<rparr>) (xs @ (b, n) # []) []"
    using Nil.prems(1,2) by (intro insert_inv) auto
  ultimately show ?case by blast
next
  case (Cons y ys)
  obtain p m where y: "y = (p, m)" by (cases y)
  obtain k' where k: "k = Suc k'" "length ys < k'" using Cons.prems(4) by (cases k) auto
  note D = blocks_invD [OF Cons.prems(1)]
  have nx: "list_next (plinks s) le = Page_link p"
    using cl.rep_nxt [of "plinks s" Free_list "block_links xs" "block_links (y # ys)"] D(1) Cons.prems(5) y
    by simp
  have pm: "0 < m" "unat (property (page_tab s p)) = m" and bn: "0 < n" "unat (property (page_tab s b)) = n"
    using D(4) [of p m] D(4) [of b n] y by auto
  have ap: "b + n \<le> p \<or> p + m \<le> b" using Cons.prems(1) y by (auto simp: blocks_inv_def)
  have det: "p + m \<noteq> b" "b + n \<noteq> p" "detached ys b n" using Cons.prems(3) y by (auto simp: detached_def)
  have after: "\<And>c i. (c, i) \<in> set ys \<Longrightarrow> p + m < c"
    using D(2) y by (fastforce simp: sorted_wrt_append)
  show ?case
  proof (cases "b < p")
    case True
    then have lt: "b + n < p" using ap det pm(1) by auto
    have "blocks_inv (s\<lparr>plinks := list_add_before (plinks s) (Page_link p) (Page_link b)\<rparr>)
        (xs @ (b, n) # y # ys) []"
      using Cons.prems(1,2) lt after y by (intro insert_inv) fastforce+
    moreover have "list_add_loop k s le b =
        Inr (s\<lparr>plinks := list_add_before (plinks s) (Page_link p) (Page_link b)\<rparr>)"
      using True lt bn by (simp add: k nx guardE_def)
    ultimately show ?thesis by blast
  next
    case False
    then have lt: "p + m < b" using ap det bn(1) by auto
    have "\<exists>us vs h. (xs @ [y]) @ ys = us @ vs \<and> list_add_loop k' s (Page_link p) b = Inr (s\<lparr>plinks := h\<rparr>) \<and>
        blocks_inv (s\<lparr>plinks := h\<rparr>) (us @ (b, n) # vs) []"
      by (rule Cons.IH) (use Cons.prems(1,2) lt y det k in auto)
    moreover have "list_add_loop k s le b = list_add_loop k' s (Page_link p) b"
      using False lt pm by (simp add: k nx guardE_def)
    ultimately show ?thesis by auto
  qed
qed

lemma default_list_add_correct:
  assumes inv: "blocks_inv s bs [(b, n)]" and "detached bs b n"
    and nf: "unat (nr_free s) = sum_list (map snd bs) + n"
  shows "\<exists>s' bs'. default_list_add s Free_list b = Inr s' \<and> pmm_inv s' bs' \<and>
    block_pages bs' = block_pages bs \<union> {b..<b + n} \<and> npage s' = npage s \<and> page_tab s' = page_tab s"
proof -
  have "length bs < npage s + 1" using blocks_inv_fit(2) [OF inv] by simp
  from list_add_loop_correct [of s "[]" bs b n "npage s + 1" Free_list] this assms
  obtain us vs h where r: "bs = us @ vs" "list_add_loop (npage s + 1) s Free_list b = Inr (s\<lparr>plinks := h\<rparr>)"
    "blocks_inv (s\<lparr>plinks := h\<rparr>) (us @ (b, n) # vs) []" by auto
  then have "pmm_inv (s\<lparr>plinks := h\<rparr>) (us @ (b, n) # vs)" using nf by (simp add: pmm_inv_def)
  moreover have "default_list_add s Free_list b = Inr (s\<lparr>plinks := h\<rparr>)"
    using r(2) by (simp add: default_list_add_def guardE_def)
  moreover have "block_pages (us @ (b, n) # vs) = block_pages bs \<union> {b..<b + n}" using r(1) by auto
  ultimately show ?thesis by force
qed

lemma free_prepare_correct:
  "\<forall>q. b \<le> q \<and> q < b + k \<longrightarrow> \<not> PageReserved s q \<and> \<not> PageProperty s q \<Longrightarrow>
   free_prepare k b s = Inr (s\<lparr>page_tab := \<lambda>q. if b \<le> q \<and> q < b + k
     then (page_tab s q)\<lparr>ref := 0, flags := 0\<rparr> else page_tab s q\<rparr>)"
proof (induction k arbitrary: b s)
  case 0
  have "(\<lambda>q. if b \<le> q \<and> q < b + 0 then (page_tab s q)\<lparr>ref := 0, flags := 0\<rparr> else page_tab s q) = page_tab s"
    by (rule ext) auto
  then show ?case by simp
next
  case (Suc k)
  let ?s = "set_page_ref b 0 (set_flags b 0 s)"
  have "free_prepare k (Suc b) ?s = Inr (?s\<lparr>page_tab := \<lambda>q. if Suc b \<le> q \<and> q < Suc b + k
     then (page_tab ?s q)\<lparr>ref := 0, flags := 0\<rparr> else page_tab ?s q\<rparr>)"
    by (rule Suc.IH) (use Suc.prems in \<open>auto simp: page_ops\<close>)
  also have "?s\<lparr>page_tab := \<lambda>q. if Suc b \<le> q \<and> q < Suc b + k
     then (page_tab ?s q)\<lparr>ref := 0, flags := 0\<rparr> else page_tab ?s q\<rparr> =
    s\<lparr>page_tab := \<lambda>q. if b \<le> q \<and> q < b + Suc k then (page_tab s q)\<lparr>ref := 0, flags := 0\<rparr> else page_tab s q\<rparr>"
    by (auto simp: page_ops upd_page_def fun_eq_iff)
  finally show ?case using Suc.prems by (simp add: guardE_def)
qed

lemma block_pagesI: "(c, m) \<in> set bs \<Longrightarrow> c \<le> q \<Longrightarrow> q < c + m \<Longrightarrow> q \<in> block_pages bs"
  unfolding block_pages_def by force

lemma block_heads: "blocks_inv s bs fl \<Longrightarrow> q \<in> fst ` set bs \<Longrightarrow> q \<in> block_pages bs"
  using blocks_invD(4) [of s bs fl] by (force intro: block_pagesI)

definition usable_pages :: "pmm \<Rightarrow> nat set" where
  "usable_pages s = {q. q < npage s \<and> \<not> PageReserved s q}"

lemma float_fit:
  assumes "blocks_inv s bs [(b, n)]" "detached bs b n"
  shows "sum_list (map snd bs) + n \<le> npage s"
proof -
  have "\<exists>us vs h. bs = us @ vs \<and> list_add_loop (npage s + 1) s Free_list b = Inr (s\<lparr>plinks := h\<rparr>) \<and>
      blocks_inv (s\<lparr>plinks := h\<rparr>) (us @ (b, n) # vs) []"
    using list_add_loop_correct [of s "[]" bs b n "npage s + 1" Free_list] assms
      blocks_inv_fit(2) [OF assms(1)] by auto
  then obtain us vs h where "bs = us @ vs" "blocks_inv (s\<lparr>plinks := h\<rparr>) (us @ (b, n) # vs) []" by blast
  from blocks_inv_fit(1) [OF this(2)] this(1) show ?thesis by simp
qed

lemma freed_block_inv:
  assumes inv: "blocks_inv s bs []" and n: "0 < n" "b + unat n \<le> npage s"
    and dis: "{b..<b + unat n} \<inter> block_pages bs = {}"
    and tab: "\<And>q. page_tab s' q = (if q = b then (page_tab s b)\<lparr>ref := 0, flags := 2, property := n\<rparr>
        else if b < q \<and> q < b + unat n then g q else page_tab s q)"
      "\<And>q. flags (g q) = 0"
    and same: "plinks s' = plinks s" "npage s' = npage s"
  shows "blocks_inv s' bs [(b, unat n)]"
proof -
  note D = blocks_invD [OF inv]
  have n0: "0 < unat n" using n(1) by (simp add: word_less_nat_alt)
  have out: "c + m \<le> b \<or> b + unat n \<le> c" if "(c, m) \<in> set bs" for c m
  proof (rule ccontr)
    assume "\<not> ?thesis"
    then have "max b c \<in> {b..<b + unat n}" "max b c \<in> {c..<c + m}"
      using n0 D(4) [of c m] that by auto
    with dis block_pagesI [OF that] show False by fastforce
  qed
  have notin: "q \<notin> block_pages bs" if "b \<le> q" "q < b + unat n" for q using dis that by auto
  have "0 < m \<and> unat (property (page_tab s' c)) = m \<and> c + m \<le> npage s'"
    if "(c, m) \<in> set (bs @ [(b, unat n)])" for c m
    using that D(4) [of c m] out [of c m] n0 n(2) by (auto simp: tab(1) same)
  moreover have "bit (flags (page_tab s' q)) 1 \<longleftrightarrow> q \<in> fst ` set (bs @ [(b, unat n)])" if "q < npage s" for q
  proof -
    have "q \<notin> fst ` set bs" if "b \<le> q" "q < b + unat n" for q
      using notin that block_heads [OF inv] by blast
    moreover have "bit (2 :: u32) 1" by (simp add: bit_numeral_rec)
    ultimately show ?thesis using D(5) [OF that] by (simp add: tab)
  qed
  moreover have "\<not> bit (flags (page_tab s' q)) 0" if "q \<in> block_pages (bs @ [(b, unat n)])" for q
    using that D(6) [of q] by (auto simp: tab)
  ultimately show ?thesis
    using D(1,2,3) by (auto simp: blocks_inv_def same dest: out)
qed

lemma default_free_pages_correct:
  assumes inv: "pmm_inv s bs" and n: "0 < n" "b + unat n \<le> npage s"
    and dis: "{b..<b + unat n} \<inter> block_pages bs = {}"
    and res: "{b..<b + unat n} \<subseteq> usable_pages s"
  shows "\<exists>s' bs'. default_free_pages s b n = Inr s' \<and> pmm_inv s' bs' \<and>
    block_pages bs' = block_pages bs \<union> {b..<b + unat n} \<and> usable_pages s' = usable_pages s"
proof -
  from inv have bi: "blocks_inv s bs []" and nf: "unat (nr_free s) = sum_list (map snd bs)"
    by (simp_all add: pmm_inv_def)
  have "\<not> PageProperty s q" if "b \<le> q" "q < b + unat n" for q
    using that dis n(2) blocks_invD(5) [OF bi, of q] block_heads [OF bi, of q] by force
  then have prep: "free_prepare (unat n) b s = Inr (s\<lparr>page_tab := \<lambda>q. if b \<le> q \<and> q < b + unat n
     then (page_tab s q)\<lparr>ref := 0, flags := 0\<rparr> else page_tab s q\<rparr>)" (is "_ = Inr ?s0")
    using res by (intro free_prepare_correct) (auto simp: usable_pages_def)
  define s1 where "s1 = SetPageProperty b (set_property b n ?s0)"
  have n0: "0 < unat n" using n(1) by (simp add: word_less_nat_alt)
  have b1: "blocks_inv s1 bs [(b, unat n)]"
    by (rule freed_block_inv [OF bi n dis, where g = "\<lambda>q. (page_tab s q)\<lparr>ref := 0, flags := 0\<rparr>"])
      (use n0 in \<open>auto simp: s1_def page_ops set_bit_w_def\<close>)
  have nx: "list_next (plinks s1) Free_list = hd (block_links bs @ [Free_list])"
    by (rule cl.nxt_head [OF blocks_invD(1) [OF b1]])
  have len: "length bs < npage s1 + 1" using blocks_inv_fit(2) [OF b1] by simp
  have "detached [] b (unat n)" by (simp add: detached_def)
  from free_loop_correct [of s1 "[]", unfolded append_Nil, OF b1 nx len this] obtain s2 b2 n2 bs2 where s2: "free_loop (npage s1 + 1) s1 (list_next (plinks s1) Free_list) b = Inr (s2, b2)"
      "blocks_inv s2 bs2 [(b2, n2)]" "detached bs2 b2 n2" "same_pages s1 (bs @ [(b, unat n)]) s2 (bs2 @ [(b2, n2)])"
    by blast
  define s3 where "s3 = s2\<lparr>nr_free := nr_free s2 + n\<rparr>"
  have b3: "blocks_inv s3 bs2 [(b2, n2)]" using s2(2) by (simp add: blocks_inv_def s3_def)
  have f1: "nr_free s1 = nr_free s" "npage s1 = npage s" by (simp_all add: s1_def page_ops)
  have le: "sum_list (map snd bs) + unat n \<le> npage s"
    using float_fit [OF s2(2,3)] s2(4) f1 by (simp add: same_pages_def)
  have "unat (nr_free s3) = sum_list (map snd bs2) + n2"
    using s2(4) f1 nf le blocks_invD(3) [OF bi]
    by (simp add: s3_def same_pages_def unat_word_ariths)
  from default_list_add_correct [OF b3 s2(3) this] obtain s' bs' where
    "default_list_add s3 Free_list b2 = Inr s'" "pmm_inv s' bs'"
    "block_pages bs' = block_pages bs2 \<union> {b2..<b2 + n2}" "npage s' = npage s3" "page_tab s' = page_tab s3" by blast
  moreover have "default_free_pages s b n = default_list_add s3 Free_list b2"
    using n(1) prep s2(1) by (simp add: default_free_pages_def guardE_def Let_def s1_def s3_def)
  moreover have "npage s3 = npage s" "block_pages bs2 \<union> {b2..<b2 + n2} = block_pages bs \<union> {b..<b + unat n}"
    using s2(4) f1 by (simp_all add: same_pages_def s3_def)
  moreover have "bit (flags (page_tab s1 q)) 0 = bit (flags (page_tab s q)) 0" for q
  proof -
    have "\<not> bit (flags (page_tab s q)) 0" if "b \<le> q" "q < b + unat n"
    proof -
      have "q \<in> usable_pages s" using res that by auto
      then show ?thesis by (simp add: usable_pages_def del: bit_0)
    qed
    with n0 show ?thesis by (auto simp: s1_def page_ops simp del: bit_0)
  qed
  then have "bit (flags (page_tab s3 q)) 0 = bit (flags (page_tab s q)) 0" for q
    using s2(4) by (simp add: same_pages_def s3_def del: bit_0)
  ultimately show ?thesis by (auto simp: usable_pages_def simp del: bit_0)
qed

section \<open>Building the free list\<close>

lemma memmap_loop_correct:
  "\<forall>q. b \<le> q \<and> q < b + k \<longrightarrow> PageReserved s q \<Longrightarrow>
   memmap_loop k b s = Inr (s\<lparr>page_tab := \<lambda>q. if b \<le> q \<and> q < b + k
     then (page_tab s q)\<lparr>ref := 0, flags := 0, property := 0\<rparr> else page_tab s q\<rparr>)"
proof (induction k arbitrary: b s)
  case 0
  have "(\<lambda>q. if b \<le> q \<and> q < b + 0 then (page_tab s q)\<lparr>ref := 0, flags := 0, property := 0\<rparr>
      else page_tab s q) = page_tab s"
    by (rule ext) auto
  then show ?case by simp
next
  case (Suc k)
  let ?s = "set_page_ref b 0 (set_flags b 0 (set_property b 0 s))"
  have "memmap_loop k (Suc b) ?s = Inr (?s\<lparr>page_tab := \<lambda>q. if Suc b \<le> q \<and> q < Suc b + k
     then (page_tab ?s q)\<lparr>ref := 0, flags := 0, property := 0\<rparr> else page_tab ?s q\<rparr>)"
    by (rule Suc.IH) (use Suc.prems in \<open>auto simp: page_ops\<close>)
  also have "?s\<lparr>page_tab := \<lambda>q. if Suc b \<le> q \<and> q < Suc b + k
     then (page_tab ?s q)\<lparr>ref := 0, flags := 0, property := 0\<rparr> else page_tab ?s q\<rparr> =
    s\<lparr>page_tab := \<lambda>q. if b \<le> q \<and> q < b + Suc k
     then (page_tab s q)\<lparr>ref := 0, flags := 0, property := 0\<rparr> else page_tab s q\<rparr>"
    by (auto simp: page_ops upd_page_def fun_eq_iff)
  finally show ?case using Suc.prems by (simp add: guardE_def)
qed

lemma default_init_memmap_correct:
  assumes inv: "pmm_inv s bs" and n: "0 < n" "b + unat n \<le> npage s"
    and dis: "{b..<b + unat n} \<inter> block_pages bs = {}" and det: "detached bs b (unat n)"
    and res: "\<forall>q \<in> {b..<b + unat n}. PageReserved s q"
  shows "\<exists>s' bs'. default_init_memmap s b n = Inr s' \<and> pmm_inv s' bs' \<and>
    block_pages bs' = block_pages bs \<union> {b..<b + unat n} \<and> npage s' = npage s"
proof -
  from inv have bi: "blocks_inv s bs []" and nf: "unat (nr_free s) = sum_list (map snd bs)"
    by (simp_all add: pmm_inv_def)
  let ?s0 = "s\<lparr>page_tab := \<lambda>q. if b \<le> q \<and> q < b + unat n
     then (page_tab s q)\<lparr>ref := 0, flags := 0, property := 0\<rparr> else page_tab s q\<rparr>"
  have mm: "memmap_loop (unat n) b s = Inr ?s0"
    using res by (intro memmap_loop_correct) auto
  define s1 where "s1 = (SetPageProperty b (set_property b n ?s0))\<lparr>nr_free := nr_free s + n\<rparr>"
  have n0: "0 < unat n" using n(1) by (simp add: word_less_nat_alt)
  have b1: "blocks_inv s1 bs [(b, unat n)]"
    by (rule freed_block_inv [OF bi n dis, where g = "\<lambda>q. (page_tab s q)\<lparr>ref := 0, flags := 0, property := 0\<rparr>"])
      (use n0 in \<open>auto simp: s1_def page_ops set_bit_w_def\<close>)
  have np: "npage s1 = npage s" by (simp add: s1_def page_ops)
  have "unat (nr_free s1) = sum_list (map snd bs) + unat n"
    using nf float_fit [OF b1 det] blocks_invD(3) [OF bi] np
    by (simp add: s1_def unat_word_ariths)
  from default_list_add_correct [OF b1 det this] obtain s' bs' where
    "default_list_add s1 Free_list b = Inr s'" "pmm_inv s' bs'"
    "block_pages bs' = block_pages bs \<union> {b..<b + unat n}" "npage s' = npage s" using np by auto
  moreover have "default_init_memmap s b n = default_list_add s1 Free_list b"
    using n(1) mm by (simp add: default_init_memmap_def guardE_def Let_def s1_def page_ops)
  ultimately show ?thesis by auto
qed

lemma default_init_correct:
  assumes "npage s < 2 ^ 32" "\<forall>p < npage s. \<not> PageProperty s p"
  shows "pmm_inv (default_init s) []"
  using assms by (simp add: pmm_inv_def blocks_inv_def default_init_def clist_list_init [unfolded clist_nil])

section \<open>The contract\<close>

locale page_allocator =
  fixes alloc :: "'s \<Rightarrow> u32 \<Rightarrow> 'e + ('s \<times> nat option)"
    and free :: "'s \<Rightarrow> nat \<Rightarrow> u32 \<Rightarrow> 'e + 's"
    and free_set :: "'s \<Rightarrow> nat set \<Rightarrow> bool"
    and usable :: "'s \<Rightarrow> nat set"
  assumes alloc_law: "free_set s F \<Longrightarrow> 0 < n \<Longrightarrow> \<exists>s' r. alloc s n = Inr (s', r) \<and> usable s' = usable s \<and>
      (case r of None \<Rightarrow> free_set s' F
       | Some p \<Rightarrow> {p..<p + unat n} \<subseteq> F \<and> free_set s' (F - {p..<p + unat n}))"
    and free_law: "\<lbrakk>free_set s F; 0 < n; {p..<p + unat n} \<subseteq> usable s; {p..<p + unat n} \<inter> F = {}\<rbrakk>
      \<Longrightarrow> \<exists>s'. free s p n = Inr s' \<and> usable s' = usable s \<and> free_set s' (F \<union> {p..<p + unat n})"
    and usable_law: "free_set s F \<Longrightarrow> F \<subseteq> usable s"
begin

lemma alloc_some:
  assumes "free_set s F" "0 < n" "alloc s n = Inr (s', Some p)"
  shows "{p..<p + unat n} \<subseteq> F" "free_set s' (F - {p..<p + unat n})" "usable s' = usable s"
  using alloc_law [OF assms(1,2)] assms(3) by auto

lemma alloc_then_free:
  assumes "free_set s F" "0 < n" "alloc s n = Inr (s', Some p)"
  shows "\<exists>s''. free s' p n = Inr s'' \<and> free_set s'' F \<and> usable s'' = usable s"
proof -
  note a = alloc_some [OF assms]
  have "{p..<p + unat n} \<subseteq> usable s'" using a(1,3) usable_law [OF assms(1)] by auto
  from free_law [OF a(2) assms(2) this] a(1,3) show ?thesis by (auto simp: Un_absorb2 sup.commute)
qed

lemma allocs_disjoint:
  assumes "free_set s F" "0 < n" "alloc s n = Inr (s1, Some p)" "0 < k" "alloc s1 k = Inr (s2, Some q)"
  shows "{p..<p + unat n} \<inter> {q..<q + unat k} = {}"
  using alloc_some [OF assms(1-3)] alloc_some(1) [OF _ assms(4,5)] by blast

end

lemma take_block_usable: "usable_pages (take_block p n s) = usable_pages s"
  by (auto simp: usable_pages_def take_block_def Let_def page_ops simp del: bit_0)

interpretation default_pmm: page_allocator default_alloc_pages default_free_pages
  "\<lambda>s F. \<exists>bs. pmm_inv s bs \<and> block_pages bs = F" usable_pages
proof unfold_locales
  fix s F and n :: u32
  assume "\<exists>bs. pmm_inv s bs \<and> block_pages bs = F" and n: "0 < n"
  then obtain bs where bs: "pmm_inv s bs" "block_pages bs = F" by blast
  have srt: "sorted_wrt before bs" using bs(1) by (simp add: pmm_inv_def blocks_inv_def)
  have n0: "0 < unat n" using n by (simp add: word_less_nat_alt)
  show "\<exists>s' r. default_alloc_pages s n = Inr (s', r) \<and> usable_pages s' = usable_pages s \<and>
      (case r of None \<Rightarrow> \<exists>bs. pmm_inv s' bs \<and> block_pages bs = F
       | Some p \<Rightarrow> {p..<p + unat n} \<subseteq> F \<and> (\<exists>bs. pmm_inv s' bs \<and> block_pages bs = F - {p..<p + unat n}))"
  proof (cases "first_fit (unat n) bs")
    case None
    with default_alloc_first_fit [OF bs(1) n] bs show ?thesis by auto
  next
    case (Some r)
    then obtain p bs' where r: "first_fit (unat n) bs = Some (p, bs')" by (cases r) auto
    with default_alloc_first_fit [OF bs(1) n] first_fit_pages [OF r srt n0] bs(2) show ?thesis
      by (auto simp: take_block_usable)
  qed
next
  fix s F p and n :: u32
  assume "\<exists>bs. pmm_inv s bs \<and> block_pages bs = F" and n: "0 < n"
    and u: "{p..<p + unat n} \<subseteq> usable_pages s" and d: "{p..<p + unat n} \<inter> F = {}"
  then obtain bs where bs: "pmm_inv s bs" "block_pages bs = F" by blast
  have "0 < unat n" using n by (simp add: word_less_nat_alt)
  then have "p + unat n - 1 \<in> {p..<p + unat n}" by simp
  with u have "p + unat n - 1 < npage s" by (force simp: usable_pages_def)
  then have "p + unat n \<le> npage s" by simp
  from default_free_pages_correct [OF bs(1) n this _ u] d bs(2)
  show "\<exists>s'. default_free_pages s p n = Inr s' \<and> usable_pages s' = usable_pages s \<and>
      (\<exists>bs. pmm_inv s' bs \<and> block_pages bs = F \<union> {p..<p + unat n})" by blast
next
  fix s F
  assume "\<exists>bs. pmm_inv s bs \<and> block_pages bs = F"
  then obtain bs where bs: "blocks_inv s bs []" "block_pages bs = F" by (auto simp: pmm_inv_def)
  note D = blocks_invD(4,6) [OF bs(1)]
  have "q < npage s" if "q \<in> block_pages bs" for q
    using that D(1) by (fastforce simp: block_pages_def)
  with D(2) bs(2) show "F \<subseteq> usable_pages s" by (auto simp: usable_pages_def simp del: bit_0)
qed

section \<open>Properties\<close>

definition mm8 :: pmm where
  "mm8 = \<lparr>page_tab = (\<lambda>_. \<lparr>ref = 0, flags = 0, property = 0\<rparr>)(0 := \<lparr>ref = 0, flags = 2, property = 8\<rparr>),
     plinks = \<lparr>prev_of = (\<lambda>_. Free_list)(Free_list := Page_link 0),
               next_of = (\<lambda>_. Free_list)(Free_list := Page_link 0)\<rparr>,
     nr_free = 8, npage = 8\<rparr>"

lemma mm8_inv: "pmm_inv mm8 [(0, 8)]"
  by (auto simp: pmm_inv_def blocks_inv_def mm8_def clist_def bit_numeral_rec)

text \<open>
  C18. \<^verbatim>\<open>default_alloc_pages\<close> is first fit. It never fails an assertion; it returns no page exactly when no free
  block is large enough, and then changes nothing. Otherwise it returns the first page of the first block
  that is large enough: the returned pages were free, exactly they are no longer free, and the free list
  and its counter are again consistent.
\<close>

theorem alloc_pages_first_fit:
  assumes "pmm_inv s bs" and "0 < n"
  shows "case first_fit (unat n) bs of
      None \<Rightarrow> default_alloc_pages s n = Inr (s, None) \<and> (\<forall>b m. (b, m) \<in> set bs \<longrightarrow> m < unat n)
    | Some (p, bs') \<Rightarrow> \<exists>s'. default_alloc_pages s n = Inr (s', Some p) \<and> pmm_inv s' bs' \<and>
        {p..<p + unat n} \<subseteq> block_pages bs \<and> block_pages bs' = block_pages bs - {p..<p + unat n}"
proof -
  have srt: "sorted_wrt before bs" using assms(1) by (simp add: pmm_inv_def blocks_inv_def)
  have n0: "0 < unat n" using assms(2) by (simp add: word_less_nat_alt)
  show ?thesis
  proof (cases "first_fit (unat n) bs")
    case None
    with default_alloc_first_fit [OF assms] first_fit_None [of "unat n" bs] show ?thesis by auto
  next
    case (Some r)
    then obtain p bs' where r: "first_fit (unat n) bs = Some (p, bs')" by (cases r) auto
    with default_alloc_first_fit [OF assms] first_fit_pages [OF r srt n0] show ?thesis by auto
  qed
qed

theorem alloc_pages_first_fit_witness:
  "\<exists>s'. default_alloc_pages mm8 3 = Inr (s', Some 0) \<and> pmm_inv s' [(3, 5)]"
  using alloc_pages_first_fit [OF mm8_inv, of 3] by auto

text \<open>
  C17. \<^verbatim>\<open>default_free_pages\<close> on pages that are neither free nor reserved passes all its assertions, its walk
  over the free list ends, exactly the given pages become free, and the free list is sorted by address with
  no two adjacent blocks: the freed range has been merged with both neighbours.
\<close>

theorem free_pages_coalesces:
  assumes "pmm_inv s bs" and "0 < n" and "{b..<b + unat n} \<subseteq> usable_pages s"
    and "{b..<b + unat n} \<inter> block_pages bs = {}"
  shows "\<exists>s' bs'. default_free_pages s b n = Inr s' \<and> pmm_inv s' bs' \<and> sorted_wrt before bs' \<and>
    block_pages bs' = block_pages bs \<union> {b..<b + unat n}"
proof -
  have "\<exists>s'. default_free_pages s b n = Inr s' \<and> usable_pages s' = usable_pages s \<and>
      (\<exists>bs'. pmm_inv s' bs' \<and> block_pages bs' = block_pages bs \<union> {b..<b + unat n})"
    by (rule default_pmm.free_law) (use assms in auto)
  then show ?thesis by (auto simp: pmm_inv_def blocks_inv_def)
qed

definition mm8_taken :: pmm where
  "mm8_taken = take_block 0 3 mm8"

theorem free_pages_coalesces_witness:
  "\<exists>s' bs'. default_free_pages mm8_taken 0 3 = Inr s' \<and> pmm_inv s' bs' \<and> sorted_wrt before bs' \<and>
     block_pages bs' = {0..<8}"
proof -
  have inv: "pmm_inv mm8_taken [(3, 5)]"
    using default_alloc_first_fit [OF mm8_inv, of 3] by (simp add: mm8_taken_def)
  have "{0..<0 + unat (3 :: u32)} \<subseteq> usable_pages mm8_taken"
    unfolding mm8_taken_def take_block_usable by (auto simp: usable_pages_def mm8_def)
  moreover have "block_pages [(3, 5)] \<union> {0..<0 + unat (3 :: u32)} = {0..<8}" by auto
  ultimately show ?thesis
    using free_pages_coalesces [OF inv, of 3 0] by (simp add: Un_commute)
qed

text \<open>
  Allocating pages and freeing them again leaves the same set of pages free.
\<close>

theorem alloc_free_roundtrip:
  assumes "pmm_inv s bs" and "0 < n" and "default_alloc_pages s n = Inr (s', Some p)"
  shows "\<exists>s'' bs''. default_free_pages s' p n = Inr s'' \<and> pmm_inv s'' bs'' \<and> block_pages bs'' = block_pages bs"
  using default_pmm.alloc_then_free [OF _ assms(2,3), of "block_pages bs"] assms(1) by blast

theorem alloc_free_roundtrip_witness:
  "\<exists>s'' bs''. default_free_pages mm8_taken 0 3 = Inr s'' \<and> pmm_inv s'' bs'' \<and> block_pages bs'' = {0..<8}"
proof -
  have "default_alloc_pages mm8 3 = Inr (mm8_taken, Some 0)"
    using default_alloc_first_fit [OF mm8_inv, of 3] by (simp add: mm8_taken_def)
  from alloc_free_roundtrip [OF mm8_inv _ this] show ?thesis by simp
qed

end
