(* ===== verification/Bitmap.thy ===== *)
theory Bitmap
  imports Kernlib
begin

text \<open>
  The bitmap that records which disk blocks are free (\<^verbatim>\<open>kern/fs/sfs/bitmap.c\<close>); a set bit is a free
  block. \<^verbatim>\<open>bitmap_create\<close> takes the outcome of its two calls of \<^verbatim>\<open>kmalloc\<close> as arguments. The abstract view
  is the set \<open>bm_free\<close> of free indices; the locale \<open>index_allocator\<close> is the contract the file system relies on.
\<close>

section \<open>Operations\<close>

record bitmap =
  nbits :: u32
  nwords :: u32
  bmap :: "u32 list"

abbreviation (input) WORD_BITS :: nat where "WORD_BITS \<equiv> 32"

function overbits_loop :: "u32 list \<Rightarrow> nat \<Rightarrow> nat \<Rightarrow> u32 list" where
  "overbits_loop m ix overbits =
     (if overbits < WORD_BITS
      then overbits_loop (m[ix := m ! ix XOR push_bit overbits 1]) ix (overbits + 1) else m)"
  by pat_completeness auto
termination by (relation "measure (\<lambda>(m, ix, k). WORD_BITS - k)") auto

declare overbits_loop.simps [simp del]

definition bitmap_create :: "u32 \<Rightarrow> bool \<Rightarrow> bool \<Rightarrow> kpanic + bitmap option" where
  "bitmap_create n struct_ok map_ok =
     bindE (assertE (n \<noteq> 0 \<and> n + of_nat WORD_BITS > n)) (\<lambda>_.
     if \<not> struct_ok then Inr None
     else
       (let nw = ROUNDUP_DIV n (of_nat WORD_BITS) in
        if \<not> map_ok then Inr None
        else
          (let m = replicate (unat nw) 0xFFFFFFFF in
           if n \<noteq> nw * of_nat WORD_BITS then
             (let ix = nw - 1; overbits = n - ix * of_nat WORD_BITS in
              bindE (assertE (n div of_nat WORD_BITS = ix)) (\<lambda>_.
              bindE (assertE (overbits > 0 \<and> overbits < of_nat WORD_BITS)) (\<lambda>_.
              Inr (Some \<lparr>nbits = n, nwords = nw, bmap = overbits_loop m (unat ix) (unat overbits)\<rparr>))))
           else Inr (Some \<lparr>nbits = n, nwords = nw, bmap = m\<rparr>))))"

function find_offset :: "u32 \<Rightarrow> nat \<Rightarrow> nat option" where
  "find_offset w offset =
     (if offset < WORD_BITS
      then if w AND push_bit offset 1 \<noteq> 0 then Some offset else find_offset w (offset + 1)
      else None)"
  by pat_completeness auto
termination by (relation "measure (\<lambda>(w, k). WORD_BITS - k)") auto

declare find_offset.simps [simp del]

function alloc_loop :: "u32 list \<Rightarrow> nat \<Rightarrow> nat \<Rightarrow> kpanic + (u32 list \<times> u32) option" where
  "alloc_loop m nw ix =
     (if ix < nw then
        if m ! ix \<noteq> 0 then
          (case find_offset (m ! ix) 0 of
             Some offset \<Rightarrow>
               Inr (Some (m[ix := m ! ix XOR push_bit offset 1],
                          of_nat ix * of_nat WORD_BITS + of_nat offset))
           | None \<Rightarrow> Inl Assert_failed)
        else alloc_loop m nw (ix + 1)
      else Inr None)"
  by pat_completeness auto
termination by (relation "measure (\<lambda>(m, nw, ix). nw - ix)") auto

declare alloc_loop.simps [simp del]

text \<open>The result is the return code and, when it is 0, the value of \<^verbatim>\<open>*index_store\<close>.\<close>

definition bitmap_alloc :: "bitmap \<Rightarrow> kpanic + (bitmap \<times> int \<times> u32 option)" where
  "bitmap_alloc b =
     bindE (alloc_loop (bmap b) (unat (nwords b)) 0) (\<lambda>r.
       case r of
         Some (m, index) \<Rightarrow> Inr (b\<lparr>bmap := m\<rparr>, 0, Some index)
       | None \<Rightarrow> Inr (b, - E_NO_MEM, None))"

definition bitmap_translate :: "bitmap \<Rightarrow> u32 \<Rightarrow> kpanic + (nat \<times> u32)" where
  "bitmap_translate b index =
     bindE (assertE (index < nbits b)) (\<lambda>_.
       let ix = index div of_nat WORD_BITS; offset = index mod of_nat WORD_BITS
       in Inr (unat ix, push_bit (unat offset) 1))"

definition bitmap_test :: "bitmap \<Rightarrow> u32 \<Rightarrow> kpanic + bool" where
  "bitmap_test b index =
     bindE (bitmap_translate b index) (\<lambda>(ix, mask). Inr (bmap b ! ix AND mask \<noteq> 0))"

definition bitmap_free :: "bitmap \<Rightarrow> u32 \<Rightarrow> kpanic + bitmap" where
  "bitmap_free b index =
     bindE (bitmap_translate b index) (\<lambda>(ix, mask).
     bindE (assertE (bmap b ! ix AND mask = 0)) (\<lambda>_.
     Inr (b\<lparr>bmap := (bmap b)[ix := bmap b ! ix OR mask]\<rparr>)))"

definition bitmap_getdata :: "bitmap \<Rightarrow> u32 list \<times> u32" where
  "bitmap_getdata b = (bmap b, 4 * nwords b)"

section \<open>The set of free indices\<close>

definition free_bit :: "u32 list \<Rightarrow> nat \<Rightarrow> bool" where
  "free_bit m i \<longleftrightarrow> bit (m ! (i div WORD_BITS)) (i mod WORD_BITS)"

definition bm_free :: "bitmap \<Rightarrow> nat set" where
  "bm_free b = {i. i < unat (nbits b) \<and> free_bit (bmap b) i}"

definition bitmap_wf :: "bitmap \<Rightarrow> bool" where
  "bitmap_wf b \<longleftrightarrow>
     length (bmap b) = unat (nwords b) \<and> unat (nwords b) * WORD_BITS < unat (nbits b) + WORD_BITS \<and>
     unat (nbits b) \<le> unat (nwords b) * WORD_BITS \<and> unat (nbits b) + WORD_BITS < 2 ^ 32 \<and>
     (\<forall>i. unat (nbits b) \<le> i \<and> i < unat (nwords b) * WORD_BITS \<longrightarrow> \<not> free_bit (bmap b) i)"

lemma free_bit_update:
  assumes "ix < length m" "off < WORD_BITS"
  shows "free_bit (m[ix := w]) i \<longleftrightarrow> (if i div WORD_BITS = ix then bit w (i mod WORD_BITS) else free_bit m i)"
  using assms by (auto simp: free_bit_def nth_list_update)

lemma div_mod_index: "i div WORD_BITS = ix \<and> i mod WORD_BITS = off \<longleftrightarrow> i = ix * WORD_BITS + off \<and> off < WORD_BITS"
  by (auto simp: div_mult_mod_eq)

lemma find_offset_None: "k \<le> 32 \<Longrightarrow> find_offset w k = None \<Longrightarrow> \<forall>j. k \<le> j \<and> j < 32 \<longrightarrow> \<not> bit w j"
proof (induction w k rule: find_offset.induct)
  case (1 w k)
  then show ?case
    by (subst (asm) (2) find_offset.simps) (auto simp: u32_and_bit_eq_0 not_less_eq_eq le_less split: if_splits,
        metis Suc_lessI)
qed

lemma find_offset_Some:
  "find_offset w k = Some j \<Longrightarrow> k \<le> j \<and> j < 32 \<and> bit w j \<and> (\<forall>i. k \<le> i \<and> i < j \<longrightarrow> \<not> bit w i)"
proof (induction w k rule: find_offset.induct)
  case (1 w k)
  show ?case
  proof (cases "k < 32 \<and> \<not> bit w k")
    case True
    with 1(2) have "find_offset w (k + 1) = Some j" by (subst (asm) find_offset.simps) (simp add: u32_and_bit_eq_0)
    with 1(1) True have "k + 1 \<le> j \<and> j < 32 \<and> bit w j \<and> (\<forall>i. k + 1 \<le> i \<and> i < j \<longrightarrow> \<not> bit w i)"
      by (simp add: u32_and_bit_eq_0)
    with True show ?thesis by (metis Suc_eq_plus1 Suc_leD le_neq_implies_less Suc_leI)
  next
    case False
    with 1(2) show ?thesis by (subst (asm) find_offset.simps) (auto simp: u32_and_bit_eq_0 split: if_splits)
  qed
qed

lemma find_offset_total: "w \<noteq> 0 \<Longrightarrow> find_offset w 0 \<noteq> None"
proof
  assume "w \<noteq> 0" "find_offset w 0 = None"
  then have "\<forall>j < 32. \<not> bit w j" using find_offset_None [of 0 w] by simp
  then have "w = 0" by (intro bit_word_eqI) simp
  with \<open>w \<noteq> 0\<close> show False by simp
qed

lemma word_free_bits:
  assumes "ix * 32 \<le> i" "i < ix * 32 + 32"
  shows "free_bit m i \<longleftrightarrow> bit (m ! ix) (i - ix * 32)"
proof -
  have d: "i div 32 = ix" by (rule div_nat_eqI) (use assms in auto)
  then have "i mod 32 = i - ix * 32"
    using minus_mult_div_eq_mod [of i 32] by (simp add: mult.commute)
  with d show ?thesis by (simp add: free_bit_def)
qed

definition alloc_result :: "u32 list \<Rightarrow> nat \<Rightarrow> nat \<Rightarrow> (u32 list \<times> u32) option \<Rightarrow> bool" where
  "alloc_result m lo hi r = (case r of
     None \<Rightarrow> \<forall>i. lo \<le> i \<and> i < hi \<longrightarrow> \<not> free_bit m i
   | Some (m', w) \<Rightarrow> \<exists>i. lo \<le> i \<and> i < hi \<and> w = of_nat i \<and> free_bit m i \<and>
       (\<forall>j. lo \<le> j \<and> j < i \<longrightarrow> \<not> free_bit m j) \<and> length m' = length m \<and>
       (\<forall>j. free_bit m' j \<longleftrightarrow> free_bit m j \<and> j \<noteq> i))"

lemma alloc_loop_spec:
  "length m = nw \<Longrightarrow> \<exists>r. alloc_loop m nw ix = Inr r \<and> alloc_result m (ix * 32) (nw * 32) r"
proof (induction m nw ix rule: alloc_loop.induct)
  case (1 m nw ix)
  consider (stop) "\<not> ix < nw" | (skip) "ix < nw" "m ! ix = 0" | (hit) "ix < nw" "m ! ix \<noteq> 0" by blast
  then show ?case
  proof cases
    case stop
    then show ?thesis by (subst alloc_loop.simps) (auto simp: alloc_result_def)
  next
    case skip
    then obtain r where r: "alloc_loop m nw (ix + 1) = Inr r" "alloc_result m (ix * 32 + 32) (nw * 32) r"
      using 1 by (auto simp: add.commute)
    have none: "\<not> free_bit m i" if "ix * 32 \<le> i" "i < ix * 32 + 32" for i
      using word_free_bits [OF that, of m] skip by simp
    have "alloc_result m (ix * 32) (nw * 32) r"
    proof (cases r)
      case None
      with r(2) none show ?thesis unfolding alloc_result_def by simp (meson not_le)
    next
      case (Some x)
      obtain m' w where x: "x = (m', w)" by (cases x)
      with Some r(2) obtain i where i: "ix * 32 + 32 \<le> i" "i < nw * 32" "w = of_nat i" "free_bit m i"
        "\<And>j. ix * 32 + 32 \<le> j \<Longrightarrow> j < i \<Longrightarrow> \<not> free_bit m j" "length m' = length m"
        "\<forall>j. free_bit m' j \<longleftrightarrow> free_bit m j \<and> j \<noteq> i"
        unfolding alloc_result_def by auto
      have "\<not> free_bit m j" if "ix * 32 \<le> j" "j < i" for j
        using none [OF that(1)] i(5) [OF _ that(2)] by (meson not_le)
      with Some x i show ?thesis unfolding alloc_result_def by (auto intro!: exI [of _ i])
    qed
    with r(1) skip show ?thesis by (subst alloc_loop.simps) simp
  next
    case hit
    then obtain off where off: "find_offset (m ! ix) 0 = Some off" using find_offset_total by blast
    note o = find_offset_Some [OF off]
    let ?i = "ix * 32 + off"
    let ?m = "m[ix := m ! ix XOR push_bit off 1]"
    have "free_bit ?m j \<longleftrightarrow> free_bit m j \<and> j \<noteq> ?i" for j
    proof -
      have "free_bit ?m j \<longleftrightarrow> (if j div 32 = ix then (bit (m ! ix) (j mod 32) \<noteq> (j mod 32 = off)) else free_bit m j)"
        using free_bit_update [of ix m off] hit(1) 1(2) o
        by (auto simp: bit_xor_iff bit_2_pow)
      moreover have "j = ?i \<longleftrightarrow> j div 32 = ix \<and> j mod 32 = off" using div_mod_index [of j ix off] o by auto
      ultimately show ?thesis using o by (auto simp: free_bit_def)
    qed
    moreover have "?i < nw * 32"
    proof -
      have "Suc ix * 32 \<le> nw * 32" using hit(1) by (intro mult_le_mono1) simp
      with o show ?thesis by simp
    qed
    moreover have "free_bit m ?i" using word_free_bits [of ix ?i m] o by simp
    moreover have "\<not> free_bit m j" if "ix * 32 \<le> j" "j < ?i" for j
      using word_free_bits [of ix j m] o that by auto
    ultimately have "alloc_result m (ix * 32) (nw * 32) (Some (?m, of_nat ix * 32 + of_nat off))"
      unfolding alloc_result_def by (auto intro!: exI [of _ ?i])
    with hit off show ?thesis by (subst alloc_loop.simps) simp
  qed
qed

lemma bitmap_alloc_spec:
  assumes wf: "bitmap_wf b"
  shows "if bm_free b = {} then bitmap_alloc b = Inr (b, - E_NO_MEM, None)
    else \<exists>b' i. bitmap_alloc b = Inr (b', 0, Some i) \<and> bitmap_wf b' \<and> unat i = Min (bm_free b) \<and>
      nbits b' = nbits b \<and> bm_free b' = bm_free b - {unat i}"
proof -
  let ?hi = "unat (nwords b) * 32"
  have w: "length (bmap b) = unat (nwords b)" "unat (nbits b) \<le> ?hi" "?hi < 2 ^ 32"
    "\<And>i. unat (nbits b) \<le> i \<Longrightarrow> i < ?hi \<Longrightarrow> \<not> free_bit (bmap b) i"
    using wf by (auto simp: bitmap_wf_def)
  obtain r where r: "alloc_loop (bmap b) (unat (nwords b)) 0 = Inr r" "alloc_result (bmap b) 0 ?hi r"
    using alloc_loop_spec [OF w(1), of 0] by auto
  have fin: "finite (bm_free b)" by (rule finite_subset [of _ "{..<unat (nbits b)}"]) (auto simp: bm_free_def)
  show ?thesis
  proof (cases r)
    case None
    with r(2) w(2) have "bm_free b = {}" by (auto simp: alloc_result_def bm_free_def)
    with None r(1) show ?thesis by (simp add: bitmap_alloc_def)
  next
    case (Some x)
    obtain m' w' where x: "x = (m', w')" by (cases x)
    with Some r(2) obtain i where i: "i < ?hi" "w' = of_nat i" "free_bit (bmap b) i"
      "\<And>j. j < i \<Longrightarrow> \<not> free_bit (bmap b) j" "length m' = length (bmap b)"
      "\<And>j. free_bit m' j \<longleftrightarrow> free_bit (bmap b) j \<and> j \<noteq> i"
      by (auto simp: alloc_result_def)
    have un: "unat w' = i" using i(1,2) w(3) by (simp add: unat_of_nat_u32)
    have mem: "i \<in> bm_free b" using i(1,3) w(4) [of i] by (force simp: bm_free_def not_le)
    have "Min (bm_free b) = i"
      by (rule Min_eqI [OF fin _ mem]) (use i(4) in \<open>force simp: bm_free_def not_less\<close>)
    moreover have "bitmap_wf (b\<lparr>bmap := m'\<rparr>)" using wf i(5,6) by (auto simp: bitmap_wf_def)
    moreover have "bm_free (b\<lparr>bmap := m'\<rparr>) = bm_free b - {i}" using i(6) by (auto simp: bm_free_def)
    moreover have "bitmap_alloc b = Inr (b\<lparr>bmap := m'\<rparr>, 0, Some w')"
      using r(1) Some x by (simp add: bitmap_alloc_def)
    ultimately show ?thesis using mem un by (auto intro!: exI [of _ "b\<lparr>bmap := m'\<rparr>"] exI [of _ w'])
  qed
qed

lemma bitmap_translate_spec:
  "bitmap_translate b i = (if i < nbits b then Inr (unat i div 32, 2 ^ (unat i mod 32)) else Inl Assert_failed)"
  by (simp add: bitmap_translate_def guardE_def Let_def unat_div unat_mod)

lemma bitmap_test_spec:
  "bitmap_test b i = (if i < nbits b then Inr (unat i \<in> bm_free b) else Inl Assert_failed)"
  by (auto simp: bitmap_test_def bitmap_translate_spec bm_free_def free_bit_def u32_and_bit_eq_0 word_less_nat_alt)

lemma bitmap_free_spec:
  assumes wf: "bitmap_wf b"
  shows "if i < nbits b \<and> unat i \<notin> bm_free b
    then \<exists>b'. bitmap_free b i = Inr b' \<and> bitmap_wf b' \<and> nbits b' = nbits b \<and> bm_free b' = insert (unat i) (bm_free b)
    else bitmap_free b i = Inl Assert_failed"
proof (cases "i < nbits b \<and> unat i \<notin> bm_free b")
  case True
  let ?ix = "unat i div 32" and ?off = "unat i mod 32"
  let ?m = "(bmap b)[?ix := bmap b ! ?ix OR 2 ^ ?off]"
  have lt: "unat i < unat (nbits b)" using True by (simp add: word_less_nat_alt)
  have ix: "?ix < length (bmap b)"
    using wf lt by (auto simp: bitmap_wf_def intro!: less_mult_imp_div_less)
  have nf: "\<not> free_bit (bmap b) (unat i)" using True lt by (simp add: bm_free_def)
  have fb: "free_bit ?m j \<longleftrightarrow> free_bit (bmap b) j \<or> j = unat i" for j
  proof -
    have "free_bit ?m j \<longleftrightarrow> (if j div 32 = ?ix then bit (bmap b ! ?ix) (j mod 32) \<or> j mod 32 = ?off else free_bit (bmap b) j)"
      using free_bit_update [OF ix, of ?off] by (auto simp: bit_or_iff bit_2_pow)
    moreover have "j = unat i \<longleftrightarrow> j div 32 = ?ix \<and> j mod 32 = ?off" by (metis div_mult_mod_eq)
    ultimately show ?thesis by (auto simp: free_bit_def)
  qed
  have "bmap b ! ?ix AND 2 ^ ?off = 0" using nf by (simp add: u32_and_bit_eq_0 free_bit_def)
  then have "bitmap_free b i = Inr (b\<lparr>bmap := ?m\<rparr>)"
    using True by (simp add: bitmap_free_def bitmap_translate_spec guardE_def)
  moreover have "bitmap_wf (b\<lparr>bmap := ?m\<rparr>)" using wf lt fb by (auto simp: bitmap_wf_def)
  moreover have "bm_free (b\<lparr>bmap := ?m\<rparr>) = insert (unat i) (bm_free b)" using fb lt by (auto simp: bm_free_def)
  ultimately show ?thesis using True by auto
next
  case False
  then show ?thesis
    by (auto simp: bitmap_free_def bitmap_translate_spec guardE_def bm_free_def free_bit_def u32_and_bit_eq_0 word_less_nat_alt)
qed

lemma overbits_loop_spec:
  "ix < length m \<Longrightarrow> length (overbits_loop m ix k) = length m \<and>
   (\<forall>j. free_bit (overbits_loop m ix k) j \<longleftrightarrow>
     (if j div 32 = ix \<and> k \<le> j mod 32 then \<not> free_bit m j else free_bit m j))"
proof (induction m ix k rule: overbits_loop.induct)
  case (1 m ix k)
  show ?case
  proof (cases "k < 32")
    case False
    then have "overbits_loop m ix k = m" by (subst overbits_loop.simps) simp
    moreover have "\<not> k \<le> j mod 32" for j :: nat using False mod_less_divisor [of 32 j] by linarith
    ultimately show ?thesis by simp
  next
    case True
    let ?m = "m[ix := m ! ix XOR push_bit k 1]"
    have st: "overbits_loop m ix k = overbits_loop ?m ix (k + 1)"
      using True by (subst overbits_loop.simps) simp
    have fb: "free_bit ?m j \<longleftrightarrow> (if j div 32 = ix \<and> j mod 32 = k then \<not> free_bit m j else free_bit m j)" for j
      using free_bit_update [of ix m k] 1(2) True by (auto simp: bit_xor_iff bit_2_pow free_bit_def)
    have le: "k \<le> j mod 32 \<longleftrightarrow> j mod 32 = k \<or> k + 1 \<le> j mod 32" for j :: nat by auto
    show ?thesis using 1(1) [OF True] 1(2) unfolding st le fb by auto
  qed
qed

lemma bitmap_create_spec:
  assumes n: "n \<noteq> 0" "unat n + 32 < 2 ^ 32"
  shows "\<exists>b. bitmap_create n True True = Inr (Some b) \<and> bitmap_wf b \<and> nbits b = n \<and> bm_free b = {..<unat n}"
proof -
  define nw where "nw = ROUNDUP_DIV n 32"
  define q r where "q = unat n div 32" and "r = unat n mod 32"
  have qr: "unat n = q * 32 + r" "r < 32" by (simp_all add: q_def r_def)
  have n0: "0 < unat n" using n(1) by (simp add: unat_gt_0)
  have "unat nw = (unat n + 31) div 32"
    using unat_ROUNDUP_DIV [of 32 n] n(2) by (simp add: nw_def)
  also have "\<dots> = (q * 32 + (r + 31)) div 32" by (simp add: qr(1))
  also have "\<dots> = q + (r + 31) div 32" by simp
  also have "(r + 31) div 32 = (if r = 0 then 0 else 1)"
    using qr(2) by (auto intro: div_nat_eqI)
  finally have unw: "unat nw = (if r = 0 then q else q + 1)" by simp
  let ?m = "replicate (unat nw) (0xFFFFFFFF :: u32)"
  have full: "free_bit ?m j" if "j < unat nw * 32" for j
  proof -
    have "(0xFFFFFFFF :: u32) = - 1" by simp
    then have "bit (0xFFFFFFFF :: u32) (j mod 32)" by (simp only: bit_minus_1_iff) simp
    with that show ?thesis by (simp add: free_bit_def less_mult_imp_div_less)
  qed
  have guard: "n + 32 > n" using n(2) by (simp add: word_less_nat_alt unat_word_ariths)
  have nw32: "unat (nw * 32) = unat nw * 32"
    using unw qr n(2) by (auto simp: unat_word_ariths split: if_splits)
  show ?thesis
  proof (cases "r = 0")
    case True
    then have "unat (nw * 32) = unat n" using nw32 unw qr by simp
    then have e: "nw * 32 = n" by (rule unsigned_word_eqI)
    then have "bitmap_create n True True = Inr (Some \<lparr>nbits = n, nwords = nw, bmap = ?m\<rparr>)"
      using n(1) guard by (simp add: bitmap_create_def guardE_def Let_def nw_def)
    moreover have "bitmap_wf \<lparr>nbits = n, nwords = nw, bmap = ?m\<rparr>"
      using True unw qr n(2) by (auto simp: bitmap_wf_def)
    moreover have "bm_free \<lparr>nbits = n, nwords = nw, bmap = ?m\<rparr> = {..<unat n}"
      using full True unw qr by (auto simp: bm_free_def)
    ultimately show ?thesis by auto
  next
    case False
    have ne: "n \<noteq> nw * 32" using nw32 unw qr False by auto
    define i where "i = nw - 1"
    have ix: "unat i = q" using unw False by (simp add: i_def unat_sub word_le_nat_alt)
    have "unat (i * 32) = q * 32" using ix qr n(2) by (simp add: unat_word_ariths)
    then have ov: "unat (n - i * 32) = r" using qr by (simp add: unat_sub word_le_nat_alt)
    have "unat (n div 32) = unat i" using ix by (simp add: unat_div q_def)
    then have dv: "n div 32 = i" by (rule unsigned_word_eqI)
    let ?m' = "overbits_loop ?m q r"
    have qlt: "q < length ?m" using unw False by simp
    have "bitmap_create n True True = Inr (Some \<lparr>nbits = n, nwords = nw, bmap = ?m'\<rparr>)"
      using n(1) guard ne dv ov ix False qr(2)
      by (simp add: bitmap_create_def guardE_def Let_def word_less_nat_alt flip: nw_def i_def)
    moreover have fb: "free_bit ?m' j \<longleftrightarrow> j < unat n" if "j < unat nw * 32" for j
    proof -
      have "free_bit ?m' j \<longleftrightarrow> \<not> (j div 32 = q \<and> r \<le> j mod 32)"
        using overbits_loop_spec [OF qlt, of r] full [OF that] by auto
      also have "\<dots> \<longleftrightarrow> j < q * 32 + r"
      proof -
        have "j div 32 \<le> q" using that unw False by (simp add: less_mult_imp_div_less flip: less_Suc_eq_le)
        moreover have "j = j div 32 * 32 + j mod 32" "j mod 32 < 32" by simp_all
        ultimately show ?thesis by (cases "j div 32 = q") linarith+
      qed
      finally show ?thesis using qr by simp
    qed
    moreover have "bitmap_wf \<lparr>nbits = n, nwords = nw, bmap = ?m'\<rparr>"
      using False unw qr n(2) fb overbits_loop_spec [OF qlt, of r] by (auto simp: bitmap_wf_def)
    moreover have "bm_free \<lparr>nbits = n, nwords = nw, bmap = ?m'\<rparr> = {..<unat n}"
      using fb False unw qr by (auto simp: bm_free_def)
    ultimately show ?thesis by auto
  qed
qed

section \<open>The contract\<close>

locale index_allocator =
  fixes alloc :: "'b \<Rightarrow> 'e + ('b \<times> int \<times> u32 option)"
    and free :: "'b \<Rightarrow> u32 \<Rightarrow> 'e + 'b"
    and test :: "'b \<Rightarrow> u32 \<Rightarrow> 'e + bool"
    and wf :: "'b \<Rightarrow> bool" and size_of :: "'b \<Rightarrow> u32" and free_set :: "'b \<Rightarrow> nat set"
  assumes alloc_full: "wf b \<Longrightarrow> free_set b = {} \<Longrightarrow> alloc b = Inr (b, - E_NO_MEM, None)"
    and alloc_ok: "wf b \<Longrightarrow> free_set b \<noteq> {} \<Longrightarrow> \<exists>b' i. alloc b = Inr (b', 0, Some i) \<and> wf b' \<and>
          size_of b' = size_of b \<and> unat i \<in> free_set b \<and> free_set b' = free_set b - {unat i}"
    and free_ok: "wf b \<Longrightarrow> i < size_of b \<Longrightarrow> unat i \<notin> free_set b \<Longrightarrow> \<exists>b'. free b i = Inr b' \<and> wf b' \<and>
          size_of b' = size_of b \<and> free_set b' = insert (unat i) (free_set b)"
    and test_ok: "wf b \<Longrightarrow> i < size_of b \<Longrightarrow> test b i = Inr (unat i \<in> free_set b)"
    and free_set_bound: "free_set b \<subseteq> {..<unat (size_of b)}"
begin

lemma alloc_Some:
  assumes "wf b" "alloc b = Inr (b', c, Some i)"
  shows "c = 0" "wf b'" "size_of b' = size_of b" "unat i \<in> free_set b" "free_set b' = free_set b - {unat i}"
    "i < size_of b"
proof -
  have "free_set b \<noteq> {}" using alloc_full [OF assms(1)] assms(2) by auto
  from alloc_ok [OF assms(1) this] assms(2)
  show "c = 0" "wf b'" "size_of b' = size_of b" and m: "unat i \<in> free_set b" and "free_set b' = free_set b - {unat i}"
    by auto
  then show "i < size_of b" using free_set_bound [of b] by (auto simp: word_less_nat_alt)
qed

lemma alloc_free_id:
  assumes "wf b" "alloc b = Inr (b', c, Some i)"
  shows "\<exists>b''. free b' i = Inr b'' \<and> wf b'' \<and> free_set b'' = free_set b \<and> test b' i = Inr False \<and> test b'' i = Inr True"
proof -
  note a = alloc_Some [OF assms]
  from free_ok [of b' i] a obtain b'' where b'': "free b' i = Inr b''" "wf b''" "size_of b'' = size_of b'"
    "free_set b'' = insert (unat i) (free_set b')" by auto
  with a test_ok [of b' i] test_ok [of b'' i] show ?thesis by (auto simp: insert_absorb)
qed

end

interpretation bitmap_alloc: index_allocator bitmap_alloc bitmap_free bitmap_test bitmap_wf nbits bm_free
proof unfold_locales
  fix b
  assume wf: "bitmap_wf b" and ne: "bm_free b \<noteq> {}"
  have "finite (bm_free b)" by (rule finite_subset [of _ "{..<unat (nbits b)}"]) (auto simp: bm_free_def)
  then have "Min (bm_free b) \<in> bm_free b" using ne by (rule Min_in)
  moreover obtain b' i where "bitmap_alloc b = Inr (b', 0, Some i)" "bitmap_wf b'" "unat i = Min (bm_free b)"
    "nbits b' = nbits b" "bm_free b' = bm_free b - {unat i}"
    using bitmap_alloc_spec [OF wf] ne by auto
  ultimately show "\<exists>b' i. bitmap_alloc b = Inr (b', 0, Some i) \<and> bitmap_wf b' \<and> nbits b' = nbits b \<and>
      unat i \<in> bm_free b \<and> bm_free b' = bm_free b - {unat i}" by auto
next
  fix b i
  assume "bitmap_wf b" "i < nbits b" "unat i \<notin> bm_free b"
  then show "\<exists>b'. bitmap_free b i = Inr b' \<and> bitmap_wf b' \<and> nbits b' = nbits b \<and> bm_free b' = insert (unat i) (bm_free b)"
    using bitmap_free_spec [of b i] by auto
qed (use bitmap_alloc_spec bitmap_test_spec in \<open>auto simp: bm_free_def\<close>)

section \<open>Properties\<close>

definition bitmap40 :: bitmap where
  "bitmap40 = \<lparr>nbits = 40, nwords = 2, bmap = [0xFFFFFFFF, 0xFF]\<rparr>"

lemma bitmap40_create: "bitmap_create 40 True True = Inr (Some bitmap40)"
  by code_simp

lemma bitmap40_wf: "bitmap_wf bitmap40" "bm_free bitmap40 = {..<40}"
  using bitmap_create_spec [of 40] bitmap40_create by auto

text \<open>
  A bitmap of \<open>n\<close> bits is created with exactly the indices below \<open>n\<close> free, the padding of the last word being
  marked in use, whatever \<open>n\<close> that does not overflow the computation of its size.
\<close>

theorem bitmap_create_correct:
  assumes "n \<noteq> 0" and "unat n + 32 < 2 ^ 32"
  shows "\<exists>b. bitmap_create n True True = Inr (Some b) \<and> bitmap_wf b \<and> nbits b = n \<and> bm_free b = {..<unat n}"
  using assms by (rule bitmap_create_spec)

theorem bitmap_create_correct_witness:
  "\<exists>b. bitmap_create 40 True True = Inr (Some b) \<and> bitmap_wf b \<and> bm_free b = {..<40}"
  using bitmap_create_correct [of 40] by auto

text \<open>
  C31. \<^verbatim>\<open>bitmap_alloc\<close> returns the smallest free index and takes exactly that one, or \<^verbatim>\<open>-E_NO_MEM\<close> with the
  bitmap unchanged when nothing is free; its \<^verbatim>\<open>assert(0)\<close> is never reached. \<^verbatim>\<open>bitmap_free\<close> gives back an index
  in use, and fails its assertion on an index that is out of range or already free.
\<close>

theorem bitmap_alloc_free_correct:
  assumes "bitmap_wf b"
  shows "(if bm_free b = {} then bitmap_alloc b = Inr (b, - E_NO_MEM, None)
      else \<exists>b' i. bitmap_alloc b = Inr (b', 0, Some i) \<and> bitmap_wf b' \<and> unat i = Min (bm_free b) \<and>
        bm_free b' = bm_free b - {unat i} \<and>
        (\<exists>b''. bitmap_free b' i = Inr b'' \<and> bitmap_wf b'' \<and> bm_free b'' = bm_free b)) \<and>
    (\<not> (j < nbits b \<and> unat j \<notin> bm_free b) \<longrightarrow> bitmap_free b j = Inl Assert_failed)"
proof (cases "bm_free b = {}")
  case True
  then show ?thesis using bitmap_alloc_spec [OF assms] bitmap_free_spec [OF assms, of j] by (auto split: if_splits)
next
  case False
  then obtain b' i where a: "bitmap_alloc b = Inr (b', 0, Some i)" "bitmap_wf b'" "unat i = Min (bm_free b)"
    "bm_free b' = bm_free b - {unat i}" using bitmap_alloc_spec [OF assms] by auto
  with bitmap_alloc.alloc_free_id [OF assms a(1)] bitmap_free_spec [OF assms, of j] False show ?thesis
    by (auto split: if_splits)
qed

theorem bitmap_alloc_free_correct_witness:
  "\<exists>b' i. bitmap_alloc bitmap40 = Inr (b', 0, Some i) \<and> unat i = 0 \<and> bm_free b' = {..<40} - {0} \<and>
     bitmap_free bitmap40 7 = Inl Assert_failed"
proof -
  have "Min {..<40 :: nat} = 0" by (rule Min_eqI) auto
  moreover have "\<not> (7 < nbits bitmap40 \<and> unat (7 :: u32) \<notin> bm_free bitmap40)" by (simp add: bitmap40_wf)
  moreover have "0 \<in> {..<40 :: nat}" by simp
  then have "{..<40 :: nat} \<noteq> {}" by blast
  ultimately show ?thesis using bitmap_alloc_free_correct [OF bitmap40_wf(1), of 7] by (auto simp: bitmap40_wf)
qed

end
