(* ===== verification/Skew_heap_c.thy ===== *)
theory Skew_heap_c
  imports Prelude "HOL-Library.Tree" "HOL-Library.Tree_Multiset"
begin

text \<open>
  The intrusive skew heap of \<^verbatim>\<open>libs/skew_heap.h\<close> on an explicit heap of its three pointers (\<open>None\<close> is
  \<^verbatim>\<open>NULL\<close>). The comparison function is an argument, as in the source. \<open>tsub h p t\<close> says that the pointers
  under \<open>p\<close> form the tree \<open>t\<close>, with the parent pointers of all nodes but the root; the pointer operations
  are shown to implement functions on trees, and these to keep the heap order and the elements.
\<close>

section \<open>Operations\<close>

record 'a sheap =
  parent :: "'a \<Rightarrow> 'a option"
  left :: "'a \<Rightarrow> 'a option"
  right :: "'a \<Rightarrow> 'a option"

definition set_parent :: "'a \<Rightarrow> 'a option \<Rightarrow> 'a sheap \<Rightarrow> 'a sheap" where
  "set_parent x v h = h\<lparr>parent := (parent h)(x := v)\<rparr>"

definition set_left :: "'a \<Rightarrow> 'a option \<Rightarrow> 'a sheap \<Rightarrow> 'a sheap" where
  "set_left x v h = h\<lparr>left := (left h)(x := v)\<rparr>"

definition set_right :: "'a \<Rightarrow> 'a option \<Rightarrow> 'a sheap \<Rightarrow> 'a sheap" where
  "set_right x v h = h\<lparr>right := (right h)(x := v)\<rparr>"

text \<open>\<^verbatim>\<open>if (l) l->parent = a;\<close>\<close>

definition adopt :: "'a option \<Rightarrow> 'a option \<Rightarrow> 'a sheap \<Rightarrow> 'a sheap" where
  "adopt l a h = (case l of None \<Rightarrow> h | Some l \<Rightarrow> set_parent l a h)"

definition skew_heap_init :: "'a sheap \<Rightarrow> 'a \<Rightarrow> 'a sheap" where
  "skew_heap_init h a = set_left a None (set_right a None (set_parent a None h))"

partial_function (option) skew_heap_merge ::
  "('a \<Rightarrow> 'a \<Rightarrow> int) \<Rightarrow> 'a sheap \<Rightarrow> 'a option \<Rightarrow> 'a option \<Rightarrow> ('a sheap \<times> 'a option) option" where
  "skew_heap_merge cmp h a b =
     (case a of
        None \<Rightarrow> Some (h, b)
      | Some x \<Rightarrow>
          (case b of
             None \<Rightarrow> Some (h, a)
           | Some y \<Rightarrow>
               if cmp x y = - 1 then
                 (let r = left h x in
                  Option.bind (skew_heap_merge cmp h (right h x) b) (\<lambda>(h, l).
                  let h = set_left x l h; h = set_right x r h; h = adopt l (Some x) h in Some (h, Some x)))
               else
                 (let r = left h y in
                  Option.bind (skew_heap_merge cmp h a (right h y)) (\<lambda>(h, l).
                  let h = set_left y l h; h = set_right y r h; h = adopt l (Some y) h in Some (h, Some y)))))"

definition skew_heap_insert ::
  "('a \<Rightarrow> 'a \<Rightarrow> int) \<Rightarrow> 'a sheap \<Rightarrow> 'a option \<Rightarrow> 'a \<Rightarrow> ('a sheap \<times> 'a option) option" where
  "skew_heap_insert cmp h a b = skew_heap_merge cmp (skew_heap_init h b) a (Some b)"

definition skew_heap_remove ::
  "('a \<Rightarrow> 'a \<Rightarrow> int) \<Rightarrow> 'a sheap \<Rightarrow> 'a option \<Rightarrow> 'a \<Rightarrow> ('a sheap \<times> 'a option) option" where
  "skew_heap_remove cmp h a b =
     (let p = parent h b in
      Option.bind (skew_heap_merge cmp h (left h b) (right h b)) (\<lambda>(h, rep).
      let h = adopt rep p h in
      case p of
        Some p \<Rightarrow> Some (if left h p = Some b then set_left p rep h else set_right p rep h, a)
      | None \<Rightarrow> Some (h, rep)))"

section \<open>Trees in the heap\<close>

definition child_of :: "'a sheap \<Rightarrow> 'a \<Rightarrow> 'a tree \<Rightarrow> bool" where
  "child_of h x t \<longleftrightarrow> (case t of Leaf \<Rightarrow> True | Node _ y _ \<Rightarrow> parent h y = Some x)"

fun tsub :: "'a sheap \<Rightarrow> 'a option \<Rightarrow> 'a tree \<Rightarrow> bool" where
  "tsub h p Leaf \<longleftrightarrow> p = None"
| "tsub h p (Node l x r) \<longleftrightarrow> p = Some x \<and> tsub h (left h x) l \<and> tsub h (right h x) r \<and>
     child_of h x l \<and> child_of h x r"

definition distinct_tree :: "'a tree \<Rightarrow> bool" where
  "distinct_tree t \<longleftrightarrow> distinct (inorder t)"

lemma distinct_tree_simps [simp]:
  "distinct_tree Leaf"
  "distinct_tree (Node l x r) \<longleftrightarrow> distinct_tree l \<and> distinct_tree r \<and> x \<notin> set_tree l \<and> x \<notin> set_tree r \<and>
     set_tree l \<inter> set_tree r = {}"
  by (auto simp: distinct_tree_def)

lemma heap_sel [simp]:
  "parent (set_parent x v h) = (parent h)(x := v)" "left (set_parent x v h) = left h" "right (set_parent x v h) = right h"
  "parent (set_left x v h) = parent h" "left (set_left x v h) = (left h)(x := v)" "right (set_left x v h) = right h"
  "parent (set_right x v h) = parent h" "left (set_right x v h) = left h" "right (set_right x v h) = (right h)(x := v)"
  "left (adopt p v h) = left h" "right (adopt p v h) = right h"
  "parent (adopt p v h) = (case p of None \<Rightarrow> parent h | Some y \<Rightarrow> (parent h)(y := v))"
  by (simp_all add: set_parent_def set_left_def set_right_def adopt_def split: option.split)

text \<open>The parent pointer of the root does not matter.\<close>

lemma tsub_frame:
  "\<forall>y \<in> set_tree t. left h' y = left h y \<and> right h' y = right h y \<and> (p \<noteq> Some y \<longrightarrow> parent h' y = parent h y) \<Longrightarrow>
   distinct_tree t \<Longrightarrow> tsub h p t \<Longrightarrow> tsub h' p t"
proof (induction t arbitrary: p)
  case (Node l x r)
  have eq: "left h' y = left h y \<and> right h' y = right h y \<and> parent h' y = parent h y"
    if "y \<in> set_tree l \<or> y \<in> set_tree r" for y
    using Node.prems that by auto
  have "tsub h' (left h x) l" by (rule Node.IH(1)) (use Node.prems eq in simp_all)
  moreover have "tsub h' (right h x) r" by (rule Node.IH(2)) (use Node.prems eq in simp_all)
  moreover have "child_of h' x l" "child_of h' x r"
    using Node.prems(3) eq by (cases l; cases r; simp add: child_of_def)+
  ultimately show ?case using Node.prems by simp
qed simp

lemma tsub_root: "tsub h p t \<Longrightarrow> p = (case t of Leaf \<Rightarrow> None | Node _ x _ \<Rightarrow> Some x)"
  by (cases t) auto

definition unchanged :: "'a set \<Rightarrow> 'a sheap \<Rightarrow> 'a sheap \<Rightarrow> bool" where
  "unchanged S h h' \<longleftrightarrow> (\<forall>y. y \<notin> S \<longrightarrow> parent h' y = parent h y \<and> left h' y = left h y \<and> right h' y = right h y)"

lemma unchanged_mono: "unchanged S h h' \<Longrightarrow> S \<subseteq> T \<Longrightarrow> unchanged T h h'"
  by (auto simp: unchanged_def)

section \<open>Merging trees\<close>

function smerge :: "('a \<Rightarrow> 'a \<Rightarrow> int) \<Rightarrow> 'a tree \<Rightarrow> 'a tree \<Rightarrow> 'a tree" where
  "smerge cmp Leaf t = t"
| "smerge cmp (Node l x r) Leaf = Node l x r"
| "smerge cmp (Node l1 x r1) (Node l2 y r2) =
     (if cmp x y = - 1 then Node (smerge cmp r1 (Node l2 y r2)) x l1
      else Node (smerge cmp (Node l1 x r1) r2) y l2)"
  by pat_completeness auto
termination by (relation "measure (\<lambda>(_, s, t). size s + size t)") auto

lemma set_smerge [simp]: "set_tree (smerge cmp s t) = set_tree s \<union> set_tree t"
  by (induction cmp s t rule: smerge.induct) auto

lemma mset_smerge: "mset_tree (smerge cmp s t) = mset_tree s + mset_tree t"
  by (induction cmp s t rule: smerge.induct) (auto simp: ac_simps)

lemma distinct_smerge:
  "distinct_tree s \<Longrightarrow> distinct_tree t \<Longrightarrow> set_tree s \<inter> set_tree t = {} \<Longrightarrow> distinct_tree (smerge cmp s t)"
  by (induction cmp s t rule: smerge.induct) auto

lemma smerge_Leaf [simp]: "smerge cmp t Leaf = t"
  by (cases t) auto

text \<open>The step that both branches of \<^verbatim>\<open>skew_heap_merge\<close> end with.\<close>

lemma relink:
  assumes sub: "tsub h1 l m" and un: "unchanged S h h1" and old: "tsub h (left h x) t" "child_of h x t"
    and m: "set_tree m \<subseteq> S" "distinct_tree m" and S: "x \<notin> S" "S \<inter> set_tree t = {}"
    and t: "distinct_tree t" "x \<notin> set_tree t"
  defines "h2 \<equiv> adopt l (Some x) (set_right x (left h x) (set_left x l h1))"
  shows "tsub h2 (Some x) (Node m x t)" "unchanged (insert x S) h h2" "parent h2 x = parent h x"
proof -
  have l: "l = (case m of Leaf \<Rightarrow> None | Node _ y _ \<Rightarrow> Some y)" using tsub_root [OF sub] .
  then have lS: "y \<in> S" if "l = Some y" for y using that m(1) by (cases m) auto
  have out: "parent h2 y = parent h y" "left h2 y = left h y" "right h2 y = right h y" if "y \<notin> insert x S" for y
    using un lS that by (cases l; auto simp: unchanged_def h2_def)+
  have "tsub h2 l m"
    by (rule tsub_frame [OF _ m(2) sub]) (use m S(1) in \<open>auto simp: h2_def split: option.splits\<close>)
  moreover have "tsub h2 (left h x) t"
    by (rule tsub_frame [OF _ t(1) old(1)]) (use S(2) t(2) in \<open>blast intro: out\<close>)
  moreover have "child_of h2 x m" using l by (cases m) (auto simp: child_of_def h2_def)
  moreover have "child_of h2 x t"
  proof (cases t)
    case (Node _ y _)
    then have "y \<notin> insert x S" using S(2) t(2) by auto
    then show ?thesis using Node old(2) out(1) by (simp add: child_of_def)
  qed (simp add: child_of_def)
  ultimately show "tsub h2 (Some x) (Node m x t)" by (simp add: h2_def)
  show "unchanged (insert x S) h h2"
    using out by (simp add: unchanged_def)
  show "parent h2 x = parent h x"
    using un lS S(1) by (cases l) (auto simp: unchanged_def h2_def)
qed

lemma merge_implements_smerge:
  "tsub h a s \<Longrightarrow> tsub h b t \<Longrightarrow> distinct_tree s \<Longrightarrow> distinct_tree t \<Longrightarrow> set_tree s \<inter> set_tree t = {} \<Longrightarrow>
   \<exists>h' p. skew_heap_merge cmp h a b = Some (h', p) \<and> tsub h' p (smerge cmp s t) \<and>
     unchanged (set_tree s \<union> set_tree t) h h' \<and> (\<forall>x. p = Some x \<longrightarrow> parent h' x = parent h x)"
proof (induction cmp s t arbitrary: a b rule: smerge.induct)
  case (1 cmp t)
  then show ?case by (subst skew_heap_merge.simps) (simp add: unchanged_def)
next
  case (2 cmp l x r)
  then show ?case by (subst skew_heap_merge.simps) (simp add: unchanged_def)
next
  case (3 cmp l1 x r1 l2 y r2)
  have ab: "a = Some x" "b = Some y" using "3.prems" by auto
  show ?case
  proof (cases "cmp x y = - 1")
    case True
    let ?t = "Node l2 y r2" and ?S = "set_tree r1 \<union> set_tree (Node l2 y r2)"
    have "\<exists>h' p. skew_heap_merge cmp h (right h x) b = Some (h', p) \<and> tsub h' p (smerge cmp r1 ?t) \<and> unchanged ?S h h' \<and>
        (\<forall>x. p = Some x \<longrightarrow> parent h' x = parent h x)"
      by (rule "3.IH"(1) [OF True]) (use "3.prems" in auto)
    then obtain h1 l where r: "skew_heap_merge cmp h (right h x) b = Some (h1, l)"
      "tsub h1 l (smerge cmp r1 ?t)" "unchanged ?S h h1" by blast
    have d: "distinct_tree (smerge cmp r1 ?t)" using "3.prems" by (intro distinct_smerge) auto
    have P: "tsub h (left h x) l1" "child_of h x l1" "x \<notin> ?S" "?S \<inter> set_tree l1 = {}"
      "distinct_tree l1" "x \<notin> set_tree l1" using "3.prems" by (simp_all, blast+)
    let ?h = "adopt l (Some x) (set_right x (left h x) (set_left x l h1))"
    have k: "tsub ?h (Some x) (Node (smerge cmp r1 ?t) x l1)" "unchanged (insert x ?S) h ?h"
      "parent ?h x = parent h x"
      by (rule relink [OF r(2,3) P(1,2) _ d P(3-6)], simp)+
    have "unchanged (set_tree (Node l1 x r1) \<union> set_tree ?t) h ?h"
      by (rule unchanged_mono [OF k(2)]) auto
    moreover have "skew_heap_merge cmp h a b = Some (?h, Some x)"
      using True r(1) unfolding ab by (subst skew_heap_merge.simps) (simp add: Let_def)
    ultimately show ?thesis using k(1,3) True by simp
  next
    case False
    let ?s = "Node l1 x r1" and ?S = "set_tree (Node l1 x r1) \<union> set_tree r2"
    have "\<exists>h' p. skew_heap_merge cmp h a (right h y) = Some (h', p) \<and> tsub h' p (smerge cmp ?s r2) \<and> unchanged ?S h h' \<and>
        (\<forall>x. p = Some x \<longrightarrow> parent h' x = parent h x)"
      by (rule "3.IH"(2) [OF False]) (use "3.prems" in auto)
    then obtain h1 l where r: "skew_heap_merge cmp h a (right h y) = Some (h1, l)"
      "tsub h1 l (smerge cmp ?s r2)" "unchanged ?S h h1" by blast
    have d: "distinct_tree (smerge cmp ?s r2)" using "3.prems" by (intro distinct_smerge) auto
    have P: "tsub h (left h y) l2" "child_of h y l2" "y \<notin> ?S" "?S \<inter> set_tree l2 = {}"
      "distinct_tree l2" "y \<notin> set_tree l2" using "3.prems" by (simp_all, blast+)
    let ?h = "adopt l (Some y) (set_right y (left h y) (set_left y l h1))"
    have k: "tsub ?h (Some y) (Node (smerge cmp ?s r2) y l2)" "unchanged (insert y ?S) h ?h"
      "parent ?h y = parent h y"
      by (rule relink [OF r(2,3) P(1,2) _ d P(3-6)], simp)+
    have "unchanged (set_tree ?s \<union> set_tree (Node l2 y r2)) h ?h"
      by (rule unchanged_mono [OF k(2)]) auto
    moreover have "skew_heap_merge cmp h a b = Some (?h, Some y)"
      using False r(1) unfolding ab by (subst skew_heap_merge.simps) (simp add: Let_def)
    ultimately show ?thesis using k(1,3) False by simp
  qed
qed

section \<open>Removing a node\<close>

fun sremove :: "('a \<Rightarrow> 'a \<Rightarrow> int) \<Rightarrow> 'a \<Rightarrow> 'a tree \<Rightarrow> 'a tree" where
  "sremove cmp b Leaf = Leaf"
| "sremove cmp b (Node l x r) =
     (if x = b then smerge cmp l r
      else if b \<in> set_tree l then Node (sremove cmp b l) x r
      else Node l x (sremove cmp b r))"

lemma tsub_unique: "tsub h p s \<Longrightarrow> tsub h p t \<Longrightarrow> s = t"
proof (induction s arbitrary: p t)
  case Leaf
  then show ?case by (cases t) auto
next
  case (Node l x r)
  then show ?case by (cases t) auto
qed

text \<open>Where the node \<open>b\<close> of a tree sits: its own subtree, and its parent outside of that.\<close>

definition node_in :: "'a sheap \<Rightarrow> 'a option \<Rightarrow> 'a set \<Rightarrow> 'a \<Rightarrow> 'a tree \<Rightarrow> bool" where
  "node_in h p S b u \<longleftrightarrow> tsub h (Some b) u \<and> set_tree u \<subseteq> S \<and> distinct_tree u \<and>
     (p \<noteq> Some b \<longrightarrow> (\<exists>q \<in> S. parent h b = Some q \<and> q \<notin> set_tree u))"

lemma node_in_child:
  assumes n: "node_in h c (set_tree t) b u" and c: "tsub h c t" "child_of h x t" and x: "x \<notin> set_tree t"
    and S: "insert x (set_tree t) \<subseteq> S"
  shows "node_in h (Some x) S b u"
proof -
  have u: "set_tree u \<subseteq> set_tree t" using n by (simp add: node_in_def)
  have "\<exists>q \<in> S. parent h b = Some q \<and> q \<notin> set_tree u"
  proof (cases "c = Some b")
    case True
    with c have "parent h b = Some x" by (cases t) (simp_all add: child_of_def)
    with u x S show ?thesis by blast
  next
    case False
    with n S show ?thesis unfolding node_in_def by blast
  qed
  with n u S show ?thesis unfolding node_in_def by blast
qed

lemma tsub_inner:
  "tsub h p t \<Longrightarrow> distinct_tree t \<Longrightarrow> b \<in> set_tree t \<Longrightarrow> \<exists>l r. node_in h p (set_tree t) b (Node l b r)"
proof (induction t arbitrary: p)
  case (Node l x r)
  from Node.prems(3) consider "x = b" | "x \<noteq> b" "b \<in> set_tree l" | "x \<noteq> b" "b \<in> set_tree r" by auto
  then show ?case
  proof cases
    case 1
    then show ?thesis using Node.prems unfolding node_in_def by auto
  next
    case 2
    with Node.IH(1) [of "left h x"] Node.prems obtain l' r' where
      "node_in h (left h x) (set_tree l) b (Node l' b r')" by auto
    then have "node_in h (Some x) (set_tree (Node l x r)) b (Node l' b r')"
      by (rule node_in_child) (use Node.prems in auto)
    then show ?thesis using Node.prems(1) by auto
  next
    case 3
    with Node.IH(2) [of "right h x"] Node.prems obtain l' r' where
      "node_in h (right h x) (set_tree r) b (Node l' b r')" by auto
    then have "node_in h (Some x) (set_tree (Node l x r)) b (Node l' b r')"
      by (rule node_in_child) (use Node.prems in auto)
    then show ?thesis using Node.prems(1) by auto
  qed
qed simp

text \<open>The state after the replacement of \<open>b\<close>, which has the parent \<open>q\<close>, by the merge of its children.\<close>

definition replaced :: "'a sheap \<Rightarrow> 'a \<Rightarrow> 'a \<Rightarrow> 'a option \<Rightarrow> 'a sheap" where
  "replaced h q b rep = (let h = adopt rep (Some q) h in
     if left h q = Some b then set_left q rep h else set_right q rep h)"

lemma replaced_sel:
  assumes m: "tsub h1 rep u" "set_tree u \<subseteq> S" "unchanged S h h1" and q: "q \<notin> S"
  shows "y \<notin> insert q S \<Longrightarrow> parent (replaced h1 q b rep) y = parent h y \<and>
      left (replaced h1 q b rep) y = left h y \<and> right (replaced h1 q b rep) y = right h y"
    "parent (replaced h1 q b rep) q = parent h q"
    "left (replaced h1 q b rep) q = (if left h q = Some b then rep else left h q)"
    "right (replaced h1 q b rep) q = (if left h q = Some b then right h q else rep)"
proof -
  have "r \<in> S" if "rep = Some r" for r using tsub_root [OF m(1)] that m(2) by (cases u) auto
  then show "y \<notin> insert q S \<Longrightarrow> parent (replaced h1 q b rep) y = parent h y \<and>
      left (replaced h1 q b rep) y = left h y \<and> right (replaced h1 q b rep) y = right h y"
    "parent (replaced h1 q b rep) q = parent h q"
    "left (replaced h1 q b rep) q = (if left h q = Some b then rep else left h q)"
    "right (replaced h1 q b rep) q = (if left h q = Some b then right h q else rep)"
    using m(3) q by (cases rep; auto simp: replaced_def Let_def unchanged_def)+
qed

lemma replaced_new:
  assumes "tsub h1 rep u" "distinct_tree u" "q \<notin> set_tree u"
  shows "tsub (replaced h1 q b rep) rep u" "child_of (replaced h1 q b rep) q u"
proof -
  show "tsub (replaced h1 q b rep) rep u"
    by (rule tsub_frame [OF _ assms(2,1)]) (use assms(3) in \<open>auto simp: replaced_def Let_def split: option.split\<close>)
  show "child_of (replaced h1 q b rep) q u"
    using tsub_root [OF assms(1)] by (cases u) (auto simp: child_of_def replaced_def Let_def)
qed

lemma tsub_parents: "tsub h p t \<Longrightarrow> z \<in> set_tree t \<Longrightarrow> p \<noteq> Some z \<Longrightarrow> \<exists>w \<in> set_tree t. parent h z = Some w"
proof (induction t arbitrary: p)
  case (Node l x r)
  from Node.prems have "z \<in> set_tree l \<or> z \<in> set_tree r" by auto
  then show ?case
  proof
    assume "z \<in> set_tree l"
    with Node.prems(1) Node.IH(1) [of "left h x"] show ?thesis
      by (cases "left h x = Some z"; cases l) (auto simp: child_of_def)
  next
    assume "z \<in> set_tree r"
    with Node.prems(1) Node.IH(2) [of "right h x"] show ?thesis
      by (cases "right h x = Some z"; cases r) (auto simp: child_of_def)
  qed
qed simp

text \<open>\<open>at_merge\<close>: \<open>b\<close> with the children \<open>bl\<close> and \<open>br\<close> hangs below \<open>q\<close>, and these have been merged.\<close>

definition at_merge :: "('a \<Rightarrow> 'a \<Rightarrow> int) \<Rightarrow> 'a sheap \<Rightarrow> 'a \<Rightarrow> 'a tree \<Rightarrow> 'a tree \<Rightarrow> 'a \<Rightarrow> 'a sheap \<Rightarrow> 'a option \<Rightarrow> bool" where
  "at_merge cmp h b bl br q h1 rep \<longleftrightarrow>
     tsub h (Some b) (Node bl b br) \<and> distinct_tree (Node bl b br) \<and> parent h b = Some q \<and>
     q \<notin> set_tree (Node bl b br) \<and>
     tsub h1 rep (smerge cmp bl br) \<and> unchanged (set_tree bl \<union> set_tree br) h h1"

lemma at_merge_sel:
  assumes "at_merge cmp h b bl br q h1 rep"
  defines "h' \<equiv> replaced h1 q b rep" and "S \<equiv> set_tree bl \<union> set_tree br"
  shows "y \<notin> insert q S \<Longrightarrow> parent h' y = parent h y \<and> left h' y = left h y \<and> right h' y = right h y"
    "parent h' q = parent h q" "left h' q = (if left h q = Some b then rep else left h q)"
    "right h' q = (if left h q = Some b then right h q else rep)"
    "tsub h' rep (smerge cmp bl br)" "child_of h' q (smerge cmp bl br)"
proof -
  from assms(1) have m: "tsub h1 rep (smerge cmp bl br)" "unchanged S h h1" "q \<notin> S"
    "distinct_tree (Node bl b br)" by (auto simp: at_merge_def S_def)
  have "set_tree (smerge cmp bl br) \<subseteq> S" by (simp add: S_def)
  note sel = replaced_sel [OF m(1) this m(2,3), where b = b, folded h'_def]
  show "y \<notin> insert q S \<Longrightarrow> parent h' y = parent h y \<and> left h' y = left h y \<and> right h' y = right h y"
    "parent h' q = parent h q" "left h' q = (if left h q = Some b then rep else left h q)"
    "right h' q = (if left h q = Some b then right h q else rep)" using sel by blast+
  have "distinct_tree (smerge cmp bl br)" using m(4) by (intro distinct_smerge) auto
  from replaced_new [OF m(1) this, of q b] m(3)
  show "tsub h' rep (smerge cmp bl br)" "child_of h' q (smerge cmp bl br)" by (simp_all add: h'_def S_def)
qed

lemma remove_beside:
  assumes am: "at_merge cmp h b bl br q h1 rep"
    and t: "tsub h c t" "child_of h x t" "distinct_tree t" "set_tree t \<inter> set_tree (Node bl b br) = {}" "q \<notin> set_tree t"
  shows "tsub (replaced h1 q b rep) c t" "child_of (replaced h1 q b rep) x t"
proof -
  note sel = at_merge_sel [OF am]
  have out: "y \<notin> insert q (set_tree bl \<union> set_tree br)" if "y \<in> set_tree t" for y using that t(4,5) by auto
  show "tsub (replaced h1 q b rep) c t" by (rule tsub_frame [OF _ t(3,1)]) (use out sel(1) in auto)
  show "child_of (replaced h1 q b rep) x t" using t(2) out sel(1) by (cases t) (auto simp: child_of_def)
qed

lemma remove_in_child:
  assumes am: "at_merge cmp h b bl br q h1 rep"
    and t: "tsub h c t" "child_of h x t" "distinct_tree t" "b \<in> set_tree t" "x \<notin> set_tree t"
    and IH: "c \<noteq> Some b \<Longrightarrow> tsub (replaced h1 q b rep) c (sremove cmp b t)"
  shows "tsub (replaced h1 q b rep) (if c = Some b then rep else c) (sremove cmp b t)"
    "child_of (replaced h1 q b rep) x (sremove cmp b t)"
    "set_tree (Node bl b br) \<subseteq> set_tree t" "if c = Some b then q = x else q \<in> set_tree t"
proof -
  note sel = at_merge_sel [OF am]
  from am have b: "tsub h (Some b) (Node bl b br)" "parent h b = Some q" by (auto simp: at_merge_def)
  obtain l r where n: "node_in h c (set_tree t) b (Node l b r)" using tsub_inner [OF t(1,3,4)] by blast
  then have "Node l b r = Node bl b br" using b(1) tsub_unique unfolding node_in_def by blast
  with n show sub: "set_tree (Node bl b br) \<subseteq> set_tree t" by (simp add: node_in_def)
  show q: "if c = Some b then q = x else q \<in> set_tree t"
  proof (cases "c = Some b")
    case True
    with t(1,2) b(2) show ?thesis by (cases t) (auto simp: child_of_def)
  qed (use n b(2) in \<open>auto simp: node_in_def\<close>)
  have "tsub (replaced h1 q b rep) (if c = Some b then rep else c) (sremove cmp b t) \<and>
    child_of (replaced h1 q b rep) x (sremove cmp b t)"
  proof (cases "c = Some b")
    case True
    then have "t = Node bl b br" using t(1) b(1) tsub_unique by blast
    with True sel(5,6) q show ?thesis by auto
  next
    case False
    obtain l1 y r1 where y: "t = Node l1 y r1" using t(4) by (cases t) auto
    have py: "parent h y = Some x" "y \<noteq> b" using t(1,2) y False by (auto simp: child_of_def)
    have "y \<notin> set_tree bl \<union> set_tree br"
    proof
      assume "y \<in> set_tree bl \<union> set_tree br"
      then have "\<exists>w \<in> set_tree (Node bl b br). parent h y = Some w"
        using tsub_parents [OF b(1)] py(2) by auto
      with py(1) sub t(5) show False by auto
    qed
    then have "parent (replaced h1 q b rep) y = Some x" using sel(1) [of y] sel(2) py(1) by (cases "y = q") auto
    then have "child_of (replaced h1 q b rep) x (sremove cmp b t)" using y py(2) by (simp add: child_of_def)
    then show ?thesis using IH [OF False] False by simp
  qed
  then show "tsub (replaced h1 q b rep) (if c = Some b then rep else c) (sremove cmp b t)"
    "child_of (replaced h1 q b rep) x (sremove cmp b t)" by simp_all
qed

lemma remove_below:
  assumes am: "at_merge cmp h b bl br q h1 rep"
  shows "tsub h p t \<Longrightarrow> distinct_tree t \<Longrightarrow> b \<in> set_tree t \<Longrightarrow> p \<noteq> Some b \<Longrightarrow>
    tsub (replaced h1 q b rep) p (sremove cmp b t)"
proof (induction t arbitrary: p)
  case (Node l x r)
  let ?h = "replaced h1 q b rep"
  note sel = at_merge_sel [OF am]
  have xb: "x \<noteq> b" using Node.prems by auto
  then consider (l) "b \<in> set_tree l" "b \<notin> set_tree r" | (r) "b \<in> set_tree r" "b \<notin> set_tree l"
    using Node.prems(2,3) by auto
  then show ?case
  proof cases
    case l
    have "left h x \<noteq> Some b \<Longrightarrow> tsub ?h (left h x) (sremove cmp b l)"
      by (rule Node.IH(1)) (use Node.prems l in auto)
    note c = remove_in_child [OF am, of "left h x" l x, OF _ _ _ l(1) _ this]
    have c': "tsub ?h (if left h x = Some b then rep else left h x) (sremove cmp b l)"
      "child_of ?h x (sremove cmp b l)" "set_tree (Node bl b br) \<subseteq> set_tree l"
      "if left h x = Some b then q = x else q \<in> set_tree l" by (rule c; use Node.prems in simp)+
    have qr: "q \<notin> set_tree r" and xS: "x \<notin> set_tree bl \<union> set_tree br"
      using c'(3,4) Node.prems(2) by (auto split: if_splits)
    have o: "tsub ?h (right h x) r" "child_of ?h x r"
      by (rule remove_beside [OF am]; use Node.prems c'(3) qr in auto)+
    have "left ?h x = (if left h x = Some b then rep else left h x)" "right ?h x = right h x"
      using c'(4) sel(1) [of x] sel(3,4) xS Node.prems(2) by (auto split: if_splits)
    with c' o Node.prems(1) xb l(1) show ?thesis by simp
  next
    case r
    have "right h x \<noteq> Some b \<Longrightarrow> tsub ?h (right h x) (sremove cmp b r)"
      by (rule Node.IH(2)) (use Node.prems r in auto)
    note c = remove_in_child [OF am, of "right h x" r x, OF _ _ _ r(1) _ this]
    have c': "tsub ?h (if right h x = Some b then rep else right h x) (sremove cmp b r)"
      "child_of ?h x (sremove cmp b r)" "set_tree (Node bl b br) \<subseteq> set_tree r"
      "if right h x = Some b then q = x else q \<in> set_tree r" by (rule c; use Node.prems in simp)+
    have ql: "q \<notin> set_tree l" and xS: "x \<notin> set_tree bl \<union> set_tree br"
      using c'(3,4) Node.prems(2) by (auto split: if_splits)
    have o: "tsub ?h (left h x) l" "child_of ?h x l"
      by (rule remove_beside [OF am]; use Node.prems c'(3) ql in auto)+
    have "left h x \<noteq> Some b" using Node.prems(1) r(2) by (cases l) auto
    then have "right ?h x = (if right h x = Some b then rep else right h x)" "left ?h x = left h x"
      using c'(4) sel(1) [of x] sel(3,4) xS Node.prems(2) by (auto split: if_splits)
    with c' o Node.prems(1) xb r show ?thesis by simp
  qed
qed simp

section \<open>Heap order\<close>

fun heap_tree :: "('a \<Rightarrow> nat) \<Rightarrow> 'a tree \<Rightarrow> bool" where
  "heap_tree key Leaf \<longleftrightarrow> True"
| "heap_tree key (Node l x r) \<longleftrightarrow>
     (\<forall>y \<in> set_tree l \<union> set_tree r. key x \<le> key y) \<and> heap_tree key l \<and> heap_tree key r"

text \<open>What a comparison function has to promise: \<^verbatim>\<open>-1\<close> only for a first argument that is not larger.\<close>

definition compares :: "('a \<Rightarrow> 'a \<Rightarrow> int) \<Rightarrow> ('a \<Rightarrow> nat) \<Rightarrow> bool" where
  "compares cmp key \<longleftrightarrow> (\<forall>x y. (cmp x y = - 1 \<longrightarrow> key x \<le> key y) \<and> (cmp x y \<noteq> - 1 \<longrightarrow> key y \<le> key x))"

lemma smerge_heap: "compares cmp key \<Longrightarrow> heap_tree key s \<Longrightarrow> heap_tree key t \<Longrightarrow> heap_tree key (smerge cmp s t)"
proof (induction cmp s t rule: smerge.induct)
  case (3 cmp l1 x r1 l2 y r2)
  have c: "cmp x y = - 1 \<Longrightarrow> key x \<le> key y" "cmp x y \<noteq> - 1 \<Longrightarrow> key y \<le> key x"
    using "3.prems"(1) by (auto simp: compares_def)
  show ?case
  proof (cases "cmp x y = - 1")
    case True
    with "3.IH"(1) "3.prems" have "heap_tree key (smerge cmp r1 (Node l2 y r2))" by simp
    moreover have "key x \<le> key z" if "z \<in> insert y (set_tree l2 \<union> set_tree r2)" for z
      using that c(1) [OF True] "3.prems"(3) by (auto intro: order_trans)
    ultimately show ?thesis using True "3.prems"(2) by auto
  next
    case False
    with "3.IH"(2) "3.prems" have "heap_tree key (smerge cmp (Node l1 x r1) r2)" by simp
    moreover have "key y \<le> key z" if "z \<in> insert x (set_tree l1 \<union> set_tree r1)" for z
      using that c(2) [OF False] "3.prems"(2) by (auto intro: order_trans)
    ultimately show ?thesis using False "3.prems"(3) by auto
  qed
qed auto

lemma set_sremove: "distinct_tree t \<Longrightarrow> set_tree (sremove cmp b t) = set_tree t - {b}"
  by (induction t) auto

lemma sremove_absent: "b \<notin> set_tree t \<Longrightarrow> sremove cmp b t = t"
  by (induction t) auto

lemma sremove_heap:
  "compares cmp key \<Longrightarrow> distinct_tree t \<Longrightarrow> heap_tree key t \<Longrightarrow> heap_tree key (sremove cmp b t)"
  by (induction t) (auto simp: smerge_heap set_sremove)

lemma distinct_sremove: "distinct_tree t \<Longrightarrow> distinct_tree (sremove cmp b t)"
  by (induction t) (auto simp: set_sremove intro: distinct_smerge)

text \<open>A well-formed heap at \<open>p\<close>: the root has no parent.\<close>

definition skew_rep :: "'a sheap \<Rightarrow> 'a option \<Rightarrow> 'a tree \<Rightarrow> bool" where
  "skew_rep h p t \<longleftrightarrow> tsub h p t \<and> distinct_tree t \<and> (\<forall>x. p = Some x \<longrightarrow> parent h x = None)"

lemma insert_correct:
  assumes t: "skew_rep h a t" and b: "b \<notin> set_tree t"
  shows "\<exists>h' p. skew_heap_insert cmp h a b = Some (h', p) \<and> skew_rep h' p (smerge cmp t (Node Leaf b Leaf))"
proof -
  let ?h = "skew_heap_init h b"
  have t': "tsub ?h a t" "distinct_tree t"
    using t b by (auto simp: skew_rep_def skew_heap_init_def intro!: tsub_frame [of t _ h])
  have a: "parent ?h x = None" if "a = Some x \<or> x = b" for x
    using t that by (auto simp: skew_rep_def skew_heap_init_def)
  obtain h' p where m: "skew_heap_merge cmp ?h a (Some b) = Some (h', p)" "tsub h' p (smerge cmp t (Node Leaf b Leaf))"
    "\<forall>x. p = Some x \<longrightarrow> parent h' x = parent ?h x"
    using merge_implements_smerge [OF t'(1), of "Some b" "Node Leaf b Leaf" cmp] t'(2) b
    by (auto simp: skew_heap_init_def child_of_def)
  have "p = a \<or> p = Some b"
    using tsub_root [OF m(2)] tsub_root [OF t'(1)] by (cases t) auto
  with m a t' b show ?thesis by (auto simp: skew_heap_insert_def skew_rep_def intro!: distinct_smerge)
qed

lemma remove_correct:
  assumes t: "skew_rep h p t" and b: "b \<in> set_tree t"
  shows "\<exists>h' p'. skew_heap_remove cmp h p b = Some (h', p') \<and> skew_rep h' p' (sremove cmp b t)"
proof -
  from t have t': "tsub h p t" "distinct_tree t" and root: "\<And>x. p = Some x \<Longrightarrow> parent h x = None"
    by (auto simp: skew_rep_def)
  obtain l r where n: "node_in h p (set_tree t) b (Node l b r)" using tsub_inner [OF t' b] by blast
  then have lr: "tsub h (left h b) l" "tsub h (right h b) r" "distinct_tree (Node l b r)"
    by (auto simp: node_in_def)
  obtain h1 rp where m: "skew_heap_merge cmp h (left h b) (right h b) = Some (h1, rp)"
    "tsub h1 rp (smerge cmp l r)" "unchanged (set_tree l \<union> set_tree r) h h1"
    using merge_implements_smerge [OF lr(1,2), of cmp] lr(3) by auto
  have ds: "distinct_tree (sremove cmp b t)" using t'(2) by (rule distinct_sremove)
  show ?thesis
  proof (cases "p = Some b")
    case True
    then have "t = Node l b r" using t'(1) n tsub_unique unfolding node_in_def by blast
    then have sr: "sremove cmp b t = smerge cmp l r" by simp
    have "tsub (adopt rp None h1) rp (smerge cmp l r)"
      by (rule tsub_frame [OF _ _ m(2)]) (use ds sr in \<open>auto split: option.split\<close>)
    with m(1) root [OF True] ds sr show ?thesis
      by (auto simp: skew_heap_remove_def skew_rep_def)
  next
    case False
    with n obtain q where q: "q \<in> set_tree t" "parent h b = Some q" "q \<notin> set_tree (Node l b r)"
      by (auto simp: node_in_def)
    have am: "at_merge cmp h b l r q h1 rp" using n q m by (simp add: at_merge_def node_in_def)
    have sub: "tsub (replaced h1 q b rp) p (sremove cmp b t)"
      by (rule remove_below [OF am t' b False])
    moreover have "parent (replaced h1 q b rp) x = None" if "p = Some x" for x
    proof -
      have x: "parent h x = None" "x \<noteq> b" using that root False by auto
      then have "x \<notin> set_tree l \<union> set_tree r" using tsub_parents [of h "Some b" "Node l b r" x] n
        by (auto simp: node_in_def)
      with at_merge_sel(1,2) [OF am] x show ?thesis by (cases "x = q") auto
    qed
    moreover have "skew_heap_remove cmp h p b = Some (replaced h1 q b rp, p)"
      using m(1) q(2) by (simp add: skew_heap_remove_def replaced_def Let_def)
    ultimately show ?thesis using ds by (auto simp: skew_rep_def)
  qed
qed

section \<open>Properties\<close>

text \<open>
  C30. The skew heap is a priority queue with removal. For any comparison function that agrees with a key,
  \<^verbatim>\<open>skew_heap_insert\<close> of a new entry and \<^verbatim>\<open>skew_heap_remove\<close> of a present one return (the recursion of
  \<^verbatim>\<open>skew_heap_merge\<close> ends), leave a tree with consistent parent pointers and a root without parent, in heap
  order, whose entries are the old ones with the entry added or taken out.
\<close>

theorem skew_heap_correct:
  assumes "compares cmp key" and "skew_rep h p t" and "heap_tree key t"
  shows "(b \<notin> set_tree t \<longrightarrow> (\<exists>h' p' t'. skew_heap_insert cmp h p b = Some (h', p') \<and> skew_rep h' p' t' \<and>
      heap_tree key t' \<and> mset_tree t' = add_mset b (mset_tree t))) \<and>
    (b \<in> set_tree t \<longrightarrow> (\<exists>h' p' t'. skew_heap_remove cmp h p b = Some (h', p') \<and> skew_rep h' p' t' \<and>
      heap_tree key t' \<and> set_tree t' = set_tree t - {b}))"
proof (intro conjI impI)
  assume "b \<notin> set_tree t"
  from insert_correct [OF assms(2) this, of cmp] obtain h' p' where
    "skew_heap_insert cmp h p b = Some (h', p')" "skew_rep h' p' (smerge cmp t (Node Leaf b Leaf))" by blast
  moreover have "heap_tree key (smerge cmp t (Node Leaf b Leaf))" by (rule smerge_heap [OF assms(1,3)]) simp
  moreover have "mset_tree (smerge cmp t (Node Leaf b Leaf)) = add_mset b (mset_tree t)" by (simp add: mset_smerge)
  ultimately show "\<exists>h' p' t'. skew_heap_insert cmp h p b = Some (h', p') \<and> skew_rep h' p' t' \<and>
      heap_tree key t' \<and> mset_tree t' = add_mset b (mset_tree t)"
    by blast
next
  assume "b \<in> set_tree t"
  moreover have "distinct_tree t" using assms(2) by (simp add: skew_rep_def)
  ultimately show "\<exists>h' p' t'. skew_heap_remove cmp h p b = Some (h', p') \<and> skew_rep h' p' t' \<and>
      heap_tree key t' \<and> set_tree t' = set_tree t - {b}"
    using remove_correct [OF assms(2), of b cmp] sremove_heap [OF assms(1) _ assms(3), of b] set_sremove [of t cmp b]
    by blast
qed

definition nat_cmp :: "nat \<Rightarrow> nat \<Rightarrow> int" where
  "nat_cmp x y = (if x < y then - 1 else if x = y then 0 else 1)"

definition one_heap :: "nat sheap" where
  "one_heap = \<lparr>parent = Map.empty, left = Map.empty, right = Map.empty\<rparr>"

theorem skew_heap_correct_witness:
  "(\<exists>h' p' t'. skew_heap_insert nat_cmp one_heap (Some 3) 5 = Some (h', p') \<and> skew_rep h' p' t' \<and>
      mset_tree t' = {#3, 5#}) \<and>
   (\<exists>h' p' t'. skew_heap_remove nat_cmp one_heap (Some 3) 3 = Some (h', p') \<and> skew_rep h' p' t' \<and> set_tree t' = {})"
proof -
  have c: "compares nat_cmp id" by (auto simp: compares_def nat_cmp_def)
  have r: "skew_rep one_heap (Some 3) (Node Leaf 3 Leaf)"
    by (simp add: skew_rep_def one_heap_def child_of_def)
  show ?thesis
    using skew_heap_correct [OF c r, of 5] skew_heap_correct [OF c r, of 3] by (auto simp: add_mset_commute)
qed

end
