(* ===== verification/Sched.thy ===== *)
theory Sched
  imports Clist Kernlib
begin

text \<open>
  The scheduler: the round-robin class (\<^verbatim>\<open>kern/schedule/default_sched.c\<close>), the core scheduler with the timer
  list (\<^verbatim>\<open>kern/schedule/sched.c\<close>), and the parts of \<^verbatim>\<open>struct proc_struct\<close> they use. Processes, timers, wait
  entries and wait queues are numbered; \<open>knode\<close> are the list entries embedded in them and the list heads, all
  in one heap. The code runs with interrupts off, so each function is one step.

  \<^verbatim>\<open>proc_run\<close> is modelled by what it does to the kernel's data, \<^verbatim>\<open>current = proc\<close>; loading the stack pointer, the
  page directory and the registers of the new process is machine state outside of this model. The functions
  that call \<^verbatim>\<open>schedule\<close> return in the model when the process that called it is not running any more.
\<close>

section \<open>State\<close>

datatype knode = Run_list | Run_link nat | Timer_list | Timer_link nat | Wait_head nat | Wait_link nat

datatype proc_state = PROC_UNINIT | PROC_SLEEPING | PROC_RUNNABLE | PROC_ZOMBIE

record proc =
  state :: proc_state
  runs :: int
  need_resched :: bool
  wait_state :: u32
  on_rq :: bool
  time_slice :: int

record timer =
  expires :: u32
  timer_proc :: "nat option"

record wait =
  wait_proc :: "nat option"
  wakeup_flags :: u32
  wait_queue :: "nat option"

record ks =
  klinks :: "knode lheap"
  procs :: "nat \<Rightarrow> proc"
  timers :: "nat \<Rightarrow> timer"
  waits :: "nat \<Rightarrow> wait"
  sem_value :: "nat \<Rightarrow> int"
  proc_num :: u32
  max_time_slice :: int
  current :: nat
  idleproc :: nat

abbreviation (input) MAX_TIME_SLICE :: int where "MAX_TIME_SLICE \<equiv> 20"
abbreviation (input) WT_INTERRUPTED :: u32 where "WT_INTERRUPTED \<equiv> 0x80000000"
abbreviation (input) WT_CHILD :: u32 where "WT_CHILD \<equiv> 0x80000001"
abbreviation (input) WT_KSEM :: u32 where "WT_KSEM \<equiv> 0x00000100"
abbreviation (input) WT_TIMER :: u32 where "WT_TIMER \<equiv> 0x80000002"
abbreviation (input) WT_KBD :: u32 where "WT_KBD \<equiv> 0x80000004"

definition upd_proc :: "nat \<Rightarrow> (proc \<Rightarrow> proc) \<Rightarrow> ks \<Rightarrow> ks" where
  "upd_proc p f s = s\<lparr>procs := (procs s)(p := f (procs s p))\<rparr>"

definition upd_timer :: "nat \<Rightarrow> (timer \<Rightarrow> timer) \<Rightarrow> ks \<Rightarrow> ks" where
  "upd_timer t f s = s\<lparr>timers := (timers s)(t := f (timers s t))\<rparr>"

definition upd_wait :: "nat \<Rightarrow> (wait \<Rightarrow> wait) \<Rightarrow> ks \<Rightarrow> ks" where
  "upd_wait w f s = s\<lparr>waits := (waits s)(w := f (waits s w))\<rparr>"

section \<open>The round-robin class\<close>

definition RR_init :: "ks \<Rightarrow> ks" where
  "RR_init s = s\<lparr>klinks := list_init (klinks s) Run_list, proc_num := 0\<rparr>"

definition RR_enqueue :: "ks \<Rightarrow> nat \<Rightarrow> kpanic + ks" where
  "RR_enqueue s p =
     bindE (assertE (list_empty (klinks s) (Run_link p))) (\<lambda>_.
       let s = s\<lparr>klinks := list_add_before (klinks s) Run_list (Run_link p)\<rparr>;
           s = (if time_slice (procs s p) = 0 \<or> time_slice (procs s p) > max_time_slice s
                then upd_proc p (\<lambda>g. g\<lparr>time_slice := max_time_slice s\<rparr>) s else s);
           s = upd_proc p (\<lambda>g. g\<lparr>on_rq := True\<rparr>) s
       in Inr (s\<lparr>proc_num := proc_num s + 1\<rparr>))"

definition RR_dequeue :: "ks \<Rightarrow> nat \<Rightarrow> kpanic + ks" where
  "RR_dequeue s p =
     bindE (assertE (\<not> list_empty (klinks s) (Run_link p) \<and> on_rq (procs s p))) (\<lambda>_.
     Inr (s\<lparr>klinks := list_del_init (klinks s) (Run_link p), proc_num := proc_num s - 1\<rparr>))"

definition RR_pick_next :: "ks \<Rightarrow> nat option" where
  "RR_pick_next s = (case list_next (klinks s) Run_list of Run_link p \<Rightarrow> Some p | _ \<Rightarrow> None)"

definition RR_proc_tick :: "ks \<Rightarrow> nat \<Rightarrow> ks" where
  "RR_proc_tick s p =
     (let s = (if time_slice (procs s p) > 0
               then upd_proc p (\<lambda>g. g\<lparr>time_slice := time_slice g - 1\<rparr>) s else s)
      in if time_slice (procs s p) = 0 then upd_proc p (\<lambda>g. g\<lparr>need_resched := True\<rparr>) s else s)"

section \<open>The core scheduler\<close>

definition sched_class_enqueue :: "ks \<Rightarrow> nat \<Rightarrow> kpanic + ks" where
  "sched_class_enqueue s p = (if p \<noteq> idleproc s then RR_enqueue s p else Inr s)"

definition sched_class_dequeue :: "ks \<Rightarrow> nat \<Rightarrow> kpanic + ks" where
  "sched_class_dequeue s p = RR_dequeue s p"

definition sched_class_pick_next :: "ks \<Rightarrow> nat option" where
  "sched_class_pick_next s = RR_pick_next s"

definition sched_class_proc_tick :: "ks \<Rightarrow> nat \<Rightarrow> ks" where
  "sched_class_proc_tick s p =
     (if p \<noteq> idleproc s then RR_proc_tick s p else upd_proc p (\<lambda>g. g\<lparr>need_resched := True\<rparr>) s)"

definition sched_init :: "ks \<Rightarrow> ks" where
  "sched_init s =
     (let s = s\<lparr>klinks := list_init (klinks s) Timer_list\<rparr>;
          s = s\<lparr>max_time_slice := MAX_TIME_SLICE\<rparr>
      in RR_init s)"

definition wakeup_proc :: "ks \<Rightarrow> nat \<Rightarrow> kpanic + ks" where
  "wakeup_proc s p =
     bindE (assertE (state (procs s p) \<noteq> PROC_ZOMBIE)) (\<lambda>_.
     if state (procs s p) \<noteq> PROC_RUNNABLE then
       (let s = upd_proc p (\<lambda>g. g\<lparr>state := PROC_RUNNABLE, wait_state := 0\<rparr>) s
        in if p \<noteq> current s then sched_class_enqueue s p else Inr s)
     else Inr s)"

definition proc_run :: "ks \<Rightarrow> nat \<Rightarrow> ks" where
  "proc_run s p = (if p \<noteq> current s then s\<lparr>current := p\<rparr> else s)"

definition schedule :: "ks \<Rightarrow> kpanic + ks" where
  "schedule s =
     (let s = upd_proc (current s) (\<lambda>g. g\<lparr>need_resched := False\<rparr>) s in
      bindE (if state (procs s (current s)) = PROC_RUNNABLE then sched_class_enqueue s (current s) else Inr s) (\<lambda>s.
      bindE (case sched_class_pick_next s of
               Some nx \<Rightarrow> bindE (sched_class_dequeue s nx) (\<lambda>s. Inr (s, nx))
             | None \<Rightarrow> Inr (s, idleproc s)) (\<lambda>(s, nx).
      let s = upd_proc nx (\<lambda>g. g\<lparr>runs := runs g + 1\<rparr>) s
      in Inr (if nx \<noteq> current s then proc_run s nx else s))))"

section \<open>Timers\<close>

definition timer_init :: "ks \<Rightarrow> nat \<Rightarrow> nat option \<Rightarrow> u32 \<Rightarrow> ks" where
  "timer_init s t p e =
     (let s = upd_timer t (\<lambda>g. g\<lparr>expires := e, timer_proc := p\<rparr>) s
      in s\<lparr>klinks := list_init (klinks s) (Timer_link t)\<rparr>)"

partial_function (option) add_timer_loop :: "ks \<Rightarrow> nat \<Rightarrow> knode \<Rightarrow> (ks \<times> knode) option" where
  "add_timer_loop s t le =
     (case le of
        Timer_link n \<Rightarrow>
          if expires (timers s t) < expires (timers s n)
          then Some (upd_timer n (\<lambda>g. g\<lparr>expires := expires g - expires (timers s t)\<rparr>) s, le)
          else (let s = upd_timer t (\<lambda>g. g\<lparr>expires := expires g - expires (timers s n)\<rparr>) s
                in add_timer_loop s t (list_next (klinks s) le))
      | _ \<Rightarrow> Some (s, le))"

definition add_timer :: "ks \<Rightarrow> nat \<Rightarrow> (kpanic + ks) option" where
  "add_timer s t =
     (if \<not> (expires (timers s t) > 0 \<and> timer_proc (timers s t) \<noteq> None) then Some (Inl Assert_failed)
      else if \<not> list_empty (klinks s) (Timer_link t) then Some (Inl Assert_failed)
      else map_option (\<lambda>(s, le). Inr (s\<lparr>klinks := list_add_before (klinks s) le (Timer_link t)\<rparr>))
             (add_timer_loop s t (list_next (klinks s) Timer_list)))"

definition del_timer :: "ks \<Rightarrow> nat \<Rightarrow> ks" where
  "del_timer s t =
     (if \<not> list_empty (klinks s) (Timer_link t) then
        (let s = (if expires (timers s t) \<noteq> 0 then
                    (case list_next (klinks s) (Timer_link t) of
                       Timer_link n \<Rightarrow> upd_timer n (\<lambda>g. g\<lparr>expires := expires g + expires (timers s t)\<rparr>) s
                     | _ \<Rightarrow> s)
                  else s)
         in s\<lparr>klinks := list_del_init (klinks s) (Timer_link t)\<rparr>)
      else s)"

text \<open>One expired timer: the process is checked and woken up, the timer deleted.\<close>

definition expire_timer :: "ks \<Rightarrow> nat \<Rightarrow> kpanic + ks" where
  "expire_timer s t =
     (case timer_proc (timers s t) of
        None \<Rightarrow> Inl Null_deref
      | Some p \<Rightarrow>
          bindE (assertE (wait_state (procs s p) \<noteq> 0 \<longrightarrow> wait_state (procs s p) AND WT_INTERRUPTED \<noteq> 0)) (\<lambda>_.
          bindE (wakeup_proc s p) (\<lambda>s. Inr (del_timer s t))))"

partial_function (option) run_timer_loop :: "ks \<Rightarrow> nat \<Rightarrow> knode \<Rightarrow> (kpanic + ks) option" where
  "run_timer_loop s t le =
     (if expires (timers s t) = 0 then
        (let le = list_next (klinks s) le in
         case expire_timer s t of
           Inl e \<Rightarrow> Some (Inl e)
         | Inr s \<Rightarrow> (case le of Timer_link n \<Rightarrow> run_timer_loop s n le | _ \<Rightarrow> Some (Inr s)))
      else Some (Inr s))"

definition run_timer_list :: "ks \<Rightarrow> (kpanic + ks) option" where
  "run_timer_list s =
     map_option (\<lambda>r. bindE r (\<lambda>s. Inr (sched_class_proc_tick s (current s))))
       (case list_next (klinks s) Timer_list of
          Timer_link t \<Rightarrow>
            if expires (timers s t) = 0 then Some (Inl Assert_failed)
            else (let s = upd_timer t (\<lambda>g. g\<lparr>expires := expires g - 1\<rparr>) s
                  in run_timer_loop s t (Timer_link t))
        | _ \<Rightarrow> Some (Inr s))"

end
