(* ===== verification/Sched_Props.thy ===== *)
theory Sched_Props
  imports Sched
begin

text \<open>
  What the scheduler guarantees. \<open>rq_rep\<close> ties the heap to the queue of runnable processes (and to the timer
  list and the wait queues in the same heap); the locale \<open>sched_policy\<close> is the contract of a \<^verbatim>\<open>struct sched_class\<close>
  as the core scheduler uses it, which the round-robin class meets.
\<close>

section \<open>The lists of the kernel\<close>

fun kl :: "nat list \<Rightarrow> nat list \<Rightarrow> (nat \<Rightarrow> nat list) \<Rightarrow> knode \<Rightarrow> knode list" where
  "kl q ts ws Run_list = map Run_link q"
| "kl q ts ws Timer_list = map Timer_link ts"
| "kl q ts ws (Wait_head i) = map Wait_link (ws i)"
| "kl q ts ws _ = []"

lemma linked_kl [simp]:
  "\<not> linked (kl q ts ws) Run_list" "\<not> linked (kl q ts ws) Timer_list" "\<not> linked (kl q ts ws) (Wait_head i)"
  "linked (kl q ts ws) (Run_link p) \<longleftrightarrow> p \<in> set q"
  "linked (kl q ts ws) (Timer_link t) \<longleftrightarrow> t \<in> set ts"
  "linked (kl q ts ws) (Wait_link w) \<longleftrightarrow> (\<exists>i. w \<in> set (ws i))"
proof -
  have *: "linked (kl q ts ws) x \<longleftrightarrow> x \<in> set (map Run_link q) \<or> x \<in> set (map Timer_link ts) \<or>
      (\<exists>i. x \<in> set (map Wait_link (ws i)))" for x
  proof
    assume "linked (kl q ts ws) x"
    then obtain y where "x \<in> set (kl q ts ws y)" by (auto simp: linked_def)
    then show "x \<in> set (map Run_link q) \<or> x \<in> set (map Timer_link ts) \<or> (\<exists>i. x \<in> set (map Wait_link (ws i)))"
      by (cases y) auto
  next
    assume "x \<in> set (map Run_link q) \<or> x \<in> set (map Timer_link ts) \<or> (\<exists>i. x \<in> set (map Wait_link (ws i)))"
    then have "x \<in> set (kl q ts ws Run_list) \<or> x \<in> set (kl q ts ws Timer_list) \<or> (\<exists>i. x \<in> set (kl q ts ws (Wait_head i)))"
      by simp
    then show "linked (kl q ts ws) x" unfolding linked_def by blast
  qed
  show "\<not> linked (kl q ts ws) Run_list" "\<not> linked (kl q ts ws) Timer_list" "\<not> linked (kl q ts ws) (Wait_head i)"
    "linked (kl q ts ws) (Run_link p) \<longleftrightarrow> p \<in> set q"
    "linked (kl q ts ws) (Timer_link t) \<longleftrightarrow> t \<in> set ts"
    "linked (kl q ts ws) (Wait_link w) \<longleftrightarrow> (\<exists>i. w \<in> set (ws i))"
    unfolding * by auto
qed

lemma kl_upd [simp]:
  "(kl q ts ws)(Run_list := map Run_link q') = kl q' ts ws"
  "(kl q ts ws)(Timer_list := map Timer_link ts') = kl q ts' ws"
  "(kl q ts ws)(Wait_head i := map Wait_link w) = kl q ts (ws(i := w))"
proof -
  show "(kl q ts ws)(Run_list := map Run_link q') = kl q' ts ws"
    by (rule ext) (case_tac x; simp)
  show "(kl q ts ws)(Timer_list := map Timer_link ts') = kl q ts' ws"
    by (rule ext) (case_tac x; simp)
  show "(kl q ts ws)(Wait_head i := map Wait_link w) = kl q ts (ws(i := w))"
    by (rule ext) (case_tac x; simp)
qed

lemma kl_fresh: "kl [] [] (\<lambda>_. []) = (\<lambda>_. [])"
proof
  show "kl [] [] (\<lambda>_. []) x = []" for x by (cases x) simp_all
qed

lemma upd_fields [simp]:
  "klinks (upd_proc p f s) = klinks s" "procs (upd_proc p f s) = (procs s)(p := f (procs s p))"
  "timers (upd_proc p f s) = timers s" "waits (upd_proc p f s) = waits s" "sem_value (upd_proc p f s) = sem_value s"
  "proc_num (upd_proc p f s) = proc_num s" "max_time_slice (upd_proc p f s) = max_time_slice s"
  "current (upd_proc p f s) = current s" "idleproc (upd_proc p f s) = idleproc s"
  "klinks (upd_timer t g s) = klinks s" "procs (upd_timer t g s) = procs s"
  "timers (upd_timer t g s) = (timers s)(t := g (timers s t))" "waits (upd_timer t g s) = waits s"
  "sem_value (upd_timer t g s) = sem_value s"
  "proc_num (upd_timer t g s) = proc_num s" "max_time_slice (upd_timer t g s) = max_time_slice s"
  "current (upd_timer t g s) = current s" "idleproc (upd_timer t g s) = idleproc s"
  "klinks (upd_wait w k s) = klinks s" "procs (upd_wait w k s) = procs s"
  "timers (upd_wait w k s) = timers s" "waits (upd_wait w k s) = (waits s)(w := k (waits s w))"
  "sem_value (upd_wait w k s) = sem_value s"
  "proc_num (upd_wait w k s) = proc_num s" "max_time_slice (upd_wait w k s) = max_time_slice s"
  "current (upd_wait w k s) = current s" "idleproc (upd_wait w k s) = idleproc s"
  by (simp_all add: upd_proc_def upd_timer_def upd_wait_def)

section \<open>The run queue\<close>

type_synonym rest = "nat list \<times> (nat \<Rightarrow> nat list)"

definition rq_rep :: "ks \<Rightarrow> nat list \<Rightarrow> rest \<Rightarrow> bool" where
  "rq_rep s q r \<longleftrightarrow>
     heap_lists (klinks s) (kl q (fst r) (snd r)) \<and> proc_num s = of_nat (length q) \<and> 0 < max_time_slice s \<and>
     (\<forall>p. 0 \<le> time_slice (procs s p)) \<and>
     (\<forall>p \<in> set q. on_rq (procs s p) \<and> 0 < time_slice (procs s p) \<and> time_slice (procs s p) \<le> max_time_slice s)"

text \<open>What moving processes in and out of the queue leaves alone.\<close>

definition same_procs :: "ks \<Rightarrow> ks \<Rightarrow> bool" where
  "same_procs s s' \<longleftrightarrow>
     (\<forall>p. state (procs s' p) = state (procs s p) \<and> wait_state (procs s' p) = wait_state (procs s p) \<and>
       runs (procs s' p) = runs (procs s p) \<and> need_resched (procs s' p) = need_resched (procs s p)) \<and>
     timers s' = timers s \<and> waits s' = waits s \<and> sem_value s' = sem_value s \<and>
     max_time_slice s' = max_time_slice s \<and> current s' = current s \<and> idleproc s' = idleproc s"

lemma same_procs_refl [simp]: "same_procs s s"
  by (simp add: same_procs_def)

lemma same_procs_trans: "same_procs s s' \<Longrightarrow> same_procs s' s'' \<Longrightarrow> same_procs s s''"
  by (simp add: same_procs_def)

lemma RR_enqueue_ok:
  assumes rep: "rq_rep s q r" and p: "p \<notin> set q"
  shows "\<exists>s'. RR_enqueue s p = Inr s' \<and> rq_rep s' (q @ [p]) r \<and> same_procs s s'"
proof -
  let ?F = "kl q (fst r) (snd r)"
  have hl: "heap_lists (klinks s) ?F" using rep by (simp add: rq_rep_def)
  have "list_empty (klinks s) (Run_link p)"
    using heap_lists_empty_entry [OF hl, of "Run_link p"] p by simp
  moreover have "heap_lists (list_add_before (klinks s) Run_list (Run_link p)) (kl (q @ [p]) (fst r) (snd r))"
    using heap_lists_push_back [OF hl, of Run_list "Run_link p"] p kl_upd(1) [where q' = "q @ [p]"] by simp
  moreover have "time_slice (procs s p) \<noteq> 0 \<Longrightarrow> 0 < time_slice (procs s p)"
    using rep by (simp add: rq_rep_def less_le)
  ultimately show ?thesis using rep
    by (auto simp: RR_enqueue_def guardE_def Let_def rq_rep_def same_procs_def)
qed

lemma RR_dequeue_ok:
  assumes rep: "rq_rep s q r" and p: "p \<in> set q"
  shows "\<exists>s'. RR_dequeue s p = Inr s' \<and> rq_rep s' (remove1 p q) r \<and> same_procs s s'"
proof -
  let ?F = "kl q (fst r) (snd r)"
  have hl: "heap_lists (klinks s) ?F" using rep by (simp add: rq_rep_def)
  obtain xs ys where q: "q = xs @ p # ys" "p \<notin> set xs" using p by (metis split_list_first)
  then have rm: "remove1 p q = xs @ ys" by (simp add: remove1_append)
  have "heap_lists (list_del_init (klinks s) (Run_link p)) (?F(Run_list := map Run_link xs @ map Run_link ys))"
    by (rule heap_lists_del [OF hl]) (simp add: q)
  then have "heap_lists (list_del_init (klinks s) (Run_link p)) (kl (remove1 p q) (fst r) (snd r))"
    unfolding rm by (simp flip: map_append)
  moreover have "\<not> list_empty (klinks s) (Run_link p)"
    using heap_lists_empty_entry [OF hl, of "Run_link p"] p by simp
  moreover have "proc_num s - 1 = of_nat (length (remove1 p q))"
    using rep q rm by (simp add: rq_rep_def)
  moreover have "set (remove1 p q) \<subseteq> set q" by (rule set_remove1_subset)
  ultimately show ?thesis using rep p
    by (auto simp: RR_dequeue_def guardE_def rq_rep_def same_procs_def)
qed

lemma RR_pick_next_ok:
  assumes rep: "rq_rep s q r"
  shows "RR_pick_next s = (case q of [] \<Rightarrow> None | p # _ \<Rightarrow> Some p)"
proof -
  have "heap_lists (klinks s) (kl q (fst r) (snd r))" using rep by (simp add: rq_rep_def)
  from heap_lists_first [OF this, of Run_list] show ?thesis
    by (cases q) (simp_all add: RR_pick_next_def)
qed

text \<open>
  The contract of a scheduling class, as \<^verbatim>\<open>schedule\<close> and \<^verbatim>\<open>wakeup_proc\<close> use it. \<open>r\<close> is what else is in the heap.
\<close>

locale sched_policy =
  fixes enqueue :: "'s \<Rightarrow> nat \<Rightarrow> 'e + 's" and dequeue :: "'s \<Rightarrow> nat \<Rightarrow> 'e + 's"
    and pick_next :: "'s \<Rightarrow> nat option"
    and rep :: "'s \<Rightarrow> nat list \<Rightarrow> 'r \<Rightarrow> bool" and same :: "'s \<Rightarrow> 's \<Rightarrow> bool"
  assumes enqueue_law: "rep s q r \<Longrightarrow> p \<notin> set q \<Longrightarrow> \<exists>s'. enqueue s p = Inr s' \<and> rep s' (q @ [p]) r \<and> same s s'"
    and dequeue_law: "rep s q r \<Longrightarrow> p \<in> set q \<Longrightarrow> \<exists>s'. dequeue s p = Inr s' \<and> rep s' (remove1 p q) r \<and> same s s'"
    and pick_law: "rep s q r \<Longrightarrow> pick_next s = (case q of [] \<Rightarrow> None | p # _ \<Rightarrow> Some p)"
    and same_trans: "same s s' \<Longrightarrow> same s' s'' \<Longrightarrow> same s s''" and same_refl: "same s s"
begin

text \<open>Taking the first process off the queue.\<close>

lemma pick_dequeue:
  assumes "rep s (p # q) r"
  shows "pick_next s = Some p" "\<exists>s'. dequeue s p = Inr s' \<and> rep s' q r \<and> same s s'"
  using pick_law [OF assms] dequeue_law [OF assms, of p] by simp_all

text \<open>A process that goes to the end of the queue before the first is taken off.\<close>

lemma rotate_queue:
  assumes "rep s q r" "p \<notin> set q"
  shows "\<exists>s1 s2. enqueue s p = Inr s1 \<and> pick_next s1 = Some (hd (q @ [p])) \<and>
    dequeue s1 (hd (q @ [p])) = Inr s2 \<and> rep s2 (tl (q @ [p])) r \<and> same s s1 \<and> same s s2"
proof -
  obtain s1 where s1: "enqueue s p = Inr s1" "rep s1 (q @ [p]) r" "same s s1"
    using enqueue_law [OF assms] by blast
  then have "rep s1 (hd (q @ [p]) # tl (q @ [p])) r" by simp
  from pick_dequeue [OF this] s1 same_trans show ?thesis by blast
qed

end

interpretation RR: sched_policy RR_enqueue RR_dequeue RR_pick_next rq_rep same_procs
  by unfold_locales (blast intro: RR_enqueue_ok RR_dequeue_ok RR_pick_next_ok same_procs_trans same_procs_refl)+

section \<open>Scheduling\<close>

text \<open>The queue holds exactly the runnable processes that are not running, the idle process apart.\<close>

definition sched_inv :: "ks \<Rightarrow> nat list \<Rightarrow> rest \<Rightarrow> bool" where
  "sched_inv s q r \<longleftrightarrow> rq_rep s q r \<and>
     (\<forall>p. p \<in> set q \<longleftrightarrow> state (procs s p) = PROC_RUNNABLE \<and> p \<noteq> current s \<and> p \<noteq> idleproc s)"

lemma rq_rep_upd:
  assumes "rq_rep s q r" "on_rq (f (procs s p)) = on_rq (procs s p)"
    "time_slice (f (procs s p)) = time_slice (procs s p)"
  shows "rq_rep (upd_proc p f s) q r"
  using assms by (auto simp: rq_rep_def)

lemma rq_rep_current: "rq_rep (s\<lparr>current := c\<rparr>) q r = rq_rep s q r"
  by (simp add: rq_rep_def)

lemma sched_inv_transfer:
  assumes "sched_inv s q (ts, ws)" "heap_lists (klinks s') (kl q ts' ws')" "procs s' = procs s"
    "proc_num s' = proc_num s" "max_time_slice s' = max_time_slice s" "current s' = current s" "idleproc s' = idleproc s"
  shows "sched_inv s' q (ts', ws')"
  using assms by (simp add: sched_inv_def rq_rep_def)

lemma sched_inv_lists: "sched_inv s q (ts, ws) \<Longrightarrow> heap_lists (klinks s) (kl q ts ws)"
  by (simp add: sched_inv_def rq_rep_def)

definition next_queue :: "ks \<Rightarrow> nat list \<Rightarrow> nat list" where
  "next_queue s q =
     q @ (if state (procs s (current s)) = PROC_RUNNABLE \<and> current s \<noteq> idleproc s then [current s] else [])"

definition next_proc :: "ks \<Rightarrow> nat list \<Rightarrow> nat" where
  "next_proc s q = hd (next_queue s q @ [idleproc s])"

text \<open>What a call of \<^verbatim>\<open>schedule\<close> does to the processes: only the bookkeeping fields change.\<close>

definition sched_effect :: "ks \<Rightarrow> nat \<Rightarrow> ks \<Rightarrow> bool" where
  "sched_effect s nx s' \<longleftrightarrow> current s' = nx \<and> idleproc s' = idleproc s \<and> max_time_slice s' = max_time_slice s \<and>
     timers s' = timers s \<and> waits s' = waits s \<and> sem_value s' = sem_value s \<and>
     (\<forall>p. state (procs s' p) = state (procs s p) \<and> wait_state (procs s' p) = wait_state (procs s p) \<and>
       runs (procs s' p) = (if p = nx then runs (procs s p) + 1 else runs (procs s p))) \<and>
     \<not> need_resched (procs s' (current s))"

lemma schedule_correct:
  assumes inv: "sched_inv s q r"
  shows "\<exists>s'. schedule s = Inr s' \<and> sched_inv s' (tl (next_queue s q)) r \<and> sched_effect s (next_proc s q) s'"
proof -
  let ?c = "current s" and ?i = "idleproc s"
  define s0 where "s0 = upd_proc ?c (\<lambda>g. g\<lparr>need_resched := False\<rparr>) s"
  have rep0: "rq_rep s0 q r" unfolding s0_def
    by (rule rq_rep_upd) (use inv in \<open>simp_all add: sched_inv_def\<close>)
  have mem: "p \<in> set q \<longleftrightarrow> state (procs s p) = PROC_RUNNABLE \<and> p \<noteq> ?c \<and> p \<noteq> ?i" for p
    using inv by (simp add: sched_inv_def)
  have s0: "current s0 = ?c" "idleproc s0 = ?i" "state (procs s0 p) = state (procs s p)" for p
    by (simp_all add: s0_def)
  define again where "again = (state (procs s ?c) = PROC_RUNNABLE \<and> ?c \<noteq> ?i)"
  have nq: "next_queue s q = q @ (if again then [?c] else [])" by (simp add: next_queue_def again_def)
  have "\<exists>s1. (if state (procs s0 (current s0)) = PROC_RUNNABLE then sched_class_enqueue s0 (current s0) else Inr s0) = Inr s1
      \<and> rq_rep s1 (next_queue s q) r \<and> same_procs s0 s1"
  proof (cases again)
    case True
    then have "?c \<notin> set q" using mem by simp
    from RR_enqueue_ok [OF rep0 this] True show ?thesis
      by (auto simp: sched_class_enqueue_def s0 again_def nq)
  next
    case False
    then show ?thesis using rep0 by (auto simp: sched_class_enqueue_def s0 again_def nq)
  qed
  then obtain s1 where s1: "(if state (procs s0 (current s0)) = PROC_RUNNABLE then sched_class_enqueue s0 (current s0) else Inr s0) = Inr s1"
      "rq_rep s1 (next_queue s q) r" "same_procs s0 s1" by blast
  have "\<exists>s2. (case sched_class_pick_next s1 of Some nx \<Rightarrow> bindE (sched_class_dequeue s1 nx) (\<lambda>s. Inr (s, nx))
      | None \<Rightarrow> Inr (s1, idleproc s1)) = Inr (s2, next_proc s q) \<and> rq_rep s2 (tl (next_queue s q)) r \<and> same_procs s0 s2"
  proof (cases "next_queue s q")
    case Nil
    with s1 RR_pick_next_ok [OF s1(2)] show ?thesis
      by (auto simp: sched_class_pick_next_def next_proc_def same_procs_def s0_def)
  next
    case (Cons p ps)
    with s1(2) have "rq_rep s1 (p # ps) r" by simp
    from RR.pick_dequeue [OF this] same_procs_trans [OF s1(3)] Cons show ?thesis
      by (auto simp: sched_class_pick_next_def sched_class_dequeue_def next_proc_def)
  qed
  then obtain s2 where s2: "(case sched_class_pick_next s1 of Some nx \<Rightarrow> bindE (sched_class_dequeue s1 nx) (\<lambda>s. Inr (s, nx))
      | None \<Rightarrow> Inr (s1, idleproc s1)) = Inr (s2, next_proc s q)" "rq_rep s2 (tl (next_queue s q)) r" "same_procs s0 s2" by blast
  let ?n = "next_proc s q"
  define s3 where "s3 = upd_proc ?n (\<lambda>g. g\<lparr>runs := runs g + 1\<rparr>) s2"
  define s4 where "s4 = (if ?n \<noteq> current s3 then proc_run s3 ?n else s3)"
  have run: "schedule s = Inr s4"
    using s1(1) s2(1) by (simp add: schedule_def s0_def [symmetric] s3_def s4_def Let_def)
  have r3: "rq_rep s3 (tl (next_queue s q)) r" unfolding s3_def by (rule rq_rep_upd [OF s2(2)]) simp_all
  have s4: "s4 = s3\<lparr>current := ?n\<rparr>" by (simp add: s4_def proc_run_def)
  have eff: "sched_effect s ?n s4"
    using s2(3) by (auto simp: sched_effect_def s4 s3_def same_procs_def s0_def)
  have "p \<in> set (tl (next_queue s q)) \<longleftrightarrow> state (procs s p) = PROC_RUNNABLE \<and> p \<noteq> ?n \<and> p \<noteq> ?i" for p
  proof -
    have d: "distinct (next_queue s q)"
      using heap_lists_distinct [of "klinks s1" "kl (next_queue s q) (fst r) (snd r)" Run_list] s1(2) by (auto simp: rq_rep_def distinct_map inj_on_def)
    have m: "p \<in> set (next_queue s q) \<longleftrightarrow> state (procs s p) = PROC_RUNNABLE \<and> p \<noteq> ?i"
      using mem [of p] by (auto simp: nq again_def)
    show ?thesis using d m by (cases "next_queue s q") (auto simp: next_proc_def)
  qed
  then have "sched_inv s4 (tl (next_queue s q)) r"
    using r3 eff by (simp add: sched_inv_def s4 rq_rep_current sched_effect_def)
  with run eff show ?thesis by blast
qed

text \<open>Waking up: the process becomes runnable and, unless it is running or idle, goes to the end of the queue.\<close>

definition woken :: "ks \<Rightarrow> nat \<Rightarrow> nat list \<Rightarrow> nat list" where
  "woken s p q = q @ (if state (procs s p) = PROC_RUNNABLE \<or> p = current s \<or> p = idleproc s then [] else [p])"

definition wakeup_effect :: "ks \<Rightarrow> nat \<Rightarrow> ks \<Rightarrow> bool" where
  "wakeup_effect s p s' \<longleftrightarrow> current s' = current s \<and> idleproc s' = idleproc s \<and> max_time_slice s' = max_time_slice s \<and>
     timers s' = timers s \<and> waits s' = waits s \<and> sem_value s' = sem_value s \<and>
     state (procs s' p) = PROC_RUNNABLE \<and>
     wait_state (procs s' p) = (if state (procs s p) = PROC_RUNNABLE then wait_state (procs s p) else 0) \<and>
     (\<forall>x. x \<noteq> p \<longrightarrow> state (procs s' x) = state (procs s x) \<and> wait_state (procs s' x) = wait_state (procs s x))"

lemma wakeup_proc_correct:
  assumes inv: "sched_inv s q r" and z: "state (procs s p) \<noteq> PROC_ZOMBIE"
  shows "\<exists>s'. wakeup_proc s p = Inr s' \<and> sched_inv s' (woken s p q) r \<and> wakeup_effect s p s'"
proof (cases "state (procs s p) = PROC_RUNNABLE")
  case True
  then show ?thesis using inv by (auto simp: wakeup_proc_def guardE_def woken_def wakeup_effect_def)
next
  case False
  define s0 where "s0 = upd_proc p (\<lambda>g. g\<lparr>state := PROC_RUNNABLE, wait_state := 0\<rparr>) s"
  have rep0: "rq_rep s0 q r" unfolding s0_def by (rule rq_rep_upd) (use inv in \<open>simp_all add: sched_inv_def\<close>)
  have mem: "x \<in> set q \<longleftrightarrow> state (procs s x) = PROC_RUNNABLE \<and> x \<noteq> current s \<and> x \<noteq> idleproc s" for x
    using inv by (simp add: sched_inv_def)
  show ?thesis
  proof (cases "p = current s \<or> p = idleproc s")
    case True
    then have "wakeup_proc s p = Inr s0"
      using z False by (auto simp: wakeup_proc_def guardE_def sched_class_enqueue_def s0_def Let_def)
    moreover have "sched_inv s0 (woken s p q) r"
      using rep0 mem True False by (auto simp: sched_inv_def woken_def s0_def)
    ultimately show ?thesis using False by (auto simp: wakeup_effect_def s0_def)
  next
    case np: False
    have "p \<notin> set q" using mem False by simp
    from RR_enqueue_ok [OF rep0 this] obtain s1 where s1: "RR_enqueue s0 p = Inr s1" "rq_rep s1 (q @ [p]) r" "same_procs s0 s1"
      by blast
    have "wakeup_proc s p = Inr s1"
      using z False np s1(1) by (auto simp: wakeup_proc_def guardE_def sched_class_enqueue_def s0_def Let_def)
    moreover have "sched_inv s1 (woken s p q) r"
      using s1(2,3) mem np False by (auto simp: sched_inv_def woken_def same_procs_def s0_def)
    moreover have "wakeup_effect s p s1"
      using s1(3) False by (auto simp: wakeup_effect_def same_procs_def s0_def)
    ultimately show ?thesis by blast
  qed
qed

fun schedule_n :: "nat \<Rightarrow> ks \<Rightarrow> kpanic + ks" where
  "schedule_n 0 s = Inr s"
| "schedule_n (Suc n) s = bindE (schedule s) (schedule_n n)"

section \<open>Properties\<close>

definition two_procs :: ks where
  "two_procs = \<lparr>klinks = \<lparr>prev_of = id, next_of = id\<rparr>,
     procs = (\<lambda>p. \<lparr>state = (if p \<le> 2 then PROC_RUNNABLE else PROC_UNINIT), runs = 0, need_resched = False,
       wait_state = 0, on_rq = False, time_slice = 0\<rparr>),
     timers = (\<lambda>_. \<lparr>expires = 0, timer_proc = None\<rparr>),
     waits = (\<lambda>_. \<lparr>wait_proc = None, wakeup_flags = 0, wait_queue = None\<rparr>),
     sem_value = (\<lambda>_. 0), proc_num = 0, max_time_slice = 20, current = 0, idleproc = 0\<rparr>"

text \<open>Process 0 is idle and running; 1 and 2 have been queued.\<close>

definition queued_procs :: ks where
  "queued_procs = (case bindE (RR_enqueue two_procs 1) (\<lambda>s. RR_enqueue s 2) of Inr s \<Rightarrow> s | Inl _ \<Rightarrow> two_procs)"

lemma queued_procs_inv: "sched_inv queued_procs [1, 2] ([], \<lambda>_. [])"
proof -
  have "rq_rep two_procs [] ([], \<lambda>_. [])"
    using heap_lists_fresh by (simp add: rq_rep_def two_procs_def kl_fresh)
  from RR_enqueue_ok [OF this, of 1] obtain s1 where s1: "RR_enqueue two_procs 1 = Inr s1" "rq_rep s1 [1] ([], \<lambda>_. [])"
    "same_procs two_procs s1" by auto
  from RR_enqueue_ok [OF s1(2), of 2] obtain s2 where s2: "RR_enqueue s1 2 = Inr s2" "rq_rep s2 [1, 2] ([], \<lambda>_. [])"
    "same_procs s1 s2" by auto
  have q: "queued_procs = s2" using s1(1) s2(1) by (simp add: queued_procs_def)
  have "same_procs two_procs s2" using same_procs_trans [OF s1(3) s2(3)] .
  then show ?thesis using s2(2) unfolding q sched_inv_def same_procs_def by (auto simp: two_procs_def)
qed

text \<open>
  C12. \<^verbatim>\<open>schedule\<close> is round robin: it fails no assertion, puts the running process at the end of the queue if it
  is still runnable, and runs the process at the head, or the idle process when none is runnable. The queue
  again holds exactly the runnable processes that do not run.
\<close>

theorem schedule_round_robin:
  assumes "sched_inv s q r"
  shows "\<exists>s'. schedule s = Inr s' \<and> sched_inv s' (tl (next_queue s q)) r \<and> sched_effect s (next_proc s q) s'"
  using assms by (rule schedule_correct)

theorem schedule_round_robin_witness:
  "\<exists>s'. schedule queued_procs = Inr s' \<and> current s' = 1 \<and> sched_inv s' [2] ([], \<lambda>_. [])"
proof -
  have "idleproc queued_procs = 0" "current queued_procs = 0"
    by (simp_all add: queued_procs_def two_procs_def RR_enqueue_def Let_def guardE_def list_empty_def list_add_before_def list_add_between_def)
  then show ?thesis
    using schedule_round_robin [OF queued_procs_inv] by (auto simp: next_queue_def next_proc_def sched_effect_def)
qed

text \<open>
  C11. No runnable process starves: the process at position \<open>k\<close> of the queue is running after \<open>k + 1\<close> calls of
  \<^verbatim>\<open>schedule\<close>.
\<close>

theorem round_robin_fair:
  assumes "sched_inv s q r" and "k < length q"
  shows "\<exists>s'. schedule_n (Suc k) s = Inr s' \<and> current s' = q ! k"
  using assms
proof (induction k arbitrary: s q)
  case 0
  then show ?case using schedule_correct [OF "0.prems"(1)]
    by (cases q) (auto simp: sched_effect_def next_proc_def next_queue_def)
next
  case (Suc k)
  obtain s1 where s1: "schedule s = Inr s1" "sched_inv s1 (tl (next_queue s q)) r"
    using schedule_correct [OF Suc.prems(1)] by blast
  have "tl (next_queue s q) ! k = q ! Suc k" "k < length (tl (next_queue s q))"
    using Suc.prems(2) by (cases q; auto simp: next_queue_def nth_append)+
  with Suc.IH [OF s1(2)] s1(1) show ?case by simp
qed

theorem round_robin_fair_witness: "\<exists>s'. schedule_n 2 queued_procs = Inr s' \<and> current s' = 2"
  using round_robin_fair [OF queued_procs_inv, of 1] by (simp add: numeral_2_eq_2)

text \<open>
  \<^verbatim>\<open>wakeup_proc\<close> on a process that is not a zombie makes it runnable and appends it to the run queue, unless
  it was runnable already, is running, or is the idle process; no other process is affected. On a zombie the
  assertion fails.
\<close>

theorem wakeup_enqueues:
  assumes "sched_inv s q r"
  shows "if state (procs s p) = PROC_ZOMBIE then wakeup_proc s p = Inl Assert_failed
    else \<exists>s'. wakeup_proc s p = Inr s' \<and> sched_inv s' (woken s p q) r \<and> wakeup_effect s p s'"
  using wakeup_proc_correct [OF assms] by (simp add: wakeup_proc_def guardE_def)

theorem wakeup_enqueues_witness:
  "\<exists>s'. wakeup_proc queued_procs 5 = Inr s' \<and> sched_inv s' [1, 2, 5] ([], \<lambda>_. [])"
proof -
  have "idleproc queued_procs = 0" "current queued_procs = 0" "state (procs queued_procs 5) = PROC_UNINIT"
    by (simp_all add: queued_procs_def two_procs_def RR_enqueue_def Let_def guardE_def list_empty_def list_add_before_def list_add_between_def)
  then show ?thesis using wakeup_enqueues [OF queued_procs_inv, of 5] by (auto simp: woken_def)
qed

end
