(* ===== verification/Timer_Props.thy ===== *)
theory Timer_Props
  imports Sched_Props
begin

text \<open>
  The timer list of \<^verbatim>\<open>kern/schedule/sched.c\<close>. The list stores, for each timer, the ticks between its expiry and
  that of its predecessor; \<open>dues\<close> recovers the absolute times. In these terms \<^verbatim>\<open>add_timer\<close> inserts into a sorted
  list, \<^verbatim>\<open>del_timer\<close> removes one element, and \<^verbatim>\<open>run_timer_list\<close> lets one tick pass.
\<close>

section \<open>Absolute times\<close>

fun dues :: "(nat \<Rightarrow> timer) \<Rightarrow> nat \<Rightarrow> nat list \<Rightarrow> nat list" where
  "dues T b [] = []"
| "dues T b (t # ts) = (b + unat (expires (T t))) # dues T (b + unat (expires (T t))) ts"

lemma dues_cong: "(\<And>x. x \<in> set ts \<Longrightarrow> expires (T' x) = expires (T x)) \<Longrightarrow> dues T' b ts = dues T b ts"
  by (induction ts arbitrary: b) auto

lemma length_dues [simp]: "length (dues T b ts) = length ts"
  by (induction ts arbitrary: b) auto

lemma dues_append:
  "dues T b (xs @ ys) = dues T b xs @ dues T (b + (\<Sum>t\<leftarrow>xs. unat (expires (T t)))) ys"
  by (induction xs arbitrary: b) (auto simp: ac_simps)

lemma dues_sorted: "sorted (dues T b ts) \<and> (\<forall>d \<in> set (dues T b ts). b \<le> d)"
proof (induction ts arbitrary: b)
  case (Cons t ts)
  from Cons [of "b + unat (expires (T t))"] show ?case by fastforce
qed simp

lemma dues_Suc: "dues T (Suc b) ts = map Suc (dues T b ts)"
  by (induction ts arbitrary: b) auto

definition timers_wf :: "ks \<Rightarrow> nat list \<Rightarrow> bool" where
  "timers_wf s ts \<longleftrightarrow>
     (\<forall>t \<in> set ts. timer_proc (timers s t) \<noteq> None) \<and>
     (\<forall>d \<in> set (dues (timers s) 0 ts). 0 < d \<and> d < 2 ^ 32)"

section \<open>Adding a timer\<close>

text \<open>Everything but the timers is as before.\<close>

definition only_timers :: "ks \<Rightarrow> ks \<Rightarrow> bool" where
  "only_timers s s' \<longleftrightarrow> klinks s' = klinks s \<and> procs s' = procs s \<and> waits s' = waits s \<and>
     sem_value s' = sem_value s \<and> proc_num s' = proc_num s \<and> max_time_slice s' = max_time_slice s \<and>
     current s' = current s \<and> idleproc s' = idleproc s \<and>
     (\<forall>t. timer_proc (timers s' t) = timer_proc (timers s t))"

lemma only_timers_upd:
  "(\<And>g. timer_proc (f g) = timer_proc g) \<Longrightarrow> only_timers s (upd_timer t f s)"
  by (simp add: only_timers_def)

lemma only_timers_trans: "only_timers s s' \<Longrightarrow> only_timers s' s'' \<Longrightarrow> only_timers s s''"
  by (simp add: only_timers_def)

lemma add_timer_loop_correct:
  assumes "heap_lists (klinks s) (kl q (xs @ ys) ws)" and "t \<notin> set ys" and "distinct ys"
  shows "\<exists>s' us vs. ys = us @ vs \<and>
    length us = length (takeWhile (\<lambda>d. d \<le> b + unat (expires (timers s t))) (dues (timers s) b ys)) \<and>
    add_timer_loop s t (hd (map Timer_link ys @ [Timer_list])) = Some (s', hd (map Timer_link vs @ [Timer_list])) \<and>
    only_timers s s' \<and> (\<forall>x. x \<noteq> t \<and> x \<notin> set ys \<longrightarrow> timers s' x = timers s x) \<and>
    (let e = b + unat (expires (timers s t)); D = dues (timers s) b ys in
     dues (timers s') b (us @ t # vs) = takeWhile (\<lambda>d. d \<le> e) D @ e # dropWhile (\<lambda>d. d \<le> e) D)"
  using assms
proof (induction ys arbitrary: s xs b)
  case Nil
  have "add_timer_loop s t Timer_list = Some (s, Timer_list)" by (subst add_timer_loop.simps) simp
  then show ?case by (auto simp: only_timers_def)
next
  case (Cons y ys)
  have ne: "y \<noteq> t" "t \<notin> set ys" "y \<notin> set ys" "distinct ys" using Cons.prems by auto
  show ?case
  proof (cases "expires (timers s t) < expires (timers s y)")
    case True
    define s1 where "s1 = upd_timer y (\<lambda>g. g\<lparr>expires := expires g - expires (timers s t)\<rparr>) s"
    have lp: "add_timer_loop s t (Timer_link y) = Some (s1, Timer_link y)"
      using True by (subst add_timer_loop.simps) (simp add: s1_def)
    have ot: "only_timers s s1" unfolding s1_def by (rule only_timers_upd) simp
    have oth: "timers s1 x = timers s x" if "x \<noteq> y" for x using that by (simp add: s1_def)
    have lt: "unat (expires (timers s t)) < unat (expires (timers s y))" using True by (simp add: word_less_nat_alt)
    have "unat (expires (timers s1 y)) = unat (expires (timers s y)) - unat (expires (timers s t))"
      using True by (simp add: s1_def unat_sub less_imp_le)
    moreover have "dues (timers s1) b' ys = dues (timers s) b' ys" for b'
      by (rule dues_cong) (use ne oth in metis)
    ultimately have "dues (timers s1) b (t # y # ys) = (b + unat (expires (timers s t))) # dues (timers s) b (y # ys)"
      using lt oth ne by simp
    with lp ot oth oth [OF ne(1) [symmetric]] lt show ?thesis
      by - (rule exI [of _ s1], rule exI [of _ "[]"], rule exI [of _ "y # ys"], simp add: Let_def)
  next
    case False
    define s1 where "s1 = upd_timer t (\<lambda>g. g\<lparr>expires := expires g - expires (timers s y)\<rparr>) s"
    have le: "unat (expires (timers s y)) \<le> unat (expires (timers s t))"
      using False by (simp add: word_le_nat_alt not_less)
    have ex: "unat (expires (timers s1 t)) = unat (expires (timers s t)) - unat (expires (timers s y))"
      using False by (simp add: s1_def unat_sub not_less)
    have oth: "timers s1 x = timers s x" if "x \<noteq> t" for x using that by (simp add: s1_def)
    have kl: "klinks s1 = klinks s" by (simp add: s1_def)
    have nx: "list_next (klinks s) (Timer_link y) = hd (map Timer_link ys @ [Timer_list])"
      by (rule heap_lists_after [OF Cons.prems(1), of _ "map Timer_link xs"]) simp
    let ?b = "b + unat (expires (timers s y))" and ?e = "b + unat (expires (timers s t))"
    have "heap_lists (klinks s1) (kl q ((xs @ [y]) @ ys) ws)" using Cons.prems(1) kl by simp
    from Cons.IH [OF this ne(2,4), of ?b] obtain s' us vs where r: "ys = us @ vs"
      "length us = length (takeWhile (\<lambda>d. d \<le> ?b + unat (expires (timers s1 t))) (dues (timers s1) ?b ys))"
      "add_timer_loop s1 t (hd (map Timer_link ys @ [Timer_list])) = Some (s', hd (map Timer_link vs @ [Timer_list]))"
      "only_timers s1 s'" "\<forall>x. x \<noteq> t \<and> x \<notin> set ys \<longrightarrow> timers s' x = timers s1 x"
      "dues (timers s') ?b (us @ t # vs) =
        takeWhile (\<lambda>d. d \<le> ?b + unat (expires (timers s1 t))) (dues (timers s1) ?b ys) @
        (?b + unat (expires (timers s1 t))) # dropWhile (\<lambda>d. d \<le> ?b + unat (expires (timers s1 t))) (dues (timers s1) ?b ys)"
      unfolding Let_def by (elim exE conjE) (rule that, assumption+)
    have du: "dues (timers s1) ?b ys = dues (timers s) ?b ys" by (rule dues_cong) (use ne oth in metis)
    have e: "?b + unat (expires (timers s1 t)) = ?e" using ex le by simp
    have st: "add_timer_loop s t (Timer_link y) = Some (s', hd (map Timer_link vs @ [Timer_list]))"
      using False r(3) nx by (subst add_timer_loop.simps) (simp add: Let_def s1_def)
    have "only_timers s s1" unfolding s1_def by (rule only_timers_upd) simp
    then have ot: "only_timers s s'" using r(4) by (rule only_timers_trans)
    have y: "timers s' y = timers s y" using r(5) ne oth [of y] by simp
    have d: "dues (timers s') b ((y # us) @ t # vs) =
        takeWhile (\<lambda>d. d \<le> ?e) (dues (timers s) b (y # ys)) @ ?e # dropWhile (\<lambda>d. d \<le> ?e) (dues (timers s) b (y # ys))"
      using r(6) le unfolding e du by (simp add: y)
    have f: "\<forall>x. x \<noteq> t \<and> x \<notin> set (y # ys) \<longrightarrow> timers s' x = timers s x"
      using r(5) oth by simp
    have l: "length (y # us) = length (takeWhile (\<lambda>d. d \<le> ?e) (dues (timers s) b (y # ys)))"
      using r(2) le unfolding e du by simp
    have a: "y # ys = (y # us) @ vs" using r(1) by simp
    have c: "add_timer_loop s t (hd (map Timer_link (y # ys) @ [Timer_list])) = Some (s', hd (map Timer_link vs @ [Timer_list]))"
      using st by simp
    show ?thesis unfolding Let_def
      by (rule exI [of _ s'], rule exI [of _ "y # us"], rule exI [of _ vs]) (intro conjI a l c ot f d)
  qed
qed

lemma map_link_insert: "(kl q ts ws)(Timer_list := map Timer_link us @ Timer_link t # map Timer_link vs) = kl q (us @ t # vs) ws"
  using kl_upd(2) [of q ts ws "us @ t # vs"] by simp

lemma add_timer_correct:
  assumes inv: "sched_inv s q (ts, ws)" and wf: "timers_wf s ts"
    and t: "t \<notin> set ts" "expires (timers s t) > 0" "timer_proc (timers s t) \<noteq> None"
  defines "e \<equiv> unat (expires (timers s t))" and "D \<equiv> dues (timers s) 0 ts"
  defines "k \<equiv> length (takeWhile (\<lambda>d. d \<le> e) D)"
  shows "\<exists>s'. add_timer s t = Some (Inr s') \<and> sched_inv s' q (take k ts @ t # drop k ts, ws) \<and>
    timers_wf s' (take k ts @ t # drop k ts) \<and> procs s' = procs s \<and>
    (\<forall>x. timer_proc (timers s' x) = timer_proc (timers s x)) \<and> current s' = current s \<and> idleproc s' = idleproc s \<and>
    dues (timers s') 0 (take k ts @ t # drop k ts) = take k D @ e # drop k D"
proof -
  note hl = sched_inv_lists [OF inv]
  have dt: "distinct ts"
    using heap_lists_distinct [OF hl, of Timer_list] by (simp add: distinct_map inj_on_def)
  have le: "list_next (klinks s) Timer_list = hd (map Timer_link ts @ [Timer_list])"
    using heap_lists_first [OF hl, of Timer_list] by simp
  have emp: "list_empty (klinks s) (Timer_link t)"
    using heap_lists_empty_entry [OF hl, of "Timer_link t"] t(1) by simp
  have "heap_lists (klinks s) (kl q ([] @ ts) ws)" using hl by simp
  from add_timer_loop_correct [OF this t(1) dt, of 0]
  have "\<exists>s1 us vs. ts = us @ vs \<and> length us = k \<and>
    add_timer_loop s t (hd (map Timer_link ts @ [Timer_list])) = Some (s1, hd (map Timer_link vs @ [Timer_list])) \<and>
    only_timers s s1 \<and> (\<forall>x. x \<noteq> t \<and> x \<notin> set ts \<longrightarrow> timers s1 x = timers s x) \<and>
    dues (timers s1) 0 (us @ t # vs) = takeWhile (\<lambda>d. d \<le> e) D @ e # dropWhile (\<lambda>d. d \<le> e) D"
    unfolding k_def e_def D_def Let_def add_0 .
  then obtain s1 us vs where r: "ts = us @ vs" "length us = k"
    "add_timer_loop s t (hd (map Timer_link ts @ [Timer_list])) = Some (s1, hd (map Timer_link vs @ [Timer_list]))"
    "only_timers s s1" "\<forall>x. x \<noteq> t \<and> x \<notin> set ts \<longrightarrow> timers s1 x = timers s x"
    "dues (timers s1) 0 (us @ t # vs) = takeWhile (\<lambda>d. d \<le> e) D @ e # dropWhile (\<lambda>d. d \<le> e) D"
    by (elim exE conjE) (rule that, assumption+)
  let ?n = "hd (map Timer_link vs @ [Timer_list])"
  define s' where "s' = s1\<lparr>klinks := list_add_before (klinks s1) ?n (Timer_link t)\<rparr>"
  have run: "add_timer s t = Some (Inr s')"
    using t(2,3) emp r(3) le by (simp add: add_timer_def s'_def)
  have uv: "us = take k ts" "vs = drop k ts" using r(1,2) by auto
  have kd: "takeWhile (\<lambda>d. d \<le> e) D = take k D" "dropWhile (\<lambda>d. d \<le> e) D = drop k D"
    unfolding k_def by (rule takeWhile_eq_take, rule dropWhile_eq_drop)
  have "heap_lists (list_add_before (klinks s) ?n (Timer_link t)) (kl q (us @ t # vs) ws)"
    using heap_lists_insert [OF hl, of Timer_list "map Timer_link us" "map Timer_link vs" "Timer_link t"] t(1) r(1)
    by (simp add: map_link_insert)
  then have "sched_inv s' q (us @ t # vs, ws)"
    using r(4) by (intro sched_inv_transfer [OF inv]) (simp_all add: s'_def only_timers_def)
  moreover have "timers_wf s' (us @ t # vs)"
  proof -
    have "0 < e" "e < 2 ^ 32" using t(2) u32_unat_less by (simp_all add: e_def word_less_nat_alt)
    moreover have "0 < d \<and> d < 2 ^ 32" if "d \<in> set D" for d using wf that by (simp add: timers_wf_def D_def)
    moreover have "set (dues (timers s1) 0 (us @ t # vs)) = insert e (set D)"
      unfolding r(6) kd by (simp, metis append_take_drop_id set_append)
    moreover have "timer_proc (timers s1 x) \<noteq> None" if "x \<in> set (us @ t # vs)" for x
      using that r(1,4) wf t(3) by (auto simp: timers_wf_def only_timers_def)
    ultimately show ?thesis by (simp add: timers_wf_def s'_def)
  qed
  ultimately show ?thesis using run r(4,6) unfolding uv kd by (simp add: s'_def only_timers_def)
qed

section \<open>Deleting a timer\<close>

lemma del_timer_correct:
  assumes inv: "sched_inv s q (xs @ t # ys, ws)" and bound: "\<forall>d \<in> set (dues (timers s) 0 (xs @ t # ys)). d < 2 ^ 32"
  shows "sched_inv (del_timer s t) q (xs @ ys, ws) \<and>
    dues (timers (del_timer s t)) 0 (xs @ ys) = dues (timers s) 0 xs @ tl (drop (length xs) (dues (timers s) 0 (xs @ t # ys))) \<and>
    (\<forall>x. timer_proc (timers (del_timer s t) x) = timer_proc (timers s x)) \<and>
    procs (del_timer s t) = procs s \<and> current (del_timer s t) = current s \<and> idleproc (del_timer s t) = idleproc s"
proof -
  note hl = sched_inv_lists [OF inv]
  have dt: "distinct (xs @ t # ys)"
    by (rule distinct_map [THEN iffD1, THEN conjunct1, of Timer_link]) (use heap_lists_distinct [OF hl, of Timer_list] in simp)
  have ne: "\<not> list_empty (klinks s) (Timer_link t)"
    using heap_lists_empty_entry [OF hl, of "Timer_link t"] by simp
  have nx: "list_next (klinks s) (Timer_link t) = hd (map Timer_link ys @ [Timer_list])"
    by (rule heap_lists_after [OF hl, of Timer_list "map Timer_link xs"]) simp
  have "heap_lists (list_del_init (klinks s) (Timer_link t)) ((kl q (xs @ t # ys) ws)(Timer_list := map Timer_link xs @ map Timer_link ys))"
    by (rule heap_lists_del [OF hl]) simp
  then have hl': "heap_lists (list_del_init (klinks s) (Timer_link t)) (kl q (xs @ ys) ws)"
    using kl_upd(2) [of q "xs @ t # ys" ws "xs @ ys"] by simp
  define b where "b = (\<Sum>x\<leftarrow>xs. unat (expires (timers s x)))"
  let ?e = "unat (expires (timers s t))"
  have D: "dues (timers s) 0 (xs @ t # ys) = dues (timers s) 0 xs @ (b + ?e) # dues (timers s) (b + ?e) ys"
    by (simp add: dues_append b_def)
  define T where "T = timers (del_timer s t)"
  have T: "T = (if ?e = 0 \<or> ys = [] then timers s else (timers s)(hd ys := (timers s (hd ys))
      \<lparr>expires := expires (timers s (hd ys)) + expires (timers s t)\<rparr>))"
    using ne nx by (cases ys) (auto simp: del_timer_def T_def Let_def unat_eq_zero)
  have "dues T 0 (xs @ ys) = dues (timers s) 0 xs @ dues (timers s) (b + ?e) ys"
  proof (cases "?e = 0 \<or> ys = []")
    case True
    then show ?thesis by (auto simp: T dues_append b_def)
  next
    case False
    then obtain y ys' where ys: "ys = y # ys'" by (cases ys) auto
    have oth: "T x = timers s x" if "x \<noteq> y" for x using that False ys by (simp add: T)
    have "b + ?e + unat (expires (timers s y)) < 2 ^ 32" using bound unfolding ys D [unfolded ys] by simp
    then have ey: "unat (expires (T y)) = unat (expires (timers s y)) + ?e"
      using False ys by (simp add: T unat_word_ariths)
    have "T x = timers s x" if "x \<in> set xs \<union> set ys'" for x using that oth dt ys by (cases "x = y") auto
    note oth = this
    have "dues T c xs = dues (timers s) c xs" "dues T c ys' = dues (timers s) c ys'" for c
      by (rule dues_cong, simp add: oth)+
    moreover have "(\<Sum>x\<leftarrow>xs. unat (expires (T x))) = b"
      unfolding b_def by (rule arg_cong [of _ _ sum_list], rule map_cong) (simp_all add: oth)
    ultimately show ?thesis using ey ys by (simp add: dues_append ac_simps)
  qed
  moreover have "timer_proc (T x) = timer_proc (timers s x)" for x by (simp add: T)
  moreover have "klinks (del_timer s t) = list_del_init (klinks s) (Timer_link t)" "procs (del_timer s t) = procs s"
    "proc_num (del_timer s t) = proc_num s" "max_time_slice (del_timer s t) = max_time_slice s"
    "current (del_timer s t) = current s" "idleproc (del_timer s t) = idleproc s"
    using ne by (auto simp: del_timer_def Let_def split: knode.split)
  ultimately show ?thesis
    using sched_inv_transfer [OF inv, of "del_timer s t" "xs @ ys" ws] hl' unfolding D T_def by simp
qed

section \<open>One tick\<close>

text \<open>The process of an expiring timer can be woken up: it is no zombie and waits for nothing, or interruptibly.\<close>

definition wakeable :: "ks \<Rightarrow> nat option \<Rightarrow> bool" where
  "wakeable s po = (case po of None \<Rightarrow> False | Some p \<Rightarrow>
     state (procs s p) \<noteq> PROC_ZOMBIE \<and> (wait_state (procs s p) \<noteq> 0 \<longrightarrow> wait_state (procs s p) AND WT_INTERRUPTED \<noteq> 0))"

lemma wakeable_after: "wakeup_effect s p s' \<Longrightarrow> wakeable s po \<Longrightarrow> wakeable s' po"
  by (cases po; cases "po = Some p"; cases "state (procs s p) = PROC_RUNNABLE")
    (auto simp: wakeable_def wakeup_effect_def)

text \<open>What waking several processes does to the others.\<close>

definition awake_effect :: "ks \<Rightarrow> nat option set \<Rightarrow> ks \<Rightarrow> bool" where
  "awake_effect s P s' \<longleftrightarrow> current s' = current s \<and> idleproc s' = idleproc s \<and>
     waits s' = waits s \<and> sem_value s' = sem_value s \<and>
     (\<forall>p. state (procs s' p) = (if Some p \<in> P then PROC_RUNNABLE else state (procs s p)))"

lemma expire_timer_correct:
  assumes inv: "sched_inv s q (t # ts, ws)" and z: "expires (timers s t) = 0"
    and w: "wakeable s (timer_proc (timers s t))"
  shows "\<exists>s' v. expire_timer s t = Inr s' \<and> sched_inv s' (q @ v) (ts, ws) \<and> timers s' = timers s \<and>
    awake_effect s {timer_proc (timers s t)} s' \<and> (\<forall>po. wakeable s po \<longrightarrow> wakeable s' po)"
proof -
  obtain p where p: "timer_proc (timers s t) = Some p" using w by (auto simp: wakeable_def split: option.splits)
  then have np: "state (procs s p) \<noteq> PROC_ZOMBIE" using w by (simp add: wakeable_def)
  from wakeup_proc_correct [OF inv np] obtain s1
    where s1: "wakeup_proc s p = Inr s1" "sched_inv s1 (woken s p q) (t # ts, ws)" "wakeup_effect s p s1" by blast
  have z1: "timers s1 = timers s" using s1(3) by (simp add: wakeup_effect_def)
  note hl = sched_inv_lists [OF s1(2)]
  have "\<not> list_empty (klinks s1) (Timer_link t)" using heap_lists_empty_entry [OF hl, of "Timer_link t"] by simp
  then have d: "del_timer s1 t = s1\<lparr>klinks := list_del_init (klinks s1) (Timer_link t)\<rparr>"
    using z z1 by (simp add: del_timer_def)
  have "heap_lists (list_del_init (klinks s1) (Timer_link t)) (kl (woken s p q) ts ws)"
    using heap_lists_del [OF hl, of Timer_list "[]" "Timer_link t" "map Timer_link ts"] by simp
  then have i: "sched_inv (del_timer s1 t) (woken s p q) (ts, ws)"
    by (intro sched_inv_transfer [OF s1(2)]) (simp_all add: d)
  have x: "expire_timer s t = Inr (del_timer s1 t)"
    using w p s1(1) by (simp add: expire_timer_def wakeable_def guardE_def)
  have a: "awake_effect s {timer_proc (timers s t)} (del_timer s1 t)"
    using s1(3) p by (simp add: awake_effect_def d wakeup_effect_def)
  have "wakeable (del_timer s1 t) po" if "wakeable s po" for po
    using wakeable_after [OF s1(3) that] by (cases po) (simp_all add: wakeable_def d)
  then have v: "\<forall>po. wakeable s po \<longrightarrow> wakeable (del_timer s1 t) po" by blast
  have y: "timers (del_timer s1 t) = timers s" using z1 by (simp add: d)
  show ?thesis
    by (rule exI [of _ "del_timer s1 t"], rule exI)
      (rule conjI [OF x conjI [OF i [unfolded woken_def] conjI [OF y conjI [OF a v]]]])
qed

lemma run_timer_loop_correct:
  assumes "sched_inv s q (t # ts, ws)"
    and "\<forall>x \<in> set (takeWhile (\<lambda>x. expires (timers s x) = 0) (t # ts)). wakeable s (timer_proc (timers s x))"
  shows "\<exists>s' v. run_timer_loop s t (Timer_link t) = Some (Inr s') \<and>
    sched_inv s' (q @ v) (dropWhile (\<lambda>x. expires (timers s x) = 0) (t # ts), ws) \<and> timers s' = timers s \<and>
    awake_effect s (timer_proc ` timers s ` set (takeWhile (\<lambda>x. expires (timers s x) = 0) (t # ts))) s'"
  using assms
proof (induction ts arbitrary: s q t)
  case Nil
  show ?case
  proof (cases "expires (timers s t) = 0")
    case False
    then show ?thesis using Nil
      by (subst run_timer_loop.simps) (auto simp: awake_effect_def intro: exI [of _ "[]"])
  next
    case True
    from Nil True have "wakeable s (timer_proc (timers s t))" by simp
    from expire_timer_correct [OF Nil(1) True this] obtain s' v where "expire_timer s t = Inr s'"
      "sched_inv s' (q @ v) ([], ws)" "timers s' = timers s" "awake_effect s {timer_proc (timers s t)} s'" by blast
    moreover have "list_next (klinks s) (Timer_link t) = Timer_list"
      using heap_lists_after [OF sched_inv_lists [OF Nil(1)], of Timer_list "[]" "Timer_link t" "[]"] by simp
    ultimately show ?thesis using True by (subst run_timer_loop.simps) auto
  qed
next
  case (Cons u ts)
  show ?case
  proof (cases "expires (timers s t) = 0")
    case False
    then show ?thesis using Cons.prems
      by (subst run_timer_loop.simps) (auto simp: awake_effect_def intro: exI [of _ "[]"])
  next
    case True
    from Cons.prems True have "wakeable s (timer_proc (timers s t))" by simp
    from expire_timer_correct [OF Cons.prems(1) True this] obtain s1 v1 where s1: "expire_timer s t = Inr s1"
      "sched_inv s1 (q @ v1) (u # ts, ws)" "timers s1 = timers s" "awake_effect s {timer_proc (timers s t)} s1"
      "\<forall>po. wakeable s po \<longrightarrow> wakeable s1 po" by blast
    have nx: "list_next (klinks s) (Timer_link t) = Timer_link u"
      using heap_lists_after [OF sched_inv_lists [OF Cons.prems(1)], of Timer_list "[]" "Timer_link t" "map Timer_link (u # ts)"] by simp
    have "\<forall>x \<in> set (takeWhile (\<lambda>x. expires (timers s1 x) = 0) (u # ts)). wakeable s1 (timer_proc (timers s1 x))"
      using Cons.prems(2) True s1(5) unfolding s1(3) by simp
    from Cons.IH [OF s1(2) this] obtain s' v where s': "run_timer_loop s1 u (Timer_link u) = Some (Inr s')"
      "sched_inv s' ((q @ v1) @ v) (dropWhile (\<lambda>x. expires (timers s x) = 0) (u # ts), ws)" "timers s' = timers s"
      "awake_effect s1 (timer_proc ` timers s ` set (takeWhile (\<lambda>x. expires (timers s x) = 0) (u # ts))) s'"
      unfolding s1(3) by blast
    have l: "run_timer_loop s t (Timer_link t) = Some (Inr s')"
      using True s1(1) s'(1) nx by (subst run_timer_loop.simps) simp
    have a: "awake_effect s (timer_proc ` timers s ` set (takeWhile (\<lambda>x. expires (timers s x) = 0) (t # u # ts))) s'"
      using s1(4) s'(4) True by (simp add: awake_effect_def)
    have i: "sched_inv s' (q @ v1 @ v) (dropWhile (\<lambda>x. expires (timers s x) = 0) (t # u # ts), ws)"
      using s'(2) True by simp
    show ?thesis by (rule exI [of _ s'], rule exI [of _ "v1 @ v"]) (rule conjI [OF l conjI [OF i conjI [OF s'(3) a]]])
  qed
qed

lemma proc_tick_fields:
  "klinks (sched_class_proc_tick s p) = klinks s" "proc_num (sched_class_proc_tick s p) = proc_num s"
  "max_time_slice (sched_class_proc_tick s p) = max_time_slice s"
  "x \<noteq> p \<Longrightarrow> procs (sched_class_proc_tick s p) x = procs s x"
  "0 \<le> time_slice (procs s p) \<Longrightarrow> 0 \<le> time_slice (procs (sched_class_proc_tick s p) p)"
  "timers (sched_class_proc_tick s p) = timers s" "state (procs (sched_class_proc_tick s p) x) = state (procs s x)"
  "current (sched_class_proc_tick s p) = current s" "idleproc (sched_class_proc_tick s p) = idleproc s"
  "waits (sched_class_proc_tick s p) = waits s" "sem_value (sched_class_proc_tick s p) = sem_value s"
  by (auto simp: sched_class_proc_tick_def RR_proc_tick_def Let_def)

lemma proc_tick_inv:
  assumes inv: "sched_inv s q r"
  shows "sched_inv (sched_class_proc_tick s (current s)) q r"
proof -
  let ?s = "sched_class_proc_tick s (current s)"
  have mem: "p \<in> set q \<longleftrightarrow> state (procs s p) = PROC_RUNNABLE \<and> p \<noteq> current s \<and> p \<noteq> idleproc s" for p
    using inv by (simp add: sched_inv_def)
  then have "procs ?s p = procs s p" if "p \<in> set q" for p using that by (simp add: proc_tick_fields)
  moreover have "0 \<le> time_slice (procs ?s p)" for p
    using inv by (cases "p = current s") (simp_all add: proc_tick_fields sched_inv_def rq_rep_def)
  ultimately show ?thesis using inv unfolding sched_inv_def rq_rep_def by (simp add: proc_tick_fields)
qed

lemma proc_tick_effect: "awake_effect s0 P (sched_class_proc_tick s p) = awake_effect s0 P s"
  by (simp add: awake_effect_def proc_tick_fields)

lemma dues_zero: "k = length (takeWhile (\<lambda>d. d = b) (dues T b ts)) \<Longrightarrow>
   takeWhile (\<lambda>t. expires (T t) = 0) ts = take k ts \<and> dropWhile (\<lambda>t. expires (T t) = 0) ts = drop k ts \<and>
   dues T b (drop k ts) = drop k (dues T b ts)"
  by (induction ts arbitrary: k) (auto simp: unat_eq_zero)

lemma run_timer_list_correct:
  assumes inv: "sched_inv s q (ts, ws)" and wf: "timers_wf s ts"
  defines "D \<equiv> dues (timers s) 0 ts"
  defines "k \<equiv> length (takeWhile (\<lambda>d. d = 1) D)"
  assumes w: "\<forall>t \<in> set (take k ts). wakeable s (timer_proc (timers s t))"
  shows "\<exists>s' v. run_timer_list s = Some (Inr s') \<and> sched_inv s' (q @ v) (drop k ts, ws) \<and> timers_wf s' (drop k ts) \<and>
    dues (timers s') 0 (drop k ts) = map (\<lambda>d. d - 1) (drop k D) \<and>
    awake_effect s (timer_proc ` timers s ` set (take k ts)) s'"
proof (cases ts)
  case Nil
  have "list_next (klinks s) Timer_list = Timer_list"
    using heap_lists_first [OF sched_inv_lists [OF inv], of Timer_list] Nil by simp
  then have "run_timer_list s = Some (Inr (sched_class_proc_tick s (current s)))" by (simp add: run_timer_list_def)
  then show ?thesis using proc_tick_inv [OF inv] Nil
    by (auto simp: timers_wf_def D_def awake_effect_def proc_tick_fields intro: exI [of _ "[]"])
next
  case (Cons t us)
  define s1 where "s1 = upd_timer t (\<lambda>g. g\<lparr>expires := expires g - 1\<rparr>) s"
  have nx: "list_next (klinks s) Timer_list = Timer_link t"
    using heap_lists_first [OF sched_inv_lists [OF inv], of Timer_list] Cons by simp
  have dt: "t \<notin> set us"
    using heap_lists_distinct [OF sched_inv_lists [OF inv], of Timer_list] Cons by auto
  have pos: "expires (timers s t) \<noteq> 0" using wf Cons by (auto simp: timers_wf_def)
  then have e1: "unat (expires (timers s1 t)) = unat (expires (timers s t)) - 1"
    by (simp add: s1_def unat_minus_one)
  have up: "0 < unat (expires (timers s t))" using pos by (simp add: unat_gt_0)
  have D1: "D = map Suc (dues (timers s1) 0 ts)"
  proof -
    have "dues (timers s1) c us = dues (timers s) c us" for c by (rule dues_cong) (use dt in \<open>auto simp: s1_def\<close>)
    then show ?thesis using e1 up dues_Suc [of "timers s" "unat (expires (timers s t)) - 1" us] unfolding D_def Cons by simp
  qed
  then have D': "dues (timers s1) 0 ts = map (\<lambda>d. d - 1) D" by (simp add: comp_def)
  have k: "k = length (takeWhile (\<lambda>d. d = 0) (dues (timers s1) 0 ts))"
    unfolding k_def D1 by (simp add: takeWhile_map comp_def)
  have z: "takeWhile (\<lambda>x. expires (timers s1 x) = 0) (t # us) = take k ts"
      "dropWhile (\<lambda>x. expires (timers s1 x) = 0) (t # us) = drop k ts"
      "dues (timers s1) 0 (drop k ts) = drop k (dues (timers s1) 0 ts)"
    using dues_zero [OF k] unfolding Cons by blast+
  have tp: "timer_proc (timers s1 x) = timer_proc (timers s x)" for x by (simp add: s1_def)
  have wk: "wakeable s1 po = wakeable s po" for po by (cases po) (simp_all add: wakeable_def s1_def)
  have i1: "sched_inv s1 q (t # us, ws)"
    by (rule sched_inv_transfer [OF inv]) (use sched_inv_lists [OF inv] Cons in \<open>simp_all add: s1_def\<close>)
  have "\<forall>x \<in> set (takeWhile (\<lambda>x. expires (timers s1 x) = 0) (t # us)). wakeable s1 (timer_proc (timers s1 x))"
    unfolding z using w tp wk by simp
  from run_timer_loop_correct [OF i1 this, unfolded z] obtain s2 v where s2: "run_timer_loop s1 t (Timer_link t) = Some (Inr s2)"
    "sched_inv s2 (q @ v) (drop k ts, ws)" "timers s2 = timers s1"
    "awake_effect s1 (timer_proc ` timers s1 ` set (take k ts)) s2" by blast
  let ?s = "sched_class_proc_tick s2 (current s2)"
  have "run_timer_list s = Some (Inr ?s)"
    using nx pos s2(1) by (simp add: run_timer_list_def s1_def Let_def)
  moreover have dd: "dues (timers ?s) 0 (drop k ts) = map (\<lambda>d. d - 1) (drop k D)"
    using z(3) D' by (simp add: proc_tick_fields s2(3) drop_map)
  moreover have "timers_wf ?s (drop k ts)"
  proof -
    have "0 < d - 1 \<and> d - 1 < 2 ^ 32" if "d \<in> set (drop k D)" for d
    proof -
      have D0: "d \<in> set D" using that by (rule in_set_dropD)
      have "sorted D" unfolding D_def using dues_sorted by blast
      have "drop k D = dropWhile (\<lambda>d. d = 1) D" unfolding k_def by (rule dropWhile_eq_drop [symmetric])
      moreover have ne: "drop k D \<noteq> []" using that by auto
      ultimately have "hd (drop k D) \<noteq> 1" using hd_dropWhile [of "\<lambda>d. d = 1" D] by metis
      then obtain h where h: "drop k D = h # tl (drop k D)" "h \<noteq> 1" using ne by (metis list.collapse)
      have "h \<in> set D" using h(1) by (metis in_set_dropD list.set_intros(1))
      then have "0 < h" using wf by (simp add: timers_wf_def D_def)
      moreover have "h \<le> d" using sorted_wrt_drop [OF \<open>sorted D\<close>, of k] that h(1) by (metis order_refl set_ConsD sorted_simps(2))
      ultimately show ?thesis using h(2) wf D0 by (fastforce simp: timers_wf_def D_def)
    qed
    then show ?thesis using wf unfolding timers_wf_def dd
      by (auto simp: proc_tick_fields s2(3) tp dest: in_set_dropD)
  qed
  moreover have "awake_effect s (timer_proc ` timers s ` set (take k ts)) ?s"
  proof -
    have "timer_proc ` timers s1 ` set (take k ts) = timer_proc ` timers s ` set (take k ts)"
      by (simp add: image_image tp)
    then show ?thesis using s2(4) unfolding proc_tick_effect by (simp add: awake_effect_def s1_def)
  qed
  ultimately show ?thesis using proc_tick_inv [OF s2(2)] by blast
qed

section \<open>Properties\<close>

text \<open>Two queued processes, and a timer of process 5 for the next tick that is not yet in the list.\<close>

definition armed :: ks where
  "armed = queued_procs\<lparr>timers := (\<lambda>_. \<lparr>expires = 1, timer_proc = Some 5\<rparr>)\<rparr>"

lemma armed_inv: "sched_inv armed [1, 2] ([], \<lambda>_. [])"
  by (rule sched_inv_transfer [OF queued_procs_inv])
    (use sched_inv_lists [OF queued_procs_inv] in \<open>simp_all add: armed_def\<close>)

lemma queued_procs_procs:
  "state (procs queued_procs 5) = PROC_UNINIT" "wait_state (procs queued_procs 5) = 0"
  "idleproc queued_procs = 0" "current queued_procs = 0"
  by (simp_all add: queued_procs_def two_procs_def RR_enqueue_def Let_def guardE_def list_empty_def list_add_before_def
      list_add_between_def)

text \<open>
  C29. \<^verbatim>\<open>add_timer\<close> terminates and keeps the timer list a sorted list of absolute expiry times: the new timer goes
  behind all that expire no later (\<open>k\<close> of them), at its own time, and no other timer's time changes.
\<close>

theorem add_timer_sorted:
  assumes "sched_inv s q (ts, ws)" and "timers_wf s ts"
    and "t \<notin> set ts" "expires (timers s t) > 0" "timer_proc (timers s t) \<noteq> None"
    and "e = unat (expires (timers s t))" "D = dues (timers s) 0 ts" "k = length (takeWhile (\<lambda>d. d \<le> e) D)"
  shows "\<exists>s'. add_timer s t = Some (Inr s') \<and> sched_inv s' q (take k ts @ t # drop k ts, ws) \<and>
    timers_wf s' (take k ts @ t # drop k ts) \<and> procs s' = procs s \<and>
    dues (timers s') 0 (take k ts @ t # drop k ts) = take k D @ e # drop k D \<and> sorted (take k D @ e # drop k D)"
proof -
  obtain s' where r: "add_timer s t = Some (Inr s')" "sched_inv s' q (take k ts @ t # drop k ts, ws)"
    "timers_wf s' (take k ts @ t # drop k ts)" "procs s' = procs s"
    "dues (timers s') 0 (take k ts @ t # drop k ts) = take k D @ e # drop k D"
    using add_timer_correct [OF assms(1-5)] unfolding assms(6-8) by blast
  have "sorted (take k D @ e # drop k D)"
    using dues_sorted [of "timers s'" 0 "take k ts @ t # drop k ts"] unfolding r(5) by blast
  with r show ?thesis by blast
qed

theorem add_timer_sorted_witness:
  "\<exists>s'. add_timer armed 7 = Some (Inr s') \<and> sched_inv s' [1, 2] ([7], \<lambda>_. []) \<and> dues (timers s') 0 [7] = [1]"
  using add_timer_sorted [OF armed_inv _ _ _ _ refl refl refl, of 7] by (auto simp: timers_wf_def armed_def)

text \<open>
  \<^verbatim>\<open>del_timer\<close> on a timer of the list removes its expiry time and no other: the times of the timers before and
  after it stay, although the entries behind it are stored relative to it.
\<close>

theorem del_timer_removes:
  assumes "sched_inv s q (xs @ t # ys, ws)" and "timers_wf s (xs @ t # ys)"
    and "dues (timers s) 0 (xs @ t # ys) = D @ d # E" and "length D = length xs"
  shows "sched_inv (del_timer s t) q (xs @ ys, ws) \<and> dues (timers (del_timer s t)) 0 (xs @ ys) = D @ E \<and>
    timers_wf (del_timer s t) (xs @ ys) \<and> procs (del_timer s t) = procs s"
proof -
  have "\<forall>d \<in> set (dues (timers s) 0 (xs @ t # ys)). d < 2 ^ 32" using assms(2) by (simp add: timers_wf_def)
  note r = del_timer_correct [OF assms(1) this, unfolded assms(3)]
  have "dues (timers s) 0 xs = D" using assms(3,4) by (simp add: dues_append)
  with r assms(4) have d: "dues (timers (del_timer s t)) 0 (xs @ ys) = D @ E" by simp
  moreover have "timers_wf (del_timer s t) (xs @ ys)"
    using assms(2) conjunct1 [OF conjunct2 [OF conjunct2 [OF r]]] unfolding timers_wf_def d assms(3) by auto
  ultimately show ?thesis using r by blast
qed

theorem del_timer_removes_witness:
  "\<exists>s. sched_inv s [1, 2] ([7], \<lambda>_. []) \<and> sched_inv (del_timer s 7) [1, 2] ([], \<lambda>_. [])"
proof -
  from add_timer_correct [OF armed_inv, of 7] obtain s where s: "sched_inv s [1, 2] ([7], \<lambda>_. [])" "timers_wf s [7]"
    "dues (timers s) 0 [7] = [1]" by (auto simp: timers_wf_def armed_def)
  with del_timer_removes [of s "[1, 2]" "[]" 7 "[]" "\<lambda>_. []" "[]" 1 "[]"] show ?thesis by auto
qed

text \<open>
  C28. \<^verbatim>\<open>run_timer_list\<close> lets one tick pass: it ends, every remaining timer expires one tick sooner, exactly the \<open>k\<close>
  timers that were due in one tick leave the list, and their processes, and no others, become runnable and
  join the run queue behind those that were there.
\<close>

theorem run_timer_tick:
  assumes "sched_inv s q (ts, ws)" and "timers_wf s ts"
    and "D = dues (timers s) 0 ts" "k = length (takeWhile (\<lambda>d. d = 1) D)"
    and "\<forall>t \<in> set (take k ts). wakeable s (timer_proc (timers s t))"
  shows "\<exists>s' v. run_timer_list s = Some (Inr s') \<and> sched_inv s' (q @ v) (drop k ts, ws) \<and> timers_wf s' (drop k ts) \<and>
    dues (timers s') 0 (drop k ts) = map (\<lambda>d. d - 1) (drop k D) \<and>
    awake_effect s (timer_proc ` timers s ` set (take k ts)) s'"
  using run_timer_list_correct [OF assms(1,2)] assms(5) unfolding assms(3,4) .

theorem run_timer_tick_witness:
  "\<exists>s s' v. sched_inv s [1, 2] ([7], \<lambda>_. []) \<and> run_timer_list s = Some (Inr s') \<and>
    sched_inv s' ([1, 2] @ v) ([], \<lambda>_. []) \<and> 5 \<in> set v"
proof -
  from add_timer_correct [OF armed_inv, of 7] obtain s where s: "sched_inv s [1, 2] ([7], \<lambda>_. [])" "timers_wf s [7]"
    "dues (timers s) 0 [7] = [1]" "procs s = procs armed" "timer_proc (timers s 7) = Some 5"
    "current s = 0" "idleproc s = 0" by (auto simp: timers_wf_def armed_def queued_procs_procs)
  have "wakeable s (timer_proc (timers s 7))"
    using s(4) by (simp add: s(5) wakeable_def armed_def queued_procs_procs)
  with run_timer_tick [OF s(1,2) refl refl] s(3,5) obtain s' v where r: "run_timer_list s = Some (Inr s')"
    "sched_inv s' ([1, 2] @ v) ([], \<lambda>_. [])" "awake_effect s {Some 5} s'" by auto
  have "5 \<in> set ([1, 2] @ v)"
    using r(2,3) s(6,7) unfolding sched_inv_def awake_effect_def by (metis insertI1 zero_neq_numeral)
  then have "5 \<in> set v" by simp
  with s(1) r show ?thesis by blast
qed

end
