(* ===== verification/Sync.thy ===== *)
theory Sync
  imports Sched
begin

text \<open>
  Wait queues (\<^verbatim>\<open>kern/sync/wait.c\<close>, \<^verbatim>\<open>wait.h\<close>), semaphores (\<^verbatim>\<open>kern/sync/sem.c\<close>) and monitors
  (\<^verbatim>\<open>kern/sync/monitor.c\<close>). A wait queue is named by the number of its head, a semaphore by the number of its
  wait queue. The code runs with interrupts off between \<^verbatim>\<open>local_intr_save\<close> and \<^verbatim>\<open>local_intr_restore\<close>. A function
  that gives up the processor is split there: \<open>down_begin\<close> is what \<^verbatim>\<open>down\<close> does up to and including the call of
  \<^verbatim>\<open>schedule\<close>, \<open>down_end\<close> what it does when the process runs again; the same holds for the functions of a
  monitor. The messages that \<^verbatim>\<open>cond_signal\<close> and \<^verbatim>\<open>cond_wait\<close> print are left out.
\<close>

section \<open>Wait queues\<close>

definition wait_init :: "ks \<Rightarrow> nat \<Rightarrow> nat option \<Rightarrow> ks" where
  "wait_init s w p =
     (let s = upd_wait w (\<lambda>g. g\<lparr>wait_proc := p, wakeup_flags := WT_INTERRUPTED\<rparr>) s
      in s\<lparr>klinks := list_init (klinks s) (Wait_link w)\<rparr>)"

definition wait_queue_init :: "ks \<Rightarrow> nat \<Rightarrow> ks" where
  "wait_queue_init s i = s\<lparr>klinks := list_init (klinks s) (Wait_head i)\<rparr>"

definition wait_queue_add :: "ks \<Rightarrow> nat \<Rightarrow> nat \<Rightarrow> kpanic + ks" where
  "wait_queue_add s i w =
     bindE (assertE (list_empty (klinks s) (Wait_link w) \<and> wait_proc (waits s w) \<noteq> None)) (\<lambda>_.
       let s = upd_wait w (\<lambda>g. g\<lparr>wait_queue := Some i\<rparr>) s
       in Inr (s\<lparr>klinks := list_add_before (klinks s) (Wait_head i) (Wait_link w)\<rparr>))"

definition wait_queue_del :: "ks \<Rightarrow> nat \<Rightarrow> nat \<Rightarrow> kpanic + ks" where
  "wait_queue_del s i w =
     bindE (assertE (\<not> list_empty (klinks s) (Wait_link w) \<and> wait_queue (waits s w) = Some i)) (\<lambda>_.
     Inr (s\<lparr>klinks := list_del_init (klinks s) (Wait_link w)\<rparr>))"

text \<open>\<^verbatim>\<open>le2wait\<close>: the wait entry of a list entry; the head of the queue stands for NULL.\<close>

definition le2wait :: "knode \<Rightarrow> nat option" where
  "le2wait le = (case le of Wait_link w \<Rightarrow> Some w | _ \<Rightarrow> None)"

definition wait_queue_next :: "ks \<Rightarrow> nat \<Rightarrow> nat \<Rightarrow> kpanic + nat option" where
  "wait_queue_next s i w =
     bindE (assertE (\<not> list_empty (klinks s) (Wait_link w) \<and> wait_queue (waits s w) = Some i)) (\<lambda>_.
     let le = list_next (klinks s) (Wait_link w)
     in Inr (if le \<noteq> Wait_head i then le2wait le else None))"

definition wait_queue_prev :: "ks \<Rightarrow> nat \<Rightarrow> nat \<Rightarrow> kpanic + nat option" where
  "wait_queue_prev s i w =
     bindE (assertE (\<not> list_empty (klinks s) (Wait_link w) \<and> wait_queue (waits s w) = Some i)) (\<lambda>_.
     let le = list_prev (klinks s) (Wait_link w)
     in Inr (if le \<noteq> Wait_head i then le2wait le else None))"

definition wait_queue_first :: "ks \<Rightarrow> nat \<Rightarrow> nat option" where
  "wait_queue_first s i =
     (let le = list_next (klinks s) (Wait_head i) in if le \<noteq> Wait_head i then le2wait le else None)"

definition wait_queue_last :: "ks \<Rightarrow> nat \<Rightarrow> nat option" where
  "wait_queue_last s i =
     (let le = list_prev (klinks s) (Wait_head i) in if le \<noteq> Wait_head i then le2wait le else None)"

definition wait_queue_empty :: "ks \<Rightarrow> nat \<Rightarrow> bool" where
  "wait_queue_empty s i = list_empty (klinks s) (Wait_head i)"

definition wait_in_queue :: "ks \<Rightarrow> nat \<Rightarrow> bool" where
  "wait_in_queue s w = (\<not> list_empty (klinks s) (Wait_link w))"

definition wakeup_wait :: "ks \<Rightarrow> nat \<Rightarrow> nat \<Rightarrow> u32 \<Rightarrow> bool \<Rightarrow> kpanic + ks" where
  "wakeup_wait s i w flags del =
     bindE (if del then wait_queue_del s i w else Inr s) (\<lambda>s.
     let s = upd_wait w (\<lambda>g. g\<lparr>wakeup_flags := flags\<rparr>) s
     in case wait_proc (waits s w) of None \<Rightarrow> Inl Null_deref | Some p \<Rightarrow> wakeup_proc s p)"

definition wakeup_first :: "ks \<Rightarrow> nat \<Rightarrow> u32 \<Rightarrow> bool \<Rightarrow> kpanic + ks" where
  "wakeup_first s i flags del =
     (case wait_queue_first s i of Some w \<Rightarrow> wakeup_wait s i w flags del | None \<Rightarrow> Inr s)"

text \<open>The two do-while loops of \<^verbatim>\<open>wakeup_queue\<close>.\<close>

partial_function (option) wakeup_del_loop :: "ks \<Rightarrow> nat \<Rightarrow> nat \<Rightarrow> u32 \<Rightarrow> (kpanic + ks) option" where
  "wakeup_del_loop s i w flags =
     (case wakeup_wait s i w flags True of
        Inl e \<Rightarrow> Some (Inl e)
      | Inr s \<Rightarrow> (case wait_queue_first s i of
            Some w \<Rightarrow> wakeup_del_loop s i w flags
          | None \<Rightarrow> Some (Inr s)))"

partial_function (option) wakeup_keep_loop :: "ks \<Rightarrow> nat \<Rightarrow> nat \<Rightarrow> u32 \<Rightarrow> (kpanic + ks) option" where
  "wakeup_keep_loop s i w flags =
     (case wakeup_wait s i w flags False of
        Inl e \<Rightarrow> Some (Inl e)
      | Inr s \<Rightarrow> (case wait_queue_next s i w of
            Inl e \<Rightarrow> Some (Inl e)
          | Inr (Some w) \<Rightarrow> wakeup_keep_loop s i w flags
          | Inr None \<Rightarrow> Some (Inr s)))"

definition wakeup_queue :: "ks \<Rightarrow> nat \<Rightarrow> u32 \<Rightarrow> bool \<Rightarrow> (kpanic + ks) option" where
  "wakeup_queue s i flags del =
     (case wait_queue_first s i of
        Some w \<Rightarrow> if del then wakeup_del_loop s i w flags else wakeup_keep_loop s i w flags
      | None \<Rightarrow> Some (Inr s))"

definition wait_current_set :: "ks \<Rightarrow> nat \<Rightarrow> nat \<Rightarrow> u32 \<Rightarrow> kpanic + ks" where
  "wait_current_set s i w st =
     (let s = wait_init s w (Some (current s));
          s = upd_proc (current s) (\<lambda>g. g\<lparr>state := PROC_SLEEPING, wait_state := st\<rparr>) s
      in wait_queue_add s i w)"

definition wait_current_del :: "ks \<Rightarrow> nat \<Rightarrow> nat \<Rightarrow> kpanic + ks" where
  "wait_current_del s i w = (if wait_in_queue s w then wait_queue_del s i w else Inr s)"

section \<open>Semaphores\<close>

definition set_sem :: "nat \<Rightarrow> int \<Rightarrow> ks \<Rightarrow> ks" where
  "set_sem i v s = s\<lparr>sem_value := (sem_value s)(i := v)\<rparr>"

definition sem_init :: "ks \<Rightarrow> nat \<Rightarrow> int \<Rightarrow> ks" where
  "sem_init s i v = wait_queue_init (set_sem i v s) i"

definition sem_up :: "ks \<Rightarrow> nat \<Rightarrow> u32 \<Rightarrow> kpanic + ks" where
  "sem_up s i st =
     (case wait_queue_first s i of
        None \<Rightarrow> Inr (set_sem i (sem_value s i + 1) s)
      | Some w \<Rightarrow> (case wait_proc (waits s w) of
            None \<Rightarrow> Inl Null_deref
          | Some p \<Rightarrow> bindE (assertE (wait_state (procs s p) = st)) (\<lambda>_. wakeup_wait s i w st True)))"

text \<open>The result tells whether the process got the semaphore at once; if not it has called \<^verbatim>\<open>schedule\<close>.\<close>

definition sem_down_begin :: "ks \<Rightarrow> nat \<Rightarrow> nat \<Rightarrow> u32 \<Rightarrow> kpanic + (ks \<times> bool)" where
  "sem_down_begin s i w st =
     (if sem_value s i > 0 then Inr (set_sem i (sem_value s i - 1) s, True)
      else bindE (wait_current_set s i w st) (\<lambda>s. bindE (schedule s) (\<lambda>s. Inr (s, False))))"

definition sem_down_end :: "ks \<Rightarrow> nat \<Rightarrow> nat \<Rightarrow> u32 \<Rightarrow> kpanic + (ks \<times> u32)" where
  "sem_down_end s i w st =
     bindE (wait_current_del s i w) (\<lambda>s.
     Inr (s, if wakeup_flags (waits s w) \<noteq> st then wakeup_flags (waits s w) else 0))"

definition up :: "ks \<Rightarrow> nat \<Rightarrow> kpanic + ks" where
  "up s i = sem_up s i WT_KSEM"

definition down_begin :: "ks \<Rightarrow> nat \<Rightarrow> nat \<Rightarrow> kpanic + (ks \<times> bool)" where
  "down_begin s i w = sem_down_begin s i w WT_KSEM"

definition down_end :: "ks \<Rightarrow> nat \<Rightarrow> nat \<Rightarrow> kpanic + ks" where
  "down_end s i w =
     bindE (sem_down_end s i w WT_KSEM) (\<lambda>(s, flags). bindE (assertE (flags = 0)) (\<lambda>_. Inr s))"

definition try_down :: "ks \<Rightarrow> nat \<Rightarrow> ks \<times> bool" where
  "try_down s i = (if sem_value s i > 0 then (set_sem i (sem_value s i - 1) s, True) else (s, False))"

section \<open>Monitors\<close>

record condvar =
  cv_sem :: nat
  cv_count :: int
  cv_owner :: nat

record monitor =
  mon_mutex :: nat
  mon_next :: nat
  next_count :: int
  mon_cv :: "nat list"

record mon_state =
  mon_ks :: ks
  monitors :: "nat \<Rightarrow> monitor"
  condvars :: "nat \<Rightarrow> condvar"

definition upd_mon :: "nat \<Rightarrow> (monitor \<Rightarrow> monitor) \<Rightarrow> mon_state \<Rightarrow> mon_state" where
  "upd_mon m f s = s\<lparr>monitors := (monitors s)(m := f (monitors s m))\<rparr>"

definition upd_cv :: "nat \<Rightarrow> (condvar \<Rightarrow> condvar) \<Rightarrow> mon_state \<Rightarrow> mon_state" where
  "upd_cv c f s = s\<lparr>condvars := (condvars s)(c := f (condvars s c))\<rparr>"

definition mon_lift :: "mon_state \<Rightarrow> kpanic + ks \<Rightarrow> kpanic + mon_state" where
  "mon_lift s r = bindE r (\<lambda>k. Inr (s\<lparr>mon_ks := k\<rparr>))"

fun cv_init_loop :: "nat \<Rightarrow> nat list \<Rightarrow> mon_state \<Rightarrow> mon_state" where
  "cv_init_loop m [] s = s"
| "cv_init_loop m (c # cs) s =
     (let s = upd_cv c (\<lambda>g. g\<lparr>cv_count := 0\<rparr>) s;
          s = s\<lparr>mon_ks := sem_init (mon_ks s) (cv_sem (condvars s c)) 0\<rparr>;
          s = upd_cv c (\<lambda>g. g\<lparr>cv_owner := m\<rparr>) s
      in cv_init_loop m cs s)"

text \<open>\<open>cvs\<close> is what \<^verbatim>\<open>kmalloc\<close> returned: the condition variables in the block it allocated, or NULL.\<close>

definition monitor_init :: "mon_state \<Rightarrow> nat \<Rightarrow> nat \<Rightarrow> nat list option \<Rightarrow> kpanic + mon_state" where
  "monitor_init s m num_cv cvs =
     bindE (assertE (num_cv > 0)) (\<lambda>_.
     let s = upd_mon m (\<lambda>g. g\<lparr>next_count := 0, mon_cv := []\<rparr>) s;
         s = s\<lparr>mon_ks := sem_init (mon_ks s) (mon_mutex (monitors s m)) 1\<rparr>;
         s = s\<lparr>mon_ks := sem_init (mon_ks s) (mon_next (monitors s m)) 0\<rparr>
     in case cvs of
          None \<Rightarrow> Inl Assert_failed
        | Some cs \<Rightarrow> Inr (cv_init_loop m (take num_cv cs) (upd_mon m (\<lambda>g. g\<lparr>mon_cv := cs\<rparr>) s)))"

text \<open>The boolean tells whether the process still runs; otherwise it sleeps in \<^verbatim>\<open>down\<close>.\<close>

definition cond_signal_begin :: "mon_state \<Rightarrow> nat \<Rightarrow> nat \<Rightarrow> kpanic + (mon_state \<times> bool)" where
  "cond_signal_begin s c w =
     (if cv_count (condvars s c) > 0 then
        (let m = cv_owner (condvars s c);
             s = upd_mon m (\<lambda>g. g\<lparr>next_count := next_count g + 1\<rparr>) s
         in bindE (mon_lift s (up (mon_ks s) (cv_sem (condvars s c)))) (\<lambda>s.
            bindE (down_begin (mon_ks s) (mon_next (monitors s m)) w) (\<lambda>(k, got).
            let s = s\<lparr>mon_ks := k\<rparr>
            in Inr (if got then upd_mon m (\<lambda>g. g\<lparr>next_count := next_count g - 1\<rparr>) s else s, got))))
      else Inr (s, True))"

definition cond_signal_end :: "mon_state \<Rightarrow> nat \<Rightarrow> nat \<Rightarrow> kpanic + mon_state" where
  "cond_signal_end s c w =
     (let m = cv_owner (condvars s c)
      in bindE (mon_lift s (down_end (mon_ks s) (mon_next (monitors s m)) w)) (\<lambda>s.
         Inr (upd_mon m (\<lambda>g. g\<lparr>next_count := next_count g - 1\<rparr>) s)))"

definition cond_wait_begin :: "mon_state \<Rightarrow> nat \<Rightarrow> nat \<Rightarrow> kpanic + (mon_state \<times> bool)" where
  "cond_wait_begin s c w =
     (let s = upd_cv c (\<lambda>g. g\<lparr>cv_count := cv_count g + 1\<rparr>) s;
          m = cv_owner (condvars s c)
      in bindE (mon_lift s (up (mon_ks s) (if next_count (monitors s m) > 0 then mon_next (monitors s m)
                                           else mon_mutex (monitors s m)))) (\<lambda>s.
         bindE (down_begin (mon_ks s) (cv_sem (condvars s c)) w) (\<lambda>(k, got).
         let s = s\<lparr>mon_ks := k\<rparr>
         in Inr (if got then upd_cv c (\<lambda>g. g\<lparr>cv_count := cv_count g - 1\<rparr>) s else s, got))))"

definition cond_wait_end :: "mon_state \<Rightarrow> nat \<Rightarrow> nat \<Rightarrow> kpanic + mon_state" where
  "cond_wait_end s c w =
     bindE (mon_lift s (down_end (mon_ks s) (cv_sem (condvars s c)) w)) (\<lambda>s.
     Inr (upd_cv c (\<lambda>g. g\<lparr>cv_count := cv_count g - 1\<rparr>) s))"

end
