(* ===== verification/Sync_Props.thy ===== *)
theory Sync_Props
  imports Sync Sched_Props "HOL-Library.Multiset"
begin

text \<open>
  Correctness of the semaphores. \<open>kernel_inv\<close> extends the invariant of the scheduler by the wait queues of the
  semaphores; it is kept by every operation, and a semaphore used as a lock excludes mutually.
\<close>

section \<open>The invariant\<close>

definition sem_ok :: "ks \<Rightarrow> (nat \<Rightarrow> nat list) \<Rightarrow> bool" where
  "sem_ok s ws \<longleftrightarrow>
     (\<forall>i. 0 \<le> sem_value s i \<and> (ws i \<noteq> [] \<longrightarrow> sem_value s i = 0)) \<and>
     (\<forall>i w. w \<in> set (ws i) \<longrightarrow> wait_queue (waits s w) = Some i \<and>
       (\<exists>p. wait_proc (waits s w) = Some p \<and> state (procs s p) = PROC_SLEEPING \<and> wait_state (procs s p) = WT_KSEM)) \<and>
     (\<forall>i j w v. w \<in> set (ws i) \<longrightarrow> v \<in> set (ws j) \<longrightarrow> wait_proc (waits s w) = wait_proc (waits s v) \<longrightarrow> w = v)"

definition kernel_inv :: "ks \<Rightarrow> nat list \<Rightarrow> nat list \<Rightarrow> (nat \<Rightarrow> nat list) \<Rightarrow> bool" where
  "kernel_inv s q ts ws \<longleftrightarrow> sched_inv s q (ts, ws) \<and> sem_ok s ws \<and>
     state (procs s (current s)) = PROC_RUNNABLE \<and> state (procs s (idleproc s)) = PROC_RUNNABLE"

definition waiter_ok :: "ks \<Rightarrow> nat \<Rightarrow> nat \<Rightarrow> bool" where
  "waiter_ok s i w \<longleftrightarrow> wait_queue (waits s w) = Some i \<and>
     (\<exists>p. wait_proc (waits s w) = Some p \<and> state (procs s p) = PROC_SLEEPING \<and> wait_state (procs s p) = WT_KSEM)"

lemma sem_okI:
  assumes "\<And>i. 0 \<le> sem_value s i" "\<And>i. ws i \<noteq> [] \<Longrightarrow> sem_value s i = 0"
    "\<And>i w. w \<in> set (ws i) \<Longrightarrow> waiter_ok s i w"
    "\<And>i j w v. w \<in> set (ws i) \<Longrightarrow> v \<in> set (ws j) \<Longrightarrow> wait_proc (waits s w) = wait_proc (waits s v) \<Longrightarrow> w = v"
  shows "sem_ok s ws"
  using assms unfolding sem_ok_def waiter_ok_def by blast

lemma sem_okD:
  assumes "sem_ok s ws"
  shows "0 \<le> sem_value s i" "ws i \<noteq> [] \<Longrightarrow> sem_value s i = 0" "w \<in> set (ws i) \<Longrightarrow> waiter_ok s i w"
    "w \<in> set (ws i) \<Longrightarrow> v \<in> set (ws j) \<Longrightarrow> wait_proc (waits s w) = wait_proc (waits s v) \<Longrightarrow> w = v"
  using assms unfolding sem_ok_def waiter_ok_def by blast+

lemma kernel_inv_lists: "kernel_inv s q ts ws \<Longrightarrow> heap_lists (klinks s) (kl q ts ws)"
  by (simp add: kernel_inv_def sched_inv_lists)

lemma wait_queue_first_ok:
  assumes "heap_lists (klinks s) (kl q ts ws)"
  shows "wait_queue_first s i = (case ws i of [] \<Rightarrow> None | w # _ \<Rightarrow> Some w)"
  using heap_lists_first [OF assms, of "Wait_head i"]
  by (cases "ws i") (simp_all add: wait_queue_first_def le2wait_def Let_def)

lemma set_sem_fields [simp]:
  "klinks (set_sem i v s) = klinks s" "procs (set_sem i v s) = procs s" "timers (set_sem i v s) = timers s"
  "waits (set_sem i v s) = waits s" "sem_value (set_sem i v s) = (sem_value s)(i := v)"
  "proc_num (set_sem i v s) = proc_num s" "max_time_slice (set_sem i v s) = max_time_slice s"
  "current (set_sem i v s) = current s" "idleproc (set_sem i v s) = idleproc s"
  by (simp_all add: set_sem_def)

lemma kernel_inv_set_sem:
  assumes "kernel_inv s q ts ws" "0 \<le> v" "ws i = []"
  shows "kernel_inv (set_sem i v s) q ts ws"
proof -
  have si: "sched_inv s q (ts, ws)" and so: "sem_ok s ws" using assms(1) by (simp_all add: kernel_inv_def)
  have "sched_inv (set_sem i v s) q (ts, ws)"
    by (rule sched_inv_transfer [OF si]) (simp_all add: sched_inv_lists [OF si])
  moreover have "sem_ok (set_sem i v s) ws"
  proof (rule sem_okI)
    show "waiter_ok (set_sem i v s) j w" if "w \<in> set (ws j)" for j w
      using sem_okD(3) [OF so that] by (simp add: waiter_ok_def)
    show "w = x" if "w \<in> set (ws j)" "x \<in> set (ws k)" "wait_proc (waits (set_sem i v s) w) = wait_proc (waits (set_sem i v s) x)"
      for j k w x using sem_okD(4) [OF so that(1,2)] that(3) by simp
  qed (use sem_okD(1,2) [OF so] assms(2,3) in \<open>auto split: if_splits\<close>)
  ultimately show ?thesis using assms(1) by (simp add: kernel_inv_def)
qed

section \<open>up\<close>

lemma wakeup_wait_del_ok:
  assumes inv: "kernel_inv s q ts ws" and w: "ws i = w # v" and p: "wait_proc (waits s w) = Some p"
  shows "\<exists>s'. wakeup_wait s i w WT_KSEM True = Inr s' \<and> kernel_inv s' (q @ [p]) ts (ws(i := v)) \<and>
    sem_value s' = sem_value s \<and> current s' = current s \<and> idleproc s' = idleproc s \<and>
    wakeup_flags (waits s' w) = WT_KSEM \<and> (\<forall>x. wait_proc (waits s' x) = wait_proc (waits s x))"
proof -
  have so: "sem_ok s ws" and si: "sched_inv s q (ts, ws)" using inv by (simp_all add: kernel_inv_def)
  note hl = sched_inv_lists [OF si]
  have pw: "state (procs s p) = PROC_SLEEPING" "wait_queue (waits s w) = Some i"
    using sem_okD(3) [OF so, of w i] w p by (simp_all add: waiter_ok_def)
  have pc: "p \<noteq> current s" "p \<noteq> idleproc s" using pw(1) inv by (auto simp: kernel_inv_def)
  define s1 where "s1 = upd_wait w (\<lambda>g. g\<lparr>wakeup_flags := WT_KSEM\<rparr>) (s\<lparr>klinks := list_del_init (klinks s) (Wait_link w)\<rparr>)"
  have s1: "waits s1 = (waits s)(w := (waits s w)\<lparr>wakeup_flags := WT_KSEM\<rparr>)" "procs s1 = procs s"
    "sem_value s1 = sem_value s" "current s1 = current s" "idleproc s1 = idleproc s" by (simp_all add: s1_def)
  have "heap_lists (list_del_init (klinks s) (Wait_link w)) (kl q ts (ws(i := v)))"
    using heap_lists_del [OF hl, of "Wait_head i" "[]" "Wait_link w" "map Wait_link v"] w by simp
  then have i1: "sched_inv s1 q (ts, ws(i := v))"
    by (intro sched_inv_transfer [OF si]) (simp_all add: s1_def)
  have "\<not> list_empty (klinks s) (Wait_link w)"
    using heap_lists_empty_entry [OF hl, of "Wait_link w"] w by (simp, metis list.set_intros(1))
  then have run: "wakeup_wait s i w WT_KSEM True = wakeup_proc s1 p"
    using pw(2) p by (simp add: wakeup_wait_def wait_queue_del_def guardE_def s1_def Let_def)
  from wakeup_proc_correct [OF i1, of p] pw(1) obtain s'
    where s': "wakeup_proc s1 p = Inr s'" "sched_inv s' (woken s1 p q) (ts, ws(i := v))" "wakeup_effect s1 p s'"
    by (auto simp: s1)
  have wq: "woken s1 p q = q @ [p]" using pw(1) pc by (simp add: woken_def s1)
  have dn: "w \<notin> set v"
    using heap_lists_distinct [OF hl, of "Wait_head i"] w by (auto simp: image_def)
  have fields: "wait_proc (waits s' x) = wait_proc (waits s x)" "wait_queue (waits s' x) = wait_queue (waits s x)" for x
    using s'(3) by (simp_all add: wakeup_effect_def s1)
  have oth: "state (procs s' x) = state (procs s x)" "wait_state (procs s' x) = wait_state (procs s x)" if "x \<noteq> p" for x
    using s'(3) that by (simp_all add: wakeup_effect_def s1)
  have sub: "x \<in> set ((ws(i := v)) j) \<Longrightarrow> x \<in> set (ws j) \<and> wait_proc (waits s x) \<noteq> Some p" for x j
  proof -
    assume x: "x \<in> set ((ws(i := v)) j)"
    then have "x \<in> set (ws j)" using w by (auto split: if_splits)
    moreover have "x \<noteq> w"
    proof
      assume "x = w"
      with x dn have "j \<noteq> i" "w \<in> set (ws j)" using \<open>x \<in> set (ws j)\<close> by (auto split: if_splits)
      then show False using sem_okD(3) [OF so, of w j] pw(2) by (simp add: waiter_ok_def)
    qed
    ultimately show ?thesis using sem_okD(4) [OF so, of x j w i] w p by auto
  qed
  have "sem_ok s' (ws(i := v))"
  proof (rule sem_okI)
    have sv: "sem_value s' = sem_value s" using s'(3) by (simp add: wakeup_effect_def s1)
    show "0 \<le> sem_value s' j" for j unfolding sv by (rule sem_okD(1) [OF so])
    show "sem_value s' j = 0" if "(ws(i := v)) j \<noteq> []" for j
      unfolding sv using that w by (intro sem_okD(2) [OF so]) (auto split: if_splits)
    show "waiter_ok s' j x" if "x \<in> set ((ws(i := v)) j)" for j x
    proof -
      from sem_okD(3) [OF so conjunct1 [OF sub [OF that]]] obtain r where r: "wait_proc (waits s x) = Some r"
        "state (procs s r) = PROC_SLEEPING" "wait_state (procs s r) = WT_KSEM" "wait_queue (waits s x) = Some j"
        unfolding waiter_ok_def by blast
      with sub [OF that] have "r \<noteq> p" by auto
      with r oth [of r] show ?thesis unfolding waiter_ok_def fields by simp
    qed
    show "x = y" if "x \<in> set ((ws(i := v)) j)" "y \<in> set ((ws(i := v)) k)" "wait_proc (waits s' x) = wait_proc (waits s' y)" for j k x y
      using sem_okD(4) [OF so] sub [OF that(1)] sub [OF that(2)] that(3) unfolding fields by blast
  qed
  moreover have e: "current s' = current s" "idleproc s' = idleproc s" "sem_value s' = sem_value s"
    "wakeup_flags (waits s' w) = WT_KSEM" using s'(3) by (simp_all add: wakeup_effect_def s1)
  ultimately have k: "kernel_inv s' (q @ [p]) ts (ws(i := v))"
    using s'(2) inv oth [of "current s"] oth [of "idleproc s"] pc unfolding kernel_inv_def wq e by simp
  show ?thesis by (rule exI [of _ s']) (simp add: run s'(1) k e fields)
qed

lemma up_correct:
  assumes inv: "kernel_inv s q ts ws"
  shows "case ws i of
      [] \<Rightarrow> up s i = Inr (set_sem i (sem_value s i + 1) s) \<and> kernel_inv (set_sem i (sem_value s i + 1) s) q ts ws
    | w # v \<Rightarrow> \<exists>p s'. wait_proc (waits s w) = Some p \<and> up s i = Inr s' \<and> kernel_inv s' (q @ [p]) ts (ws(i := v)) \<and>
        sem_value s' = sem_value s \<and> current s' = current s \<and> idleproc s' = idleproc s \<and>
        wakeup_flags (waits s' w) = WT_KSEM \<and> (\<forall>x. wait_proc (waits s' x) = wait_proc (waits s x))"
proof (cases "ws i")
  case Nil
  moreover have "0 \<le> sem_value s i + 1" using inv sem_okD(1) [of s ws i] by (simp add: kernel_inv_def)
  ultimately show ?thesis using kernel_inv_set_sem [OF inv, of "sem_value s i + 1" i] wait_queue_first_ok [OF kernel_inv_lists [OF inv], of i]
    by (simp add: up_def sem_up_def)
next
  case (Cons w v)
  have "waiter_ok s i w" using sem_okD(3) [of s ws w i] inv Cons by (simp add: kernel_inv_def)
  then obtain p where p: "wait_proc (waits s w) = Some p" "wait_state (procs s p) = WT_KSEM"
    by (auto simp: waiter_ok_def)
  have "up s i = wakeup_wait s i w WT_KSEM True"
    using p wait_queue_first_ok [OF kernel_inv_lists [OF inv], of i] Cons by (simp add: up_def sem_up_def guardE_def)
  then show ?thesis using wakeup_wait_del_ok [OF inv Cons p(1)] p(1) unfolding Cons list.case by metis
qed

section \<open>down\<close>

text \<open>A process may block if it is not the idle process and its wait entry is in no queue.\<close>

definition may_block :: "ks \<Rightarrow> (nat \<Rightarrow> nat list) \<Rightarrow> nat \<Rightarrow> bool" where
  "may_block s ws w \<longleftrightarrow> current s \<noteq> idleproc s \<and> (\<forall>i. w \<notin> set (ws i))"

lemma wait_current_set_ok:
  assumes inv: "kernel_inv s q ts ws" and b: "may_block s ws w"
  defines "c \<equiv> current s"
  shows "\<exists>s'. wait_current_set s i w WT_KSEM = Inr s' \<and> sched_inv s' q (ts, ws(i := ws i @ [w])) \<and>
    procs s' = (procs s)(c := (procs s c)\<lparr>state := PROC_SLEEPING, wait_state := WT_KSEM\<rparr>) \<and>
    waits s' = (waits s)(w := (waits s w)\<lparr>wait_proc := Some c, wakeup_flags := WT_INTERRUPTED, wait_queue := Some i\<rparr>) \<and>
    sem_value s' = sem_value s \<and> current s' = c \<and> idleproc s' = idleproc s"
proof -
  note hl = kernel_inv_lists [OF inv]
  define h1 where "h1 = list_init (klinks s) (Wait_link w)"
  have hl1: "heap_lists h1 (kl q ts ws)"
    unfolding h1_def by (rule heap_lists_reinit [OF hl]) (use b in \<open>auto simp: may_block_def\<close>)
  have em: "list_empty h1 (Wait_link w)"
    using heap_lists_empty_entry [OF hl1, of "Wait_link w"] b by (simp add: may_block_def)
  have hl2: "heap_lists (list_add_before h1 (Wait_head i) (Wait_link w)) (kl q ts (ws(i := ws i @ [w])))"
    using heap_lists_push_back [OF hl1, of "Wait_head i" "Wait_link w"] b kl_upd(3) [of q ts ws i "ws i @ [w]"]
    by (simp add: may_block_def)
  obtain s' where s': "wait_current_set s i w WT_KSEM = Inr s'"
    "klinks s' = list_add_before h1 (Wait_head i) (Wait_link w)"
    "procs s' = (procs s)(c := (procs s c)\<lparr>state := PROC_SLEEPING, wait_state := WT_KSEM\<rparr>)"
    "waits s' = (waits s)(w := (waits s w)\<lparr>wait_proc := Some c, wakeup_flags := WT_INTERRUPTED, wait_queue := Some i\<rparr>)"
    "sem_value s' = sem_value s" "current s' = c" "idleproc s' = idleproc s" "proc_num s' = proc_num s" "max_time_slice s' = max_time_slice s"
    using em by (simp add: wait_current_set_def wait_queue_add_def wait_init_def guardE_def Let_def h1_def c_def)
  have "sched_inv s' q (ts, ws(i := ws i @ [w]))"
    using inv hl2 unfolding kernel_inv_def sched_inv_def rq_rep_def s' by (auto simp: c_def)
  with s' show ?thesis by blast
qed

lemma down_block_ok:
  assumes inv: "kernel_inv s q ts ws" and b: "may_block s ws w" and z: "sem_value s i = 0"
  shows "\<exists>s'. down_begin s i w = Inr (s', False) \<and> kernel_inv s' (tl q) ts (ws(i := ws i @ [w])) \<and>
    sem_value s' = sem_value s \<and> current s' = hd (q @ [idleproc s]) \<and> idleproc s' = idleproc s \<and>
    wait_proc (waits s' w) = Some (current s) \<and> (\<forall>x. x \<noteq> w \<longrightarrow> waits s' x = waits s x)"
proof -
  let ?c = "current s" and ?ws = "ws(i := ws i @ [w])"
  from wait_current_set_ok [OF inv b, of i] obtain s1 where s1: "wait_current_set s i w WT_KSEM = Inr s1"
    "sched_inv s1 q (ts, ?ws)"
    "procs s1 = (procs s)(?c := (procs s ?c)\<lparr>state := PROC_SLEEPING, wait_state := WT_KSEM\<rparr>)"
    "waits s1 = (waits s)(w := (waits s w)\<lparr>wait_proc := Some ?c, wakeup_flags := WT_INTERRUPTED, wait_queue := Some i\<rparr>)"
    "sem_value s1 = sem_value s" "current s1 = ?c" "idleproc s1 = idleproc s" by blast
  have nq: "next_queue s1 q = q" "next_proc s1 q = hd (q @ [idleproc s])"
    using s1(3,6,7) by (simp_all add: next_queue_def next_proc_def)
  from schedule_correct [OF s1(2)] obtain s' where s': "schedule s1 = Inr s'" "sched_inv s' (tl q) (ts, ?ws)"
    "sched_effect s1 (hd (q @ [idleproc s])) s'" unfolding nq by blast
  have e: "waits s' = waits s1" "sem_value s' = sem_value s" "current s' = hd (q @ [idleproc s])" "idleproc s' = idleproc s"
    "state (procs s' x) = state (procs s1 x)" "wait_state (procs s' x) = wait_state (procs s1 x)" for x
    using s'(3) s1(5,7) by (simp_all add: sched_effect_def)
  have so: "sem_ok s ws" and cr: "state (procs s ?c) = PROC_RUNNABLE" "state (procs s (idleproc s)) = PROC_RUNNABLE"
    using inv by (simp_all add: kernel_inv_def)
  have nw: "wait_proc (waits s x) \<noteq> Some ?c" "x \<noteq> w" if "x \<in> set (ws j)" for x j
    using sem_okD(3) [OF so that] cr b that by (auto simp: waiter_ok_def may_block_def)
  have mem: "x \<in> set (?ws j) \<longleftrightarrow> x \<in> set (ws j) \<or> x = w \<and> j = i" for x j by auto
  have ok: "sem_ok s' ?ws"
  proof (rule sem_okI)
    show "0 \<le> sem_value s' j" for j unfolding e by (rule sem_okD(1) [OF so])
    show "sem_value s' j = 0" if "?ws j \<noteq> []" for j
      unfolding e using that z sem_okD(2) [OF so, of j] by (auto split: if_splits)
    show "waiter_ok s' j x" if "x \<in> set (?ws j)" for j x
    proof (cases "x \<in> set (ws j)")
      case True
      from sem_okD(3) [OF so True] nw [OF True] show ?thesis
        by (auto simp: waiter_ok_def e s1(3,4))
    next
      case False
      then show ?thesis using that by (auto simp: waiter_ok_def e s1(3,4) split: if_splits)
    qed
    show "x = y" if "x \<in> set (?ws j)" "y \<in> set (?ws k)" "wait_proc (waits s' x) = wait_proc (waits s' y)" for x y j k
    proof (cases "x = w \<or> y = w")
      case True
      then show ?thesis using that(3) nw(1) [of x j] nw(1) [of y k] that(1,2) unfolding e s1(4) mem by (auto split: if_splits)
    next
      case False
      then show ?thesis using that sem_okD(4) [OF so, of x j y k] unfolding e s1(4) mem by simp
    qed
  qed
  have cur: "state (procs s' (current s')) = PROC_RUNNABLE" "state (procs s' (idleproc s')) = PROC_RUNNABLE"
  proof -
    have m: "x \<in> set q \<Longrightarrow> state (procs s1 x) = PROC_RUNNABLE" for x using s1(2) by (simp add: sched_inv_def)
    have i: "state (procs s1 (idleproc s)) = PROC_RUNNABLE" using cr(2) b by (auto simp: s1(3) may_block_def)
    then show "state (procs s' (idleproc s')) = PROC_RUNNABLE" unfolding e .
    show "state (procs s' (current s')) = PROC_RUNNABLE" unfolding e using m i by (cases q) auto
  qed
  have "down_begin s i w = Inr (s', False)"
    using z s1(1) s'(1) by (simp add: down_begin_def sem_down_begin_def)
  moreover have "kernel_inv s' (tl q) ts ?ws" using s'(2) ok cur by (simp add: kernel_inv_def)
  moreover have "wait_proc (waits s' w) = Some ?c" "\<forall>x. x \<noteq> w \<longrightarrow> waits s' x = waits s x" unfolding e s1(4) by simp_all
  ultimately show ?thesis using e(2-4) by (intro exI [of _ s']) simp
qed

lemma down_now_ok:
  assumes inv: "kernel_inv s q ts ws" and z: "0 < sem_value s i"
  shows "down_begin s i w = Inr (set_sem i (sem_value s i - 1) s, True) \<and> kernel_inv (set_sem i (sem_value s i - 1) s) q ts ws"
proof -
  have "ws i = []" using sem_okD(2) [of s ws i] inv z by (auto simp: kernel_inv_def)
  then show ?thesis using kernel_inv_set_sem [OF inv, of "sem_value s i - 1" i] z
    by (simp add: down_begin_def sem_down_begin_def)
qed

lemma schedule_kernel_inv:
  assumes inv: "kernel_inv s q ts ws"
  shows "\<exists>s' q'. schedule s = Inr s' \<and> kernel_inv s' q' ts ws \<and> sem_value s' = sem_value s \<and> waits s' = waits s \<and>
    idleproc s' = idleproc s"
proof -
  have si: "sched_inv s q (ts, ws)" and so: "sem_ok s ws" using inv by (simp_all add: kernel_inv_def)
  from schedule_correct [OF si] obtain s' where s': "schedule s = Inr s'" "sched_inv s' (tl (next_queue s q)) (ts, ws)"
    "sched_effect s (next_proc s q) s'" by blast
  have e: "waits s' = waits s" "sem_value s' = sem_value s" "current s' = next_proc s q" "idleproc s' = idleproc s"
    "state (procs s' x) = state (procs s x)" "wait_state (procs s' x) = wait_state (procs s x)" for x
    using s'(3) by (simp_all add: sched_effect_def)
  have "sem_ok s' ws" using so unfolding sem_ok_def e .
  moreover have "x \<in> set (next_queue s q) \<Longrightarrow> state (procs s x) = PROC_RUNNABLE" for x
    using si inv by (auto simp: next_queue_def sched_inv_def split: if_splits)
  then have "state (procs s (next_proc s q)) = PROC_RUNNABLE"
    using inv by (cases "next_queue s q") (auto simp: next_proc_def kernel_inv_def)
  ultimately have "kernel_inv s' (tl (next_queue s q)) ts ws"
    using s'(2) inv by (simp add: kernel_inv_def e)
  with s'(1) e show ?thesis by blast
qed

section \<open>Semaphores as locks\<close>

text \<open>
  The steps of a system whose processes call \<^verbatim>\<open>down\<close>, \<^verbatim>\<open>try_down\<close> and \<^verbatim>\<open>up\<close> on semaphore \<open>i\<close> and on others, in any
  order, and of its scheduler. The second component is the multiset of holders of \<open>i\<close>. A process holds the semaphore
  once \<^verbatim>\<open>down\<close> or \<^verbatim>\<open>try_down\<close> has taken it, or when an \<^verbatim>\<open>up\<close> wakes it, and until its own \<^verbatim>\<open>up\<close>. The third counts the calls
  of \<^verbatim>\<open>up\<close> on \<open>i\<close> by a process that does not hold it, as \<^verbatim>\<open>cond_signal\<close> and \<^verbatim>\<open>cond_wait\<close> make them. The wait structure \<open>w\<close> of
  a \<^verbatim>\<open>down\<close> is a local variable of the call, in no queue.
\<close>

inductive lock_step :: "nat \<Rightarrow> ks \<times> nat multiset \<times> nat \<Rightarrow> ks \<times> nat multiset \<times> nat \<Rightarrow> bool" for i where
  acquire: "down_begin s i w = Inr (s', True) \<Longrightarrow> lock_step i (s, H, u) (s', add_mset (current s) H, u)"
| block: "down_begin s j w = Inr (s', False) \<Longrightarrow> current s \<noteq> idleproc s \<Longrightarrow> \<not> wait_in_queue s w \<Longrightarrow>
    lock_step i (s, H, u) (s', H, u)"
| resume: "down_end s j w = Inr s' \<Longrightarrow> \<not> wait_in_queue s w \<Longrightarrow> lock_step i (s, H, u) (s', H, u)"
| try_acquire: "try_down s i = (s', True) \<Longrightarrow> lock_step i (s, H, u) (s', add_mset (current s) H, u)"
| try_fail: "try_down s j = (s', False) \<Longrightarrow> lock_step i (s, H, u) (s', H, u)"
| release: "wait_queue_first s i = None \<Longrightarrow> up s i = Inr s' \<Longrightarrow>
    lock_step i (s, H, u) (s', H - {#current s#}, if current s \<in># H then u else Suc u)"
| hand_over: "wait_queue_first s i = Some w \<Longrightarrow> wait_proc (waits s w) = Some p \<Longrightarrow> up s i = Inr s' \<Longrightarrow>
    lock_step i (s, H, u) (s', add_mset p (H - {#current s#}), if current s \<in># H then u else Suc u)"
| other_up: "j \<noteq> i \<Longrightarrow> up s j = Inr s' \<Longrightarrow> lock_step i (s, H, u) (s', H, u)"
| other_down: "j \<noteq> i \<Longrightarrow> down_begin s j w = Inr (s', True) \<Longrightarrow> lock_step i (s, H, u) (s', H, u)"
| other_try: "j \<noteq> i \<Longrightarrow> try_down s j = (s', True) \<Longrightarrow> lock_step i (s, H, u) (s', H, u)"
| sched: "schedule s = Inr s' \<Longrightarrow> lock_step i (s, H, u) (s', H, u)"

definition lock_inv :: "nat \<Rightarrow> int \<Rightarrow> ks \<times> nat multiset \<times> nat \<Rightarrow> bool" where
  "lock_inv i n c \<longleftrightarrow> (\<exists>q ts ws. kernel_inv (fst c) q ts ws) \<and>
     sem_value (fst c) i + int (size (fst (snd c))) = n + int (snd (snd c))"

lemma size_give_back: "int (size (H - {#x#})) = int (size H) - (if x \<in># H then 1 else 0)"
  by (cases "x \<in># H") (auto dest: multi_member_split)

lemma may_block_iff:
  assumes "kernel_inv s q ts ws"
  shows "may_block s ws w \<longleftrightarrow> current s \<noteq> idleproc s \<and> \<not> wait_in_queue s w"
  using heap_lists_empty_entry [OF kernel_inv_lists [OF assms], of "Wait_link w"]
  by (auto simp: may_block_def wait_in_queue_def)

lemma down_got:
  assumes inv: "kernel_inv s q ts ws" and d: "down_begin s i w = Inr (s', True)"
  shows "kernel_inv s' q ts ws \<and> sem_value s' = (sem_value s)(i := sem_value s i - 1)"
proof -
  have "0 < sem_value s i" using d by (auto simp: down_begin_def sem_down_begin_def bindE_Inr_iff split: if_splits)
  from down_now_ok [OF inv this, of w] d show ?thesis by auto
qed

lemma down_slept:
  assumes inv: "kernel_inv s q ts ws" and d: "down_begin s i w = Inr (s', False)"
    and b: "current s \<noteq> idleproc s" "\<not> wait_in_queue s w"
  shows "\<exists>q' ws'. kernel_inv s' q' ts ws' \<and> sem_value s' = sem_value s"
proof -
  have "\<not> 0 < sem_value s i" using d by (auto simp: down_begin_def sem_down_begin_def)
  then have "sem_value s i = 0" using inv sem_okD(1) [of s ws i] by (simp add: kernel_inv_def)
  from down_block_ok [OF inv _ this, of w] d b show ?thesis by (auto simp: may_block_iff [OF inv])
qed

lemma up_inv:
  assumes inv: "kernel_inv s q ts ws" and u: "up s i = Inr s'"
  shows "\<exists>q' ws'. kernel_inv s' q' ts ws' \<and>
    sem_value s' = (case wait_queue_first s i of None \<Rightarrow> (sem_value s)(i := sem_value s i + 1) | Some _ \<Rightarrow> sem_value s)"
  using up_correct [OF inv, of i] u wait_queue_first_ok [OF kernel_inv_lists [OF inv], of i]
  by (cases "ws i") auto

lemma try_down_inv:
  assumes inv: "kernel_inv s q ts ws" and "try_down s i = (s', b)"
  shows "kernel_inv s' q ts ws \<and> sem_value s' = (if b then (sem_value s)(i := sem_value s i - 1) else sem_value s)"
  using down_now_ok [OF inv, of i] assms by (auto simp: try_down_def split: if_splits)

lemma lock_step_inv:
  assumes "lock_step i c c'" and "lock_inv i n c"
  shows "lock_inv i n c'"
  using assms
proof (induction rule: lock_step.induct)
  case (acquire s w s' H u)
  then show ?case using down_got unfolding lock_inv_def by fastforce
next
  case (block s j w s' H u)
  then show ?case using down_slept unfolding lock_inv_def fst_conv snd_conv by metis
next
  case (resume s j w s' H u)
  then have "s' = s" by (auto simp: down_end_def sem_down_end_def wait_current_del_def guardE_def split: if_splits)
  with resume show ?case by simp
next
  case (try_acquire s s' H u)
  then show ?case using try_down_inv unfolding lock_inv_def by fastforce
next
  case (try_fail s j s' H u)
  then show ?case using try_down_inv unfolding lock_inv_def fst_conv snd_conv by metis
next
  case (release s s' H u)
  then obtain q ts ws where k: "kernel_inv s q ts ws" by (auto simp: lock_inv_def)
  show ?case using up_inv [OF k release(2)] release by (auto simp: lock_inv_def size_give_back)
next
  case (hand_over s w p s' H u)
  then obtain q ts ws where k: "kernel_inv s q ts ws" by (auto simp: lock_inv_def)
  show ?case using up_inv [OF k hand_over(3)] hand_over by (auto simp: lock_inv_def size_give_back)
next
  case (other_up j s s' H u)
  then obtain q ts ws where k: "kernel_inv s q ts ws" by (auto simp: lock_inv_def)
  show ?case using up_inv [OF k other_up(2)] other_up by (auto simp: lock_inv_def split: option.splits)
next
  case (other_down j s w s' H u)
  then obtain q ts ws where k: "kernel_inv s q ts ws" by (auto simp: lock_inv_def)
  show ?case using down_got [OF k other_down(2)] other_down by (auto simp: lock_inv_def)
next
  case (other_try j s s' H u)
  then obtain q ts ws where k: "kernel_inv s q ts ws" by (auto simp: lock_inv_def)
  show ?case using try_down_inv [OF k other_try(2)] other_try by (auto simp: lock_inv_def)
next
  case (sched s s' H u)
  then obtain q ts ws where k: "kernel_inv s q ts ws" by (auto simp: lock_inv_def)
  show ?case using schedule_kernel_inv [OF k] sched by (auto simp: lock_inv_def)
qed

section \<open>Monitors\<close>

lemma may_block_shorter:
  assumes "may_block s ws w" "current k = current s" "idleproc k = idleproc s" "ws i = v # vs"
  shows "may_block k (ws(i := vs)) w"
proof -
  have "w \<notin> set (ws i)" using assms(1) by (simp add: may_block_def)
  then show ?thesis using assms by (simp add: may_block_def)
qed

lemma mon_fields [simp]:
  "mon_ks (upd_mon m f s) = mon_ks s" "monitors (upd_mon m f s) = (monitors s)(m := f (monitors s m))"
  "condvars (upd_mon m f s) = condvars s"
  "mon_ks (upd_cv c g s) = mon_ks s" "monitors (upd_cv c g s) = monitors s"
  "condvars (upd_cv c g s) = (condvars s)(c := g (condvars s c))"
  by (simp_all add: upd_mon_def upd_cv_def)

text \<open>
  \<^verbatim>\<open>cond_wait\<close> lets in the next process, a signaller that waits on \<^verbatim>\<open>next\<close> before one that waits for the mutex,
  and sleeps on the condition variable.
\<close>

lemma cond_wait_releases:
  assumes inv: "kernel_inv (mon_ks s) q ts ws" and b: "may_block (mon_ks s) ws w"
    and c: "m = cv_owner (condvars s c)" "e = cv_sem (condvars s c)"
    and n: "i = (if next_count (monitors s m) > 0 then mon_next (monitors s m) else mon_mutex (monitors s m))"
    and z: "i \<noteq> e" "sem_value (mon_ks s) e = 0" "ws i = v # vs"
  shows "\<exists>s' p. cond_wait_begin s c w = Inr (s', False) \<and> wait_proc (waits (mon_ks s) v) = Some p \<and>
    kernel_inv (mon_ks s') (tl (q @ [p])) ts (ws(i := vs, e := ws e @ [w])) \<and>
    cv_count (condvars s' c) = cv_count (condvars s c) + 1 \<and> monitors s' = monitors s \<and>
    current (mon_ks s') = hd (q @ [p])"
proof -
  define s0 where "s0 = upd_cv c (\<lambda>g. g\<lparr>cv_count := cv_count g + 1\<rparr>) s"
  from up_correct [OF inv, of i] z(3) obtain p k1 where k1: "wait_proc (waits (mon_ks s) v) = Some p"
    "up (mon_ks s) i = Inr k1" "kernel_inv k1 (q @ [p]) ts (ws(i := vs))" "sem_value k1 = sem_value (mon_ks s)"
    "current k1 = current (mon_ks s)" "idleproc k1 = idleproc (mon_ks s)" by auto
  have b1: "may_block k1 (ws(i := vs)) w" using may_block_shorter [OF b k1(5,6) z(3)] .
  from down_block_ok [OF k1(3) b1, of e] z k1(4) obtain k2 where k2: "down_begin k1 e w = Inr (k2, False)"
    "kernel_inv k2 (tl (q @ [p])) ts (ws(i := vs, e := ws e @ [w]))" "current k2 = hd (q @ [p])"
    by (cases q) auto
  have "cond_wait_begin s c w = Inr (s0\<lparr>mon_ks := k2\<rparr>, False)"
    using k1(2) k2(1) c n
    by (cases "0 < next_count (monitors s m)") (simp_all add: cond_wait_begin_def s0_def mon_lift_def Let_def)
  then show ?thesis using k1(1) k2(2,3) by (auto simp: s0_def)
qed

lemma cond_signal_correct:
  assumes inv: "kernel_inv (mon_ks s) q ts ws" and b: "may_block (mon_ks s) ws w"
    and c: "0 < cv_count (condvars s c)" "m = cv_owner (condvars s c)" "e = cv_sem (condvars s c)" "ws e = v # vs"
    and n: "i = mon_next (monitors s m)" "i \<noteq> e" "sem_value (mon_ks s) i = 0"
  shows "\<exists>s' p. cond_signal_begin s c w = Inr (s', False) \<and> wait_proc (waits (mon_ks s) v) = Some p \<and>
    kernel_inv (mon_ks s') (tl (q @ [p])) ts (ws(e := vs, i := ws i @ [w])) \<and>
    sem_value (mon_ks s') = sem_value (mon_ks s) \<and>
    next_count (monitors s' m) = next_count (monitors s m) + 1 \<and> condvars s' = condvars s \<and>
    wait_proc (waits (mon_ks s') w) = Some (current (mon_ks s))"
proof -
  define s0 where "s0 = upd_mon m (\<lambda>g. g\<lparr>next_count := next_count g + 1\<rparr>) s"
  from up_correct [OF inv, of e] c(4) obtain p k1 where k1: "wait_proc (waits (mon_ks s) v) = Some p"
    "up (mon_ks s) e = Inr k1" "kernel_inv k1 (q @ [p]) ts (ws(e := vs))" "sem_value k1 = sem_value (mon_ks s)"
    "current k1 = current (mon_ks s)" "idleproc k1 = idleproc (mon_ks s)" by auto
  have b1: "may_block k1 (ws(e := vs)) w" using may_block_shorter [OF b k1(5,6) c(4)] .
  from down_block_ok [OF k1(3) b1, of i] n k1(4,5) obtain k2 where k2: "down_begin k1 i w = Inr (k2, False)"
    "kernel_inv k2 (tl (q @ [p])) ts (ws(e := vs, i := ws i @ [w]))" "sem_value k2 = sem_value (mon_ks s)"
    "wait_proc (waits k2 w) = Some (current (mon_ks s))" by auto
  have "cond_signal_begin s c w = Inr (s0\<lparr>mon_ks := k2\<rparr>, False)"
    using c k1(2) k2(1) n(1) by (simp add: cond_signal_begin_def s0_def mon_lift_def Let_def)
  then show ?thesis using k1(1) k2(2-4) by (auto simp: s0_def)
qed

section \<open>Properties\<close>

text \<open>Processes 1 and 2 are queued, process 3 runs, and no process waits.\<close>

definition three_procs :: ks where
  "three_procs = queued_procs\<lparr>current := 3, procs := (procs queued_procs)(3 := (procs queued_procs 3)\<lparr>state := PROC_RUNNABLE\<rparr>)\<rparr>"

lemma queued_procs_fields:
  "idleproc queued_procs = 0" "current queued_procs = 0" "state (procs queued_procs 0) = PROC_RUNNABLE"
  "sem_value queued_procs = (\<lambda>_. 0)"
  by (simp_all add: queued_procs_def two_procs_def RR_enqueue_def Let_def guardE_def list_empty_def list_add_before_def
      list_add_between_def)

lemma three_procs_fields:
  "current three_procs = 3" "idleproc three_procs = 0" "sem_value three_procs = (\<lambda>_. 0)"
  by (simp_all add: three_procs_def queued_procs_fields)

lemma three_procs_inv: "kernel_inv three_procs [1, 2] [] (\<lambda>_. [])"
proof -
  have rep: "rq_rep queued_procs [1, 2] ([], \<lambda>_. [])" and
    mem: "p \<in> set [1, 2] \<longleftrightarrow> state (procs queued_procs p) = PROC_RUNNABLE \<and> p \<noteq> 0" for p
    using queued_procs_inv by (simp_all add: sched_inv_def queued_procs_fields)
  have "p \<in> set [1, 2] \<longleftrightarrow> state (procs three_procs p) = PROC_RUNNABLE \<and> p \<noteq> 3 \<and> p \<noteq> 0" for p
    using mem [of p] by (cases "p = 3") (simp_all add: three_procs_def)
  moreover have "rq_rep three_procs [1, 2] ([], \<lambda>_. [])" using rep by (simp add: rq_rep_def three_procs_def)
  ultimately have "sched_inv three_procs [1, 2] ([], \<lambda>_. [])" by (simp add: sched_inv_def three_procs_fields)
  then show ?thesis by (simp add: kernel_inv_def sem_ok_def three_procs_def queued_procs_fields)
qed

text \<open>
  \<^verbatim>\<open>up\<close> never fails an assertion. With nobody waiting it increments the value. Otherwise the value stays and the
  process that has waited longest is handed the semaphore: its wait entry leaves the queue, it becomes runnable
  and joins the run queue, and the other waiting processes stay in their order.
\<close>

theorem up_hands_over:
  assumes "kernel_inv s q ts ws"
  shows "case ws i of
      [] \<Rightarrow> up s i = Inr (set_sem i (sem_value s i + 1) s) \<and> kernel_inv (set_sem i (sem_value s i + 1) s) q ts ws
    | w # v \<Rightarrow> \<exists>p s'. wait_proc (waits s w) = Some p \<and> up s i = Inr s' \<and> kernel_inv s' (q @ [p]) ts (ws(i := v)) \<and>
        sem_value s' = sem_value s \<and> current s' = current s \<and> idleproc s' = idleproc s \<and>
        wakeup_flags (waits s' w) = WT_KSEM \<and> (\<forall>x. wait_proc (waits s' x) = wait_proc (waits s x))"
  using assms by (rule up_correct)

theorem up_hands_over_witness:
  "\<exists>s s'. kernel_inv s [2] [] (\<lambda>i. if i = 4 then [9] else []) \<and> up s 4 = Inr s' \<and> kernel_inv s' [2, 3] [] (\<lambda>_. [])"
proof -
  from down_block_ok [OF three_procs_inv, of 9 4] obtain s where s: "kernel_inv s [2] [] ((\<lambda>_. [])(4 := [9]))"
    "wait_proc (waits s 9) = Some 3" by (auto simp: may_block_def three_procs_fields)
  from up_hands_over [OF s(1), of 4] s(2) obtain s' where "up s 4 = Inr s'" "kernel_inv s' [2, 3] [] ((\<lambda>_. [])(4 := []))" by auto
  moreover have "((\<lambda>_. [])(4 := [9])) = (\<lambda>i. if i = (4::nat) then [9::nat] else [])" "((\<lambda>_. [])(4 := [])) = (\<lambda>_::nat. []::nat list)" by auto
  ultimately show ?thesis using s(1) by metis
qed

text \<open>
  \<^verbatim>\<open>down\<close> on a positive semaphore decrements it and goes on. On a semaphore of value 0 the process is put to sleep at
  the end of the semaphore's queue and the processor is given to the next runnable process; the value stays 0.
  When the process runs again after an \<^verbatim>\<open>up\<close> has handed it the semaphore, \<^verbatim>\<open>down\<close> returns without an error.
\<close>

theorem down_takes_or_sleeps:
  assumes "kernel_inv s q ts ws" and "may_block s ws w"
  shows "(if 0 < sem_value s i
    then down_begin s i w = Inr (set_sem i (sem_value s i - 1) s, True) \<and> kernel_inv (set_sem i (sem_value s i - 1) s) q ts ws
    else \<exists>s'. down_begin s i w = Inr (s', False) \<and> kernel_inv s' (tl q) ts (ws(i := ws i @ [w])) \<and>
      sem_value s' = sem_value s \<and> current s' = hd (q @ [idleproc s]) \<and> wait_proc (waits s' w) = Some (current s)) \<and>
    (wakeup_flags (waits s w) = WT_KSEM \<longrightarrow> down_end s i w = Inr s)"
proof -
  have "sem_value s i = 0" if "\<not> 0 < sem_value s i" using that assms(1) sem_okD(1) [of s ws i] by (simp add: kernel_inv_def)
  moreover have "down_end s i w = Inr s" if "wakeup_flags (waits s w) = WT_KSEM"
    using assms(2) that may_block_iff [OF assms(1), of w]
    by (simp add: down_end_def sem_down_end_def wait_current_del_def guardE_def)
  ultimately show ?thesis using down_now_ok [OF assms(1), of i w] down_block_ok [OF assms, of i] by (simp, metis)
qed

theorem down_takes_or_sleeps_witness:
  "\<exists>s'. down_begin three_procs 4 9 = Inr (s', False) \<and> current s' = 1 \<and> wait_proc (waits s' 9) = Some 3"
  using down_takes_or_sleeps [OF three_procs_inv, of 9 4] by (auto simp: may_block_def three_procs_fields)

text \<open>
  C9. Semaphores conserve their units. Whatever processes call \<^verbatim>\<open>down\<close>, \<^verbatim>\<open>try_down\<close> and \<^verbatim>\<open>up\<close>, on this semaphore and on
  others, and however they are scheduled, the value of a semaphore that began with \<open>n\<close> is never negative, and with the
  number of its holders adds up to \<open>n\<close> plus the number of \<^verbatim>\<open>up\<close> calls by processes that did not hold it (as long as that
  is an \<^verbatim>\<open>int\<close>). So where only holders call \<^verbatim>\<open>up\<close>, as with a lock, there are never more than \<open>n\<close> holders: with \<open>n = 1\<close>
  this is mutual exclusion.
\<close>

theorem semaphore_excludes:
  assumes "(lock_step i)\<^sup>*\<^sup>* (s0, {#}, 0) (s, H, u)" and "kernel_inv s0 q ts ws" and "sem_value s0 i = n"
    and "n + int u < 2 ^ 31"
  shows "sem_value s i + int (size H) = n + int u \<and> 0 \<le> sem_value s i \<and> sem_value s i < 2 ^ 31 \<and>
    (u = 0 \<longrightarrow> int (size H) \<le> n)"
proof -
  have "lock_inv i n (s0, {#}, 0)" using assms(2,3) by (auto simp: lock_inv_def)
  with assms(1) have inv: "lock_inv i n (s, H, u)"
    by (induction rule: rtranclp_induct) (auto intro: lock_step_inv)
  then have "0 \<le> sem_value s i" using sem_okD(1) by (auto simp: lock_inv_def kernel_inv_def)
  then show ?thesis using inv assms(4) by (auto simp: lock_inv_def)
qed

text \<open>Process 3 takes a semaphore of value 1 and gives it back.\<close>

theorem semaphore_excludes_witness:
  "\<exists>s t. lock_step 4 (set_sem 4 1 three_procs, {#}, 0) (s, {#3#}, 0) \<and> lock_step 4 (s, {#3#}, 0) (t, {#}, 0) \<and>
     sem_value s 4 = 0 \<and> sem_value t 4 = 1"
proof -
  have k: "kernel_inv (set_sem 4 1 three_procs) [1, 2] [] (\<lambda>_. [])" using kernel_inv_set_sem [OF three_procs_inv] by simp
  let ?s = "set_sem 4 0 (set_sem 4 1 three_procs)"
  have k': "kernel_inv ?s [1, 2] [] (\<lambda>_. [])" using kernel_inv_set_sem [OF k] by simp
  have "down_begin (set_sem 4 1 three_procs) 4 9 = Inr (?s, True)"
    using down_now_ok [OF k, of 4 9] by simp
  from lock_step.acquire [OF this] have st: "lock_step 4 (set_sem 4 1 three_procs, {#}, 0) (?s, {#3#}, 0)"
    by (simp add: three_procs_fields)
  from up_correct [OF k', of 4] obtain t where t: "up ?s 4 = Inr t" by auto
  have "wait_queue_first ?s 4 = None" using wait_queue_first_ok [OF kernel_inv_lists [OF k'], of 4] by simp
  from lock_step.release [OF this t, of "{#3#}" 0] have st': "lock_step 4 (?s, {#3#}, 0) (t, {#}, 0)"
    by (simp add: three_procs_fields)
  note r = r_into_rtranclp [of "lock_step 4", OF st]
  have "sem_value ?s 4 = 0" using semaphore_excludes [OF r k refl] by simp
  moreover have "sem_value t 4 = 1"
    using semaphore_excludes [OF rtranclp.rtrancl_into_rtrancl [OF r st'] k refl] by simp
  ultimately show ?thesis using st st' by blast
qed

text \<open>
  C33. \<^verbatim>\<open>cond_signal\<close> with a process waiting on the condition variable hands the monitor over to it at once: the
  process that has waited longest becomes runnable, the signaller goes to sleep on \<^verbatim>\<open>next\<close> and is counted there,
  and no semaphore value, the mutex's included, changes, so no third process can enter in between. With nobody
  waiting it does nothing.
\<close>

theorem cond_signal_hands_over:
  assumes "kernel_inv (mon_ks s) q ts ws" and "may_block (mon_ks s) ws w"
    and "m = cv_owner (condvars s c)" "e = cv_sem (condvars s c)" "i = mon_next (monitors s m)" "i \<noteq> e"
    and "sem_value (mon_ks s) i = 0" and "0 < cv_count (condvars s c) \<longleftrightarrow> ws e \<noteq> []"
  shows "case ws e of [] \<Rightarrow> cond_signal_begin s c w = Inr (s, True)
    | v # vs \<Rightarrow> \<exists>s' p. cond_signal_begin s c w = Inr (s', False) \<and> wait_proc (waits (mon_ks s) v) = Some p \<and>
        kernel_inv (mon_ks s') (tl (q @ [p])) ts (ws(e := vs, i := ws i @ [w])) \<and>
        sem_value (mon_ks s') = sem_value (mon_ks s) \<and>
        next_count (monitors s' m) = next_count (monitors s m) + 1 \<and> condvars s' = condvars s \<and>
        wait_proc (waits (mon_ks s') w) = Some (current (mon_ks s))"
proof (cases "ws e")
  case Nil
  then show ?thesis using assms(8) by (simp add: cond_signal_begin_def)
next
  case (Cons v vs)
  then have "0 < cv_count (condvars s c)" using assms(8) by simp
  from cond_signal_correct [OF assms(1,2) this assms(3,4) Cons assms(5-7)] Cons show ?thesis by simp
qed

text \<open>Process 3 waits on condition variable 0 of monitor 0, whose semaphores are 4 (condition), 5 (next) and 6 (mutex).\<close>

definition demo_monitor :: "ks \<Rightarrow> mon_state" where
  "demo_monitor k = \<lparr>mon_ks = k, monitors = (\<lambda>_. \<lparr>mon_mutex = 6, mon_next = 5, next_count = 0, mon_cv = [0]\<rparr>),
     condvars = (\<lambda>_. \<lparr>cv_sem = 4, cv_count = 1, cv_owner = 0\<rparr>)\<rparr>"

theorem cond_signal_hands_over_witness:
  "\<exists>k s'. kernel_inv k [2] [] (\<lambda>i. if i = 4 then [9] else []) \<and> cond_signal_begin (demo_monitor k) 0 8 = Inr (s', False)"
proof -
  from down_block_ok [OF three_procs_inv, of 9 4] obtain k where k: "kernel_inv k [2] [] ((\<lambda>_. [])(4 := [9]))"
    "current k = 1" "idleproc k = 0" "sem_value k = (\<lambda>_. 0)" by (auto simp: may_block_def three_procs_fields)
  have f: "((\<lambda>_. [])(4 := [9])) = (\<lambda>i. if i = (4::nat) then [9::nat] else [])" by auto
  let ?s = "demo_monitor k"
  have a: "kernel_inv (mon_ks ?s) [2] [] ((\<lambda>_. [])(4 := [9]))" "may_block (mon_ks ?s) ((\<lambda>_. [])(4 := [9])) 8"
    using k by (simp_all add: demo_monitor_def may_block_def)
  have "\<exists>s'. cond_signal_begin ?s 0 8 = Inr (s', False)"
    using cond_signal_hands_over [OF a refl refl refl, of 0] k(4) by (auto simp: demo_monitor_def)
  with k(1) show ?thesis unfolding f by blast
qed

end
