(* ===== verification/Vm.thy ===== *)
theory Vm
  imports Pmm_free Cpu
begin

unbundle bit_operations_syntax

text \<open>
  Page tables, the software-managed TLB and page replacement of the kernel: \<^verbatim>\<open>kern/mm/mmu.h\<close>, \<^verbatim>\<open>pmm.h\<close>,
  \<^verbatim>\<open>pmm.c\<close>, \<^verbatim>\<open>tlb.c\<close>, \<^verbatim>\<open>swap.c\<close>, \<^verbatim>\<open>swap_fifo.c\<close>, \<^verbatim>\<open>fs/swap/swapfs.c\<close>.

  The state \<open>vm\<close> holds the page descriptors and the free list (\<open>vpmm\<close>), the contents of the page frames as
  words (\<open>frames\<close>, a frame number and an index below 1024), the kernel's book-keeping of the TLB, and the
  machine (\<open>hw\<close>), which is the CPU of the emulator: \<open>tlb_write\<close> moves its operands into CP0 registers and
  executes the emulator's \<^verbatim>\<open>tlbwi\<close>.

  A page directory is named by its frame number, a \<^verbatim>\<open>pte_t *\<close> is a frame number and an index. \<^verbatim>\<open>KADDR\<close> and
  \<^verbatim>\<open>page2kva\<close> of a frame are the frame number, after the check of the macro. \<^verbatim>\<open>panic\<close> is \<open>Inl Panicked\<close>, an index
  outside of an array \<open>Inl Out_of_bounds\<close>, a list head taken for an entry \<open>Inl Bad_pointer\<close>. Loops over an
  address range have fuel for one round per page; the loop of \<^verbatim>\<open>alloc_pages\<close> one per page of memory.
\<close>

section \<open>State\<close>

datatype vnode = Pra_list_head | Pra_page_link nat | Mmap_list nat | List_link nat

record vma_struct =
  vm_mm :: "nat option"
  vm_start :: u32
  vm_end :: u32
  vm_flags :: u32

record mm_struct =
  mmap_cache :: "nat option"
  pgdir :: "nat option"
  map_count :: int
  sm_priv :: bool
  mm_count :: int

record vm =
  vpmm :: pmm
  frames :: "nat \<Rightarrow> nat \<Rightarrow> u32"
  vlinks :: "vnode lheap"
  pra_vaddr :: "nat \<Rightarrow> u32"
  vmas :: "nat \<Rightarrow> vma_struct"
  mms :: "nat \<Rightarrow> mm_struct"
  check_mm_struct :: "nat option"
  cur_pgdir :: "nat option"
  hw :: cpu
  tlb_algo_empty :: "nat list"
  tlb_algo_n :: nat
  tlb_algo_hi :: "u32 list"
  tlb_algo_ptr :: nat
  swap_init_ok :: bool
  clean_block :: u32
  pgfault_num :: u32

type_synonym pte_ptr = "nat \<times> nat"

definition rd :: "vm \<Rightarrow> pte_ptr \<Rightarrow> u32" where
  "rd s a = frames s (fst a) (snd a)"

definition wr :: "pte_ptr \<Rightarrow> u32 \<Rightarrow> vm \<Rightarrow> vm" where
  "wr a v s = s\<lparr>frames := (frames s)(fst a := (frames s (fst a))(snd a := v))\<rparr>"

definition upd_mm :: "nat \<Rightarrow> (mm_struct \<Rightarrow> mm_struct) \<Rightarrow> vm \<Rightarrow> vm" where
  "upd_mm m f s = s\<lparr>mms := (mms s)(m := f (mms s m))\<rparr>"

definition upd_pmm :: "(pmm \<Rightarrow> pmm) \<Rightarrow> vm \<Rightarrow> vm" where
  "upd_pmm f s = s\<lparr>vpmm := f (vpmm s)\<rparr>"

section \<open>Addresses\<close>

abbreviation (input) PGSIZE :: u32 where "PGSIZE \<equiv> 4096"
abbreviation (input) PTSIZE :: u32 where "PTSIZE \<equiv> 0x400000"
abbreviation (input) PTE_P :: u32 where "PTE_P \<equiv> 0x001"
abbreviation (input) PTE_W :: u32 where "PTE_W \<equiv> 0x002"
abbreviation (input) PTE_U :: u32 where "PTE_U \<equiv> 0x004"
abbreviation (input) PTE_USER :: u32 where "PTE_USER \<equiv> 0x007"
abbreviation (input) USERBASE :: u32 where "USERBASE \<equiv> 0x00200000"
abbreviation (input) USERTOP :: u32 where "USERTOP \<equiv> 0x80000000"
abbreviation (input) KERNBASE :: u32 where "KERNBASE \<equiv> 0x80000000"
abbreviation (input) KMEMSIZE :: u32 where "KMEMSIZE \<equiv> 0x00800000"
abbreviation (input) KERNTOP :: u32 where "KERNTOP \<equiv> 0x80800000"

definition PDX :: "u32 \<Rightarrow> nat" where
  "PDX la = unat (drop_bit 22 la AND 0x3FF)"

definition PTX :: "u32 \<Rightarrow> nat" where
  "PTX la = unat (drop_bit 12 la AND 0x3FF)"

definition PPN :: "u32 \<Rightarrow> u32" where
  "PPN la = drop_bit 12 la"

definition PGOFF :: "u32 \<Rightarrow> u32" where
  "PGOFF la = la AND 0xFFF"

definition PTE_ADDR :: "u32 \<Rightarrow> u32" where
  "PTE_ADDR pte = pte AND NOT 0xFFF"

definition USER_ACCESS :: "u32 \<Rightarrow> u32 \<Rightarrow> bool" where
  "USER_ACCESS st en \<longleftrightarrow> USERBASE \<le> st \<and> st < en \<and> en \<le> USERTOP"

definition KERN_ACCESS :: "u32 \<Rightarrow> u32 \<Rightarrow> bool" where
  "KERN_ACCESS st en \<longleftrightarrow> KERNBASE \<le> st \<and> st < en \<and> en \<le> KERNTOP"

definition page2pa :: "nat \<Rightarrow> u32" where
  "page2pa p = push_bit 12 (of_nat p)"

definition pa2page :: "vm \<Rightarrow> u32 \<Rightarrow> kpanic + nat" where
  "pa2page s pa = (if unat (PPN pa) \<ge> npage (vpmm s) then Inl Panicked else Inr (unat (PPN pa)))"

definition KADDR :: "vm \<Rightarrow> u32 \<Rightarrow> kpanic + nat" where
  "KADDR s pa = (if unat (PPN pa) \<ge> npage (vpmm s) then Inl Panicked else Inr (unat (PPN pa)))"

definition page2kva :: "vm \<Rightarrow> nat \<Rightarrow> kpanic + nat" where
  "page2kva s p = KADDR s (page2pa p)"

definition pte2page :: "vm \<Rightarrow> u32 \<Rightarrow> kpanic + nat" where
  "pte2page s pte = (if pte AND PTE_P = 0 then Inl Panicked else pa2page s (PTE_ADDR pte))"

definition pde2page :: "vm \<Rightarrow> u32 \<Rightarrow> kpanic + nat" where
  "pde2page s pde = pa2page s (PTE_ADDR pde)"

definition page_ref :: "vm \<Rightarrow> nat \<Rightarrow> int" where
  "page_ref s p = ref (page_tab (vpmm s) p)"

definition page_ref_inc :: "nat \<Rightarrow> vm \<Rightarrow> vm" where
  "page_ref_inc p = upd_pmm (upd_page p (\<lambda>g. g\<lparr>ref := ref g + 1\<rparr>))"

definition page_ref_dec :: "nat \<Rightarrow> vm \<Rightarrow> vm" where
  "page_ref_dec p = upd_pmm (upd_page p (\<lambda>g. g\<lparr>ref := ref g - 1\<rparr>))"

section \<open>Walking the page table\<close>

text \<open>The entry of \<open>la\<close> in a page table that exists; \<open>find_pte\<close> is \<^verbatim>\<open>get_pte(pgdir, la, 0)\<close>.\<close>

definition pte_at :: "vm \<Rightarrow> nat \<Rightarrow> u32 \<Rightarrow> kpanic + pte_ptr" where
  "pte_at s pd la =
     bindE (KADDR s (frames s pd (PDX la) AND 0xfffff000)) (\<lambda>f. Inr (f, unat (drop_bit 12 (la AND 0x003ff000))))"

definition find_pte :: "vm \<Rightarrow> nat \<Rightarrow> u32 \<Rightarrow> kpanic + pte_ptr option" where
  "find_pte s pd la =
     (if frames s pd (PDX la) AND PTE_P = 0 then Inr None else bindE (pte_at s pd la) (\<lambda>a. Inr (Some a)))"

section \<open>The TLB\<close>

abbreviation (input) TLBN :: nat where "TLBN \<equiv> 16"
abbreviation (input) TLB_P :: u32 where "TLB_P \<equiv> 0x80"
abbreviation (input) ENTRYLO_INVALID :: u32 where "ENTRYLO_INVALID \<equiv> 0"
abbreviation (input) ENTRYHI_INVALID :: u32 where "ENTRYHI_INVALID \<equiv> 0x80000000"

definition TLBIDX :: "u32 \<Rightarrow> nat" where
  "TLBIDX pte = unat (drop_bit 8 pte AND 0xf)"

definition TLBPAIR :: "u32 \<Rightarrow> u32" where
  "TLBPAIR la = la XOR 0x1000"

definition TLBLO :: "u32 \<Rightarrow> u32" where
  "TLBLO la = PPN la AND 1"

definition ENTRYLO_AUX :: "u32 \<Rightarrow> u32 \<Rightarrow> u32" where
  "ENTRYLO_AUX pfn d = push_bit 6 pfn OR push_bit 3 2 OR push_bit 2 d OR 0x3"

definition ENTRYLO :: "u32 \<Rightarrow> u32" where
  "ENTRYLO pte = ENTRYLO_AUX (PPN pte) (drop_bit 1 pte AND 1)"

text \<open>\<^verbatim>\<open>lo[TLBLO(la)] = x, lo[TLBLO(TLBPAIR(la))] = y\<close> and the two elements of \<^verbatim>\<open>lo\<close>.\<close>

definition lo_pair :: "u32 \<Rightarrow> u32 \<Rightarrow> u32 \<Rightarrow> u32 \<times> u32" where
  "lo_pair la x y = (if TLBLO la = 0 then (x, y) else (y, x))"

definition tlb_write :: "vm \<Rightarrow> nat \<Rightarrow> u32 \<Rightarrow> u32 \<times> u32 \<Rightarrow> kpanic + vm" where
  "tlb_write s idx ehi los =
     (let p = cp0 (hw s);
          p = cp0_set p CP0_Index (of_nat idx);
          p = cp0_set p CP0_EntryHi ehi;
          p = cp0_set p CP0_EntryLo0 (fst los);
          p = cp0_set p CP0_EntryLo1 (snd los)
      in case exe_tlbwi ((hw s)\<lparr>cp0 := p\<rparr>) of
           Inl _ \<Rightarrow> Inl Out_of_bounds
         | Inr c \<Rightarrow> Inr (s\<lparr>hw := c\<rparr>))"

definition tlb_init_callback :: "vm \<Rightarrow> vm" where
  "tlb_init_callback s = s\<lparr>tlb_algo_empty := [0..<TLBN], tlb_algo_n := TLBN\<rparr>"

fun tlb_init_loop :: "nat list \<Rightarrow> vm \<Rightarrow> kpanic + vm" where
  "tlb_init_loop [] s = Inr s"
| "tlb_init_loop (i # is) s =
     bindE (tlb_write s i ENTRYHI_INVALID (ENTRYLO_INVALID, ENTRYLO_INVALID)) (tlb_init_loop is)"

definition tlb_init :: "vm \<Rightarrow> kpanic + vm" where
  "tlb_init s = bindE (tlb_init_loop [0..<TLBN] s) (\<lambda>s. Inr (tlb_init_callback s))"

definition load_pgdir :: "vm \<Rightarrow> nat \<Rightarrow> kpanic + vm" where
  "load_pgdir s pd = tlb_init (s\<lparr>cur_pgdir := Some pd\<rparr>)"

definition clear_tlb_p :: "pte_ptr option \<Rightarrow> vm \<Rightarrow> vm" where
  "clear_tlb_p a s = (case a of None \<Rightarrow> s | Some a \<Rightarrow> wr a (rd s a AND NOT TLB_P) s)"

definition tlb_get_empty :: "vm \<Rightarrow> u32 \<Rightarrow> kpanic + (vm \<times> nat)" where
  "tlb_get_empty s ehi =
     bindE (if tlb_algo_n s > 0 then
              (let n = tlb_algo_n s - 1
               in if n < TLBN then Inr (s\<lparr>tlb_algo_n := n\<rparr>, tlb_algo_empty s ! n) else Inl Out_of_bounds)
            else
              (let idx = tlb_algo_ptr s;
                   s = s\<lparr>tlb_algo_ptr := (tlb_algo_ptr s + 1) mod 256 mod TLBN\<rparr>;
                   hi0 = tlb_algo_hi s ! idx
               in case cur_pgdir s of
                    None \<Rightarrow> Inl Null_deref
                  | Some pd \<Rightarrow>
                      bindE (find_pte s pd hi0) (\<lambda>a.
                      let s = clear_tlb_p a s
                      in bindE (find_pte s pd (TLBPAIR hi0)) (\<lambda>a.
                         Inr (clear_tlb_p a s, idx)))))
       (\<lambda>(s, idx). Inr (s\<lparr>tlb_algo_hi := (tlb_algo_hi s)[idx := ehi]\<rparr>, idx))"

definition tlb_del_callback :: "vm \<Rightarrow> nat \<Rightarrow> kpanic + vm" where
  "tlb_del_callback s idx =
     (if tlb_algo_n s < TLBN
      then Inr (s\<lparr>tlb_algo_empty := (tlb_algo_empty s)[tlb_algo_n s := idx], tlb_algo_n := tlb_algo_n s + 1\<rparr>)
      else Inl Out_of_bounds)"

definition tlb_invalidate :: "vm \<Rightarrow> nat \<Rightarrow> u32 \<Rightarrow> kpanic + vm" where
  "tlb_invalidate s pd la =
     (if Some pd \<noteq> cur_pgdir s then Inr s
      else bindE (find_pte s pd la) (\<lambda>ptep.
        case ptep of
          None \<Rightarrow> Inr s
        | Some a \<Rightarrow>
            if rd s a AND TLB_P = 0 then Inr s
            else
              (let idx = TLBIDX (rd s a)
               in bindE (find_pte s pd (TLBPAIR la)) (\<lambda>ptep2.
                  bindE (case ptep2 of
                           Some b \<Rightarrow>
                             if rd s b AND TLB_P \<noteq> 0
                             then tlb_write s idx (la AND 0xffffe000) (lo_pair la ENTRYLO_INVALID (ENTRYLO (rd s b)))
                             else bindE (tlb_del_callback s idx) (\<lambda>s.
                                  tlb_write s idx ENTRYHI_INVALID (lo_pair la ENTRYLO_INVALID ENTRYLO_INVALID))
                         | None \<Rightarrow>
                             bindE (tlb_del_callback s idx) (\<lambda>s.
                             tlb_write s idx ENTRYHI_INVALID (lo_pair la ENTRYLO_INVALID ENTRYLO_INVALID))) (\<lambda>s.
                  Inr (wr a (rd s a AND NOT TLB_P) s))))))"

text \<open>The part of \<^verbatim>\<open>tlb_miss_handler\<close> that enters the translation of \<open>la\<close>, whose page table entry is \<open>a\<close>, into the TLB.\<close>

definition tlb_refill :: "vm \<Rightarrow> nat \<Rightarrow> u32 \<Rightarrow> pte_ptr \<Rightarrow> kpanic + vm" where
  "tlb_refill s pd la a =
     bindE (find_pte s pd (TLBPAIR la)) (\<lambda>ptep2.
     let e = ENTRYLO (rd s a)
     in bindE (case ptep2 of
                 Some b \<Rightarrow>
                   if rd s b AND TLB_P \<noteq> 0 then Inr (s, TLBIDX (rd s b), lo_pair la e (ENTRYLO (rd s b)))
                   else bindE (tlb_get_empty s (la AND 0xffffe000)) (\<lambda>(s, idx). Inr (s, idx, lo_pair la e ENTRYLO_INVALID))
               | None \<Rightarrow>
                   bindE (tlb_get_empty s (la AND 0xffffe000)) (\<lambda>(s, idx). Inr (s, idx, lo_pair la e ENTRYLO_INVALID)))
          (\<lambda>(s, idx, los).
            bindE (tlb_write s idx (la AND 0xffffe000) los) (\<lambda>s.
            Inr (wr a ((rd s a AND 0xfffff0ff) OR push_bit 8 (of_nat idx) OR TLB_P) s))))"

section \<open>Page replacement\<close>

definition fifo_init_mm :: "vm \<Rightarrow> nat \<Rightarrow> vm" where
  "fifo_init_mm s m =
     upd_mm m (\<lambda>g. g\<lparr>sm_priv := True\<rparr>) (s\<lparr>vlinks := list_init (vlinks s) Pra_list_head\<rparr>)"

definition fifo_map_swappable :: "vm \<Rightarrow> nat \<Rightarrow> nat \<Rightarrow> kpanic + vm" where
  "fifo_map_swappable s m page =
     bindE (assertE (sm_priv (mms s m))) (\<lambda>_.
     Inr (s\<lparr>vlinks := list_add_before (vlinks s) Pra_list_head (Pra_page_link page)\<rparr>))"

definition fifo_swap_out_victim :: "vm \<Rightarrow> nat \<Rightarrow> bool \<Rightarrow> kpanic + (vm \<times> nat)" where
  "fifo_swap_out_victim s m in_tick =
     bindE (assertE (sm_priv (mms s m))) (\<lambda>_.
     bindE (assertE (\<not> in_tick)) (\<lambda>_.
     let victim = list_next (vlinks s) Pra_list_head;
         s = s\<lparr>vlinks := list_del (vlinks s) victim\<rparr>
     in case victim of Pra_page_link p \<Rightarrow> Inr (s, p) | _ \<Rightarrow> Inl Bad_pointer))"

definition BLOCKBASE :: "u32 \<Rightarrow> u32" where
  "BLOCKBASE addr = addr AND 0xff7e0000"

definition BLOCKOFF :: "u32 \<Rightarrow> u32" where
  "BLOCKOFF addr = addr AND 0x0001f000"

definition swapfs_clean :: "u32 \<Rightarrow> kpanic + unit" where
  "swapfs_clean base = assertE (BLOCKBASE base = base)"

text \<open>The loops that would move the data to and from the flash are commented out in the source.\<close>

definition swapfs_write :: "vm \<Rightarrow> u32 \<Rightarrow> nat \<Rightarrow> kpanic + (vm \<times> u32)" where
  "swapfs_write s ent page =
     (let empt = 0xbe421000;
          ent = clean_block s OR BLOCKOFF empt OR (ent AND 0x6)
      in bindE (swapfs_clean (BLOCKBASE empt)) (\<lambda>_.
         Inr (s\<lparr>clean_block := BLOCKBASE empt\<rparr>, ent)))"

definition swapfs_read :: "vm \<Rightarrow> u32 \<Rightarrow> nat \<Rightarrow> int" where
  "swapfs_read s ent page = 0"

definition free_pages :: "vm \<Rightarrow> nat \<Rightarrow> u32 \<Rightarrow> kpanic + vm" where
  "free_pages s base n = bindE (default_free_pages (vpmm s) base n) (\<lambda>p. Inr (s\<lparr>vpmm := p\<rparr>))"

definition nr_free_pages :: "vm \<Rightarrow> u32" where
  "nr_free_pages s = default_nr_free_pages (vpmm s)"

text \<open>One victim: its contents are given to \<^verbatim>\<open>swapfs_write\<close>, the TLB and the page table entry are updated, the page freed.\<close>

definition swap_out_one :: "vm \<Rightarrow> nat \<Rightarrow> bool \<Rightarrow> kpanic + vm" where
  "swap_out_one s m in_tick =
     bindE (fifo_swap_out_victim s m in_tick) (\<lambda>(s, page).
     let v = pra_vaddr s page
     in case pgdir (mms s m) of
          None \<Rightarrow> Inl Null_deref
        | Some pd \<Rightarrow>
            bindE (find_pte s pd v) (\<lambda>ptep.
            case ptep of
              None \<Rightarrow> Inl Null_deref
            | Some a \<Rightarrow>
                bindE (assertE (rd s a AND PTE_P \<noteq> 0)) (\<lambda>_.
                bindE (swapfs_write s (rd s a) page) (\<lambda>(s, ptep_new).
                bindE (tlb_invalidate s pd v) (\<lambda>s.
                free_pages (wr a ptep_new s) page 1)))))"

fun swap_out :: "vm \<Rightarrow> nat option \<Rightarrow> nat \<Rightarrow> bool \<Rightarrow> kpanic + vm" where
  "swap_out s m 0 in_tick = Inr s"
| "swap_out s None (Suc n) in_tick = Inl Null_deref"
| "swap_out s (Some m) (Suc n) in_tick = bindE (swap_out_one s m in_tick) (\<lambda>s. swap_out s (Some m) n in_tick)"

section \<open>Allocating pages\<close>

fun alloc_pages_loop :: "nat \<Rightarrow> vm \<Rightarrow> u32 \<Rightarrow> kpanic + (vm \<times> nat option)" where
  "alloc_pages_loop 0 s n = Inl Fuel_exhausted"
| "alloc_pages_loop (Suc k) s n =
     bindE (default_alloc_pages (vpmm s) n) (\<lambda>(p, page).
     let s = s\<lparr>vpmm := p\<rparr>
     in if page \<noteq> None \<or> n > 1 \<or> \<not> swap_init_ok s then Inr (s, page)
        else bindE (swap_out s (check_mm_struct s) (unat n) False) (\<lambda>s. alloc_pages_loop k s n))"

definition alloc_pages :: "vm \<Rightarrow> u32 \<Rightarrow> kpanic + (vm \<times> nat option)" where
  "alloc_pages s n = alloc_pages_loop (npage (vpmm s) + 1) s n"

section \<open>Page table operations\<close>

definition get_pte :: "vm \<Rightarrow> nat \<Rightarrow> u32 \<Rightarrow> bool \<Rightarrow> kpanic + (vm \<times> pte_ptr option)" where
  "get_pte s pd la create =
     (if frames s pd (PDX la) AND PTE_P = 0 then
        (if \<not> create then Inr (s, None)
         else bindE (alloc_pages s 1) (\<lambda>(s, page).
           case page of
             None \<Rightarrow> Inl Null_deref
           | Some p \<Rightarrow>
               (let s = upd_pmm (set_page_ref p 1) s;
                    s = wr (pd, PDX la) (page2pa p OR PTE_P OR PTE_W OR PTE_U) s
                in bindE (KADDR s (page2pa p)) (\<lambda>f.
                   let s = s\<lparr>frames := (frames s)(f := (\<lambda>_. 0))\<rparr>
                   in bindE (pte_at s pd la) (\<lambda>a. Inr (s, Some a))))))
      else bindE (pte_at s pd la) (\<lambda>a. Inr (s, Some a)))"

definition get_page :: "vm \<Rightarrow> nat \<Rightarrow> u32 \<Rightarrow> kpanic + (nat option \<times> pte_ptr option)" where
  "get_page s pd la =
     bindE (find_pte s pd la) (\<lambda>ptep.
     case ptep of
       Some a \<Rightarrow> if rd s a AND PTE_P \<noteq> 0 then bindE (pa2page s (rd s a)) (\<lambda>p. Inr (Some p, ptep)) else Inr (None, ptep)
     | None \<Rightarrow> Inr (None, ptep))"

definition page_remove_pte :: "vm \<Rightarrow> nat \<Rightarrow> u32 \<Rightarrow> pte_ptr \<Rightarrow> kpanic + vm" where
  "page_remove_pte s pd la a =
     (if rd s a AND PTE_P > 0 then
        bindE (pte2page s (rd s a)) (\<lambda>page.
        let s = page_ref_dec page s
        in bindE (if page_ref s page = 0 then free_pages s page 1 else Inr s) (\<lambda>s.
           bindE (tlb_invalidate s pd la) (\<lambda>s.
           Inr (wr a 0 s))))
      else Inr s)"

definition page_remove :: "vm \<Rightarrow> nat \<Rightarrow> u32 \<Rightarrow> kpanic + vm" where
  "page_remove s pd la =
     bindE (find_pte s pd la) (\<lambda>ptep.
     case ptep of None \<Rightarrow> Inr s | Some a \<Rightarrow> page_remove_pte s pd la a)"

definition page_insert :: "vm \<Rightarrow> nat \<Rightarrow> nat \<Rightarrow> u32 \<Rightarrow> u32 \<Rightarrow> kpanic + (vm \<times> int)" where
  "page_insert s pd page la perm =
     bindE (get_pte s pd la True) (\<lambda>(s, ptep).
     case ptep of
       None \<Rightarrow> Inr (s, - E_NO_MEM)
     | Some a \<Rightarrow>
         (let s = page_ref_inc page s
          in bindE (if rd s a AND PTE_P \<noteq> 0 then
                      bindE (pte2page s (rd s a)) (\<lambda>p.
                      if p = page then Inr (page_ref_dec page s) else page_remove_pte s pd la a)
                    else Inr s) (\<lambda>s.
             bindE (tlb_invalidate s pd la) (\<lambda>s.
             Inr (wr a (page2pa page OR PTE_P OR perm) s, 0)))))"

definition pgdir_alloc_page :: "vm \<Rightarrow> nat \<Rightarrow> u32 \<Rightarrow> u32 \<Rightarrow> kpanic + (vm \<times> nat option)" where
  "pgdir_alloc_page s pd la perm =
     bindE (alloc_pages s 1) (\<lambda>(s, page).
     case page of
       None \<Rightarrow> Inr (s, None)
     | Some p \<Rightarrow>
         bindE (page_insert s pd p la perm) (\<lambda>(s, r).
         if r \<noteq> 0 then bindE (free_pages s p 1) (\<lambda>s. Inr (s, None))
         else if swap_init_ok s then
           (case check_mm_struct s of
              Some m \<Rightarrow>
                bindE (fifo_map_swappable s m p) (\<lambda>s.
                let s = s\<lparr>pra_vaddr := (pra_vaddr s)(p := la)\<rparr>
                in bindE (assertE (page_ref s p = 1)) (\<lambda>_. Inr (s, page)))
            | None \<Rightarrow> Inr (s, page))
         else Inr (s, page)))"

section \<open>Address ranges\<close>

definition range_fuel :: "u32 \<Rightarrow> u32 \<Rightarrow> nat" where
  "range_fuel st en = unat (en - st) div 4096 + 1"

definition range_ok :: "u32 \<Rightarrow> u32 \<Rightarrow> kpanic + unit" where
  "range_ok st en =
     bindE (assertE (st mod PGSIZE = 0 \<and> en mod PGSIZE = 0)) (\<lambda>_. assertE (USER_ACCESS st en))"

fun unmap_loop :: "nat \<Rightarrow> vm \<Rightarrow> nat \<Rightarrow> u32 \<Rightarrow> u32 \<Rightarrow> kpanic + vm" where
  "unmap_loop 0 s pd st en = Inl Fuel_exhausted"
| "unmap_loop (Suc k) s pd st en =
     bindE (find_pte s pd st) (\<lambda>ptep.
     bindE (case ptep of
              None \<Rightarrow> Inr (s, ROUNDDOWN (st + PTSIZE) PTSIZE)
            | Some a \<Rightarrow>
                bindE (if rd s a \<noteq> 0 then page_remove_pte s pd st a else Inr s) (\<lambda>s. Inr (s, st + PGSIZE))) (\<lambda>(s, st).
     if st \<noteq> 0 \<and> st < en then unmap_loop k s pd st en else Inr s))"

definition unmap_range :: "vm \<Rightarrow> nat \<Rightarrow> u32 \<Rightarrow> u32 \<Rightarrow> kpanic + vm" where
  "unmap_range s pd st en = bindE (range_ok st en) (\<lambda>_. unmap_loop (range_fuel st en) s pd st en)"

fun exit_loop :: "nat \<Rightarrow> vm \<Rightarrow> nat \<Rightarrow> u32 \<Rightarrow> u32 \<Rightarrow> kpanic + vm" where
  "exit_loop 0 s pd st en = Inl Fuel_exhausted"
| "exit_loop (Suc k) s pd st en =
     (let i = PDX st
      in bindE (if frames s pd i AND PTE_P \<noteq> 0 then
                  bindE (pde2page s (frames s pd i)) (\<lambda>p.
                  bindE (free_pages s p 1) (\<lambda>s. Inr (wr (pd, i) 0 s)))
                else Inr s) (\<lambda>s.
         let st = st + PTSIZE
         in if st \<noteq> 0 \<and> st < en then exit_loop k s pd st en else Inr s))"

definition exit_range :: "vm \<Rightarrow> nat \<Rightarrow> u32 \<Rightarrow> u32 \<Rightarrow> kpanic + vm" where
  "exit_range s pd st en =
     bindE (range_ok st en) (\<lambda>_. exit_loop (range_fuel st en) s pd (ROUNDDOWN st PTSIZE) en)"

definition copy_page :: "vm \<Rightarrow> nat \<Rightarrow> u32 \<Rightarrow> u32 \<Rightarrow> kpanic + vm" where
  "copy_page s to pte st =
     (let perm = pte AND PTE_USER
      in bindE (pte2page s pte) (\<lambda>page.
         bindE (alloc_pages s 1) (\<lambda>(s, npage).
         case npage of
           None \<Rightarrow> Inl Assert_failed
         | Some np \<Rightarrow>
             bindE (page2kva s np) (\<lambda>d.
             bindE (page2kva s page) (\<lambda>f.
             bindE (page_insert (s\<lparr>frames := (frames s)(d := frames s f)\<rparr>) to np st perm) (\<lambda>(s, r).
             Inr s))))))"

fun copy_loop :: "nat \<Rightarrow> vm \<Rightarrow> nat \<Rightarrow> nat \<Rightarrow> u32 \<Rightarrow> u32 \<Rightarrow> kpanic + (vm \<times> int)" where
  "copy_loop 0 s to from st en = Inl Fuel_exhausted"
| "copy_loop (Suc k) s to from st en =
     bindE (find_pte s from st) (\<lambda>ptep.
     case ptep of
       None \<Rightarrow>
         (let st = ROUNDDOWN (st + PTSIZE) PTSIZE
          in if st \<noteq> 0 \<and> st < en then copy_loop k s to from st en else Inr (s, 0))
     | Some a \<Rightarrow>
         bindE (if rd s a AND PTE_P \<noteq> 0 then
                  bindE (get_pte s to st True) (\<lambda>(s, nptep).
                  if nptep = None then Inr (s, False)
                  else bindE (copy_page s to (rd s a) st) (\<lambda>s. Inr (s, True)))
                else Inr (s, True)) (\<lambda>(s, go).
         if \<not> go then Inr (s, - E_NO_MEM)
         else (let st = st + PGSIZE
               in if st \<noteq> 0 \<and> st < en then copy_loop k s to from st en else Inr (s, 0))))"

definition copy_range :: "vm \<Rightarrow> nat \<Rightarrow> nat \<Rightarrow> u32 \<Rightarrow> u32 \<Rightarrow> kpanic + (vm \<times> int)" where
  "copy_range s to from st en = bindE (range_ok st en) (\<lambda>_. copy_loop (range_fuel st en) s to from st en)"

fun boot_map_loop :: "nat \<Rightarrow> vm \<Rightarrow> nat \<Rightarrow> u32 \<Rightarrow> u32 \<Rightarrow> u32 \<Rightarrow> kpanic + vm" where
  "boot_map_loop 0 s pd la pa perm = Inr s"
| "boot_map_loop (Suc n) s pd la pa perm =
     bindE (get_pte s pd la True) (\<lambda>(s, ptep).
     case ptep of
       None \<Rightarrow> Inl Assert_failed
     | Some a \<Rightarrow> boot_map_loop n (wr a (pa OR PTE_P OR perm) s) pd (la + PGSIZE) (pa + PGSIZE) perm)"

definition boot_map_segment :: "vm \<Rightarrow> nat \<Rightarrow> u32 \<Rightarrow> u32 \<Rightarrow> u32 \<Rightarrow> u32 \<Rightarrow> kpanic + vm" where
  "boot_map_segment s pd la sz pa perm =
     bindE (assertE (PGOFF la = PGOFF pa)) (\<lambda>_.
     boot_map_loop (unat (ROUNDUP (sz + PGOFF la) PGSIZE div PGSIZE)) s pd (ROUNDDOWN la PGSIZE) (ROUNDDOWN pa PGSIZE) perm)"

definition boot_alloc_page :: "vm \<Rightarrow> kpanic + (vm \<times> nat)" where
  "boot_alloc_page s =
     bindE (alloc_pages s 1) (\<lambda>(s, p).
     case p of None \<Rightarrow> Inl Panicked | Some p \<Rightarrow> bindE (page2kva s p) (\<lambda>f. Inr (s, f)))"

text \<open>
  \<^verbatim>\<open>page_init\<close>: the descriptors lie behind the kernel, whose end address is \<open>kend\<close>; 32 is \<^verbatim>\<open>sizeof(struct Page)\<close>.
\<close>

fun reserve_loop :: "nat \<Rightarrow> pmm \<Rightarrow> pmm" where
  "reserve_loop 0 s = s"
| "reserve_loop (Suc n) s = SetPageReserved n (reserve_loop n s)"

definition page_init :: "vm \<Rightarrow> u32 \<Rightarrow> kpanic + vm" where
  "page_init s kend =
     (let n = KMEMSIZE div PGSIZE;
          s = upd_pmm (\<lambda>p. reserve_loop (unat n) (p\<lparr>npage := unat n\<rparr>)) s;
          pages = ROUNDUP kend PGSIZE;
          freemem = pages + 32 * n
      in if freemem < KERNBASE then Inl Panicked
         else
           (let b = ROUNDUP (freemem - KERNBASE) PGSIZE; e = ROUNDDOWN KMEMSIZE PGSIZE
            in if b < e then
                 bindE (pa2page s b) (\<lambda>base.
                 bindE (default_init_memmap (vpmm s) base ((e - b) div PGSIZE)) (\<lambda>p. Inr (s\<lparr>vpmm := p\<rparr>)))
               else Inr s))"

definition swap_in :: "vm \<Rightarrow> nat \<Rightarrow> u32 \<Rightarrow> kpanic + (vm \<times> nat)" where
  "swap_in s m addr =
     bindE (alloc_pages s 1) (\<lambda>(s, result).
     case result of
       None \<Rightarrow> Inl Assert_failed
     | Some page \<Rightarrow>
         (case pgdir (mms s m) of
            None \<Rightarrow> Inl Null_deref
          | Some pd \<Rightarrow>
              bindE (find_pte s pd addr) (\<lambda>ptep.
              case ptep of
                None \<Rightarrow> Inl Null_deref
              | Some a \<Rightarrow> (let r = swapfs_read s (rd s a) page in Inr (s, page)))))"

section \<open>Reading a page table\<close>

definition perm2str :: "u32 \<Rightarrow> string" where
  "perm2str perm =
     [if perm AND PTE_U \<noteq> 0 then CHR ''u'' else CHR ''-'', CHR ''r'', if perm AND PTE_W \<noteq> 0 then CHR ''w'' else CHR ''-'']"

fun skip_absent :: "nat \<Rightarrow> nat \<Rightarrow> (nat \<Rightarrow> u32) \<Rightarrow> nat" where
  "skip_absent 0 st tab = st"
| "skip_absent (Suc k) st tab = (if tab st AND PTE_P = 0 then skip_absent k (st + 1) tab else st)"

fun skip_same :: "nat \<Rightarrow> nat \<Rightarrow> u32 \<Rightarrow> (nat \<Rightarrow> u32) \<Rightarrow> nat" where
  "skip_same 0 st perm tab = st"
| "skip_same (Suc k) st perm tab = (if tab st AND PTE_USER = perm then skip_same k (st + 1) perm tab else st)"

text \<open>The result is the permission, with \<^verbatim>\<open>*left_store\<close> and \<^verbatim>\<open>*right_store\<close> where they are written.\<close>

definition get_pgtable_items :: "nat \<Rightarrow> nat \<Rightarrow> (nat \<Rightarrow> u32) \<Rightarrow> u32 \<times> (nat \<times> nat) option" where
  "get_pgtable_items right st tab =
     (if st \<ge> right then (0, None)
      else
        (let st = skip_absent (right - st) st tab
         in if st < right then
              (let perm = tab st AND PTE_USER
               in (perm, Some (st, skip_same (right - (st + 1)) (st + 1) perm tab)))
            else (0, None)))"

end
