(* ===== verification/Vm_Props.thy ===== *)
theory Vm_Props
  imports Vm
begin

unbundle bit_operations_syntax

text \<open>
  Page tables as partial maps from virtual pages to entries, and the invariant of the page tables of a set of
  address spaces: their frames are distinct, in use, and hold what the reference counts say.
\<close>

section \<open>Address arithmetic\<close>

lemma and_1_eq_0 [simp]: "(x :: u32) AND 1 = 0 \<longleftrightarrow> \<not> bit x 0"
  using u32_and_bit_eq_0 [of x 0] by simp

lemma pt_index [simp]: "unat (drop_bit 12 la AND 0x3FF) = PTX la"
  by (simp add: PTX_def)

lemma PPN_mask [simp]: "PPN (x AND 0xfffff000) = PPN x" "PPN (PTE_ADDR x) = PPN x"
  by (simp_all add: PPN_def PTE_ADDR_def u32_bitwise)

lemma unat_drop: "unat (drop_bit n (x :: u32)) = unat x div 2 ^ n"
  by (simp only: unat_drop_bit_eq drop_bit_eq_div [where 'a = nat])

lemma and_3ff: "(x :: u32) AND 0x3FF = x AND mask 10"
  by (simp add: mask_eq_exp_minus_1)

lemma PDX_nat: "PDX la = unat la div 2 ^ 22"
proof -
  have "unat la div 2 ^ 22 < 1024" using u32_unat_less [of la] by simp
  then show ?thesis unfolding PDX_def and_3ff u32_unat_and_mask unat_drop by simp
qed

lemma PTX_nat: "PTX la = unat la div 2 ^ 12 mod 2 ^ 10"
  unfolding PTX_def and_3ff u32_unat_and_mask unat_drop ..

lemma PPN_nat: "unat (PPN la) = unat la div 2 ^ 12"
  unfolding PPN_def unat_drop ..

lemma page_eq: "PDX la = PDX lb \<and> PTX la = PTX lb \<longleftrightarrow> PPN la = PPN lb"
proof -
  have d: "unat x div 2 ^ 22 = unat x div 2 ^ 12 div 2 ^ 10" for x :: u32
    unfolding div_mult2_eq [symmetric] power_add [symmetric] by simp
  have "m div 2 ^ 10 = n div 2 ^ 10 \<and> m mod 2 ^ 10 = n mod 2 ^ 10 \<longleftrightarrow> m = n" for m n :: nat
    by (metis div_mult_mod_eq)
  then show ?thesis unfolding PDX_nat PTX_nat word_unat_eq_iff [of "PPN la"] PPN_nat d .
qed

lemma PDX_less: "PDX la < 1024" "PTX la < 1024"
  using u32_unat_less [of la] by (simp_all add: PDX_nat PTX_nat)

lemma PDX_user: "la < USERTOP \<Longrightarrow> PDX la < 512"
  by (simp add: PDX_nat word_less_nat_alt)

text \<open>The frame number in an entry.\<close>

definition pfn :: "u32 \<Rightarrow> nat" where
  "pfn x = unat (PPN x)"

lemma pfn_page2pa: "p < 2 ^ 20 \<Longrightarrow> PPN f = 0 \<Longrightarrow> pfn (page2pa p OR f) = p"
proof -
  assume p: "p < 2 ^ 20" and f: "PPN f = 0"
  have "PPN (page2pa p OR f) = drop_bit 12 (push_bit 12 (of_nat p))"
    using f by (simp add: PPN_def page2pa_def)
  also have "\<dots> = (of_nat p :: u32)"
  proof (rule bit_word_eqI)
    fix n assume n: "n < LENGTH(32)"
    have "\<not> bit (of_nat p :: u32) n" if "20 \<le> n"
    proof -
      have "p < 2 ^ n" using p that by (meson le_less_trans less_le_trans one_le_numeral power_increasing order_less_le_trans)
      then have "\<not> bit p n" by (simp add: bit_iff_odd)
      then show ?thesis using n by (simp add: bit_simps)
    qed
    then show "bit (drop_bit 12 (push_bit 12 (of_nat p)) :: u32) n = bit (of_nat p :: u32) n"
      using n by (cases "20 \<le> n") (auto simp: bit_simps)
  qed
  finally show ?thesis using p by (simp add: pfn_def unat_of_nat_u32)
qed

section \<open>Allocating and freeing one page\<close>

definition free_frames :: "pmm \<Rightarrow> nat set \<Rightarrow> bool" where
  "free_frames m F \<longleftrightarrow> (\<exists>bs. pmm_inv m bs \<and> block_pages bs = F)"

lemma take_block_refs: "ref (page_tab (take_block p n m) x) = ref (page_tab m x)" "npage (take_block p n m) = npage m"
  by (simp_all add: take_block_def Let_def page_ops)

lemma first_fit_1: "first_fit (Suc 0) bs = None \<Longrightarrow> \<forall>(b, n) \<in> set bs. 0 < n \<Longrightarrow> bs = []"
  by (cases bs) (auto split: if_splits option.splits)

lemma alloc_page_ok:
  assumes f: "free_frames m F" and ne: "F \<noteq> {}"
  shows "\<exists>m' p. default_alloc_pages m 1 = Inr (m', Some p) \<and> p \<in> F \<and> free_frames m' (F - {p}) \<and>
    usable_pages m' = usable_pages m \<and> npage m' = npage m \<and> (\<forall>x. ref (page_tab m' x) = ref (page_tab m x))"
proof -
  from f obtain bs where bs: "pmm_inv m bs" "block_pages bs = F" by (auto simp: free_frames_def)
  have pos: "\<forall>(b, n) \<in> set bs. 0 < n" using bs(1) by (auto simp: pmm_inv_def blocks_inv_def)
  have nn: "first_fit (Suc 0) bs \<noteq> None" using first_fit_1 [OF _ pos] ne bs(2) by (metis block_pages_simps(1))
  then obtain p bs' where ff: "first_fit (Suc 0) bs = Some (p, bs')" by auto
  have "default_alloc_pages m 1 = Inr (take_block p 1 m, Some p)"
    using default_alloc_first_fit [OF bs(1), of 1] ff by simp
  moreover have "p \<in> F \<and> free_frames (take_block p 1 m) (F - {p})"
    using default_pmm.alloc_some [of m F 1 "take_block p 1 m" p] f calculation by (auto simp: free_frames_def)
  ultimately show ?thesis using take_block_refs take_block_usable by auto
qed

lemma list_add_loop_refs: "list_add_loop k m l b = Inr m' \<Longrightarrow> page_tab m' = page_tab m \<and> npage m' = npage m"
  by (induction k m l b rule: list_add_loop.induct) (auto split: pnode.splits if_splits)

lemma free_loop_refs:
  "free_loop k m l b = Inr (m', b') \<Longrightarrow> ref (page_tab m' x) = ref (page_tab m x) \<and> npage m' = npage m"
proof (induction k m l b rule: free_loop.induct)
  case (2 k s le base)
  then show ?case by (cases le) (auto simp: Let_def page_ops split: if_splits)
qed simp

lemma default_free_refs:
  assumes "default_free_pages m p 1 = Inr m'"
  shows "ref (page_tab m' x) = (if x = p then 0 else ref (page_tab m x)) \<and> npage m' = npage m"
proof -
  let ?m = "set_page_ref p 0 (set_flags p 0 m)"
  from assms obtain m2 b where r:
    "free_loop (Suc (npage (SetPageProperty p (set_property p 1 ?m)))) (SetPageProperty p (set_property p 1 ?m))
       (list_next (plinks (SetPageProperty p (set_property p 1 ?m))) Free_list) p = Inr (m2, b)"
    "list_add_loop (Suc (npage m2)) (m2\<lparr>nr_free := nr_free m2 + 1\<rparr>) Free_list b = Inr m'"
    by (auto simp: default_free_pages_def default_list_add_def bindE_Inr_iff Let_def
        simp del: free_loop.simps list_add_loop.simps)
  from free_loop_refs [OF r(1), of x] list_add_loop_refs [OF r(2)] show ?thesis by (auto simp: page_ops)
qed

lemma free_page_ok:
  assumes "free_frames m F" "p \<in> usable_pages m" "p \<notin> F"
  shows "\<exists>m'. default_free_pages m p 1 = Inr m' \<and> free_frames m' (insert p F) \<and> usable_pages m' = usable_pages m \<and>
    npage m' = npage m \<and> (\<forall>x. ref (page_tab m' x) = (if x = p then 0 else ref (page_tab m x)))"
proof -
  have "{p..<p + unat (1 :: u32)} = {p}" by auto
  with default_pmm.free_law [of m F 1 p] assms obtain m'
    where m': "default_free_pages m p 1 = Inr m'" "usable_pages m' = usable_pages m" "free_frames m' (insert p F)"
    by (auto simp: free_frames_def)
  with default_free_refs [OF m'(1)] show ?thesis by blast
qed

lemma alloc_pages_ok:
  assumes "free_frames (vpmm s) F" "F \<noteq> {}"
  shows "\<exists>m p. alloc_pages s 1 = Inr (s\<lparr>vpmm := m\<rparr>, Some p) \<and> p \<in> F \<and> free_frames m (F - {p}) \<and>
    usable_pages m = usable_pages (vpmm s) \<and> npage m = npage (vpmm s) \<and> (\<forall>x. ref (page_tab m x) = ref (page_tab (vpmm s) x))"
proof -
  from alloc_page_ok [OF assms] obtain m p where "default_alloc_pages (vpmm s) 1 = Inr (m, Some p)" "p \<in> F \<and> free_frames m (F - {p}) \<and>
    usable_pages m = usable_pages (vpmm s) \<and> npage m = npage (vpmm s) \<and> (\<forall>x. ref (page_tab m x) = ref (page_tab (vpmm s) x))" by blast
  then show ?thesis by (auto simp: alloc_pages_def)
qed

section \<open>Address spaces\<close>

text \<open>\<open>pv s pd v\<close> is the entry of the virtual page number \<open>v\<close> in the address space \<open>pd\<close>, 0 if it has no page table.\<close>

definition pv :: "vm \<Rightarrow> nat \<Rightarrow> nat \<Rightarrow> u32" where
  "pv s pd v = (if bit (frames s pd (v div 1024)) 0 then frames s (pfn (frames s pd (v div 1024))) (v mod 1024) else 0)"

abbreviation vpn :: "u32 \<Rightarrow> nat" where
  "vpn la \<equiv> unat la div 4096"

abbreviation user_page :: "nat \<Rightarrow> bool" where
  "user_page v \<equiv> v < 524288"

lemma vpn_index: "vpn la div 1024 = PDX la" "vpn la mod 1024 = PTX la"
  by (simp_all add: PDX_nat PTX_nat flip: div_mult2_eq)

lemma user_vpn: "user_page (vpn la) \<longleftrightarrow> la < USERTOP"
  by (simp add: word_less_nat_alt less_mult_imp_div_less div_less_iff_less_mult)

definition space_ok :: "vm \<Rightarrow> nat \<Rightarrow> bool" where
  "space_ok s pd \<longleftrightarrow>
     (\<forall>i < 512. bit (frames s pd i) 0 \<longrightarrow> pfn (frames s pd i) < npage (vpmm s) \<and> pfn (frames s pd i) \<noteq> pd) \<and>
     (\<forall>i < 512. \<forall>j < 512. bit (frames s pd i) 0 \<longrightarrow> bit (frames s pd j) 0 \<longrightarrow>
        pfn (frames s pd i) = pfn (frames s pd j) \<longrightarrow> i = j)"

definition space_frames :: "vm \<Rightarrow> nat \<Rightarrow> nat set" where
  "space_frames s pd = insert pd {pfn (frames s pd i) |i. i < 512 \<and> bit (frames s pd i) 0}"

lemma find_pte_eq:
  assumes "space_ok s pd" "la < USERTOP"
  shows "find_pte s pd la =
    Inr (if bit (frames s pd (PDX la)) 0 then Some (pfn (frames s pd (PDX la)), PTX la) else None)"
  using assms PDX_user [OF assms(2)]
  by (auto simp: find_pte_def pte_at_def KADDR_def space_ok_def pfn_def)

lemma rd_pv: "bit (frames s pd (PDX la)) 0 \<Longrightarrow> rd s (pfn (frames s pd (PDX la)), PTX la) = pv s pd (vpn la)"
  by (simp add: rd_def pv_def vpn_index)

lemma wr_fields [simp]:
  "vpmm (wr a v s) = vpmm s" "vlinks (wr a v s) = vlinks s" "pra_vaddr (wr a v s) = pra_vaddr s" "vmas (wr a v s) = vmas s"
  "mms (wr a v s) = mms s" "check_mm_struct (wr a v s) = check_mm_struct s" "cur_pgdir (wr a v s) = cur_pgdir s"
  "hw (wr a v s) = hw s" "tlb_algo_empty (wr a v s) = tlb_algo_empty s" "tlb_algo_n (wr a v s) = tlb_algo_n s"
  "tlb_algo_hi (wr a v s) = tlb_algo_hi s" "tlb_algo_ptr (wr a v s) = tlb_algo_ptr s" "swap_init_ok (wr a v s) = swap_init_ok s"
  "clean_block (wr a v s) = clean_block s" "pgfault_num (wr a v s) = pgfault_num s"
  by (simp_all add: wr_def)

lemma frames_wr: "frames (wr a v s) p i = (if (p, i) = a then v else frames s p i)"
  by (cases a) (simp add: wr_def)

lemma upd_pmm_fields [simp]:
  "vpmm (upd_pmm f s) = f (vpmm s)" "frames (upd_pmm f s) = frames s" "vlinks (upd_pmm f s) = vlinks s"
  "pra_vaddr (upd_pmm f s) = pra_vaddr s" "vmas (upd_pmm f s) = vmas s" "mms (upd_pmm f s) = mms s"
  "check_mm_struct (upd_pmm f s) = check_mm_struct s" "cur_pgdir (upd_pmm f s) = cur_pgdir s"
  "hw (upd_pmm f s) = hw s" "tlb_algo_empty (upd_pmm f s) = tlb_algo_empty s" "tlb_algo_n (upd_pmm f s) = tlb_algo_n s"
  "tlb_algo_hi (upd_pmm f s) = tlb_algo_hi s" "tlb_algo_ptr (upd_pmm f s) = tlb_algo_ptr s"
  "swap_init_ok (upd_pmm f s) = swap_init_ok s" "clean_block (upd_pmm f s) = clean_block s"
  "pgfault_num (upd_pmm f s) = pgfault_num s"
  by (simp_all add: upd_pmm_def)

text \<open>An entry of a page table of \<open>pd\<close> is written.\<close>

lemma frames_wr_dir:
  assumes "space_ok s pd" "i < 512" "bit (frames s pd i) 0"
  shows "frames (wr (pfn (frames s pd i), j) x s) pd k = frames s pd k"
  using assms by (auto simp: frames_wr space_ok_def)

lemma space_wr:
  assumes ok: "space_ok s pd" and i: "i < 512" "bit (frames s pd i) 0" and s'_def: "s' = wr (pfn (frames s pd i), j) x s"
  shows "space_ok s' pd" "space_frames s' pd = space_frames s pd"
    "j < 1024 \<Longrightarrow> user_page v \<Longrightarrow> pv s' pd v = (if v = i * 1024 + j then x else pv s pd v)"
proof -
  have d: "frames s' pd k = frames s pd k" for k unfolding s'_def by (rule frames_wr_dir [OF ok i])
  show "space_ok s' pd" using ok unfolding space_ok_def d by (simp add: s'_def)
  show "space_frames s' pd = space_frames s pd" unfolding space_frames_def d ..
  assume j: "j < 1024" and v: "user_page v"
  have iv: "v div 1024 < 512" using v by (simp add: div_less_iff_less_mult)
  have eq: "v = i * 1024 + j \<longleftrightarrow> v div 1024 = i \<and> v mod 1024 = j" using j by auto
  show "pv s' pd v = (if v = i * 1024 + j then x else pv s pd v)"
  proof (cases "bit (frames s pd (v div 1024)) 0")
    case False
    then show ?thesis using i(2) by (auto simp: pv_def d eq)
  next
    case True
    then have "pfn (frames s pd (v div 1024)) = pfn (frames s pd i) \<longleftrightarrow> v div 1024 = i"
      using ok i iv unfolding space_ok_def by blast
    then show ?thesis using True unfolding pv_def d eq by (auto simp: s'_def frames_wr)
  qed
qed

text \<open>What happens outside of the frames of an address space does not matter to it.\<close>

lemma space_other:
  assumes "\<And>f. f \<in> space_frames s pd \<Longrightarrow> frames s' f = frames s f" "npage (vpmm s') = npage (vpmm s)"
  shows "space_ok s' pd = space_ok s pd" "space_frames s' pd = space_frames s pd" "user_page v \<Longrightarrow> pv s' pd v = pv s pd v"
proof -
  have d: "frames s' pd = frames s pd" by (rule assms(1)) (simp add: space_frames_def)
  show "space_ok s' pd = space_ok s pd" by (simp add: space_ok_def d assms(2))
  show "space_frames s' pd = space_frames s pd" by (simp add: space_frames_def d)
  assume "user_page v"
  then have i: "v div 1024 < 512" by (simp add: div_less_iff_less_mult)
  have "frames s' (pfn (frames s pd (v div 1024))) = frames s (pfn (frames s pd (v div 1024)))"
    if "bit (frames s pd (v div 1024)) 0"
    by (rule assms(1)) (use i that in \<open>auto simp: space_frames_def\<close>)
  then show "pv s' pd v = pv s pd v" by (simp add: pv_def d)
qed

end
