(* ===== verification/Tlb_Props.thy ===== *)
theory Tlb_Props
  imports Vm_Props
begin

unbundle bit_operations_syntax

text \<open>
  The contents of the emulator's TLB against the entries of a page table (\<open>tlb_ok\<close>): the slots in use hold the pairs
  of pages of which one is marked \<^verbatim>\<open>TLB_P\<close>. Writing, rewriting and emptying a slot keep this, and under it the
  hardware translates a user address exactly when its page table entry is marked, and then as the entry says.
\<close>

section \<open>Entries\<close>

lemma and_128_eq_0 [simp]: "(x :: u32) AND 128 = 0 \<longleftrightarrow> \<not> bit x 7"
  using u32_and_bit_eq_0 [of x 7] by simp

definition lo_of :: "u32 \<Rightarrow> u32" where
  "lo_of x = (if bit x 7 then ENTRYLO x else 0)"

lemma ENTRYLO_cong: "PPN x = PPN y \<Longrightarrow> bit x 1 = bit y 1 \<Longrightarrow> ENTRYLO x = ENTRYLO y"
  by (simp add: ENTRYLO_def u32_drop_bit_and_1)

lemma PPN_cong: "(\<And>n. 12 \<le> n \<Longrightarrow> bit x n = bit y n) \<Longrightarrow> PPN x = PPN y"
  by (rule bit_word_eqI) (simp add: PPN_def bit_simps)

lemma TLBIDX_cong: "(\<And>n. 8 \<le> n \<Longrightarrow> n < 12 \<Longrightarrow> bit x n = bit y n) \<Longrightarrow> TLBIDX x = TLBIDX y"
proof -
  assume b: "\<And>n. 8 \<le> n \<Longrightarrow> n < 12 \<Longrightarrow> bit x n = bit y n"
  have "drop_bit 8 x AND mask 4 = drop_bit 8 y AND mask 4"
    by (rule bit_word_eqI) (auto simp: bit_simps b)
  then show ?thesis by (simp add: TLBIDX_def mask_eq_exp_minus_1)
qed

lemma bit_128: "bit (128 :: u32) n \<longleftrightarrow> n = 7"
proof (cases "n < 32")
  case True
  then have "n \<in> set [0..<32]" by simp
  then show ?thesis unfolding upt_32 list.set insert_iff empty_iff by (elim disjE) simp_all
qed (simp add: u32_bit_beyond)

definition unmarked :: "u32 \<Rightarrow> u32" where
  "unmarked x = x AND NOT 128"

lemma unmarked_fold [simp]: "x AND - 129 = unmarked x"
  by (simp add: unmarked_def)

lemma bit_unmarked: "bit (unmarked x) n \<longleftrightarrow> bit x n \<and> n \<noteq> 7"
proof (cases "n < 32")
  case True
  then show ?thesis unfolding unmarked_def bit_and_iff bit_not_iff bit_128 by simp
qed (simp add: u32_bit_beyond)

lemma unmarked:
  "\<not> bit (unmarked x) 7" "bit (unmarked x) 0 = bit x 0" "ENTRYLO (unmarked x) = ENTRYLO x"
  "pfn (unmarked x) = pfn x" "TLBIDX (unmarked x) = TLBIDX x" "\<not> bit x 7 \<Longrightarrow> unmarked x = x"
proof -
  show "\<not> bit (unmarked x) 7" "bit (unmarked x) 0 = bit x 0" unfolding bit_unmarked by simp_all
  have p: "PPN (unmarked x) = PPN x" by (rule PPN_cong) (simp add: bit_unmarked)
  then show "pfn (unmarked x) = pfn x" by (simp add: pfn_def)
  show "ENTRYLO (unmarked x) = ENTRYLO x" by (rule ENTRYLO_cong [OF p]) (simp add: bit_unmarked)
  show "TLBIDX (unmarked x) = TLBIDX x" by (rule TLBIDX_cong) (simp add: bit_unmarked)
  show "\<not> bit x 7 \<Longrightarrow> unmarked x = x" by (rule bit_word_eqI) (auto simp: bit_unmarked)
qed

definition marked :: "u32 \<Rightarrow> nat \<Rightarrow> u32" where
  "marked x i = (x AND 0xfffff0ff) OR push_bit 8 (of_nat i) OR 128"

lemma bit_small: "i < 16 \<Longrightarrow> bit (i :: nat) k \<Longrightarrow> k < 4"
proof (rule ccontr)
  assume "i < 16" "bit i k" "\<not> k < 4"
  moreover from this have "(2::nat) ^ 4 \<le> 2 ^ k" by (intro power_increasing) simp_all
  ultimately show False by (simp add: bit_iff_odd)
qed

lemma bit_marked:
  assumes "i < 16"
  shows "bit (marked x i) n \<longleftrightarrow> n = 7 \<or> 8 \<le> n \<and> n < 12 \<and> bit i (n - 8) \<or> bit x n \<and> \<not> (8 \<le> n \<and> n < 12)"
proof (cases "n < 32")
  case False
  then show ?thesis using u32_bit_beyond [of n] by auto
next
  case True
  have m: "(0xfffff0ff :: u32) = NOT (push_bit 8 (mask 4))" by (simp add: mask_eq_exp_minus_1)
  have "bit (0xfffff0ff :: u32) n \<longleftrightarrow> \<not> (8 \<le> n \<and> n < 12)"
    unfolding m using True by (auto simp: bit_not_iff bit_push_bit_iff bit_mask_iff)
  moreover have "bit i (n - 8) \<Longrightarrow> n < 12" using bit_small [OF assms, of "n - 8"] by linarith
  ultimately show ?thesis unfolding marked_def bit_or_iff bit_and_iff bit_128 using True
    by (auto simp: bit_push_bit_iff bit_of_nat_iff)
qed

lemma marked:
  assumes "i < 16"
  shows "bit (marked x i) 7" "bit (marked x i) 0 = bit x 0" "ENTRYLO (marked x i) = ENTRYLO x"
    "pfn (marked x i) = pfn x" "TLBIDX (marked x i) = i"
proof -
  note b = bit_marked [OF assms]
  show "bit (marked x i) 7" "bit (marked x i) 0 = bit x 0" unfolding b by simp_all
  have p: "PPN (marked x i) = PPN x" by (rule PPN_cong) (simp add: b)
  then show "pfn (marked x i) = pfn x" by (simp add: pfn_def)
  show "ENTRYLO (marked x i) = ENTRYLO x" by (rule ENTRYLO_cong [OF p]) (simp add: b)
  have "drop_bit 8 (marked x i) AND mask 4 = of_nat i"
    by (rule bit_word_eqI) (use bit_small [OF assms] in \<open>auto simp: bit_simps b\<close>)
  then show "TLBIDX (marked x i) = i" using assms by (simp add: TLBIDX_def mask_eq_exp_minus_1 unat_of_nat_u32)
qed

section \<open>Pairs of pages\<close>

lemma pair_base: "(la :: u32) AND 0xffffe000 = of_nat (unat la div 8192 * 8192)"
proof -
  have "la AND 0xffffe000 = push_bit 13 (drop_bit 13 la)" by (simp add: u32_bitwise)
  also have "\<dots> = of_nat (unat la div 2 ^ 13) * 2 ^ 13" unfolding push_bit_eq_mult u32_of_nat_div ..
  finally show ?thesis by simp
qed

lemma unat_mult_8192: "k < 524288 \<Longrightarrow> unat (of_nat (k * 8192) :: u32) = k * 8192"
  by (rule unat_of_nat_u32) simp

lemma pair_base_inj: "j < 524288 \<Longrightarrow> k < 524288 \<Longrightarrow> (of_nat (j * 8192) :: u32) = of_nat (k * 8192) \<longleftrightarrow> j = k"
  by (subst of_nat_u32_inj) simp_all

lemma TLBLO_0: "TLBLO la = 0 \<longleftrightarrow> even (vpn la)"
proof -
  have "TLBLO la = of_bool (bit la 12)" by (simp add: TLBLO_def PPN_def u32_drop_bit_and_1)
  then show ?thesis using u32_bit_iff [of la 12] by simp
qed

text \<open>The other page of a pair.\<close>

definition buddy :: "nat \<Rightarrow> nat" where
  "buddy v = (if even v then v + 1 else v - 1)"

lemma vpn_TLBPAIR: "vpn (TLBPAIR la) = buddy (vpn la)"
proof -
  have "PPN (TLBPAIR la) = PPN la XOR 1" by (simp add: PPN_def TLBPAIR_def u32_bitwise)
  then have "unat (PPN (TLBPAIR la)) = unat (PPN la) XOR Suc 0" by (simp add: unsigned_xor_eq)
  then show ?thesis unfolding PPN_nat xor_Suc_0_eq by (simp add: buddy_def)
qed

lemma buddy: "buddy v div 2 = v div 2" "buddy v \<noteq> v" "buddy (buddy v) = v" "user_page v \<Longrightarrow> user_page (buddy v)"
  "even (buddy v) \<longleftrightarrow> odd v" "v = 2 * (v div 2) + (if even v then 0 else 1)" "buddy v = 2 * (v div 2) + (if even v then 1 else 0)"
  by (auto simp: buddy_def elim!: evenE oddE)

lemma buddy_cases: "v div 2 = w div 2 \<longleftrightarrow> w = v \<or> w = buddy v"
proof
  assume "v div 2 = w div 2"
  then show "w = v \<or> w = buddy v" unfolding buddy_def
    by (cases "even v"; cases "even w") (auto elim!: evenE oddE)
qed (auto simp: buddy)

section \<open>The invariant\<close>

definition tlb_ok :: "mmu \<Rightarrow> nat set \<Rightarrow> u32 list \<Rightarrow> (nat \<Rightarrow> u32) \<Rightarrow> bool" where
  "tlb_ok m E H f \<longleftrightarrow> mmu_wf m \<and>
     (\<forall>i < 16. if i \<in> E then tlb_key m ! i = ENTRYHI_INVALID
        else \<exists>k < 262144. tlb_key m ! i = of_nat (k * 8192) \<and> H ! i = of_nat (k * 8192) \<and>
          tlb_data m ! 0 ! i = lo_of (f (2 * k)) \<and> tlb_data m ! 1 ! i = lo_of (f (2 * k + 1)) \<and>
          (bit (f (2 * k)) 7 \<or> bit (f (2 * k + 1)) 7)) \<and>
     (\<forall>i < 16. \<forall>j < 16. i \<notin> E \<longrightarrow> j \<notin> E \<longrightarrow> H ! i = H ! j \<longrightarrow> i = j) \<and>
     (\<forall>v. user_page v \<longrightarrow> bit (f v) 7 \<longrightarrow>
        bit (f v) 0 \<and> TLBIDX (f v) \<notin> E \<and> H ! TLBIDX (f v) = of_nat (v div 2 * 8192))"

lemma TLBIDX_less: "TLBIDX x < 16"
  using unat_and_mask_less [of "drop_bit 8 x" 4] by (simp add: TLBIDX_def mask_eq_exp_minus_1)

lemma tlb_okD:
  assumes "tlb_ok m E H f"
  shows "mmu_wf m" "i < 16 \<Longrightarrow> i \<in> E \<Longrightarrow> tlb_key m ! i = ENTRYHI_INVALID"
    "i < 16 \<Longrightarrow> i \<notin> E \<Longrightarrow> \<exists>k < 262144. tlb_key m ! i = of_nat (k * 8192) \<and> H ! i = of_nat (k * 8192) \<and>
          tlb_data m ! 0 ! i = lo_of (f (2 * k)) \<and> tlb_data m ! 1 ! i = lo_of (f (2 * k + 1)) \<and>
          (bit (f (2 * k)) 7 \<or> bit (f (2 * k + 1)) 7)"
    "i < 16 \<Longrightarrow> j < 16 \<Longrightarrow> i \<notin> E \<Longrightarrow> j \<notin> E \<Longrightarrow> H ! i = H ! j \<Longrightarrow> i = j"
    "user_page v \<Longrightarrow> bit (f v) 7 \<Longrightarrow> bit (f v) 0 \<and> TLBIDX (f v) \<notin> E \<and> H ! TLBIDX (f v) = of_nat (v div 2 * 8192)"
proof -
  note c = assms [unfolded tlb_ok_def]
  show "mmu_wf m" using c by (rule conjunct1)
  note s = c [THEN conjunct2, THEN conjunct1, rule_format]
  show "i < 16 \<Longrightarrow> i \<in> E \<Longrightarrow> tlb_key m ! i = ENTRYHI_INVALID" using s [of i] by simp
  show "i < 16 \<Longrightarrow> i \<notin> E \<Longrightarrow> \<exists>k < 262144. tlb_key m ! i = of_nat (k * 8192) \<and> H ! i = of_nat (k * 8192) \<and>
          tlb_data m ! 0 ! i = lo_of (f (2 * k)) \<and> tlb_data m ! 1 ! i = lo_of (f (2 * k + 1)) \<and>
          (bit (f (2 * k)) 7 \<or> bit (f (2 * k + 1)) 7)"
    using s [of i] by (simp only: if_False)
  show "i < 16 \<Longrightarrow> j < 16 \<Longrightarrow> i \<notin> E \<Longrightarrow> j \<notin> E \<Longrightarrow> H ! i = H ! j \<Longrightarrow> i = j"
    by (rule c [THEN conjunct2, THEN conjunct2, THEN conjunct1, rule_format])
  show "user_page v \<Longrightarrow> bit (f v) 7 \<Longrightarrow> bit (f v) 0 \<and> TLBIDX (f v) \<notin> E \<and> H ! TLBIDX (f v) = of_nat (v div 2 * 8192)"
    using c [THEN conjunct2, THEN conjunct2, THEN conjunct2] by blast
qed

text \<open>The slot of a marked page.\<close>

lemma slot_of:
  assumes ok: "tlb_ok m E H f" and v: "user_page v" "bit (f v) 7" "TLBIDX (f v) = i"
  shows "i < 16" "i \<notin> E" "H ! i = of_nat (v div 2 * 8192)" "tlb_key m ! i = of_nat (v div 2 * 8192)"
    "tlb_data m ! 0 ! i = lo_of (f (2 * (v div 2)))" "tlb_data m ! 1 ! i = lo_of (f (2 * (v div 2) + 1))"
proof -
  show i: "i < 16" "i \<notin> E" "H ! i = of_nat (v div 2 * 8192)"
    using tlb_okD(5) [OF ok v(1,2)] TLBIDX_less v(3) by auto
  obtain k where k: "k < 262144" "tlb_key m ! i = of_nat (k * 8192)" "H ! i = of_nat (k * 8192)"
    "tlb_data m ! 0 ! i = lo_of (f (2 * k))" "tlb_data m ! 1 ! i = lo_of (f (2 * k + 1))"
    using tlb_okD(3) [OF ok i(1,2)] by metis
  have "v div 2 < 524288" using v(1) by simp
  then have "k = v div 2" using pair_base_inj [of "v div 2" k] k(1,3) i(3) by simp
  with k show "tlb_key m ! i = of_nat (v div 2 * 8192)"
    "tlb_data m ! 0 ! i = lo_of (f (2 * (v div 2)))" "tlb_data m ! 1 ! i = lo_of (f (2 * (v div 2) + 1))" by simp_all
qed

lemma slot_unique:
  assumes ok: "tlb_ok m E H f" and i: "i < 16" "i \<notin> E" "H ! i = of_nat (v div 2 * 8192)" and v: "user_page v" "bit (f v) 7"
  shows "TLBIDX (f v) = i"
  using tlb_okD(4) [OF ok i(1), of "TLBIDX (f v)"] slot_of [OF ok v refl] i by simp

section \<open>Writing a slot\<close>

definition put_slot :: "nat \<Rightarrow> u32 \<Rightarrow> u32 \<times> u32 \<Rightarrow> mmu \<Rightarrow> mmu" where
  "put_slot i h los m =
     m\<lparr>tlb_key := (tlb_key m)[i := h],
       tlb_data := [(tlb_data m ! 0)[i := fst los], (tlb_data m ! 1)[i := snd los]]\<rparr>"

lemma put_slot:
  assumes "mmu_wf m" "i < 16"
  shows "mmu_wf (put_slot i h los m)" "tlb_key (put_slot i h los m) ! j = (if j = i then h else tlb_key m ! j)"
    "tlb_data (put_slot i h los m) ! 0 ! j = (if j = i then fst los else tlb_data m ! 0 ! j)"
    "tlb_data (put_slot i h los m) ! 1 ! j = (if j = i then snd los else tlb_data m ! 1 ! j)"
    "put_slot i h los (put_slot i g q m) = put_slot i h los m"
proof -
  obtain d0 d1 where d: "tlb_data m = [d0, d1]" "length d0 = 16" "length d1 = 16" "length (tlb_key m) = 16"
    using assms(1) by (rule mmu_wf_rows)
  show "mmu_wf (put_slot i h los m)" "tlb_key (put_slot i h los m) ! j = (if j = i then h else tlb_key m ! j)"
    "tlb_data (put_slot i h los m) ! 0 ! j = (if j = i then fst los else tlb_data m ! 0 ! j)"
    "tlb_data (put_slot i h los m) ! 1 ! j = (if j = i then snd los else tlb_data m ! 1 ! j)"
    "put_slot i h los (put_slot i g q m) = put_slot i h los m"
    using assms(2) d by (simp_all add: put_slot_def mmu_wf_def)
qed

lemma tlb_write_ok:
  assumes "cp0_wf (cp0 (hw s))" "mmu_wf (mmu (hw s))" "i < 16"
  shows "\<exists>c. tlb_write s i h los = Inr (s\<lparr>hw := c\<rparr>) \<and> cp0_wf (cp0 c) \<and> mmu c = put_slot i h los (mmu (hw s))"
proof -
  obtain d0 d1 where d: "tlb_data (mmu (hw s)) = [d0, d1]" "length d0 = 16" "length d1 = 16"
    using assms(2) by (rule mmu_wf_rows)
  have i: "unat (of_nat i :: u32) = i" using assms(3) by (intro unat_of_nat_u32) simp
  show ?thesis using assms(1,3) d i
    apply (simp add: tlb_write_def exe_tlbwi_def Let_def put_slot_def pc_add_def)
    apply (rule exI, rule conjI, rule refl)
    apply simp
    done
qed

lemma mark_slot:
  assumes ok: "tlb_ok m E H f" and v: "user_page v" "bit (f v) 0" "\<not> bit (f v) 7" and i: "i < 16" "length H = 16"
    and slot: "i \<in> E \<and> \<not> bit (f (buddy v)) 7 \<or> bit (f (buddy v)) 7 \<and> TLBIDX (f (buddy v)) = i"
    and los: "los = (if even v then (ENTRYLO (f v), lo_of (f (buddy v))) else (lo_of (f (buddy v)), ENTRYLO (f v)))"
  shows "tlb_ok (put_slot i (of_nat (v div 2 * 8192)) los m) (E - {i}) (H[i := of_nat (v div 2 * 8192)])
    (f(v := marked (f v) i))"
proof -
  let ?b = "of_nat (v div 2 * 8192) :: u32" and ?f = "f(v := marked (f v) i)"
  note D = tlb_okD [OF ok]
  note P = put_slot [OF D(1) i(1), of "?b" los]
  have k: "v div 2 < 262144" using v(1) by simp
  have fr: "H ! j \<noteq> ?b" if j: "j < 16" "j \<notin> E" "j \<noteq> i" for j
  proof
    assume H: "H ! j = ?b"
    obtain k' where k': "k' < 262144" "H ! j = of_nat (k' * 8192)" "bit (f (2 * k')) 7 \<or> bit (f (2 * k' + 1)) 7"
      using D(3) [OF j(1,2)] by metis
    then have "k' = v div 2" using H pair_base_inj [of "v div 2" k'] k by simp
    with k'(3) buddy(6,7) [of v] v(3) have b: "bit (f (buddy v)) 7" by (metis add_0_right)
    with slot have "TLBIDX (f (buddy v)) = i" by blast
    moreover have "TLBIDX (f (buddy v)) = j"
      by (rule slot_unique [OF ok j(1,2) _ buddy(4) [OF v(1)] b]) (simp add: H buddy)
    ultimately show False using j(3) by simp
  qed
  have lo: "fst los = lo_of (?f (2 * (v div 2)))" "snd los = lo_of (?f (2 * (v div 2) + 1))"
    using marked [OF i(1)] buddy(2,6,7) [of v] unfolding los by (auto simp: lo_of_def split: if_splits)
  have one: "bit (?f (2 * (v div 2))) 7 \<or> bit (?f (2 * (v div 2) + 1)) 7"
    using marked(1) [OF i(1)] buddy(6) [of v] by (metis add_0_right fun_upd_same)
  show ?thesis unfolding tlb_ok_def
  proof (intro conjI allI impI)
    show "mmu_wf (put_slot i ?b los m)" by (rule P(1))
    fix j :: nat assume j: "j < 16"
    show "if j \<in> E - {i} then tlb_key (put_slot i ?b los m) ! j = ENTRYHI_INVALID
      else \<exists>k < 262144. tlb_key (put_slot i ?b los m) ! j = of_nat (k * 8192) \<and> H[i := ?b] ! j = of_nat (k * 8192) \<and>
        tlb_data (put_slot i ?b los m) ! 0 ! j = lo_of (?f (2 * k)) \<and> tlb_data (put_slot i ?b los m) ! 1 ! j = lo_of (?f (2 * k + 1)) \<and>
        (bit (?f (2 * k)) 7 \<or> bit (?f (2 * k + 1)) 7)"
    proof (cases "j = i")
      case True
      then show ?thesis using k lo one i unfolding P(2-4) by (auto intro!: exI [of _ "v div 2"])
    next
      case ji: False
      show ?thesis
      proof (cases "j \<in> E")
        case True
        then show ?thesis using ji D(2) [OF j] unfolding P(2-4) by simp
      next
        case False
        obtain k' where k': "k' < 262144" "tlb_key m ! j = of_nat (k' * 8192)" "H ! j = of_nat (k' * 8192)"
          "tlb_data m ! 0 ! j = lo_of (f (2 * k'))" "tlb_data m ! 1 ! j = lo_of (f (2 * k' + 1))"
          "bit (f (2 * k')) 7 \<or> bit (f (2 * k' + 1)) 7" using D(3) [OF j False] by metis
        have "k' \<noteq> v div 2" using fr [OF j False ji] k'(3) by auto
        then have "2 * k' \<noteq> v" "2 * k' + 1 \<noteq> v" by auto
        then show ?thesis using ji False k' unfolding P(2-4) by (auto intro!: exI [of _ k'])
      qed
    qed
  next
    fix j l :: nat assume "j < 16" "l < 16" "j \<notin> E - {i}" "l \<notin> E - {i}" "H[i := ?b] ! j = H[i := ?b] ! l"
    then show "j = l" using D(4) [of j l] fr [of j] fr [of l] i by (cases "j = i"; cases "l = i") auto
  next
    fix w assume w: "user_page w" "bit (?f w) 7"
    show "bit (?f w) 0" using w v(2) marked(2) [OF i(1)] D(5) [OF w(1)] by (cases "w = v") auto
    show "TLBIDX (?f w) \<notin> E - {i}" using w marked(5) [OF i(1)] D(5) [OF w(1)] by (cases "w = v") auto
    show "H[i := ?b] ! TLBIDX (?f w) = of_nat (w div 2 * 8192)"
    proof (cases "w = v")
      case True
      then show ?thesis using marked(5) [OF i(1)] i by simp
    next
      case False
      then have wv: "TLBIDX (f w) \<notin> E" "H ! TLBIDX (f w) = of_nat (w div 2 * 8192)" using D(5) [OF w(1)] w(2) by auto
      show ?thesis
      proof (cases "TLBIDX (f w) = i")
        case True
        then have "bit (f (buddy v)) 7" "TLBIDX (f (buddy v)) = i" using slot wv(1) by auto
        then have "H ! i = ?b" using slot_of(3) [OF ok buddy(4) [OF v(1)]] by (simp add: buddy)
        then show ?thesis using False True wv(2) i by simp
      qed (use False wv in simp)
    qed
  qed
qed

text \<open>Emptying a slot unmarks both pages of its pair.\<close>

lemma empty_slot:
  assumes ok: "tlb_ok m E H f" and i: "i < 16" "i \<notin> E" and k: "k < 262144" "H ! i = of_nat (k * 8192)"
  shows "tlb_ok (put_slot i ENTRYHI_INVALID los m) (insert i E) H
    (\<lambda>v. if v div 2 = k then unmarked (f v) else f v)"
proof -
  let ?f = "\<lambda>v. if v div 2 = k then unmarked (f v) else f v"
  note D = tlb_okD [OF ok]
  note P = put_slot [OF D(1) i(1), of ENTRYHI_INVALID los]
  show ?thesis unfolding tlb_ok_def
  proof (intro conjI allI impI)
    show "mmu_wf (put_slot i ENTRYHI_INVALID los m)" by (rule P(1))
    fix j :: nat assume j: "j < 16"
    show "if j \<in> insert i E then tlb_key (put_slot i ENTRYHI_INVALID los m) ! j = ENTRYHI_INVALID
      else \<exists>k < 262144. tlb_key (put_slot i ENTRYHI_INVALID los m) ! j = of_nat (k * 8192) \<and> H ! j = of_nat (k * 8192) \<and>
        tlb_data (put_slot i ENTRYHI_INVALID los m) ! 0 ! j = lo_of (?f (2 * k)) \<and>
        tlb_data (put_slot i ENTRYHI_INVALID los m) ! 1 ! j = lo_of (?f (2 * k + 1)) \<and>
        (bit (?f (2 * k)) 7 \<or> bit (?f (2 * k + 1)) 7)"
    proof (cases "j \<in> insert i E")
      case True
      then show ?thesis using D(2) [OF j] unfolding P(2-4) by auto
    next
      case False
      then have jE: "j \<notin> E" "j \<noteq> i" by auto
      obtain k' where k': "k' < 262144" "tlb_key m ! j = of_nat (k' * 8192)" "H ! j = of_nat (k' * 8192)"
        "tlb_data m ! 0 ! j = lo_of (f (2 * k'))" "tlb_data m ! 1 ! j = lo_of (f (2 * k' + 1))"
        "bit (f (2 * k')) 7 \<or> bit (f (2 * k' + 1)) 7" using D(3) [OF j jE(1)] by metis
      have "k' \<noteq> k" using D(4) [OF j i(1) jE(1) i(2)] k(2) k'(3) jE(2) by auto
      then show ?thesis using False k' unfolding P(2-4) by (auto intro!: exI [of _ k'])
    qed
  next
    fix j l :: nat assume "j < 16" "l < 16" "j \<notin> insert i E" "l \<notin> insert i E" "H ! j = H ! l"
    then show "j = l" using D(4) [of j l] by simp
  next
    fix w assume w: "user_page w" "bit (?f w) 7"
    then have wk: "w div 2 \<noteq> k" "bit (f w) 7" by (auto simp: unmarked split: if_splits)
    have Dw: "bit (f w) 0" "TLBIDX (f w) \<notin> E" "H ! TLBIDX (f w) = of_nat (w div 2 * 8192)"
      using D(5) [OF w(1) wk(2)] by simp_all
    show "bit (?f w) 0" using wk Dw by simp
    have "w div 2 < 262144" using w(1) by simp
    then have "TLBIDX (f w) \<noteq> i" using Dw(3) k pair_base_inj [of "w div 2" k] wk(1) by auto
    then show "TLBIDX (?f w) \<notin> insert i E" using wk Dw by simp
    show "H ! TLBIDX (?f w) = of_nat (w div 2 * 8192)" using wk Dw by simp
  qed
qed

text \<open>Rewriting a slot with one page of the pair withdrawn.\<close>

lemma unmark_slot:
  assumes ok: "tlb_ok m E H f" and v: "user_page v" "bit (f v) 7" and b: "bit (f (buddy v)) 7"
    and los: "los = (if even v then (0, ENTRYLO (f (buddy v))) else (ENTRYLO (f (buddy v)), 0))"
  shows "tlb_ok (put_slot (TLBIDX (f v)) (of_nat (v div 2 * 8192)) los m) E H (f(v := unmarked (f v)))"
proof -
  let ?f = "f(v := unmarked (f v))" and ?i = "TLBIDX (f v)"
  note D = tlb_okD [OF ok]
  have i: "?i < 16" by (rule TLBIDX_less)
  note P = put_slot [OF D(1) i, of "of_nat (v div 2 * 8192)" los]
  have Dv: "bit (f v) 0" "?i \<notin> E" "H ! ?i = of_nat (v div 2 * 8192)" using D(5) [OF v] by simp_all
  have k: "v div 2 < 262144" using v(1) by simp
  have lo: "fst los = lo_of (?f (2 * (v div 2)))" "snd los = lo_of (?f (2 * (v div 2) + 1))"
    using b buddy(2,6,7) [of v] unfolding los by (auto simp: lo_of_def unmarked split: if_splits)
  have one: "bit (?f (2 * (v div 2))) 7 \<or> bit (?f (2 * (v div 2) + 1)) 7"
    using b buddy(2,6,7) [of v] by (auto split: if_splits)
  show ?thesis unfolding tlb_ok_def
  proof (intro conjI allI impI)
    show "mmu_wf (put_slot ?i (of_nat (v div 2 * 8192)) los m)" by (rule P(1))
    fix j :: nat assume j: "j < 16"
    show "if j \<in> E then tlb_key (put_slot ?i (of_nat (v div 2 * 8192)) los m) ! j = ENTRYHI_INVALID
      else \<exists>k < 262144. tlb_key (put_slot ?i (of_nat (v div 2 * 8192)) los m) ! j = of_nat (k * 8192) \<and> H ! j = of_nat (k * 8192) \<and>
        tlb_data (put_slot ?i (of_nat (v div 2 * 8192)) los m) ! 0 ! j = lo_of (?f (2 * k)) \<and>
        tlb_data (put_slot ?i (of_nat (v div 2 * 8192)) los m) ! 1 ! j = lo_of (?f (2 * k + 1)) \<and>
        (bit (?f (2 * k)) 7 \<or> bit (?f (2 * k + 1)) 7)"
    proof (cases "j = ?i")
      case True
      then show ?thesis using k lo one Dv unfolding P(2-4) by (auto intro!: exI [of _ "v div 2"])
    next
      case ji: False
      show ?thesis
      proof (cases "j \<in> E")
        case True
        then show ?thesis using ji D(2) [OF j] unfolding P(2-4) by simp
      next
        case False
        obtain k' where k': "k' < 262144" "tlb_key m ! j = of_nat (k' * 8192)" "H ! j = of_nat (k' * 8192)"
          "tlb_data m ! 0 ! j = lo_of (f (2 * k'))" "tlb_data m ! 1 ! j = lo_of (f (2 * k' + 1))"
          "bit (f (2 * k')) 7 \<or> bit (f (2 * k' + 1)) 7" using D(3) [OF j False] by metis
        have "k' \<noteq> v div 2" using D(4) [OF j i False Dv(2)] ji k'(3) Dv(3) by auto
        then have "2 * k' \<noteq> v" "2 * k' + 1 \<noteq> v" by auto
        then show ?thesis using ji False k' unfolding P(2-4) by (auto intro!: exI [of _ k'])
      qed
    qed
  next
    fix j l :: nat assume "j < 16" "l < 16" "j \<notin> E" "l \<notin> E" "H ! j = H ! l"
    then show "j = l" using D(4) [of j l] by simp
  next
    fix w assume w: "user_page w" "bit (?f w) 7"
    then have wv: "w \<noteq> v" "bit (f w) 7" by (auto simp: unmarked split: if_splits)
    show "bit (?f w) 0" "TLBIDX (?f w) \<notin> E" "H ! TLBIDX (?f w) = of_nat (w div 2 * 8192)"
      using wv D(5) [OF w(1) wv(2)] by simp_all
  qed
qed

section \<open>What the hardware translates\<close>

lemma tlb_scan_Some:
  "tlb_scan m x i = Some j \<Longrightarrow> j < 16 \<and> drop_bit 13 (tlb_key m ! j) = x"
proof (induction m x i rule: tlb_scan.induct)
  case (1 m x i)
  then show ?case by (subst (asm) (2) tlb_scan.simps) (auto split: if_splits)
qed

lemma tlb_scan_None:
  "tlb_scan m x i = None \<Longrightarrow> i \<le> j \<Longrightarrow> j < 16 \<Longrightarrow> drop_bit 13 (tlb_key m ! j) \<noteq> x"
proof (induction m x i rule: tlb_scan.induct)
  case (1 m x i)
  note p = "1.prems"(1) [unfolded tlb_scan.simps [of m x i]]
  then show ?case using "1.IH" "1.prems"(2,3) by (cases "j = i") (auto split: if_splits)
qed

lemma drop_13_base: "k < 524288 \<Longrightarrow> drop_bit 13 (of_nat (k * 8192) :: u32) = of_nat k"
  by (rule word_unat_eq_iff [THEN iffD2]) (subst unat_drop, subst unat_mult_8192, simp_all add: unat_of_nat_u32)

lemma drop_13_vpn: "drop_bit 13 (va :: u32) = of_nat (vpn va div 2)"
  using u32_of_nat_div [of va 13, symmetric] by (simp flip: div_mult2_eq)

lemma ENTRYLO_bits:
  "drop_bit 1 (ENTRYLO x) AND 1 = 1" "drop_bit 2 (ENTRYLO x) AND 1 = of_bool (bit x 1)"
  "push_bit 6 (ENTRYLO x) AND 0xfffff000 = PTE_ADDR x" "bit (ENTRYLO x) (Suc 0)"
proof -
  have b: "bit (ENTRYLO x) 1" "bit (ENTRYLO x) 2 = bit x 1"
    unfolding ENTRYLO_def ENTRYLO_AUX_def by (simp_all add: u32_bitwise u32_drop_bit_and_1)
  then show "drop_bit 1 (ENTRYLO x) AND 1 = 1" "drop_bit 2 (ENTRYLO x) AND 1 = of_bool (bit x 1)"
    "bit (ENTRYLO x) (Suc 0)" by (simp_all add: u32_drop_bit_and_1)
  show "push_bit 6 (ENTRYLO x) AND 0xfffff000 = PTE_ADDR x"
    by (simp add: ENTRYLO_def ENTRYLO_AUX_def PTE_ADDR_def PPN_def u32_bitwise)
qed

lemma ok_scan:
  assumes ok: "tlb_ok m E H f" and v: "user_page v"
  shows "case tlb_scan m (of_nat (v div 2)) 0 of
      None \<Rightarrow> \<not> bit (f v) 7
    | Some i \<Rightarrow> tlb_data m ! 0 ! i = lo_of (f (2 * (v div 2))) \<and> tlb_data m ! 1 ! i = lo_of (f (2 * (v div 2) + 1))"
proof (cases "tlb_scan m (of_nat (v div 2)) 0")
  case None
  have "\<not> bit (f v) 7"
  proof
    assume b: "bit (f v) 7"
    note sl = slot_of [OF ok v b refl]
    have "drop_bit 13 (tlb_key m ! TLBIDX (f v)) = of_nat (v div 2)"
      unfolding sl(4) by (rule drop_13_base) (use v in simp)
    with tlb_scan_None [OF None _ sl(1)] show False by simp
  qed
  with None show ?thesis by simp
next
  case (Some i)
  note i = tlb_scan_Some [OF Some]
  have iE: "i \<notin> E"
  proof
    assume "i \<in> E"
    then have "(262144 :: u32) = of_nat (v div 2)" using i tlb_okD(2) [OF ok, of i] by simp
    then have "unat (262144 :: u32) = unat (of_nat (v div 2) :: u32)" by (rule arg_cong)
    then show False using v by (simp add: unat_of_nat_u32)
  qed
  obtain k where k: "k < 262144" "tlb_key m ! i = of_nat (k * 8192)"
    "tlb_data m ! 0 ! i = lo_of (f (2 * k))" "tlb_data m ! 1 ! i = lo_of (f (2 * k + 1))"
    using tlb_okD(3) [OF ok _ iE] i by metis
  have "(of_nat k :: u32) = of_nat (v div 2)" using i drop_13_base [of k] k(1,2) by simp
  then have "k = v div 2" using k(1) v by (subst (asm) of_nat_u32_inj) simp_all
  then show ?thesis using Some k by simp
qed

lemma ok_translate:
  assumes ok: "tlb_ok m E H f" and v: "va < USERTOP" "x = f (vpn va)"
  shows "addr_translate p m va w e =
    (if \<not> bit x 7 then (0, True, tlb_fault (if w then Exc_TLBS else Exc_TLBL) va p)
     else if w \<and> \<not> bit x 1 then (0, True, tlb_fault Exc_Mod va p)
     else (PTE_ADDR x OR (va AND 0xfff), e, p))"
proof -
  have u: "user_page (vpn va)" using v(1) by (simp only: user_vpn)
  have k: "\<not> KSEG0_BASE \<le> va" "\<not> KSEG1_BASE \<le> va"
    using v(1) by (simp_all add: word_le_nat_alt word_less_nat_alt)
  have half: "unat (drop_bit 12 va AND 0x01) = (if even (vpn va) then 0 else 1)"
    using TLBLO_0 [of va] by (auto simp: TLBLO_def PPN_def u32_drop_bit_and_1)
  note b = buddy(6) [of "vpn va"]
  show ?thesis
  proof (cases "tlb_scan m (of_nat (vpn va div 2)) 0")
    case None
    then show ?thesis using ok_scan [OF ok u] k v(2) by (simp add: addr_translate_def drop_13_vpn)
  next
    case (Some i)
    then have "tlb_data m ! (if even (vpn va) then 0 else 1) ! i = lo_of x"
      using ok_scan [OF ok u] b v(2) by (auto split: if_splits)
    then show ?thesis using Some k unfolding addr_translate_def drop_13_vpn half Let_def
      by (simp add: lo_of_def ENTRYLO_bits bit_drop_bit_eq)
  qed
qed

end
