(* ===== verification/Tlb_Kernel.thy ===== *)
theory Tlb_Kernel
  imports Tlb_Props
begin

unbundle bit_operations_syntax

text \<open>
  The kernel's TLB management (\<^verbatim>\<open>kern/mm/tlb.c\<close>): invalidating and refilling keep the TLB, the lists of
  the replacement algorithm and the marks in the page table consistent (\<open>tlb_inv\<close>), so that the hardware always
  translates as the current page table says. \<^verbatim>\<open>load_pgdir\<close> establishes it only if no entry of the new
  page table is marked: marks left from an earlier activation break it.
\<close>

section \<open>The kernel's book-keeping\<close>

definition tlb_inv :: "vm \<Rightarrow> nat \<Rightarrow> bool" where
  "tlb_inv s c \<longleftrightarrow>
     cur_pgdir s = Some c \<and> cp0_wf (cp0 (hw s)) \<and> length (tlb_algo_empty s) = 16 \<and> length (tlb_algo_hi s) = 16 \<and>
     tlb_algo_n s \<le> 16 \<and> tlb_algo_ptr s < 16 \<and> distinct (take (tlb_algo_n s) (tlb_algo_empty s)) \<and>
     set (take (tlb_algo_n s) (tlb_algo_empty s)) \<subseteq> {..<16} \<and>
     tlb_ok (mmu (hw s)) (set (take (tlb_algo_n s) (tlb_algo_empty s))) (tlb_algo_hi s) (pv s c)"

lemma tlb_ok_cong:
  assumes ok: "tlb_ok m E H f" and g: "\<And>v. user_page v \<Longrightarrow> g v = f v"
  shows "tlb_ok m E H g"
  unfolding tlb_ok_def
proof (intro conjI allI impI)
  note D = tlb_okD [OF ok]
  show "mmu_wf m" by (rule D(1))
  fix i :: nat assume i: "i < 16"
  show "if i \<in> E then tlb_key m ! i = ENTRYHI_INVALID
    else \<exists>k < 262144. tlb_key m ! i = of_nat (k * 8192) \<and> H ! i = of_nat (k * 8192) \<and>
      tlb_data m ! 0 ! i = lo_of (g (2 * k)) \<and> tlb_data m ! 1 ! i = lo_of (g (2 * k + 1)) \<and>
      (bit (g (2 * k)) 7 \<or> bit (g (2 * k + 1)) 7)"
  proof (cases "i \<in> E")
    case True
    then show ?thesis using D(2) [OF i] by simp
  next
    case False
    obtain k where k: "k < 262144" "tlb_key m ! i = of_nat (k * 8192) \<and> H ! i = of_nat (k * 8192) \<and>
      tlb_data m ! 0 ! i = lo_of (f (2 * k)) \<and> tlb_data m ! 1 ! i = lo_of (f (2 * k + 1)) \<and>
      (bit (f (2 * k)) 7 \<or> bit (f (2 * k + 1)) 7)" using D(3) [OF i False] by blast
    have "f (2 * k) = g (2 * k)" "f (2 * k + 1) = g (2 * k + 1)" using k(1) by (simp_all add: g)
    note k(2) [unfolded this]
    with k(1) False show ?thesis by (simp only: if_False) blast
  qed
qed (use tlb_okD(4,5) [OF ok] g in simp_all)

text \<open>What the TLB routines may change.\<close>

definition tlb_only :: "nat \<Rightarrow> vm \<Rightarrow> vm \<Rightarrow> bool" where
  "tlb_only c s s' \<longleftrightarrow>
     (vpmm s' = vpmm s \<and> vlinks s' = vlinks s \<and> pra_vaddr s' = pra_vaddr s \<and> vmas s' = vmas s \<and> mms s' = mms s \<and>
      check_mm_struct s' = check_mm_struct s \<and> cur_pgdir s' = cur_pgdir s \<and> swap_init_ok s' = swap_init_ok s \<and>
      clean_block s' = clean_block s \<and> pgfault_num s' = pgfault_num s) \<and>
     frames s' c = frames s c \<and> (\<forall>f. f \<notin> space_frames s c \<longrightarrow> frames s' f = frames s f)"

lemma tlb_only_refl: "tlb_only c s s"
  by (simp add: tlb_only_def)

lemma tlb_only_dir: "tlb_only c s s' \<Longrightarrow> space_frames s' c = space_frames s c"
  by (simp add: tlb_only_def space_frames_def)

lemma tlb_only_space: "tlb_only c s s' \<Longrightarrow> space_ok s' c = space_ok s c"
  by (auto simp: tlb_only_def space_ok_def)

lemma tlb_only_trans: "tlb_only c s s' \<Longrightarrow> tlb_only c s' s'' \<Longrightarrow> tlb_only c s s''"
proof -
  assume a: "tlb_only c s s'" and b: "tlb_only c s' s''"
  from a b tlb_only_dir [OF a] show ?thesis unfolding tlb_only_def by auto
qed

lemma tlb_only_fields:
  assumes "tlb_only c s s'"
  shows "vpmm s' = vpmm s" "vlinks s' = vlinks s" "pra_vaddr s' = pra_vaddr s" "vmas s' = vmas s" "mms s' = mms s"
    "check_mm_struct s' = check_mm_struct s" "cur_pgdir s' = cur_pgdir s" "swap_init_ok s' = swap_init_ok s"
    "clean_block s' = clean_block s" "pgfault_num s' = pgfault_num s"
  using assms by (auto simp: tlb_only_def)

lemma tlb_only_wr:
  assumes "space_ok s c" "i < 512" "bit (frames s c i) 0"
  shows "tlb_only c s (wr (pfn (frames s c i), j) x s)"
proof -
  let ?s = "wr (pfn (frames s c i), j) x s"
  have "frames ?s c = frames s c" by (rule ext) (rule frames_wr_dir [OF assms])
  moreover have "frames ?s f = frames s f" if f: "f \<notin> space_frames s c" for f
  proof -
    have "f \<noteq> pfn (frames s c i)" using assms(2,3) f by (auto simp: space_frames_def)
    then show ?thesis by (intro ext) (simp add: frames_wr)
  qed
  ultimately show ?thesis by (simp add: tlb_only_def)
qed

text \<open>Changing the mark of an entry.\<close>

lemma wr_entry:
  assumes ok: "space_ok s c" and la: "la < USERTOP" "bit (frames s c (PDX la)) 0" and x: "x = f (pv s c (vpn la))"
    and s': "s' = wr (pfn (frames s c (PDX la)), PTX la) x s"
  shows "space_ok s' c" "tlb_only c s s'" "user_page v \<Longrightarrow> pv s' c v = (if v = vpn la then f (pv s c v) else pv s c v)"
proof -
  note i = PDX_user [OF la(1)]
  show "space_ok s' c" by (rule space_wr(1) [OF ok i la(2) s'])
  show "tlb_only c s s'" unfolding s' by (rule tlb_only_wr [OF ok i la(2)])
  assume v: "user_page v"
  have "vpn la = PDX la * 1024 + PTX la" unfolding vpn_index [symmetric] by simp
  moreover have "PTX la < 1024" unfolding vpn_index [symmetric] by simp
  ultimately show "pv s' c v = (if v = vpn la then f (pv s c v) else pv s c v)"
    using space_wr(3) [OF ok i la(2) s' _ v] x by simp
qed

lemma clear_entry:
  assumes ok: "space_ok s c" and la: "la < USERTOP"
  obtains a s' where "find_pte s c la = Inr a" "clear_tlb_p a s = s'"
    "space_ok s' c" "tlb_only c s s'" "tlb_algo_n s' = tlb_algo_n s" "tlb_algo_ptr s' = tlb_algo_ptr s"
    "tlb_algo_empty s' = tlb_algo_empty s" "tlb_algo_hi s' = tlb_algo_hi s" "hw s' = hw s"
    "\<And>v. user_page v \<Longrightarrow> pv s' c v = (if v = vpn la then unmarked (pv s c v) else pv s c v)"
proof (cases "bit (frames s c (PDX la)) 0")
  case False
  then have "pv s c (vpn la) = 0" unfolding pv_def vpn_index by simp
  then have "pv s c v = (if v = vpn la then unmarked (pv s c v) else pv s c v)" for v by (simp add: unmarked(6))
  moreover have f: "find_pte s c la = Inr None" using False find_pte_eq [OF ok la] by simp
  ultimately show ?thesis using ok tlb_only_refl by (intro that [of None s]) (simp_all add: clear_tlb_p_def)
next
  case True
  note W = wr_entry [OF ok la True refl refl, where f = unmarked]
  have f: "find_pte s c la = Inr (Some (pfn (frames s c (PDX la)), PTX la))" using True find_pte_eq [OF ok la] by simp
  show ?thesis by (rule that [OF f _ W(1,2) _ _ _ _ _ W(3)]) (simp_all add: clear_tlb_p_def rd_pv [OF True])
qed

lemma tlb_invD:
  assumes "tlb_inv s c"
  shows "cur_pgdir s = Some c" "cp0_wf (cp0 (hw s))" "length (tlb_algo_empty s) = 16" "length (tlb_algo_hi s) = 16"
    "tlb_algo_n s \<le> 16" "tlb_algo_ptr s < 16" "distinct (take (tlb_algo_n s) (tlb_algo_empty s))"
    "set (take (tlb_algo_n s) (tlb_algo_empty s)) \<subseteq> {..<16}"
    "tlb_ok (mmu (hw s)) (set (take (tlb_algo_n s) (tlb_algo_empty s))) (tlb_algo_hi s) (pv s c)"
  using assms by (simp_all add: tlb_inv_def)

lemma space_algo [simp]:
  "pv (s\<lparr>hw := h\<rparr>) = pv s" "space_ok (s\<lparr>hw := h\<rparr>) = space_ok s"
  "pv (s\<lparr>tlb_algo_empty := e\<rparr>) = pv s" "space_ok (s\<lparr>tlb_algo_empty := e\<rparr>) = space_ok s"
  "pv (s\<lparr>tlb_algo_n := n\<rparr>) = pv s" "space_ok (s\<lparr>tlb_algo_n := n\<rparr>) = space_ok s"
  "pv (s\<lparr>tlb_algo_hi := x\<rparr>) = pv s" "space_ok (s\<lparr>tlb_algo_hi := x\<rparr>) = space_ok s"
  "pv (s\<lparr>tlb_algo_ptr := q\<rparr>) = pv s" "space_ok (s\<lparr>tlb_algo_ptr := q\<rparr>) = space_ok s"
  "pv (s\<lparr>cur_pgdir := r\<rparr>) = pv s" "space_ok (s\<lparr>cur_pgdir := r\<rparr>) = space_ok s"
  by (simp_all add: fun_eq_iff pv_def space_ok_def)

lemma tlb_only_algo:
  "frames s' = frames s \<Longrightarrow> vpmm s' = vpmm s \<Longrightarrow> vlinks s' = vlinks s \<Longrightarrow> pra_vaddr s' = pra_vaddr s \<Longrightarrow>
   vmas s' = vmas s \<Longrightarrow> mms s' = mms s \<Longrightarrow> check_mm_struct s' = check_mm_struct s \<Longrightarrow> cur_pgdir s' = cur_pgdir s \<Longrightarrow>
   swap_init_ok s' = swap_init_ok s \<Longrightarrow> clean_block s' = clean_block s \<Longrightarrow> pgfault_num s' = pgfault_num s \<Longrightarrow> tlb_only c s s'"
  by (simp add: tlb_only_def)

text \<open>The entry of a page and of the other page of its pair.\<close>

lemma find_entry:
  assumes ok: "space_ok s c" and la: "la < USERTOP"
  shows "bit (pv s c (vpn la)) k \<Longrightarrow> bit (frames s c (PDX la)) 0"
    "bit (frames s c (PDX la)) 0 \<Longrightarrow> find_pte s c la = Inr (Some (pfn (frames s c (PDX la)), PTX la))"
    "find_pte s c la = Inr None \<Longrightarrow> pv s c (vpn la) = 0"
    "find_pte s c la = Inr (Some a) \<Longrightarrow> rd s a = pv s c (vpn la)"
    "\<exists>x. find_pte s c la = Inr x"
proof -
  note f = find_pte_eq [OF ok la]
  have "\<not> bit (frames s c (PDX la)) 0 \<Longrightarrow> pv s c (vpn la) = 0" unfolding pv_def vpn_index by simp
  then show "bit (pv s c (vpn la)) k \<Longrightarrow> bit (frames s c (PDX la)) 0" "find_pte s c la = Inr None \<Longrightarrow> pv s c (vpn la) = 0"
    using f by (auto split: if_splits)
  show "bit (frames s c (PDX la)) 0 \<Longrightarrow> find_pte s c la = Inr (Some (pfn (frames s c (PDX la)), PTX la))" using f by simp
  show "find_pte s c la = Inr (Some a) \<Longrightarrow> rd s a = pv s c (vpn la)" using f rd_pv by (auto split: if_splits)
  show "\<exists>x. find_pte s c la = Inr x" using f by blast
qed

lemma TLBPAIR_user: "la < USERTOP \<Longrightarrow> TLBPAIR la < USERTOP"
  using buddy(4) unfolding user_vpn [symmetric] vpn_TLBPAIR .

lemma lo_pair_vpn: "lo_pair la x y = (if even (vpn la) then (x, y) else (y, x))"
  by (simp add: lo_pair_def TLBLO_0)

lemma base_vpn: "(la :: u32) AND 0xffffe000 = of_nat (vpn la div 2 * 8192)"
  unfolding pair_base by (simp flip: div_mult2_eq)

lemma in_use_room:
  assumes "tlb_inv s c" "i < 16" "i \<notin> set (take (tlb_algo_n s) (tlb_algo_empty s))"
  shows "tlb_algo_n s < 16"
proof -
  let ?E = "take (tlb_algo_n s) (tlb_algo_empty s)"
  note D = tlb_invD [OF assms(1)]
  have "card (insert i (set ?E)) \<le> card {..<16::nat}" using D(8) assms(2) by (intro card_mono) auto
  moreover have "card (set ?E) = tlb_algo_n s" using D(3,5) distinct_card [OF D(7)] by simp
  ultimately show ?thesis using assms(3) by simp
qed

text \<open>The slot has been written; what is left is the mark of the entry.\<close>

lemma finish_entry:
  assumes ok: "space_ok s c" and la: "la < USERTOP" "bit (frames s c (PDX la)) 0"
    and s': "s' = wr (pfn (frames s c (PDX la)), PTX la) (g (pv s c (vpn la))) s"
    and st: "cur_pgdir s = Some c" "cp0_wf (cp0 (hw s))" "length (tlb_algo_empty s) = 16" "length (tlb_algo_hi s) = 16"
      "tlb_algo_n s \<le> 16" "tlb_algo_ptr s < 16" "distinct (take (tlb_algo_n s) (tlb_algo_empty s))"
      "set (take (tlb_algo_n s) (tlb_algo_empty s)) \<subseteq> {..<16}"
    and f: "tlb_ok (mmu (hw s)) (set (take (tlb_algo_n s) (tlb_algo_empty s))) (tlb_algo_hi s) f"
      "\<And>v. user_page v \<Longrightarrow> f v = (if v = vpn la then g (pv s c v) else pv s c v)"
  shows "tlb_inv s' c" "tlb_only c s s'" "user_page v \<Longrightarrow> pv s' c v = f v"
proof -
  note W = wr_entry [where f = g, OF ok la refl s']
  show e: "pv s' c v = f v" if "user_page v" for v using W(3) [OF that] f(2) [OF that] by simp
  show "tlb_only c s s'" by (rule W(2))
  have "tlb_ok (mmu (hw s')) (set (take (tlb_algo_n s') (tlb_algo_empty s'))) (tlb_algo_hi s') (pv s' c)"
    using tlb_ok_cong [OF f(1) e] unfolding s' wr_fields .
  then show "tlb_inv s' c" using st unfolding tlb_inv_def s' wr_fields by simp
qed

lemma tlb_invalidate_inv:
  assumes inv: "tlb_inv s c" and sp: "space_ok s c" and la: "la < USERTOP"
  obtains s' where "tlb_invalidate s c la = Inr s'" "tlb_inv s' c" "tlb_only c s s'"
    "\<And>v. user_page v \<Longrightarrow> pv s' c v = (if v = vpn la then unmarked (pv s c v) else pv s c v)"
proof (cases "bit (pv s c (vpn la)) 7")
  case False
  obtain x where x: "find_pte s c la = Inr x" using find_entry(5) [OF sp la] ..
  have "x = Some a \<Longrightarrow> rd s a = pv s c (vpn la)" for a using x find_entry(4) [OF sp la] by simp
  then have "tlb_invalidate s c la = Inr s"
    using x False tlb_invD(1) [OF inv] by (cases x) (simp_all add: tlb_invalidate_def)
  moreover have "pv s c v = (if v = vpn la then unmarked (pv s c v) else pv s c v)" for v
    using False by (simp add: unmarked(6))
  ultimately show ?thesis using inv tlb_only_refl that [of s] by simp
next
  case True
  let ?v = "vpn la" and ?f = "pv s c" and ?E = "set (take (tlb_algo_n s) (tlb_algo_empty s))"
  let ?i = "TLBIDX (?f ?v)" and ?a = "(pfn (frames s c (PDX la)), PTX la)"
  note D = tlb_invD [OF inv]
  note mw = tlb_okD(1) [OF D(9)]
  have u: "user_page ?v" using la by (simp only: user_vpn)
  note dir = find_entry(1) [OF sp la True]
  note fa = find_entry(2) [OF sp la dir]
  note ra = rd_pv [OF dir]
  note sl = slot_of [OF D(9) u True refl]
  note lp = TLBPAIR_user [OF la]
  obtain x where x: "find_pte s c (TLBPAIR la) = Inr x" using find_entry(5) [OF sp lp] ..
  show ?thesis
  proof (cases "bit (?f (buddy ?v)) 7")
    case bud: True
    then have "bit (?f (vpn (TLBPAIR la))) 7" by (simp only: vpn_TLBPAIR)
    then obtain b where b: "x = Some b" "rd s b = ?f (buddy ?v)"
      using x find_entry(1,2,4) [OF sp lp] unfolding vpn_TLBPAIR by auto
    let ?los = "lo_pair la 0 (ENTRYLO (?f (buddy ?v)))"
    obtain h where h: "tlb_write s ?i (la AND 0xffffe000) ?los = Inr (s\<lparr>hw := h\<rparr>)" "cp0_wf (cp0 h)"
      "mmu h = put_slot ?i (la AND 0xffffe000) ?los (mmu (hw s))" using tlb_write_ok [OF D(2) mw sl(1)] by blast
    let ?s = "s\<lparr>hw := h\<rparr>" and ?s' = "wr ?a (unmarked (?f ?v)) (s\<lparr>hw := h\<rparr>)"
    have run: "tlb_invalidate s c la = Inr ?s'"
      using fa ra True x b bud h(1) D(1) by (simp add: tlb_invalidate_def Let_def rd_def)
    have ok: "tlb_ok (mmu h) ?E (tlb_algo_hi s) (?f(?v := unmarked (?f ?v)))"
      unfolding h(3) base_vpn by (rule unmark_slot [OF D(9) u True bud]) (simp add: lo_pair_vpn)
    note F = finish_entry [of ?s c la ?s' unmarked "?f(?v := unmarked (?f ?v))"]
    show ?thesis
      by (rule that [OF run F(1) tlb_only_trans [OF tlb_only_algo F(2)] trans [OF F(3)]])
        (use sp la dir D h(2) ok in simp_all)
  next
    case bud: False
    have xb: "x = Some b \<Longrightarrow> rd s b = ?f (buddy ?v)" for b using x find_entry(4) [OF sp lp] by (simp add: vpn_TLBPAIR)
    note n = in_use_room [OF inv sl(1,2)]
    let ?s0 = "s\<lparr>tlb_algo_empty := (tlb_algo_empty s)[tlb_algo_n s := ?i], tlb_algo_n := tlb_algo_n s + 1\<rparr>"
    obtain h where h: "tlb_write ?s0 ?i ENTRYHI_INVALID (lo_pair la 0 0) = Inr (?s0\<lparr>hw := h\<rparr>)" "cp0_wf (cp0 h)"
      "mmu h = put_slot ?i ENTRYHI_INVALID (lo_pair la 0 0) (mmu (hw s))" 
      using tlb_write_ok [of ?s0 ?i ENTRYHI_INVALID "lo_pair la 0 0"] D(2) mw sl(1) by auto
    let ?s = "?s0\<lparr>hw := h\<rparr>" and ?s' = "wr ?a (unmarked (?f ?v)) (?s0\<lparr>hw := h\<rparr>)"
    have run: "tlb_invalidate s c la = Inr ?s'"
      using fa ra True x xb bud h(1) D(1) n by (cases x) (simp_all add: tlb_invalidate_def tlb_del_callback_def Let_def rd_def)
    let ?g = "\<lambda>v. if v div 2 = ?v div 2 then unmarked (?f v) else ?f v"
    have ok: "tlb_ok (mmu h) (insert ?i ?E) (tlb_algo_hi s) ?g"
      unfolding h(3) by (rule empty_slot [OF D(9) sl(1,2) _ sl(3)]) (use u in simp)
    have g: "?g v = (if v = ?v then unmarked (?f v) else ?f v)" for v
      using buddy_cases [of v ?v] buddy(3) [of v] bud unmarked(6) by auto
    have tk: "take (Suc (tlb_algo_n s)) ((tlb_algo_empty s)[tlb_algo_n s := ?i]) = take (tlb_algo_n s) (tlb_algo_empty s) @ [?i]"
      using n D(3) by (simp add: take_Suc_conv_app_nth)
    note F = finish_entry [of ?s c la ?s' unmarked ?g]
    show ?thesis
      by (rule that [OF run F(1) tlb_only_trans [OF tlb_only_algo F(2)] trans [OF F(3)]])
        (use sp la dir D h(2) ok n sl(1,2) g in \<open>simp_all add: tk\<close>)
  qed
qed

text \<open>Choosing a slot: a free one, or the one at the hand of the clock, whose pages are unmarked.\<close>

lemma evict_inv:
  assumes inv: "tlb_inv s c" and sp: "space_ok s c" and k: "k < 262144" "hi0 = of_nat (k * 8192)"
  obtains a s1 d s2 where "find_pte s c hi0 = Inr a" "clear_tlb_p a s = s1" "find_pte s1 c (TLBPAIR hi0) = Inr d"
    "clear_tlb_p d s1 = s2" "space_ok s2 c" "tlb_only c s s2" "tlb_algo_n s2 = tlb_algo_n s" "tlb_algo_ptr s2 = tlb_algo_ptr s"
    "tlb_algo_empty s2 = tlb_algo_empty s" "tlb_algo_hi s2 = tlb_algo_hi s" "hw s2 = hw s"
    "\<And>v. user_page v \<Longrightarrow> pv s2 c v = (if v div 2 = k then unmarked (pv s c v) else pv s c v)"
proof -
  have v: "vpn hi0 = 2 * k" using k by (subst k(2), subst unat_mult_8192) simp_all
  then have la: "hi0 < USERTOP" using k(1) by (simp flip: user_vpn)
  have v': "vpn (TLBPAIR hi0) = 2 * k + 1" unfolding vpn_TLBPAIR v by (simp add: buddy_def)
  obtain a s1 where A: "find_pte s c hi0 = Inr a" "clear_tlb_p a s = s1"
    "space_ok s1 c" "tlb_only c s s1" "tlb_algo_n s1 = tlb_algo_n s" "tlb_algo_ptr s1 = tlb_algo_ptr s"
    "tlb_algo_empty s1 = tlb_algo_empty s" "tlb_algo_hi s1 = tlb_algo_hi s" "hw s1 = hw s"
    "\<And>v. user_page v \<Longrightarrow> pv s1 c v = (if v = 2 * k then unmarked (pv s c v) else pv s c v)"
    using clear_entry [OF sp la] unfolding v by metis
  obtain d s2 where B: "find_pte s1 c (TLBPAIR hi0) = Inr d" "clear_tlb_p d s1 = s2"
    "space_ok s2 c" "tlb_only c s1 s2" "tlb_algo_n s2 = tlb_algo_n s1" "tlb_algo_ptr s2 = tlb_algo_ptr s1"
    "tlb_algo_empty s2 = tlb_algo_empty s1" "tlb_algo_hi s2 = tlb_algo_hi s1" "hw s2 = hw s1"
    "\<And>v. user_page v \<Longrightarrow> pv s2 c v = (if v = 2 * k + 1 then unmarked (pv s1 c v) else pv s1 c v)"
    using clear_entry [OF A(3) TLBPAIR_user [OF la]] unfolding v' by metis
  have e: "pv s2 c v = (if v div 2 = k then unmarked (pv s c v) else pv s c v)" if u: "user_page v" for v
    using A(10) [OF u] B(10) [OF u] buddy_cases [of "2 * k" v] by (auto simp: buddy_def)
  show ?thesis by (rule that [OF A(1,2) B(1,2,3) tlb_only_trans [OF A(4) B(4)] _ _ _ _ _ e]) (use A B in simp_all)
qed

definition slot_given :: "vm \<Rightarrow> nat \<Rightarrow> vm \<Rightarrow> nat \<Rightarrow> bool" where
  "slot_given s c s' i \<longleftrightarrow>
     (i < 16 \<and> space_ok s' c \<and> hw s' = hw s \<and> length (tlb_algo_empty s') = 16 \<and> length (tlb_algo_hi s') = 16 \<and>
      tlb_algo_n s' \<le> 16 \<and> tlb_algo_ptr s' < 16 \<and> distinct (take (tlb_algo_n s') (tlb_algo_empty s'))) \<and>
     set (take (tlb_algo_n s') (tlb_algo_empty s')) \<subseteq> {..<16} - {i} \<and>
     (\<exists>m. tlb_ok m (insert i (set (take (tlb_algo_n s') (tlb_algo_empty s')))) (tlb_algo_hi s') (pv s' c) \<and>
        (\<forall>h los. put_slot i h los m = put_slot i h los (mmu (hw s))))"

lemma tlb_get_empty_free:
  assumes inv: "tlb_inv s c" and sp: "space_ok s c" and n: "tlb_algo_n s > 0"
  obtains s' i where "tlb_get_empty s ehi = Inr (s'\<lparr>tlb_algo_hi := (tlb_algo_hi s')[i := ehi]\<rparr>, i)" "slot_given s c s' i"
    "tlb_only c s s'" "pv s' = pv s"
proof -
  note D = tlb_invD [OF inv]
  let ?n = "tlb_algo_n s - 1" let ?i = "tlb_algo_empty s ! ?n" and ?s = "s\<lparr>tlb_algo_n := tlb_algo_n s - 1\<rparr>"
  have tk: "take (tlb_algo_n s) (tlb_algo_empty s) = take ?n (tlb_algo_empty s) @ [?i]"
    using n D(3,5) take_Suc_conv_app_nth [of ?n "tlb_algo_empty s"] by simp
  have given: "slot_given s c ?s ?i" unfolding slot_given_def
    using sp D(3-6) D(7-9) [unfolded tk] n by (intro conjI exI [of _ "mmu (hw s)"]) auto
  have run: "tlb_get_empty s ehi = Inr (?s\<lparr>tlb_algo_hi := (tlb_algo_hi ?s)[?i := ehi]\<rparr>, ?i)"
    using n D(5) by (simp add: tlb_get_empty_def Let_def)
  show ?thesis by (rule that [OF run given]) (simp_all add: tlb_only_algo)
qed

lemma tlb_get_empty_evict:
  assumes inv: "tlb_inv s c" and sp: "space_ok s c" and n: "tlb_algo_n s = 0"
  obtains s' i k where "tlb_get_empty s ehi = Inr (s'\<lparr>tlb_algo_hi := (tlb_algo_hi s')[i := ehi]\<rparr>, i)" "slot_given s c s' i"
    "tlb_only c s s'" "bit (pv s c (2 * k)) 7 \<or> bit (pv s c (2 * k + 1)) 7"
    "\<And>v. user_page v \<Longrightarrow> pv s' c v = (if v div 2 = k then unmarked (pv s c v) else pv s c v)"
proof -
  note D = tlb_invD [OF inv]
  let ?i = "tlb_algo_ptr s" and ?s = "s\<lparr>tlb_algo_ptr := (tlb_algo_ptr s + 1) mod 256 mod 16\<rparr>"
  have ok: "tlb_ok (mmu (hw s)) {} (tlb_algo_hi s) (pv s c)" using D(9) n by simp
  obtain k where k: "k < 262144" "tlb_algo_hi s ! ?i = of_nat (k * 8192)" "bit (pv s c (2 * k)) 7 \<or> bit (pv s c (2 * k + 1)) 7"
    using tlb_okD(3) [OF ok D(6)] by auto
  have inv': "tlb_inv ?s c" and sp': "space_ok ?s c" using inv sp by (simp_all add: tlb_inv_def)
  obtain a s1 d s2 where E: "find_pte ?s c (of_nat (k * 8192)) = Inr a" "clear_tlb_p a ?s = s1"
    "find_pte s1 c (TLBPAIR (of_nat (k * 8192))) = Inr d"
    "clear_tlb_p d s1 = s2" "space_ok s2 c" "tlb_only c ?s s2" "tlb_algo_n s2 = tlb_algo_n ?s" "tlb_algo_ptr s2 = tlb_algo_ptr ?s"
    "tlb_algo_empty s2 = tlb_algo_empty ?s" "tlb_algo_hi s2 = tlb_algo_hi ?s" "hw s2 = hw ?s"
    "\<And>v. user_page v \<Longrightarrow> pv s2 c v = (if v div 2 = k then unmarked (pv ?s c v) else pv ?s c v)"
    using evict_inv [OF inv' sp' k(1) refl] by metis
  have run: "tlb_get_empty s ehi = Inr (s2\<lparr>tlb_algo_hi := (tlb_algo_hi s2)[?i := ehi]\<rparr>, ?i)"
    using n D(1) E(1-4) by (simp add: tlb_get_empty_def Let_def k(2) del: of_nat_mult)
  let ?m = "put_slot ?i ENTRYHI_INVALID (0, 0) (mmu (hw s))"
  have "tlb_ok ?m {?i} (tlb_algo_hi s) (\<lambda>v. if v div 2 = k then unmarked (pv s c v) else pv s c v)"
    by (rule empty_slot [OF ok D(6) _ k(1,2)]) simp
  then have "tlb_ok ?m {?i} (tlb_algo_hi s) (pv s2 c)" by (rule tlb_ok_cong) (simp add: E(12))
  moreover have "put_slot ?i h los ?m = put_slot ?i h los (mmu (hw s))" for h los by (rule put_slot(5) [OF tlb_okD(1) [OF ok] D(6)])
  ultimately have "slot_given s c s2 ?i" unfolding slot_given_def using E(5,7-11) D(3-6) n
    by (intro conjI exI [of _ ?m]) simp_all
  moreover have "tlb_only c s s2" by (rule tlb_only_trans [OF tlb_only_algo E(6)]) simp_all
  ultimately show ?thesis using that [OF run _ _ k(3)] E(12) by simp
qed

text \<open>Entering a page into the slot.\<close>

lemma tlb_refill_given:
  assumes s: "slot_given s c s0 i" "tlb_only c s s0" "cur_pgdir s = Some c" "cp0_wf (cp0 (hw s))" and mw: "mmu_wf (mmu (hw s))"
    and la: "la < USERTOP" "bit (frames s0 c (PDX la)) 0"
    and e: "bit (pv s0 c (vpn la)) 0" "\<not> bit (pv s0 c (vpn la)) 7" "\<not> bit (pv s0 c (buddy (vpn la))) 7"
    and s1: "s1 = s0\<lparr>tlb_algo_hi := (tlb_algo_hi s0)[i := la AND 0xffffe000]\<rparr>"
  obtains h s' where "tlb_write s1 i (la AND 0xffffe000) (lo_pair la (ENTRYLO (pv s0 c (vpn la))) 0) = Inr (s1\<lparr>hw := h\<rparr>)"
    "s' = wr (pfn (frames s0 c (PDX la)), PTX la) (marked (pv s0 c (vpn la)) i) (s1\<lparr>hw := h\<rparr>)"
    "tlb_inv s' c" "tlb_only c s s'"
    "\<And>v. user_page v \<Longrightarrow> pv s' c v = (if v = vpn la then marked (pv s0 c v) i else pv s0 c v)"
proof -
  let ?v = "vpn la" and ?E = "set (take (tlb_algo_n s0) (tlb_algo_empty s0))"
  note G = s(1) [unfolded slot_given_def]
  have i: "i < 16" "i \<notin> ?E" and hw: "hw s1 = hw s" using G s1 by auto
  obtain m where m: "tlb_ok m (insert i ?E) (tlb_algo_hi s0) (pv s0 c)"
    "\<And>h los. put_slot i h los m = put_slot i h los (mmu (hw s))" using G by blast
  have u: "user_page ?v" using la(1) by (simp only: user_vpn)
  let ?los = "lo_pair la (ENTRYLO (pv s0 c ?v)) 0"
  obtain h where h: "tlb_write s1 i (la AND 0xffffe000) ?los = Inr (s1\<lparr>hw := h\<rparr>)" "cp0_wf (cp0 h)"
    "mmu h = put_slot i (la AND 0xffffe000) ?los m"
    using tlb_write_ok [of s1 i "la AND 0xffffe000" ?los] s(4) mw i(1) hw m(2) by auto
  have len: "length (tlb_algo_hi s0) = 16" using G by blast
  have "tlb_ok (mmu h) (insert i ?E - {i}) ((tlb_algo_hi s0)[i := la AND 0xffffe000]) ((pv s0 c)(?v := marked (pv s0 c ?v) i))"
    unfolding h(3) base_vpn
    by (rule mark_slot [OF m(1) u e(1,2) i(1) len]) (use e(3) in \<open>simp_all add: lo_pair_vpn lo_of_def\<close>)
  then have ok: "tlb_ok (mmu h) ?E ((tlb_algo_hi s0)[i := la AND 0xffffe000]) ((pv s0 c)(?v := marked (pv s0 c ?v) i))"
    using i(2) by simp
  let ?s = "s1\<lparr>hw := h\<rparr>" and ?s' = "wr (pfn (frames s0 c (PDX la)), PTX la) (marked (pv s0 c ?v) i) (s1\<lparr>hw := h\<rparr>)"
  have cur: "cur_pgdir s0 = Some c" using tlb_only_fields(7) [OF s(2)] s(3) by simp
  have fin: "tlb_inv ?s' c" "tlb_only c ?s ?s'" "user_page v \<Longrightarrow> pv ?s' c v = ((pv s0 c)(?v := marked (pv s0 c ?v) i)) v" for v
    by (rule finish_entry [where g = "\<lambda>x. marked x i" and f = "(pv s0 c)(?v := marked (pv s0 c ?v) i)" and s = ?s and la = la];
        use G la cur h(2) ok s1 in \<open>auto\<close>)+
  have "tlb_only c s ?s'"
    by (rule tlb_only_trans [OF s(2)], rule tlb_only_trans [OF _ fin(2)]) (simp add: s1 tlb_only_algo)
  then show ?thesis using fin(1,3) by (intro that [OF h(1) refl]) simp_all
qed

lemma tlb_refill_pair:
  assumes inv: "tlb_inv s c" and sp: "space_ok s c" and la: "la < USERTOP"
    and e: "bit (pv s c (vpn la)) 0" "\<not> bit (pv s c (vpn la)) 7" "bit (pv s c (buddy (vpn la))) 7"
  obtains s' i where "tlb_refill s c la (pfn (frames s c (PDX la)), PTX la) = Inr s'" "i < 16" "tlb_inv s' c" "tlb_only c s s'"
    "\<And>v. user_page v \<Longrightarrow> pv s' c v = (if v = vpn la then marked (pv s c v) i else pv s c v)"
proof -
  let ?v = "vpn la" and ?f = "pv s c" and ?E = "set (take (tlb_algo_n s) (tlb_algo_empty s))"
  let ?i = "TLBIDX (?f (buddy ?v))" and ?a = "(pfn (frames s c (PDX la)), PTX la)"
  note D = tlb_invD [OF inv]
  have u: "user_page ?v" using la by (simp only: user_vpn)
  note dir = find_entry(1) [OF sp la e(1)]
  note lp = TLBPAIR_user [OF la]
  have "bit (?f (vpn (TLBPAIR la))) 7" using e(3) by (simp only: vpn_TLBPAIR)
  then obtain b where b: "find_pte s c (TLBPAIR la) = Inr (Some b)" "rd s b = ?f (buddy ?v)"
    using find_entry(1,2,4) [OF sp lp] unfolding vpn_TLBPAIR by auto
  note sl = slot_of [OF D(9) buddy(4) [OF u] e(3) refl, unfolded buddy(1)]
  let ?los = "lo_pair la (ENTRYLO (?f ?v)) (ENTRYLO (?f (buddy ?v)))"
  obtain h where h: "tlb_write s ?i (la AND 0xffffe000) ?los = Inr (s\<lparr>hw := h\<rparr>)" "cp0_wf (cp0 h)"
    "mmu h = put_slot ?i (la AND 0xffffe000) ?los (mmu (hw s))"
    using tlb_write_ok [OF D(2) tlb_okD(1) [OF D(9)] sl(1)] by blast
  have "tlb_ok (mmu h) (?E - {?i}) ((tlb_algo_hi s)[?i := of_nat (?v div 2 * 8192)]) (?f(?v := marked (?f ?v) ?i))"
    unfolding h(3) base_vpn
    by (rule mark_slot [OF D(9) u e(1,2) sl(1) D(4)]) (use e(3) in \<open>simp_all add: lo_pair_vpn lo_of_def\<close>)
  then have ok: "tlb_ok (mmu h) ?E (tlb_algo_hi s) (?f(?v := marked (?f ?v) ?i))"
    using sl(2) unfolding sl(3) [symmetric] by simp
  let ?s = "s\<lparr>hw := h\<rparr>" and ?s' = "wr ?a (marked (?f ?v) ?i) (s\<lparr>hw := h\<rparr>)"
  have run: "tlb_refill s c la ?a = Inr ?s'"
    using b e(3) h(1) rd_pv [OF dir] by (simp add: tlb_refill_def Let_def rd_def marked_def)
  note F = finish_entry [where g = "\<lambda>x. marked x ?i" and f = "?f(?v := marked (?f ?v) ?i)" and s = ?s and s' = ?s' and la = la and c = c]
  show ?thesis
    by (rule that [OF run sl(1) F(1) tlb_only_trans [OF tlb_only_algo F(2)] trans [OF F(3)]])
      (use sp la dir D h(2) ok in simp_all)
qed

lemma tlb_refill_alone:
  assumes inv: "tlb_inv s c" and sp: "space_ok s c" and la: "la < USERTOP"
    and e: "bit (pv s c (vpn la)) 0" "\<not> bit (pv s c (vpn la)) 7" "\<not> bit (pv s c (buddy (vpn la))) 7"
  obtains s' i where "tlb_refill s c la (pfn (frames s c (PDX la)), PTX la) = Inr s'" "i < 16" "tlb_inv s' c" "tlb_only c s s'"
    "pv s' c (vpn la) = marked (pv s c (vpn la)) i"
    "\<And>v. user_page v \<Longrightarrow> v \<noteq> vpn la \<Longrightarrow> pv s' c v = pv s c v \<or> pv s' c v = unmarked (pv s c v)"
proof -
  let ?v = "vpn la" and ?ehi = "la AND 0xffffe000" and ?a = "(pfn (frames s c (PDX la)), PTX la)"
  note D = tlb_invD [OF inv]
  have u: "user_page ?v" using la by (simp only: user_vpn)
  note dir = find_entry(1) [OF sp la e(1)]
  obtain s0 i where s0: "tlb_get_empty s ?ehi = Inr (s0\<lparr>tlb_algo_hi := (tlb_algo_hi s0)[i := ?ehi]\<rparr>, i)"
    "slot_given s c s0 i" "tlb_only c s s0" "pv s0 c ?v = pv s c ?v" "pv s0 c (buddy ?v) = pv s c (buddy ?v)"
    "\<And>v. user_page v \<Longrightarrow> pv s0 c v = pv s c v \<or> pv s0 c v = unmarked (pv s c v)"
  proof (cases "tlb_algo_n s = 0")
    case True
    show thesis
    proof (rule tlb_get_empty_evict [OF inv sp True, of ?ehi])
      fix s0 i k
      assume h: "tlb_get_empty s ?ehi = Inr (s0\<lparr>tlb_algo_hi := (tlb_algo_hi s0)[i := ?ehi]\<rparr>, i)" "slot_given s c s0 i"
        "tlb_only c s s0" "bit (pv s c (2 * k)) 7 \<or> bit (pv s c (2 * k + 1)) 7"
        "\<And>v. user_page v \<Longrightarrow> pv s0 c v = (if v div 2 = k then unmarked (pv s c v) else pv s c v)"
      have "k \<noteq> ?v div 2"
      proof
        assume k: "k = ?v div 2"
        have "2 * k = ?v \<or> 2 * k = buddy ?v" "2 * k + 1 = ?v \<or> 2 * k + 1 = buddy ?v"
          unfolding buddy_cases [symmetric] by (simp_all add: k)
        with h(4) e(2,3) show False by (elim disjE) simp_all
      qed
      then show thesis using u buddy(1) [of ?v] buddy(4) [OF u]
        by (intro that [OF h(1-3)]) (simp_all add: h(5))
    qed
  next
    case False
    then have "tlb_algo_n s > 0" by simp
    then show thesis by (rule tlb_get_empty_free [OF inv sp, of ?ehi]) (rule that, assumption+, simp_all)
  qed
  obtain x where x: "find_pte s c (TLBPAIR la) = Inr x" using find_entry(5) [OF sp TLBPAIR_user [OF la]] ..
  have xb: "x = Some b \<Longrightarrow> rd s b = pv s c (buddy ?v)" for b
    using x find_entry(4) [OF sp TLBPAIR_user [OF la]] by (simp add: vpn_TLBPAIR)
  have fr: "frames s0 c = frames s c" using s0(3) by (simp add: tlb_only_def)
  let ?s1 = "s0\<lparr>tlb_algo_hi := (tlb_algo_hi s0)[i := ?ehi]\<rparr>"
  obtain h s' where h: "tlb_write ?s1 i ?ehi (lo_pair la (ENTRYLO (pv s c ?v)) 0) = Inr (?s1\<lparr>hw := h\<rparr>)"
    "s' = wr ?a (marked (pv s c ?v) i) (?s1\<lparr>hw := h\<rparr>)" "tlb_inv s' c" "tlb_only c s s'"
    "\<And>v. user_page v \<Longrightarrow> pv s' c v = (if v = vpn la then marked (pv s0 c v) i else pv s0 c v)"
    by (rule tlb_refill_given [OF s0(2,3) D(1,2) tlb_okD(1) [OF D(9)] la, unfolded fr, OF dir, unfolded s0(4,5), OF e refl]) (rule that)
  let ?s = "?s1\<lparr>hw := h\<rparr>"
  have "rd ?s ?a = pv s c ?v" using rd_pv [of s0 c la] dir fr s0(4) by (simp add: rd_def)
  then have run: "tlb_refill s c la ?a = Inr s'"
    using x xb e(3) h(1,2) s0(1) rd_pv [OF dir] by (cases x) (simp_all add: tlb_refill_def Let_def marked_def)
  have "i < 16" using s0(2) by (simp add: slot_given_def)
  then show ?thesis using that [OF run _ h(3,4)] h(5) u s0(4,6) by simp
qed

lemma tlb_refill_inv:
  assumes inv: "tlb_inv s c" and sp: "space_ok s c" and la: "la < USERTOP"
    and e: "bit (pv s c (vpn la)) 0" "\<not> bit (pv s c (vpn la)) 7"
  obtains s' i where "tlb_refill s c la (pfn (frames s c (PDX la)), PTX la) = Inr s'" "i < 16" "tlb_inv s' c" "tlb_only c s s'"
    "pv s' c (vpn la) = marked (pv s c (vpn la)) i"
    "\<And>v. user_page v \<Longrightarrow> v \<noteq> vpn la \<Longrightarrow> pv s' c v = pv s c v \<or> pv s' c v = unmarked (pv s c v)"
proof (cases "bit (pv s c (buddy (vpn la))) 7")
  case True
  have u: "user_page (vpn la)" using la by (simp only: user_vpn)
  show ?thesis by (rule tlb_refill_pair [OF inv sp la e True]) (auto intro!: that simp: u)
next
  case False
  show ?thesis by (rule tlb_refill_alone [OF inv sp la e False]) (rule that)
qed

section \<open>Switching the address space\<close>

lemma tlb_init_loop_ok:
  assumes "cp0_wf (cp0 (hw s))" "mmu_wf (mmu (hw s))" "\<forall>i \<in> set is. i < 16"
  shows "\<exists>h. tlb_init_loop is s = Inr (s\<lparr>hw := h\<rparr>) \<and> cp0_wf (cp0 h) \<and> mmu_wf (mmu h) \<and>
    (\<forall>i < 16. tlb_key (mmu h) ! i = (if i \<in> set is then ENTRYHI_INVALID else tlb_key (mmu (hw s)) ! i))"
  using assms
proof (induction "is" arbitrary: s)
  case Nil
  then show ?case by (intro exI [of _ "hw s"]) simp
next
  case (Cons i "is")
  have i: "i < 16" using Cons.prems(3) by simp
  obtain g where g: "tlb_write s i ENTRYHI_INVALID (0, 0) = Inr (s\<lparr>hw := g\<rparr>)" "cp0_wf (cp0 g)"
    "mmu g = put_slot i ENTRYHI_INVALID (0, 0) (mmu (hw s))" using tlb_write_ok [OF Cons.prems(1,2) i] by blast
  have m: "mmu_wf (mmu g)" unfolding g(3) by (rule put_slot(1) [OF Cons.prems(2) i])
  obtain h where h: "tlb_init_loop is (s\<lparr>hw := g\<rparr>) = Inr (s\<lparr>hw := h\<rparr>)" "cp0_wf (cp0 h)" "mmu_wf (mmu h)"
    "\<forall>j < 16. tlb_key (mmu h) ! j = (if j \<in> set is then ENTRYHI_INVALID else tlb_key (mmu g) ! j)"
    using Cons.IH [of "s\<lparr>hw := g\<rparr>"] g(2) m Cons.prems(3) by auto
  show ?case using g(1) h put_slot(2) [OF Cons.prems(2) i] by (intro exI [of _ h]) (simp add: g(3))
qed

lemma load_pgdir_inv:
  assumes "cp0_wf (cp0 (hw s))" "mmu_wf (mmu (hw s))" "length (tlb_algo_hi s) = 16" "tlb_algo_ptr s < 16"
    and "\<And>v. user_page v \<Longrightarrow> \<not> bit (pv s c v) 7"
  obtains s' where "load_pgdir s c = Inr s'" "tlb_inv s' c" "frames s' = frames s" "vpmm s' = vpmm s"
proof -
  obtain h where h: "tlb_init_loop [0..<16] (s\<lparr>cur_pgdir := Some c\<rparr>) = Inr (s\<lparr>cur_pgdir := Some c, hw := h\<rparr>)"
    "cp0_wf (cp0 h)" "mmu_wf (mmu h)" "\<forall>i < 16. tlb_key (mmu h) ! i = ENTRYHI_INVALID"
    using tlb_init_loop_ok [of "s\<lparr>cur_pgdir := Some c\<rparr>" "[0..<16]"] assms(1,2) by auto
  let ?s = "s\<lparr>cur_pgdir := Some c, hw := h, tlb_algo_empty := [0..<16], tlb_algo_n := 16\<rparr>"
  have "tlb_ok (mmu h) {0..<16} (tlb_algo_hi s) (pv s c)" using h(3,4) assms(5) by (auto simp: tlb_ok_def)
  then have "tlb_inv ?s c" using assms(3,4) h(2) by (auto simp: tlb_inv_def)
  moreover have "load_pgdir s c = Inr ?s" using h(1) by (simp add: load_pgdir_def tlb_init_def tlb_init_callback_def)
  ultimately show ?thesis using that [of ?s] by simp
qed

lemma marked_keeps:
  assumes "i < 16"
  shows "PTE_ADDR (marked x i) = PTE_ADDR x" "bit (marked x i) 1 = bit x 1"
proof -
  have a: "PTE_ADDR y = push_bit 12 (PPN y)" for y by (simp add: PTE_ADDR_def PPN_def u32_bitwise)
  have "PPN (marked x i) = PPN x" by (rule PPN_cong) (simp add: bit_marked [OF assms])
  then show "PTE_ADDR (marked x i) = PTE_ADDR x" unfolding a by simp
  show "bit (marked x i) 1 = bit x 1" unfolding bit_marked [OF assms] by simp
qed

end
