(* ===== verification/Tlb_Coherence.thy ===== *)
theory Tlb_Coherence
  imports Tlb_Kernel
begin

unbundle bit_operations_syntax

text \<open>
  The properties of the TLB management, with the emulator's \<^verbatim>\<open>addr_translate\<close> on one side and the page table on the
  other: what the hardware translates, what invalidating and refilling change of it, and what switching the address
  space needs.
\<close>

section \<open>An address space\<close>

text \<open>Frame 4 is a page directory with one page table, frame 2; page 0 is in the TLB, page 1 is not.\<close>

definition demo_frames :: "nat \<Rightarrow> nat \<Rightarrow> u32" where
  "demo_frames p i = (if p = 4 \<and> i = 0 then 0x2007 else if p = 2 \<and> i = 0 then 0x5f87 else if p = 2 \<and> i = 1 then 0x6007 else 0)"

definition demo_vm :: vm where
  "demo_vm = \<lparr>vpmm = \<lparr>page_tab = (\<lambda>_. \<lparr>ref = 1, flags = 0, property = 0\<rparr>),
     plinks = \<lparr>prev_of = id, next_of = id\<rparr>, nr_free = 0, npage = 8\<rparr>,
     frames = demo_frames, vlinks = \<lparr>prev_of = id, next_of = id\<rparr>, pra_vaddr = (\<lambda>_. 0),
     vmas = (\<lambda>_. \<lparr>vm_mm = None, vm_start = 0, vm_end = 0, vm_flags = 0\<rparr>),
     mms = (\<lambda>_. \<lparr>mmap_cache = None, pgdir = None, map_count = 0, sm_priv = False, mm_count = 0\<rparr>),
     check_mm_struct = None, cur_pgdir = Some 4,
     hw = CPU_init (MMU_init [] [] (replicate 15 0x80000000 @ [0]) [replicate 15 0 @ [ENTRYLO 0x5f87], replicate 16 0])
       (replicate 32 0) 0 0 0,
     tlb_algo_empty = [0..<16], tlb_algo_n = 15, tlb_algo_hi = replicate 16 0, tlb_algo_ptr = 0,
     swap_init_ok = False, clean_block = 0, pgfault_num = 0\<rparr>"

lemma demo_tlb:
  "tlb_key (mmu (hw demo_vm)) = replicate 15 0x80000000 @ [0]"
  "tlb_data (mmu (hw demo_vm)) = [replicate 15 0 @ [ENTRYLO 0x5f87], replicate 16 0]"
  by (simp_all add: demo_vm_def CPU_init_def MMU_init_def)

lemma demo_pv: "pv demo_vm 4 v = (if v = 0 then 0x5f87 else if v = 1 then 0x6007 else 0)"
proof -
  have "unat (0x2007 :: u32) = 0x2007" by simp
  then have "pfn 0x2007 = 2" by (simp add: pfn_def PPN_nat)
  moreover have "v div 1024 = 0 \<Longrightarrow> v mod 1024 = v" by simp
  ultimately show ?thesis by (auto simp: pv_def demo_vm_def demo_frames_def)
qed

lemma demo_space: "space_ok demo_vm 4"
  by (auto simp: space_ok_def demo_vm_def demo_frames_def pfn_def PPN_nat)

lemma demo_inv: "tlb_inv demo_vm 4"
proof -
  have t: "TLBIDX 0x5f87 = 15" by (simp add: TLBIDX_def)
  have l: "lo_of (pv demo_vm 4 0) = ENTRYLO 0x5f87" "lo_of (pv demo_vm 4 (Suc 0)) = 0" "bit (pv demo_vm 4 0) 7"
    by (simp_all add: lo_of_def demo_pv)
  have "tlb_ok (mmu (hw demo_vm)) {0..<15} (replicate 16 0) (pv demo_vm 4)" unfolding tlb_ok_def
  proof (intro conjI allI impI)
    show "mmu_wf (mmu (hw demo_vm))" by (simp add: demo_tlb mmu_wf_def)
    fix i :: nat assume "i < 16"
    then show "if i \<in> {0..<15} then tlb_key (mmu (hw demo_vm)) ! i = ENTRYHI_INVALID
      else \<exists>k < 262144. tlb_key (mmu (hw demo_vm)) ! i = of_nat (k * 8192) \<and> replicate 16 0 ! i = (of_nat (k * 8192) :: u32) \<and>
        tlb_data (mmu (hw demo_vm)) ! 0 ! i = lo_of (pv demo_vm 4 (2 * k)) \<and>
        tlb_data (mmu (hw demo_vm)) ! 1 ! i = lo_of (pv demo_vm 4 (2 * k + 1)) \<and>
        (bit (pv demo_vm 4 (2 * k)) 7 \<or> bit (pv demo_vm 4 (2 * k + 1)) 7)"
      using l by (cases "i = 15") (auto simp: demo_tlb nth_append intro!: exI [of _ 0])
  qed (auto simp: demo_pv t split: if_splits)
  then show ?thesis by (auto simp: tlb_inv_def demo_vm_def CPU_init_def)
qed

lemmas demo_ok = demo_inv demo_space

section \<open>Properties\<close>

text \<open>
  C4. Under the invariant the hardware agrees with the current page table: a user access translates exactly when the
  entry of its page is marked \<^verbatim>\<open>TLB_P\<close> (and writable, for a store), and then to the frame the entry names; an
  unmarked page gives the TLB miss exception that \<^verbatim>\<open>tlb_miss_handler\<close> serves, a store to a read-only page the
  Modified exception.
\<close>

theorem tlb_translates_page_table:
  assumes "tlb_inv s c" "va < USERTOP"
  shows "addr_translate p (mmu (hw s)) va w e =
    (let x = pv s c (vpn va) in
     if \<not> bit x 7 then (0, True, tlb_fault (if w then Exc_TLBS else Exc_TLBL) va p)
     else if w \<and> \<not> bit x 1 then (0, True, tlb_fault Exc_Mod va p)
     else (PTE_ADDR x OR (va AND 0xfff), e, p))"
  unfolding Let_def by (rule ok_translate [OF tlb_invD(9) [OF assms(1)] assms(2) refl])

theorem tlb_translates_page_table_witness:
  "addr_translate CP0_init (mmu (hw demo_vm)) 0x123 True False = (0x5123, False, CP0_init)"
proof -
  have v: "vpn 0x123 = 0" "(0x123 :: u32) < USERTOP" by simp_all
  show ?thesis using tlb_translates_page_table [OF demo_inv v(2), of CP0_init True False] unfolding v(1)
    by (simp add: demo_pv PTE_ADDR_def Let_def)
qed

text \<open>
  \<^verbatim>\<open>tlb_invalidate\<close> of the current page directory withdraws one translation and nothing else: it succeeds, keeps
  the invariant, afterwards every access to the page misses, and every other user access behaves as before.
\<close>

theorem tlb_invalidate_withdraws:
  assumes "tlb_inv s c" "space_ok s c" "la < USERTOP"
  shows "\<exists>s'. tlb_invalidate s c la = Inr s' \<and> tlb_inv s' c \<and>
    (\<forall>va w e p. va < USERTOP \<longrightarrow> addr_translate p (mmu (hw s')) va w e =
      (if vpn va = vpn la then (0, True, tlb_fault (if w then Exc_TLBS else Exc_TLBL) va p)
       else addr_translate p (mmu (hw s)) va w e))"
proof -
  obtain s' where s': "tlb_invalidate s c la = Inr s'" "tlb_inv s' c"
    "\<And>v. user_page v \<Longrightarrow> pv s' c v = (if v = vpn la then unmarked (pv s c v) else pv s c v)"
    using tlb_invalidate_inv [OF assms] by metis
  note T = ok_translate [OF tlb_invD(9) [OF assms(1)] _ refl] and T' = ok_translate [OF tlb_invD(9) [OF s'(2)] _ refl]
  have "addr_translate p (mmu (hw s')) va w e = (if vpn va = vpn la then (0, True, tlb_fault (if w then Exc_TLBS else Exc_TLBL) va p)
       else addr_translate p (mmu (hw s)) va w e)" if va: "va < USERTOP" for va w e p
  proof -
    have "user_page (vpn va)" using va by (simp only: user_vpn)
    note s'(3) [OF this]
    then show ?thesis unfolding T [OF va] T' [OF va] by (simp add: unmarked(1))
  qed
  with s'(1,2) show ?thesis by blast
qed

theorem tlb_invalidate_withdraws_witness:
  "\<exists>s'. tlb_invalidate demo_vm 4 0x123 = Inr s' \<and> tlb_inv s' 4 \<and>
     addr_translate CP0_init (mmu (hw s')) 0x200 False False = (0, True, tlb_fault Exc_TLBL 0x200 CP0_init)"
proof -
  have v: "vpn 0x123 = vpn 0x200" "(0x123 :: u32) < USERTOP" "(0x200 :: u32) < USERTOP" by simp_all
  show ?thesis using tlb_invalidate_withdraws [OF demo_ok v(2)] v by auto
qed

text \<open>
  The refill at the end of \<^verbatim>\<open>tlb_miss_handler\<close> makes the missing page accessible as its entry says: it succeeds,
  keeps the invariant, and afterwards loads from the page (and stores, if it is writable) translate to its frame; every
  other user access behaves as before or misses, because its pair was evicted.
\<close>

theorem tlb_refill_maps:
  assumes "tlb_inv s c" "space_ok s c" "la < USERTOP" "bit (pv s c (vpn la)) 0" "\<not> bit (pv s c (vpn la)) 7"
  shows "\<exists>s'. tlb_refill s c la (pfn (frames s c (PDX la)), PTX la) = Inr s' \<and> tlb_inv s' c \<and>
    (\<forall>va w e p. va < USERTOP \<longrightarrow> (let r = addr_translate p (mmu (hw s')) va w e in
      if vpn va = vpn la
      then r = (if w \<and> \<not> bit (pv s c (vpn la)) 1 then (0, True, tlb_fault Exc_Mod va p)
                else (PTE_ADDR (pv s c (vpn la)) OR (va AND 0xfff), e, p))
      else r = addr_translate p (mmu (hw s)) va w e \<or> r = (0, True, tlb_fault (if w then Exc_TLBS else Exc_TLBL) va p)))"
proof -
  obtain s' i where s': "tlb_refill s c la (pfn (frames s c (PDX la)), PTX la) = Inr s'" "i < 16" "tlb_inv s' c"
    "pv s' c (vpn la) = marked (pv s c (vpn la)) i"
    "\<And>v. user_page v \<Longrightarrow> v \<noteq> vpn la \<Longrightarrow> pv s' c v = pv s c v \<or> pv s' c v = unmarked (pv s c v)"
    using tlb_refill_inv [OF assms] by metis
  note T = ok_translate [OF tlb_invD(9) [OF assms(1)] _ refl] and T' = ok_translate [OF tlb_invD(9) [OF s'(3)] _ refl]
  have "let r = addr_translate p (mmu (hw s')) va w e in
      if vpn va = vpn la
      then r = (if w \<and> \<not> bit (pv s c (vpn la)) 1 then (0, True, tlb_fault Exc_Mod va p)
                else (PTE_ADDR (pv s c (vpn la)) OR (va AND 0xfff), e, p))
      else r = addr_translate p (mmu (hw s)) va w e \<or> r = (0, True, tlb_fault (if w then Exc_TLBS else Exc_TLBL) va p)"
    if va: "va < USERTOP" for va w e p
  proof (cases "vpn va = vpn la")
    case True
    then show ?thesis unfolding T' [OF va] Let_def using s'(4) marked(1) [OF s'(2)] marked_keeps [OF s'(2)] by simp
  next
    case False
    have "user_page (vpn va)" using va by (simp only: user_vpn)
    from s'(5) [OF this False] show ?thesis using False unfolding T [OF va] T' [OF va] Let_def
      by (auto simp: unmarked(1))
  qed
  with s'(1,3) show ?thesis by blast
qed

theorem tlb_refill_maps_witness:
  "\<exists>s'. tlb_refill demo_vm 4 0x1000 (2, 1) = Inr s' \<and> tlb_inv s' 4 \<and>
     addr_translate CP0_init (mmu (hw s')) 0x1234 True False = (0x6234, False, CP0_init)"
proof -
  have v: "vpn 0x1000 = 1" "vpn 0x1234 = 1" "(0x1000 :: u32) < USERTOP" "(0x1234 :: u32) < USERTOP" by simp_all
  have a: "(pfn (frames demo_vm 4 (PDX 0x1000)), PTX 0x1000) = (2, 1)"
    by (simp add: demo_vm_def demo_frames_def PDX_nat PTX_nat pfn_def PPN_nat)
  have r: "(PTE_ADDR 0x6007 OR (0x1234 AND 0xfff) :: u32) = 0x6234" by (simp add: PTE_ADDR_def)
  have "bit (pv demo_vm 4 (vpn 0x1000)) 0" "\<not> bit (pv demo_vm 4 (vpn 0x1000)) 7" unfolding v(1) by (simp_all add: demo_pv)
  from tlb_refill_maps [OF demo_ok v(3) this] obtain s' where s': "tlb_refill demo_vm 4 0x1000 (2, 1) = Inr s'" "tlb_inv s' 4"
    "\<And>va w e p. va < USERTOP \<Longrightarrow> vpn va = 1 \<Longrightarrow> addr_translate p (mmu (hw s')) va w e =
       (if w \<and> \<not> bit (pv demo_vm 4 1) 1 then (0, True, tlb_fault Exc_Mod va p)
        else (PTE_ADDR (pv demo_vm 4 1) OR (va AND 0xfff), e, p))"
    unfolding a v(1) Let_def by auto
  show ?thesis using s'(1,2) s'(3) [OF v(4,2), of CP0_init True False] r by (intro exI [of _ s']) (simp add: demo_pv)
qed

text \<open>
  \<^verbatim>\<open>load_pgdir\<close> establishes the invariant when no entry of the new page table carries a mark.
\<close>

theorem load_pgdir_flushes:
  assumes "cp0_wf (cp0 (hw s))" "mmu_wf (mmu (hw s))" "length (tlb_algo_hi s) = 16" "tlb_algo_ptr s < 16"
    and "\<forall>v. user_page v \<longrightarrow> \<not> bit (pv s c v) 7"
  shows "\<exists>s'. load_pgdir s c = Inr s' \<and> tlb_inv s' c \<and> pv s' c = pv s c"
proof -
  obtain s' where "load_pgdir s c = Inr s'" "tlb_inv s' c" "frames s' = frames s"
    using load_pgdir_inv [of s c] assms by metis
  then show ?thesis by (intro exI [of _ s']) (simp add: fun_eq_iff pv_def)
qed

theorem load_pgdir_flushes_witness:
  "\<exists>s'. load_pgdir (demo_vm\<lparr>frames := \<lambda>_ _. 0\<rparr>) 4 = Inr s' \<and> tlb_inv s' 4"
proof -
  have "pv (demo_vm\<lparr>frames := \<lambda>_ _. 0\<rparr>) 4 v = 0" for v by (simp add: pv_def)
  then show ?thesis using load_pgdir_flushes [of "demo_vm\<lparr>frames := \<lambda>_ _. 0\<rparr>" 4] tlb_invD [OF demo_inv]
    tlb_okD(1) [OF tlb_invD(9) [OF demo_inv]] by auto
qed

text \<open>
  C40. It does not clear the marks of an earlier activation, and a stale mark breaks the book-keeping: after
  \<^verbatim>\<open>load_pgdir\<close>, \<^verbatim>\<open>tlb_invalidate\<close> of a page that still carries a mark (its pair not) stores behind the end of
  \<^verbatim>\<open>tlb_algo_empty\<close>.
\<close>

theorem tlb_stale_mark_overflows:
  assumes "cp0_wf (cp0 (hw s))" "mmu_wf (mmu (hw s))" "space_ok s c" "la < USERTOP"
    and "bit (pv s c (vpn la)) 7" "\<not> bit (pv s c (buddy (vpn la))) 7"
  shows "\<exists>s'. load_pgdir s c = Inr s' \<and> tlb_invalidate s' c la = Inl Out_of_bounds"
proof -
  obtain h where h: "tlb_init_loop [0..<16] (s\<lparr>cur_pgdir := Some c\<rparr>) = Inr (s\<lparr>cur_pgdir := Some c, hw := h\<rparr>)"
    using tlb_init_loop_ok [of "s\<lparr>cur_pgdir := Some c\<rparr>" "[0..<16]"] assms(1,2) by auto
  let ?s = "s\<lparr>cur_pgdir := Some c, hw := h, tlb_algo_empty := [0..<16], tlb_algo_n := 16\<rparr>"
  have sp: "space_ok ?s c" and pv: "pv ?s c = pv s c" using assms(3) by simp_all
  obtain a where a: "find_pte ?s c la = Inr (Some a)" "rd ?s a = pv s c (vpn la)"
    using find_entry(1,2,4) [OF sp assms(4)] assms(5) unfolding pv by auto
  obtain x where x: "find_pte ?s c (TLBPAIR la) = Inr x" using find_entry(5) [OF sp TLBPAIR_user [OF assms(4)]] ..
  have xb: "x = Some b \<Longrightarrow> rd ?s b = pv s c (buddy (vpn la))" for b
    using x find_entry(4) [OF sp TLBPAIR_user [OF assms(4)]] unfolding vpn_TLBPAIR pv by simp
  have "tlb_invalidate ?s c la = Inl Out_of_bounds"
    using a x xb assms(5,6) by (cases x) (simp_all add: tlb_invalidate_def tlb_del_callback_def Let_def)
  moreover have "load_pgdir s c = Inr ?s" using h by (simp add: load_pgdir_def tlb_init_def tlb_init_callback_def)
  ultimately show ?thesis by blast
qed

theorem tlb_stale_mark_overflows_witness:
  "\<exists>s'. load_pgdir demo_vm 4 = Inr s' \<and> tlb_invalidate s' 4 0 = Inl Out_of_bounds"
  using tlb_stale_mark_overflows [of demo_vm 4 0] demo_space tlb_invD(2) [OF demo_inv]
    tlb_okD(1) [OF tlb_invD(9) [OF demo_inv]] by (simp add: demo_pv buddy_def)

end
