(* ===== verification/Vm_Map.thy ===== *)
theory Vm_Map
  imports Tlb_Coherence
begin

unbundle bit_operations_syntax

text \<open>
  The page tables of a set of address spaces as maps from pages to entries: \<^verbatim>\<open>page_insert\<close> and \<^verbatim>\<open>page_remove\<close> update one
  entry of one map, count references, return a page to the allocator with its last reference and keep the TLB coherent.
\<close>

section \<open>Several address spaces\<close>

definition spaces_ok :: "vm \<Rightarrow> nat set \<Rightarrow> nat set \<Rightarrow> bool" where
  "spaces_ok s P F \<longleftrightarrow>
     finite P \<and> npage (vpmm s) \<le> 2 ^ 20 \<and>
     (\<forall>pd \<in> P. space_ok s pd \<and> space_frames s pd \<inter> F = {}) \<and>
     (\<forall>pd \<in> P. \<forall>pd' \<in> P. pd \<noteq> pd' \<longrightarrow> space_frames s pd \<inter> space_frames s pd' = {}) \<and>
     (\<forall>c. cur_pgdir s = Some c \<longrightarrow> c \<in> P \<and> tlb_inv s c)"

definition table_frames :: "vm \<Rightarrow> nat set \<Rightarrow> nat set" where
  "table_frames s P = (\<Union>pd \<in> P. space_frames s pd)"

definition mappings :: "vm \<Rightarrow> nat set \<Rightarrow> nat \<Rightarrow> (nat \<times> nat) set" where
  "mappings s P p = {(pd, v). pd \<in> P \<and> user_page v \<and> bit (pv s pd v) 0 \<and> pfn (pv s pd v) = p}"

definition maps_ok :: "vm \<Rightarrow> nat set \<Rightarrow> nat set \<Rightarrow> bool" where
  "maps_ok s P F \<longleftrightarrow>
     (\<forall>p. mappings s P p \<noteq> {} \<longrightarrow> p \<in> usable_pages (vpmm s) \<and> p \<notin> F \<and> p \<notin> table_frames s P) \<and>
     (\<forall>p. int (card (mappings s P p)) \<le> ref (page_tab (vpmm s) p))"

definition vm_ok :: "vm \<Rightarrow> nat set \<Rightarrow> nat set \<Rightarrow> bool" where
  "vm_ok s P F \<longleftrightarrow> spaces_ok s P F \<and> free_frames (vpmm s) F \<and> maps_ok s P F"

lemma spaces_okD:
  assumes "spaces_ok s P F"
  shows "finite P" "npage (vpmm s) \<le> 2 ^ 20" "pd \<in> P \<Longrightarrow> space_ok s pd" "pd \<in> P \<Longrightarrow> space_frames s pd \<inter> F = {}"
    "pd \<in> P \<Longrightarrow> pd' \<in> P \<Longrightarrow> pd \<noteq> pd' \<Longrightarrow> space_frames s pd \<inter> space_frames s pd' = {}"
    "cur_pgdir s = Some c \<Longrightarrow> c \<in> P" "cur_pgdir s = Some c \<Longrightarrow> tlb_inv s c"
  using assms unfolding spaces_ok_def by blast+

lemma finite_mappings: "finite P \<Longrightarrow> finite (mappings s P p)"
  by (rule finite_subset [of _ "P \<times> {..<524288}"]) (auto simp: mappings_def)

text \<open>An unmarked entry may be replaced by an unmarked one without touching the TLB.\<close>

lemma tlb_ok_unmarked:
  assumes ok: "tlb_ok m E H f" and v: "\<not> bit (f v) 7" "\<not> bit x 7"
  shows "tlb_ok m E H (f(v := x))"
  unfolding tlb_ok_def
proof (intro conjI allI impI)
  note D = tlb_okD [OF ok]
  have lo: "lo_of ((f(v := x)) w) = lo_of (f w)" "bit ((f(v := x)) w) 7 = bit (f w) 7" for w using v by (simp_all add: lo_of_def)
  show "mmu_wf m" by (rule D(1))
  show "if i \<in> E then tlb_key m ! i = ENTRYHI_INVALID
    else \<exists>k < 262144. tlb_key m ! i = of_nat (k * 8192) \<and> H ! i = of_nat (k * 8192) \<and>
      tlb_data m ! 0 ! i = lo_of ((f(v := x)) (2 * k)) \<and> tlb_data m ! 1 ! i = lo_of ((f(v := x)) (2 * k + 1)) \<and>
      (bit ((f(v := x)) (2 * k)) 7 \<or> bit ((f(v := x)) (2 * k + 1)) 7)" if "i < 16" for i
    using D(2,3) [OF that] unfolding lo by (cases "i \<in> E") (simp_all only: if_True if_False simp_thms)
  show "\<And>i j. i < 16 \<Longrightarrow> j < 16 \<Longrightarrow> i \<notin> E \<Longrightarrow> j \<notin> E \<Longrightarrow> H ! i = H ! j \<Longrightarrow> i = j" by (rule D(4))
  fix w assume w: "user_page w" "bit ((f(v := x)) w) 7"
  then have "w \<noteq> v" "bit (f w) 7" using v by (auto split: if_splits)
  with D(5) [OF w(1)] show "bit ((f(v := x)) w) 0" "TLBIDX ((f(v := x)) w) \<notin> E" "H ! TLBIDX ((f(v := x)) w) = of_nat (w div 2 * 8192)"
    by simp_all
qed

lemma tlb_inv_cong:
  assumes "tlb_inv s c" "hw s' = hw s" "cur_pgdir s' = cur_pgdir s" "tlb_algo_empty s' = tlb_algo_empty s"
    "tlb_algo_n s' = tlb_algo_n s" "tlb_algo_hi s' = tlb_algo_hi s" "tlb_algo_ptr s' = tlb_algo_ptr s"
    "\<And>v. user_page v \<Longrightarrow> pv s' c v = pv s c v"
  shows "tlb_inv s' c"
  using assms(1-7) tlb_ok_cong [OF tlb_invD(9) [OF assms(1)] assms(8)] by (simp add: tlb_inv_def)

lemma tlb_inv_unmarked:
  assumes "tlb_inv s c" "hw s' = hw s" "cur_pgdir s' = cur_pgdir s" "tlb_algo_empty s' = tlb_algo_empty s"
    "tlb_algo_n s' = tlb_algo_n s" "tlb_algo_hi s' = tlb_algo_hi s" "tlb_algo_ptr s' = tlb_algo_ptr s"
    "\<And>w. user_page w \<Longrightarrow> pv s' c w = ((pv s c)(v := x)) w" "\<not> bit (pv s c v) 7" "\<not> bit x 7"
  shows "tlb_inv s' c"
  using assms(1-7) tlb_ok_cong [OF tlb_ok_unmarked [OF tlb_invD(9) [OF assms(1)] assms(9,10)] assms(8)]
  by (simp add: tlb_inv_def)

text \<open>Everything but the tables, the allocator and the TLB.\<close>

definition rest_same :: "vm \<Rightarrow> vm \<Rightarrow> bool" where
  "rest_same s s' \<longleftrightarrow> vlinks s' = vlinks s \<and> pra_vaddr s' = pra_vaddr s \<and> vmas s' = vmas s \<and> mms s' = mms s \<and>
     check_mm_struct s' = check_mm_struct s \<and> cur_pgdir s' = cur_pgdir s \<and> swap_init_ok s' = swap_init_ok s \<and>
     clean_block s' = clean_block s \<and> pgfault_num s' = pgfault_num s"

lemma rest_same_trans: "rest_same s s' \<Longrightarrow> rest_same s' s'' \<Longrightarrow> rest_same s s''"
  by (simp add: rest_same_def)

lemma rest_same_steps [simp]: "rest_same s s" "rest_same s (s\<lparr>vpmm := m\<rparr>)" "rest_same s (s\<lparr>vpmm := m, frames := f\<rparr>)"
  "tlb_only pd s s' \<Longrightarrow> rest_same s s'" "tlb_only pd (s\<lparr>vpmm := m\<rparr>) s' \<Longrightarrow> rest_same s s'"
  by (simp_all add: rest_same_def tlb_only_def)

section \<open>Writing one entry\<close>

text \<open>What does not touch the tables of an address space leaves it alone.\<close>

lemma space_other_frames:
  assumes ok: "spaces_ok s P F" and pd: "pd \<in> P" "pd' \<in> P" "pd' \<noteq> pd"
    and fr: "\<forall>f. f \<notin> space_frames s pd \<longrightarrow> frames s' f = frames s f" "npage (vpmm s') = npage (vpmm s)"
  shows "space_ok s' pd'" "space_frames s' pd' = space_frames s pd'" "user_page v \<Longrightarrow> pv s' pd' v = pv s pd' v"
proof -
  have "frames s' f = frames s f" if "f \<in> space_frames s pd'" for f
    using spaces_okD(5) [OF ok pd(1,2)] pd(3) that fr(1) by auto
  note O = space_other [OF this fr(2)]
  show "space_ok s' pd'" using O(1) spaces_okD(3) [OF ok pd(2)] by simp
  show "space_frames s' pd' = space_frames s pd'" by (rule O(2))
  show "user_page v \<Longrightarrow> pv s' pd' v = pv s pd' v" by (rule O(3))
qed

lemma wr_frames_other: "f \<noteq> fst a \<Longrightarrow> frames (wr a x s) f = frames s f"
  by (rule ext, cases a) (simp add: frames_wr)

lemma spaces_wr:
  assumes ok: "spaces_ok s P F" and pd: "pd \<in> P" and la: "la < USERTOP" "bit (frames s pd (PDX la)) 0"
    and m: "cur_pgdir s = Some pd \<Longrightarrow> \<not> bit (pv s pd (vpn la)) 7 \<and> \<not> bit x 7"
    and s': "s' = wr (pfn (frames s pd (PDX la)), PTX la) x s"
  shows "spaces_ok s' P F"
    "pd' \<in> P \<Longrightarrow> user_page v \<Longrightarrow> pv s' pd' v = (if pd' = pd \<and> v = vpn la then x else pv s pd' v)"
    "pd' \<in> P \<Longrightarrow> space_frames s' pd' = space_frames s pd'"
proof -
  note sp = spaces_okD(3) [OF ok pd]
  note W = wr_entry [where f = "\<lambda>_. x", OF sp la refl s']
  have fr: "\<forall>f. f \<notin> space_frames s pd \<longrightarrow> frames s' f = frames s f" using W(2) by (simp add: tlb_only_def)
  have np: "npage (vpmm s') = npage (vpmm s)" unfolding s' by simp
  note O = space_other_frames [OF ok pd _ _ fr np]
  have same: "space_frames s' pd' = space_frames s pd'" if "pd' \<in> P" for pd'
    using O(2) [OF that] tlb_only_dir [OF W(2)] by (cases "pd' = pd") auto
  have val: "pv s' pd' v = (if pd' = pd \<and> v = vpn la then x else pv s pd' v)" if "pd' \<in> P" "user_page v" for pd' v
    using O(3) [OF that(1) _ that(2)] W(3) [OF that(2)] by (cases "pd' = pd") auto
  have sok: "space_ok s' pd'" if "pd' \<in> P" for pd' using O(1) [OF that] W(1) by (cases "pd' = pd") auto
  have tlb: "c \<in> P \<and> tlb_inv s' c" if c: "cur_pgdir s' = Some c" for c
  proof -
    have c': "cur_pgdir s = Some c" using c unfolding s' by simp
    note i = spaces_okD(6,7) [OF ok c']
    have "tlb_inv s' c"
    proof (cases "c = pd")
      case True
      show ?thesis unfolding True
        by (rule tlb_inv_unmarked [where v = "vpn la" and x = x and s = s])
          (use i m c' val [OF pd] in \<open>simp_all add: True, simp_all add: s'\<close>)
    next
      case False
      show ?thesis by (rule tlb_inv_cong [OF i(2)]) (use val [OF i(1)] False in \<open>simp_all, simp_all add: s'\<close>)
    qed
    with i(1) show ?thesis ..
  qed
  show "spaces_ok s' P F" using ok np sok tlb same unfolding spaces_ok_def by simp
  show "pd' \<in> P \<Longrightarrow> user_page v \<Longrightarrow> pv s' pd' v = (if pd' = pd \<and> v = vpn la then x else pv s pd' v)" by (rule val)
  show "pd' \<in> P \<Longrightarrow> space_frames s' pd' = space_frames s pd'" by (rule same)
qed

lemma spaces_invalidate:
  assumes ok: "spaces_ok s P F" and pd: "pd \<in> P" and la: "la < USERTOP"
  obtains s' where "tlb_invalidate s pd la = Inr s'" "spaces_ok s' P F" "tlb_only pd s s'"
    "\<And>pd' v. pd' \<in> P \<Longrightarrow> user_page v \<Longrightarrow>
       pv s' pd' v = (if pd' = pd \<and> v = vpn la \<and> cur_pgdir s = Some pd then unmarked (pv s pd' v) else pv s pd' v)"
    "\<And>pd'. pd' \<in> P \<Longrightarrow> space_frames s' pd' = space_frames s pd'"
proof (cases "cur_pgdir s = Some pd")
  case False
  then have "tlb_invalidate s pd la = Inr s" by (auto simp: tlb_invalidate_def)
  then show ?thesis using that [of s] ok tlb_only_refl False by simp
next
  case True
  note sp = spaces_okD(3) [OF ok pd]
  obtain s' where s': "tlb_invalidate s pd la = Inr s'" "tlb_inv s' pd" "tlb_only pd s s'"
    "\<And>v. user_page v \<Longrightarrow> pv s' pd v = (if v = vpn la then unmarked (pv s pd v) else pv s pd v)"
    using tlb_invalidate_inv [OF spaces_okD(7) [OF ok True] sp la] by metis
  have fr: "\<forall>f. f \<notin> space_frames s pd \<longrightarrow> frames s' f = frames s f" and np: "npage (vpmm s') = npage (vpmm s)"
    using s'(3) by (simp_all add: tlb_only_def)
  note O = space_other_frames [OF ok pd _ _ fr np]
  have sf: "space_frames s' pd' = space_frames s pd'" if "pd' \<in> P" for pd'
    using O(2) [OF that] tlb_only_dir [OF s'(3)] by (cases "pd' = pd") auto
  have sok: "space_ok s' pd'" if "pd' \<in> P" for pd'
    using O(1) [OF that] tlb_only_space [OF s'(3)] sp by (cases "pd' = pd") auto
  have "spaces_ok s' P F"
    using ok np sok sf s'(2) True pd tlb_only_fields(7) [OF s'(3)] unfolding spaces_ok_def by simp
  moreover have "pv s' pd' v = (if pd' = pd \<and> v = vpn la \<and> cur_pgdir s = Some pd then unmarked (pv s pd' v) else pv s pd' v)"
    if "pd' \<in> P" "user_page v" for pd' v
    using O(3) [OF that(1) _ that(2)] s'(4) [OF that(2)] True by (cases "pd' = pd") auto
  ultimately show ?thesis using that [OF s'(1) _ s'(3)] sf by blast
qed

text \<open>Allocator and reference counts do not matter to the tables.\<close>

lemma vpmm_only [simp]:
  "pv (s\<lparr>vpmm := m\<rparr>) = pv s" "space_frames (s\<lparr>vpmm := m\<rparr>) = space_frames s"
  "pv (upd_pmm g s) = pv s" "space_frames (upd_pmm g s) = space_frames s"
  by (simp_all add: fun_eq_iff pv_def space_frames_def)

lemma vpmm_only_tlb [simp]: "tlb_inv (s\<lparr>vpmm := m\<rparr>) c = tlb_inv s c" "tlb_inv (upd_pmm g s) c = tlb_inv s c"
  by (simp_all add: tlb_inv_def)

lemma vpmm_only_space [simp]:
  "npage m = npage (vpmm s) \<Longrightarrow> space_ok (s\<lparr>vpmm := m\<rparr>) = space_ok s"
  "npage (g (vpmm s)) = npage (vpmm s) \<Longrightarrow> space_ok (upd_pmm g s) = space_ok s"
  by (simp_all add: fun_eq_iff space_ok_def)

lemma spaces_pmm:
  assumes "spaces_ok s P F" "npage m = npage (vpmm s)" "F' \<subseteq> F \<union> (- table_frames s P)"
  shows "spaces_ok (s\<lparr>vpmm := m\<rparr>) P F'"
proof -
  have "space_frames s pd \<inter> F' = {}" if "pd \<in> P" for pd
    using assms(3) spaces_okD(4) [OF assms(1) that] that by (auto simp: table_frames_def)
  then show ?thesis using assms(1,2) unfolding spaces_ok_def by simp
qed

lemma pte2page_ok:
  "bit x 0 \<Longrightarrow> pfn x < npage (vpmm s) \<Longrightarrow> pte2page s x = Inr (pfn x)"
  by (simp add: pte2page_def pa2page_def pfn_def)

text \<open>The references that a change of one entry may need.\<close>

lemma mappings_set:
  assumes e: "\<And>pd' v. pd' \<in> P \<Longrightarrow> user_page v \<Longrightarrow> (pd', v) \<noteq> (pd, w) \<Longrightarrow> bit (pv s' pd' v) 0 = bit (pv s pd' v) 0"
    "\<And>pd' v. pd' \<in> P \<Longrightarrow> user_page v \<Longrightarrow> (pd', v) \<noteq> (pd, w) \<Longrightarrow> pfn (pv s' pd' v) = pfn (pv s pd' v)"
    and w: "pd \<in> P" "user_page w"
  shows "mappings s' P p =
    (if bit (pv s' pd w) 0 \<and> pfn (pv s' pd w) = p then insert (pd, w) (mappings s P p) else mappings s P p - {(pd, w)})"
proof (rule set_eqI)
  fix x :: "nat \<times> nat"
  obtain a b where x: "x = (a, b)" by (cases x)
  show "x \<in> mappings s' P p \<longleftrightarrow> x \<in> (if bit (pv s' pd w) 0 \<and> pfn (pv s' pd w) = p
    then insert (pd, w) (mappings s P p) else mappings s P p - {(pd, w)})"
  proof (cases "x = (pd, w)")
    case True
    then show ?thesis using w by (auto simp: mappings_def)
  next
    case False
    then show ?thesis using e [of a b] unfolding x mappings_def by auto
  qed
qed

section \<open>Removing a mapping\<close>

text \<open>The tail of both operations: the entry is withdrawn from the TLB and written.\<close>

lemma replace_entry:
  assumes ok: "spaces_ok s P F" and pd: "pd \<in> P" and la: "la < USERTOP" "bit (frames s pd (PDX la)) 0"
    and x: "\<not> bit x 7"
  obtains s1 s' where "tlb_invalidate s pd la = Inr s1" "s' = wr (pfn (frames s pd (PDX la)), PTX la) x s1"
    "spaces_ok s' P F" "tlb_only pd s s'"
    "\<And>pd' v. pd' \<in> P \<Longrightarrow> user_page v \<Longrightarrow> pv s' pd' v = (if pd' = pd \<and> v = vpn la then x else pv s pd' v)"
    "\<And>pd'. pd' \<in> P \<Longrightarrow> space_frames s' pd' = space_frames s pd'"
proof -
  have u: "user_page (vpn la)" using la(1) by (simp only: user_vpn)
  obtain s1 where s1: "tlb_invalidate s pd la = Inr s1" "spaces_ok s1 P F" "tlb_only pd s s1"
    "\<And>pd' v. pd' \<in> P \<Longrightarrow> user_page v \<Longrightarrow>
       pv s1 pd' v = (if pd' = pd \<and> v = vpn la \<and> cur_pgdir s = Some pd then unmarked (pv s pd' v) else pv s pd' v)"
    "\<And>pd'. pd' \<in> P \<Longrightarrow> space_frames s1 pd' = space_frames s pd'"
    by (rule spaces_invalidate [OF ok pd la(1)]) (rule that)
  have dir: "frames s1 pd = frames s pd" using s1(3) by (simp add: tlb_only_def)
  have m: "\<not> bit (pv s1 pd (vpn la)) 7" if "cur_pgdir s1 = Some pd"
    using s1(4) [OF pd u] that tlb_only_fields(7) [OF s1(3)] unmarked(1) by auto
  note W = spaces_wr [OF s1(2) pd la(1), unfolded dir, OF la(2) _ refl, of x]
  note T = tlb_only_wr [OF spaces_okD(3) [OF s1(2) pd] PDX_user [OF la(1)], unfolded dir, OF la(2)]
  show ?thesis
    by (rule that [OF s1(1) refl W(1) tlb_only_trans [OF s1(3) T]]) (use m x W(2,3) s1(4,5) in auto)
qed

lemma page_ref_ops [simp]:
  "page_ref_dec p s = s\<lparr>vpmm := upd_page p (\<lambda>g. g\<lparr>ref := ref g - 1\<rparr>) (vpmm s)\<rparr>"
  "page_ref_inc p s = s\<lparr>vpmm := upd_page p (\<lambda>g. g\<lparr>ref := ref g + 1\<rparr>) (vpmm s)\<rparr>"
  by (simp_all add: page_ref_dec_def page_ref_inc_def upd_pmm_def)

lemma ref_upd [simp]:
  "ref (page_tab (upd_page p (\<lambda>g. g\<lparr>ref := h g\<rparr>) m) q) = (if q = p then h (page_tab m p) else ref (page_tab m q))"
  "flags (page_tab (upd_page p (\<lambda>g. g\<lparr>ref := h g\<rparr>) m) q) = flags (page_tab m q)"
  "property (page_tab (upd_page p (\<lambda>g. g\<lparr>ref := h g\<rparr>) m) q) = property (page_tab m q)"
  "npage (upd_page p g m) = npage m" "plinks (upd_page p g m) = plinks m" "nr_free (upd_page p g m) = nr_free m"
  by (simp_all add: upd_page_def)

lemma usable_ref [simp]: "usable_pages (upd_page p (\<lambda>g. g\<lparr>ref := h g\<rparr>) m) = usable_pages m"
  unfolding usable_pages_def PageReserved_def ref_upd ..

lemma free_frames_ref [simp]: "free_frames (upd_page p (\<lambda>g. g\<lparr>ref := h g\<rparr>) m) F = free_frames m F"
  unfolding free_frames_def pmm_inv_def blocks_inv_def ref_upd ..

lemma vm_okD:
  assumes "vm_ok s P F"
  shows "spaces_ok s P F" "free_frames (vpmm s) F" "maps_ok s P F"
  using assms by (simp_all add: vm_ok_def)

lemma maps_okD:
  assumes "maps_ok s P F" "pd \<in> P" "user_page v" "bit (pv s pd v) 0"
  shows "pfn (pv s pd v) \<in> usable_pages (vpmm s)" "pfn (pv s pd v) \<notin> F" "pfn (pv s pd v) \<notin> table_frames s P"
    "(pd, v) \<in> mappings s P (pfn (pv s pd v))"
proof -
  show m: "(pd, v) \<in> mappings s P (pfn (pv s pd v))" using assms(2-4) by (simp add: mappings_def)
  then show "pfn (pv s pd v) \<in> usable_pages (vpmm s)" "pfn (pv s pd v) \<notin> F" "pfn (pv s pd v) \<notin> table_frames s P"
    using assms(1) unfolding maps_ok_def by blast+
qed

lemma usable_npage: "p \<in> usable_pages m \<Longrightarrow> p < npage m"
  by (simp add: usable_pages_def)

lemma free_frames_less: "free_frames m F \<Longrightarrow> p \<in> F \<Longrightarrow> p < npage m"
  by (auto simp: free_frames_def pmm_inv_def blocks_inv_def block_pages_def)
    (metis fst_conv le_trans less_le_trans nat_less_le)

text \<open>Releasing one reference of a page: the last one frees it.\<close>

lemma release_page:
  assumes "free_frames m F" "p \<in> usable_pages m" "p \<notin> F"
  obtains m' where "(if ref (page_tab (upd_page p (\<lambda>g. g\<lparr>ref := ref g - 1\<rparr>) m) p) = 0
      then free_pages (s\<lparr>vpmm := upd_page p (\<lambda>g. g\<lparr>ref := ref g - 1\<rparr>) m\<rparr>) p 1
      else Inr (s\<lparr>vpmm := upd_page p (\<lambda>g. g\<lparr>ref := ref g - 1\<rparr>) m\<rparr>)) = Inr (s\<lparr>vpmm := m'\<rparr>)"
    "free_frames m' (if ref (page_tab m p) = 1 then insert p F else F)" "usable_pages m' = usable_pages m" "npage m' = npage m"
    "\<And>q. ref (page_tab m' q) = ref (page_tab m q) - (if q = p then 1 else 0)"
proof (cases "ref (page_tab m p) = 1")
  case True
  let ?m = "upd_page p (\<lambda>g. g\<lparr>ref := ref g - 1\<rparr>) m"
  obtain m' where "default_free_pages ?m p 1 = Inr m'" "free_frames m' (insert p F)" "usable_pages m' = usable_pages ?m"
    "npage m' = npage ?m" "\<forall>x. ref (page_tab m' x) = (if x = p then 0 else ref (page_tab ?m x))"
    using free_page_ok [of ?m F p] assms by auto
  then show ?thesis using True by (intro that [of m']) (simp_all add: free_pages_def)
next
  case False
  then show ?thesis using assms by (intro that [of "upd_page p (\<lambda>g. g\<lparr>ref := ref g - 1\<rparr>) m"]) simp_all
qed

lemma page_remove_pte_ok:
  assumes ok: "vm_ok s P F" and pd: "pd \<in> P" and la: "la < USERTOP" "bit (frames s pd (PDX la)) 0"
    and e: "bit (pv s pd (vpn la)) 0" "p = pfn (pv s pd (vpn la))" "F' = (if ref (page_tab (vpmm s) p) = 1 then insert p F else F)"
  obtains s' where "page_remove_pte s pd la (pfn (frames s pd (PDX la)), PTX la) = Inr s'" "vm_ok s' P F'"
    "tlb_only pd (s\<lparr>vpmm := vpmm s'\<rparr>) s'" "usable_pages (vpmm s') = usable_pages (vpmm s)"
    "\<And>pd' v. pd' \<in> P \<Longrightarrow> user_page v \<Longrightarrow> pv s' pd' v = (if pd' = pd \<and> v = vpn la then 0 else pv s pd' v)"
    "\<And>q. ref (page_tab (vpmm s') q) = ref (page_tab (vpmm s) q) - (if q = p then 1 else 0)"
    "table_frames s' P = table_frames s P"
proof -
  let ?a = "(pfn (frames s pd (PDX la)), PTX la)" and ?M = "mappings s P"
  note D = vm_okD [OF ok]
  have u: "user_page (vpn la)" using la(1) by (simp only: user_vpn)
  note m = maps_okD [OF D(3) pd u e(1), folded e(2)]
  obtain m' where m': "(if ref (page_tab (upd_page p (\<lambda>g. g\<lparr>ref := ref g - 1\<rparr>) (vpmm s)) p) = 0
      then free_pages (s\<lparr>vpmm := upd_page p (\<lambda>g. g\<lparr>ref := ref g - 1\<rparr>) (vpmm s)\<rparr>) p 1
      else Inr (s\<lparr>vpmm := upd_page p (\<lambda>g. g\<lparr>ref := ref g - 1\<rparr>) (vpmm s)\<rparr>)) = Inr (s\<lparr>vpmm := m'\<rparr>)"
    "free_frames m' F'" "usable_pages m' = usable_pages (vpmm s)" "npage m' = npage (vpmm s)"
    "\<And>q. ref (page_tab m' q) = ref (page_tab (vpmm s) q) - (if q = p then 1 else 0)"
    using e(3) by (rule_tac release_page [OF D(2) m(1,2), of s]) (simp only:)
  have F': "F' \<subseteq> F \<union> - table_frames s P" using m(3) e(3) by auto
  note S = spaces_pmm [OF D(1) m'(4) F']
  have la': "bit (frames (s\<lparr>vpmm := m'\<rparr>) pd (PDX la)) 0" using la(2) by simp
  obtain s1 s' where s': "tlb_invalidate (s\<lparr>vpmm := m'\<rparr>) pd la = Inr s1" "s' = wr ?a 0 s1"
    "spaces_ok s' P F'" "tlb_only pd (s\<lparr>vpmm := m'\<rparr>) s'"
    "\<And>pd' v. pd' \<in> P \<Longrightarrow> user_page v \<Longrightarrow> pv s' pd' v = (if pd' = pd \<and> v = vpn la then 0 else pv s pd' v)"
    "\<And>pd'. pd' \<in> P \<Longrightarrow> space_frames s' pd' = space_frames s pd'"
    by (rule replace_entry [OF S pd la(1) la', of 0]) (simp_all add: that)
  have v': "vpmm s' = m'" using tlb_only_fields(1) [OF s'(4)] by simp
  have tf: "table_frames s' P = table_frames s P" using s'(6) by (simp add: table_frames_def)
  have M: "mappings s' P q = ?M q - {(pd, vpn la)}" for q
    by (subst mappings_set [where s = s and pd = pd and w = "vpn la"]) (use s'(5) pd u in auto)
  have "maps_ok s' P F'" unfolding maps_ok_def
  proof (intro conjI allI impI)
    fix q
    have fin: "finite (?M q)" by (rule finite_mappings [OF spaces_okD(1) [OF D(1)]])
    have c: "int (card (?M q)) \<le> ref (page_tab (vpmm s) q)" using D(3) by (simp add: maps_ok_def)
    have c': "card (mappings s' P q) = card (?M q) - (if q = p then 1 else 0)"
      unfolding M using m(4) fin e(2) by (auto simp: mappings_def)
    show "int (card (mappings s' P q)) \<le> ref (page_tab (vpmm s') q)"
      using c c' m(4) fin card_gt_0_iff [of "?M q"] by (auto simp: v' m'(5))
    assume ne: "mappings s' P q \<noteq> {}"
    then have "?M q \<noteq> {}" unfolding M by blast
    then have q: "q \<in> usable_pages (vpmm s)" "q \<notin> F" "q \<notin> table_frames s P" using D(3) unfolding maps_ok_def by blast+
    show "q \<in> usable_pages (vpmm s')" "q \<notin> table_frames s' P" using q by (simp_all add: v' m'(3) tf)
    show "q \<notin> F'"
    proof
      assume "q \<in> F'"
      then have "q = p" "ref (page_tab (vpmm s) p) = 1" using q(2) e(3) by (auto split: if_splits)
      then have "card (mappings s' P q) = 0" using c c' by simp
      then show False using ne fin M by (simp add: card_eq_0_iff)
    qed
  qed
  then have "vm_ok s' P F'" using s'(3) m'(2) by (simp add: vm_ok_def v')
  moreover have "page_remove_pte s pd la ?a = Inr s'"
    using e(1,2) rd_pv [OF la(2)] m'(1) [unfolded e(2)] s'(1,2) pte2page_ok [OF e(1)] usable_npage [OF m(1)]
    by (simp add: page_remove_pte_def page_ref_def word_gt_0 Let_def)
  ultimately show ?thesis using that s'(4,5) m'(3,5) tf by (simp add: v')
qed

section \<open>A new page table\<close>

lemma new_table:
  assumes ok: "spaces_ok s P F" and pd: "pd \<in> P" and i: "i < 512" "\<not> bit (frames s pd i) 0"
    and f: "f \<in> F" "f < npage (vpmm s)" and e: "bit e 0" "pfn e = f"
    and s': "s' = s\<lparr>vpmm := m, frames := (\<lambda>p j. if p = f then 0 else if p = pd \<and> j = i then e else frames s p j)\<rparr>"
    and m: "npage m = npage (vpmm s)"
  shows "spaces_ok s' P (F - {f})" "table_frames s' P = insert f (table_frames s P)"
    "pd' \<in> P \<Longrightarrow> user_page v \<Longrightarrow> pv s' pd' v = pv s pd' v"
proof -
  note sp = spaces_okD(3) [OF ok pd]
  have nf: "f \<notin> space_frames s pd'" if "pd' \<in> P" for pd' using spaces_okD(4) [OF ok that] f(1) by blast
  then have fpd: "f \<noteq> pd'" if "pd' \<in> P" for pd' using that by (auto simp: space_frames_def)
  have dir: "frames s' pd j = (if j = i then e else frames s pd j)" for j using fpd [OF pd] by (simp add: s')
  have other: "pfn (frames s pd j) \<noteq> f" if "j < 512" "bit (frames s pd j) 0" for j
    using nf [OF pd] that by (auto simp: space_frames_def)
  have np: "npage (vpmm s') = npage (vpmm s)" by (simp add: s' m)
  have sf: "space_frames s' pd = insert f (space_frames s pd)"
    unfolding space_frames_def dir using i e by (auto split: if_splits)
  have sok: "space_ok s' pd" unfolding space_ok_def np dir
    using sp [unfolded space_ok_def] other e f(2) fpd [OF pd] by (auto dest: sym [of f] other)
  have val: "pv s' pd v = pv s pd v" if v: "user_page v" for v
  proof (cases "v div 1024 = i")
    case True
    then show ?thesis using e i(2) by (simp add: pv_def dir s')
  next
    case False
    have j: "v div 1024 < 512" using v by (simp add: div_less_iff_less_mult)
    have "pfn (frames s pd (v div 1024)) \<noteq> pd" "pfn (frames s pd (v div 1024)) \<noteq> f" if "bit (frames s pd (v div 1024)) 0"
      using sp other [OF j that] j that by (auto simp: space_ok_def)
    then show ?thesis using False unfolding pv_def dir by (simp add: s')
  qed
  have fr: "frames s' g = frames s g" if "pd' \<in> P" "pd' \<noteq> pd" "g \<in> space_frames s pd'" for g pd'
  proof -
    have "pd \<in> space_frames s pd" by (simp add: space_frames_def)
    then have "g \<noteq> pd" "g \<noteq> f" using spaces_okD(5) [OF ok that(1) pd that(2)] that(3) nf [OF that(1)] by auto
    then show ?thesis by (simp add: s' fun_eq_iff)
  qed
  note O = space_other [OF fr np]
  have all: "space_ok s' pd'" "space_frames s' pd' = (if pd' = pd then insert f (space_frames s pd) else space_frames s pd')"
    "user_page v \<Longrightarrow> pv s' pd' v = pv s pd' v" if "pd' \<in> P" for pd' v
    using O(1) [OF that] O(2) [OF that] O(3) [OF that] sok sf val spaces_okD(3) [OF ok that] that by (cases "pd' = pd"; simp)+
  show "pd' \<in> P \<Longrightarrow> user_page v \<Longrightarrow> pv s' pd' v = pv s pd' v" by (rule all(3))
  show "table_frames s' P = insert f (table_frames s P)" using all(2) pd by (auto simp: table_frames_def)
  have tlb: "c \<in> P \<and> tlb_inv s' c" if c: "cur_pgdir s' = Some c" for c
  proof -
    have c': "cur_pgdir s = Some c" using c by (simp add: s')
    have "tlb_inv s' c" by (rule tlb_inv_cong [OF spaces_okD(7) [OF ok c']]) (use all(3) [OF spaces_okD(6) [OF ok c']] in \<open>simp_all add: s'\<close>)
    with spaces_okD(6) [OF ok c'] show ?thesis ..
  qed
  have dj: "space_frames s' pd1 \<inter> space_frames s' pd2 = {}" if "pd1 \<in> P" "pd2 \<in> P" "pd1 \<noteq> pd2" for pd1 pd2
    using spaces_okD(5) [OF ok that] nf that by (auto simp: all(2))
  have df: "space_frames s' pd' \<inter> (F - {f}) = {}" if "pd' \<in> P" for pd'
    using spaces_okD(4) [OF ok that] spaces_okD(4) [OF ok pd] by (auto simp: all(2) [OF that])
  show "spaces_ok s' P (F - {f})" unfolding spaces_ok_def using spaces_okD(1,2) [OF ok] np all(1) df dj tlb by simp
qed

lemma get_pte_create:
  assumes ok: "vm_ok s P F" and pd: "pd \<in> P" and la: "la < USERTOP" and F: "bit (frames s pd (PDX la)) 0 \<or> F \<noteq> {}"
  obtains s' F' where "get_pte s pd la True = Inr (s', Some (pfn (frames s' pd (PDX la)), PTX la))" "vm_ok s' P F'"
    "bit (frames s' pd (PDX la)) 0" "F' \<subseteq> F" "table_frames s' P = table_frames s P \<union> (F - F')"
    "usable_pages (vpmm s') = usable_pages (vpmm s)" "\<And>q. q \<notin> F \<Longrightarrow> ref (page_tab (vpmm s') q) = ref (page_tab (vpmm s) q)"
    "\<And>pd' v. pd' \<in> P \<Longrightarrow> user_page v \<Longrightarrow> pv s' pd' v = pv s pd' v" "rest_same s s'"
    "\<exists>f. F - {f} \<subseteq> F'"
proof (cases "bit (frames s pd (PDX la)) 0")
  case True
  note f = find_pte_eq [OF spaces_okD(3) [OF vm_okD(1) [OF ok] pd] la]
  have "pte_at s pd la = Inr (pfn (frames s pd (PDX la)), PTX la)"
    using f True by (auto simp: find_pte_def bindE_Inr_iff)
  then have "get_pte s pd la True = Inr (s, Some (pfn (frames s pd (PDX la)), PTX la))" using True by (simp add: get_pte_def)
  then show ?thesis using that [of s F] True ok by simp
next
  case False
  note D = vm_okD [OF ok]
  obtain m f where m: "alloc_pages s 1 = Inr (s\<lparr>vpmm := m\<rparr>, Some f)" "f \<in> F" "free_frames m (F - {f})"
    "usable_pages m = usable_pages (vpmm s)" "npage m = npage (vpmm s)" "\<forall>x. ref (page_tab m x) = ref (page_tab (vpmm s) x)"
    using alloc_pages_ok [OF D(2)] F False by blast
  have fn: "f < npage (vpmm s)" "f < 2 ^ 20"
    using free_frames_less [OF D(2) m(2)] spaces_okD(2) [OF D(1)] by simp_all
  let ?e = "page2pa f OR 1 OR 2 OR 4 :: u32" and ?i = "PDX la" and ?m = "set_page_ref f 1 m"
  have e: "bit ?e 0" "pfn ?e = f" using pfn_page2pa [OF fn(2), of 7] by (simp_all add: bit_or_iff or.assoc PPN_def)
  let ?s = "s\<lparr>vpmm := ?m, frames := (\<lambda>p j. if p = f then 0 else if p = pd \<and> j = ?i then ?e else frames s p j)\<rparr>"
  have nm: "npage ?m = npage (vpmm s)" using m(5) by (simp add: set_page_ref_def)
  note N = new_table [OF D(1) pd PDX_user [OF la] False m(2) fn(1) e refl nm]
  have pdf: "pd \<noteq> f" using spaces_okD(4) [OF D(1) pd] m(2) by (auto simp: space_frames_def)
  have dir: "frames ?s pd ?i = ?e" using pdf by simp
  have run: "get_pte s pd la True = Inr (?s, Some (pfn (frames ?s pd ?i), PTX la))"
  proof -
    have "(frames (wr (pd, ?i) ?e (upd_pmm (set_page_ref f 1) (s\<lparr>vpmm := m\<rparr>))))(f := (\<lambda>_. 0)) = frames ?s"
      by (rule ext, rule ext) (simp add: frames_wr)
    then have "wr (pd, ?i) ?e (upd_pmm (set_page_ref f 1) (s\<lparr>vpmm := m\<rparr>))
        \<lparr>frames := (frames (wr (pd, ?i) ?e (upd_pmm (set_page_ref f 1) (s\<lparr>vpmm := m\<rparr>))))(f := (\<lambda>_. 0))\<rparr> = ?s"
      by (simp add: wr_def upd_pmm_def)
    moreover have "KADDR t (page2pa f) = Inr f" if "npage (vpmm t) = npage (vpmm s)" for t
      using fn that pfn_page2pa [OF fn(2), of 0] by (simp add: KADDR_def pfn_def PPN_def)
    moreover have "pte_at ?s pd la = Inr (pfn ?e, PTX la)"
      using fn(1) nm e(2) dir by (simp add: pte_at_def KADDR_def pfn_def)
    ultimately show ?thesis using False m(1) nm dir by (simp add: get_pte_def Let_def)
  qed
  have M: "mappings ?s P q = mappings s P q" for q using N(3) by (auto simp: mappings_def)
  have "maps_ok ?s P (F - {f})" unfolding maps_ok_def M N(2)
  proof (intro conjI allI impI)
    fix q assume "mappings s P q \<noteq> {}"
    then have q: "q \<in> usable_pages (vpmm s)" "q \<notin> F" "q \<notin> table_frames s P" using D(3) unfolding maps_ok_def by blast+
    then show "q \<in> usable_pages (vpmm ?s)" "q \<notin> F - {f}" "q \<notin> insert f (table_frames s P)"
      using m(2,4) by (auto simp: set_page_ref_def)
  next
    fix q
    have "int (card (mappings s P q)) \<le> ref (page_tab (vpmm s) q)" using D(3) by (simp add: maps_ok_def)
    moreover have "mappings s P f = {}" using D(3) m(2) unfolding maps_ok_def by blast
    ultimately show "int (card (mappings s P q)) \<le> ref (page_tab (vpmm ?s) q)" using m(6) by (simp add: set_page_ref_def)
  qed
  then have "vm_ok ?s P (F - {f})" using N(1) m(3) by (simp add: vm_ok_def set_page_ref_def)
  then show ?thesis
    by (rule that [OF run]) (use N(2,3) m(2,4,6) dir e(1) in \<open>auto simp: set_page_ref_def\<close>)
qed

section \<open>Inserting a mapping\<close>

text \<open>The new entry takes a reference that no other entry uses.\<close>

lemma install_entry:
  assumes sp: "spaces_ok s P F" and fr: "free_frames (vpmm s) F" and pd: "pd \<in> P" and la: "la < USERTOP" "bit (frames s pd (PDX la)) 0"
    and x: "bit x 0" "\<not> bit x 7" "pfn x = page"
    and pg: "page \<in> usable_pages (vpmm s)" "page \<notin> F" "page \<notin> table_frames s P"
    and use: "\<And>q. mappings s P q \<noteq> {} \<Longrightarrow> q \<in> usable_pages (vpmm s) \<and> q \<notin> F \<and> q \<notin> table_frames s P"
    and cnt: "\<And>q. int (card (mappings s P q - {(pd, vpn la)})) + (if q = page then 1 else 0) \<le> ref (page_tab (vpmm s) q)"
  obtains s1 s' where "tlb_invalidate s pd la = Inr s1" "s' = wr (pfn (frames s pd (PDX la)), PTX la) x s1" "vm_ok s' P F"
    "vpmm s' = vpmm s" "\<And>pd' v. pd' \<in> P \<Longrightarrow> user_page v \<Longrightarrow> pv s' pd' v = (if pd' = pd \<and> v = vpn la then x else pv s pd' v)"
    "rest_same s s'"
proof -
  have u: "user_page (vpn la)" using la(1) by (simp only: user_vpn)
  obtain s1 s' where s': "tlb_invalidate s pd la = Inr s1" "s' = wr (pfn (frames s pd (PDX la)), PTX la) x s1"
    "spaces_ok s' P F" "tlb_only pd s s'"
    "\<And>pd' v. pd' \<in> P \<Longrightarrow> user_page v \<Longrightarrow> pv s' pd' v = (if pd' = pd \<and> v = vpn la then x else pv s pd' v)"
    "\<And>pd'. pd' \<in> P \<Longrightarrow> space_frames s' pd' = space_frames s pd'"
    by (rule replace_entry [OF sp pd la x(2)]) (rule that)
  have v: "vpmm s' = vpmm s" by (rule tlb_only_fields(1) [OF s'(4)])
  have tf: "table_frames s' P = table_frames s P" using s'(6) by (simp add: table_frames_def)
  have M: "mappings s' P q = (if q = page then insert (pd, vpn la) (mappings s P q) else mappings s P q - {(pd, vpn la)})" for q
    by (subst mappings_set [where s = s and pd = pd and w = "vpn la"]) (use s'(5) pd u x in auto)
  have "maps_ok s' P F" unfolding maps_ok_def v tf
  proof (intro conjI allI impI)
    fix q
    have fin: "finite (mappings s P q)" by (rule finite_mappings [OF spaces_okD(1) [OF sp]])
    show "int (card (mappings s' P q)) \<le> ref (page_tab (vpmm s) q)"
      using cnt [of q] fin by (cases "q = page") (simp_all add: M card.insert_remove)
    assume "mappings s' P q \<noteq> {}"
    then have "q = page \<or> mappings s P q \<noteq> {}" by (auto simp: M split: if_splits)
    then show "q \<in> usable_pages (vpmm s)" "q \<notin> F" "q \<notin> table_frames s P" using use [of q] pg by auto
  qed
  then have "vm_ok s' P F" using s'(3) fr by (simp add: vm_ok_def v)
  then show ?thesis by (rule that [OF s'(1,2) _ v s'(5) rest_same_steps(4) [OF s'(4)]])
qed

lemma vm_ok_ref_up:
  assumes "vm_ok s P F" "\<And>q. ref (page_tab (vpmm s) q) \<le> ref (page_tab m q)" "usable_pages m = usable_pages (vpmm s)"
    "npage m = npage (vpmm s)" "free_frames m F"
  shows "vm_ok (s\<lparr>vpmm := m\<rparr>) P F"
proof -
  note D = vm_okD [OF assms(1)]
  have e: "mappings (s\<lparr>vpmm := m\<rparr>) P q = mappings s P q" "table_frames (s\<lparr>vpmm := m\<rparr>) P = table_frames s P" for q
    by (simp_all add: mappings_def table_frames_def)
  have "int (card (mappings s P q)) \<le> ref (page_tab m q)" for q
    using D(3) assms(2) [of q] order_trans unfolding maps_ok_def by blast
  then have "maps_ok (s\<lparr>vpmm := m\<rparr>) P F" using D(3) assms(3) unfolding maps_ok_def e by simp
  then show ?thesis using spaces_pmm [OF D(1) assms(4), of F] assms(5) by (simp add: vm_ok_def)
qed

lemma new_entry:
  assumes "page < 2 ^ 20" "x = page2pa page OR 1 OR perm" "PPN perm = 0" "\<not> bit perm 7"
  shows "bit x 0" "\<not> bit x 7" "pfn x = page"
proof -
  have "PPN (1 OR perm) = 0" using assms(3) by (simp add: PPN_def drop_bit_or)
  then show "pfn x = page" unfolding assms(2) or.assoc by (rule pfn_page2pa [OF assms(1)])
  show "bit x 0" "\<not> bit x 7" using assms(4) by (simp_all add: assms(2) bit_or_iff page2pa_def bit_push_bit_iff bit_1_iff)
qed

lemma get_pte_present:
  assumes "space_ok s pd" "la < USERTOP" "bit (frames s pd (PDX la)) 0"
  shows "get_pte s pd la c = Inr (s, Some (pfn (frames s pd (PDX la)), PTX la))"
  using find_pte_eq [OF assms(1,2)] assms(3) by (auto simp: find_pte_def bindE_Inr_iff get_pte_def)

text \<open>The page table exists and the entry maps another page.\<close>

lemma page_insert_replaces:
  assumes ok: "vm_ok s P F" and pd: "pd \<in> P" and la: "la < USERTOP" "bit (frames s pd (PDX la)) 0"
    and pg: "page \<in> usable_pages (vpmm s)" "page \<notin> F" "page \<notin> table_frames s P"
    and x: "x = page2pa page OR 1 OR perm" "PPN perm = 0" "\<not> bit perm 7"
    and y: "y = pv s pd (vpn la)" "bit y 0" "pfn y \<noteq> page"
  obtains s' F' where "page_insert s pd page la perm = Inr (s', 0)" "vm_ok s' P F'"
    "\<And>pd' v. pd' \<in> P \<Longrightarrow> user_page v \<Longrightarrow> pv s' pd' v = (if pd' = pd \<and> v = vpn la then x else pv s pd' v)"
    "\<And>q. ref (page_tab (vpmm s') q) = ref (page_tab (vpmm s) q) + (if q = page then 1 else 0) - (if pfn y = q then 1 else 0)"
    "rest_same s s'"
proof -
  let ?a = "(pfn (frames s pd (PDX la)), PTX la)" and ?m = "upd_page page (\<lambda>g. g\<lparr>ref := ref g + 1\<rparr>) (vpmm s)" and ?p = "pfn y"
  let ?s2 = "s\<lparr>vpmm := ?m\<rparr>" let ?F3 = "if ref (page_tab (vpmm ?s2) ?p) = 1 then insert ?p F else F"
  have u: "user_page (vpn la)" using la by (simp only: user_vpn)
  note D = vm_okD [OF ok]
  have c: "int (card (mappings s P q)) \<le> ref (page_tab (vpmm s) q)" for q using D(3) by (simp add: maps_ok_def)
  have pn: "page < 2 ^ 20" using usable_npage [OF pg(1)] spaces_okD(2) [OF D(1)] by simp
  note xb = new_entry [OF pn x]
  have ok2: "vm_ok ?s2 P F" by (rule vm_ok_ref_up [OF ok]) (use D in simp_all)
  have d2: "bit (frames ?s2 pd (PDX la)) 0" "bit (pv ?s2 pd (vpn la)) 0" "?p = pfn (pv ?s2 pd (vpn la))" using la y by simp_all
  obtain s3 where s3: "page_remove_pte ?s2 pd la ?a = Inr s3" "vm_ok s3 P ?F3" "tlb_only pd (?s2\<lparr>vpmm := vpmm s3\<rparr>) s3"
    "usable_pages (vpmm s3) = usable_pages (vpmm s)"
    "\<And>pd' v. pd' \<in> P \<Longrightarrow> user_page v \<Longrightarrow> pv s3 pd' v = (if pd' = pd \<and> v = vpn la then 0 else pv s pd' v)"
    "\<And>q. ref (page_tab (vpmm s3) q) = ref (page_tab ?m q) - (if q = ?p then 1 else 0)" "table_frames s3 P = table_frames s P"
    by (rule page_remove_pte_ok [OF ok2 pd la(1) d2(1-3) refl]) (simp add: that table_frames_def)
  note D3 = vm_okD [OF s3(2)]
  have dir: "frames s3 pd = frames s pd" using s3(3) by (simp add: tlb_only_def)
  have pg3: "page \<in> usable_pages (vpmm s3)" "page \<notin> ?F3" "page \<notin> table_frames s3 P" using pg y(3) s3(4,7) by auto
  have M3: "mappings s3 P q = mappings s P q - {(pd, vpn la)}" for q
    by (subst mappings_set [where s = s and pd = pd and w = "vpn la"]) (use s3(5) pd u in auto)
  have use: "q \<in> usable_pages (vpmm s3) \<and> q \<notin> ?F3 \<and> q \<notin> table_frames s3 P" if "mappings s3 P q \<noteq> {}" for q
    using D3(3) that unfolding maps_ok_def by blast
  have cnt: "int (card (mappings s3 P q - {(pd, vpn la)})) + (if q = page then 1 else 0) \<le> ref (page_tab (vpmm s3) q)" for q
  proof -
    have "int (card (mappings s3 P q)) \<le> ref (page_tab (vpmm s3) q)" using D3(3) unfolding maps_ok_def by blast
    moreover have "card (mappings s P q - {(pd, vpn la)}) \<le> card (mappings s P q)"
      by (rule card_mono [OF finite_mappings [OF spaces_okD(1) [OF D(1)]]]) blast
    ultimately show ?thesis using c [of q] y(3) unfolding M3 s3(6) by (cases "q = page") auto
  qed
  obtain s4 s' where s': "tlb_invalidate s3 pd la = Inr s4" "s' = wr (pfn (frames s3 pd (PDX la)), PTX la) x s4" "vm_ok s' P ?F3"
    "vpmm s' = vpmm s3" "\<And>pd' v. pd' \<in> P \<Longrightarrow> user_page v \<Longrightarrow> pv s' pd' v = (if pd' = pd \<and> v = vpn la then x else pv s3 pd' v)"
    "rest_same s3 s'"
    by (rule install_entry [OF D3(1,2) pd la(1) _ xb pg3 use cnt]) (use la that in \<open>simp_all add: dir\<close>)
  have rs: "rest_same s s'"
    by (rule rest_same_trans [OF rest_same_steps(2) rest_same_trans [OF rest_same_steps(5) [OF s3(3)] s'(6)]])
  have rd: "rd ?s2 ?a = y" using rd_pv [OF la(2)] y(1) by (simp add: rd_def)
  have "?p < npage (vpmm ?s2)" using maps_okD(1) [OF D(3) pd u] y(1,2) usable_npage by simp
  then have run: "page_insert s pd page la perm = Inr (s', 0)"
    using get_pte_present [OF spaces_okD(3) [OF D(1) pd] la] rd y(2,3) s3(1) s'(1,2) pte2page_ok [OF y(2), of ?s2]
    by (simp add: page_insert_def Let_def dir x(1))
  show ?thesis by (rule that [OF run s'(3)]) (use s'(5) s3(5,6) y(3) rs in \<open>auto simp: s'(4)\<close>)
qed

text \<open>The page table exists and the entry maps nothing, or the same page.\<close>

lemma page_insert_fresh:
  assumes ok: "vm_ok s P F" and pd: "pd \<in> P" and la: "la < USERTOP" "bit (frames s pd (PDX la)) 0"
    and pg: "page \<in> usable_pages (vpmm s)" "page \<notin> F" "page \<notin> table_frames s P"
    and x: "x = page2pa page OR 1 OR perm" "PPN perm = 0" "\<not> bit perm 7"
    and y: "y = pv s pd (vpn la)" "bit y 0 \<Longrightarrow> pfn y = page"
  obtains s' where "page_insert s pd page la perm = Inr (s', 0)" "vm_ok s' P F"
    "\<And>pd' v. pd' \<in> P \<Longrightarrow> user_page v \<Longrightarrow> pv s' pd' v = (if pd' = pd \<and> v = vpn la then x else pv s pd' v)"
    "\<And>q. ref (page_tab (vpmm s') q) = ref (page_tab (vpmm s) q) + (if q = page \<and> \<not> bit y 0 then 1 else 0)"
    "rest_same s s'"
proof -
  let ?a = "(pfn (frames s pd (PDX la)), PTX la)" and ?m = "upd_page page (\<lambda>g. g\<lparr>ref := ref g + 1\<rparr>) (vpmm s)"
  let ?m3 = "if bit y 0 then upd_page page (\<lambda>g. g\<lparr>ref := ref g - 1\<rparr>) ?m else ?m"
  let ?s2 = "s\<lparr>vpmm := ?m\<rparr>" and ?s3 = "s\<lparr>vpmm := ?m3\<rparr>"
  have u: "user_page (vpn la)" using la by (simp only: user_vpn)
  note D = vm_okD [OF ok]
  have pn: "page < 2 ^ 20" using usable_npage [OF pg(1)] spaces_okD(2) [OF D(1)] by simp
  note xb = new_entry [OF pn x]
  have ref3: "ref (page_tab ?m3 q) = ref (page_tab (vpmm s) q) + (if q = page \<and> \<not> bit y 0 then 1 else 0)" for q by simp
  have ok3: "vm_ok ?s3 P F" by (rule vm_ok_ref_up [OF ok]) (use D in auto)
  note D3 = vm_okD [OF ok3]
  have M3: "mappings ?s3 P q = mappings s P q" "table_frames ?s3 P = table_frames s P" for q by (simp_all add: mappings_def table_frames_def)
  have use: "q \<in> usable_pages (vpmm ?s3) \<and> q \<notin> F \<and> q \<notin> table_frames ?s3 P" if "mappings ?s3 P q \<noteq> {}" for q
    using D3(3) that unfolding maps_ok_def by blast
  have cnt: "int (card (mappings ?s3 P q - {(pd, vpn la)})) + (if q = page then 1 else 0) \<le> ref (page_tab (vpmm ?s3) q)" for q
  proof -
    have fin: "finite (mappings s P r)" for r by (rule finite_mappings [OF spaces_okD(1) [OF D(1)]])
    have c: "int (card (mappings s P r)) \<le> ref (page_tab (vpmm s) r)" for r using D(3) by (simp add: maps_ok_def)
    have "card (mappings s P q - {(pd, vpn la)}) \<le> card (mappings s P q)" by (rule card_mono [OF fin]) blast
    moreover have "card (mappings s P page - {(pd, vpn la)}) + 1 = card (mappings s P page)" if "bit y 0"
    proof -
      have "(pd, vpn la) \<in> mappings s P page" using maps_okD(4) [OF D(3) pd u] that y by simp
      then show ?thesis using card_Suc_Diff1 [OF fin] by (simp only: Suc_eq_plus1)
    qed
    ultimately show ?thesis using c [of q] c [of page] ref3 [of q] unfolding M3 by auto
  qed
  obtain s4 s' where s': "tlb_invalidate ?s3 pd la = Inr s4" "s' = wr (pfn (frames ?s3 pd (PDX la)), PTX la) x s4" "vm_ok s' P F"
    "vpmm s' = vpmm ?s3" "\<And>pd' v. pd' \<in> P \<Longrightarrow> user_page v \<Longrightarrow> pv s' pd' v = (if pd' = pd \<and> v = vpn la then x else pv ?s3 pd' v)"
    "rest_same ?s3 s'"
    by (rule install_entry [OF D3(1,2) pd la(1) _ xb _ pg(2) _ use cnt]) (use la pg that in \<open>simp_all add: M3\<close>)
  have "rd ?s2 ?a = y" using rd_pv [OF la(2)] y(1) by (simp add: rd_def)
  then have run: "page_insert s pd page la perm = Inr (s', 0)"
    using get_pte_present [OF spaces_okD(3) [OF D(1) pd] la] y(2) s'(1,2) pte2page_ok [of y ?s2] usable_npage [OF pg(1)]
    by (cases "bit y 0") (simp_all add: page_insert_def Let_def x(1))
  have "rest_same s s'" by (rule rest_same_trans [OF rest_same_steps(2) s'(6)])
  then show ?thesis by (intro that [OF run s'(3)]) (use s'(5) ref3 in \<open>auto simp: s'(4)\<close>)
qed

lemma page_insert_ok:
  assumes "vm_ok s P F" "pd \<in> P" "la < USERTOP" "bit (frames s pd (PDX la)) 0 \<or> F \<noteq> {}"
    and "page \<in> usable_pages (vpmm s)" "page \<notin> F" "page \<notin> table_frames s P" "PPN perm = 0" "\<not> bit perm 7"
    and x: "x = page2pa page OR 1 OR perm" and y: "y = pv s pd (vpn la)"
  obtains s' F' where "page_insert s pd page la perm = Inr (s', 0)" "vm_ok s' P F'"
    "\<And>pd' v. pd' \<in> P \<Longrightarrow> user_page v \<Longrightarrow> pv s' pd' v = (if pd' = pd \<and> v = vpn la then x else pv s pd' v)"
    "\<And>q. q \<notin> F \<Longrightarrow> page_ref s' q = page_ref s q + (if q = page then 1 else 0) - (if bit y 0 \<and> pfn y = q then 1 else 0)"
    "rest_same s s'"
proof -
  have u: "user_page (vpn la)" using assms(3) by (simp only: user_vpn)
  obtain s1 F1 where s1: "get_pte s pd la True = Inr (s1, Some (pfn (frames s1 pd (PDX la)), PTX la))" "vm_ok s1 P F1"
    "bit (frames s1 pd (PDX la)) 0" "F1 \<subseteq> F" "table_frames s1 P = table_frames s P \<union> (F - F1)"
    "usable_pages (vpmm s1) = usable_pages (vpmm s)" "\<And>q. q \<notin> F \<Longrightarrow> ref (page_tab (vpmm s1) q) = ref (page_tab (vpmm s) q)"
    "\<And>pd' v. pd' \<in> P \<Longrightarrow> user_page v \<Longrightarrow> pv s1 pd' v = pv s pd' v" "rest_same s s1"
    by (rule get_pte_create [OF assms(1-4)]) (rule that)
  have pg: "page \<in> usable_pages (vpmm s1)" "page \<notin> F1" "page \<notin> table_frames s1 P" using assms(5-7) s1(4-6) by auto
  have y1: "y = pv s1 pd (vpn la)" using s1(8) [OF assms(2) u] y by simp
  have run: "page_insert s pd page la perm = page_insert s1 pd page la perm"
    using s1(1) get_pte_present [OF spaces_okD(3) [OF vm_okD(1) [OF s1(2)] assms(2)] assms(3) s1(3), of True]
    by (simp add: page_insert_def)
  obtain s' F' where s': "page_insert s1 pd page la perm = Inr (s', 0)" "vm_ok s' P F'"
    "\<And>pd' v. pd' \<in> P \<Longrightarrow> user_page v \<Longrightarrow> pv s' pd' v = (if pd' = pd \<and> v = vpn la then x else pv s1 pd' v)"
    "\<And>q. page_ref s' q = page_ref s1 q + (if q = page then 1 else 0) - (if bit y 0 \<and> pfn y = q then 1 else 0)"
    "rest_same s1 s'"
  proof (cases "bit y 0 \<and> pfn y \<noteq> page")
    case True
    then show thesis
      by (rule_tac page_insert_replaces [OF s1(2) assms(2,3) s1(3) pg x assms(8,9) y1])
        (use True that in \<open>auto simp: page_ref_def\<close>)
  next
    case False
    then show thesis
      by (rule_tac page_insert_fresh [OF s1(2) assms(2,3) s1(3) pg x assms(8,9) y1])
        (use False that in \<open>auto simp: page_ref_def\<close>)
  qed
  show ?thesis
    by (rule that [OF _ s'(2) _ _ rest_same_trans [OF s1(9) s'(5)]]) (use run s'(1,3,4) s1(7,8) in \<open>simp_all add: page_ref_def\<close>)
qed

lemma demo_frames_of: "space_frames demo_vm 4 = {4, 2}"
proof -
  have "pfn 0x2007 = 2" by (simp add: pfn_def PPN_nat)
  then show ?thesis by (auto simp: space_frames_def demo_vm_def demo_frames_def split: if_splits intro: exI [of _ 0])
qed

lemma demo_ok_vm: "vm_ok demo_vm {4} {}"
proof -
  have p: "pfn 0x5f87 = 5" "pfn 0x6007 = 6" by (simp_all add: pfn_def PPN_nat)
  have "pmm_inv (vpmm demo_vm) []"
    by (simp add: pmm_inv_def blocks_inv_def demo_vm_def clist_def)
  then have "free_frames (vpmm demo_vm) {}" by (auto simp: free_frames_def intro!: exI [of _ "[]"])
  moreover have "spaces_ok demo_vm {4} {}" using demo_ok by (simp add: spaces_ok_def) (simp add: demo_vm_def)
  moreover have "maps_ok demo_vm {4} {}"
  proof -
    have M: "mappings demo_vm {4} q = (if q = 5 then {(4, 0)} else if q = 6 then {(4, 1)} else {})" for q
      using p by (auto simp: mappings_def demo_pv split: if_splits)
    show ?thesis unfolding maps_ok_def M table_frames_def
      by (auto simp: demo_frames_of split: if_splits) (simp_all add: demo_vm_def usable_pages_def PageReserved_def)
  qed
  ultimately show ?thesis by (simp add: vm_ok_def)
qed

section \<open>Properties\<close>

text \<open>
  C6. \<^verbatim>\<open>page_insert\<close> is a map update: for an allocated page that is not a page table, it succeeds whenever the page table
  exists or a free page is left to make one, keeps the invariant of tables, allocator, reference counts and TLB, sets the
  one entry, changes no other entry of any address space, and counts the reference: one more for the page, one less for the
  page that the entry mapped before.
\<close>

theorem page_insert_updates:
  assumes "vm_ok s P F" "pd \<in> P" "la < USERTOP" "bit (frames s pd (PDX la)) 0 \<or> F \<noteq> {}"
    and "page \<in> usable_pages (vpmm s)" "page \<notin> F" "page \<notin> table_frames s P" "PPN perm = 0" "\<not> bit perm 7"
  shows "\<exists>s' F'. page_insert s pd page la perm = Inr (s', 0) \<and> vm_ok s' P F' \<and>
    (\<forall>pd' \<in> P. \<forall>v. user_page v \<longrightarrow> pv s' pd' v = (if pd' = pd \<and> v = vpn la then page2pa page OR 1 OR perm else pv s pd' v)) \<and>
    (\<forall>q. q \<notin> F \<longrightarrow> page_ref s' q = page_ref s q + (if q = page then 1 else 0) -
       (if bit (pv s pd (vpn la)) 0 \<and> pfn (pv s pd (vpn la)) = q then 1 else 0))"
proof -
  obtain s' F' where s': "page_insert s pd page la perm = Inr (s', 0)" "vm_ok s' P F'"
    "\<And>pd' v. pd' \<in> P \<Longrightarrow> user_page v \<Longrightarrow> pv s' pd' v = (if pd' = pd \<and> v = vpn la then page2pa page OR 1 OR perm else pv s pd' v)"
    "\<And>q. q \<notin> F \<Longrightarrow> page_ref s' q = page_ref s q + (if q = page then 1 else 0) -
       (if bit (pv s pd (vpn la)) 0 \<and> pfn (pv s pd (vpn la)) = q then 1 else 0)"
    by (rule page_insert_ok [OF assms refl refl]) (rule that)
  then show ?thesis by (intro exI [of _ s'] exI [of _ F']) simp
qed

theorem page_insert_updates_witness:
  "\<exists>s' F'. page_insert demo_vm 4 7 0x3123 6 = Inr (s', 0) \<and> vm_ok s' {4} F' \<and> pv s' 4 3 = 0x7007 \<and> page_ref s' 7 = 2"
proof -
  have v: "vpn 0x3123 = 3" "(0x3123 :: u32) < USERTOP" "PPN 6 = 0" "\<not> bit (6 :: u32) 7" "PDX 0x3123 = 0" by (simp_all add: PPN_def PDX_nat)
  have f: "bit (frames demo_vm 4 (PDX 0x3123)) 0 \<or> ({} :: nat set) \<noteq> {}" "7 \<in> usable_pages (vpmm demo_vm)" "7 \<notin> table_frames demo_vm {4}"
    unfolding v(5) by (simp_all add: demo_vm_def demo_frames_def usable_pages_def PageReserved_def)
      (simp add: table_frames_def demo_frames_of [unfolded demo_vm_def])
  have x: "page2pa 7 OR 1 OR 6 = 0x7007" by (simp add: page2pa_def)
  have r: "page_ref demo_vm 7 = 1" by (simp add: page_ref_def demo_vm_def)
  from page_insert_updates [OF demo_ok_vm insertI1 v(2) f(1,2) empty_iff [THEN iffD1, THEN notI] f(3) v(3,4)] 
  obtain s' F' where "page_insert demo_vm 4 7 0x3123 6 = Inr (s', 0)" "vm_ok s' {4} F'"
    "\<forall>v. user_page v \<longrightarrow> pv s' 4 v = (if v = 3 then 0x7007 else pv demo_vm 4 v)" "page_ref s' 7 = 2"
    unfolding v(1) x by (auto simp: r demo_pv)
  then show ?thesis by (intro exI [of _ s'] exI [of _ F']) simp
qed

text \<open>
  C7. \<^verbatim>\<open>page_remove\<close> deletes one entry: it succeeds, keeps the invariant, clears the entry if it maps a page and changes
  no other entry of any address space; the page loses one reference and, with its last one, becomes free.
\<close>

theorem page_remove_deletes:
  assumes "vm_ok s P F" "pd \<in> P" "la < USERTOP"
  shows "\<exists>s' F'. page_remove s pd la = Inr s' \<and> vm_ok s' P F' \<and>
    (let y = pv s pd (vpn la) in
     (\<forall>pd' \<in> P. \<forall>v. user_page v \<longrightarrow> pv s' pd' v = (if pd' = pd \<and> v = vpn la \<and> bit y 0 then 0 else pv s pd' v)) \<and>
     (\<forall>q. page_ref s' q = page_ref s q - (if bit y 0 \<and> pfn y = q then 1 else 0)) \<and>
     F' = (if bit y 0 \<and> page_ref s (pfn y) = 1 then insert (pfn y) F else F))"
proof (cases "bit (pv s pd (vpn la)) 0")
  case False
  note sp = spaces_okD(3) [OF vm_okD(1) [OF assms(1)] assms(2)]
  obtain x where x: "find_pte s pd la = Inr x" using find_entry(5) [OF sp assms(3)] ..
  have "rd s a = pv s pd (vpn la)" if "x = Some a" for a using find_entry(4) [OF sp assms(3)] x that by simp
  then have "page_remove s pd la = Inr s" using x False by (cases x) (simp_all add: page_remove_def page_remove_pte_def word_gt_0)
  then show ?thesis using assms(1) False by (intro exI [of _ s] exI [of _ F]) simp
next
  case True
  let ?y = "pv s pd (vpn la)"
  note sp = spaces_okD(3) [OF vm_okD(1) [OF assms(1)] assms(2)]
  note dir = find_entry(1) [OF sp assms(3) True]
  note fp = find_entry(2) [OF sp assms(3) dir]
  obtain s' where s': "page_remove_pte s pd la (pfn (frames s pd (PDX la)), PTX la) = Inr s'"
    "vm_ok s' P (if ref (page_tab (vpmm s) (pfn ?y)) = 1 then insert (pfn ?y) F else F)"
    "\<And>pd' v. pd' \<in> P \<Longrightarrow> user_page v \<Longrightarrow> pv s' pd' v = (if pd' = pd \<and> v = vpn la then 0 else pv s pd' v)"
    "\<And>q. ref (page_tab (vpmm s') q) = ref (page_tab (vpmm s) q) - (if q = pfn ?y then 1 else 0)"
    by (rule page_remove_pte_ok [OF assms dir True refl refl]) (rule that)
  show ?thesis
    by (rule exI [of _ s'], rule exI [of _ "if page_ref s (pfn ?y) = 1 then insert (pfn ?y) F else F"])
      (use s' fp True in \<open>auto simp: page_remove_def page_ref_def Let_def\<close>)
qed

theorem page_remove_deletes_witness:
  "\<exists>s'. page_remove demo_vm 4 0x123 = Inr s' \<and> vm_ok s' {4} {5} \<and> pv s' 4 0 = 0 \<and> pv s' 4 1 = 0x6007"
proof -
  have v: "vpn 0x123 = 0" "(0x123 :: u32) < USERTOP" by simp_all
  have p: "pfn 0x5f87 = 5" by (simp add: pfn_def PPN_nat)
  have r: "page_ref demo_vm 5 = 1" by (simp add: page_ref_def demo_vm_def)
  show ?thesis using page_remove_deletes [OF demo_ok_vm insertI1 v(2)] unfolding v(1) Let_def by (auto simp: demo_pv p r)
qed

end
