(* ===== verification/Vmm.thy ===== *)
theory Vmm
  imports Vm Cstring
begin

unbundle bit_operations_syntax

text \<open>
  Virtual memory areas (\<^verbatim>\<open>kern/mm/vmm.c\<close>, \<^verbatim>\<open>kern/mm/vmm.h\<close>), the page fault handler and the TLB miss handler of
  \<^verbatim>\<open>kern/mm/tlb.c\<close>. The areas of an address space hang in a list sorted by start address; the result of each
  \<^verbatim>\<open>kmalloc\<close> call is an argument. A loop over the list takes the number of areas, \<^verbatim>\<open>map_count\<close>, as fuel. The semaphore
  \<^verbatim>\<open>mm_sem\<close> is one of the semaphores of \<open>Sync\<close> and not a field here.
\<close>

abbreviation (input) VM_READ :: u32 where "VM_READ \<equiv> 0x1"
abbreviation (input) VM_WRITE :: u32 where "VM_WRITE \<equiv> 0x2"
abbreviation (input) VM_EXEC :: u32 where "VM_EXEC \<equiv> 0x4"
abbreviation (input) VM_STACK :: u32 where "VM_STACK \<equiv> 0x8"

definition upd_vma :: "nat \<Rightarrow> (vma_struct \<Rightarrow> vma_struct) \<Rightarrow> vm \<Rightarrow> vm" where
  "upd_vma v f s = s\<lparr>vmas := (vmas s)(v := f (vmas s v))\<rparr>"

definition le2vma :: "vnode \<Rightarrow> kpanic + nat" where
  "le2vma le = (case le of List_link v \<Rightarrow> Inr v | _ \<Rightarrow> Inl Bad_pointer)"

section \<open>Reference counts of an address space\<close>

definition set_mm_count :: "nat \<Rightarrow> int \<Rightarrow> vm \<Rightarrow> vm" where
  "set_mm_count m val = upd_mm m (\<lambda>g. g\<lparr>mm_count := val\<rparr>)"

definition mm_count_inc :: "nat \<Rightarrow> vm \<Rightarrow> vm \<times> int" where
  "mm_count_inc m s = (let s = upd_mm m (\<lambda>g. g\<lparr>mm_count := mm_count g + 1\<rparr>) s in (s, mm_count (mms s m)))"

definition mm_count_dec :: "nat \<Rightarrow> vm \<Rightarrow> vm \<times> int" where
  "mm_count_dec m s = (let s = upd_mm m (\<lambda>g. g\<lparr>mm_count := mm_count g - 1\<rparr>) s in (s, mm_count (mms s m)))"

section \<open>Swap manager\<close>

definition swap_init_mm :: "vm \<Rightarrow> nat \<Rightarrow> vm" where
  "swap_init_mm s m = fifo_init_mm s m"

definition swap_map_swappable :: "vm \<Rightarrow> nat \<Rightarrow> u32 \<Rightarrow> nat \<Rightarrow> kpanic + vm" where
  "swap_map_swappable s m addr page = fifo_map_swappable s m page"

section \<open>Areas\<close>

definition mm_create :: "vm \<Rightarrow> nat option \<Rightarrow> vm \<times> nat option" where
  "mm_create s mem =
     (case mem of
        None \<Rightarrow> (s, None)
      | Some m \<Rightarrow>
          (let s = s\<lparr>vlinks := list_init (vlinks s) (Mmap_list m)\<rparr>;
               s = upd_mm m (\<lambda>g. g\<lparr>mmap_cache := None, pgdir := None, map_count := 0\<rparr>) s;
               s = (if swap_init_ok s then swap_init_mm s m else upd_mm m (\<lambda>g. g\<lparr>sm_priv := False\<rparr>) s)
           in (set_mm_count m 0 s, Some m)))"

definition vma_create :: "vm \<Rightarrow> nat option \<Rightarrow> u32 \<Rightarrow> u32 \<Rightarrow> u32 \<Rightarrow> vm \<times> nat option" where
  "vma_create s mem st en fl =
     (case mem of
        None \<Rightarrow> (s, None)
      | Some v \<Rightarrow> (upd_vma v (\<lambda>g. g\<lparr>vm_start := st, vm_end := en, vm_flags := fl\<rparr>) s, Some v))"

definition in_vma :: "vm \<Rightarrow> u32 \<Rightarrow> nat \<Rightarrow> bool" where
  "in_vma s addr v \<longleftrightarrow> vm_start (vmas s v) \<le> addr \<and> addr < vm_end (vmas s v)"

fun find_vma_loop :: "nat \<Rightarrow> vm \<Rightarrow> u32 \<Rightarrow> vnode \<Rightarrow> vnode \<Rightarrow> kpanic + nat option" where
  "find_vma_loop 0 s addr list le = Inl Fuel_exhausted"
| "find_vma_loop (Suc k) s addr list le =
     (let le = list_next (vlinks s) le
      in if le = list then Inr None
         else bindE (le2vma le) (\<lambda>v. if in_vma s addr v then Inr (Some v) else find_vma_loop k s addr list le))"

definition vma_fuel :: "vm \<Rightarrow> nat \<Rightarrow> nat" where
  "vma_fuel s m = nat (map_count (mms s m)) + 1"

definition find_vma :: "vm \<Rightarrow> nat option \<Rightarrow> u32 \<Rightarrow> kpanic + (vm \<times> nat option)" where
  "find_vma s mm addr =
     (case mm of
        None \<Rightarrow> Inr (s, None)
      | Some m \<Rightarrow>
          bindE (case mmap_cache (mms s m) of
                   Some v \<Rightarrow> if in_vma s addr v then Inr (Some v) else find_vma_loop (vma_fuel s m) s addr (Mmap_list m) (Mmap_list m)
                 | None \<Rightarrow> find_vma_loop (vma_fuel s m) s addr (Mmap_list m) (Mmap_list m)) (\<lambda>vma.
          Inr (case vma of
                 Some v \<Rightarrow> (upd_mm m (\<lambda>g. g\<lparr>mmap_cache := Some v\<rparr>) s, Some v)
               | None \<Rightarrow> (s, None))))"

definition check_vma_overlap :: "vm \<Rightarrow> nat \<Rightarrow> nat \<Rightarrow> kpanic + unit" where
  "check_vma_overlap s prev nxt =
     bindE (assertE (vm_start (vmas s prev) < vm_end (vmas s prev))) (\<lambda>_.
     bindE (assertE (vm_end (vmas s prev) \<le> vm_start (vmas s nxt))) (\<lambda>_.
     assertE (vm_start (vmas s nxt) < vm_end (vmas s nxt))))"

text \<open>The loop ends with \<^verbatim>\<open>le_prev\<close>.\<close>

fun insert_vma_loop :: "nat \<Rightarrow> vm \<Rightarrow> nat \<Rightarrow> vnode \<Rightarrow> vnode \<Rightarrow> kpanic + vnode" where
  "insert_vma_loop 0 s vma list le_prev = Inl Fuel_exhausted"
| "insert_vma_loop (Suc k) s vma list le_prev =
     (let le = list_next (vlinks s) le_prev
      in if le = list then Inr le_prev
         else bindE (le2vma le) (\<lambda>mmap_prev.
           if vm_start (vmas s mmap_prev) > vm_start (vmas s vma) then Inr le_prev
           else insert_vma_loop k s vma list le))"

definition insert_vma_struct :: "vm \<Rightarrow> nat \<Rightarrow> nat \<Rightarrow> kpanic + vm" where
  "insert_vma_struct s m vma =
     bindE (assertE (vm_start (vmas s vma) < vm_end (vmas s vma))) (\<lambda>_.
     let list = Mmap_list m
     in bindE (insert_vma_loop (vma_fuel s m) s vma list list) (\<lambda>le_prev.
        let le_next = list_next (vlinks s) le_prev
        in bindE (if le_prev \<noteq> list then bindE (le2vma le_prev) (\<lambda>p. check_vma_overlap s p vma) else Inr ()) (\<lambda>_.
           bindE (if le_next \<noteq> list then bindE (le2vma le_next) (\<lambda>n. check_vma_overlap s vma n) else Inr ()) (\<lambda>_.
           let s = upd_vma vma (\<lambda>g. g\<lparr>vm_mm := Some m\<rparr>) s;
               s = s\<lparr>vlinks := list_add_after (vlinks s) le_prev (List_link vma)\<rparr>
           in Inr (upd_mm m (\<lambda>g. g\<lparr>map_count := map_count g + 1\<rparr>) s)))))"

text \<open>The areas given to \<^verbatim>\<open>kfree\<close>, in this order, are part of the result.\<close>

fun mm_destroy_loop :: "nat \<Rightarrow> vm \<Rightarrow> vnode \<Rightarrow> nat list \<Rightarrow> kpanic + (vm \<times> nat list)" where
  "mm_destroy_loop 0 s list freed = Inl Fuel_exhausted"
| "mm_destroy_loop (Suc k) s list freed =
     (let le = list_next (vlinks s) list
      in if le = list then Inr (s, freed)
         else (let s = s\<lparr>vlinks := list_del (vlinks s) le\<rparr>
               in bindE (le2vma le) (\<lambda>v. mm_destroy_loop k s list (freed @ [v]))))"

definition mm_destroy :: "vm \<Rightarrow> nat \<Rightarrow> kpanic + (vm \<times> nat list)" where
  "mm_destroy s m =
     bindE (assertE (mm_count (mms s m) = 0)) (\<lambda>_. mm_destroy_loop (vma_fuel s m) s (Mmap_list m) [])"

definition mm_map :: "vm \<Rightarrow> nat option \<Rightarrow> nat option \<Rightarrow> u32 \<Rightarrow> u32 \<Rightarrow> u32 \<Rightarrow> kpanic + (vm \<times> int \<times> nat option)" where
  "mm_map s mem mm addr len fl =
     (let st = ROUNDDOWN addr PGSIZE; en = ROUNDUP (addr + len) PGSIZE
      in if \<not> USER_ACCESS st en then Inr (s, - E_INVAL, None)
         else
           (case mm of
              None \<Rightarrow> Inl Assert_failed
            | Some m \<Rightarrow>
                bindE (find_vma s mm st) (\<lambda>(s, vma).
                if (case vma of Some v \<Rightarrow> en > vm_start (vmas s v) | None \<Rightarrow> False) then Inr (s, - E_INVAL, None)
                else (case vma_create s mem st en fl of
                        (s, None) \<Rightarrow> Inr (s, - E_NO_MEM, None)
                      | (s, Some v) \<Rightarrow> bindE (insert_vma_struct s m v) (\<lambda>s. Inr (s, 0, Some v))))))"

text \<open>\<open>mem\<close> holds the results of the calls of \<^verbatim>\<open>kmalloc\<close>, one per area.\<close>

fun dup_mmap_loop :: "nat \<Rightarrow> vm \<Rightarrow> nat option list \<Rightarrow> nat \<Rightarrow> nat \<Rightarrow> vnode \<Rightarrow> kpanic + (vm \<times> int)" where
  "dup_mmap_loop 0 s mem to from le = Inl Fuel_exhausted"
| "dup_mmap_loop (Suc k) s mem to from le =
     (let le = list_prev (vlinks s) le
      in if le = Mmap_list from then Inr (s, 0)
         else bindE (le2vma le) (\<lambda>vma.
           let st = vm_start (vmas s vma); en = vm_end (vmas s vma)
           in case mem of
                [] \<Rightarrow> Inr (s, - E_NO_MEM)
              | a # mem \<Rightarrow>
                  (case vma_create s a st en (vm_flags (vmas s vma)) of
                     (s, None) \<Rightarrow> Inr (s, - E_NO_MEM)
                   | (s, Some nvma) \<Rightarrow>
                       bindE (insert_vma_struct s to nvma) (\<lambda>s.
                       case (pgdir (mms s to), pgdir (mms s from)) of
                         (Some t, Some f) \<Rightarrow>
                           bindE (copy_range s t f st en) (\<lambda>(s, r).
                           if r \<noteq> 0 then Inr (s, - E_NO_MEM) else dup_mmap_loop k s mem to from le)
                       | _ \<Rightarrow> Inl Null_deref))))"

definition dup_mmap :: "vm \<Rightarrow> nat option list \<Rightarrow> nat \<Rightarrow> nat \<Rightarrow> kpanic + (vm \<times> int)" where
  "dup_mmap s mem to from = dup_mmap_loop (vma_fuel s from) s mem to from (Mmap_list from)"

fun exit_mmap_loop :: "(vm \<Rightarrow> nat \<Rightarrow> u32 \<Rightarrow> u32 \<Rightarrow> kpanic + vm) \<Rightarrow> nat \<Rightarrow> vm \<Rightarrow> nat \<Rightarrow> vnode \<Rightarrow> vnode \<Rightarrow> kpanic + vm" where
  "exit_mmap_loop f 0 s pd list le = Inl Fuel_exhausted"
| "exit_mmap_loop f (Suc k) s pd list le =
     (let le = list_next (vlinks s) le
      in if le = list then Inr s
         else bindE (le2vma le) (\<lambda>vma.
           bindE (f s pd (vm_start (vmas s vma)) (vm_end (vmas s vma))) (\<lambda>s. exit_mmap_loop f k s pd list le)))"

definition exit_mmap :: "vm \<Rightarrow> nat \<Rightarrow> kpanic + vm" where
  "exit_mmap s m =
     bindE (assertE (mm_count (mms s m) = 0)) (\<lambda>_.
     case pgdir (mms s m) of
       None \<Rightarrow> Inl Null_deref
     | Some pd \<Rightarrow>
         bindE (exit_mmap_loop unmap_range (vma_fuel s m) s pd (Mmap_list m) (Mmap_list m)) (\<lambda>s.
         exit_mmap_loop exit_range (vma_fuel s m) s pd (Mmap_list m) (Mmap_list m)))"

section \<open>Access to user memory\<close>

fun user_mem_loop :: "nat \<Rightarrow> vm \<Rightarrow> nat \<Rightarrow> u32 \<Rightarrow> u32 \<Rightarrow> bool \<Rightarrow> kpanic + (vm \<times> bool)" where
  "user_mem_loop 0 s m st en wrt = Inl Fuel_exhausted"
| "user_mem_loop (Suc k) s m st en wrt =
     (if \<not> st < en then Inr (s, True)
      else bindE (find_vma s (Some m) st) (\<lambda>(s, vma).
        case vma of
          None \<Rightarrow> Inr (s, False)
        | Some v \<Rightarrow>
            if st < vm_start (vmas s v) then Inr (s, False)
            else if vm_flags (vmas s v) AND (if wrt then VM_WRITE else VM_READ) = 0 then Inr (s, False)
            else if wrt \<and> vm_flags (vmas s v) AND VM_STACK \<noteq> 0 \<and> st < vm_start (vmas s v) + PGSIZE then Inr (s, False)
            else user_mem_loop k s m (vm_end (vmas s v)) en wrt))"

definition user_mem_check :: "vm \<Rightarrow> nat option \<Rightarrow> u32 \<Rightarrow> u32 \<Rightarrow> bool \<Rightarrow> kpanic + (vm \<times> bool)" where
  "user_mem_check s mm addr len wrt =
     (case mm of
        Some m \<Rightarrow> if \<not> USER_ACCESS addr (addr + len) then Inr (s, False)
                  else user_mem_loop (unat len + 1) s m addr (addr + len) wrt
      | None \<Rightarrow> Inr (s, KERN_ACCESS addr (addr + len)))"

definition copy_from_user :: "vm \<Rightarrow> mem \<Rightarrow> nat option \<Rightarrow> u32 \<Rightarrow> u32 \<Rightarrow> u32 \<Rightarrow> bool \<Rightarrow> kpanic + (vm \<times> mem \<times> bool)" where
  "copy_from_user s mem mm dst src len writable =
     bindE (user_mem_check s mm src len writable) (\<lambda>(s, ok).
     if \<not> ok then Inr (s, mem, False) else Inr (s, fst (memcpy mem dst src len), True))"

definition copy_to_user :: "vm \<Rightarrow> mem \<Rightarrow> nat option \<Rightarrow> u32 \<Rightarrow> u32 \<Rightarrow> u32 \<Rightarrow> kpanic + (vm \<times> mem \<times> bool)" where
  "copy_to_user s mem mm dst src len =
     bindE (user_mem_check s mm dst len True) (\<lambda>(s, ok).
     if \<not> ok then Inr (s, mem, False) else Inr (s, fst (memcpy mem dst src len), True))"

fun copy_string_loop :: "nat \<Rightarrow> vm \<Rightarrow> mem \<Rightarrow> nat option \<Rightarrow> u32 \<Rightarrow> u32 \<Rightarrow> u32 \<Rightarrow> u32 \<Rightarrow> kpanic + (vm \<times> mem \<times> bool)" where
  "copy_string_loop 0 s mem mm dst src maxn part = Inl Fuel_exhausted"
| "copy_string_loop (Suc k) s mem mm dst src maxn part =
     (let part = (if part > maxn then maxn else part)
      in bindE (user_mem_check s mm src part False) (\<lambda>(s, ok).
         if \<not> ok then Inr (s, mem, False)
         else (let alen = strnlen mem src part
               in if alen < part then Inr (s, fst (memcpy mem dst src (alen + 1)), True)
                  else if part = maxn then Inr (s, mem, False)
                  else copy_string_loop k s (fst (memcpy mem dst src part)) mm (dst + part) (src + part) (maxn - part) PGSIZE)))"

definition copy_string :: "vm \<Rightarrow> mem \<Rightarrow> nat option \<Rightarrow> u32 \<Rightarrow> u32 \<Rightarrow> u32 \<Rightarrow> kpanic + (vm \<times> mem \<times> bool)" where
  "copy_string s mem mm dst src maxn =
     copy_string_loop (unat maxn div 4096 + 2) s mem mm dst src maxn (ROUNDDOWN (src + PGSIZE) PGSIZE - src)"

section \<open>Page faults\<close>

definition do_pgfault :: "vm \<Rightarrow> nat \<Rightarrow> u32 \<Rightarrow> u32 \<Rightarrow> kpanic + (vm \<times> int)" where
  "do_pgfault s m error_code addr =
     bindE (find_vma s (Some m) addr) (\<lambda>(s, vma).
     let s = s\<lparr>pgfault_num := pgfault_num s + 1\<rparr>
     in case vma of
          None \<Rightarrow> Inr (s, - E_INVAL)
        | Some v \<Rightarrow>
            (let fl = vm_flags (vmas s v); e = error_code AND 3
             in if vm_start (vmas s v) > addr then Inr (s, - E_INVAL)
                else if e = 1 then Inr (s, - E_INVAL)
                else if e = 0 \<and> fl AND (VM_READ OR VM_EXEC) = 0 then Inr (s, - E_INVAL)
                else if e \<noteq> 0 \<and> fl AND VM_WRITE = 0 then Inr (s, - E_INVAL)
                else
                  (let perm = (if fl AND VM_WRITE \<noteq> 0 then PTE_U OR PTE_W else PTE_U);
                       addr = ROUNDDOWN addr PGSIZE
                   in case pgdir (mms s m) of
                        None \<Rightarrow> Inl Null_deref
                      | Some pd \<Rightarrow>
                          bindE (get_pte s pd addr True) (\<lambda>(s, ptep).
                          case ptep of
                            None \<Rightarrow> Inl Null_deref
                          | Some a \<Rightarrow>
                              if rd s a = 0 then bindE (pgdir_alloc_page s pd addr perm) (\<lambda>(s, p). Inr (s, 0))
                              else if swap_init_ok s then
                                bindE (swap_in s m addr) (\<lambda>(s, page).
                                bindE (page_insert s pd page addr perm) (\<lambda>(s, r).
                                bindE (swap_map_swappable s m addr page) (\<lambda>s. Inr (s, 0))))
                              else Inr (s, - E_NO_MEM)))))"

text \<open>
  The whole handler. \<open>cur\<close> is the address space of the current process: \<open>None\<close> when there is no process yet,
  \<open>Some None\<close> for a kernel thread; \<open>idle\<close> says that the current process is \<^verbatim>\<open>idleproc\<close>. A result \<open>True\<close> means that the
  handler ended the process by \<^verbatim>\<open>do_exit(-E_KILLED)\<close>.
\<close>

definition tlb_miss_handler :: "vm \<Rightarrow> nat option option \<Rightarrow> bool \<Rightarrow> u32 \<Rightarrow> u32 \<Rightarrow> u32 \<Rightarrow> kpanic + (vm \<times> bool)" where
  "tlb_miss_handler s cur idle bad_vaddr cause status =
     (let la = bad_vaddr
      in case cur_pgdir s of
           None \<Rightarrow> Inl Assert_failed
         | Some pd \<Rightarrow>
             bindE (find_pte s pd la) (\<lambda>ptep.
             let refill = (\<lambda>s ptep. case ptep of
                     None \<Rightarrow> Inl Null_deref
                   | Some a \<Rightarrow> bindE (tlb_refill s pd la a) (\<lambda>s. Inr (s, False)))
             in if (case ptep of None \<Rightarrow> True | Some a \<Rightarrow> rd s a AND PTE_P = 0) then
                  bindE (case check_mm_struct s of
                           Some m \<Rightarrow> bindE (assertE idle) (\<lambda>_. Inr (Some m))
                         | None \<Rightarrow> (case cur of None \<Rightarrow> Inl Panicked | Some m \<Rightarrow> Inr m)) (\<lambda>mm.
                  case mm of
                    None \<Rightarrow> Inl Assert_failed
                  | Some m \<Rightarrow>
                      bindE (assertE (pgdir (mms s m) = Some pd)) (\<lambda>_.
                      let error_code = (if drop_bit 2 cause AND 0x1f = Exc_TLBS then 0x2 else 0)
                      in bindE (do_pgfault s m error_code la) (\<lambda>(s, r).
                         if r \<noteq> 0 then
                           (if cur = None then Inl Panicked
                            else if status AND 0x10 = 0 then Inl Panicked
                            else Inr (s, True))
                         else bindE (find_pte s pd la) (refill s))))
                else refill s ptep))"

end
