(* ===== verification/Vmm_Props.thy ===== *)
theory Vmm_Props
  imports Vmm Vm_Map
begin

unbundle bit_operations_syntax

text \<open>
  The areas of an address space stay sorted and disjoint (\<open>vma_inv\<close>); looking up, inserting and checking them is exact.
  On top of it the page fault handler and, with the TLB management, the whole treatment of a TLB miss.
\<close>

section \<open>The list of areas\<close>

definition apart :: "vm \<Rightarrow> nat \<Rightarrow> nat \<Rightarrow> bool" where
  "apart s u v \<longleftrightarrow> vm_end (vmas s u) \<le> vm_start (vmas s v) \<or> vm_end (vmas s v) \<le> vm_start (vmas s u)"

definition vma_inv :: "vm \<Rightarrow> nat \<Rightarrow> nat list \<Rightarrow> bool" where
  "vma_inv s m vs \<longleftrightarrow>
     clist (vlinks s) (Mmap_list m) (map List_link vs) \<and> map_count (mms s m) = int (length vs) \<and>
     sorted_wrt (\<lambda>u v. vm_end (vmas s u) \<le> vm_start (vmas s v)) vs \<and>
     (\<forall>v \<in> set vs. vm_start (vmas s v) < vm_end (vmas s v)) \<and>
     (\<forall>v. mmap_cache (mms s m) = Some v \<longrightarrow> v \<in> set vs)"

lemma vma_invD:
  assumes "vma_inv s m vs"
  shows "clist (vlinks s) (Mmap_list m) (map List_link vs)" "vma_fuel s m = length vs + 1"
    "sorted_wrt (\<lambda>u v. vm_end (vmas s u) \<le> vm_start (vmas s v)) vs"
    "v \<in> set vs \<Longrightarrow> vm_start (vmas s v) < vm_end (vmas s v)" "mmap_cache (mms s m) = Some v \<Longrightarrow> v \<in> set vs" "distinct vs"
proof -
  show "clist (vlinks s) (Mmap_list m) (map List_link vs)" "vma_fuel s m = length vs + 1"
    "sorted_wrt (\<lambda>u v. vm_end (vmas s u) \<le> vm_start (vmas s v)) vs"
    "v \<in> set vs \<Longrightarrow> vm_start (vmas s v) < vm_end (vmas s v)" "mmap_cache (mms s m) = Some v \<Longrightarrow> v \<in> set vs"
    using assms by (simp_all add: vma_inv_def vma_fuel_def)
  then show "distinct vs" by (auto simp: clist_def distinct_map)
qed

lemma upd_mm_fields [simp]:
  "vlinks (upd_mm m f s) = vlinks s" "vmas (upd_mm m f s) = vmas s" "mms (upd_mm m f s) = (mms s)(m := f (mms s m))"
  "frames (upd_mm m f s) = frames s" "vpmm (upd_mm m f s) = vpmm s" "hw (upd_mm m f s) = hw s" "cur_pgdir (upd_mm m f s) = cur_pgdir s"
  "tlb_algo_empty (upd_mm m f s) = tlb_algo_empty s" "tlb_algo_n (upd_mm m f s) = tlb_algo_n s"
  "tlb_algo_hi (upd_mm m f s) = tlb_algo_hi s" "tlb_algo_ptr (upd_mm m f s) = tlb_algo_ptr s"
  "swap_init_ok (upd_mm m f s) = swap_init_ok s" "check_mm_struct (upd_mm m f s) = check_mm_struct s"
  "pgfault_num (upd_mm m f s) = pgfault_num s"
  by (simp_all add: upd_mm_def)

lemma next_area:
  assumes "vma_inv s m (xs @ ys)"
  shows "list_next (vlinks s) (last (Mmap_list m # map List_link xs)) = hd (map List_link ys @ [Mmap_list m])"
  using cl.rep_nxt [of "vlinks s" "Mmap_list m" "map List_link xs" "map List_link ys"] vma_invD(1) [OF assms] by simp

lemma find_vma_loop_eq:
  assumes "vma_inv s m vs"
  shows "vs = xs @ ys \<Longrightarrow> length ys < k \<Longrightarrow>
    find_vma_loop k s addr (Mmap_list m) (last (Mmap_list m # map List_link xs)) = Inr (List.find (in_vma s addr) ys)"
proof (induction ys arbitrary: xs k)
  case Nil
  then show ?case using next_area [of s m xs "[]"] assms by (cases k) (simp_all del: last.simps)
next
  case (Cons v ys)
  from Cons.prems(2) obtain k' where k: "k = Suc k'" "length ys < k'" by (cases k) simp_all
  have "list_next (vlinks s) (last (Mmap_list m # map List_link xs)) = List_link v"
    using next_area [of s m xs "v # ys"] assms Cons.prems(1) by simp
  then show ?case using Cons.IH [of "xs @ [v]" k'] Cons.prems(1) k by (simp add: le2vma_def del: last.simps) simp
qed

lemma area_unique:
  assumes "vma_inv s m vs" "u \<in> set vs" "v \<in> set vs" "in_vma s a u" "in_vma s a v"
  shows "u = v"
proof -
  obtain i j where ij: "i < length vs" "vs ! i = u" "j < length vs" "vs ! j = v"
    using assms(2,3) by (metis in_set_conv_nth)
  have "vm_end (vmas s (vs ! i)) \<le> vm_start (vmas s (vs ! j))" if "i < j" "j < length vs" for i j
    using vma_invD(3) [OF assms(1)] that by (simp add: sorted_wrt_iff_nth_less)
  then show ?thesis using ij assms(4,5) by (cases i j rule: linorder_cases) (fastforce simp: in_vma_def)+
qed

lemma find_area:
  assumes "vma_inv s m vs" "v \<in> set vs" "in_vma s a v"
  shows "List.find (in_vma s a) vs = Some v"
proof (cases "List.find (in_vma s a) vs")
  case None
  then show ?thesis using assms(2,3) by (auto simp: find_None_iff)
next
  case (Some w)
  then have "in_vma s a w" "w \<in> set vs" by (metis find_Some_iff nth_mem)+
  then show ?thesis using Some area_unique [OF assms(1)] assms(2,3) by blast
qed

lemma find_vma_eq:
  assumes "vma_inv s m vs"
  shows "find_vma s (Some m) addr = Inr (case List.find (in_vma s addr) vs of
     None \<Rightarrow> (s, None) | Some v \<Rightarrow> (upd_mm m (\<lambda>g. g\<lparr>mmap_cache := Some v\<rparr>) s, Some v))"
proof -
  have "find_vma_loop (vma_fuel s m) s addr (Mmap_list m) (Mmap_list m) = Inr (List.find (in_vma s addr) vs)"
    using find_vma_loop_eq [OF assms, of "[]" vs] vma_invD(2) [OF assms] by (simp del: find_vma_loop.simps)
  then show ?thesis using vma_invD(5) [OF assms] find_area [OF assms]
    by (auto simp: find_vma_def split: option.splits)
qed

lemma vma_inv_cache:
  assumes "vma_inv s m vs" "v \<in> set vs"
  shows "vma_inv (upd_mm m (\<lambda>g. g\<lparr>mmap_cache := Some v\<rparr>) s) m vs"
  using assms by (simp add: vma_inv_def)

section \<open>Inserting an area\<close>

lemma insert_vma_loop_eq:
  assumes "vma_inv s m vs"
  shows "vs = xs @ ys \<Longrightarrow> length ys < k \<Longrightarrow>
    insert_vma_loop k s v (Mmap_list m) (last (Mmap_list m # map List_link xs)) =
      Inr (last (Mmap_list m # map List_link (xs @ takeWhile (\<lambda>u. vm_start (vmas s u) \<le> vm_start (vmas s v)) ys)))"
proof (induction ys arbitrary: xs k)
  case Nil
  then show ?case using next_area [of s m xs "[]"] assms by (cases k) (simp_all del: last.simps)
next
  case (Cons u ys)
  from Cons.prems(2) obtain k' where k: "k = Suc k'" "length ys < k'" by (cases k) simp_all
  have "list_next (vlinks s) (last (Mmap_list m # map List_link xs)) = List_link u"
    using next_area [of s m xs "u # ys"] assms Cons.prems(1) by simp
  moreover have "last (Mmap_list m # map List_link (xs @ [u])) = List_link u" by simp
  ultimately show ?case using Cons.IH [of "xs @ [u]" k'] Cons.prems(1) k by (auto simp: le2vma_def not_less simp del: last.simps)
qed

lemma overlap_checks:
  assumes inv: "vma_inv s m vs" and v: "vm_start (vmas s v) < vm_end (vmas s v)"
    and xs: "xs = takeWhile (\<lambda>u. vm_start (vmas s u) \<le> vm_start (vmas s v)) vs"
    and ys: "ys = dropWhile (\<lambda>u. vm_start (vmas s u) \<le> vm_start (vmas s v)) vs"
  shows "(xs \<noteq> [] \<longrightarrow> vm_end (vmas s (last xs)) \<le> vm_start (vmas s v)) \<and>
    (ys \<noteq> [] \<longrightarrow> vm_end (vmas s v) \<le> vm_start (vmas s (hd ys))) \<longleftrightarrow> (\<forall>u \<in> set vs. apart s u v)" (is "?l \<longleftrightarrow> ?r")
proof
  have vs: "vs = xs @ ys" by (simp add: xs ys)
  note srt = vma_invD(3) [OF inv, unfolded vs] and ne = vma_invD(4) [OF inv]
  assume l: ?l
  show ?r
  proof
    fix u assume "u \<in> set vs"
    then consider "u \<in> set xs" | "u \<in> set ys" using vs by auto
    then show "apart s u v"
    proof cases
      case 1
      then have e: "butlast xs @ [last xs] = xs" by (cases xs rule: rev_cases) auto
      have "sorted_wrt (\<lambda>u v. vm_end (vmas s u) \<le> vm_start (vmas s v)) (butlast xs @ [last xs])"
        "u \<in> set (butlast xs @ [last xs])" unfolding e using srt 1 by (simp_all add: sorted_wrt_append)
      then have "u = last xs \<or> vm_end (vmas s u) \<le> vm_start (vmas s (last xs))" by (auto simp: sorted_wrt_append)
      moreover have "vm_start (vmas s (last xs)) < vm_end (vmas s (last xs))" 
        using 1 vs by (intro ne) (cases xs rule: rev_cases, auto)
      ultimately show ?thesis using l 1 by (auto simp: apart_def)
    next
      case 2
      then have "u = hd ys \<or> vm_end (vmas s (hd ys)) \<le> vm_start (vmas s u)"
        using srt by (cases ys) (auto simp: sorted_wrt_append)
      moreover have "vm_start (vmas s (hd ys)) < vm_end (vmas s (hd ys))" 
        using 2 vs by (intro ne) (cases ys, auto)
      ultimately show ?thesis using l 2 by (auto simp: apart_def)
    qed
  qed
next
  have vs: "vs = xs @ ys" by (simp add: xs ys)
  note ne = vma_invD(4) [OF inv]
  assume r: ?r
  show ?l
  proof (intro conjI impI)
    assume "xs \<noteq> []"
    then have "last xs \<in> set (takeWhile (\<lambda>u. vm_start (vmas s u) \<le> vm_start (vmas s v)) vs)" using xs by simp
    note t = set_takeWhileD [OF this]
    from r t have "apart s (last xs) v" by blast
    then show "vm_end (vmas s (last xs)) \<le> vm_start (vmas s v)" unfolding apart_def
      using order_trans [of "vm_end (vmas s v)" "vm_start (vmas s (last xs))" "vm_start (vmas s v)"] t v by auto
  next
    assume y: "ys \<noteq> []"
    have h: "\<not> vm_start (vmas s (hd ys)) \<le> vm_start (vmas s v)"
      using hd_dropWhile [of "\<lambda>u. vm_start (vmas s u) \<le> vm_start (vmas s v)" vs] y unfolding ys by simp
    have h: "\<not> vm_start (vmas s (hd ys)) \<le> vm_start (vmas s v)" "hd ys \<in> set vs" using h y unfolding vs by simp_all
    from r h(2) have "apart s (hd ys) v" by blast
    then show "vm_end (vmas s v) \<le> vm_start (vmas s (hd ys))" unfolding apart_def
      using order_trans [of "vm_start (vmas s (hd ys))" "vm_end (vmas s (hd ys))" "vm_start (vmas s v)"] h(1) ne [OF h(2)] by auto
  qed
qed

lemma upd_vma_fields [simp]:
  "vlinks (upd_vma v f s) = vlinks s" "mms (upd_vma v f s) = mms s" "vmas (upd_vma v f s) = (vmas s)(v := f (vmas s v))"
  by (simp_all add: upd_vma_def)

lemma insert_vma_ok:
  assumes inv: "vma_inv s m vs" and new: "v \<notin> set vs" and v: "vm_start (vmas s v) < vm_end (vmas s v)"
    and xs: "xs = takeWhile (\<lambda>u. vm_start (vmas s u) \<le> vm_start (vmas s v)) vs"
    and ys: "ys = dropWhile (\<lambda>u. vm_start (vmas s u) \<le> vm_start (vmas s v)) vs"
  shows "insert_vma_struct s m v =
    (if \<forall>u \<in> set vs. apart s u v
     then Inr (upd_mm m (\<lambda>g. g\<lparr>map_count := map_count g + 1\<rparr>)
            (upd_vma v (\<lambda>g. g\<lparr>vm_mm := Some m\<rparr>) s\<lparr>vlinks := list_add_after (vlinks s) (last (Mmap_list m # map List_link xs)) (List_link v)\<rparr>))
     else Inl Assert_failed)"
proof -
  have vs: "vs = xs @ ys" by (simp add: xs ys)
  note ne = vma_invD(4) [OF inv]
  let ?p = "last (Mmap_list m # map List_link xs)"
  have l: "insert_vma_loop (vma_fuel s m) s v (Mmap_list m) (Mmap_list m) = Inr ?p"
    using insert_vma_loop_eq [OF inv, of "[]" vs] vma_invD(2) [OF inv] xs by (simp del: insert_vma_loop.simps)
  have n: "list_next (vlinks s) ?p = hd (map List_link ys @ [Mmap_list m])" using next_area [of s m xs ys] inv vs by simp
  have p: "if xs = [] then ?p = Mmap_list m else ?p = List_link (last xs)" by (simp add: last_map)
  have c1: "xs \<noteq> [] \<Longrightarrow> vm_start (vmas s (last xs)) < vm_end (vmas s (last xs))" using vs by (intro ne) auto
  have c2: "ys \<noteq> [] \<Longrightarrow> vm_start (vmas s (hd ys)) < vm_end (vmas s (hd ys))" using vs by (intro ne) auto
  show ?thesis unfolding overlap_checks [OF inv v xs ys, symmetric] insert_vma_struct_def Let_def using v l n p c1 c2
    by (cases "xs = []"; cases "ys = []") (auto simp: check_vma_overlap_def guardE_def le2vma_def hd_append hd_map simp del: last.simps)
qed

lemma insert_vma_inv:
  assumes inv: "vma_inv s m vs" and new: "v \<notin> set vs" and v: "vm_start (vmas s v) < vm_end (vmas s v)"
    and ap: "\<forall>u \<in> set vs. apart s u v"
  shows "\<exists>s' xs ys. insert_vma_struct s m v = Inr s' \<and> vs = xs @ ys \<and> vma_inv s' m (xs @ v # ys) \<and>
    (\<forall>u. vm_start (vmas s' u) = vm_start (vmas s u) \<and> vm_end (vmas s' u) = vm_end (vmas s u) \<and> vm_flags (vmas s' u) = vm_flags (vmas s u))"
proof -
  define xs where xs: "xs = takeWhile (\<lambda>u. vm_start (vmas s u) \<le> vm_start (vmas s v)) vs"
  define ys where ys: "ys = dropWhile (\<lambda>u. vm_start (vmas s u) \<le> vm_start (vmas s v)) vs"
  have vs: "vs = xs @ ys" by (simp add: xs ys)
  let ?h = "list_add_after (vlinks s) (last (Mmap_list m # map List_link xs)) (List_link v)"
  let ?s = "upd_mm m (\<lambda>g. g\<lparr>map_count := map_count g + 1\<rparr>) (upd_vma v (\<lambda>g. g\<lparr>vm_mm := Some m\<rparr>) s\<lparr>vlinks := ?h\<rparr>)"
  have run: "insert_vma_struct s m v = Inr ?s" using insert_vma_ok [OF inv new v xs ys] ap by simp
  have c: "clist ?h (Mmap_list m) (map List_link xs @ List_link v # map List_link ys)"
    by (rule clist_add_after) (use vma_invD(1) [OF inv] new vs in auto)
  have chk: "xs \<noteq> [] \<Longrightarrow> vm_end (vmas s (last xs)) \<le> vm_start (vmas s v)"
    "ys \<noteq> [] \<Longrightarrow> vm_end (vmas s v) \<le> vm_start (vmas s (hd ys))"
    using overlap_checks [OF inv v xs ys] ap by blast+
  have below: "vm_end (vmas s u) \<le> vm_start (vmas s v)" if "u \<in> set xs" for u
    using ap that set_takeWhileD [OF that [unfolded xs]] v order_trans [of "vm_end (vmas s v)" "vm_start (vmas s u)" "vm_start (vmas s v)"]
    by (auto simp: apart_def)
  have above: "vm_end (vmas s v) \<le> vm_start (vmas s u)" if "u \<in> set ys" for u
  proof -
    have "u = hd ys \<or> vm_end (vmas s (hd ys)) \<le> vm_start (vmas s u)"
      using vma_invD(3) [OF inv] that unfolding vs by (cases ys) (auto simp: sorted_wrt_append)
    moreover have h: "vm_start (vmas s (hd ys)) < vm_end (vmas s (hd ys))"
      using that vs by (intro vma_invD(4) [OF inv]) (cases ys, auto)
    moreover have c: "vm_end (vmas s v) \<le> vm_start (vmas s (hd ys))" using that by (intro chk(2)) auto
    ultimately show ?thesis using order_trans [OF c order_trans [OF less_imp_le [OF h]]] by auto
  qed
  have srt: "sorted_wrt (\<lambda>u v. vm_end (vmas s u) \<le> vm_start (vmas s v)) (xs @ v # ys)"
  proof -
    have "vm_end (vmas s x) \<le> vm_start (vmas s y)" if "x \<in> set xs" "y \<in> set ys" for x y
      using vma_invD(3) [OF inv] that unfolding vs by (simp add: sorted_wrt_append)
    moreover have "sorted_wrt (\<lambda>u v. vm_end (vmas s u) \<le> vm_start (vmas s v)) xs"
      "sorted_wrt (\<lambda>u v. vm_end (vmas s u) \<le> vm_start (vmas s v)) ys"
      using vma_invD(3) [OF inv] unfolding vs by (simp_all add: sorted_wrt_append)
    ultimately show ?thesis using below above by (auto simp: sorted_wrt_append)
  qed
  have fl: "vm_start (vmas ?s u) = vm_start (vmas s u)" "vm_end (vmas ?s u) = vm_end (vmas s u)" "vm_flags (vmas ?s u) = vm_flags (vmas s u)" for u
    by simp_all
  have "vma_inv ?s m (xs @ v # ys)" unfolding vma_inv_def fl
    using c inv v srt vs by (auto simp: vma_inv_def)
  then show ?thesis using run vs fl by blast
qed

lemma vma_inv_other:
  assumes "vma_inv s m vs" "v \<notin> set vs"
  shows "vma_inv (upd_vma v f s) m vs"
proof -
  have "sorted_wrt (\<lambda>a b. vm_end (vmas (upd_vma v f s) a) \<le> vm_start (vmas (upd_vma v f s) b)) vs"
    using vma_invD(3) [OF assms(1)] by (rule sorted_wrt_mono_rel [rotated]) (use assms(2) in auto)
  then show ?thesis using assms by (auto simp: vma_inv_def)
qed

section \<open>Checking user memory\<close>

definition allowed :: "vm \<Rightarrow> bool \<Rightarrow> nat \<Rightarrow> u32 \<Rightarrow> bool" where
  "allowed s w v a \<longleftrightarrow> in_vma s a v \<and> vm_flags (vmas s v) AND (if w then VM_WRITE else VM_READ) \<noteq> 0 \<and>
     (w \<and> vm_flags (vmas s v) AND VM_STACK \<noteq> 0 \<longrightarrow> vm_start (vmas s v) + PGSIZE \<le> a)"

lemma user_mem_loop_exact:
  "\<lbrakk>vma_inv s m vs; unat en - unat st < k\<rbrakk> \<Longrightarrow>
   \<exists>s'. user_mem_loop k s m st en w = Inr (s', \<forall>a. st \<le> a \<and> a < en \<longrightarrow> (\<exists>v \<in> set vs. allowed s w v a)) \<and>
     vma_inv s' m vs \<and> vmas s' = vmas s"
proof (induction k arbitrary: s st)
  case (Suc k)
  note inv = Suc.prems(1)
  show ?case
  proof (cases "st < en")
    case False
    then have "\<not> (st \<le> a \<and> a < en)" for a by auto
    then show ?thesis using False inv by auto
  next
    case lt: True
    show ?thesis
    proof (cases "List.find (in_vma s st) vs")
      case None
      then have "\<not> (\<exists>v \<in> set vs. allowed s w v st)" by (auto simp: find_None_iff allowed_def)
      then have "\<not> (\<forall>a. st \<le> a \<and> a < en \<longrightarrow> (\<exists>v \<in> set vs. allowed s w v a))" using lt by blast
      then show ?thesis using None lt inv find_vma_eq [OF inv, of st] by auto
    next
      case (Some v)
      then have v: "in_vma s st v" "v \<in> set vs" by (metis find_Some_iff nth_mem)+
      let ?s = "upd_mm m (\<lambda>g. g\<lparr>mmap_cache := Some v\<rparr>) s"
      have inv': "vma_inv ?s m vs" by (rule vma_inv_cache [OF inv v(2)])
      have own: "allowed s w u a \<longleftrightarrow> u = v \<and> allowed s w v a" if "in_vma s a v" "u \<in> set vs" for u a
        using area_unique [OF inv that(2) v(2) _ that(1)] by (auto simp: allowed_def)
      show ?thesis
      proof (cases "allowed s w v st")
        case False
        then have "\<not> (\<exists>u \<in> set vs. allowed s w u st)" using own [OF v(1)] by blast
        then have n: "\<not> (\<forall>a. st \<le> a \<and> a < en \<longrightarrow> (\<exists>v \<in> set vs. allowed s w v a))" using lt by blast
        have "user_mem_loop (Suc k) s m st en w = Inr (?s, False)"
          using lt find_vma_eq [OF inv, of st] Some False v(1) by (auto simp: allowed_def in_vma_def)
        then show ?thesis using n inv' by auto
      next
        case True
        have mono: "allowed s w v a" if "st \<le> a" "a < vm_end (vmas s v)" for a
          using True that order_trans [of "vm_start (vmas s v)" st a] order_trans [of "vm_start (vmas s v) + PGSIZE" st a]
          by (auto simp: allowed_def in_vma_def)
        have fuel: "unat en - unat (vm_end (vmas s v)) < k"
          using Suc.prems(2) lt v(1) by (auto simp: in_vma_def word_less_nat_alt)
        have step: "user_mem_loop (Suc k) s m st en w = user_mem_loop k ?s m (vm_end (vmas s v)) en w"
          using lt find_vma_eq [OF inv, of st] Some True v(1) by (auto simp: allowed_def in_vma_def not_le)
        have iff: "(\<forall>a. st \<le> a \<and> a < en \<longrightarrow> (\<exists>u \<in> set vs. allowed s w u a)) \<longleftrightarrow>
          (\<forall>a. vm_end (vmas s v) \<le> a \<and> a < en \<longrightarrow> (\<exists>u \<in> set vs. allowed ?s w u a))" (is "?L \<longleftrightarrow> ?R")
        proof -
          have al: "allowed ?s w u a = allowed s w u a" for u a by (simp add: allowed_def in_vma_def)
          have "st \<le> vm_end (vmas s v)" using v(1) by (simp add: in_vma_def less_imp_le)
          then show ?thesis unfolding al using mono v(2) by (meson linorder_not_less order_trans)
        qed
        show ?thesis unfolding step iff using Suc.IH [OF inv' fuel] by simp
      qed
    qed
  qed
qed simp

section \<open>Page faults\<close>

lemma free_frames_usable: "free_frames m F \<Longrightarrow> p \<in> F \<Longrightarrow> p \<in> usable_pages m"
  using free_frames_less [of m F p]
  by (auto simp: free_frames_def pmm_inv_def blocks_inv_def usable_pages_def PageReserved_def)

text \<open>Taking a page from the allocator.\<close>

lemma vm_ok_alloc:
  assumes ok: "vm_ok s P F" and m: "free_frames m F'" "F' \<subseteq> F" "usable_pages m = usable_pages (vpmm s)" "npage m = npage (vpmm s)"
    "\<forall>x. ref (page_tab m x) = ref (page_tab (vpmm s) x)"
  shows "vm_ok (s\<lparr>vpmm := m\<rparr>) P F'"
proof -
  note D = vm_okD [OF ok]
  have e: "mappings (s\<lparr>vpmm := m\<rparr>) P q = mappings s P q" "table_frames (s\<lparr>vpmm := m\<rparr>) P = table_frames s P" for q
    by (simp_all add: mappings_def table_frames_def)
  have "maps_ok (s\<lparr>vpmm := m\<rparr>) P F'" using D(3) m(2,3,5) unfolding maps_ok_def e by auto
  moreover have "spaces_ok (s\<lparr>vpmm := m\<rparr>) P F'" by (rule spaces_pmm [OF D(1) m(4)]) (use m(2) in blast)
  ultimately show ?thesis using m(1) by (simp add: vm_ok_def)
qed

lemma pgdir_alloc_page_ok:
  assumes ok: "vm_ok s P F" and pd: "pd \<in> P" and la: "la < USERTOP" "bit (frames s pd (PDX la)) 0" and F: "F \<noteq> {}"
    and perm: "PPN perm = 0" "\<not> bit perm 7" and sw: "\<not> swap_init_ok s \<or> check_mm_struct s = None"
  obtains s' F' p where "pgdir_alloc_page s pd la perm = Inr (s', Some p)" "vm_ok s' P F'" "p \<in> F"
    "\<And>pd' v. pd' \<in> P \<Longrightarrow> user_page v \<Longrightarrow> pv s' pd' v = (if pd' = pd \<and> v = vpn la then page2pa p OR 1 OR perm else pv s pd' v)"
    "rest_same s s'"
proof -
  note D = vm_okD [OF ok]
  obtain m p where m: "alloc_pages s 1 = Inr (s\<lparr>vpmm := m\<rparr>, Some p)" "p \<in> F" "free_frames m (F - {p})"
    "usable_pages m = usable_pages (vpmm s)" "npage m = npage (vpmm s)" "\<forall>x. ref (page_tab m x) = ref (page_tab (vpmm s) x)"
    using alloc_pages_ok [OF D(2) F] by blast
  let ?s = "s\<lparr>vpmm := m\<rparr>"
  have ok': "vm_ok ?s P (F - {p})" by (rule vm_ok_alloc [OF ok m(3) _ m(4-6)]) blast
  have pg: "p \<in> usable_pages (vpmm ?s)" "p \<notin> F - {p}" "p \<notin> table_frames ?s P"
    using free_frames_usable [OF D(2) m(2)] m(4) spaces_okD(4) [OF D(1)] m(2) by (auto simp: table_frames_def)
  have dir: "bit (frames ?s pd (PDX la)) 0 \<or> F - {p} \<noteq> {}" using la(2) by simp
  obtain s' F' where s': "page_insert ?s pd p la perm = Inr (s', 0)" "vm_ok s' P F'"
    "\<And>pd' v. pd' \<in> P \<Longrightarrow> user_page v \<Longrightarrow> pv s' pd' v = (if pd' = pd \<and> v = vpn la then page2pa p OR 1 OR perm else pv s pd' v)"
    "rest_same ?s s'"
    by (rule page_insert_ok [OF ok' pd la(1) dir pg perm refl refl]) (simp add: that)
  have rs: "rest_same s s'" by (rule rest_same_trans [OF rest_same_steps(2) s'(4)])
  then have "pgdir_alloc_page s pd la perm = Inr (s', Some p)"
    using m(1) s'(1) sw by (auto simp: pgdir_alloc_page_def rest_same_def split: option.splits)
  then show ?thesis by (rule that [OF _ s'(2) m(2) s'(3) rs])
qed

lemma vm_ok_rest:
  assumes "vm_ok s P F" "vpmm s' = vpmm s" "frames s' = frames s" "hw s' = hw s" "cur_pgdir s' = cur_pgdir s"
    "tlb_algo_empty s' = tlb_algo_empty s" "tlb_algo_n s' = tlb_algo_n s" "tlb_algo_hi s' = tlb_algo_hi s" "tlb_algo_ptr s' = tlb_algo_ptr s"
  shows "vm_ok s' P F" "pv s' = pv s"
proof -
  show pv: "pv s' = pv s" using assms(3) by (simp add: fun_eq_iff pv_def)
  have sp: "space_ok s' = space_ok s" "space_frames s' = space_frames s"
    using assms(2,3) by (simp_all add: fun_eq_iff space_ok_def space_frames_def)
  have "tlb_inv s' c = tlb_inv s c" for c unfolding tlb_inv_def pv assms(4-9) ..
  then show "vm_ok s' P F"
    using assms(1) unfolding vm_ok_def spaces_ok_def maps_ok_def mappings_def table_frames_def pv sp assms(2,5) by simp
qed

lemma vma_inv_rest: "vma_inv s m vs \<Longrightarrow> vlinks s' = vlinks s \<Longrightarrow> vmas s' = vmas s \<Longrightarrow> mms s' = mms s \<Longrightarrow> vma_inv s' m vs"
  by (simp add: vma_inv_def)

lemma ROUNDDOWN_page: "vpn (ROUNDDOWN la PGSIZE) = vpn la" "la < USERTOP \<Longrightarrow> ROUNDDOWN la PGSIZE < USERTOP"
proof -
  have "unat (ROUNDDOWN la PGSIZE) = unat la div 4096 * 4096"
    by (simp add: unat_ROUNDDOWN_div)
  then show v: "vpn (ROUNDDOWN la PGSIZE) = vpn la" by simp
  show "la < USERTOP \<Longrightarrow> ROUNDDOWN la PGSIZE < USERTOP" unfolding user_vpn [symmetric] v .
qed

definition fault_allowed :: "u32 \<Rightarrow> u32 \<Rightarrow> bool" where
  "fault_allowed e fl \<longleftrightarrow> (if e = 0 then fl AND (VM_READ OR VM_EXEC) \<noteq> 0 else fl AND VM_WRITE \<noteq> 0)"

definition fault_perm :: "u32 \<Rightarrow> u32" where
  "fault_perm fl = (if fl AND VM_WRITE \<noteq> 0 then PTE_U OR PTE_W else PTE_U)"

lemma fault_perm: "PPN (fault_perm fl) = 0" "\<not> bit (fault_perm fl) 7" "bit (fault_perm fl) 1 \<longleftrightarrow> fl AND VM_WRITE \<noteq> 0"
  by (simp_all add: fault_perm_def PPN_def)

lemma do_pgfault_ok:
  assumes inv: "vma_inv s m vs" and ok: "vm_ok s P F" and pd: "pgdir (mms s m) = Some pd" "pd \<in> P" and a: "addr < USERTOP"
    and v: "v \<in> set vs" "in_vma s addr v" and e: "e = 0 \<or> e = 2" "fault_allowed e (vm_flags (vmas s v))"
    and z: "pv s pd (vpn addr) = 0" and sw: "\<not> swap_init_ok s \<or> check_mm_struct s = None" and F: "\<And>f. \<not> F \<subseteq> {f}"
  obtains s' F' p where "do_pgfault s m e addr = Inr (s', 0)" "vm_ok s' P F'" "p \<in> F" "vma_inv s' m vs"
    "\<And>pd' w. pd' \<in> P \<Longrightarrow> user_page w \<Longrightarrow>
       pv s' pd' w = (if pd' = pd \<and> w = vpn addr then page2pa p OR 1 OR fault_perm (vm_flags (vmas s v)) else pv s pd' w)"
    "cur_pgdir s' = cur_pgdir s" "check_mm_struct s' = check_mm_struct s"
proof -
  let ?s2 = "(upd_mm m (\<lambda>g. g\<lparr>mmap_cache := Some v\<rparr>) s)\<lparr>pgfault_num := pgfault_num s + 1\<rparr>" and ?a = "ROUNDDOWN addr PGSIZE"
  let ?perm = "fault_perm (vm_flags (vmas s v))"
  have f: "find_vma s (Some m) addr = Inr (upd_mm m (\<lambda>g. g\<lparr>mmap_cache := Some v\<rparr>) s, Some v)"
    using find_vma_eq [OF inv, of addr] find_area [OF inv v] by simp
  have ok2: "vm_ok ?s2 P F" and pv2: "pv ?s2 = pv s" by (rule vm_ok_rest [OF ok], simp_all)+
  have inv2: "vma_inv ?s2 m vs" by (rule vma_inv_rest [OF vma_inv_cache [OF inv v(1)]]) simp_all
  note ar = ROUNDDOWN_page(2) [OF a]
  have Fne: "bit (frames ?s2 pd (PDX ?a)) 0 \<or> F \<noteq> {}" using F by blast
  obtain s3 F3 where s3: "get_pte ?s2 pd ?a True = Inr (s3, Some (pfn (frames s3 pd (PDX ?a)), PTX ?a))" "vm_ok s3 P F3"
    "bit (frames s3 pd (PDX ?a)) 0" "F3 \<subseteq> F"
    "\<And>pd' v. pd' \<in> P \<Longrightarrow> user_page v \<Longrightarrow> pv s3 pd' v = pv s pd' v" "rest_same ?s2 s3" "\<exists>f. F - {f} \<subseteq> F3"
    by (rule get_pte_create [OF ok2 pd(2) ar Fne]) (rule that, simp_all add: pv2)
  have u: "user_page (vpn addr)" using a by (simp only: user_vpn)
  have rd3: "rd s3 (pfn (frames s3 pd (PDX ?a)), PTX ?a) = 0"
    using rd_pv [OF s3(3)] s3(5) [OF pd(2) u] z unfolding ROUNDDOWN_page(1) by simp
  have F3: "F3 \<noteq> {}" using s3(7) F by blast
  have sw3: "\<not> swap_init_ok s3 \<or> check_mm_struct s3 = None" using sw s3(6) by (auto simp: rest_same_def)
  obtain s' F' p where s': "pgdir_alloc_page s3 pd ?a ?perm = Inr (s', Some p)" "vm_ok s' P F'" "p \<in> F3"
    "\<And>pd' v. pd' \<in> P \<Longrightarrow> user_page v \<Longrightarrow> pv s' pd' v = (if pd' = pd \<and> v = vpn ?a then page2pa p OR 1 OR ?perm else pv s3 pd' v)"
    "rest_same s3 s'"
    by (rule pgdir_alloc_page_ok [OF s3(2) pd(2) ar s3(3) F3 fault_perm(1,2) sw3]) (rule that)
  have rs: "rest_same ?s2 s'" by (rule rest_same_trans [OF s3(6) s'(5)])
  have run: "do_pgfault s m e addr = Inr (s', 0)"
    using e v(2) pd(1) s3(1) rd3 s'(1) unfolding do_pgfault_def f
    by (auto simp: Let_def fault_allowed_def in_vma_def not_less [symmetric] fault_perm_def [symmetric])
  show ?thesis
    by (rule that [OF run s'(2) _ vma_inv_rest [OF inv2]])
      (use s'(3,4) s3(4,5) rs in \<open>auto simp: ROUNDDOWN_page(1) rest_same_def\<close>)
qed

section \<open>TLB misses\<close>

lemma vm_ok_tlb:
  assumes ok: "vm_ok s P F" and pd: "pd \<in> P" "cur_pgdir s = Some pd" and t: "tlb_only pd s s'" "tlb_inv s' pd"
    and e: "\<And>v. user_page v \<Longrightarrow> bit (pv s' pd v) 0 = bit (pv s pd v) 0" "\<And>v. user_page v \<Longrightarrow> pfn (pv s' pd v) = pfn (pv s pd v)"
  shows "vm_ok s' P F"
proof -
  note D = vm_okD [OF ok] and fl = tlb_only_fields [OF t(1)]
  have fr: "\<forall>f. f \<notin> space_frames s pd \<longrightarrow> frames s' f = frames s f" and np: "npage (vpmm s') = npage (vpmm s)"
    using t(1) by (simp_all add: tlb_only_def)
  note O = space_other_frames [OF D(1) pd(1) _ _ fr np]
  have sf: "space_frames s' pd' = space_frames s pd'" if "pd' \<in> P" for pd'
    using O(2) [OF that] tlb_only_dir [OF t(1)] by (cases "pd' = pd") auto
  have sok: "space_ok s' pd'" if "pd' \<in> P" for pd'
    using O(1) [OF that] tlb_only_space [OF t(1)] spaces_okD(3) [OF D(1) pd(1)] by (cases "pd' = pd") auto
  have "spaces_ok s' P F" using D(1) np sok sf t(2) pd fl(7) unfolding spaces_ok_def by simp
  moreover have M: "mappings s' P q = mappings s P q" for q
  proof -
    have "bit (pv s' pd' v) 0 = bit (pv s pd' v) 0 \<and> pfn (pv s' pd' v) = pfn (pv s pd' v)" if "pd' \<in> P" "user_page v" for pd' v
      using O(3) [OF that(1) _ that(2)] e that(2) by (cases "pd' = pd") auto
    then show ?thesis by (auto simp: mappings_def)
  qed
  moreover have "table_frames s' P = table_frames s P" using sf by (simp add: table_frames_def)
  ultimately show ?thesis using D(2,3) unfolding vm_ok_def maps_ok_def fl(1) by simp
qed

lemma word_of_nat_unat_u32: "of_nat (unat (x :: u32)) = x"
  by simp

lemma PTE_ADDR_new: "p < 2 ^ 20 \<Longrightarrow> PPN perm = 0 \<Longrightarrow> PTE_ADDR (page2pa p OR 1 OR perm) = page2pa p"
proof -
  assume p: "p < 2 ^ 20" "PPN perm = 0"
  have a: "PTE_ADDR y = push_bit 12 (PPN y)" for y by (simp add: PTE_ADDR_def PPN_def u32_bitwise)
  have "pfn (page2pa p OR 1 OR perm) = p" using new_entry(3) [OF p(1) refl p(2)] pfn_page2pa [OF p(1), of "1 OR perm"] p(2)
    by (simp add: or.assoc PPN_def drop_bit_or)
  then have "(of_nat (unat (PPN (page2pa p OR 1 OR perm))) :: u32) = of_nat p" by (simp add: pfn_def)
  then have "PPN (page2pa p OR 1 OR perm) = of_nat p" by (simp only: word_of_nat_unat_u32)
  then show ?thesis unfolding a page2pa_def by simp
qed

lemma tlb_miss_fault:
  assumes inv: "vma_inv s m vs" and ok: "vm_ok s P F" and pd: "pgdir (mms s m) = Some pd" "cur_pgdir s = Some pd" and a: "addr < USERTOP"
    and v: "v \<in> set vs" "in_vma s addr v" and e: "e = (if drop_bit 2 cause AND 0x1f = Exc_TLBS then 2 else 0)"
    and al: "fault_allowed e (vm_flags (vmas s v))" and z: "pv s pd (vpn addr) = 0" and sw: "check_mm_struct s = None"
    and F: "\<And>f. \<not> F \<subseteq> {f}"
  obtains s' F' p where "tlb_miss_handler s (Some (Some m)) idle addr cause status = Inr (s', False)" "vm_ok s' P F'" "p \<in> F" "vma_inv s' m vs"
    "cur_pgdir s' = Some pd" "\<exists>i < 16. pv s' pd (vpn addr) = marked (page2pa p OR 1 OR fault_perm (vm_flags (vmas s v))) i"
proof -
  let ?x = "\<lambda>p. page2pa p OR 1 OR fault_perm (vm_flags (vmas s v))"
  have u: "user_page (vpn addr)" using a by (simp only: user_vpn)
  have P: "pd \<in> P" by (rule spaces_okD(6) [OF vm_okD(1) [OF ok] pd(2)])
  have e': "e = 0 \<or> e = 2" using e by simp
  obtain s1 F1 p where s1: "do_pgfault s m e addr = Inr (s1, 0)" "vm_ok s1 P F1" "p \<in> F" "vma_inv s1 m vs"
    "\<And>pd' w. pd' \<in> P \<Longrightarrow> user_page w \<Longrightarrow> pv s1 pd' w = (if pd' = pd \<and> w = vpn addr then ?x p else pv s pd' w)"
    "cur_pgdir s1 = cur_pgdir s" "check_mm_struct s1 = check_mm_struct s"
    by (rule do_pgfault_ok [OF inv ok pd(1) P a v e' al z _ F]) (use sw that in auto)
  have pn: "p < 2 ^ 20" using free_frames_less [OF vm_okD(2) [OF ok] s1(3)] spaces_okD(2) [OF vm_okD(1) [OF ok]] by simp
  note xb = new_entry [OF pn refl fault_perm(1,2), of "vm_flags (vmas s v)"]
  have x1: "pv s1 pd (vpn addr) = ?x p" using s1(5) [OF P u] by simp
  note sp1 = spaces_okD(3) [OF vm_okD(1) [OF s1(2)] P]
  have cur1: "cur_pgdir s1 = Some pd" using s1(6) pd(2) by simp
  have b: "bit (pv s1 pd (vpn addr)) 0" "\<not> bit (pv s1 pd (vpn addr)) 7" using xb x1 by simp_all
  note dir = find_entry(1) [OF sp1 a b(1)]
  obtain s' i where s': "tlb_refill s1 pd addr (pfn (frames s1 pd (PDX addr)), PTX addr) = Inr s'" "i < 16" "tlb_inv s' pd" "tlb_only pd s1 s'"
    "pv s' pd (vpn addr) = marked (pv s1 pd (vpn addr)) i"
    "\<And>v. user_page v \<Longrightarrow> v \<noteq> vpn addr \<Longrightarrow> pv s' pd v = pv s1 pd v \<or> pv s' pd v = unmarked (pv s1 pd v)"
    by (rule tlb_refill_inv [OF spaces_okD(7) [OF vm_okD(1) [OF s1(2)] cur1] sp1 a b]) (rule that)
  have keep: "bit (pv s' pd w) 0 = bit (pv s1 pd w) 0 \<and> pfn (pv s' pd w) = pfn (pv s1 pd w)" if "user_page w" for w
    using s'(5) s'(6) [OF that] marked [OF s'(2)] unmarked by (cases "w = vpn addr") auto
  have ok': "vm_ok s' P F1" by (rule vm_ok_tlb [OF s1(2) P cur1 s'(4,3)]) (use keep in auto)
  note fl = tlb_only_fields [OF s'(4)]
  have inv': "vma_inv s' m vs" by (rule vma_inv_rest [OF s1(4) fl(2,4,5)])
  note sp = spaces_okD(3) [OF vm_okD(1) [OF ok] P]
  obtain x where x: "find_pte s pd addr = Inr x" using find_entry(5) [OF sp a] ..
  have "rd s q = 0" if "x = Some q" for q using find_entry(4) [OF sp a] x that z by simp
  then have miss: "case x of None \<Rightarrow> True | Some q \<Rightarrow> rd s q AND 1 = 0" by (auto split: option.splits)
  have "tlb_miss_handler s (Some (Some m)) idle addr cause status = Inr (s', False)"
    unfolding tlb_miss_handler_def Let_def pd(2) option.case x bindE_simps if_P [OF miss] sw
    using pd(1) s1(1) [unfolded e] find_entry(2) [OF sp1 a dir] s'(1) by simp
  then show ?thesis by (rule that [OF _ ok' s1(3) inv' fl(7) [unfolded cur1]]) (use s'(2,5) x1 in auto)
qed

section \<open>An address space with one area\<close>

definition demo_pmm :: pmm where
  "demo_pmm = \<lparr>page_tab = (\<lambda>p. \<lparr>ref = 1, flags = (if p = 0 then 2 else 0), property = (if p = 0 then 2 else 0)\<rparr>),
     plinks = \<lparr>prev_of = (\<lambda>x. if x = Free_list then Page_link 0 else Free_list), next_of = (\<lambda>x. if x = Free_list then Page_link 0 else Free_list)\<rparr>,
     nr_free = 2, npage = 8\<rparr>"

definition demo_mm :: vm where
  "demo_mm = demo_vm\<lparr>vpmm := demo_pmm,
     vlinks := \<lparr>prev_of = (\<lambda>x. if x = Mmap_list 0 then List_link 0 else Mmap_list 0),
               next_of = (\<lambda>x. if x = Mmap_list 0 then List_link 0 else Mmap_list 0)\<rparr>,
     vmas := (\<lambda>_. \<lparr>vm_mm = Some 0, vm_start = 0x7000, vm_end = 0x9000, vm_flags = 3\<rparr>),
     mms := (\<lambda>_. \<lparr>mmap_cache = None, pgdir = Some 4, map_count = 1, sm_priv = False, mm_count = 1\<rparr>)\<rparr>"

lemma demo_free: "free_frames demo_pmm {0, 1}"
proof -
  have "block_pages [(0, 2)] = {0, 1 :: nat}" by (auto simp: block_pages_def)
  moreover have "pmm_inv demo_pmm [(0, 2)]"
    by (auto simp: pmm_inv_def blocks_inv_def demo_pmm_def clist_def block_pages_def)
  ultimately show ?thesis unfolding free_frames_def by blast
qed

lemma demo_mm_ok: "vm_ok demo_mm {4} {0, 1}"
proof -
  note D = vm_okD [OF demo_ok_vm]
  have np: "npage demo_pmm = npage (vpmm demo_vm)" by (simp add: demo_pmm_def demo_vm_def)
  have tf: "{0, 1} \<subseteq> {} \<union> - table_frames demo_vm {4}" by (simp add: table_frames_def demo_frames_of)
  have u: "q \<in> usable_pages demo_pmm \<longleftrightarrow> q < 8" for q by (simp add: usable_pages_def PageReserved_def demo_pmm_def)
  have r: "ref (page_tab demo_pmm q) = ref (page_tab (vpmm demo_vm) q)" for q by (simp add: demo_pmm_def demo_vm_def)
  have p: "pfn 0x5f87 = 5" "pfn 0x6007 = 6" by (simp_all add: pfn_def PPN_nat)
  have M: "mappings demo_vm {4} q \<noteq> {} \<Longrightarrow> q = 5 \<or> q = 6" for q
    using p by (auto simp: mappings_def demo_pv split: if_splits)
  have e: "mappings (demo_vm\<lparr>vpmm := demo_pmm\<rparr>) {4} q = mappings demo_vm {4} q"
    "table_frames (demo_vm\<lparr>vpmm := demo_pmm\<rparr>) {4} = table_frames demo_vm {4}" for q by (simp_all add: mappings_def table_frames_def)
  have "maps_ok (demo_vm\<lparr>vpmm := demo_pmm\<rparr>) {4} {0, 1}"
    using D(3) u r M unfolding maps_ok_def e by fastforce
  then have "vm_ok (demo_vm\<lparr>vpmm := demo_pmm\<rparr>) {4} {0, 1}"
    using spaces_pmm [OF D(1) np tf] demo_free by (simp add: vm_ok_def)
  then show ?thesis by (rule vm_ok_rest) (simp_all add: demo_mm_def)
qed

lemma demo_mm_inv: "vma_inv demo_mm 0 [0]"
  by (simp add: vma_inv_def demo_mm_def clist_def)

lemma demo_mm_pv: "pv demo_mm = pv demo_vm"
  by (simp add: demo_mm_def fun_eq_iff pv_def)

section \<open>Properties\<close>

text \<open>
  \<^verbatim>\<open>find_vma\<close>, with its cache, finds the area that holds an address exactly when there is one, and keeps the areas
  sorted, disjoint and counted.
\<close>

theorem find_vma_exact:
  assumes "vma_inv s m vs"
  shows "\<exists>s' r. find_vma s (Some m) addr = Inr (s', r) \<and> vma_inv s' m vs \<and> vmas s' = vmas s \<and>
    (case r of None \<Rightarrow> \<forall>v \<in> set vs. \<not> in_vma s addr v | Some v \<Rightarrow> v \<in> set vs \<and> in_vma s addr v)"
proof (cases "List.find (in_vma s addr) vs")
  case None
  then show ?thesis using find_vma_eq [OF assms, of addr, unfolded None] assms by (auto simp: find_None_iff)
next
  case (Some v)
  then have "in_vma s addr v" "v \<in> set vs" by (metis find_Some_iff nth_mem)+
  then show ?thesis using find_vma_eq [OF assms, of addr] Some vma_inv_cache [OF assms] by auto
qed

theorem find_vma_exact_witness:
  "\<exists>s'. find_vma demo_mm (Some 0) 0x8fff = Inr (s', Some 0)"
  using find_vma_exact [OF demo_mm_inv, of "0x8fff"] by (auto simp: in_vma_def demo_mm_def split: option.splits)

text \<open>
  C25. \<^verbatim>\<open>mm_map\<close> on a new area \<open>v\<close>, in every case: a range outside user space, or whose first page lies in an area, is refused;
  a range apart from all areas becomes an area, and the areas stay sorted; any other overlap is not refused but stops
  the kernel at an assertion of \<^verbatim>\<open>insert_vma_struct\<close>.
\<close>

theorem mm_map_cases:
  assumes "vma_inv s m vs" "v \<notin> set vs" and st: "st = ROUNDDOWN addr PGSIZE" and en: "en = ROUNDUP (addr + len) PGSIZE"
  shows "let r = mm_map s (Some v) (Some m) addr len fl in
    if \<not> USER_ACCESS st en then r = Inr (s, - E_INVAL, None)
    else if \<exists>u \<in> set vs. in_vma s st u then \<exists>s'. r = Inr (s', - E_INVAL, None) \<and> vma_inv s' m vs
    else if \<forall>u \<in> set vs. vm_end (vmas s u) \<le> st \<or> en \<le> vm_start (vmas s u)
    then \<exists>s' xs ys. r = Inr (s', 0, Some v) \<and> vs = xs @ ys \<and> vma_inv s' m (xs @ v # ys) \<and>
      vm_start (vmas s' v) = st \<and> vm_end (vmas s' v) = en \<and> vm_flags (vmas s' v) = fl
    else r = Inl Assert_failed"
proof (cases "USER_ACCESS st en")
  case False
  then show ?thesis by (simp add: mm_map_def st en Let_def)
next
  case ua: True
  then have lt: "st < en" by (simp add: USER_ACCESS_def)
  show ?thesis
  proof (cases "List.find (in_vma s st) vs")
    case (Some u)
    then have u: "in_vma s st u" "u \<in> set vs" by (metis find_Some_iff nth_mem)+
    have "en > vm_start (vmas s u)" using u(1) lt by (auto simp: in_vma_def)
    then show ?thesis using ua Some u find_vma_eq [OF assms(1), of st] vma_inv_cache [OF assms(1) u(2)]
      by (auto simp: mm_map_def Let_def simp flip: st en)
  next
    case None
    then have no: "\<not> (\<exists>u \<in> set vs. in_vma s st u)" by (auto simp: find_None_iff)
    let ?s = "upd_vma v (\<lambda>g. g\<lparr>vm_start := st, vm_end := en, vm_flags := fl\<rparr>) s"
    have run: "mm_map s (Some v) (Some m) addr len fl = bindE (insert_vma_struct ?s m v) (\<lambda>s. Inr (s, 0, Some v))"
      using ua None find_vma_eq [OF assms(1), of st] by (simp add: mm_map_def Let_def vma_create_def flip: st en)
    have inv': "vma_inv ?s m vs" by (rule vma_inv_other [OF assms(1,2)])
    have v': "vm_start (vmas ?s v) < vm_end (vmas ?s v)" using lt by simp
    have ap: "apart ?s u v \<longleftrightarrow> vm_end (vmas s u) \<le> st \<or> en \<le> vm_start (vmas s u)" if "u \<in> set vs" for u
      using that assms(2) by (auto simp: apart_def)
    show ?thesis
    proof (cases "\<forall>u \<in> set vs. apart ?s u v")
      case True
      with insert_vma_inv [OF inv' assms(2) v'] obtain s' xs ys where "insert_vma_struct ?s m v = Inr s'" "vs = xs @ ys"
        "vma_inv s' m (xs @ v # ys)" "vm_start (vmas s' v) = st" "vm_end (vmas s' v) = en" "vm_flags (vmas s' v) = fl" by auto
      then show ?thesis using run ua no True ap by (simp add: Let_def) blast
    next
      case False
      then show ?thesis using run ua no ap insert_vma_ok [OF inv' assms(2) v' refl refl] by (auto simp: Let_def)
    qed
  qed
qed

theorem mm_map_cases_witness:
  "(\<exists>s' xs ys. mm_map demo_mm (Some 4) (Some 0) 0x400123 100 3 = Inr (s', 0, Some 4) \<and> [0] = xs @ ys \<and> vma_inv s' 0 (xs @ 4 # ys)) \<and>
   mm_map (demo_mm\<lparr>vmas := (\<lambda>_. \<lparr>vm_mm = Some 0, vm_start = 0x401000, vm_end = 0x402000, vm_flags = 3\<rparr>)\<rparr>) (Some 4) (Some 0) 0x400123 0x1000 3
     = Inl Assert_failed"
proof
  have r: "ROUNDDOWN 0x400123 PGSIZE = 0x400000" "ROUNDUP (0x400123 + 100) PGSIZE = 0x401000" "ROUNDUP (0x400123 + 0x1000) PGSIZE = 0x402000"
    by (simp_all add: ROUNDDOWN_def ROUNDUP_def)
  show "\<exists>s' xs ys. mm_map demo_mm (Some 4) (Some 0) 0x400123 100 3 = Inr (s', 0, Some 4) \<and> [0] = xs @ ys \<and> vma_inv s' 0 (xs @ 4 # ys)"
    using mm_map_cases [OF demo_mm_inv, of 4, OF _ r(1,2) [symmetric], of 3]
    by (auto simp: Let_def USER_ACCESS_def in_vma_def demo_mm_def)
  let ?s = "demo_mm\<lparr>vmas := (\<lambda>_. \<lparr>vm_mm = Some 0, vm_start = 0x401000, vm_end = 0x402000, vm_flags = 3\<rparr>)\<rparr>"
  have "vma_inv ?s 0 [0]" by (simp add: vma_inv_def demo_mm_def clist_def)
  from mm_map_cases [OF this, of 4, OF _ r(1,3) [symmetric], of 3]
  show "mm_map ?s (Some 4) (Some 0) 0x400123 0x1000 3 = Inl Assert_failed"
    by (auto simp: Let_def USER_ACCESS_def in_vma_def split: if_splits)
qed

text \<open>
  C21. \<^verbatim>\<open>user_mem_check\<close> on a process's address space ends and accepts a buffer exactly when it lies in user space and
  every byte of it is in an area that allows the access; for a write, the first page of a stack area does not count.
\<close>

theorem user_mem_check_exact:
  assumes "vma_inv s m vs"
  shows "\<exists>s' b. user_mem_check s (Some m) addr len w = Inr (s', b) \<and> vma_inv s' m vs \<and> vmas s' = vmas s \<and>
    (b \<longleftrightarrow> USER_ACCESS addr (addr + len) \<and> (\<forall>a. addr \<le> a \<and> a < addr + len \<longrightarrow> (\<exists>v \<in> set vs. allowed s w v a)))"
proof (cases "USER_ACCESS addr (addr + len)")
  case True
  then have "addr < addr + len" by (simp add: USER_ACCESS_def)
  then have "unat (addr + len) - unat addr < unat len + 1"
    by (metis add_diff_cancel_left' less_add_one order_less_imp_le unat_sub)
  from user_mem_loop_exact [OF assms this, of w] show ?thesis using True by (auto simp: user_mem_check_def)
qed (use assms in \<open>auto simp: user_mem_check_def\<close>)

definition demo_user :: vm where
  "demo_user = demo_mm\<lparr>vmas := (\<lambda>_. \<lparr>vm_mm = Some 0, vm_start = 0x400000, vm_end = 0x402000, vm_flags = 1\<rparr>)\<rparr>"

lemma demo_user_inv: "vma_inv demo_user 0 [0]"
  by (simp add: vma_inv_def demo_user_def demo_mm_def clist_def)

theorem user_mem_check_exact_witness:
  "\<exists>s1 s2 s3. user_mem_check demo_user (Some 0) 0x400000 0x2000 False = Inr (s1, True) \<and>
     user_mem_check demo_user (Some 0) 0x400000 0x2001 False = Inr (s2, False) \<and>
     user_mem_check demo_user (Some 0) 0x400000 1 True = Inr (s3, False)"
proof -
  note E = user_mem_check_exact [OF demo_user_inv, of "0x400000"]
  have u: "USER_ACCESS 0x400000 (0x400000 + 0x2000)" "USER_ACCESS 0x400000 (0x400000 + 0x2001)" by (simp_all add: USER_ACCESS_def)
  have al: "allowed demo_user wt 0 a \<longleftrightarrow> 0x400000 \<le> a \<and> a < 0x402000 \<and> \<not> wt" for wt a
    by (auto simp: allowed_def in_vma_def demo_user_def)
  have "\<not> allowed demo_user False 0 0x402000" "\<not> allowed demo_user True 0 0x400000" by (simp_all add: al)
  moreover have "(0x400000 :: u32) \<le> 0x402000 \<and> 0x402000 < 0x400000 + (0x2001 :: u32)" "(0x400000 :: u32) \<le> 0x400000 \<and> 0x400000 < 0x400000 + (1 :: u32)" by simp_all
  ultimately have n: "\<not> (\<forall>a. 0x400000 \<le> a \<and> a < 0x400000 + (0x2001 :: u32) \<longrightarrow> (\<exists>v \<in> set [0]. allowed demo_user False v a))"
    "\<not> (\<forall>a. 0x400000 \<le> a \<and> a < 0x400000 + (1 :: u32) \<longrightarrow> (\<exists>v \<in> set [0]. allowed demo_user True v a))"
    unfolding set_simps by blast+
  show ?thesis using E [of "0x2000" False] E [of "0x2001" False] E [of 1 True] u n by (auto simp: al)
qed

text \<open>
  C3. A TLB miss at an address of an area that allows the access, on a page that has no entry yet: the handler returns, keeps
  page tables, reference counts and areas consistent, and the retried access (to any address of that page) reaches the same
  offset of a page that was free. A write is still refused by the TLB when the area is not writable.
\<close>

theorem tlb_miss_served:
  assumes inv: "vma_inv s m vs" and ok: "vm_ok s P F" and pd: "pgdir (mms s m) = Some pd" "cur_pgdir s = Some pd" and a: "addr < USERTOP"
    and v: "v \<in> set vs" "in_vma s addr v" and e: "e = (if drop_bit 2 cause AND 0x1f = Exc_TLBS then 2 else 0)"
    and al: "fault_allowed e (vm_flags (vmas s v))" and z: "pv s pd (vpn addr) = 0" and sw: "check_mm_struct s = None"
    and F: "\<And>f. \<not> F \<subseteq> {f}"
  shows "\<exists>s' F' p. tlb_miss_handler s (Some (Some m)) idle addr cause status = Inr (s', False) \<and> vm_ok s' P F' \<and> vma_inv s' m vs \<and> p \<in> F \<and>
    (\<forall>va wt ex c. va < USERTOP \<longrightarrow> vpn va = vpn addr \<longrightarrow> addr_translate c (mmu (hw s')) va wt ex =
      (if wt \<and> vm_flags (vmas s v) AND VM_WRITE = 0 then (0, True, tlb_fault Exc_Mod va c) else (page2pa p OR (va AND 0xfff), ex, c)))"
proof -
  let ?x = "\<lambda>p. page2pa p OR 1 OR fault_perm (vm_flags (vmas s v))"
  obtain s' F' p where s': "tlb_miss_handler s (Some (Some m)) idle addr cause status = Inr (s', False)" "vm_ok s' P F'" "p \<in> F" "vma_inv s' m vs"
    "cur_pgdir s' = Some pd" "\<exists>i < 16. pv s' pd (vpn addr) = marked (?x p) i"
    by (rule tlb_miss_fault [OF inv ok pd a v e al z sw F, of idle status]) (rule that)
  then obtain i where i: "i < 16" "pv s' pd (vpn addr) = marked (?x p) i" by blast
  have pn: "p < 2 ^ 20" using free_frames_less [OF vm_okD(2) [OF ok] s'(3)] spaces_okD(2) [OF vm_okD(1) [OF ok]] by simp
  have "\<not> bit (page2pa p OR 1) 1" by (simp add: bit_or_iff page2pa_def bit_push_bit_iff bit_1_iff)
  then have b1: "bit (?x p) 1 \<longleftrightarrow> vm_flags (vmas s v) AND VM_WRITE \<noteq> 0" using fault_perm(3) by (simp add: bit_or_iff)
  have b7: "bit (marked (?x p) i) 7" by (simp add: bit_marked [OF i(1)])
  note T = ok_translate [OF tlb_invD(9) [OF spaces_okD(7) [OF vm_okD(1) [OF s'(2)] s'(5)]] _ refl]
  have "addr_translate c (mmu (hw s')) va wt ex = (if wt \<and> vm_flags (vmas s v) AND VM_WRITE = 0
      then (0, True, tlb_fault Exc_Mod va c) else (page2pa p OR (va AND 0xfff), ex, c))" if "va < USERTOP" "vpn va = vpn addr" for va wt ex c
    unfolding T [OF that(1)] that(2) i(2) marked_keeps [OF i(1)] PTE_ADDR_new [OF pn fault_perm(1)] b1 using b7 by simp
  then show ?thesis using s'(1-4) by blast
qed

theorem tlb_miss_served_witness:
  "\<exists>s' F' p. tlb_miss_handler demo_mm (Some (Some 0)) False 0x7abc 12 16 = Inr (s', False) \<and> vm_ok s' {4} F' \<and> p \<in> {0, 1} \<and>
     addr_translate CP0_init (mmu (hw s')) 0x7abc True False = (page2pa p OR 0xabc, False, CP0_init)"
proof -
  have "drop_bit 2 (12 :: u32) AND 0x1f = Exc_TLBS" by simp
  then have e: "2 = (if drop_bit 2 (12 :: u32) AND 0x1f = Exc_TLBS then 2 else 0 :: u32)" by simp
  have h: "pgdir (mms demo_mm 0) = Some 4" "cur_pgdir demo_mm = Some 4" "(0x7abc :: u32) < USERTOP" "0 \<in> set [0 :: nat]" "in_vma demo_mm 0x7abc 0"
    by (simp_all add: demo_mm_def demo_vm_def in_vma_def)
  have f: "fault_allowed 2 (vm_flags (vmas demo_mm 0))" "pv demo_mm 4 (vpn 0x7abc) = 0" "check_mm_struct demo_mm = None" "\<not> {0, 1} \<subseteq> {f}" for f :: nat
    by (simp_all add: fault_allowed_def demo_mm_pv demo_pv) (auto simp: demo_mm_def demo_vm_def)
  have w: "vm_flags (vmas demo_mm 0) AND VM_WRITE \<noteq> 0" "(0x7abc :: u32) AND 0xfff = 0xabc" by (simp_all add: demo_mm_def)
  show ?thesis using tlb_miss_served [OF demo_mm_inv demo_mm_ok h e f, of False 16] h(3) w by fastforce
qed

text \<open>
  A TLB miss on a page that is not present, at an address of no area or of an area that does not allow the access: the process
  is ended when it ran in user mode and the kernel panics otherwise; in no case does a page table or the TLB change.
\<close>

theorem tlb_miss_refused:
  assumes inv: "vma_inv s m vs" and pd: "pgdir (mms s m) = Some pd" "cur_pgdir s = Some pd" and sp: "space_ok s pd" "addr < USERTOP" and z: "\<not> bit (pv s pd (vpn addr)) 0"
    and e: "e = (if drop_bit 2 cause AND 0x1f = Exc_TLBS then 2 else 0)"
    and no: "\<forall>v \<in> set vs. in_vma s addr v \<longrightarrow> \<not> fault_allowed e (vm_flags (vmas s v))" and sw: "check_mm_struct s = None"
  shows "if status AND 0x10 = 0 then tlb_miss_handler s (Some (Some m)) idle addr cause status = Inl Panicked
    else \<exists>s'. tlb_miss_handler s (Some (Some m)) idle addr cause status = Inr (s', True) \<and>
      frames s' = frames s \<and> hw s' = hw s \<and> vpmm s' = vpmm s \<and> vma_inv s' m vs"
proof -
  obtain s1 r where r: "find_vma s (Some m) addr = Inr (s1, r)" "vma_inv s1 m vs" "vmas s1 = vmas s" "frames s1 = frames s" "hw s1 = hw s" "vpmm s1 = vpmm s"
    "r = None \<or> (\<exists>v \<in> set vs. r = Some v \<and> in_vma s addr v)"
  proof (cases "List.find (in_vma s addr) vs")
    case None
    then show thesis using that [of s None] find_vma_eq [OF inv, of addr, unfolded None] inv by simp
  next
    case (Some v)
    then have "in_vma s addr v" "v \<in> set vs" by (metis find_Some_iff nth_mem)+
    then show thesis using that [of "upd_mm m (\<lambda>x. x\<lparr>mmap_cache := Some v\<rparr>) s" "Some v"] find_vma_eq [OF inv, of addr] Some vma_inv_cache [OF inv] by auto
  qed
  let ?s = "s1\<lparr>pgfault_num := pgfault_num s1 + 1\<rparr>"
  have e': "e = 0 \<or> e = 2" using e by simp
  have f: "do_pgfault s m e addr = Inr (?s, - E_INVAL)"
    using r(1,3,7) no e' by (auto simp: do_pgfault_def Let_def fault_allowed_def)
  have v': "vma_inv ?s m vs" using r(2) by (simp add: vma_inv_def in_vma_def)
  have a: "\<exists>p. find_pte s pd addr = Inr p \<and> (case p of None \<Rightarrow> True | Some a \<Rightarrow> rd s a AND PTE_P = 0)"
    using z find_pte_eq [OF sp] rd_pv [of s pd addr] by (auto split: if_splits)
  then show ?thesis using f [unfolded e] v' r(4-6) pd sw by (auto simp: tlb_miss_handler_def Let_def split: if_splits)
qed

theorem tlb_miss_refused_witness:
  "(\<exists>s'. tlb_miss_handler demo_mm (Some (Some 0)) False 0x3000 12 0x10 = Inr (s', True)) \<and>
   tlb_miss_handler demo_mm (Some (Some 0)) False 0x3000 12 0 = Inl Panicked"
proof -
  have h: "pgdir (mms demo_mm 0) = Some 4" "cur_pgdir demo_mm = Some 4" "(0x3000 :: u32) < USERTOP" "\<not> bit (pv demo_mm 4 (vpn 0x3000)) 0"
    "\<forall>v \<in> set [0]. in_vma demo_mm 0x3000 v \<longrightarrow> \<not> fault_allowed (if drop_bit 2 12 AND 0x1f = Exc_TLBS then 2 else 0) (vm_flags (vmas demo_mm v))"
    "check_mm_struct demo_mm = None"
    by (simp_all add: demo_mm_pv demo_pv) (simp_all add: demo_mm_def demo_vm_def in_vma_def)
  have sp: "space_ok demo_mm 4" by (rule spaces_okD(3) [OF vm_okD(1) [OF demo_mm_ok]]) simp
  show ?thesis using tlb_miss_refused [OF demo_mm_inv h(1,2) sp h(3,4) refl h(5,6), of "0x10" False] tlb_miss_refused [OF demo_mm_inv h(1,2) sp h(3,4) refl h(5,6), of 0 False] by auto
qed

text \<open>
  When no page is free, swapping is on and \<^verbatim>\<open>check_mm_struct\<close> has been reset (as it is after the start-up checks), \<^verbatim>\<open>alloc_page\<close>
  does not return a null pointer: it runs \<^verbatim>\<open>swap_out\<close> on a null address space.
\<close>

theorem alloc_page_exhausted:
  assumes "free_frames (vpmm s) {}" "swap_init_ok s" "check_mm_struct s = None"
  shows "alloc_pages s 1 = Inl Null_deref"
proof -
  from assms(1) obtain bs where bs: "pmm_inv (vpmm s) bs" "block_pages bs = {}" by (auto simp: free_frames_def)
  then have "bs = []" by (cases bs) (auto simp: pmm_inv_def blocks_inv_def)
  then show ?thesis using default_alloc_first_fit [OF bs(1), of 1] assms(2,3) by (simp add: alloc_pages_def numeral_2_eq_2)
qed

theorem alloc_page_exhausted_witness: "alloc_pages (demo_vm\<lparr>swap_init_ok := True\<rparr>) 1 = Inl Null_deref"
  using alloc_page_exhausted [of "demo_vm\<lparr>swap_init_ok := True\<rparr>"] vm_okD(2) [OF demo_ok_vm] by (simp add: demo_vm_def)

end
