(* ===== verification/Divmod.thy ===== *)
theory Divmod
  imports Kernlib "HOL-Library.Signed_Division"
begin

text \<open>
  Division in software. The CPU has no divide instruction, so the kernel and the user library divide by shifting
  and subtracting (\<^verbatim>\<open>kern/libs/divmod.h\<close>, \<^verbatim>\<open>_Div\<close> and \<^verbatim>\<open>_Rem\<close> of \<^verbatim>\<open>user/libs/intrinsic.c\<close>), the number printer and
  \<^verbatim>\<open>rand\<close> divide by a constant (\<^verbatim>\<open>do_div\<close> of \<^verbatim>\<open>libs/mips32s.h\<close>), and \<^verbatim>\<open>kern/trap/ri.h\<close> executes a trapped \<^verbatim>\<open>div\<close>
  instruction. An \<^verbatim>\<open>int\<close> is the 32-bit word of its two's complement; \<open><=s\<close> compares signed.
\<close>

section \<open>Shift and subtract\<close>

fun divmod_loop :: "nat \<Rightarrow> u32 \<Rightarrow> u32 \<Rightarrow> u32 \<Rightarrow> u32 \<Rightarrow> u32 \<times> u32" where
  "divmod_loop 0 a b r q = (q, r)"
| "divmod_loop (Suc k) a b r q =
     (let r = push_bit 1 r OR (signed_drop_bit 31 a AND 1);
          a = push_bit 1 a;
          q = push_bit 1 q
      in if b <=s r then divmod_loop k a b (r - b) (q OR 1) else divmod_loop k a b r q)"

text \<open>\<open>None\<close> is the result -1; otherwise the values stored through \<^verbatim>\<open>q_store\<close> and \<^verbatim>\<open>r_store\<close>.\<close>

definition divmod :: "u32 \<Rightarrow> u32 \<Rightarrow> (u32 \<times> u32) option" where
  "divmod a b =
     (if b = 0 then None
      else
        let (sign_div, sign_mod, a) = (if a <s 0 then (- 1, - 1, - a) else (1 :: int, 1 :: int, a));
            (sign_div, b) = (if b <s 0 then (- sign_div, - b) else (sign_div, b));
            (q, r) = divmod_loop 32 a b 0 0
        in Some (if sign_div = - 1 then - q else q, if sign_mod = - 1 then - r else r))"

text \<open>The loop that \<^verbatim>\<open>_Div\<close> and \<^verbatim>\<open>_Rem\<close> share: \<open>Suc i\<close> stands for the index \<^verbatim>\<open>i\<close> of the source.\<close>

fun div_loop :: "nat \<Rightarrow> u32 \<Rightarrow> u32 \<Rightarrow> u32 \<Rightarrow> u32 \<Rightarrow> u32 \<times> u32" where
  "div_loop 0 xx yy rm qt = (qt, rm)"
| "div_loop (Suc i) xx yy rm qt =
     (let rm = push_bit 1 rm OR (signed_drop_bit i xx AND 1)
      in if yy <=s rm then div_loop i xx yy (rm - yy) (qt OR push_bit i 1)
         else div_loop i xx yy rm qt)"

definition Div_int :: "u32 \<Rightarrow> u32 \<Rightarrow> u32" where
  "Div_int x y =
     (let xx = (if 0 <s x then x else - x); yy = (if 0 <s y then y else - y);
          qt = fst (div_loop 32 xx yy 0 0)
      in if (0 <s x \<and> 0 <s y) \<or> (x <s 0 \<and> y <s 0) then qt else - qt)"

definition Rem_int :: "u32 \<Rightarrow> u32 \<Rightarrow> u32" where
  "Rem_int x y =
     (let xx = (if 0 <s x then x else - x); yy = (if 0 <s y then y else - y);
          rm = snd (div_loop 32 xx yy 0 0)
      in if 0 <s x then rm else - rm)"

section \<open>Division by a constant\<close>

text \<open>\<^verbatim>\<open>do_div\<close> on an \<^verbatim>\<open>unsigned long long\<close>: the new value of \<^verbatim>\<open>n\<close> and the remainder. \<^verbatim>\<open>q\<close> and \<^verbatim>\<open>__mod\<close> have 32 bits.\<close>

definition do_div :: "u64 \<Rightarrow> u32 \<Rightarrow> u64 \<times> u32" where
  "do_div n base =
     (if base = 10 then
        let q = ucast (drop_bit 1 n + drop_bit 2 n) :: u32;
            q = q + drop_bit 4 q;
            q = q + drop_bit 8 q;
            q = q + drop_bit 16 q;
            q = drop_bit 3 q;
            m = ucast (n - ucast (push_bit 1 (push_bit 2 q + q))) :: u32;
            q = q + drop_bit 4 (m + 6);
            m = ucast (n - ucast (push_bit 1 (push_bit 2 q + q)))
        in (ucast q, m)
      else if base = 16 then (drop_bit 4 n, ucast (n AND 0xf))
      else if base = 8 then (drop_bit 3 n, ucast (n AND 0x7))
      else if base = 2147483648 then (drop_bit 31 n, ucast (n AND 0x7fffffff))
      else (1, 3))"

section \<open>The trapped division instruction\<close>

record trapframe =
  tf_regs :: "u32 list"
  tf_Status :: u32
  tf_Cause :: u32
  tf_EPC :: u32
  tf_BadVAddr :: u32
  tf_LO :: u32
  tf_HI :: u32

text \<open>\<open>fetch\<close> reads the word at an address, as the dereferenced \<^verbatim>\<open>tf_EPC\<close> does. The result is 0 or -1.\<close>

definition ri_handler :: "(u32 \<Rightarrow> u32) \<Rightarrow> trapframe \<Rightarrow> kpanic + trapframe \<times> int" where
  "ri_handler fetch tf =
     bindE (assertE (drop_bit 2 (tf_Cause tf) AND 0x1f = 10)) (\<lambda>_.
     let inst = fetch (tf_EPC tf)
     in if inst AND 0xfc00ffff = 0x0000001a then
          let reg1 = unat (drop_bit 21 inst AND 0x1f);
              reg2 = unat (drop_bit 16 inst AND 0x1f)
          in case divmod (tf_regs tf ! reg1) (tf_regs tf ! reg2) of
               None \<Rightarrow> Inr (tf, - 1)
             | Some (q, r) \<Rightarrow> Inr (tf\<lparr>tf_LO := q, tf_HI := r, tf_EPC := tf_EPC tf + 4\<rparr>, 0)
        else Inr (tf, - 1))"

section \<open>Correctness of the loops\<close>

lemma sle_small: "m < 2 ^ 31 \<Longrightarrow> n < 2 ^ 31 \<Longrightarrow> (of_nat m :: u32) <=s of_nat n \<longleftrightarrow> m \<le> n"
proof -
  assume a: "m < 2 ^ 31" "n < 2 ^ 31"
  then have "unat (of_nat m :: u32) = m" "unat (of_nat n :: u32) = n" by (simp_all add: unat_of_nat)
  then show ?thesis using a sint_small [of "of_nat m"] sint_small [of "of_nat n"] by (simp only: word_sle_eq of_nat_le_iff)
qed

lemma shift_in: "push_bit 1 (of_nat r :: u32) OR (of_bool P) = of_nat (2 * r + of_bool P)"
  by (cases P) (simp_all add: or_one_eq)

lemma or_1: "(of_nat (2 * q) :: u32) OR 1 = of_nat (2 * q + 1)"
  using shift_in [of q True] by (simp add: mult.commute)

lemma msb_shift: "t < 2 ^ Suc k \<Longrightarrow> k < 32 \<Longrightarrow> bit (of_nat (t * 2 ^ (31 - k)) :: u32) 31 \<longleftrightarrow> 2 ^ k \<le> t"
proof -
  assume t: "t < 2 ^ Suc k" "k < 32"
  then have p: "(2 :: nat) ^ 31 = 2 ^ k * 2 ^ (31 - k)" by (simp flip: power_add)
  have d: "t * 2 ^ (31 - k) div 2 ^ 31 = t div 2 ^ k" unfolding p by simp
  have "t div 2 ^ k = of_bool (2 ^ k \<le> t)"
  proof (cases "2 ^ k \<le> t")
    case True
    then have "t div 2 ^ k < 2" "0 < t div 2 ^ k" using t(1) by (simp_all add: less_mult_imp_div_less div_greater_zero_iff)
    then show ?thesis using True by simp
  qed simp
  then have "odd (t * 2 ^ (31 - k) div 2 ^ 31) \<longleftrightarrow> 2 ^ k \<le> t" using d by simp
  then show ?thesis by (simp add: bit_of_nat_iff bit_iff_odd [where ?'a = nat] del: of_nat_mult)
qed

lemma signed_drop_bit_1: "signed_drop_bit n (a :: u32) AND 1 = of_bool (bit a (min n 31))"
  by (simp add: and_one_eq mod_2_eq_odd bit_signed_drop_bit_iff min_def flip: bit_0)

lemma div_step:
  fixes B :: nat
  assumes "R < 2 * B" "B \<le> R" "0 < B"
  shows "(R * p + t) div B = p + ((R - B) * p + t) div B" "(R * p + t) mod B = ((R - B) * p + t) mod B"
proof -
  obtain d where R: "R = B + d" using assms(2) le_Suc_ex by blast
  have e: "R * p + t = (d * p + t) + p * B" by (simp add: R algebra_simps)
  show "(R * p + t) div B = p + ((R - B) * p + t) div B" "(R * p + t) mod B = ((R - B) * p + t) mod B"
    using assms(3) unfolding e by (simp_all add: R)
qed

lemma step_bounds:
  fixes R :: nat
  assumes "R * 2 ^ Suc k + (c * 2 ^ k + t) < n"
  shows "2 * R + c < n" "R' \<le> 2 * R + c \<Longrightarrow> R' * 2 ^ k + t < n"
proof -
  have v: "(2 * R + c) * 2 ^ k + t < n" using assms by (simp add: algebra_simps)
  show le: "R' * 2 ^ k + t < n" if "R' \<le> 2 * R + c" for R'
    by (rule le_less_trans [OF _ v]) (simp only: add_right_mono mult_le_mono1 that)
  have "(2 * R + c) * 1 \<le> (2 * R + c) * 2 ^ k + t" by (rule trans_le_add1 [OF mult_le_mono2]) simp
  then show "2 * R + c < n" using v by simp
qed

lemma divmod_loop_eq:
  "\<lbrakk>k \<le> 32; t < 2 ^ k; R < B; B < 2 ^ 31; R * 2 ^ k + t < 2 ^ 31\<rbrakk> \<Longrightarrow>
   divmod_loop k (of_nat (t * 2 ^ (32 - k))) (of_nat B) (of_nat R) (of_nat q) =
     (of_nat (q * 2 ^ k + (R * 2 ^ k + t) div B), of_nat ((R * 2 ^ k + t) mod B))"
proof (induction k arbitrary: t R q)
  case (Suc k)
  let ?c = "of_bool (2 ^ k \<le> t) :: nat"
  let ?r = "2 * R + ?c" and ?t = "t mod 2 ^ k"
  have t: "t = ?c * 2 ^ k + ?t" using Suc.prems(2) by (cases "2 ^ k \<le> t") (auto simp: le_mod_geq)
  then have v: "R * 2 ^ Suc k + t = ?r * 2 ^ k + ?t" by (simp add: algebra_simps)
  have p5: "R * 2 ^ Suc k + (?c * 2 ^ k + ?t) < 2 ^ 31" using Suc.prems(5) unfolding t [symmetric] .
  note r = step_bounds(1) [OF p5]
  have s: "push_bit 1 (of_nat (t * 2 ^ (32 - Suc k)) :: u32) = of_nat (?t * 2 ^ (32 - k))"
  proof -
    have p: "32 - k = Suc (31 - k)" using Suc.prems(1) by simp
    have z: "of_nat (?c * 2 ^ k * 2 ^ (32 - k)) = (0 :: u32)" using Suc.prems(1) by (simp add: mult.assoc flip: power_add)
    have "push_bit 1 (of_nat (t * 2 ^ (31 - k)) :: u32) = of_nat (t * 2 ^ (32 - k))" by (simp add: p)
    also have "\<dots> = of_nat (?c * 2 ^ k * 2 ^ (32 - k)) + of_nat (?t * 2 ^ (32 - k))" by (subst (1) t) (simp add: distrib_right)
    finally show ?thesis using z by simp
  qed
  have IH: "divmod_loop k (of_nat (?t * 2 ^ (32 - k))) (of_nat B) (of_nat R') (of_nat q') =
     (of_nat (q' * 2 ^ k + (R' * 2 ^ k + ?t) div B), of_nat ((R' * 2 ^ k + ?t) mod B))" if "R' < B" "R' \<le> ?r" for R' q'
    by (rule Suc.IH [OF _ _ that(1) Suc.prems(4) step_bounds(2) [OF p5 that(2)]]) (use Suc.prems in auto)
  have l: "divmod_loop (Suc k) (of_nat (t * 2 ^ (32 - Suc k))) (of_nat B) (of_nat R) (of_nat q) =
    (if B \<le> ?r then divmod_loop k (of_nat (?t * 2 ^ (32 - k))) (of_nat B) (of_nat (?r - B)) (of_nat (2 * q + 1))
     else divmod_loop k (of_nat (?t * 2 ^ (32 - k))) (of_nat B) (of_nat ?r) (of_nat (2 * q)))"
  proof -
    have m: "signed_drop_bit 31 (of_nat (t * 2 ^ (32 - Suc k)) :: u32) AND 1 = of_bool (2 ^ k \<le> t)"
      using Suc.prems(1) msb_shift [OF Suc.prems(2)] unfolding signed_drop_bit_1 by simp
    have q2: "push_bit 1 (of_nat q) = (of_nat (2 * q) :: u32)" using shift_in [of q False] by simp
    have le: "(of_nat B :: u32) <=s of_nat ?r \<longleftrightarrow> B \<le> ?r" by (rule sle_small [OF Suc.prems(4) r])
    show ?thesis unfolding divmod_loop.simps Let_def s m shift_in le q2 or_1 by (simp only: of_nat_diff split: if_split) simp
  qed
  show ?case
  proof (cases "B \<le> ?r")
    case True
    have "?r < 2 * B" using Suc.prems(3) by simp
    then show ?thesis unfolding l v using True IH [of "?r - B" "2 * q + 1"] div_step [OF _ True, of "2 ^ k" ?t] Suc.prems(3) by (simp add: algebra_simps)
  next
    case False
    then show ?thesis unfolding l v using IH [of ?r "2 * q"] by (simp add: algebra_simps)
  qed
qed simp

lemma div_loop_eq:
  "\<lbrakk>k \<le> 32; R < B; B < 2 ^ 31; R * 2 ^ k + take_bit k X < 2 ^ 31\<rbrakk> \<Longrightarrow>
   div_loop k (of_nat X) (of_nat B) (of_nat R) (of_nat (q * 2 ^ k)) =
     (of_nat (q * 2 ^ k + (R * 2 ^ k + take_bit k X) div B), of_nat ((R * 2 ^ k + take_bit k X) mod B))"
proof (induction k arbitrary: R q)
  case (Suc k)
  let ?c = "of_bool (bit X k) :: nat"
  let ?r = "2 * R + ?c" and ?t = "take_bit k X"
  have t: "take_bit (Suc k) X = ?c * 2 ^ k + ?t" by (simp add: take_bit_Suc_from_most)
  then have v: "R * 2 ^ Suc k + take_bit (Suc k) X = ?r * 2 ^ k + ?t" by (simp add: algebra_simps)
  note bd = step_bounds [OF Suc.prems(4) [unfolded t]]
  have IH: "div_loop k (of_nat X) (of_nat B) (of_nat R') (of_nat (q' * 2 ^ k)) =
     (of_nat (q' * 2 ^ k + (R' * 2 ^ k + ?t) div B), of_nat ((R' * 2 ^ k + ?t) mod B))" if "R' < B" "R' \<le> ?r" for R' q'
    by (rule Suc.IH [OF _ that(1) Suc.prems(3) bd(2) [OF that(2)]]) (use Suc.prems in simp)
  have l: "div_loop (Suc k) (of_nat X) (of_nat B) (of_nat R) (of_nat (q * 2 ^ Suc k)) =
    (if B \<le> ?r then div_loop k (of_nat X) (of_nat B) (of_nat (?r - B)) (of_nat ((2 * q + 1) * 2 ^ k))
     else div_loop k (of_nat X) (of_nat B) (of_nat ?r) (of_nat (2 * q * 2 ^ k)))"
  proof -
    have m: "signed_drop_bit k (of_nat X :: u32) AND 1 = of_bool (bit X k)"
      using Suc.prems(1) unfolding signed_drop_bit_1 by (simp add: bit_of_nat_iff)
    have p: "push_bit k (of_nat n) = (of_nat (n * 2 ^ k) :: u32)" for n by (simp add: push_bit_eq_mult)
    have "push_bit k (of_nat (2 * q) OR 1 :: u32) = push_bit k (of_nat (2 * q)) OR push_bit k 1" by (rule push_bit_or)
    then have q: "of_nat (2 * q * 2 ^ k) OR push_bit k 1 = (of_nat ((2 * q + 1) * 2 ^ k) :: u32)" unfolding or_1 p by simp
    have q2: "q * 2 ^ Suc k = 2 * q * 2 ^ k" by simp
    have le: "(of_nat B :: u32) <=s of_nat ?r \<longleftrightarrow> B \<le> ?r" by (rule sle_small [OF Suc.prems(3) bd(1)])
    show ?thesis unfolding div_loop.simps Let_def m shift_in le q2 q by (simp only: of_nat_diff split: if_split) simp
  qed
  show ?case
  proof (cases "B \<le> ?r")
    case True
    have "?r < 2 * B" using Suc.prems(2) by simp
    then show ?thesis unfolding l v using True IH [of "?r - B" "2 * q + 1"] div_step [OF _ True, of "2 ^ k" ?t] Suc.prems(2) by (simp add: algebra_simps)
  next
    case False
    then show ?thesis unfolding l v using IH [of ?r "2 * q"] by (simp add: algebra_simps)
  qed
qed simp

section \<open>Signed division\<close>

lemma abs_word:
  assumes "a \<noteq> (0x80000000 :: u32)"
  shows "(if a <s 0 then - a else a) = of_nat (nat \<bar>sint a\<bar>)" "nat \<bar>sint a\<bar> < 2 ^ 31"
proof -
  have o: "of_int (sint a) = a" by simp
  have "sint a \<noteq> - 2147483648"
  proof
    assume "sint a = - 2147483648"
    then have "a = of_int (- 2147483648)" using o by simp
    then show False using assms by simp
  qed
  moreover have "- 2147483648 \<le> sint a" "sint a < 2147483648" using sint_greater_eq [of a] sint_less [of a] by simp_all
  ultimately show "nat \<bar>sint a\<bar> < 2 ^ 31" by auto
  show "(if a <s 0 then - a else a) = of_nat (nat \<bar>sint a\<bar>)"
    using o by (simp add: word_sless_alt of_nat_nat abs_if)
qed

lemma sint_of_signed: "n < 2 ^ 31 \<Longrightarrow> sint (of_nat n :: u32) = int n" "n < 2 ^ 31 \<Longrightarrow> sint (- of_nat n :: u32) = - int n"
proof -
  assume n: "n < 2 ^ 31"
  then have "int n < 2147483648" by simp
  moreover have "- of_nat n = (word_of_int (- int n) :: u32)" by simp
  ultimately show "sint (of_nat n :: u32) = int n" "sint (- of_nat n :: u32) = - int n"
    by (simp_all only: signed_of_int signed_of_nat) (simp_all add: signed_take_bit_int_eq_self)
qed

lemma signed_result:
  fixes x y :: int
  assumes "D < 2 ^ 31" "M < 2 ^ 31" "y \<noteq> 0" "x = 0 \<longrightarrow> D = 0 \<and> M = 0"
  shows "sint (if (x < 0) = (y < 0) then of_nat D else - of_nat D :: u32) = sgn x * sgn y * int D"
    "sint (if x < 0 then - of_nat M else of_nat M :: u32) = sgn x * int M"
  using sint_of_signed [OF assms(1)] sint_of_signed [OF assms(2)] assms(3,4) by (auto simp: sgn_if)

lemma divmod_abs:
  "b \<noteq> 0 \<Longrightarrow> divmod a b =
    (let (q, r) = divmod_loop 32 (if a <s 0 then - a else a) (if b <s 0 then - b else b) 0 0
     in Some (if (a <s 0) = (b <s 0) then q else - q, if a <s 0 then - r else r))"
  by (simp add: divmod_def Let_def split: prod.split)

lemma quotient_range:
  fixes A B :: nat
  assumes "A < 2 ^ 31"
  shows "A div B < 2 ^ 31" "A mod B < 2 ^ 31"
  using assms by (meson div_le_dividend le_less_trans mod_less_eq_dividend)+

lemma signed_division:
  "x sdiv y = sgn x * sgn y * int (nat \<bar>x\<bar> div nat \<bar>y\<bar>)" "x smod y = sgn x * int (nat \<bar>x\<bar> mod nat \<bar>y\<bar>)"
  by (simp_all add: signed_divide_int_def smod_int_alt_def zdiv_int zmod_int)

lemma sint_eq_0: "sint (x :: u32) = 0 \<Longrightarrow> x = 0"
proof -
  assume "sint x = 0"
  moreover have "of_int (sint x) = x" by simp
  ultimately show ?thesis by (metis of_int_0)
qed

section \<open>Division by a constant\<close>

lemma div10_bounds:
  fixes N :: nat
  defines "q0 \<equiv> N div 2 + N div 4"
  defines "q1 \<equiv> q0 + q0 div 16"
  defines "q2 \<equiv> q1 + q1 div 256"
  defines "q3 \<equiv> q2 + q2 div 65536"
  assumes "N < 2 ^ 32"
  shows "10 * (q3 div 8) \<le> N" "N \<le> 10 * (q3 div 8) + 15" "q3 < 2 ^ 32" "q0 \<le> q1" "q1 \<le> q2" "q2 \<le> q3"
proof -
  have d: "c * (m div c) \<le> m \<and> m < c * (m div c) + c" if "0 < c" for c m :: nat
    using that by (metis dividend_less_times_div times_div_less_eq_dividend add.commute)
  note ds = d [of 2 N] d [of 4 N] d [of 16 q0] d [of 256 q1] d [of 65536 q2] d [of 8 q3]
  have q: "q0 = N div 2 + N div 4" "q1 = q0 + q0 div 16" "q2 = q1 + q1 div 256" "q3 = q2 + q2 div 65536" by (simp_all only: q0_def q1_def q2_def q3_def)
  have N: "N < 4294967296" using assms(5) by simp
  show "10 * (q3 div 8) \<le> N" using ds q N by linarith
  show "N \<le> 10 * (q3 div 8) + 15" using ds q N by linarith
  have "q3 < 4294967296" using ds q N by linarith
  then show "q3 < 2 ^ 32" by simp
  show "q0 \<le> q1" "q1 \<le> q2" "q2 \<le> q3" using q by linarith+
qed

lemma drop_of_nat:
  assumes "m < 2 ^ LENGTH('a)"
  shows "drop_bit k (of_nat m :: 'a::len word) = of_nat (m div 2 ^ k)"
proof (rule unsigned_word_eqI [where ?'a = nat])
  have "m div 2 ^ k < 2 ^ LENGTH('a)" using assms by (meson div_le_dividend le_less_trans)
  then show "unat (drop_bit k (of_nat m :: 'a word)) = unat (of_nat (m div 2 ^ k) :: 'a word)"
    using assms by (simp only: unsigned_drop_bit_eq unsigned_of_nat take_bit_nat_eq_self drop_bit_eq_div [where ?'a = nat] of_nat_id)
qed

lemma ucast_of_nat:
  "ucast (of_nat m :: u64) = (of_nat m :: u32)"
  "m < 2 ^ 32 \<Longrightarrow> ucast (of_nat m :: u32) = (of_nat m :: u64)"
  by (rule unsigned_word_eqI [where ?'a = nat], simp add: unsigned_ucast_eq unsigned_of_nat take_bit_nat_eq_self)+

lemma div_16_10: "(r :: nat) \<le> 15 \<Longrightarrow> (r + 6) div 16 = r div 10"
proof (cases "r < 10")
  case False
  assume "r \<le> 15"
  with False have "(r + 6) div 16 = 1" "r div 10 = 1" by (intro div_nat_eqI; simp)+
  then show ?thesis by simp
qed simp

lemma do_div_10:
  assumes "unat n < 2 ^ 32"
  shows "do_div n 10 = (of_nat (unat n div 10), of_nat (unat n mod 10))"
proof -
  define N where "N = unat n"
  define q0 where "q0 = N div 2 + N div 4"
  define q1 where "q1 = q0 + q0 div 16"
  define q2 where "q2 = q1 + q1 div 256"
  define q3 where "q3 = q2 + q2 div 65536"
  define q where "q = q3 div 8"
  define r where "r = N - 10 * q"
  have N: "N < 2 ^ 32" using assms by (simp only: N_def)
  note b = div10_bounds [OF N, folded q0_def, folded q1_def, folded q2_def, folded q3_def, folded q_def]
  have n: "n = of_nat N" by (simp add: N_def)
  have sh: "drop_bit 1 n = of_nat (N div 2)" "drop_bit 2 n = of_nat (N div 4)"
    using drop_of_nat [of N 1, where ?'a = 64] drop_of_nat [of N 2, where ?'a = 64] N by (simp_all add: n)
  have lt: "q0 < 2 ^ 32" "q1 < 2 ^ 32" "q2 < 2 ^ 32" using b(3-6) by linarith+
  have d: "drop_bit 4 (of_nat q0) = (of_nat (q0 div 16) :: u32)" using drop_of_nat [of q0 4, where ?'a = 32] lt by simp
  have d1: "drop_bit 8 (of_nat q1) = (of_nat (q1 div 256) :: u32)" using drop_of_nat [of q1 8, where ?'a = 32] lt by simp
  have d2: "drop_bit 16 (of_nat q2) = (of_nat (q2 div 65536) :: u32)" using drop_of_nat [of q2 16, where ?'a = 32] lt by simp
  have d3: "drop_bit 3 (of_nat q3) = (of_nat q :: u32)" using drop_of_nat [of q3 3, where ?'a = 32] b(3) by (simp add: q_def)
  have ten: "push_bit 1 (push_bit 2 (of_nat m) + of_nat m) = (of_nat (10 * m) :: u32)" for m by (simp add: push_bit_eq_mult algebra_simps)
  have m: "ucast (n - ucast (of_nat (10 * m) :: u32)) = (of_nat (N - 10 * m) :: u32)" if "10 * m \<le> N" for m
  proof -
    have "ucast (of_nat (10 * m) :: u32) = (of_nat (10 * m) :: u64)" by (rule ucast_of_nat(2)) (use that N in linarith)
    then have "n - ucast (of_nat (10 * m) :: u32) = (of_nat (N - 10 * m) :: u64)" unfolding n using that by (simp only: of_nat_diff)
    then show ?thesis by (simp only: ucast_of_nat(1))
  qed
  have r: "r \<le> 15" using b(2) unfolding r_def by linarith
  have c: "drop_bit 4 (of_nat r + 6 :: u32) = of_nat ((r + 6) div 16)" using drop_of_nat [of "r + 6" 4, where ?'a = 32] r by simp
  have Nr: "N = 10 * q + r" using b(1) by (simp add: r_def)
  have "N div 10 = q + r div 10" unfolding Nr by simp
  moreover have "(r + 6) div 16 = r div 10" by (rule div_16_10 [OF r])
  ultimately have q: "q + (r + 6) div 16 = N div 10" by simp
  have e: "10 * (N div 10) \<le> N" "N - 10 * (N div 10) = N mod 10" "N div 10 < 2 ^ 32" using N by (simp_all add: minus_mult_div_eq_mod)
  show ?thesis unfolding N_def [symmetric]
    unfolding do_div_def Let_def sh of_nat_add [symmetric] ucast_of_nat(1) q0_def [symmetric] d q1_def [symmetric] d1 q2_def [symmetric] d2
      q3_def [symmetric] d3 ten m [OF b(1)] r_def [symmetric] c q m [OF e(1)] e(2)
    using ucast_of_nat(2) [OF e(3)] by simp
qed

lemma do_div_shift:
  "do_div n 16 = (of_nat (unat n div 16), of_nat (unat n mod 16))" "do_div n 8 = (of_nat (unat n div 8), of_nat (unat n mod 8))"
proof -
  have n: "n = of_nat (unat n)" "unat n < 2 ^ 64" using unsigned_less [of n] by simp_all
  have d: "drop_bit 4 n = of_nat (unat n div 16)" "drop_bit 3 n = of_nat (unat n div 8)"
    using drop_of_nat [of "unat n" 4, where ?'a = 64] drop_of_nat [of "unat n" 3, where ?'a = 64] n by simp_all
  have a: "n AND 0xf = of_nat (unat n mod 16)" "n AND 7 = of_nat (unat n mod 8)"
  proof -
    have "n AND 0xf = take_bit 4 n" "n AND 7 = take_bit 3 n" by (simp_all add: take_bit_eq_mask mask_eq_exp_minus_1)
    moreover have "take_bit k n = of_nat (unat n mod 2 ^ k)" if "k \<le> 64" for k
      using that by (intro unsigned_word_eqI [where ?'a = nat]) (simp add: unsigned_take_bit_eq unsigned_of_nat take_bit_eq_mod [symmetric] min_def)
    ultimately show "n AND 0xf = of_nat (unat n mod 16)" "n AND 7 = of_nat (unat n mod 8)" by simp_all
  qed
  show "do_div n 16 = (of_nat (unat n div 16), of_nat (unat n mod 16))" "do_div n 8 = (of_nat (unat n div 8), of_nat (unat n mod 8))"
    by (simp_all add: do_div_def d a ucast_of_nat)
qed

text \<open>
  The least number is an exception: its absolute value does not fit, and the signed comparison of the loop then fails.
  The quotient below should be -1.
\<close>

lemma divmod_least: "divmod 0x80000000 0x7fffffff = Some (0, 0x80000000)"
  by code_simp

text \<open>From \<open>2 ^ 32\<close> on, \<^verbatim>\<open>do_div\<close> by 10 loses the upper half of its estimate.\<close>

lemma do_div_10_long: "do_div 0x200000000 10 \<noteq> (of_nat (0x200000000 div 10), of_nat (0x200000000 mod 10))"
  by (simp add: do_div_def Let_def)

section \<open>Properties\<close>

text \<open>
  C22. The shift-and-subtract division of the kernel and the one of the user library compute quotient and remainder rounded towards zero,
  as C does, of any two numbers but the least one (whose absolute value is no \<^verbatim>\<open>int\<close>); division by zero is reported.
\<close>

theorem software_division_correct:
  assumes a: "a \<noteq> 0x80000000" and b: "b \<noteq> 0x80000000"
  shows "if b = 0 then divmod a b = None
    else (\<exists>q r. divmod a b = Some (q, r) \<and> sint q = sint a sdiv sint b \<and> sint r = sint a smod sint b) \<and>
      sint (Div_int a b) = sint a sdiv sint b \<and> sint (Rem_int a b) = sint a smod sint b"
proof (cases "b = 0")
  case False
  let ?A = "nat \<bar>sint a\<bar>" and ?B = "nat \<bar>sint b\<bar>"
  have nz: "sint b \<noteq> 0" using sint_eq_0 False by blast
  then have B: "0 < ?B" by simp
  have l: "divmod_loop 32 (of_nat ?A) (of_nat ?B) 0 0 = (of_nat (?A div ?B), of_nat (?A mod ?B))"
    using divmod_loop_eq [of 32 ?A 0 ?B 0] abs_word(2) [OF a] abs_word(2) [OF b] B by simp
  have A: "?A < 2 ^ 32" "take_bit 32 ?A = ?A" using abs_word(2) [OF a] by (simp_all add: take_bit_nat_eq_self)
  have l2: "div_loop 32 (of_nat ?A) (of_nat ?B) 0 0 = (of_nat (?A div ?B), of_nat (?A mod ?B))"
    using div_loop_eq [of 32 0 ?B ?A 0] abs_word(2) [OF a] abs_word(2) [OF b] B unfolding A(2) by simp
  have neg: "x <s 0 \<longleftrightarrow> sint x < 0" "0 <s x \<longleftrightarrow> 0 < sint x" for x :: u32 by (simp_all add: word_sless_alt)
  have ab: "(if 0 <s x then x else - x) = (if x <s 0 then - x else x)" for x :: u32
    using sint_eq_0 [of x] unfolding neg by (cases "sint x" "0 :: int" rule: linorder_cases) auto
  have z: "sint a = 0 \<longrightarrow> ?A div ?B = 0 \<and> ?A mod ?B = 0" by simp
  note sr = signed_result [OF quotient_range [OF abs_word(2) [OF a]] nz z, folded signed_division]
  have e1: "divmod a b = Some (if (sint a < 0) = (sint b < 0) then of_nat (?A div ?B) else - of_nat (?A div ?B),
      if sint a < 0 then - of_nat (?A mod ?B) else of_nat (?A mod ?B))"
    unfolding divmod_abs [OF False] abs_word(1) [OF a] abs_word(1) [OF b] l by (simp only: Let_def prod.case neg)
  have e2: "Div_int a b = (if (sint a < 0) = (sint b < 0) then of_nat (?A div ?B) else - of_nat (?A div ?B))"
    unfolding Div_int_def Let_def ab abs_word(1) [OF a] abs_word(1) [OF b] l2 unfolding neg fst_conv snd_conv using nz z
    by (cases "sint a" "0 :: int" rule: linorder_cases; cases "sint b" "0 :: int" rule: linorder_cases) simp_all
  have e3: "Rem_int a b = (if sint a < 0 then - of_nat (?A mod ?B) else of_nat (?A mod ?B))"
    unfolding Rem_int_def Let_def ab abs_word(1) [OF a] abs_word(1) [OF b] l2 unfolding neg fst_conv snd_conv using z
    by (cases "sint a" "0 :: int" rule: linorder_cases) simp_all
  show ?thesis unfolding if_not_P [OF False] e2 e3 using e1 sr by blast
qed (simp add: divmod_def)

theorem software_division_correct_witness:
  "\<exists>q r. divmod (- 7) 2 = Some (q, r) \<and> sint q = - 3 \<and> sint r = - 1 \<and> sint (Div_int (- 7) 2) = - 3 \<and> sint (Rem_int (- 7) 2) = - 1"
  using software_division_correct [of "- 7" 2] by (simp add: signed_divide_int_def smod_int_alt_def)

text \<open>
  The trap handler executes a \<^verbatim>\<open>div\<close> instruction for the program: quotient and remainder reach \<^verbatim>\<open>LO\<close> and \<^verbatim>\<open>HI\<close> and the
  instruction is skipped. Any other instruction, and a division by zero, leaves the frame alone and is refused.
\<close>

lemma ri_handler_div:
  assumes "drop_bit 2 (tf_Cause tf) AND 0x1f = 10" and i: "i = fetch (tf_EPC tf)"
    and r: "a = tf_regs tf ! unat (drop_bit 21 i AND 0x1f)" "b = tf_regs tf ! unat (drop_bit 16 i AND 0x1f)"
  shows "if i AND 0xfc00ffff = 0x1a \<and> b \<noteq> 0
    then \<exists>q r. divmod a b = Some (q, r) \<and> ri_handler fetch tf = Inr (tf\<lparr>tf_LO := q, tf_HI := r, tf_EPC := tf_EPC tf + 4\<rparr>, 0)
    else ri_handler fetch tf = Inr (tf, - 1)"
  using assms by (auto simp: ri_handler_def Let_def divmod_abs simp: divmod_def [of _ 0] split: prod.split)

end
