(* ===== verification/Printfmt.thy ===== *)
theory Printfmt
  imports Divmod Cstring
begin

text \<open>
  Formatted output (\<^verbatim>\<open>libs/printfmt.c\<close>) and what the kernel builds on it (\<^verbatim>\<open>kern/libs/stdio.c\<close>). The characters passed
  to \<^verbatim>\<open>putch\<close>, in order, are the result; format and string arguments are the bytes before their terminator, and do not overlap
  the buffer that \<^verbatim>\<open>vsnprintf\<close> writes. \<open>None\<close> means undefined behaviour: an argument that is missing or of another type than
  the conversion reads, or an index outside a table.
\<close>

datatype varg = W32 u32 | W64 u64 | Str "u8 list option"

text \<open>What an \<^verbatim>\<open>int\<close> holds after a computation with the given result.\<close>

definition wrap32 :: "int \<Rightarrow> int" where
  "wrap32 x = sint (word_of_int x :: u32)"

abbreviation (input) MAXERROR :: u32 where "MAXERROR \<equiv> 0x18"

section \<open>Numbers\<close>

text \<open>The string literal, with its terminator.\<close>

definition hexdigits :: "u8 list" where
  "hexdigits = [0x30, 0x31, 0x32, 0x33, 0x34, 0x35, 0x36, 0x37, 0x38, 0x39, 0x61, 0x62, 0x63, 0x64, 0x65, 0x66, 0]"

partial_function (option) printnum :: "u64 \<Rightarrow> u32 \<Rightarrow> int \<Rightarrow> u8 \<Rightarrow> u8 list option" where
  "printnum num base width padc =
     (let (result, m) = do_div num base
      in Option.bind
           (if num \<ge> ucast base then printnum result base (width - 1) padc
            else Some (replicate (nat (width - 1)) padc))
           (\<lambda>out. if unat m < length hexdigits then Some (out @ [hexdigits ! unat m]) else None))"

definition getuint :: "varg list \<Rightarrow> nat \<Rightarrow> (u64 \<times> varg list) option" where
  "getuint ap lflag =
     (case ap of
        W64 v # ap \<Rightarrow> if lflag \<ge> 2 then Some (v, ap) else None
      | W32 v # ap \<Rightarrow> if lflag \<ge> 2 then None else Some (ucast v, ap)
      | _ \<Rightarrow> None)"

definition getint :: "varg list \<Rightarrow> nat \<Rightarrow> (u64 \<times> varg list) option" where
  "getint ap lflag =
     (case ap of
        W64 v # ap \<Rightarrow> if lflag \<ge> 2 then Some (v, ap) else None
      | W32 v # ap \<Rightarrow> if lflag \<ge> 2 then None else Some (scast v, ap)
      | _ \<Rightarrow> None)"

section \<open>Flags and width\<close>

record fstate =
  padc :: u8
  width :: int
  precision :: int
  lflag :: nat
  altflag :: bool

definition fstate_init :: fstate where
  "fstate_init = \<lparr>padc = 0x20, width = - 1, precision = - 1, lflag = 0, altflag = False\<rparr>"

fun read_width :: "int \<Rightarrow> u8 \<Rightarrow> u8 list \<Rightarrow> int \<times> u8 list" where
  "read_width prec ch [] = (wrap32 (prec * 10 + int (unat ch) - 0x30), [])"
| "read_width prec ch (c # fmt) =
     (let prec = wrap32 (prec * 10 + int (unat ch) - 0x30)
      in if c < 0x30 \<or> c > 0x39 then (prec, c # fmt) else read_width prec c fmt)"

definition process_precision :: "fstate \<Rightarrow> fstate" where
  "process_precision f = (if width f < 0 then f\<lparr>width := precision f, precision := - 1\<rparr> else f)"

lemma read_width_shorter: "length (snd (read_width prec ch fmt)) \<le> length fmt"
  by (induction prec ch fmt rule: read_width.induct) (auto simp: Let_def)

text \<open>
  From \<^verbatim>\<open>reswitch\<close> on: reads flags, width and precision. The result holds the first other character and what follows it; the
  terminator is the character 0.
\<close>

function reswitch :: "fstate \<Rightarrow> varg list \<Rightarrow> u8 list \<Rightarrow> (fstate \<times> varg list \<times> u8 \<times> u8 list) option" where
  "reswitch f ap [] = Some (f, ap, 0, [])"
| "reswitch f ap (ch # fmt) =
     (if ch = 0x2d then reswitch (f\<lparr>padc := 0x2d\<rparr>) ap fmt
      else if ch = 0x30 then reswitch (f\<lparr>padc := 0x30\<rparr>) ap fmt
      else if 0x31 \<le> ch \<and> ch \<le> 0x39 then
        reswitch (process_precision (f\<lparr>precision := fst (read_width 0 ch fmt)\<rparr>)) ap (snd (read_width 0 ch fmt))
      else if ch = 0x2a then
        (case ap of
           W32 v # ap \<Rightarrow> reswitch (process_precision (f\<lparr>precision := sint v\<rparr>)) ap fmt
         | _ \<Rightarrow> None)
      else if ch = 0x2e then reswitch (if width f < 0 then f\<lparr>width := 0\<rparr> else f) ap fmt
      else if ch = 0x23 then reswitch (f\<lparr>altflag := True\<rparr>) ap fmt
      else if ch = 0x6c then reswitch (f\<lparr>lflag := lflag f + 1\<rparr>) ap fmt
      else Some (f, ap, ch, fmt))"
  by pat_completeness auto
termination
  by (relation "measure (\<lambda>(f, ap, fmt). length fmt)") (auto simp: le_imp_less_Suc read_width_shorter)

section \<open>Conversions\<close>

text \<open>The characters of \<^verbatim>\<open>%s\<close>: all of them when the precision is negative, else at most that many.\<close>

fun put_string :: "u8 list \<Rightarrow> int \<Rightarrow> int \<Rightarrow> bool \<Rightarrow> u8 list \<times> int" where
  "put_string [] prec wd alt = ([], wd)"
| "put_string (ch # p) prec wd alt =
     (if ch \<noteq> 0 \<and> (prec < 0 \<or> prec - 1 \<ge> 0) then
        let (out, wd') = put_string p (if prec < 0 then prec else prec - 1) (wd - 1) alt
        in ((if alt \<and> (ch < 0x20 \<or> ch > 0x7e) then 0x3f else ch) # out, wd')
      else ([], wd))"

definition print_string :: "fstate \<Rightarrow> u8 list option \<Rightarrow> u8 list" where
  "print_string f p =
     (let p = (case p of None \<Rightarrow> [0x28, 0x6e, 0x75, 0x6c, 0x6c, 0x29] | Some p \<Rightarrow> takeWhile (\<lambda>c. c \<noteq> 0) p);
          len = (if precision f < 0 then length p else min (length p) (nat (precision f)));
          (pad, wd) = (if width f > 0 \<and> padc f \<noteq> 0x2d
                       then let wd = wrap32 (width f - int len) in (replicate (nat wd) (padc f), min wd 0)
                       else ([], width f));
          (out, wd) = put_string p (precision f) wd (altflag f)
      in pad @ out @ replicate (nat wd) 0x20)"

text \<open>The decimal conversion: a minus sign, then the absolute value.\<close>

definition print_signed :: "fstate \<Rightarrow> u64 \<Rightarrow> u8 list option" where
  "print_signed f num =
     (if num <s 0 then Option.bind (printnum (- num) 10 (width f) (padc f)) (\<lambda>out. Some (0x2d # out))
      else printnum num 10 (width f) (padc f))"


definition error_string :: "u8 list option list" where
  "error_string = map (map_option (map of_char))
     [None, Some ''unspecified error'', Some ''bad process'', Some ''invalid parameter'', Some ''out of memory'', Some ''out of processes'',
      Some ''segmentation fault'', None, Some ''invalid elf file'', Some ''process is killed'', Some ''panic failure'', None, None,
      Some ''no such device'', Some ''device not available'', Some ''device/file is busy'', Some ''no such file or directory'',
      Some ''is a directory'', Some ''not a directory'', Some ''cross device link'', Some ''unimplemented feature'', Some ''illegal seek'',
      Some ''too many files are open'', Some ''file or directory already exists'', Some ''directory is not empty'']"

text \<open>\<^verbatim>\<open>%e\<close>. The two calls of \<^verbatim>\<open>printfmt\<close> have the formats \<^verbatim>\<open>"error %d"\<close> and \<^verbatim>\<open>"%s"\<close>.\<close>

definition print_error :: "u32 \<Rightarrow> u8 list option" where
  "print_error err =
     (let err = (if err <s 0 then - err else err)
      in if MAXERROR <s err then
           Option.bind (print_signed fstate_init (scast err)) (\<lambda>out. Some (map of_char ''error '' @ out))
         else if err <s 0 then None
         else case error_string ! unat err of
                None \<Rightarrow> Option.bind (print_signed fstate_init (scast err)) (\<lambda>out. Some (map of_char ''error '' @ out))
              | Some p \<Rightarrow> Some (print_string fstate_init (Some p)))"

text \<open>The result \<open>Some None\<close> is the default case of the switch.\<close>

definition conversion :: "fstate \<Rightarrow> varg list \<Rightarrow> u8 \<Rightarrow> (u8 list \<times> varg list) option option" where
  "conversion f ap ch =
     (let number = (\<lambda>base. Option.bind (getuint ap (lflag f)) (\<lambda>(num, ap).
            Option.bind (printnum num base (width f) (padc f)) (\<lambda>out. Some (Some (out, ap)))))
      in if ch = 0x63 then (case ap of W32 v # ap \<Rightarrow> Some (Some ([ucast v], ap)) | _ \<Rightarrow> None)
      else if ch = 0x65 then
        (case ap of W32 v # ap \<Rightarrow> Option.bind (print_error v) (\<lambda>out. Some (Some (out, ap))) | _ \<Rightarrow> None)
      else if ch = 0x73 then (case ap of Str p # ap \<Rightarrow> Some (Some (print_string f p, ap)) | _ \<Rightarrow> None)
      else if ch = 0x64 then
        Option.bind (getint ap (lflag f)) (\<lambda>(num, ap). Option.bind (print_signed f num) (\<lambda>out. Some (Some (out, ap))))
      else if ch = 0x75 then number 10
      else if ch = 0x6f then number 8
      else if ch = 0x70 then
        (case ap of
           W32 v # ap \<Rightarrow> Option.bind (printnum (ucast v) 16 (width f) (padc f)) (\<lambda>out. Some (Some ([0x30, 0x78] @ out, ap)))
         | _ \<Rightarrow> None)
      else if ch = 0x78 then number 16
      else if ch = 0x25 then Some (Some ([0x25], ap))
      else Some None)"

lemma reswitch_shorter: "reswitch f ap fmt = Some (f', ap', ch, fmt') \<Longrightarrow> length fmt' \<le> length fmt"
proof (induction f ap fmt rule: reswitch.induct)
  case (2 f ap c fmt)
  have w: "length (snd (read_width 0 c fmt)) \<le> length fmt" by (rule read_width_shorter)
  consider "c = 0x2d" | "c = 0x30" | "c \<noteq> 0x2d" "c \<noteq> 0x30" "0x31 \<le> c \<and> c \<le> 0x39" | "c = 0x2a" | "c = 0x2e" | "c = 0x23" | "c = 0x6c"
    | "reswitch f ap (c # fmt) = Some (f, ap, c, fmt)" by (metis reswitch.simps(2))
  then show ?case
  proof cases
    case 1
    then show ?thesis using "2.IH"(1) "2.prems" by simp
  next
    case 2
    then show ?thesis using "2.IH"(2) "2.prems" by simp
  next
    case 3
    then show ?thesis using "2.IH"(3) "2.prems" w by fastforce
  next
    case 4
    then show ?thesis using "2.IH"(4) "2.prems" by (auto split: list.splits varg.splits)
  next
    case 5
    then show ?thesis using "2.IH"(5) "2.prems" by simp
  next
    case 6
    then show ?thesis using "2.IH"(6) "2.prems" by simp
  next
    case 7
    then show ?thesis using "2.IH"(7) "2.prems" by simp
  qed (use "2.prems" in simp)
qed simp

text \<open>
  The whole printer. An escape that is not recognised prints its percent sign and goes on right after it, with what it
  consumed of the arguments gone.
\<close>

function vprintfmt :: "u8 list \<Rightarrow> varg list \<Rightarrow> u8 list option" where
  "vprintfmt [] ap = Some []"
| "vprintfmt (ch # fmt) ap =
     (if ch = 0 then Some []
      else if ch \<noteq> 0x25 then Option.bind (vprintfmt fmt ap) (\<lambda>out. Some (ch # out))
      else case reswitch fstate_init ap fmt of
             None \<Rightarrow> None
           | Some (f, ap, ch, fmt') \<Rightarrow>
               (case conversion f ap ch of
                  None \<Rightarrow> None
                | Some None \<Rightarrow> Option.bind (vprintfmt fmt ap) (\<lambda>out. Some (0x25 # out))
                | Some (Some (out, ap)) \<Rightarrow> Option.bind (vprintfmt fmt' ap) (\<lambda>out'. Some (out @ out'))))"
  by pat_completeness auto
termination
  by (relation "measure (\<lambda>(fmt, ap). length fmt)") (auto dest: reswitch_shorter)

definition printfmt :: "u8 list \<Rightarrow> varg list \<Rightarrow> u8 list option" where
  "printfmt fmt ap = vprintfmt fmt ap"

section \<open>Printing into a buffer\<close>

record sprintbuf =
  buf :: u32
  ebuf :: u32
  cnt :: int

fun sprintputch :: "u8 \<Rightarrow> mem \<times> sprintbuf \<Rightarrow> mem \<times> sprintbuf" where
  "sprintputch ch (m, b) =
     (let b = b\<lparr>cnt := wrap32 (cnt b + 1)\<rparr>
      in if buf b < ebuf b then (m(buf b := ch), b\<lparr>buf := buf b + 1\<rparr>) else (m, b))"

definition vsnprintf :: "mem \<Rightarrow> u32 \<Rightarrow> u32 \<Rightarrow> u8 list \<Rightarrow> varg list \<Rightarrow> (mem \<times> int) option" where
  "vsnprintf m str sz fmt ap =
     (let b = \<lparr>buf = str, ebuf = str + sz - 1, cnt = 0\<rparr>
      in if str = 0 \<or> buf b > ebuf b then Some (m, - E_INVAL)
         else Option.bind (vprintfmt fmt ap) (\<lambda>out.
           let (m, b) = fold sprintputch out (m, b)
           in Some (m(buf b := 0), cnt b)))"

definition snprintf :: "mem \<Rightarrow> u32 \<Rightarrow> u32 \<Rightarrow> u8 list \<Rightarrow> varg list \<Rightarrow> (mem \<times> int) option" where
  "snprintf m str sz fmt ap = vsnprintf m str sz fmt ap"

section \<open>Console\<close>

text \<open>
  The console is the list of the characters written to it so far; \<open>input\<close> holds what the next calls of \<^verbatim>\<open>cons_getc\<close> return,
  0 while no key is pressed. \<open>None\<close> means that the input is used up while the kernel still polls it.
\<close>

fun cputch :: "u8 \<Rightarrow> u8 list \<times> int \<Rightarrow> u8 list \<times> int" where
  "cputch c (con, n) = (con @ [c], wrap32 (n + 1))"

definition vcprintf :: "u8 list \<Rightarrow> u8 list \<Rightarrow> varg list \<Rightarrow> (u8 list \<times> int) option" where
  "vcprintf con fmt ap = map_option (\<lambda>out. fold cputch out (con, 0)) (vprintfmt fmt ap)"

definition cprintf :: "u8 list \<Rightarrow> u8 list \<Rightarrow> varg list \<Rightarrow> (u8 list \<times> int) option" where
  "cprintf con fmt ap = vcprintf con fmt ap"

definition cputchar :: "u8 list \<Rightarrow> u8 \<Rightarrow> u8 list" where
  "cputchar con c = con @ [c]"

definition cputs :: "u8 list \<Rightarrow> u8 list \<Rightarrow> u8 list \<times> int" where
  "cputs con str = cputch 0x0a (fold cputch (takeWhile (\<lambda>c. c \<noteq> 0) str) (con, 0))"

fun getchar :: "int list \<Rightarrow> (int \<times> int list) option" where
  "getchar [] = None"
| "getchar (c # input) = (if c = 0 then getchar input else Some (c, input))"

abbreviation (input) BUFSIZE :: nat where "BUFSIZE \<equiv> 1024"

lemma getchar_shorter: "getchar input = Some (c, input') \<Longrightarrow> length input' < length input"
  by (induction input) (auto split: if_splits)

text \<open>\<open>line\<close> is the buffer and \<open>i\<close> the number of characters in it. The result tells whether a line was read.\<close>

function readline_loop :: "int list \<Rightarrow> u8 list \<Rightarrow> u8 list \<Rightarrow> nat \<Rightarrow> (bool \<times> u8 list \<times> u8 list \<times> int list) option" where
  "readline_loop input con line i =
     (case getchar input of
        None \<Rightarrow> None
      | Some (c, input) \<Rightarrow>
          if c < 0 then Some (False, con, line, input)
          else if c \<ge> 0x20 \<and> i < BUFSIZE - 1 then
            readline_loop input (cputchar con (word_of_int c)) (line[i := word_of_int c]) (i + 1)
          else if c = 0x08 \<and> i > 0 then readline_loop input (cputchar con (word_of_int c)) line (i - 1)
          else if c = 0x0a \<or> c = 0x0d then Some (True, cputchar con (word_of_int c), line[i := 0], input)
          else readline_loop input con line i)"
  by pat_completeness auto
termination
  by (relation "measure (\<lambda>(input, con, line, i). length input)") (auto dest: getchar_shorter)

definition readline :: "int list \<Rightarrow> u8 list \<Rightarrow> u8 list \<Rightarrow> u8 list option \<Rightarrow> (bool \<times> u8 list \<times> u8 list \<times> int list) option" where
  "readline input con line prompt =
     (case prompt of
        None \<Rightarrow> readline_loop input con line 0
      | Some p \<Rightarrow> Option.bind (cprintf con (map of_char ''%s'') [Str (Some p)]) (\<lambda>(con, n). readline_loop input con line 0))"

section \<open>Digits\<close>

function digs :: "nat \<Rightarrow> nat \<Rightarrow> nat list" where
  "digs b n = (if n < b \<or> b < 2 then [n] else digs b (n div b) @ [n mod b])"
  by pat_completeness auto
termination
  by (relation "measure snd") auto

declare digs.simps [simp del] readline_loop.simps [simp del]

lemma digs_value: "2 \<le> b \<Longrightarrow> foldl (\<lambda>v d. v * b + d) 0 (digs b n) = n"
  by (induction b n rule: digs.induct) (subst digs.simps, auto)

lemma digs_range: "2 \<le> b \<Longrightarrow> d \<in> set (digs b n) \<Longrightarrow> d < b"
  by (induction b n rule: digs.induct) (subst (asm) (2) digs.simps, auto split: if_splits)

lemma digs_hd: "2 \<le> b \<Longrightarrow> digs b n \<noteq> [] \<and> (hd (digs b n) = 0 \<longrightarrow> n = 0)"
proof (induction b n rule: digs.induct)
  case (1 b n)
  then show ?case by (subst (1 2) digs.simps) (auto simp: hd_append div_eq_0_iff)
qed

definition printable :: "nat \<Rightarrow> nat \<Rightarrow> bool" where
  "printable b n \<longleftrightarrow> (b = 8 \<or> b = 16) \<and> n < 2 ^ 64 \<or> b = 10 \<and> n < 2 ^ 32"

lemma do_div_printable:
  assumes "printable b n"
  shows "do_div (of_nat n) (of_nat b) = (of_nat (n div b), of_nat (n mod b))"
proof -
  have n: "unat (of_nat n :: u64) = n" using assms by (auto simp: printable_def unat_of_nat)
  show ?thesis using assms do_div_10 [of "of_nat n"] do_div_shift [of "of_nat n"] unfolding n by (auto simp: printable_def)
qed

lemma printnum_eq:
  "printable b n \<Longrightarrow>
   printnum (of_nat n) (of_nat b) wd pc = Some (replicate (nat (wd - int (length (digs b n)))) pc @ map ((!) hexdigits) (digs b n))"
proof (induction b n arbitrary: wd rule: digs.induct)
  case (1 b n)
  note pr = "1.prems"
  have b: "2 \<le> b" "b \<le> 16" "n < 2 ^ 64" using pr by (auto simp: printable_def)
  have ge: "(of_nat n :: u64) \<ge> ucast (of_nat b :: u32) \<longleftrightarrow> b \<le> n"
    using b by (simp add: word_le_nat_alt unsigned_ucast_eq unsigned_of_nat take_bit_nat_eq_self)
  have "n mod b < b" using b(1) by simp
  then have "n mod b < 2 ^ 32" using b(2) by simp
  then have m: "unat (of_nat (n mod b) :: u32) = n mod b" by (simp add: unat_of_nat)
  have h: "n mod b < length hexdigits" "n < b \<Longrightarrow> n < length hexdigits"
    using \<open>n mod b < b\<close> b(2) by (simp_all add: hexdigits_def)
  show ?case
  proof (cases "n < b")
    case True
    then show ?thesis using ge m h do_div_printable [OF pr] by (subst printnum.simps) (simp add: digs.simps [of b n])
  next
    case False
    have "printable b (n div b)" using pr False by (auto simp: printable_def intro: le_less_trans [OF div_le_dividend])
    then show ?thesis using False b "1.IH" ge m h do_div_printable [OF pr]
      by (subst printnum.simps) (simp add: digs.simps [of b n] algebra_simps)
  qed
qed

section \<open>Buffers\<close>

lemma wrap32_add [simp]: "wrap32 (wrap32 x + y) = wrap32 (x + y)" "wrap32 (y + wrap32 x) = wrap32 (y + x)" "wrap32 (wrap32 x) = wrap32 x"
  by (simp_all add: wrap32_def)

lemma wrap32_small: "- (2 ^ 31) \<le> x \<Longrightarrow> x < 2 ^ 31 \<Longrightarrow> wrap32 x = x"
  by (simp add: wrap32_def signed_of_int signed_take_bit_int_eq_self)

lemma sprintputch_fold:
  assumes "wrap32 (cnt b) = cnt b" "unat (buf b) \<le> unat (ebuf b)" "n = min (length out) (unat (ebuf b) - unat (buf b))"
  shows "\<exists>m'. fold sprintputch out (m, b) = (m', b\<lparr>buf := buf b + of_nat n, cnt := wrap32 (cnt b + int (length out))\<rparr>) \<and>
    bytes_at m' (buf b) (take n out) \<and> (\<forall>x. x \<notin> span (buf b) n \<longrightarrow> m' x = m x)"
  using assms
proof (induction out arbitrary: m b n)
  case Nil
  then show ?case by simp
next
  case (Cons c out)
  show ?case
  proof (cases "buf b < ebuf b")
    case False
    then have "unat (ebuf b) - unat (buf b) = 0" by (simp add: word_less_nat_alt)
    then show ?thesis using False Cons.IH [of "b\<lparr>cnt := wrap32 (cnt b + 1)\<rparr>" 0 m] Cons.prems by (simp add: ac_simps)
  next
    case True
    then have lt: "unat (buf b) < unat (ebuf b)" by (simp add: word_less_nat_alt)
    then have u: "unat (buf b + 1) = unat (buf b) + 1"
      using u32_add_of_nat_less [of "buf b" 1] unsigned_less [of "ebuf b", where ?'a = nat] by simp
    define k where "k = min (length out) (unat (ebuf b) - unat (buf b + 1))"
    have n: "n = Suc k" using lt u Cons.prems(3) by (simp add: k_def)
    have kb: "k < 2 ^ 32" using unsigned_less [of "ebuf b", where ?'a = nat] unfolding k_def by simp
    define m1 where "m1 = m(buf b := c)"
    obtain m' where m': "fold sprintputch out (m1, b\<lparr>cnt := wrap32 (cnt b + 1), buf := buf b + 1\<rparr>) =
        (m', b\<lparr>buf := buf b + 1 + of_nat k, cnt := wrap32 (cnt b + 1 + int (length out))\<rparr>)"
      "bytes_at m' (buf b + 1) (take k out)" "\<And>x. x \<notin> span (buf b + 1) k \<Longrightarrow> m' x = m1 x"
      using Cons.IH [of "b\<lparr>cnt := wrap32 (cnt b + 1), buf := buf b + 1\<rparr>" k m1] lt u by (auto simp: k_def)
    have "m' (buf b) = c" using m'(3) [OF base_notin_span [OF kb]] by (simp add: m1_def)
    then show ?thesis using m' [unfolded m1_def] True unfolding n by (intro exI [of _ m']) (simp add: span_Suc ac_simps)
  qed
qed

lemma str_append: "bytes_at m a (xs @ ys) \<longleftrightarrow> bytes_at m a xs \<and> bytes_at m (a + of_nat (length xs)) ys"
  by (induction xs arbitrary: a) (auto simp: ac_simps)

lemma end_notin_span: "n < 2 ^ 32 \<Longrightarrow> a + of_nat n \<notin> span a n"
  using span_iff [of n "a + of_nat n" a] by (simp add: unat_of_nat)

lemma vsnprintf_writes:
  assumes "str \<noteq> 0" "unat str + unat sz \<le> 2 ^ 32" "vprintfmt fmt ap = Some out" and nz: "sz \<noteq> 0"
  shows "\<exists>m'. vsnprintf m str sz fmt ap = Some (m', wrap32 (int (length out))) \<and>
    bytes_at m' str (take (unat sz - 1) out @ [0]) \<and> (\<forall>x. x \<notin> span str (unat sz) \<longrightarrow> m' x = m x)"
proof -
  have s: "0 < unat sz" using nz by (simp add: unat_gt_0)
  have "unat str + (unat sz - 1) < 2 ^ 32" using assms(2) s by linarith
  note e0 = u32_add_of_nat_less [OF this]
  have "str + sz - 1 = str + of_nat (unat sz - 1)" using s by (simp add: of_nat_diff)
  then have e: "unat (str + sz - 1) = unat str + (unat sz - 1)" using e0 by (simp only:)
  then have nb: "\<not> str > str + sz - 1" by (simp add: word_less_nat_alt)
  define b where "b = \<lparr>buf = str, ebuf = str + sz - 1, cnt = 0\<rparr>"
  define n where "n = min (length out) (unat sz - 1)"
  obtain m' where m': "fold sprintputch out (m, b) = (m', b\<lparr>buf := str + of_nat n, cnt := wrap32 (int (length out))\<rparr>)"
    "bytes_at m' str (take n out)" "\<And>x. x \<notin> span str n \<Longrightarrow> m' x = m x"
    using sprintputch_fold [of b n out m] e wrap32_small [of 0] by (auto simp: b_def n_def)
  have n: "n < unat sz" "n < 2 ^ 32" using s unsigned_less [of sz, where ?'a = nat] by (simp_all add: n_def)
  have t: "take (unat sz - 1) out = take n out" "length (take n out) = n" "min (length out) n = n" by (simp_all add: n_def min_def)
  have "bytes_at (m'(str + of_nat n := 0)) str (take n out)"
    using m'(2) end_notin_span [OF n(2), of str] by (subst bytes_at_frame [of _ _ _ m']) (auto simp: t(3))
  then have "bytes_at (m'(str + of_nat n := 0)) str (take (unat sz - 1) out @ [0])" unfolding t(1) str_append t(2) by simp
  moreover have "x \<notin> span str n \<and> x \<noteq> str + of_nat n" if "x \<notin> span str (unat sz)" for x
    using that n(1) by (auto simp: span_def)
  moreover have "\<not> buf b > ebuf b" using nb by (simp add: b_def)
  ultimately show ?thesis using nz assms(1,3) m' by (auto simp: vsnprintf_def Let_def simp flip: b_def)
qed

section \<open>Decimal output\<close>

lemma digs_length: "2 \<le> b \<Longrightarrow> n < b ^ Suc k \<Longrightarrow> length (digs b n) \<le> Suc k"
proof (induction k arbitrary: n)
  case 0
  then show ?case by (simp add: digs.simps)
next
  case (Suc k)
  then have "n div b < b ^ Suc k" by (simp add: less_mult_imp_div_less mult.commute)
  then show ?case using Suc by (subst digs.simps) simp
qed

lemma signed_decimal:
  fixes x :: u32
  shows "print_signed f (scast x) = Some ((if sint x < 0 then [0x2d] else []) @
    replicate (nat (width f - int (length (digs 10 (nat \<bar>sint x\<bar>))))) (padc f) @ map ((!) hexdigits) (digs 10 (nat \<bar>sint x\<bar>)))"
proof -
  let ?n = "nat \<bar>sint x\<bar>"
  have r: "- 2147483648 \<le> sint x" "sint x < 2147483648" using sint_greater_eq [of x] sint_less [of x] by simp_all
  then have p: "printable 10 ?n" by (auto simp: printable_def)
  have s: "sint (scast x :: u64) = sint x" using r by (simp add: signed_scast_eq signed_take_bit_int_eq_self)
  have neg: "(scast x :: u64) <s 0 \<longleftrightarrow> sint x < 0" by (simp add: word_sless_alt s)
  have "of_int (sint (scast x :: u64)) = (scast x :: u64)" by simp
  then have v: "(if (scast x :: u64) <s 0 then - scast x else scast x) = (of_nat ?n :: u64)"
    unfolding neg unfolding s by (auto simp: of_nat_nat)
  have e: "printnum (if (scast x :: u64) <s 0 then - scast x else scast x) 10 (width f) (padc f) =
    Some (replicate (nat (width f - int (length (digs 10 ?n)))) (padc f) @ map ((!) hexdigits) (digs 10 ?n))"
    unfolding v using printnum_eq [OF p] by simp
  show ?thesis
  proof (cases "sint x < 0")
    case True
    then show ?thesis using e neg unfolding print_signed_def by simp
  next
    case False
    then show ?thesis using e neg unfolding print_signed_def by simp
  qed
qed

lemma printf_d: "vprintfmt (map of_char ''%d'') [W32 x] = print_signed fstate_init (scast x)"
proof -
  have c: "(map of_char ''%d'' :: u8 list) = [0x25, 0x64]" by simp
  have "reswitch fstate_init [W32 x] [0x64] = Some (fstate_init, [W32 x], 0x64, [])" by simp
  moreover have "conversion fstate_init [W32 x] 0x64 = Option.bind (print_signed fstate_init (scast x)) (\<lambda>out. Some (Some (out, [])))"
    by (simp add: conversion_def getint_def fstate_init_def)
  ultimately show ?thesis unfolding c by (cases "print_signed fstate_init (scast x)") simp_all
qed

lemma digit_of_hexdigit: "d < 10 \<Longrightarrow> digit_of (hexdigits ! d) = Some (int d)"
proof -
  assume "d < 10"
  then have d: "d \<in> set [0..<10]" by simp
  have "[0..<10] = [0, 1, 2, 3, 4, 5, 6, 7, 8, 9]" by code_simp
  then have "d \<in> set [0, 1, 2, 3, 4, 5, 6, 7, 8, 9]" using d by (simp only:)
  moreover have "\<forall>d \<in> set [0, 1, 2, 3, 4, 5, 6, 7, 8, 9]. digit_of (hexdigits ! d) = Some (int d)"
    by (simp add: hexdigits_def digit_of_def)
  ultimately show ?thesis by blast
qed

lemma foldl_int: "foldl (\<lambda>v d. v * 10 + d) (int a) (map int ds) = int (foldl (\<lambda>v d. v * 10 + d) a ds)"
proof (induction ds arbitrary: a)
  case (Cons d ds)
  then show ?case using Cons.IH [of "a * 10 + d"] by simp
qed simp

section \<open>Formats that fit their arguments\<close>









text \<open>
  The flag for padding on the right instead pads on the left, with minus signs; and a negative number has its sign before the
  padding.
\<close>

lemma printf_flags:
  "vprintfmt (map of_char ''%-5d'') [W32 42] = Some (map of_char ''---42'')"
  "vprintfmt (map of_char ''%5d'') [W32 (- 42)] = Some (map of_char ''-   42'')"
proof -
  have g: "digs 10 42 = [4, 2]" by (simp add: digs.simps)
  have s: "scast (42 :: u32) = (42 :: u64)" "sint (42 :: u32) = 42" "sint (- 42 :: u32) = - 42" "scast (- 42 :: u32) = (- 42 :: u64)" by simp_all
  have w: "wrap32 5 = 5" by (simp add: wrap32_def)
  show "vprintfmt (map of_char ''%-5d'') [W32 42] = Some (map of_char ''---42'')"
    using signed_decimal [of _ 42] by (simp add: g s w hexdigits_def conversion_def getint_def fstate_init_def process_precision_def numeral_3_eq_3)
  show "vprintfmt (map of_char ''%5d'') [W32 (- 42)] = Some (map of_char ''-   42'')"
    using signed_decimal [of _ "- 42"] by (simp add: g s w hexdigits_def conversion_def getint_def fstate_init_def process_precision_def numeral_3_eq_3)
qed

section \<open>Properties\<close>



text \<open>
  Numbers are printed exactly: in base 8, 10 and 16 \<^verbatim>\<open>printnum\<close> returns, and prints padding followed by digits of the
  base, without leading zeros, whose value is the number. Base 10 needs a number below \<open>2 ^ 32\<close>.
\<close>

theorem printnum_digits:
  assumes "base \<in> {8, 10, 16}" "base = 10 \<longrightarrow> unat num < 2 ^ 32"
  shows "\<exists>ds. printnum num base wd pc = Some (replicate (nat (wd - int (length ds))) pc @ map ((!) hexdigits) ds) \<and>
    (\<forall>d \<in> set ds. d < unat base) \<and> foldl (\<lambda>v d. v * unat base + d) 0 ds = unat num \<and> ds \<noteq> [] \<and> (hd ds = 0 \<longrightarrow> num = 0)"
proof -
  have p: "printable (unat base) (unat num)" "2 \<le> unat base"
    using assms unsigned_less [of num, where ?'a = nat] by (auto simp: printable_def)
  have e: "of_nat (unat num) = num" "of_nat (unat base) = base" by simp_all
  show ?thesis
    using printnum_eq [OF p(1), of wd pc] digs_range [OF p(2), of _ "unat num"] digs_value [OF p(2), of "unat num"] digs_hd [OF p(2), of "unat num"]
    unfolding e by (intro exI [of _ "digs (unat base) (unat num)"]) (auto simp: unat_eq_zero)
qed

theorem printnum_digits_witness:
  "\<exists>ds. printnum 255 16 4 0x30 = Some (replicate (nat (4 - int (length ds))) 0x30 @ map ((!) hexdigits) ds) \<and>
     foldl (\<lambda>v d. v * 16 + d) 0 ds = 255"
  using printnum_digits [of 16 255 4 "0x30"] by auto

text \<open>
  C24. Printing and parsing are inverse: for every \<^verbatim>\<open>int\<close> \<open>x\<close>, \<^verbatim>\<open>strtol\<close> in base 10 reads back what \<^verbatim>\<open>snprintf\<close> with
  \<^verbatim>\<open>"%d"\<close> wrote into a buffer of at least 12 bytes, and stops at the terminator.
\<close>

theorem snprintf_strtol_roundtrip:
  assumes "str \<noteq> 0" "unat str + unat sz \<le> 2 ^ 32" "12 \<le> unat sz"
  shows "\<exists>m' n. snprintf m str sz (map of_char ''%d'') [W32 x] = Some (m', int n) \<and> strtol m' str 10 = Some (x, str + of_nat n)"
proof -
  define ds where "ds = digs 10 (nat \<bar>sint x\<bar>)"
  define sg where "sg = (if sint x < 0 then [0x2d] else [] :: u8 list)"
  define cs where "cs = map ((!) hexdigits) ds"
  have r: "- 2147483648 \<le> sint x" "sint x < 2147483648" using sint_greater_eq [of x] sint_less [of x] by simp_all
  then have "nat \<bar>sint x\<bar> < 10 ^ Suc 9" by auto
  then have l: "length ds \<le> 10" using digs_length [of 10 "nat \<bar>sint x\<bar>" 9] by (simp add: ds_def)
  have d: "\<forall>d \<in> set ds. d < 10" "ds \<noteq> []" using digs_range [of 10] digs_hd [of 10] by (auto simp: ds_def)
  have out: "vprintfmt (map of_char ''%d'') [W32 x] = Some (sg @ cs)"
    unfolding printf_d signed_decimal by (simp add: fstate_init_def sg_def cs_def ds_def)
  have nz: "sz \<noteq> 0" using assms(3) by auto
  have tk: "take (unat sz - 1) (sg @ cs) = sg @ cs" using l assms(3) by (auto simp: cs_def sg_def)
  from vsnprintf_writes [OF assms(1,2) out nz, of m] obtain m' where m': "vsnprintf m str sz (map of_char ''%d'') [W32 x] = Some (m', wrap32 (int (length (sg @ cs))))"
    "bytes_at m' str ((sg @ cs) @ [0])" unfolding tk by auto
  from m'(2) have m'': "bytes_at m' str (sg @ cs)" "m' (str + of_nat (length (sg @ cs))) = 0" unfolding str_append by simp_all
  have dg: "map digit_of cs = map Some (map int ds)" using d(1) digit_of_hexdigit by (simp add: cs_def)
  have f: "foldl (\<lambda>v d. v * 10 + d) 0 (map int ds) = \<bar>sint x\<bar>"
    using foldl_int [of 0 ds] digs_value [of 10 "nat \<bar>sint x\<bar>"] by (simp add: ds_def)
  have "strtol m' str 10 = Some (of_int ((if sg = [0x2d] then - 1 else 1) * foldl (\<lambda>v d. v * 10 + d) 0 (map int ds)), str + of_nat (length ([] @ sg @ cs)))"
    by (rule strtol_reads [OF _ _ _ _ dg]) (use m'' d in \<open>auto simp: sg_def cs_def digit_of_def\<close>)
  moreover have "of_int ((if sg = [0x2d] then - 1 else 1) * \<bar>sint x\<bar>) = x" by (auto simp: sg_def)
  moreover have "wrap32 (int (length (sg @ cs))) = int (length (sg @ cs))" using l by (intro wrap32_small) (simp_all add: sg_def cs_def)
  ultimately show ?thesis using m'(1) unfolding snprintf_def f by (intro exI [of _ m'] exI [of _ "length (sg @ cs)"]) simp
qed

theorem snprintf_strtol_roundtrip_witness:
  "\<exists>m' n. snprintf (\<lambda>_. 0) 0x100 16 (map of_char ''%d'') [W32 (- 42)] = Some (m', int n) \<and> strtol m' 0x100 10 = Some (- 42, 0x100 + of_nat n)"
  by (rule snprintf_strtol_roundtrip) simp_all

end
