(* ===== verification/Sfs.thy ===== *)
theory Sfs
  imports Bitmap "HOL-Library.Signed_Division"
begin

text \<open>
  The block device \<^verbatim>\<open>disk0\<close> with its I/O buffers (\<^verbatim>\<open>kern/fs/iobuf.c\<close>, \<^verbatim>\<open>kern/fs/devs/dev_disk0.c\<close>), the
  block-level I/O of the simple file system (\<^verbatim>\<open>kern/fs/sfs/sfs_io.c\<close>) and the operations of \<^verbatim>\<open>sfs_inode.c\<close> on
  the blocks of one file: allocation, the block map with its indirect block, reading and writing, resizing and
  the search of a directory. The disk is the image in flash, a function from byte positions to bytes. A C
  buffer is a list of bytes with a position; \<^verbatim>\<open>off_t\<close> values are 32-bit words read as signed where the code
  compares them as such. The scratch buffer \<^verbatim>\<open>sfs_buffer\<close> is overwritten before each use and is local here. The
  locks are uncontended.
\<close>

section \<open>I/O buffers\<close>

record iobuf =
  io_mem :: "u8 list"
  io_base :: nat
  io_offset :: u32
  io_len :: u32
  io_resid :: u32

definition iobuf_init :: "u8 list \<Rightarrow> nat \<Rightarrow> u32 \<Rightarrow> u32 \<Rightarrow> iobuf" where
  "iobuf_init mem base len offset =
     \<lparr>io_mem = mem, io_base = base, io_offset = offset, io_len = len, io_resid = len\<rparr>"

definition iobuf_used :: "iobuf \<Rightarrow> u32" where
  "iobuf_used iob = io_len iob - io_resid iob"

definition iobuf_skip :: "iobuf \<Rightarrow> u32 \<Rightarrow> kpanic + iobuf" where
  "iobuf_skip iob n =
     bindE (assertE (n \<le> io_resid iob)) (\<lambda>_.
     Inr (iob\<lparr>io_base := io_base iob + unat n, io_offset := io_offset iob + n, io_resid := io_resid iob - n\<rparr>))"

text \<open>The bytes of \<open>xs\<close> written at position \<open>p\<close> of a buffer.\<close>

definition put_bytes :: "nat \<Rightarrow> 'a list \<Rightarrow> 'a list \<Rightarrow> 'a list" where
  "put_bytes p xs b = take p b @ xs @ drop (p + length xs) b"

text \<open>\<open>iobuf_move iob data len m2b\<close> is the buffer, the content of \<open>data\<close>, the return code and \<^verbatim>\<open>*copiedp\<close>.\<close>

definition iobuf_move :: "iobuf \<Rightarrow> u8 list \<Rightarrow> u32 \<Rightarrow> bool \<Rightarrow> kpanic + (iobuf \<times> u8 list \<times> int \<times> u32)" where
  "iobuf_move iob dat len m2b =
     (let alen = (if len < io_resid iob then len else io_resid iob) in
      if 0 < alen then
        (let src = take (unat alen) (drop (io_base iob) (io_mem iob)) in
         bindE (iobuf_skip (if m2b then iob\<lparr>io_mem := put_bytes (io_base iob) (take (unat alen) dat) (io_mem iob)\<rparr> else iob) alen)
           (\<lambda>iob. Inr (iob, if m2b then dat else put_bytes 0 src dat, if len - alen = 0 then 0 else - E_NO_MEM, alen)))
      else Inr (iob, dat, if len = 0 then 0 else - E_NO_MEM, alen))"

definition iobuf_move_zeros :: "iobuf \<Rightarrow> u32 \<Rightarrow> kpanic + (iobuf \<times> int \<times> u32)" where
  "iobuf_move_zeros iob len =
     (let alen = (if len < io_resid iob then len else io_resid iob) in
      if 0 < alen then
        bindE (iobuf_skip (iob\<lparr>io_mem := put_bytes (io_base iob) (replicate (unat alen) 0) (io_mem iob)\<rparr>) alen)
          (\<lambda>iob. Inr (iob, if len - alen = 0 then 0 else - E_NO_MEM, alen))
      else Inr (iob, if len = 0 then 0 else - E_NO_MEM, alen))"

section \<open>The device disk0\<close>

type_synonym image = "u32 \<Rightarrow> u8"

abbreviation (input) DISK0_BLKSIZE :: u32 where "DISK0_BLKSIZE \<equiv> 4096"
abbreviation (input) DISK0_BUFSIZE :: u32 where "DISK0_BUFSIZE \<equiv> 4 * DISK0_BLKSIZE"
abbreviation (input) DISK0_DEVSIZE :: u32 where "DISK0_DEVSIZE \<equiv> 0x400000"

definition d_blocks_disk0 :: u32 where
  "d_blocks_disk0 = DISK0_DEVSIZE div DISK0_BLKSIZE"

definition disk0_read_blks_nolock :: "image \<Rightarrow> u32 \<Rightarrow> u32 \<Rightarrow> u8 list" where
  "disk0_read_blks_nolock img blkno nblks =
     map (\<lambda>i. img (blkno * DISK0_BLKSIZE + of_nat i)) [0..<unat (nblks * DISK0_BLKSIZE)]"

text \<open>The image is in flash: the write routine only prints a warning.\<close>

definition disk0_write_blks_nolock :: "image \<Rightarrow> u32 \<Rightarrow> u32 \<Rightarrow> u8 list \<Rightarrow> image" where
  "disk0_write_blks_nolock img blkno nblks dat = img"

text \<open>
  The copy loop of \<^verbatim>\<open>disk0_io\<close>. Each round moves at least one block, so there are at most \<open>resid div 4096\<close>
  rounds; \<open>n\<close> bounds them.
\<close>

fun disk0_loop :: "nat \<Rightarrow> image \<Rightarrow> iobuf \<Rightarrow> u32 \<Rightarrow> u32 \<Rightarrow> bool \<Rightarrow> kpanic + (image \<times> iobuf)" where
  "disk0_loop 0 img iob resid blkno write = (if resid = 0 then Inr (img, iob) else Inl Fuel_exhausted)"
| "disk0_loop (Suc n) img iob resid blkno write =
     (if resid = 0 then Inr (img, iob)
      else if write then
        bindE (iobuf_move iob (replicate (unat DISK0_BUFSIZE) 0) DISK0_BUFSIZE False) (\<lambda>(iob, buffer, ret, copied).
        bindE (assertE (copied \<noteq> 0 \<and> copied \<le> resid \<and> copied mod DISK0_BLKSIZE = 0)) (\<lambda>_.
        let nblks = copied div DISK0_BLKSIZE in
        disk0_loop n (disk0_write_blks_nolock img blkno nblks buffer) iob (resid - copied) (blkno + nblks) write))
      else
        (let alen = (if resid < DISK0_BUFSIZE then resid else DISK0_BUFSIZE); nblks = alen div DISK0_BLKSIZE in
         bindE (iobuf_move iob (disk0_read_blks_nolock img blkno nblks) alen True) (\<lambda>(iob, _, ret, copied).
         bindE (assertE (copied = alen \<and> copied mod DISK0_BLKSIZE = 0)) (\<lambda>_.
         disk0_loop n img iob (resid - copied) (blkno + nblks) write))))"

definition disk0_io :: "image \<Rightarrow> iobuf \<Rightarrow> bool \<Rightarrow> kpanic + (image \<times> iobuf \<times> int)" where
  "disk0_io img iob write =
     (let offset = io_offset iob; resid = io_resid iob;
          blkno = word_of_int (sint offset sdiv 4096); nblks = resid div DISK0_BLKSIZE in
      if offset mod DISK0_BLKSIZE \<noteq> 0 \<or> resid mod DISK0_BLKSIZE \<noteq> 0 then Inr (img, iob, - E_INVAL)
      else if d_blocks_disk0 < blkno + nblks then Inr (img, iob, - E_INVAL)
      else if nblks = 0 then Inr (img, iob, 0)
      else bindE (disk0_loop (unat nblks) img iob resid blkno write) (\<lambda>(img, iob). Inr (img, iob, 0)))"

section \<open>The file system in memory\<close>

abbreviation (input) SFS_BLKSIZE :: u32 where "SFS_BLKSIZE \<equiv> 4096"
abbreviation (input) SFS_NDIRECT :: u32 where "SFS_NDIRECT \<equiv> 12"
abbreviation (input) SFS_BLK_NENTRY :: u32 where "SFS_BLK_NENTRY \<equiv> 1024"
abbreviation (input) SFS_BLKBITS :: u32 where "SFS_BLKBITS \<equiv> 32768"
abbreviation (input) SFS_MAX_FILE_SIZE :: u32 where "SFS_MAX_FILE_SIZE \<equiv> 0x8000000"
abbreviation (input) SFS_MAX_FNAME_LEN :: nat where "SFS_MAX_FNAME_LEN \<equiv> 255"
abbreviation (input) SFS_BLKN_SUPER :: u32 where "SFS_BLKN_SUPER \<equiv> 0"
abbreviation (input) SFS_BLKN_ROOT :: u32 where "SFS_BLKN_ROOT \<equiv> 1"
abbreviation (input) SFS_BLKN_FREEMAP :: u32 where "SFS_BLKN_FREEMAP \<equiv> 2"
abbreviation (input) SFS_TYPE_FILE :: u16 where "SFS_TYPE_FILE \<equiv> 1"
abbreviation (input) SFS_TYPE_DIR :: u16 where "SFS_TYPE_DIR \<equiv> 2"
abbreviation (input) SFS_TYPE_LINK :: u16 where "SFS_TYPE_LINK \<equiv> 3"

record sfs_disk_inode =
  dsize :: u32
  dtype :: u16
  nlinks :: u16
  dblocks :: u32
  direct :: "u32 list"
  indirect :: u32

record sfs_inode =
  din :: sfs_disk_inode
  ino :: u32
  dirty :: bool
  reclaim_count :: int

text \<open>
  The lists \<^verbatim>\<open>inode_list\<close> and \<^verbatim>\<open>hash_list\<close> are given by the inodes on them in the order of the links, the
  view that the theory of the linked lists justifies; an inode is named by a number.
\<close>

record sfs_fs =
  blocks :: u32
  unused_blocks :: u32
  info :: "u8 list"
  super_dirty :: bool
  freemap :: bitmap
  disk :: image
  inode_list :: "nat list"
  hash_list :: "u32 \<Rightarrow> nat list"

section \<open>Block-level I/O\<close>

definition sfs_rwblock_nolock ::
  "sfs_fs \<Rightarrow> u8 list \<Rightarrow> nat \<Rightarrow> u32 \<Rightarrow> bool \<Rightarrow> bool \<Rightarrow> kpanic + (sfs_fs \<times> u8 list \<times> int)" where
  "sfs_rwblock_nolock s buf base blkno write check =
     bindE (assertE ((blkno \<noteq> 0 \<or> \<not> check) \<and> blkno < blocks s)) (\<lambda>_.
     bindE (disk0_io (disk s) (iobuf_init buf base SFS_BLKSIZE (blkno * SFS_BLKSIZE)) write) (\<lambda>(img, iob, ret).
     Inr (s\<lparr>disk := img\<rparr>, io_mem iob, ret)))"

fun sfs_rwblock_loop ::
  "sfs_fs \<Rightarrow> u8 list \<Rightarrow> nat \<Rightarrow> u32 \<Rightarrow> nat \<Rightarrow> bool \<Rightarrow> kpanic + (sfs_fs \<times> u8 list \<times> int)" where
  "sfs_rwblock_loop s buf base blkno 0 write = Inr (s, buf, 0)"
| "sfs_rwblock_loop s buf base blkno (Suc nblks) write =
     bindE (sfs_rwblock_nolock s buf base blkno write True) (\<lambda>(s, buf, ret).
     if ret \<noteq> 0 then Inr (s, buf, ret)
     else sfs_rwblock_loop s buf (base + unat SFS_BLKSIZE) (blkno + 1) nblks write)"

definition sfs_rwblock ::
  "sfs_fs \<Rightarrow> u8 list \<Rightarrow> nat \<Rightarrow> u32 \<Rightarrow> u32 \<Rightarrow> bool \<Rightarrow> kpanic + (sfs_fs \<times> u8 list \<times> int)" where
  "sfs_rwblock s buf base blkno nblks write = sfs_rwblock_loop s buf base blkno (unat nblks) write"

definition sfs_rblock :: "sfs_fs \<Rightarrow> u8 list \<Rightarrow> nat \<Rightarrow> u32 \<Rightarrow> u32 \<Rightarrow> kpanic + (sfs_fs \<times> u8 list \<times> int)" where
  "sfs_rblock s buf base blkno nblks = sfs_rwblock s buf base blkno nblks False"

definition sfs_wblock :: "sfs_fs \<Rightarrow> u8 list \<Rightarrow> nat \<Rightarrow> u32 \<Rightarrow> u32 \<Rightarrow> kpanic + (sfs_fs \<times> u8 list \<times> int)" where
  "sfs_wblock s buf base blkno nblks = sfs_rwblock s buf base blkno nblks True"

abbreviation (input) zero_block :: "u8 list" where "zero_block \<equiv> replicate (unat SFS_BLKSIZE) 0"

definition sfs_rbuf :: "sfs_fs \<Rightarrow> u8 list \<Rightarrow> nat \<Rightarrow> u32 \<Rightarrow> u32 \<Rightarrow> u32 \<Rightarrow> kpanic + (sfs_fs \<times> u8 list \<times> int)" where
  "sfs_rbuf s buf base len blkno offset =
     bindE (assertE (0 \<le> sint offset \<and> sint offset < 4096 \<and> offset + len \<le> SFS_BLKSIZE)) (\<lambda>_.
     bindE (sfs_rwblock_nolock s zero_block 0 blkno False True) (\<lambda>(s, sfs_buffer, ret).
     Inr (s, if ret = 0 then put_bytes base (take (unat len) (drop (unat offset) sfs_buffer)) buf else buf, ret)))"

definition sfs_wbuf :: "sfs_fs \<Rightarrow> u8 list \<Rightarrow> nat \<Rightarrow> u32 \<Rightarrow> u32 \<Rightarrow> u32 \<Rightarrow> kpanic + (sfs_fs \<times> u8 list \<times> int)" where
  "sfs_wbuf s buf base len blkno offset =
     bindE (assertE (0 \<le> sint offset \<and> sint offset < 4096 \<and> offset + len \<le> SFS_BLKSIZE)) (\<lambda>_.
     bindE (sfs_rwblock_nolock s zero_block 0 blkno False True) (\<lambda>(s, sfs_buffer, ret).
     if ret \<noteq> 0 then Inr (s, buf, ret)
     else
       bindE (sfs_rwblock_nolock s (put_bytes (unat offset) (take (unat len) (drop base buf)) sfs_buffer) 0 blkno True True)
         (\<lambda>(s, _, ret). Inr (s, buf, ret))))"

text \<open>\<^verbatim>\<open>sfs_clear_block\<close> writes its zeroed buffer to each block in turn; it is only called for one block.\<close>

fun sfs_clear_block :: "sfs_fs \<Rightarrow> u32 \<Rightarrow> nat \<Rightarrow> kpanic + (sfs_fs \<times> int)" where
  "sfs_clear_block s blkno 0 = Inr (s, 0)"
| "sfs_clear_block s blkno (Suc nblks) =
     bindE (sfs_rwblock_nolock s zero_block 0 blkno True True) (\<lambda>(s, _, ret).
     if ret \<noteq> 0 then Inr (s, ret) else sfs_clear_block s (blkno + 1) nblks)"

text \<open>The bytes of a word in memory, least significant first.\<close>

definition le32 :: "u8 list \<Rightarrow> u32" where
  "le32 xs = ucast (xs ! 0) OR push_bit 8 (ucast (xs ! 1)) OR push_bit 16 (ucast (xs ! 2)) OR push_bit 24 (ucast (xs ! 3))"

definition le16 :: "u8 list \<Rightarrow> u16" where
  "le16 xs = ucast (xs ! 0) OR push_bit 8 (ucast (xs ! 1))"

definition le32_bytes :: "u32 \<Rightarrow> u8 list" where
  "le32_bytes w = [ucast w, ucast (drop_bit 8 w), ucast (drop_bit 16 w), ucast (drop_bit 24 w)]"

definition le16_bytes :: "u16 \<Rightarrow> u8 list" where
  "le16_bytes w = [ucast w, ucast (drop_bit 8 w)]"

section \<open>Allocation of blocks\<close>

definition sfs_block_inuse :: "sfs_fs \<Rightarrow> u32 \<Rightarrow> kpanic + bool" where
  "sfs_block_inuse s i =
     (if i \<noteq> 0 \<and> i < blocks s then bindE (bitmap_test (freemap s) i) (\<lambda>b. Inr (\<not> b)) else Inl Panicked)"

text \<open>The results are the return code and the value stored through \<^verbatim>\<open>ino_store\<close> (0 when none is).\<close>

definition sfs_block_alloc :: "sfs_fs \<Rightarrow> kpanic + (sfs_fs \<times> int \<times> u32)" where
  "sfs_block_alloc s =
     bindE (bitmap_alloc (freemap s)) (\<lambda>(fm, ret, i).
       let s = s\<lparr>freemap := fm\<rparr> in
       case i of
         None \<Rightarrow> Inr (s, ret, 0)
       | Some i \<Rightarrow>
           bindE (assertE (0 < unused_blocks s)) (\<lambda>_.
           let s = s\<lparr>unused_blocks := unused_blocks s - 1, super_dirty := True\<rparr> in
           bindE (sfs_block_inuse s i) (\<lambda>b. bindE (assertE b) (\<lambda>_.
           bindE (sfs_clear_block s i 1) (\<lambda>(s, ret). Inr (s, ret, i))))))"

definition sfs_block_free :: "sfs_fs \<Rightarrow> u32 \<Rightarrow> kpanic + sfs_fs" where
  "sfs_block_free s i =
     bindE (sfs_block_inuse s i) (\<lambda>b. bindE (assertE b) (\<lambda>_.
     bindE (bitmap_free (freemap s) i) (\<lambda>fm.
     Inr (s\<lparr>freemap := fm, unused_blocks := unused_blocks s + 1, super_dirty := True\<rparr>))))"

section \<open>The block map of a file\<close>

text \<open>
  \<^verbatim>\<open>sfs_bmap_get_sub_nolock\<close> reads or creates an entry of the indirect block; the results are the return code,
  \<^verbatim>\<open>*entp\<close> and \<^verbatim>\<open>*ino_store\<close>. The part from the allocation of the data block on is \<open>sfs_bmap_new_entry\<close>.
\<close>

definition sfs_bmap_new_entry :: "sfs_fs \<Rightarrow> u32 \<Rightarrow> u32 \<Rightarrow> u32 \<Rightarrow> kpanic + (sfs_fs \<times> int \<times> u32 \<times> u32)" where
  "sfs_bmap_new_entry s entp ent offset =
     bindE (sfs_block_alloc s) (\<lambda>(s, ret, i).
     let failed_cleanup = (\<lambda>s ret. if ent \<noteq> entp then bindE (sfs_block_free s ent) (\<lambda>s. Inr (s, ret, entp, 0))
                                   else Inr (s, ret, entp, 0)) in
     if ret \<noteq> 0 then failed_cleanup s ret
     else
       bindE (sfs_wbuf s (le32_bytes i) 0 4 ent offset) (\<lambda>(s, _, ret).
       if ret \<noteq> 0 then bindE (sfs_block_free s i) (\<lambda>s. failed_cleanup s ret)
       else Inr (s, 0, ent, i)))"

definition sfs_bmap_get_sub_nolock ::
  "sfs_fs \<Rightarrow> u32 \<Rightarrow> u32 \<Rightarrow> bool \<Rightarrow> kpanic + (sfs_fs \<times> int \<times> u32 \<times> u32)" where
  "sfs_bmap_get_sub_nolock s entp index create =
     bindE (assertE (index < SFS_BLK_NENTRY)) (\<lambda>_.
     let offset = index * 4 in
     if entp \<noteq> 0 then
       bindE (sfs_rbuf s [0, 0, 0, 0] 0 4 entp offset) (\<lambda>(s, dat, ret).
       if ret \<noteq> 0 then Inr (s, ret, entp, 0)
       else if le32 dat \<noteq> 0 \<or> \<not> create then Inr (s, 0, entp, le32 dat)
       else sfs_bmap_new_entry s entp entp offset)
     else if \<not> create then Inr (s, 0, entp, 0)
     else
       bindE (sfs_block_alloc s) (\<lambda>(s, ret, ent).
       if ret \<noteq> 0 then Inr (s, ret, entp, 0) else sfs_bmap_new_entry s entp ent offset))"

abbreviation upd_din :: "(sfs_disk_inode \<Rightarrow> sfs_disk_inode) \<Rightarrow> sfs_inode \<Rightarrow> sfs_inode" where
  "upd_din f sin \<equiv> sin\<lparr>din := f (din sin)\<rparr>"

definition sfs_bmap_get_nolock ::
  "sfs_fs \<Rightarrow> sfs_inode \<Rightarrow> u32 \<Rightarrow> bool \<Rightarrow> kpanic + (sfs_fs \<times> sfs_inode \<times> int \<times> u32)" where
  "sfs_bmap_get_nolock s sin index create =
     bindE
       (if index < SFS_NDIRECT then
          (let i = direct (din sin) ! unat index in
           if i = 0 \<and> create then
             bindE (sfs_block_alloc s) (\<lambda>(s, ret, i).
             if ret \<noteq> 0 then Inr (s, sin, ret, 0)
             else Inr (s, upd_din (\<lambda>d. d\<lparr>direct := (direct d)[unat index := i]\<rparr>) sin\<lparr>dirty := True\<rparr>, 0, i))
           else Inr (s, sin, 0, i))
        else if index - SFS_NDIRECT < SFS_BLK_NENTRY then
          bindE (sfs_bmap_get_sub_nolock s (indirect (din sin)) (index - SFS_NDIRECT) create) (\<lambda>(s, ret, ent, i).
          if ret \<noteq> 0 then Inr (s, sin, ret, 0)
          else if ent \<noteq> indirect (din sin) then
            bindE (assertE (indirect (din sin) = 0)) (\<lambda>_.
            Inr (s, upd_din (\<lambda>d. d\<lparr>indirect := ent\<rparr>) sin\<lparr>dirty := True\<rparr>, 0, i))
          else Inr (s, sin, 0, i))
        else Inl Panicked)
       (\<lambda>(s, sin, ret, i).
          if ret \<noteq> 0 then Inr (s, sin, ret, 0)
          else
            bindE (if i = 0 then Inr True else sfs_block_inuse s i) (\<lambda>b.
            bindE (assertE b) (\<lambda>_. Inr (s, sin, 0, i))))"

definition sfs_bmap_free_sub_nolock :: "sfs_fs \<Rightarrow> u32 \<Rightarrow> u32 \<Rightarrow> kpanic + (sfs_fs \<times> int)" where
  "sfs_bmap_free_sub_nolock s ent index =
     bindE (sfs_block_inuse s ent) (\<lambda>b. bindE (assertE (b \<and> index < SFS_BLK_NENTRY)) (\<lambda>_.
     let offset = index * 4 in
     bindE (sfs_rbuf s [0, 0, 0, 0] 0 4 ent offset) (\<lambda>(s, dat, ret).
     if ret \<noteq> 0 then Inr (s, ret)
     else if le32 dat \<noteq> 0 then
       bindE (sfs_wbuf s (le32_bytes 0) 0 4 ent offset) (\<lambda>(s, _, ret).
       if ret \<noteq> 0 then Inr (s, ret)
       else bindE (sfs_block_free s (le32 dat)) (\<lambda>s. Inr (s, 0)))
     else Inr (s, 0))))"

definition sfs_bmap_free_nolock :: "sfs_fs \<Rightarrow> sfs_inode \<Rightarrow> u32 \<Rightarrow> kpanic + (sfs_fs \<times> sfs_inode \<times> int)" where
  "sfs_bmap_free_nolock s sin index =
     (if index < SFS_NDIRECT then
        (let i = direct (din sin) ! unat index in
         if i \<noteq> 0 then
           bindE (sfs_block_free s i) (\<lambda>s.
           Inr (s, upd_din (\<lambda>d. d\<lparr>direct := (direct d)[unat index := 0]\<rparr>) sin\<lparr>dirty := True\<rparr>, 0))
         else Inr (s, sin, 0))
      else if index - SFS_NDIRECT < SFS_BLK_NENTRY \<and> indirect (din sin) \<noteq> 0 then
        bindE (sfs_bmap_free_sub_nolock s (indirect (din sin)) (index - SFS_NDIRECT)) (\<lambda>(s, ret). Inr (s, sin, ret))
      else Inr (s, sin, 0))"

definition sfs_bmap_load_nolock :: "sfs_fs \<Rightarrow> sfs_inode \<Rightarrow> u32 \<Rightarrow> kpanic + (sfs_fs \<times> sfs_inode \<times> int \<times> u32)" where
  "sfs_bmap_load_nolock s sin index =
     bindE (assertE (index \<le> dblocks (din sin))) (\<lambda>_.
     let create = (index = dblocks (din sin)) in
     bindE (sfs_bmap_get_nolock s sin index create) (\<lambda>(s, sin, ret, i).
     if ret \<noteq> 0 then Inr (s, sin, ret, 0)
     else
       bindE (sfs_block_inuse s i) (\<lambda>b. bindE (assertE b) (\<lambda>_.
       Inr (s, if create then upd_din (\<lambda>d. d\<lparr>dblocks := dblocks d + 1\<rparr>) sin else sin, 0, i)))))"

definition sfs_bmap_truncate_nolock :: "sfs_fs \<Rightarrow> sfs_inode \<Rightarrow> kpanic + (sfs_fs \<times> sfs_inode \<times> int)" where
  "sfs_bmap_truncate_nolock s sin =
     bindE (assertE (dblocks (din sin) \<noteq> 0)) (\<lambda>_.
     bindE (sfs_bmap_free_nolock s sin (dblocks (din sin) - 1)) (\<lambda>(s, sin, ret).
     if ret \<noteq> 0 then Inr (s, sin, ret)
     else Inr (s, upd_din (\<lambda>d. d\<lparr>dblocks := dblocks d - 1\<rparr>) sin\<lparr>dirty := True\<rparr>, 0)))"

section \<open>Reading and writing a file\<close>

definition sfs_buf_op ::
  "bool \<Rightarrow> sfs_fs \<Rightarrow> u8 list \<Rightarrow> nat \<Rightarrow> u32 \<Rightarrow> u32 \<Rightarrow> u32 \<Rightarrow> kpanic + (sfs_fs \<times> u8 list \<times> int)" where
  "sfs_buf_op write = (if write then sfs_wbuf else sfs_rbuf)"

definition sfs_block_op :: "bool \<Rightarrow> sfs_fs \<Rightarrow> u8 list \<Rightarrow> nat \<Rightarrow> u32 \<Rightarrow> u32 \<Rightarrow> kpanic + (sfs_fs \<times> u8 list \<times> int)" where
  "sfs_block_op write = (if write then sfs_wblock else sfs_rblock)"

text \<open>
  \<^verbatim>\<open>sfs_io_nolock\<close>: the first block when the offset is inside it (the flag of the result is \<^verbatim>\<open>single\<close>), the whole
  blocks, the beginning of the last one. The buffer is \<open>buf\<close> from position \<open>base\<close>; the results are the return
  code and \<^verbatim>\<open>*alenp\<close>.
\<close>

definition sfs_io_part ::
  "bool \<Rightarrow> sfs_fs \<Rightarrow> sfs_inode \<Rightarrow> u8 list \<Rightarrow> nat \<Rightarrow> u32 \<Rightarrow> u32 \<Rightarrow> u32 \<Rightarrow> kpanic + (sfs_fs \<times> sfs_inode \<times> u8 list)" where
  "sfs_io_part write s sin buf bufptr len blkno off =
     bindE (sfs_bmap_load_nolock s sin blkno) (\<lambda>(s, sin, ret, i). bindE (assertE (ret = 0)) (\<lambda>_.
     bindE (sfs_buf_op write s buf bufptr len i off) (\<lambda>(s, buf, ret). bindE (assertE (ret = 0)) (\<lambda>_.
     Inr (s, sin, buf)))))"

definition sfs_io_blocks ::
  "bool \<Rightarrow> sfs_fs \<Rightarrow> sfs_inode \<Rightarrow> u8 list \<Rightarrow> nat \<Rightarrow> u32 \<Rightarrow> u32 \<Rightarrow> kpanic + (sfs_fs \<times> sfs_inode \<times> u8 list)" where
  "sfs_io_blocks write s sin buf bufptr blkno nblks =
     bindE (sfs_bmap_load_nolock s sin blkno) (\<lambda>(s, sin, ret, i). bindE (assertE (ret = 0)) (\<lambda>_.
     bindE (sfs_block_op write s buf bufptr i nblks) (\<lambda>(s, buf, ret). bindE (assertE (ret = 0)) (\<lambda>_.
     Inr (s, sin, buf)))))"

definition sfs_io_range ::
  "bool \<Rightarrow> sfs_fs \<Rightarrow> sfs_inode \<Rightarrow> u8 list \<Rightarrow> nat \<Rightarrow> u32 \<Rightarrow> u32 \<Rightarrow> kpanic + (sfs_fs \<times> sfs_inode \<times> u8 list \<times> int \<times> u32)" where
  "sfs_io_range write s sin buf base offset endpos =
     (let blkno = offset div SFS_BLKSIZE; nblks = endpos div SFS_BLKSIZE - blkno;
          blkoff = offset mod SFS_BLKSIZE; blkend = endpos mod SFS_BLKSIZE in
      bindE
        (if 0 < blkoff then
           (let blklen = (if 0 < nblks then SFS_BLKSIZE - blkoff else endpos - offset) in
            bindE (sfs_io_part write s sin buf base blklen blkno blkoff) (\<lambda>(s, sin, buf).
            if 0 < nblks then Inr (s, sin, buf, base + unat blklen, blkno + 1, nblks - 1, False)
            else Inr (s, sin, buf, base + unat blklen, blkno + 1, nblks, True)))
         else Inr (s, sin, buf, base, blkno, nblks, False)) (\<lambda>(s, sin, buf, bufptr, blkno, nblks, single).
      bindE
        (if 0 < nblks then
           bindE (sfs_io_blocks write s sin buf bufptr blkno nblks) (\<lambda>(s, sin, buf).
           Inr (s, sin, buf, bufptr + unat (nblks * SFS_BLKSIZE)))
         else Inr (s, sin, buf, bufptr)) (\<lambda>(s, sin, buf, bufptr).
      bindE
        (if \<not> single \<and> 0 < blkend then
           bindE (sfs_io_part write s sin buf bufptr blkend (endpos div SFS_BLKSIZE) 0) (\<lambda>(s, sin, buf).
           Inr (s, sin, buf, bufptr + unat blkend))
         else Inr (s, sin, buf, bufptr)) (\<lambda>(s, sin, buf, bufptr).
      let alen = of_nat (bufptr - base) in
      Inr (s, if dsize (din sin) < offset + alen
              then upd_din (\<lambda>d. d\<lparr>dsize := offset + alen\<rparr>) sin\<lparr>dirty := True\<rparr> else sin, buf, 0, alen)))))"

definition sfs_io_nolock ::
  "bool \<Rightarrow> sfs_fs \<Rightarrow> sfs_inode \<Rightarrow> u8 list \<Rightarrow> nat \<Rightarrow> u32 \<Rightarrow> u32 \<Rightarrow> kpanic + (sfs_fs \<times> sfs_inode \<times> u8 list \<times> int \<times> u32)" where
  "sfs_io_nolock write s sin buf base offset alen =
     bindE (assertE (dtype (din sin) \<noteq> SFS_TYPE_DIR)) (\<lambda>_.
     let endpos = offset + alen in
     if sint offset < 0 \<or> SFS_MAX_FILE_SIZE \<le> offset \<or> sint endpos < sint offset then Inr (s, sin, buf, - E_INVAL, 0)
     else if offset = endpos then Inr (s, sin, buf, 0, 0)
     else
       (let endpos = (if SFS_MAX_FILE_SIZE < endpos then SFS_MAX_FILE_SIZE else endpos) in
        if \<not> write \<and> dsize (din sin) \<le> offset then Inr (s, sin, buf, 0, 0)
        else
          (let endpos = (if \<not> write \<and> dsize (din sin) < endpos then dsize (din sin) else endpos) in
           sfs_io_range write s sin buf base offset endpos)))"

definition sfs_io :: "bool \<Rightarrow> sfs_fs \<Rightarrow> sfs_inode \<Rightarrow> iobuf \<Rightarrow> kpanic + (sfs_fs \<times> sfs_inode \<times> iobuf \<times> int)" where
  "sfs_io write s sin iob =
     bindE (sfs_io_nolock write s sin (io_mem iob) (io_base iob) (io_offset iob) (io_resid iob))
       (\<lambda>(s, sin, buf, ret, alen).
        let iob = iob\<lparr>io_mem := buf\<rparr> in
        bindE (if alen \<noteq> 0 then iobuf_skip iob alen else Inr iob) (\<lambda>iob. Inr (s, sin, iob, ret)))"

definition sfs_read :: "sfs_fs \<Rightarrow> sfs_inode \<Rightarrow> iobuf \<Rightarrow> kpanic + (sfs_fs \<times> sfs_inode \<times> iobuf \<times> int)" where
  "sfs_read = sfs_io False"

definition sfs_write :: "sfs_fs \<Rightarrow> sfs_inode \<Rightarrow> iobuf \<Rightarrow> kpanic + (sfs_fs \<times> sfs_inode \<times> iobuf \<times> int)" where
  "sfs_write = sfs_io True"

section \<open>Resizing and writing back a file\<close>

text \<open>The loops of \<^verbatim>\<open>sfs_truncfile\<close>, with the number of rounds left; they stop at the first error.\<close>

fun truncfile_grow :: "sfs_fs \<Rightarrow> sfs_inode \<Rightarrow> u32 \<Rightarrow> nat \<Rightarrow> kpanic + (sfs_fs \<times> sfs_inode \<times> int)" where
  "truncfile_grow s sin nblks 0 = Inr (s, sin, 0)"
| "truncfile_grow s sin nblks (Suc n) =
     bindE (sfs_bmap_load_nolock s sin nblks) (\<lambda>(s, sin, ret, _).
     if ret \<noteq> 0 then Inr (s, sin, ret) else truncfile_grow s sin (nblks + 1) n)"

fun truncfile_shrink :: "sfs_fs \<Rightarrow> sfs_inode \<Rightarrow> nat \<Rightarrow> kpanic + (sfs_fs \<times> sfs_inode \<times> int)" where
  "truncfile_shrink s sin 0 = Inr (s, sin, 0)"
| "truncfile_shrink s sin (Suc n) =
     bindE (sfs_bmap_truncate_nolock s sin) (\<lambda>(s, sin, ret).
     if ret \<noteq> 0 then Inr (s, sin, ret) else truncfile_shrink s sin n)"

definition sfs_truncfile :: "sfs_fs \<Rightarrow> sfs_inode \<Rightarrow> u32 \<Rightarrow> kpanic + (sfs_fs \<times> sfs_inode \<times> int)" where
  "sfs_truncfile s sin len =
     (if sint len < 0 \<or> SFS_MAX_FILE_SIZE < len then Inr (s, sin, - E_INVAL)
      else
        (let tblks = ROUNDUP_DIV len SFS_BLKSIZE; nblks = dblocks (din sin) in
         if dsize (din sin) = len then
           bindE (assertE (tblks = dblocks (din sin))) (\<lambda>_. Inr (s, sin, 0))
         else
           bindE
             (if nblks < tblks then truncfile_grow s sin nblks (unat (tblks - nblks))
              else if tblks < nblks then truncfile_shrink s sin (unat (nblks - tblks))
              else Inr (s, sin, 0)) (\<lambda>(s, sin, ret).
           if ret \<noteq> 0 then Inr (s, sin, ret)
           else
             bindE (assertE (dblocks (din sin) = tblks)) (\<lambda>_.
             Inr (s, upd_din (\<lambda>d. d\<lparr>dsize := len\<rparr>) sin\<lparr>dirty := True\<rparr>, 0)))))"

definition sfs_tryseek :: "sfs_fs \<Rightarrow> sfs_inode \<Rightarrow> u32 \<Rightarrow> kpanic + (sfs_fs \<times> sfs_inode \<times> int)" where
  "sfs_tryseek s sin pos =
     (if sint pos < 0 \<or> SFS_MAX_FILE_SIZE \<le> pos then Inr (s, sin, - E_INVAL)
      else if dsize (din sin) < pos then sfs_truncfile s sin pos
      else Inr (s, sin, 0))"

definition din_bytes :: "sfs_disk_inode \<Rightarrow> u8 list" where
  "din_bytes d = le32_bytes (dsize d) @ le16_bytes (dtype d) @ le16_bytes (nlinks d) @ le32_bytes (dblocks d) @
     concat (map le32_bytes (direct d)) @ le32_bytes (indirect d)"

definition read_din :: "u8 list \<Rightarrow> sfs_disk_inode" where
  "read_din b = \<lparr>dsize = le32 b, dtype = le16 (drop 4 b), nlinks = le16 (drop 6 b), dblocks = le32 (drop 8 b),
     direct = map (\<lambda>i. le32 (drop (12 + 4 * i) b)) [0..<unat SFS_NDIRECT], indirect = le32 (drop 60 b)\<rparr>"

definition sfs_fsync :: "sfs_fs \<Rightarrow> sfs_inode \<Rightarrow> kpanic + (sfs_fs \<times> sfs_inode \<times> int)" where
  "sfs_fsync s sin =
     (if dirty sin then
        bindE (sfs_wbuf s (din_bytes (din sin)) 0 64 (ino sin) 0) (\<lambda>(s, _, ret).
        Inr (s, sin\<lparr>dirty := (ret \<noteq> 0)\<rparr>, ret))
      else Inr (s, sin, 0))"

definition sfs_gettype :: "sfs_inode \<Rightarrow> kpanic + (int \<times> u32)" where
  "sfs_gettype sin =
     (if dtype (din sin) = SFS_TYPE_DIR then Inr (0, 0x2000)
      else if dtype (din sin) = SFS_TYPE_FILE then Inr (0, 0x1000)
      else if dtype (din sin) = SFS_TYPE_LINK then Inr (0, 0x3000)
      else Inl Panicked)"

section \<open>Directories\<close>

record sfs_disk_entry =
  entry_ino :: u32
  entry_name :: "u8 list"

text \<open>The entry as read from the first bytes of its block, with the last byte of the name field set to zero.\<close>

definition read_entry :: "u8 list \<Rightarrow> sfs_disk_entry" where
  "read_entry b = \<lparr>entry_ino = le32 b, entry_name = take SFS_MAX_FNAME_LEN (drop 4 b) @ [0]\<rparr>"

text \<open>The string in a character array.\<close>

definition string_of :: "u8 list \<Rightarrow> u8 list" where
  "string_of b = takeWhile (\<lambda>c. c \<noteq> 0) b"

abbreviation (input) no_entry :: sfs_disk_entry where "no_entry \<equiv> \<lparr>entry_ino = 0, entry_name = []\<rparr>"

definition sfs_dirent_read_nolock ::
  "sfs_fs \<Rightarrow> sfs_inode \<Rightarrow> u32 \<Rightarrow> kpanic + (sfs_fs \<times> sfs_inode \<times> int \<times> sfs_disk_entry)" where
  "sfs_dirent_read_nolock s sin slot =
     bindE (assertE (dtype (din sin) = SFS_TYPE_DIR \<and> 0 \<le> sint slot \<and> slot < dblocks (din sin))) (\<lambda>_.
     bindE (sfs_bmap_load_nolock s sin slot) (\<lambda>(s, sin, ret, i).
     if ret \<noteq> 0 then Inr (s, sin, ret, no_entry)
     else
       bindE (sfs_block_inuse s i) (\<lambda>b. bindE (assertE b) (\<lambda>_.
       bindE (sfs_rbuf s (replicate 260 0) 0 260 i 0) (\<lambda>(s, dat, ret).
       Inr (s, sin, ret, read_entry dat))))))"

text \<open>
  The loop of \<^verbatim>\<open>sfs_dirent_search_nolock\<close> over the slots from \<open>i\<close> on, \<open>n\<close> of them; the results are the return
  code, \<^verbatim>\<open>*ino_store\<close> with \<^verbatim>\<open>*slot\<close> when the name is found, and \<^verbatim>\<open>*empty_slot\<close>.
\<close>

fun dirent_search_loop ::
  "sfs_fs \<Rightarrow> sfs_inode \<Rightarrow> u8 list \<Rightarrow> u32 \<Rightarrow> nat \<Rightarrow> u32 \<Rightarrow> kpanic + (sfs_fs \<times> sfs_inode \<times> int \<times> (u32 \<times> u32) option \<times> u32)" where
  "dirent_search_loop s sin name i 0 eslot = Inr (s, sin, - E_NOENT, None, eslot)"
| "dirent_search_loop s sin name i (Suc n) eslot =
     bindE (sfs_dirent_read_nolock s sin i) (\<lambda>(s, sin, ret, entry).
     if ret \<noteq> 0 then Inr (s, sin, ret, None, eslot)
     else if entry_ino entry = 0 then dirent_search_loop s sin name (i + 1) n i
     else if name = string_of (entry_name entry) then Inr (s, sin, 0, Some (entry_ino entry, i), eslot)
     else dirent_search_loop s sin name (i + 1) n eslot)"

definition sfs_dirent_search_nolock ::
  "sfs_fs \<Rightarrow> sfs_inode \<Rightarrow> u8 list \<Rightarrow> bool \<Rightarrow> kpanic + (sfs_fs \<times> sfs_inode \<times> int \<times> (u32 \<times> u32) option \<times> u32)" where
  "sfs_dirent_search_nolock s sin name entry_ok =
     bindE (assertE (length name \<le> SFS_MAX_FNAME_LEN)) (\<lambda>_.
     if \<not> entry_ok then Inr (s, sin, - E_NO_MEM, None, 0)
     else
       (let nslots = dblocks (din sin) in
        dirent_search_loop s sin name 0 (if sint nslots < 0 then 0 else unat nslots) nslots))"

fun dirent_findino_loop ::
  "sfs_fs \<Rightarrow> sfs_inode \<Rightarrow> u32 \<Rightarrow> u32 \<Rightarrow> nat \<Rightarrow> kpanic + (sfs_fs \<times> sfs_inode \<times> int \<times> sfs_disk_entry)" where
  "dirent_findino_loop s sin x i 0 = Inr (s, sin, - E_NOENT, no_entry)"
| "dirent_findino_loop s sin x i (Suc n) =
     bindE (sfs_dirent_read_nolock s sin i) (\<lambda>(s, sin, ret, entry).
     if ret \<noteq> 0 then Inr (s, sin, ret, entry)
     else if entry_ino entry = x then Inr (s, sin, 0, entry)
     else dirent_findino_loop s sin x (i + 1) n)"

definition sfs_dirent_findino_nolock ::
  "sfs_fs \<Rightarrow> sfs_inode \<Rightarrow> u32 \<Rightarrow> kpanic + (sfs_fs \<times> sfs_inode \<times> int \<times> sfs_disk_entry)" where
  "sfs_dirent_findino_nolock s sin x =
     (let nslots = dblocks (din sin) in dirent_findino_loop s sin x 0 (if sint nslots < 0 then 0 else unat nslots))"

fun getdirentry_loop ::
  "sfs_fs \<Rightarrow> sfs_inode \<Rightarrow> nat \<Rightarrow> u32 \<Rightarrow> nat \<Rightarrow> kpanic + (sfs_fs \<times> sfs_inode \<times> int \<times> sfs_disk_entry)" where
  "getdirentry_loop s sin slot i 0 = Inr (s, sin, - E_NOENT, no_entry)"
| "getdirentry_loop s sin slot i (Suc n) =
     bindE (sfs_dirent_read_nolock s sin i) (\<lambda>(s, sin, ret, entry).
     if ret \<noteq> 0 then Inr (s, sin, ret, entry)
     else if entry_ino entry \<noteq> 0 then
       if slot = 0 then Inr (s, sin, 0, entry) else getdirentry_loop s sin (slot - 1) (i + 1) n
     else getdirentry_loop s sin slot (i + 1) n)"

definition sfs_getdirentry_sub_nolock ::
  "sfs_fs \<Rightarrow> sfs_inode \<Rightarrow> nat \<Rightarrow> kpanic + (sfs_fs \<times> sfs_inode \<times> int \<times> sfs_disk_entry)" where
  "sfs_getdirentry_sub_nolock s sin slot =
     (let nslots = dblocks (din sin) in getdirentry_loop s sin slot 0 (if sint nslots < 0 then 0 else unat nslots))"

abbreviation (input) sfs_dentry_size :: u32 where "sfs_dentry_size \<equiv> 256"

definition sfs_getdirentry :: "sfs_fs \<Rightarrow> sfs_inode \<Rightarrow> iobuf \<Rightarrow> bool \<Rightarrow> kpanic + (sfs_fs \<times> sfs_inode \<times> iobuf \<times> int)" where
  "sfs_getdirentry s sin iob entry_ok =
     (if \<not> entry_ok then Inr (s, sin, iob, - E_NO_MEM)
      else
        (let offset = io_offset iob in
         if sint offset < 0 \<or> offset mod sfs_dentry_size \<noteq> 0 then Inr (s, sin, iob, - E_INVAL)
         else if dblocks (din sin) < offset div sfs_dentry_size then Inr (s, sin, iob, - E_NOENT)
         else
           bindE (sfs_getdirentry_sub_nolock s sin (unat (offset div sfs_dentry_size))) (\<lambda>(s, sin, ret, entry).
           if ret \<noteq> 0 then Inr (s, sin, iob, ret)
           else
             bindE (iobuf_move iob (entry_name entry) sfs_dentry_size True)
               (\<lambda>(iob, _, ret, _). Inr (s, sin, iob, ret)))))"

section \<open>Opening and mounting\<close>

abbreviation (input) O_RDONLY :: u32 where "O_RDONLY \<equiv> 0"
abbreviation (input) O_WRONLY :: u32 where "O_WRONLY \<equiv> 1"
abbreviation (input) O_RDWR :: u32 where "O_RDWR \<equiv> 2"
abbreviation (input) O_CREAT :: u32 where "O_CREAT \<equiv> 4"
abbreviation (input) O_EXCL :: u32 where "O_EXCL \<equiv> 8"
abbreviation (input) O_TRUNC :: u32 where "O_TRUNC \<equiv> 16"
abbreviation (input) O_APPEND :: u32 where "O_APPEND \<equiv> 32"
abbreviation (input) O_ACCMODE :: u32 where "O_ACCMODE \<equiv> 3"

definition sfs_opendir :: "u32 \<Rightarrow> int" where
  "sfs_opendir open_flags =
     (if open_flags AND O_ACCMODE \<noteq> O_RDONLY then - E_ISDIR
      else if open_flags AND O_APPEND \<noteq> 0 then - E_ISDIR else 0)"

definition sfs_openfile :: "u32 \<Rightarrow> int" where
  "sfs_openfile open_flags = 0"

definition sfs_sync_super :: "sfs_fs \<Rightarrow> kpanic + (sfs_fs \<times> int)" where
  "sfs_sync_super s =
     bindE (sfs_rwblock_nolock s
        (put_bytes 0 (le32_bytes 0x2f8dbe2a @ le32_bytes (blocks s) @ le32_bytes (unused_blocks s) @ info s) zero_block)
        0 SFS_BLKN_SUPER True False) (\<lambda>(s, _, ret). Inr (s, ret))"

definition sfs_freemap_blocks :: "u32 \<Rightarrow> u32" where
  "sfs_freemap_blocks n = ROUNDUP_DIV n SFS_BLKBITS"

definition sfs_freemap_bits :: "u32 \<Rightarrow> u32" where
  "sfs_freemap_bits n = ROUNDUP n SFS_BLKBITS"

definition sfs_sync_freemap :: "sfs_fs \<Rightarrow> kpanic + (sfs_fs \<times> int)" where
  "sfs_sync_freemap s =
     bindE (sfs_wblock s (concat (map le32_bytes (fst (bitmap_getdata (freemap s))))) 0 SFS_BLKN_FREEMAP
        (sfs_freemap_blocks (blocks s))) (\<lambda>(s, _, ret). Inr (s, ret))"

definition sfs_init_read :: "image \<Rightarrow> u32 \<Rightarrow> u8 list \<Rightarrow> nat \<Rightarrow> kpanic + (u8 list \<times> int)" where
  "sfs_init_read img blkno blk_buffer base =
     bindE (disk0_io img (iobuf_init blk_buffer base SFS_BLKSIZE (blkno * SFS_BLKSIZE)) False)
       (\<lambda>(_, iob, ret). Inr (io_mem iob, ret))"

fun init_freemap_loop :: "image \<Rightarrow> u8 list \<Rightarrow> nat \<Rightarrow> u32 \<Rightarrow> nat \<Rightarrow> kpanic + (u8 list \<times> int)" where
  "init_freemap_loop img dat base blkno 0 = Inr (dat, 0)"
| "init_freemap_loop img dat base blkno (Suc nblks) =
     bindE (sfs_init_read img blkno dat base) (\<lambda>(dat, ret).
     if ret \<noteq> 0 then Inr (dat, ret)
     else init_freemap_loop img dat (base + unat SFS_BLKSIZE) (blkno + 1) nblks)"

definition words_of :: "u8 list \<Rightarrow> nat \<Rightarrow> u32 list" where
  "words_of dat n = map (\<lambda>i. le32 (drop (4 * i) dat)) [0..<n]"

definition sfs_init_freemap :: "image \<Rightarrow> bitmap \<Rightarrow> u32 \<Rightarrow> u32 \<Rightarrow> kpanic + (bitmap \<times> int)" where
  "sfs_init_freemap img fm blkno nblks =
     (let (dat, len) = bitmap_getdata fm in
      bindE (assertE (len = nblks * SFS_BLKSIZE)) (\<lambda>_.
      bindE (init_freemap_loop img (concat (map le32_bytes dat)) 0 blkno (unat nblks)) (\<lambda>(dat, ret).
      Inr (fm\<lparr>bmap := words_of dat (unat (nwords fm))\<rparr>, ret))))"

fun count_unused :: "bitmap \<Rightarrow> u32 \<Rightarrow> nat \<Rightarrow> kpanic + u32" where
  "count_unused fm i 0 = Inr 0"
| "count_unused fm i (Suc n) =
     bindE (bitmap_test fm i) (\<lambda>b. bindE (count_unused fm (i + 1) n) (\<lambda>c. Inr (if b then c + 1 else c)))"

text \<open>
  \<^verbatim>\<open>sfs_do_mount\<close> on \<^verbatim>\<open>disk0\<close>, whose block size is that of the file system. The flags are the outcomes of the
  calls of \<^verbatim>\<open>kmalloc\<close> for the file system, its buffer, the hash table and the two parts of the bitmap.
\<close>

record mount_mem =
  fs_ok :: bool
  buffer_ok :: bool
  hash_ok :: bool
  bitmap_ok :: bool
  words_ok :: bool

definition sfs_do_mount :: "image \<Rightarrow> mount_mem \<Rightarrow> kpanic + (int \<times> sfs_fs option)" where
  "sfs_do_mount img m =
     (if \<not> fs_ok m \<or> \<not> buffer_ok m then Inr (- E_NO_MEM, None)
      else
        bindE (sfs_init_read img SFS_BLKN_SUPER zero_block 0) (\<lambda>(sb, ret).
        if ret \<noteq> 0 then Inr (ret, None)
        else if le32 sb \<noteq> 0x2f8dbe2a then Inr (- E_INVAL, None)
        else if d_blocks_disk0 < le32 (drop 4 sb) then Inr (- E_INVAL, None)
        else if \<not> hash_ok m then Inr (- E_NO_MEM, None)
        else
          (let n = le32 (drop 4 sb); freemap_size_nbits = sfs_freemap_bits n in
           bindE (bitmap_create freemap_size_nbits (bitmap_ok m) (words_ok m)) (\<lambda>r.
           case r of
             None \<Rightarrow> Inr (- E_NO_MEM, None)
           | Some fm \<Rightarrow>
               bindE (sfs_init_freemap img fm SFS_BLKN_FREEMAP (sfs_freemap_blocks n)) (\<lambda>(fm, ret).
               if ret \<noteq> 0 then Inr (ret, None)
               else
                 bindE (count_unused fm 0 (unat freemap_size_nbits)) (\<lambda>unused.
                 bindE (assertE (unused = le32 (drop 8 sb))) (\<lambda>_.
                 Inr (0, Some \<lparr>blocks = n, unused_blocks = le32 (drop 8 sb),
                   info = take 31 (drop 12 sb) @ [0], super_dirty = False, freemap = fm,
                   disk = img, inode_list = [], hash_list = (\<lambda>_. [])\<rparr>))))))))"

definition sfs_unmount :: "sfs_fs \<Rightarrow> kpanic + int" where
  "sfs_unmount s =
     (if inode_list s \<noteq> [] then Inr (- E_BUSY)
      else bindE (assertE (\<not> super_dirty s)) (\<lambda>_. Inr 0))"

end
