(* ===== verification/Sfs_Props.thy ===== *)
theory Sfs_Props
  imports Sfs
begin

text \<open>
  Block-level I/O and allocation of the simple file system: what a transfer of one block or of a part of one returns, the invariant
  of the mounted volume, and that allocating and freeing a block keeps it. The free blocks are those of the
  bitmap, through the contract of the theory of bitmaps.
\<close>

section \<open>Block-level I/O\<close>

definition blk :: "sfs_fs \<Rightarrow> u32 \<Rightarrow> u8 list" where
  "blk s b = map (\<lambda>i. disk s (b * 4096 + of_nat i)) [0..<4096]"

lemma length_blk [simp]: "length (blk s b) = 4096"
  by (simp add: blk_def)

lemma nth_blk: "i < 4096 \<Longrightarrow> blk s b ! i = disk s (b * 4096 + of_nat i)"
  by (simp add: blk_def)

lemma length_put_bytes [simp]: "p + length xs \<le> length b \<Longrightarrow> length (put_bytes p xs b) = length b"
  by (simp add: put_bytes_def)

lemma put_bytes_Nil [simp]: "put_bytes p [] b = b"
  by (simp add: put_bytes_def)

lemma put_bytes_all: "length xs = length b \<Longrightarrow> put_bytes 0 xs b = xs"
  by (simp add: put_bytes_def)

lemma put_bytes_put_bytes:
  "p + length xs \<le> length b \<Longrightarrow> put_bytes (p + length xs) ys (put_bytes p xs b) = put_bytes p (xs @ ys) b"
  by (simp add: put_bytes_def ac_simps)

lemma unat_block_start: "(b::u32) \<le> 1024 \<Longrightarrow> unat (b * 4096) = unat b * 4096"
  by (simp add: unat_word_ariths word_le_nat_alt)

lemma block_start:
  assumes "(b::u32) \<le> 1024"
  shows "(b * 4096) mod 4096 = 0" "word_of_int (sint (b * 4096) sdiv 4096) = b"
proof -
  have u: "unat (b * 4096) = unat b * 4096" by (rule unat_block_start [OF assms])
  show "(b * 4096) mod 4096 = 0" by (simp add: word_unat_eq_iff unat_mod u)
  define n where "n = unat b"
  have n: "n \<le> 1024" using assms by (simp add: n_def word_le_nat_alt)
  have "sint (b * 4096) = int (unat (b * 4096))" using u n by (intro sint_small) (simp add: n_def)
  also have "\<dots> = int (n * 4096)" by (simp only: u n_def)
  finally have "sint (b * 4096) sdiv 4096 = int n"
    by (cases "n = 0") (auto simp: signed_divide_int_def)
  then show "word_of_int (sint (b * 4096) sdiv 4096) = b" by (simp add: n_def)
qed

lemma disk0_io_block:
  assumes b: "b < 1024" and len: "base + 4096 \<le> length buf"
  shows "disk0_io img (iobuf_init buf base 4096 (b * 4096)) False =
      Inr (img, \<lparr>io_mem = put_bytes base (map (\<lambda>i. img (b * 4096 + of_nat i)) [0..<4096]) buf, io_base = base + 4096,
        io_offset = b * 4096 + 4096, io_len = 4096, io_resid = 0\<rparr>, 0)"
    and "\<exists>iob. disk0_io img (iobuf_init buf base 4096 (b * 4096)) True = Inr (img, iob, 0) \<and> io_mem iob = buf"
proof -
  have b': "b \<le> 1024" using b by simp
  have "unat b < 1024" using b by (simp add: word_less_nat_alt)
  then have lim: "\<not> 1024 < b + 1" by (simp add: word_less_nat_alt unat_word_ariths)
  show "disk0_io img (iobuf_init buf base 4096 (b * 4096)) False =
      Inr (img, \<lparr>io_mem = put_bytes base (map (\<lambda>i. img (b * 4096 + of_nat i)) [0..<4096]) buf, io_base = base + 4096,
        io_offset = b * 4096 + 4096, io_len = 4096, io_resid = 0\<rparr>, 0)"
    using lim by (simp add: disk0_io_def iobuf_init_def Let_def block_start [OF b'] d_blocks_disk0_def
      iobuf_move_def iobuf_skip_def disk0_read_blks_nolock_def)
  show "\<exists>iob. disk0_io img (iobuf_init buf base 4096 (b * 4096)) True = Inr (img, iob, 0) \<and> io_mem iob = buf"
    using lim by (simp add: disk0_io_def iobuf_init_def Let_def block_start [OF b'] d_blocks_disk0_def
      iobuf_move_def iobuf_skip_def disk0_write_blks_nolock_def)
qed

lemma rwblock_read:
  assumes "blkno < blocks s" "blocks s \<le> 1024" "blkno \<noteq> 0 \<or> \<not> check" "base + 4096 \<le> length buf"
  shows "sfs_rwblock_nolock s buf base blkno False check = Inr (s, put_bytes base (blk s blkno) buf, 0)"
  using assms disk0_io_block(1) [of blkno base buf "disk s"] by (simp add: sfs_rwblock_nolock_def blk_def)

lemma rwblock_write:
  assumes "blkno < blocks s" "blocks s \<le> 1024" "blkno \<noteq> 0 \<or> \<not> check" "base + 4096 \<le> length buf"
  shows "sfs_rwblock_nolock s buf base blkno True check = Inr (s, buf, 0)"
proof -
  obtain iob where "disk0_io (disk s) (iobuf_init buf base 4096 (blkno * 4096)) True = Inr (disk s, iob, 0)" "io_mem iob = buf"
    using disk0_io_block(2) [of blkno base buf "disk s"] assms(1,2,4) by (auto dest: order.strict_trans2)
  with assms show ?thesis by (simp add: sfs_rwblock_nolock_def)
qed

text \<open>The precondition of a transfer of \<open>len\<close> bytes inside one block.\<close>

definition in_block :: "u32 \<Rightarrow> u32 \<Rightarrow> bool" where
  "in_block off len \<longleftrightarrow> unat off < 4096 \<and> unat off + unat len \<le> 4096"

lemma in_block_assert:
  assumes "in_block off len"
  shows "0 \<le> sint off \<and> sint off < 4096 \<and> off + len \<le> 4096"
proof -
  have o: "unat off < 4096" "unat off + unat len \<le> 4096" using assms by (auto simp: in_block_def)
  then have "sint off = int (unat off)" by (intro sint_small) simp
  moreover have "int (unat off) < int 4096" using o(1) by (simp only: of_nat_less_iff)
  moreover have "unat (off + len) = unat off + unat len" using o by (simp add: unat_word_ariths)
  ultimately show ?thesis using o by (simp add: word_le_nat_alt del: uint_nat)
qed

lemma sfs_rbuf_spec:
  assumes "blkno < blocks s" "blocks s \<le> 1024" "blkno \<noteq> 0" "in_block off len"
  shows "sfs_rbuf s buf base len blkno off = Inr (s, put_bytes base (take (unat len) (drop (unat off) (blk s blkno))) buf, 0)"
  using assms in_block_assert [OF assms(4)] by (simp add: sfs_rbuf_def rwblock_read put_bytes_all)

lemma sfs_wbuf_spec:
  assumes "blkno < blocks s" "blocks s \<le> 1024" "blkno \<noteq> 0" "in_block off len" "base + unat len \<le> length buf"
  shows "sfs_wbuf s buf base len blkno off = Inr (s, buf, 0)"
proof -
  have "unat off + unat len \<le> 4096" using assms(4) by (simp add: in_block_def)
  then have "length (put_bytes (unat off) (take (unat len) (drop base buf)) (blk s blkno)) = 4096"
    using assms(5) by (subst length_put_bytes) auto
  then show ?thesis using assms in_block_assert [OF assms(4)]
    by (simp add: sfs_wbuf_def rwblock_read rwblock_write put_bytes_all)
qed

section \<open>Allocation\<close>

abbreviation free_blocks :: "sfs_fs \<Rightarrow> nat set" where
  "free_blocks s \<equiv> bm_free (freemap s)"

text \<open>
  The invariant of the mounted file system: it fits the device, its free blocks are a set of block numbers
  above the superblock, and the superblock counts them.
\<close>

definition sfs_wf :: "sfs_fs \<Rightarrow> bool" where
  "sfs_wf s \<longleftrightarrow> bitmap_wf (freemap s) \<and> blocks s \<le> 1024 \<and> blocks s \<le> nbits (freemap s) \<and>
     free_blocks s \<subseteq> {1..<unat (blocks s)} \<and> unat (unused_blocks s) = card (free_blocks s)"

text \<open>What no operation on blocks changes.\<close>

definition same_volume :: "sfs_fs \<Rightarrow> sfs_fs \<Rightarrow> bool" where
  "same_volume s s' \<longleftrightarrow> blocks s' = blocks s \<and> info s' = info s \<and> disk s' = disk s \<and> inode_list s' = inode_list s \<and>
     hash_list s' = hash_list s"

lemma same_volume_refl [simp]: "same_volume s s"
  by (simp add: same_volume_def)

lemma same_volume_trans: "same_volume s s' \<Longrightarrow> same_volume s' s'' \<Longrightarrow> same_volume s s''"
  by (simp add: same_volume_def)

lemma same_volume_blk: "same_volume s s' \<Longrightarrow> blk s' = blk s"
  by (simp add: same_volume_def blk_def fun_eq_iff)

definition block_used :: "sfs_fs \<Rightarrow> u32 \<Rightarrow> bool" where
  "block_used s i \<longleftrightarrow> i \<noteq> 0 \<and> i < blocks s \<and> unat i \<notin> free_blocks s"

lemma sfs_block_inuse_spec:
  assumes "sfs_wf s"
  shows "sfs_block_inuse s i = (if i \<noteq> 0 \<and> i < blocks s then Inr (unat i \<notin> free_blocks s) else Inl Panicked)"
  using assms by (auto simp: sfs_block_inuse_def sfs_wf_def bitmap_test_spec)

lemma sfs_block_inuse_used [simp]: "sfs_wf s \<Longrightarrow> block_used s i \<Longrightarrow> sfs_block_inuse s i = Inr True"
  by (simp add: sfs_block_inuse_spec block_used_def)

lemma finite_free_blocks [simp]: "finite (bm_free b)"
  by (rule finite_subset [of _ "{..<unat (nbits b)}"]) (auto simp: bm_free_def)

lemma sfs_block_alloc_full:
  assumes "sfs_wf s" "free_blocks s = {}"
  shows "sfs_block_alloc s = Inr (s, - E_NO_MEM, 0)"
  using bitmap_alloc_spec [of "freemap s"] assms by (simp add: sfs_block_alloc_def sfs_wf_def)

lemma sfs_block_alloc_ok:
  assumes wf: "sfs_wf s" and ne: "free_blocks s \<noteq> {}"
  obtains s' i where "sfs_block_alloc s = Inr (s', 0, i)" "sfs_wf s'" "same_volume s s'" "unat i = Min (free_blocks s)"
    "free_blocks s' = free_blocks s - {unat i}" "block_used s' i" "unat i \<in> free_blocks s" "super_dirty s'"
proof -
  obtain fm i where a: "bitmap_alloc (freemap s) = Inr (fm, 0, Some i)" "bitmap_wf fm" "unat i = Min (free_blocks s)"
    "nbits fm = nbits (freemap s)" "bm_free fm = free_blocks s - {unat i}"
    using bitmap_alloc_spec [of "freemap s"] assms by (auto simp: sfs_wf_def)
  have mem: "unat i \<in> free_blocks s" using a(3) ne by simp
  then have i: "i \<noteq> 0" "i < blocks s" using wf by (auto simp: sfs_wf_def word_less_nat_alt)
  have card: "card (free_blocks s) = unat (unused_blocks s)" "0 < card (free_blocks s)"
    using wf ne by (auto simp: sfs_wf_def card_gt_0_iff)
  then have u: "0 < unused_blocks s" by (simp add: word_less_nat_alt)
  let ?s = "s\<lparr>freemap := fm, unused_blocks := unused_blocks s - 1, super_dirty := True\<rparr>"
  have "unat (unused_blocks s - 1) = unat (unused_blocks s) - 1"
    using u by (subst unat_sub) (auto simp: word_le_nat_alt word_less_nat_alt)
  then have wf': "sfs_wf ?s" using wf a mem card by (auto simp: sfs_wf_def)
  have used: "block_used ?s i" using i a by (simp add: block_used_def)
  have "sfs_clear_block ?s i 1 = Inr (?s, 0)"
    using rwblock_write [of i ?s True 0 zero_block] i wf by (simp add: sfs_wf_def)
  then have "sfs_block_alloc s = Inr (?s, 0, i)"
    using a(1) u wf' used by (simp add: sfs_block_alloc_def Let_def)
  then show ?thesis using that [of ?s i] wf' used a mem by (simp add: same_volume_def)
qed

lemma sfs_block_free_ok:
  assumes wf: "sfs_wf s" and used: "block_used s i"
  obtains s' where "sfs_block_free s i = Inr s'" "sfs_wf s'" "same_volume s s'" "super_dirty s'"
    "free_blocks s' = insert (unat i) (free_blocks s)"
proof -
  have i: "i \<noteq> 0" "i < blocks s" "unat i \<notin> free_blocks s" using used by (auto simp: block_used_def)
  have "i < nbits (freemap s)" using i wf by (auto simp: sfs_wf_def)
  then obtain fm where f: "bitmap_free (freemap s) i = Inr fm" "bitmap_wf fm" "nbits fm = nbits (freemap s)"
    "bm_free fm = insert (unat i) (free_blocks s)"
    using bitmap_alloc.free_ok [of "freemap s" i] wf i by (auto simp: sfs_wf_def)
  let ?s = "s\<lparr>freemap := fm, unused_blocks := unused_blocks s + 1, super_dirty := True\<rparr>"
  have sub: "free_blocks ?s \<subseteq> {1..<unat (blocks s)}"
    using f i wf by (auto simp: sfs_wf_def word_less_nat_alt unat_gt_0 Suc_le_eq)
  then have "card (free_blocks ?s) < 1024"
    using card_mono [OF _ sub] wf by (auto simp: sfs_wf_def word_le_nat_alt)
  then have "unat (unused_blocks s + 1) = card (free_blocks ?s)"
    using f i wf by (simp add: sfs_wf_def unat_word_ariths)
  then have "sfs_wf ?s" using wf f sub by (simp add: sfs_wf_def)
  moreover have "sfs_block_free s i = Inr ?s" using wf used f by (simp add: sfs_block_free_def)
  ultimately show ?thesis using that [of ?s] f by (simp add: same_volume_def)
qed

end
