(* ===== verification/Sfs_File.thy ===== *)
theory Sfs_File
  imports Sfs_Props
begin

text \<open>
  A file as its blocks and its bytes: the abstract content of a file, the invariant of an inode, and the proof that
  \<^verbatim>\<open>sfs_io_nolock\<close> reads exactly that content, through the three stages of the code.
\<close>

section \<open>The blocks and the bytes of a file\<close>

definition fblock :: "sfs_fs \<Rightarrow> sfs_disk_inode \<Rightarrow> nat \<Rightarrow> u32" where
  "fblock s d k = (if k < 12 then direct d ! k else le32 (take 4 (drop (4 * (k - 12)) (blk s (indirect d)))))"

definition content :: "sfs_fs \<Rightarrow> sfs_disk_inode \<Rightarrow> nat \<Rightarrow> u8" where
  "content s d p = blk s (fblock s d (p div 4096)) ! (p mod 4096)"

abbreviation nblocks :: "sfs_disk_inode \<Rightarrow> nat" where
  "nblocks d \<equiv> unat (dblocks d)"

definition file_wf :: "sfs_fs \<Rightarrow> sfs_disk_inode \<Rightarrow> bool" where
  "file_wf s d \<longleftrightarrow> length (direct d) = 12 \<and> nblocks d \<le> 12 + 1024 \<and> (\<forall>k < nblocks d. block_used s (fblock s d k)) \<and>
     inj_on (fblock s d) {..<nblocks d} \<and> (12 < nblocks d \<longrightarrow> block_used s (indirect d) \<and> indirect d \<notin> fblock s d ` {..<nblocks d})"

lemma file_wf_used: "file_wf s d \<Longrightarrow> k < nblocks d \<Longrightarrow> block_used s (fblock s d k)"
  by (simp add: file_wf_def)

lemma block_usedD: "block_used s i \<Longrightarrow> i \<noteq> 0" "block_used s i \<Longrightarrow> i < blocks s"
  by (auto simp: block_used_def)

lemma sfs_wf_blocks: "sfs_wf s \<Longrightarrow> blocks s \<le> 1024"
  by (simp add: sfs_wf_def)

lemma unat_minus_12: "(12::u32) \<le> i \<Longrightarrow> unat (i - 12) = unat i - 12"
  by (subst unat_sub) (auto simp: word_le_nat_alt)

lemma bmap_get_sub_read:
  assumes "sfs_wf s" "block_used s ent" "index < 1024"
    and "le32 (take 4 (drop (4 * unat index) (blk s ent))) \<noteq> 0"
  shows "sfs_bmap_get_sub_nolock s ent index create =
    Inr (s, 0, ent, le32 (take 4 (drop (4 * unat index) (blk s ent))))"
proof -
  have i: "unat index < 1024" using assms(3) by (simp add: word_less_nat_alt)
  then have u: "unat (index * 4) = 4 * unat index" by (simp add: unat_word_ariths)
  have "in_block (index * 4) 4" using i by (simp add: in_block_def u)
  then have "sfs_rbuf s [0, 0, 0, 0] 0 4 ent (index * 4) = Inr (s, take 4 (drop (4 * unat index) (blk s ent)), 0)"
    using i assms by (subst sfs_rbuf_spec) (auto simp: sfs_wf_blocks u put_bytes_all dest: block_usedD)
  then show ?thesis using assms by (simp add: sfs_bmap_get_sub_nolock_def Let_def block_usedD)
qed

lemma bmap_get_spec:
  assumes wf: "sfs_wf s" "file_wf s (din sin)" and i: "unat index < nblocks (din sin)"
  shows "sfs_bmap_get_nolock s sin index create = Inr (s, sin, 0, fblock s (din sin) (unat index))"
proof -
  have used: "block_used s (fblock s (din sin) (unat index))" using wf(2) i by (rule file_wf_used)
  then have nz: "fblock s (din sin) (unat index) \<noteq> 0" by (rule block_usedD)
  show ?thesis
  proof (cases "index < 12")
    case True
    then have "fblock s (din sin) (unat index) = direct (din sin) ! unat index"
      by (simp add: fblock_def word_less_nat_alt)
    with True used nz wf show ?thesis by (simp add: sfs_bmap_get_nolock_def Let_def)
  next
    case False
    then have ge: "12 \<le> unat index" by (simp add: word_less_nat_alt)
    have u: "unat (index - 12) = unat index - 12" using False by (intro unat_minus_12) simp
    have b: "block_used s (indirect (din sin))" "index - 12 < 1024"
      using wf(2) i ge by (auto simp: file_wf_def word_less_nat_alt u)
    have f: "fblock s (din sin) (unat index) = le32 (take 4 (drop (4 * unat (index - 12)) (blk s (indirect (din sin)))))"
      using ge by (simp add: fblock_def u)
    show ?thesis using False bmap_get_sub_read [OF wf(1) b] nz used wf b(2)
      by (simp add: sfs_bmap_get_nolock_def f)
  qed
qed

lemma bmap_load_spec:
  assumes "sfs_wf s" "file_wf s (din sin)" "unat index < nblocks (din sin)"
  shows "sfs_bmap_load_nolock s sin index = Inr (s, sin, 0, fblock s (din sin) (unat index))"
proof -
  have "index \<le> dblocks (din sin)" "index \<noteq> dblocks (din sin)"
    using assms(3) by (auto simp: word_le_nat_alt)
  then show ?thesis
    using assms file_wf_used [OF assms(2,3)] by (simp add: sfs_bmap_load_nolock_def bmap_get_spec Let_def)
qed

section \<open>Reading\<close>

definition file_bytes :: "sfs_fs \<Rightarrow> sfs_disk_inode \<Rightarrow> nat \<Rightarrow> nat \<Rightarrow> u8 list" where
  "file_bytes s d a b = map (content s d) [a..<b]"

lemma length_file_bytes [simp]: "length (file_bytes s d a b) = b - a"
  by (simp add: file_bytes_def)

lemma file_bytes_self [simp]: "file_bytes s d a a = []"
  by (simp add: file_bytes_def)

lemma file_bytes_append: "a \<le> b \<Longrightarrow> b \<le> c \<Longrightarrow> file_bytes s d a b @ file_bytes s d b c = file_bytes s d a c"
  using upt_add_eq_append [of a b "c - b"] by (simp add: file_bytes_def flip: map_append)

lemma file_bytes_in_block:
  "off + len \<le> 4096 \<Longrightarrow>
    take len (drop off (blk s (fblock s d k))) = file_bytes s d (k * 4096 + off) (k * 4096 + off + len)"
proof (rule nth_equalityI)
  fix i
  assume l: "off + len \<le> 4096" and "i < length (take len (drop off (blk s (fblock s d k))))"
  then have i: "i < len" "off + i < 4096" by auto
  then have "(k * 4096 + (off + i)) div 4096 = k" "(k * 4096 + (off + i)) mod 4096 = off + i" by simp_all
  with i l show "take len (drop off (blk s (fblock s d k))) ! i = file_bytes s d (k * 4096 + off) (k * 4096 + off + len) ! i"
    by (simp add: file_bytes_def content_def add.assoc)
qed simp

lemma rblock_loop:
  assumes "blocks s \<le> 1024"
  shows "(\<forall>j < n. b + of_nat j \<noteq> 0 \<and> b + of_nat j < blocks s) \<Longrightarrow> base + n * 4096 \<le> length buf \<Longrightarrow>
    sfs_rwblock_loop s buf base b n False = Inr (s, put_bytes base (concat (map (\<lambda>j. blk s (b + of_nat j)) [0..<n])) buf, 0)"
proof (induction n arbitrary: base b buf)
  case 0
  then show ?case by simp
next
  case (Suc n)
  have b: "b \<noteq> 0" "b < blocks s" using Suc.prems(1) by (auto dest: spec [of _ 0])
  let ?buf = "put_bytes base (blk s b) buf"
  have "(b + 1) + of_nat j \<noteq> 0 \<and> (b + 1) + of_nat j < blocks s" if "j < n" for j
    using Suc.prems(1) [rule_format, of "Suc j"] that by (simp add: add.assoc)
  then have "sfs_rwblock_loop s ?buf (base + 4096) (b + 1) n False =
      Inr (s, put_bytes (base + 4096) (concat (map (\<lambda>j. blk s ((b + 1) + of_nat j)) [0..<n])) ?buf, 0)"
    using Suc.prems(2) by (intro Suc.IH) auto
  moreover have "concat (map (\<lambda>j. blk s (b + of_nat j)) [0..<Suc n]) =
      blk s b @ concat (map (\<lambda>j. blk s ((b + 1) + of_nat j)) [0..<n])"
    by (subst upt_conv_Cons, simp) (simp add: map_Suc_upt [symmetric] add.assoc comp_def del: upt_Suc)
  moreover have "put_bytes (base + 4096) xs ?buf = put_bytes base (blk s b @ xs) buf" for xs
    using put_bytes_put_bytes [of base "blk s b" buf xs] Suc.prems(2) by simp
  ultimately show ?case using b assms Suc.prems(2) by (simp add: rwblock_read del: upt_Suc)
qed

lemma concat_blocks:
  "(\<forall>j < n. fblock s d (k + j) = b + of_nat j) \<Longrightarrow>
    concat (map (\<lambda>j. blk s (b + of_nat j)) [0..<n]) = file_bytes s d (k * 4096) ((k + n) * 4096)"
proof (induction n)
  case 0
  then show ?case by (simp add: file_bytes_def)
next
  case (Suc n)
  have "blk s (b + of_nat n) = file_bytes s d ((k + n) * 4096) ((k + Suc n) * 4096)"
    using file_bytes_in_block [of 0 4096 s d "k + n"] Suc.prems by (simp add: algebra_simps)
  with Suc show ?case
    using file_bytes_append [of "k * 4096" "(k + n) * 4096" "(k + Suc n) * 4096" s d] by simp
qed

lemma io_part_read:
  assumes "sfs_wf s" "file_wf s (din sin)" "unat blkno < nblocks (din sin)" "in_block off len"
  shows "sfs_io_part False s sin buf p len blkno off =
    Inr (s, sin, put_bytes p (file_bytes s (din sin) (unat blkno * 4096 + unat off) (unat blkno * 4096 + unat off + unat len)) buf)"
proof -
  note u = file_wf_used [OF assms(2,3)]
  have "sfs_rbuf s buf p len (fblock s (din sin) (unat blkno)) off =
      Inr (s, put_bytes p (file_bytes s (din sin) (unat blkno * 4096 + unat off) (unat blkno * 4096 + unat off + unat len)) buf, 0)"
    using assms by (subst sfs_rbuf_spec) (auto simp: sfs_wf_blocks block_usedD [OF u] file_bytes_in_block in_block_def)
  then show ?thesis using assms by (simp add: sfs_io_part_def bmap_load_spec sfs_buf_op_def)
qed

lemma io_blocks_read:
  assumes "sfs_wf s" "file_wf s (din sin)" "0 < unat nblks" "unat blkno + unat nblks \<le> nblocks (din sin)"
    and "p + unat nblks * 4096 \<le> length buf"
    and cont: "\<forall>j < unat nblks. fblock s (din sin) (unat blkno + j) = fblock s (din sin) (unat blkno) + of_nat j"
  shows "sfs_io_blocks False s sin buf p blkno nblks =
    Inr (s, sin, put_bytes p (file_bytes s (din sin) (unat blkno * 4096) ((unat blkno + unat nblks) * 4096)) buf)"
proof -
  let ?b = "fblock s (din sin) (unat blkno)"
  have "\<forall>j < unat nblks. ?b + of_nat j \<noteq> 0 \<and> ?b + of_nat j < blocks s"
  proof (intro allI impI)
    fix j
    assume j: "j < unat nblks"
    with assms(4) have "unat blkno + j < nblocks (din sin)" by linarith
    from file_wf_used [OF assms(2) this] cont j show "?b + of_nat j \<noteq> 0 \<and> ?b + of_nat j < blocks s"
      by (auto dest: block_usedD)
  qed
  then have "sfs_rwblock_loop s buf p ?b (unat nblks) False =
      Inr (s, put_bytes p (concat (map (\<lambda>j. blk s (?b + of_nat j)) [0..<unat nblks])) buf, 0)"
    using assms by (intro rblock_loop) (auto simp: sfs_wf_blocks)
  with cont have "sfs_rblock s buf p ?b nblks =
      Inr (s, put_bytes p (file_bytes s (din sin) (unat blkno * 4096) ((unat blkno + unat nblks) * 4096)) buf, 0)"
    by (simp add: concat_blocks sfs_rblock_def sfs_rwblock_def)
  then show ?thesis using assms by (simp add: sfs_io_blocks_def bmap_load_spec sfs_block_op_def)
qed

text \<open>The whole blocks inside a range of bytes lie one after the other on the disk.\<close>

definition contiguous :: "sfs_fs \<Rightarrow> sfs_disk_inode \<Rightarrow> nat \<Rightarrow> nat \<Rightarrow> bool" where
  "contiguous s d a b \<longleftrightarrow>
     (let k = (a + 4095) div 4096 in \<forall>j. k + j < b div 4096 \<longrightarrow> fblock s d (k + j) = fblock s d k + of_nat j)"

lemma contiguous_short: "b \<le> a + 4096 \<Longrightarrow> contiguous s d a b"
proof -
  assume "b \<le> a + 4096"
  then have "b div 4096 \<le> (a + 4096) div 4096" by (rule div_le_mono)
  moreover have "a div 4096 \<le> (a + 4095) div 4096" by (rule div_le_mono) simp
  ultimately have "b div 4096 \<le> Suc ((a + 4095) div 4096)" by simp
  then have "j = 0" if "(a + 4095) div 4096 + j < b div 4096" for j using that by simp
  then show ?thesis by (force simp: contiguous_def Let_def)
qed

text \<open>The middle and the end of a transfer that has reached the beginning of block \<open>k\<close>.\<close>

lemma io_blocks_stage:
  assumes wf: "sfs_wf s" "file_wf s (din sin)" and n: "unat blkno + unat nblks = e div 4096" "e \<le> nblocks (din sin) * 4096"
    and len: "p + unat nblks * 4096 \<le> length buf" and max: "e < 2 ^ 31"
    and cont: "\<forall>j. unat blkno + j < e div 4096 \<longrightarrow> fblock s (din sin) (unat blkno + j) = fblock s (din sin) (unat blkno) + of_nat j"
  shows "(if 0 < nblks then
       bindE (sfs_io_blocks False s sin buf p blkno nblks) (\<lambda>(s, sin, buf).
       Inr (s, sin, buf, p + unat (nblks * 4096)))
     else Inr (s, sin, buf, p)) =
    Inr (s, sin, put_bytes p (file_bytes s (din sin) (unat blkno * 4096) (e div 4096 * 4096)) buf, p + unat nblks * 4096)"
proof (cases "nblks = 0")
  case True
  with n(1) show ?thesis by (simp add: file_bytes_def)
next
  case False
  then have pos: "0 < nblks" "0 < unat nblks" by (simp_all add: word_gt_0 unat_gt_0)
  have "unat nblks \<le> e div 4096" using n(1) by simp
  then have u: "unat (nblks * 4096) = unat nblks * 4096" using max by (simp add: unat_word_ariths)
  have "e div 4096 \<le> nblocks (din sin)" using n(2) by simp
  then have "sfs_io_blocks False s sin buf p blkno nblks =
      Inr (s, sin, put_bytes p (file_bytes s (din sin) (unat blkno * 4096) ((unat blkno + unat nblks) * 4096)) buf)"
    using wf pos n(1) len cont by (intro io_blocks_read) auto
  with pos u n(1) show ?thesis by simp
qed

lemma io_tail_stage:
  assumes wf: "sfs_wf s" "file_wf s (din sin)" and e: "unat endpos \<le> nblocks (din sin) * 4096"
  shows "(if 0 < endpos mod 4096 then
       bindE (sfs_io_part False s sin buf p (endpos mod 4096) (endpos div 4096) 0) (\<lambda>(s, sin, buf).
       Inr (s, sin, buf, p + unat (endpos mod 4096)))
     else Inr (s, sin, buf, p)) =
    Inr (s, sin, put_bytes p (file_bytes s (din sin) (unat endpos div 4096 * 4096) (unat endpos)) buf, p + unat endpos mod 4096)"
proof (cases "endpos mod 4096 = 0")
  case True
  then have m: "unat endpos mod 4096 = 0" by (simp add: word_unat_eq_iff unat_mod)
  then have "unat endpos div 4096 * 4096 = unat endpos" by (metis div_mult_mod_eq add_0_right)
  with True m show ?thesis by (simp add: file_bytes_def)
next
  case False
  then have pos: "0 < endpos mod 4096" "0 < unat endpos mod 4096"
    by (simp_all add: word_gt_0 word_unat_eq_iff unat_mod)
  have "unat endpos \<noteq> nblocks (din sin) * 4096" using pos(2) by auto
  with e have lt: "unat endpos div 4096 < nblocks (din sin)" by (intro less_mult_imp_div_less) simp
  have "sfs_io_part False s sin buf p (endpos mod 4096) (endpos div 4096) 0 =
      Inr (s, sin, put_bytes p (file_bytes s (din sin) (unat endpos div 4096 * 4096) (unat endpos)) buf)"
    using wf lt by (subst io_part_read) (auto simp: unat_div unat_mod in_block_def)
  with pos show ?thesis by (simp add: unat_mod)
qed

lemma sfs_io_range_rest:
  assumes wf: "sfs_wf s" "file_wf s (din sin)" and e: "unat endpos \<le> nblocks (din sin) * 4096" "unat endpos < 2 ^ 31"
    and k: "unat k + unat n = unat endpos div 4096" "a \<le> unat k * 4096" and len: "p + (unat endpos - a) \<le> length buf"
    and cont: "\<forall>j. unat k + j < unat endpos div 4096 \<longrightarrow> fblock s (din sin) (unat k + j) = fblock s (din sin) (unat k) + of_nat j"
  shows "(if 0 < n then
         bindE (sfs_io_blocks False s sin (put_bytes p (file_bytes s (din sin) a (unat k * 4096)) buf) (p + (unat k * 4096 - a)) k n)
           (\<lambda>(s, sin, buf). Inr (s, sin, buf, p + (unat k * 4096 - a) + unat (n * 4096)))
       else Inr (s, sin, put_bytes p (file_bytes s (din sin) a (unat k * 4096)) buf, p + (unat k * 4096 - a))) =
      Inr (s, sin, put_bytes p (file_bytes s (din sin) a (unat endpos div 4096 * 4096)) buf,
        p + (unat endpos div 4096 * 4096 - a))" (is ?mid)
    and "(if 0 < endpos mod 4096 then
         bindE (sfs_io_part False s sin (put_bytes p (file_bytes s (din sin) a (unat endpos div 4096 * 4096)) buf)
             (p + (unat endpos div 4096 * 4096 - a)) (endpos mod 4096) (endpos div 4096) 0) (\<lambda>(s, sin, buf).
         Inr (s, sin, buf, p + (unat endpos div 4096 * 4096 - a) + unat (endpos mod 4096)))
       else Inr (s, sin, put_bytes p (file_bytes s (din sin) a (unat endpos div 4096 * 4096)) buf,
         p + (unat endpos div 4096 * 4096 - a))) =
      Inr (s, sin, put_bytes p (file_bytes s (din sin) a (unat endpos)) buf, p + (unat endpos - a))" (is ?tail)
proof -
  let ?e = "unat endpos" and ?d = "din sin"
  let ?buf = "put_bytes p (file_bytes s ?d a (unat k * 4096)) buf"
  have ke: "unat k * 4096 \<le> ?e div 4096 * 4096" "?e div 4096 * 4096 \<le> ?e" using k(1) by simp_all
  then have l1: "length ?buf = length buf" using len by (subst length_put_bytes) auto
  have pos: "p + (unat k * 4096 - a) + unat n * 4096 = p + (?e div 4096 * 4096 - a)"
    using k by (simp flip: k(1))
  have "p + (unat k * 4096 - a) + unat n * 4096 \<le> length ?buf" using ke len by (simp add: pos l1)
  note b = io_blocks_stage [OF wf k(1) e(1) this e(2) cont]
  have put: "put_bytes (p + (m - a)) (file_bytes s ?d m r) (put_bytes p (file_bytes s ?d a m) buf) =
      put_bytes p (file_bytes s ?d a r) buf" if "a \<le> m" "m \<le> r" "m \<le> ?e" for m r
    using put_bytes_put_bytes [of p "file_bytes s ?d a m" buf "file_bytes s ?d m r"] that len
    by (simp add: file_bytes_append)
  have a: "a \<le> ?e div 4096 * 4096" using k(2) ke(1) by simp
  have fin: "p + (?e div 4096 * 4096 - a) + ?e mod 4096 = p + (?e - a)"
    using a by (metis div_mult_mod_eq add.assoc Nat.add_diff_assoc2)
  show ?mid unfolding b pos using put [OF k(2) ke(1)] ke by simp
  show ?tail unfolding io_tail_stage [OF wf e(1)] fin using put [OF a ke(2)] ke by simp
qed

lemma div_round_up: "0 < a mod 4096 \<Longrightarrow> (a + 4095) div 4096 = Suc (a div 4096)" for a :: nat
proof -
  assume "0 < a mod 4096"
  then obtain r where r: "a mod 4096 = Suc r" "r < 4096" by (metis gr0_implies_Suc mod_less_divisor Suc_lessD zero_less_numeral)
  have "a + 4095 = (a div 4096 + 1) * 4096 + r" using r(1) div_mult_mod_eq [of a 4096] by simp
  then have "(a + 4095) div 4096 = a div 4096 + 1" using r(2) by (metis div_mult_self3 div_less add_0_right zero_neq_numeral)
  then show ?thesis by simp
qed

lemma block_end: "a + (4096 - a mod 4096) = Suc (a div 4096) * 4096" for a :: nat
proof -
  define q r where "q = a div 4096" and "r = a mod 4096"
  have "r < 4096" "a = q * 4096 + r" by (simp_all add: q_def r_def)
  then show ?thesis unfolding q_def [symmetric] r_def [symmetric] by simp
qed

lemma sfs_io_range_read:
  assumes wf: "sfs_wf s" "file_wf s (din sin)" and e: "unat endpos \<le> nblocks (din sin) * 4096" "unat endpos < 2 ^ 31"
    "endpos \<le> dsize (din sin)" and o: "offset < endpos" and len: "base + unat (endpos - offset) \<le> length buf"
    and cont: "contiguous s (din sin) (unat offset) (unat endpos)"
  shows "sfs_io_range False s sin buf base offset endpos =
    Inr (s, sin, put_bytes base (file_bytes s (din sin) (unat offset) (unat endpos)) buf, 0, endpos - offset)"
proof -
  let ?o = "unat offset" and ?e = "unat endpos" and ?d = "din sin"
  have lt: "?o < ?e" using o by (simp add: word_less_nat_alt)
  have ue: "unat (endpos - offset) = ?e - ?o" using o by (intro unat_sub) simp
  have dm: "?o div 4096 \<le> ?e div 4096" using lt by (intro div_le_mono) simp
  have n: "unat (endpos div 4096 - offset div 4096) = ?e div 4096 - ?o div 4096"
    using dm by (subst unat_sub) (auto simp: word_le_nat_alt unat_div)
  have alen: "of_nat (?e - ?o) = endpos - offset" by (simp flip: ue)
  have sz: "\<not> dsize ?d < offset + (endpos - offset)" using e(3) by simp
  consider (aligned) "?o mod 4096 = 0" | (single) "0 < ?o mod 4096" "?e div 4096 = ?o div 4096"
    | (head) "0 < ?o mod 4096" "?o div 4096 < ?e div 4096" using dm by linarith
  then show ?thesis
  proof cases
    case aligned
    let ?k = "offset div 4096" and ?n = "endpos div 4096 - offset div 4096"
    have z: "\<not> 0 < offset mod 4096" using aligned by (simp add: word_gt_0 word_unat_eq_iff unat_mod)
    have oq: "?o = ?o div 4096 * 4096" using aligned by (metis div_mult_mod_eq add_0_right)
    then have "(?o + 4095) div 4096 = ?o div 4096" by (metis div_mult_self3 div_less add_0_right zero_neq_numeral numeral_less_iff num.distinct less_num_simps)
    with cont have c: "\<forall>j. unat ?k + j < ?e div 4096 \<longrightarrow> fblock s ?d (unat ?k + j) = fblock s ?d (unat ?k) + of_nat j"
      by (simp add: contiguous_def Let_def unat_div)
    have "unat ?k + unat ?n = ?e div 4096" using dm n by (simp add: unat_div)
    note r = sfs_io_range_rest [OF wf e(1,2) this _ _ c, of ?o base buf]
    have k: "unat ?k * 4096 = ?o" using oq by (simp add: unat_div)
    have "base + (?e - ?o) \<le> length buf" using len ue by simp
    note r = r [unfolded k, OF order_refl this, unfolded file_bytes_self put_bytes_Nil diff_self_eq_0 add_0_right]
    show ?thesis
      unfolding sfs_io_range_def Let_def if_not_P [OF z] bindE_simps prod.case r(1) not_False_eq_True simp_thms r(2)
      using alen sz by simp
  next
    case single
    let ?k = "offset div 4096"
    have z: "0 < offset mod 4096" using single(1) by (simp add: word_gt_0 word_unat_eq_iff unat_mod)
    have n0: "endpos div 4096 - offset div 4096 = 0" using n single(2) by (simp add: word_unat_eq_iff)
    have eo: "?e mod 4096 = ?o mod 4096 + (?e - ?o)"
      using single(2) lt div_mult_mod_eq [of ?e 4096] div_mult_mod_eq [of ?o 4096] by linarith
    have lo: "?o div 4096 * 4096 + ?o mod 4096 = ?o" by simp
    have "in_block (offset mod 4096) (endpos - offset)"
      using eo mod_less_divisor [of 4096 ?e] by (simp add: in_block_def unat_mod ue)
    moreover have "?o div 4096 < nblocks ?d"
      using e(1) lt by (intro less_mult_imp_div_less) linarith
    ultimately have "sfs_io_part False s sin buf base (endpos - offset) ?k (offset mod 4096) =
        Inr (s, sin, put_bytes base (file_bytes s ?d ?o ?e) buf)"
      using wf lt by (subst io_part_read) (simp_all add: unat_div unat_mod ue lo)
    with z n0 alen sz show ?thesis by (simp add: sfs_io_range_def Let_def ue)
  next
    case head
    let ?k = "offset div 4096 + 1" and ?n = "endpos div 4096 - offset div 4096 - 1"
    have z: "0 < offset mod 4096" using head(1) by (simp add: word_gt_0 word_unat_eq_iff unat_mod)
    have n1: "0 < endpos div 4096 - offset div 4096" using n head(2) by (simp add: word_less_nat_alt)
    have un: "unat ?n = ?e div 4096 - ?o div 4096 - 1" using n head(2) by (subst unat_sub) (auto simp: word_le_nat_alt)
    have "?e div 4096 < 2 ^ 31" using e(2) by (rule order.strict_trans1 [OF div_le_dividend])
    then have uk: "unat ?k = Suc (?o div 4096)" using head(2) by (simp add: unat_word_ariths unat_div)
    have ub: "unat (4096 - offset mod 4096) = 4096 - ?o mod 4096"
      by (subst unat_sub) (auto simp: word_le_nat_alt unat_mod)
    have lo: "?o div 4096 * 4096 + ?o mod 4096 = ?o" by simp
    have hi: "?o + (4096 - ?o mod 4096) = Suc (?o div 4096) * 4096" 
      by (rule block_end)
    have c: "\<forall>j. unat ?k + j < ?e div 4096 \<longrightarrow> fblock s ?d (unat ?k + j) = fblock s ?d (unat ?k) + of_nat j"
      using cont head(1) by (simp add: contiguous_def Let_def uk div_round_up)
    have "in_block (offset mod 4096) (4096 - offset mod 4096)"
      using mod_less_divisor [of 4096 ?o] by (simp add: in_block_def ub unat_mod)
    moreover have "?o div 4096 < nblocks ?d"
      using e(1) lt by (intro less_mult_imp_div_less) linarith
    ultimately have h: "sfs_io_part False s sin buf base (4096 - offset mod 4096) (offset div 4096) (offset mod 4096) =
        Inr (s, sin, put_bytes base (file_bytes s ?d ?o (unat ?k * 4096)) buf)"
      using wf by (subst io_part_read) (simp_all add: unat_div unat_mod ub lo hi uk)
    have "unat ?k + unat ?n = ?e div 4096" using head(2) by (simp add: uk un)
    note r = sfs_io_range_rest [OF wf e(1,2) this _ _ c, of ?o base buf]
    have "?o \<le> unat ?k * 4096" "base + (?e - ?o) \<le> length buf" using hi len ue by (simp_all add: uk)
    note r = r [OF this]
    have p: "base + (unat ?k * 4096 - ?o) = base + unat (4096 - offset mod 4096)"
      using hi by (simp add: uk ub)
    note r = r [unfolded p]
    show ?thesis
      unfolding sfs_io_range_def Let_def if_P [OF z] if_P [OF n1] bindE_simps h prod.case r(1) not_False_eq_True simp_thms r(2)
      using alen sz by simp
  qed
qed

text \<open>The buffer after \<open>n\<close> bytes have been transferred into it.\<close>

definition iobuf_filled :: "u8 list \<Rightarrow> iobuf \<Rightarrow> iobuf" where
  "iobuf_filled xs iob = iob\<lparr>io_mem := put_bytes (io_base iob) xs (io_mem iob), io_base := io_base iob + length xs,
     io_offset := io_offset iob + of_nat (length xs), io_resid := io_resid iob - of_nat (length xs)\<rparr>"

lemma iobuf_filled_Nil [simp]: "iobuf_filled [] iob = iob"
  by (simp add: iobuf_filled_def)

lemma sfs_read_spec:
  fixes iob :: iobuf and sin :: sfs_inode
  defines "a \<equiv> unat (io_offset iob)" and "e \<equiv> min (unat (io_offset iob) + unat (io_resid iob)) (unat (dsize (din sin)))"
  assumes wf: "sfs_wf s" "file_wf s (din sin)" and ty: "dtype (din sin) \<noteq> 2"
    and size: "unat (dsize (din sin)) \<le> nblocks (din sin) * 4096" "dsize (din sin) \<le> 0x8000000"
    and o: "io_offset iob < 0x8000000" "a + unat (io_resid iob) < 2 ^ 31"
    and len: "io_base iob + unat (io_resid iob) \<le> length (io_mem iob)"
    and cont: "contiguous s (din sin) a e"
  shows "sfs_read s sin iob = Inr (s, sin, iobuf_filled (file_bytes s (din sin) a e) iob, 0)"
proof -
  let ?o = "io_offset iob" and ?r = "io_resid iob" and ?d = "din sin"
  have ends: "unat (?o + ?r) = a + unat ?r" using o(2) by (simp add: a_def unat_word_ariths)
  have so: "sint ?o = int a" "sint (?o + ?r) = int (a + unat ?r)"
    using o(2) ends by (simp_all add: a_def sint_small del: of_nat_add)
  have neg: "\<not> (sint ?o < 0 \<or> 0x8000000 \<le> ?o \<or> sint (?o + ?r) < sint ?o)" using so o(1) by auto
  show ?thesis
  proof (cases "?r = 0 \<or> dsize ?d \<le> ?o")
    case True
    then have "e \<le> a" by (auto simp: a_def e_def word_le_nat_alt)
    then have "file_bytes s ?d a e = []" by (simp add: file_bytes_def)
    with True neg ty show ?thesis
      by (auto simp: sfs_read_def sfs_io_def sfs_io_nolock_def Let_def)
  next
    case False
    then have r: "?o \<noteq> ?o + ?r" and d: "\<not> dsize ?d \<le> ?o" by simp_all
    define f where "f = (if 0x8000000 < ?o + ?r then 0x8000000 else ?o + ?r)"
    define g where "g = (if dsize ?d < f then dsize ?d else f)"
    have ug: "unat g = e" using size(2) ends by (auto simp: f_def g_def e_def a_def word_less_nat_alt word_le_nat_alt)
    have og: "?o < g" using d r o(1) ends False
      by (auto simp: f_def g_def word_less_nat_alt word_le_nat_alt word_unat_eq_iff a_def)
    have gs: "g \<le> dsize ?d" by (auto simp: g_def)
    have "unat g \<le> nblocks ?d * 4096" "unat g < 2 ^ 31" using gs size by (simp_all add: word_le_nat_alt)
    moreover have ul: "unat (g - ?o) = e - a" using og ug by (subst unat_sub) (simp_all add: a_def)
    moreover have "io_base iob + unat (g - ?o) \<le> length (io_mem iob)" using ul len by (simp add: e_def a_def)
    ultimately have "sfs_io_range False s sin (io_mem iob) (io_base iob) ?o g =
        Inr (s, sin, put_bytes (io_base iob) (file_bytes s ?d a e) (io_mem iob), 0, g - ?o)"
      using sfs_io_range_read [OF wf _ _ gs og _ cont [folded ug, unfolded a_def]] by (simp add: a_def ug)
    moreover have "sfs_io_nolock False s sin (io_mem iob) (io_base iob) ?o ?r =
        sfs_io_range False s sin (io_mem iob) (io_base iob) ?o g"
      using neg ty r d unfolding g_def f_def by (simp add: sfs_io_nolock_def Let_def)
    ultimately have io: "sfs_io_nolock False s sin (io_mem iob) (io_base iob) ?o ?r =
        Inr (s, sin, put_bytes (io_base iob) (file_bytes s ?d a e) (io_mem iob), 0, g - ?o)" by simp
    have "g - ?o \<le> ?r" "g - ?o \<noteq> 0" using ul og by (auto simp: word_le_nat_alt e_def a_def)
    moreover have "of_nat (e - a) = g - ?o" by (simp flip: ul)
    ultimately show ?thesis
      using io by (simp add: sfs_read_def sfs_io_def iobuf_skip_def iobuf_filled_def ul)
  qed
qed

end
