(* ===== verification/Sfs_Resize.thy ===== *)
theory Sfs_Resize
  imports Sfs_File
begin

text \<open>
  Growing and shrinking a file of direct blocks: one step of the block map in each direction, the loops of
  \<^verbatim>\<open>sfs_truncfile\<close> and the whole operation, with the accounting of free blocks.
\<close>

section \<open>Files of direct blocks\<close>

text \<open>A file that fits in its twelve direct blocks, with the unused ones zero.\<close>

definition direct_wf :: "sfs_fs \<Rightarrow> sfs_disk_inode \<Rightarrow> bool" where
  "direct_wf s d \<longleftrightarrow> length (direct d) = 12 \<and> nblocks d \<le> 12 \<and> (\<forall>k < nblocks d. block_used s (direct d ! k)) \<and>
     inj_on ((!) (direct d)) {..<nblocks d} \<and> (\<forall>k. nblocks d \<le> k \<and> k < 12 \<longrightarrow> direct d ! k = 0)"

text \<open>The numbers of the blocks of such a file.\<close>

definition file_blocks :: "sfs_disk_inode \<Rightarrow> nat set" where
  "file_blocks d = (\<lambda>k. unat (direct d ! k)) ` {..<nblocks d}"

lemma file_blocks_used: "direct_wf s d \<Longrightarrow> file_blocks d \<inter> free_blocks s = {}"
  by (auto simp: direct_wf_def file_blocks_def block_used_def)

lemma file_blocks_prefix:
  "n = nblocks d' \<Longrightarrow> n \<le> nblocks d \<Longrightarrow> \<forall>k < n. direct d' ! k = direct d ! k \<Longrightarrow> file_blocks d' \<subseteq> file_blocks d"
  unfolding file_blocks_def by (auto intro!: image_eqI)

lemma direct_wf_file_wf: "direct_wf s d \<Longrightarrow> file_wf s d"
  by (auto simp: direct_wf_def file_wf_def fblock_def inj_on_def)

text \<open>What the block map operations keep of an inode.\<close>

definition same_inode :: "sfs_inode \<Rightarrow> sfs_inode \<Rightarrow> bool" where
  "same_inode x y \<longleftrightarrow> ino y = ino x \<and> reclaim_count y = reclaim_count x \<and> dsize (din y) = dsize (din x) \<and>
     dtype (din y) = dtype (din x) \<and> nlinks (din y) = nlinks (din x) \<and> indirect (din y) = indirect (din x)"

lemma same_inode_refl [simp]: "same_inode x x"
  by (simp add: same_inode_def)

lemma same_inode_trans: "same_inode x y \<Longrightarrow> same_inode y z \<Longrightarrow> same_inode x z"
  by (simp add: same_inode_def)

lemma u32_add_1: "unat (x :: u32) < 2 ^ 31 \<Longrightarrow> unat (x + 1) = Suc (unat x)"
  by (simp add: unat_word_ariths)

lemma u32_sub_1: "0 < unat (x :: u32) \<Longrightarrow> unat (x - 1) = unat x - 1"
  by (subst unat_sub) (auto simp: word_le_nat_alt)

lemma load_grow_full:
  assumes "sfs_wf s" "direct_wf s (din sin)" "nblocks (din sin) < 12" "free_blocks s = {}"
  shows "sfs_bmap_load_nolock s sin (dblocks (din sin)) = Inr (s, sin, - E_NO_MEM, 0)"
proof -
  have "direct (din sin) ! nblocks (din sin) = 0" "dblocks (din sin) < 12"
    using assms(2,3) by (auto simp: direct_wf_def word_less_nat_alt)
  then show ?thesis
    using sfs_block_alloc_full [OF assms(1,4)] by (simp add: sfs_bmap_load_nolock_def sfs_bmap_get_nolock_def Let_def)
qed

lemma load_grow_ok:
  assumes wf: "sfs_wf s" "direct_wf s (din sin)" and lt: "nblocks (din sin) < 12" and ne: "free_blocks s \<noteq> {}"
  obtains s' i where "sfs_bmap_load_nolock s sin (dblocks (din sin)) =
      Inr (s', upd_din (\<lambda>d. d\<lparr>direct := (direct d)[nblocks d := i], dblocks := dblocks d + 1\<rparr>) sin\<lparr>dirty := True\<rparr>, 0, i)"
    "sfs_wf s'" "same_volume s s'" "free_blocks s' = free_blocks s - {unat i}" "unat i \<in> free_blocks s"
    "direct_wf s' ((din sin)\<lparr>direct := (direct (din sin))[nblocks (din sin) := i], dblocks := dblocks (din sin) + 1\<rparr>)"
proof -
  let ?d = "din sin" and ?n = "nblocks (din sin)"
  have z: "direct ?d ! ?n = 0" "dblocks ?d < 12" "length (direct ?d) = 12"
    using wf(2) lt by (auto simp: direct_wf_def word_less_nat_alt)
  obtain s' i where a: "sfs_block_alloc s = Inr (s', 0, i)" "sfs_wf s'" "same_volume s s'"
    "free_blocks s' = free_blocks s - {unat i}" "block_used s' i" "unat i \<in> free_blocks s"
    using sfs_block_alloc_ok [OF wf(1) ne] by metis
  have u: "unat (dblocks ?d + 1) = Suc ?n" using lt by (intro u32_add_1) simp
  have old: "block_used s' (direct ?d ! k)" "direct ?d ! k \<noteq> i" "i \<noteq> direct ?d ! k" if "k < ?n" for k
    using wf(2) a(3-6) that by (auto simp: direct_wf_def block_used_def same_volume_def)
  have inj: "inj_on ((!) (direct ?d)) {..<?n}" using wf(2) by (simp add: direct_wf_def)
  have nth: "(direct ?d)[?n := i] ! k = (if k = ?n then i else direct ?d ! k)" if "k < 12" for k
    using that z(3) by (simp add: nth_list_update)
  have "inj_on ((!) ((direct ?d)[?n := i])) {..<Suc ?n}"
    using inj old lt unfolding inj_on_def by (auto simp: nth less_Suc_eq)
  moreover have "\<forall>k < Suc ?n. block_used s' ((direct ?d)[?n := i] ! k)"
    using old(1) a(5) lt by (auto simp: nth less_Suc_eq)
  ultimately have "direct_wf s' (?d\<lparr>direct := (direct ?d)[?n := i], dblocks := dblocks ?d + 1\<rparr>)"
    using wf(2) lt by (auto simp: direct_wf_def u nth)
  moreover have "sfs_bmap_load_nolock s sin (dblocks ?d) =
      Inr (s', upd_din (\<lambda>d. d\<lparr>direct := (direct d)[nblocks d := i], dblocks := dblocks d + 1\<rparr>) sin\<lparr>dirty := True\<rparr>, 0, i)"
    using z a block_usedD(1) [OF a(5)] by (simp add: sfs_bmap_load_nolock_def sfs_bmap_get_nolock_def Let_def)
  ultimately show ?thesis using that a by blast
qed

lemma truncate_ok:
  assumes wf: "sfs_wf s" "direct_wf s (din sin)" and pos: "0 < nblocks (din sin)"
  obtains s' where "sfs_bmap_truncate_nolock s sin =
      Inr (s', upd_din (\<lambda>d. d\<lparr>direct := (direct d)[nblocks d - 1 := 0], dblocks := dblocks d - 1\<rparr>) sin\<lparr>dirty := True\<rparr>, 0)"
    "sfs_wf s'" "same_volume s s'" "free_blocks s' = insert (unat (direct (din sin) ! (nblocks (din sin) - 1))) (free_blocks s)"
    "unat (direct (din sin) ! (nblocks (din sin) - 1)) \<notin> free_blocks s"
    "direct_wf s' ((din sin)\<lparr>direct := (direct (din sin))[nblocks (din sin) - 1 := 0], dblocks := dblocks (din sin) - 1\<rparr>)"
proof -
  let ?d = "din sin" and ?n = "nblocks (din sin)"
  let ?b = "direct ?d ! (?n - 1)"
  have u: "unat (dblocks ?d - 1) = ?n - 1" using pos by (rule u32_sub_1)
  have b: "block_used s ?b" "dblocks ?d \<noteq> 0" "dblocks ?d - 1 < 12"
    using wf(2) pos u by (auto simp: direct_wf_def word_less_nat_alt)
  obtain s' where f: "sfs_block_free s ?b = Inr s'" "sfs_wf s'" "same_volume s s'" "free_blocks s' = insert (unat ?b) (free_blocks s)"
    using sfs_block_free_ok [OF wf(1) b(1)] by metis
  have old: "block_used s' (direct ?d ! k)" if "k < ?n - 1" for k
  proof -
    have k: "k < ?n" "k \<noteq> ?n - 1" "?n - 1 < ?n" using that by auto
    have "inj_on ((!) (direct ?d)) {..<?n}" using wf(2) by (simp add: direct_wf_def)
    with k have "direct ?d ! k \<noteq> ?b" unfolding inj_on_def by blast
    then have ne: "unat (direct ?d ! k) \<noteq> unat ?b" by (simp add: word_unat_eq_iff)
    have "block_used s (direct ?d ! k)" using wf(2) k(1) by (simp add: direct_wf_def)
    then show ?thesis using ne f(3,4) by (simp add: block_used_def same_volume_def)
  qed
  have z: "length (direct ?d) = 12" and inj: "inj_on ((!) (direct ?d)) {..<?n}" using wf(2) by (simp_all add: direct_wf_def)
  have nth: "(direct ?d)[?n - 1 := 0] ! k = (if k = ?n - 1 then 0 else direct ?d ! k)" if "k < 12" for k
    using that z by (simp add: nth_list_update)
  have n12: "?n \<le> 12" using wf(2) by (simp add: direct_wf_def)
  have "inj_on ((!) ((direct ?d)[?n - 1 := 0])) {..<?n - 1}"
    using inj n12 unfolding inj_on_def by (auto simp: nth)
  moreover have "\<forall>k < ?n - 1. block_used s' ((direct ?d)[?n - 1 := 0] ! k)" using old n12 by (auto simp: nth)
  moreover have "(direct ?d)[?n - 1 := 0] ! k = 0" if "?n - 1 \<le> k" "k < 12" for k
    using that wf(2) by (cases "k = ?n - 1") (auto simp: nth direct_wf_def)
  ultimately have "direct_wf s' (?d\<lparr>direct := (direct ?d)[?n - 1 := 0], dblocks := dblocks ?d - 1\<rparr>)"
    using z n12 by (auto simp: direct_wf_def u)
  moreover have "sfs_bmap_truncate_nolock s sin =
      Inr (s', upd_din (\<lambda>d. d\<lparr>direct := (direct d)[nblocks d - 1 := 0], dblocks := dblocks d - 1\<rparr>) sin\<lparr>dirty := True\<rparr>, 0)"
    using b f u by (simp add: sfs_bmap_truncate_nolock_def sfs_bmap_free_nolock_def Let_def block_usedD)
  moreover have "unat ?b \<notin> free_blocks s" using b(1) by (simp add: block_used_def)
  ultimately show ?thesis using that f by blast
qed

section \<open>The loops of truncation\<close>

definition resized :: "sfs_fs \<Rightarrow> sfs_inode \<Rightarrow> sfs_fs \<Rightarrow> sfs_inode \<Rightarrow> nat \<Rightarrow> bool" where
  "resized s sin s' sin' n \<longleftrightarrow> sfs_wf s' \<and> same_volume s s' \<and> direct_wf s' (din sin') \<and> same_inode sin sin' \<and>
     nblocks (din sin') = n \<and> (\<forall>k < min n (nblocks (din sin)). direct (din sin') ! k = direct (din sin) ! k) \<and>
     card (free_blocks s') + n = card (free_blocks s) + nblocks (din sin) \<and>
     file_blocks (din sin') \<subseteq> free_blocks s \<union> file_blocks (din sin) \<and>
     free_blocks s' = (free_blocks s \<union> file_blocks (din sin)) - file_blocks (din sin')"

lemma resized_refl: "sfs_wf s \<Longrightarrow> direct_wf s (din sin) \<Longrightarrow> resized s sin s sin (nblocks (din sin))"
  using file_blocks_used [of s "din sin"] by (auto simp: resized_def)

lemma resizedD:
  assumes "resized s sin s' sin' n"
  shows "sfs_wf s'" "direct_wf s' (din sin')" "nblocks (din sin') = n" "same_inode sin sin'" "same_volume s s'"
    "card (free_blocks s') + n = card (free_blocks s) + nblocks (din sin)"
    "\<forall>k < min n (nblocks (din sin)). direct (din sin') ! k = direct (din sin) ! k"
    "file_blocks (din sin') \<subseteq> free_blocks s \<union> file_blocks (din sin)"
    "free_blocks s' = (free_blocks s \<union> file_blocks (din sin)) - file_blocks (din sin')"
  using assms unfolding resized_def by blast+

lemma resized_trans:
  "resized s x s' y m \<Longrightarrow> resized s' y s'' z n \<Longrightarrow> m \<le> n \<and> nblocks (din x) \<le> m \<or> n \<le> m \<and> m \<le> nblocks (din x) \<Longrightarrow> resized s x s'' z n"
  unfolding resized_def by (intro conjI) (auto intro: same_volume_trans same_inode_trans)

text \<open>The blocks that a change of size takes and gives back.\<close>

lemma resized_blocks:
  assumes r: "resized s sin s' sin' n" and wf: "direct_wf s (din sin)"
  shows "if nblocks (din sin) \<le> n
    then file_blocks (din sin) \<subseteq> file_blocks (din sin') \<and> file_blocks (din sin') - file_blocks (din sin) \<subseteq> free_blocks s \<and>
      free_blocks s' = free_blocks s - (file_blocks (din sin') - file_blocks (din sin))
    else file_blocks (din sin') \<subseteq> file_blocks (din sin) \<and>
      free_blocks s' = free_blocks s \<union> (file_blocks (din sin) - file_blocks (din sin'))"
proof -
  note b = resizedD(8,9,3,7) [OF r]
  note u = file_blocks_used [OF wf]
  show ?thesis
  proof (cases "nblocks (din sin) \<le> n")
    case True
    then have "file_blocks (din sin) \<subseteq> file_blocks (din sin')" using b(3,4) by (intro file_blocks_prefix [OF refl]) auto
    then show ?thesis using True b(1,2) u by auto
  next
    case False
    then have "file_blocks (din sin') \<subseteq> file_blocks (din sin)" using b(3,4) by (intro file_blocks_prefix [OF refl]) auto
    then show ?thesis using False b(1,2) u by auto
  qed
qed

lemma file_blocks_grow:
  "length (direct d) = 12 \<Longrightarrow> nblocks d < 12 \<Longrightarrow>
   file_blocks (d\<lparr>direct := (direct d)[nblocks d := i], dblocks := dblocks d + 1\<rparr>) = insert (unat i) (file_blocks d)"
  using u32_add_1 [of "dblocks d"] by (auto simp: file_blocks_def lessThan_Suc nth_list_update)

lemma file_blocks_shrink:
  assumes "direct_wf s d" "0 < nblocks d"
  shows "file_blocks (d\<lparr>direct := (direct d)[nblocks d - 1 := 0], dblocks := dblocks d - 1\<rparr>) =
    file_blocks d - {unat (direct d ! (nblocks d - 1))}"
proof -
  obtain m where m: "nblocks d = Suc m" using assms(2) by (cases "nblocks d") auto
  have u: "unat (dblocks d - 1) = m" using u32_sub_1 [OF assms(2)] m by simp
  have inj: "inj_on ((!) (direct d)) {..<Suc m}" using assms(1) m by (simp add: direct_wf_def)
  then have "direct d ! k \<noteq> direct d ! m" if "k < m" for k using that unfolding inj_on_def by fastforce
  then have "unat (direct d ! k) \<noteq> unat (direct d ! m)" if "k < m" for k using that by (simp add: word_unat_eq_iff)
  then show ?thesis unfolding file_blocks_def by (auto simp: m u lessThan_Suc)
qed

lemma load_grow_resized:
  assumes wf: "sfs_wf s" "direct_wf s (din sin)" and lt: "nblocks (din sin) < 12" and ne: "free_blocks s \<noteq> {}"
  obtains s' sin' i where "sfs_bmap_load_nolock s sin (dblocks (din sin)) = Inr (s', sin', 0, i)"
    "resized s sin s' sin' (Suc (nblocks (din sin)))" "dblocks (din sin') = dblocks (din sin) + 1"
    "direct (din sin') ! nblocks (din sin) = i" "unat i \<in> free_blocks s"
proof -
  obtain s' i where g: "sfs_bmap_load_nolock s sin (dblocks (din sin)) =
      Inr (s', upd_din (\<lambda>d. d\<lparr>direct := (direct d)[nblocks d := i], dblocks := dblocks d + 1\<rparr>) sin\<lparr>dirty := True\<rparr>, 0, i)"
    "sfs_wf s'" "same_volume s s'" "free_blocks s' = free_blocks s - {unat i}" "unat i \<in> free_blocks s"
    "direct_wf s' ((din sin)\<lparr>direct := (direct (din sin))[nblocks (din sin) := i], dblocks := dblocks (din sin) + 1\<rparr>)"
    by (rule load_grow_ok [OF assms])
  have "unat (dblocks (din sin) + 1) = Suc (nblocks (din sin))" using lt by (intro u32_add_1) simp
  moreover have "length (direct (din sin)) = 12" using wf(2) by (simp add: direct_wf_def)
  moreover have "card (free_blocks s) = Suc (card (free_blocks s'))" using g(4,5) by (metis card.remove finite_free_blocks)
  ultimately show ?thesis
    using that [OF g(1)] g lt file_blocks_grow [of "din sin" i] file_blocks_used [OF wf(2)]
    by (auto simp: resized_def same_inode_def)
qed

lemma truncate_resized:
  assumes wf: "sfs_wf s" "direct_wf s (din sin)" and pos: "0 < nblocks (din sin)"
  obtains s' sin' where "sfs_bmap_truncate_nolock s sin = Inr (s', sin', 0)" "resized s sin s' sin' (nblocks (din sin) - 1)"
proof -
  obtain s' where g: "sfs_bmap_truncate_nolock s sin =
      Inr (s', upd_din (\<lambda>d. d\<lparr>direct := (direct d)[nblocks d - 1 := 0], dblocks := dblocks d - 1\<rparr>) sin\<lparr>dirty := True\<rparr>, 0)"
    "sfs_wf s'" "same_volume s s'" "free_blocks s' = insert (unat (direct (din sin) ! (nblocks (din sin) - 1))) (free_blocks s)"
    "unat (direct (din sin) ! (nblocks (din sin) - 1)) \<notin> free_blocks s"
    "direct_wf s' ((din sin)\<lparr>direct := (direct (din sin))[nblocks (din sin) - 1 := 0], dblocks := dblocks (din sin) - 1\<rparr>)"
    by (rule truncate_ok [OF assms])
  have "unat (dblocks (din sin) - 1) = nblocks (din sin) - 1" using pos by (rule u32_sub_1)
  moreover have "unat (direct (din sin) ! (nblocks (din sin) - 1)) \<in> file_blocks (din sin)" using pos by (auto simp: file_blocks_def)
  ultimately show ?thesis
    using that [OF g(1)] g pos file_blocks_shrink [OF wf(2) pos] file_blocks_used [OF wf(2)]
    by (auto simp: resized_def same_inode_def)
qed

lemma truncfile_grow_spec:
  "sfs_wf s \<Longrightarrow> direct_wf s (din sin) \<Longrightarrow> nblocks (din sin) + n \<le> 12 \<Longrightarrow>
    \<exists>s' sin'. truncfile_grow s sin (dblocks (din sin)) n =
        Inr (s', sin', if n \<le> card (free_blocks s) then 0 else - E_NO_MEM) \<and>
      resized s sin s' sin' (nblocks (din sin) + min n (card (free_blocks s)))"
proof (induction n arbitrary: s sin)
  case 0
  then show ?case by (auto simp: resized_refl)
next
  case (Suc n)
  show ?case
  proof (cases "free_blocks s = {}")
    case True
    then show ?thesis using Suc.prems load_grow_full [of s sin] by (auto simp: resized_refl)
  next
    case False
    have "nblocks (din sin) < 12" using Suc.prems(3) by simp
    from load_grow_resized [OF Suc.prems(1,2) this False]
    obtain s1 sin1 i where g: "sfs_bmap_load_nolock s sin (dblocks (din sin)) = Inr (s1, sin1, 0, i)"
      "resized s sin s1 sin1 (Suc (nblocks (din sin)))" "dblocks (din sin1) = dblocks (din sin) + 1" .
    have c: "card (free_blocks s) = Suc (card (free_blocks s1))" "nblocks (din sin1) = Suc (nblocks (din sin))"
      using resizedD(3,6) [OF g(2)] by auto
    obtain s' sin' where h: "truncfile_grow s1 sin1 (dblocks (din sin1)) n =
        Inr (s', sin', if n \<le> card (free_blocks s1) then 0 else - E_NO_MEM)"
      "resized s1 sin1 s' sin' (nblocks (din sin1) + min n (card (free_blocks s1)))"
      using Suc.IH [OF resizedD(1,2) [OF g(2)]] Suc.prems(3) c(2) by auto
    have "resized s sin s' sin' (nblocks (din sin) + min (Suc n) (card (free_blocks s)))"
      using resized_trans [OF g(2) h(2)] c by simp
    then show ?thesis using g h(1) c(1) by auto
  qed
qed

lemma truncfile_shrink_spec:
  "sfs_wf s \<Longrightarrow> direct_wf s (din sin) \<Longrightarrow> n \<le> nblocks (din sin) \<Longrightarrow>
    \<exists>s' sin'. truncfile_shrink s sin n = Inr (s', sin', 0) \<and> resized s sin s' sin' (nblocks (din sin) - n)"
proof (induction n arbitrary: s sin)
  case 0
  then show ?case by (auto simp: resized_refl)
next
  case (Suc n)
  have "0 < nblocks (din sin)" using Suc.prems(3) by simp
  from truncate_resized [OF Suc.prems(1,2) this]
  obtain s1 sin1 where g: "sfs_bmap_truncate_nolock s sin = Inr (s1, sin1, 0)"
    "resized s sin s1 sin1 (nblocks (din sin) - 1)" .
  then have c: "nblocks (din sin1) = nblocks (din sin) - 1" by (simp add: resized_def)
  have "n \<le> nblocks (din sin1)" using Suc.prems(3) c by simp
  then obtain s' sin' where h: "truncfile_shrink s1 sin1 n = Inr (s', sin', 0)" "resized s1 sin1 s' sin' (nblocks (din sin1) - n)"
    using Suc.IH [OF resizedD(1,2) [OF g(2)]] by auto
  have "resized s sin s' sin' (nblocks (din sin) - Suc n)"
    using resized_trans [OF g(2) h(2)] c by (simp add: diff_le_mono2)
  then show ?case using g(1) h(1) by auto
qed

section \<open>Truncation\<close>

abbreviation blocks_for :: "u32 \<Rightarrow> nat" where
  "blocks_for len \<equiv> (unat len + 4095) div 4096"

lemma truncfile_blocks:
  assumes "len \<le> 49152"
  shows "unat (ROUNDUP_DIV len 4096) = blocks_for len" "blocks_for len \<le> 12" "\<not> (sint len < 0 \<or> 0x8000000 < len)"
proof -
  have l: "unat len \<le> 49152" using assms by (simp add: word_le_nat_alt)
  then show "unat (ROUNDUP_DIV len 4096) = blocks_for len" by (subst unat_ROUNDUP_DIV) simp_all
  have "blocks_for len \<le> (49152 + 4095) div 4096" using l by (intro div_le_mono) simp
  then show "blocks_for len \<le> 12" by simp
  have "sint len = int (unat len)" using l by (intro sint_small) simp
  then show "\<not> (sint len < 0 \<or> 0x8000000 < len)" using l by (simp add: word_less_nat_alt)
qed

lemma sfs_truncfile_loops:
  assumes wf: "sfs_wf s" "direct_wf s (din sin)" and len: "len \<le> 49152" "dsize (din sin) \<noteq> len"
  obtains s' sin' where "sfs_truncfile s sin len =
      (if blocks_for len \<le> nblocks (din sin) + card (free_blocks s)
       then Inr (s', upd_din (\<lambda>d. d\<lparr>dsize := len\<rparr>) sin'\<lparr>dirty := True\<rparr>, 0) else Inr (s', sin', - E_NO_MEM))"
    "resized s sin s' sin' (min (blocks_for len) (nblocks (din sin) + card (free_blocks s)))"
proof -
  let ?t = "ROUNDUP_DIV len 4096" and ?d = "din sin"
  note t = truncfile_blocks [OF len(1)]
  consider (grow) "nblocks ?d < blocks_for len" | (shrink) "blocks_for len < nblocks ?d" | (same) "blocks_for len = nblocks ?d"
    by linarith
  then show ?thesis
  proof cases
    case grow
    then have lt: "dblocks ?d < ?t" by (simp add: word_less_nat_alt t)
    then have n: "unat (?t - dblocks ?d) = blocks_for len - nblocks ?d" by (subst unat_sub) (auto simp: t)
    then have "nblocks ?d + unat (?t - dblocks ?d) \<le> 12" using t(2) grow by simp
    from truncfile_grow_spec [OF wf this] obtain s' sin' where g: "truncfile_grow s sin (dblocks ?d) (unat (?t - dblocks ?d)) =
        Inr (s', sin', if unat (?t - dblocks ?d) \<le> card (free_blocks s) then 0 else - E_NO_MEM)"
      "resized s sin s' sin' (nblocks ?d + min (unat (?t - dblocks ?d)) (card (free_blocks s)))" by blast
    have m: "nblocks ?d + min (unat (?t - dblocks ?d)) (card (free_blocks s)) = min (blocks_for len) (nblocks ?d + card (free_blocks s))"
      using n grow by linarith
    have "dblocks (din sin') = ?t" if "blocks_for len \<le> nblocks ?d + card (free_blocks s)"
      using resizedD(3) [OF g(2)] that m by (simp add: word_unat_eq_iff t)
    moreover have "unat (?t - dblocks ?d) \<le> card (free_blocks s) \<longleftrightarrow> blocks_for len \<le> nblocks ?d + card (free_blocks s)"
      using n grow by linarith
    ultimately show ?thesis using that [OF _ g(2) [unfolded m]] g(1) lt t(3) len(2)
      by (simp add: sfs_truncfile_def Let_def)
  next
    case shrink
    then have lt: "?t < dblocks ?d" "\<not> dblocks ?d < ?t" by (simp_all add: word_less_nat_alt t)
    then have n: "unat (dblocks ?d - ?t) = nblocks ?d - blocks_for len" by (subst unat_sub) (auto simp: t)
    then have le: "unat (dblocks ?d - ?t) \<le> nblocks ?d" by simp
    from truncfile_shrink_spec [OF wf this] obtain s' sin' where g: "truncfile_shrink s sin (unat (dblocks ?d - ?t)) = Inr (s', sin', 0)"
      "resized s sin s' sin' (nblocks ?d - unat (dblocks ?d - ?t))" by blast
    have m: "nblocks ?d - unat (dblocks ?d - ?t) = min (blocks_for len) (nblocks ?d + card (free_blocks s))"
      using n shrink by linarith
    have "dblocks (din sin') = ?t" using resizedD(3) [OF g(2)] m shrink by (simp add: word_unat_eq_iff t)
    then show ?thesis using that [OF _ g(2) [unfolded m]] g(1) lt t(3) len(2) shrink
      by (simp add: sfs_truncfile_def Let_def)
  next
    case same
    then have "?t = dblocks ?d" by (simp add: word_unat_eq_iff t)
    then show ?thesis using that [of s sin] resized_refl [OF wf] t(3) len(2) same
      by (simp add: sfs_truncfile_def Let_def)
  qed
qed

end
