(* ===== verification/Sfs_Claims.thy ===== *)
theory Sfs_Claims
  imports Sfs_Resize
begin

text \<open>
  The properties of the simple file system, with the lemmas on writing and on searching a directory, and the
  concrete volumes on which they are applied.
\<close>

section \<open>Writing\<close>

lemma io_part_write:
  assumes "sfs_wf s" "file_wf s (din sin)" "unat blkno < nblocks (din sin)" "in_block off len" "p + unat len \<le> length buf"
  shows "sfs_io_part True s sin buf p len blkno off = Inr (s, sin, buf)"
proof -
  note u = file_wf_used [OF assms(2,3)]
  have "sfs_wbuf s buf p len (fblock s (din sin) (unat blkno)) off = Inr (s, buf, 0)"
    using assms by (intro sfs_wbuf_spec) (auto simp: sfs_wf_blocks block_usedD [OF u])
  then show ?thesis using assms by (simp add: sfs_io_part_def bmap_load_spec sfs_buf_op_def)
qed

lemma io_block_write:
  assumes "sfs_wf s" "file_wf s (din sin)" "unat blkno < nblocks (din sin)" "p + 4096 \<le> length buf"
  shows "sfs_io_blocks True s sin buf p blkno 1 = Inr (s, sin, buf)"
proof -
  note u = file_wf_used [OF assms(2,3)]
  have "sfs_rwblock_nolock s buf p (fblock s (din sin) (unat blkno)) True True = Inr (s, buf, 0)"
    using assms by (intro rwblock_write) (auto simp: sfs_wf_blocks block_usedD [OF u])
  then show ?thesis
    using assms by (simp add: sfs_io_blocks_def bmap_load_spec sfs_block_op_def sfs_wblock_def sfs_rwblock_def)
qed

text \<open>The positions in a transfer of at most one block's length.\<close>

lemma short_range_cases:
  fixes a e :: nat
  assumes "a < e" "e \<le> a + 4096"
  obtains (aligned) "a mod 4096 = 0" "e div 4096 = a div 4096" "e mod 4096 = e - a"
  | (whole) "a mod 4096 = 0" "e div 4096 = Suc (a div 4096)" "e mod 4096 = 0" "e = a + 4096"
  | (single) "0 < a mod 4096" "e div 4096 = a div 4096" "a mod 4096 + (e - a) \<le> 4096"
  | (split) "0 < a mod 4096" "e div 4096 = Suc (a div 4096)" "4096 - a mod 4096 + e mod 4096 = e - a"
proof -
  define q r q' r' where d: "q = a div 4096" "r = a mod 4096" "q' = e div 4096" "r' = e mod 4096"
  have a: "a = q * 4096 + r" "r < 4096" and e: "e = q' * 4096 + r'" "r' < 4096" by (simp_all add: d)
  have q: "q' = q \<or> q' = Suc q" using assms a e by arith
  show thesis
    using that [folded d] q assms a e by (cases "r = 0") auto
qed

lemma sfs_io_range_write:
  assumes wf: "sfs_wf s" "file_wf s (din sin)" and e: "unat endpos \<le> nblocks (din sin) * 4096" "endpos \<le> dsize (din sin)"
    and o: "offset < endpos" "unat endpos \<le> unat offset + 4096" and len: "base + unat (endpos - offset) \<le> length buf"
  shows "sfs_io_range True s sin buf base offset endpos = Inr (s, sin, buf, 0, endpos - offset)"
proof -
  let ?o = "unat offset" and ?e = "unat endpos"
  have lt: "?o < ?e" using o by (simp add: word_less_nat_alt)
  have ue: "unat (endpos - offset) = ?e - ?o" using o by (intro unat_sub) simp
  have dm: "?o div 4096 \<le> ?e div 4096" using lt by (intro div_le_mono) simp
  have n: "unat (endpos div 4096 - offset div 4096) = ?e div 4096 - ?o div 4096"
    using dm by (subst unat_sub) (auto simp: word_le_nat_alt unat_div)
  have alen: "of_nat (?e - ?o) = endpos - offset" by (simp flip: ue)
  have sz: "\<not> dsize (din sin) < offset + (endpos - offset)" using e(2) by simp
  have ob: "?o div 4096 < nblocks (din sin)" using e(1) lt by (intro less_mult_imp_div_less) linarith
  have ub: "unat (4096 - offset mod 4096) = 4096 - ?o mod 4096"
    by (subst unat_sub) (auto simp: word_le_nat_alt unat_mod)
  have tail: "?e div 4096 < nblocks (din sin)" if "0 < ?e mod 4096"
  proof -
    have "?e \<noteq> nblocks (din sin) * 4096" using that by auto
    with e(1) show ?thesis by (intro less_mult_imp_div_less) simp
  qed
  have word: "0 < x mod 4096 \<longleftrightarrow> 0 < unat x mod 4096" for x :: u32
    by (simp add: word_gt_0 word_unat_eq_iff unat_mod)
  show ?thesis
  proof (cases rule: short_range_cases [OF lt o(2)])
    case 1
    note aligned = this
    then have n0: "endpos div 4096 - offset div 4096 = 0" using n by (simp add: word_unat_eq_iff)
    have "sfs_io_part True s sin buf base (endpos mod 4096) (endpos div 4096) 0 = Inr (s, sin, buf)"
      using wf tail aligned lt len ue by (intro io_part_write) (auto simp: in_block_def unat_div unat_mod)
    then show ?thesis using aligned n0 alen sz lt by (simp add: sfs_io_range_def Let_def word unat_mod)
  next
    case 2
    note whole = this
    then have n1: "endpos div 4096 - offset div 4096 = 1" using n by (simp add: word_unat_eq_iff)
    have "sfs_io_blocks True s sin buf base (offset div 4096) 1 = Inr (s, sin, buf)"
      using wf ob len ue whole by (intro io_block_write) (auto simp: unat_div)
    moreover have "of_nat 4096 = endpos - offset" using alen whole(4) by simp
    ultimately show ?thesis using whole n1 sz by (simp add: sfs_io_range_def Let_def word)
  next
    case 3
    note single = this
    then have n0: "endpos div 4096 - offset div 4096 = 0" using n by (simp add: word_unat_eq_iff)
    have "sfs_io_part True s sin buf base (endpos - offset) (offset div 4096) (offset mod 4096) = Inr (s, sin, buf)"
      using wf ob single len ue by (intro io_part_write) (auto simp: in_block_def unat_div unat_mod)
    then show ?thesis using single n0 alen sz by (simp add: sfs_io_range_def Let_def word ue)
  next
    case 4
    note split = this
    then have n1: "endpos div 4096 - offset div 4096 = 1" using n by (simp add: word_unat_eq_iff)
    have l: "base + (4096 - ?o mod 4096) + ?e mod 4096 \<le> length buf" using split(3) len ue by linarith
    have h: "sfs_io_part True s sin buf base (4096 - offset mod 4096) (offset div 4096) (offset mod 4096) = Inr (s, sin, buf)"
      using wf ob l by (intro io_part_write) (auto simp: in_block_def unat_div unat_mod ub)
    have t: "sfs_io_part True s sin buf (base + (4096 - ?o mod 4096)) (endpos mod 4096) (endpos div 4096) 0 = Inr (s, sin, buf)"
      if "0 < ?e mod 4096"
      using wf tail [OF that] l by (intro io_part_write) (auto simp: in_block_def unat_div unat_mod)
    show ?thesis
    proof (cases "0 < ?e mod 4096")
      case True
      then show ?thesis using split n1 h t alen sz
        by (simp add: sfs_io_range_def Let_def word ub unat_mod)
    next
      case False
      then show ?thesis using split n1 h alen sz by (simp add: sfs_io_range_def Let_def word ub)
    qed
  qed
qed

lemma sfs_write_spec:
  fixes iob :: iobuf
  assumes wf: "sfs_wf s" "file_wf s (din sin)" and ty: "dtype (din sin) \<noteq> 2"
    and size: "unat (dsize (din sin)) \<le> nblocks (din sin) * 4096" "dsize (din sin) \<le> 0x8000000"
    and o: "unat (io_offset iob) + unat (io_resid iob) \<le> unat (dsize (din sin))" "unat (io_resid iob) \<le> 4096"
    and len: "io_base iob + unat (io_resid iob) \<le> length (io_mem iob)" and pos: "io_resid iob \<noteq> 0"
  shows "sfs_write s sin iob = Inr (s, sin, iob\<lparr>io_base := io_base iob + unat (io_resid iob),
    io_offset := io_offset iob + io_resid iob, io_resid := 0\<rparr>, 0)"
proof -
  let ?o = "io_offset iob" and ?r = "io_resid iob" and ?d = "din sin"
  have max: "unat (dsize ?d) \<le> 0x8000000" using size(2) by (simp add: word_le_nat_alt)
  have ends: "unat (?o + ?r) = unat ?o + unat ?r" using o(1) max by (simp add: unat_word_ariths)
  have so: "sint ?o = int (unat ?o)" "sint (?o + ?r) = int (unat (?o + ?r))" using o(1) max ends by (simp_all add: sint_small)
  have rp: "0 < unat ?r" using pos by (simp add: unat_gt_0)
  have neg: "\<not> (sint ?o < 0 \<or> 0x8000000 \<le> ?o \<or> sint (?o + ?r) < sint ?o)" "\<not> 0x8000000 < ?o + ?r"
    unfolding so of_nat_less_iff ends word_le_nat_alt word_less_nat_alt using o(1) max rp by (auto simp del: uint_nat)
  have "sfs_io_range True s sin (io_mem iob) (io_base iob) ?o (?o + ?r) = Inr (s, sin, io_mem iob, 0, ?o + ?r - ?o)"
  proof (rule sfs_io_range_write [OF wf])
    show "?o < ?o + ?r" using rp by (simp add: word_less_nat_alt ends)
  qed (use o size len in \<open>auto simp: ends word_le_nat_alt\<close>)
  then have "sfs_io_nolock True s sin (io_mem iob) (io_base iob) ?o ?r = Inr (s, sin, io_mem iob, 0, ?r)"
    using neg ty pos by (simp add: sfs_io_nolock_def Let_def)
  then show ?thesis using pos by (simp add: sfs_write_def sfs_io_def iobuf_skip_def)
qed

section \<open>Searching a directory\<close>

definition dir_entry :: "sfs_fs \<Rightarrow> sfs_disk_inode \<Rightarrow> nat \<Rightarrow> sfs_disk_entry" where
  "dir_entry s d k = read_entry (take 260 (blk s (fblock s d k)))"

definition entry_named :: "sfs_fs \<Rightarrow> sfs_disk_inode \<Rightarrow> u8 list \<Rightarrow> nat \<Rightarrow> bool" where
  "entry_named s d name k \<longleftrightarrow> entry_ino (dir_entry s d k) \<noteq> 0 \<and> string_of (entry_name (dir_entry s d k)) = name"

lemma dirent_read_spec:
  assumes "sfs_wf s" "file_wf s (din sin)" "dtype (din sin) = 2" "k < nblocks (din sin)"
  shows "sfs_dirent_read_nolock s sin (of_nat k) = Inr (s, sin, 0, dir_entry s (din sin) k)"
proof -
  have k: "k < 2 ^ 31" using assms(2,4) by (simp add: file_wf_def)
  then have u: "unat (of_nat k :: u32) = k" by (intro unat_of_nat_u32) simp
  then have "0 \<le> sint (of_nat k :: u32)" using k sint_small [of "of_nat k"] by simp
  moreover have "of_nat k < dblocks (din sin)" using assms(4) by (simp add: word_less_nat_alt u)
  moreover have "sfs_rbuf s (replicate 260 0) 0 260 (fblock s (din sin) k) 0 = Inr (s, take 260 (blk s (fblock s (din sin) k)), 0)"
    using assms file_wf_used [OF assms(2,4)]
    by (subst sfs_rbuf_spec) (auto simp: sfs_wf_blocks in_block_def put_bytes_all dest: block_usedD)
  ultimately show ?thesis
    using assms file_wf_used [OF assms(2,4)] by (simp add: sfs_dirent_read_nolock_def bmap_load_spec u dir_entry_def)
qed

lemma search_loop_spec:
  assumes wf: "sfs_wf s" "file_wf s (din sin)" "dtype (din sin) = 2"
  shows "i + n \<le> nblocks (din sin) \<Longrightarrow> dirent_search_loop s sin name (of_nat i) n es =
    Inr (s, sin, case find (entry_named s (din sin) name) [i..<i + n] of
        None \<Rightarrow> (- E_NOENT, None, foldl (\<lambda>e k. if entry_ino (dir_entry s (din sin) k) = 0 then of_nat k else e) es [i..<i + n])
      | Some k \<Rightarrow> (0, Some (entry_ino (dir_entry s (din sin) k), of_nat k),
          foldl (\<lambda>e k. if entry_ino (dir_entry s (din sin) k) = 0 then of_nat k else e) es [i..<k]))"
proof (induction n arbitrary: i es)
  case 0
  then show ?case by simp
next
  case (Suc n)
  let ?P = "entry_named s (din sin) name" and ?e = "dir_entry s (din sin) i"
  have r: "sfs_dirent_read_nolock s sin (of_nat i) = Inr (s, sin, 0, ?e)"
    using Suc.prems by (intro dirent_read_spec wf) simp
  have ih: "dirent_search_loop s sin name (of_nat i + 1) n es = dirent_search_loop s sin name (of_nat (Suc i)) n es" for es
    by (simp add: add.commute)
  have le: "Suc i + n \<le> nblocks (din sin)" using Suc.prems by simp
  have u: "[i..<i + Suc n] = i # [Suc i..<Suc i + n]" by (simp add: upt_conv_Cons del: upt_Suc)
  have pre: "foldl f es' [i..<k] = foldl f (f es' i) [Suc i..<k]" if "find ?P [Suc i..<Suc i + n] = Some k" for f :: "u32 \<Rightarrow> nat \<Rightarrow> u32" and es' k
  proof -
    have "k \<in> set [Suc i..<Suc i + n]" using that unfolding find_Some_iff by (metis nth_mem)
    then have "i < k" by auto
    then show ?thesis by (simp add: upt_conv_Cons)
  qed
  show ?case
  proof (cases "?P i")
    case True
    then have "find ?P [i..<i + Suc n] = Some i" "\<not> entry_ino ?e = 0" "name = string_of (entry_name ?e)"
      unfolding u by (simp_all add: entry_named_def)
    then show ?thesis using r by (simp del: upt_Suc)
  next
    case False
    let ?F = "\<lambda>e k. if entry_ino (dir_entry s (din sin) k) = 0 then of_nat k else e"
    have "dirent_search_loop s sin name (of_nat i) (Suc n) es = dirent_search_loop s sin name (of_nat (Suc i)) n (?F es i)"
      using False r ih by (auto simp: entry_named_def simp del: of_nat_Suc)
    moreover have "find ?P [i..<i + Suc n] = find ?P [Suc i..<Suc i + n]" unfolding u using False by simp
    moreover have "foldl ?F es [i..<i + Suc n] = foldl ?F (?F es i) [Suc i..<Suc i + n]" unfolding u by simp
    ultimately show ?thesis
      using Suc.IH [OF le, of "?F es i"] pre [of _ ?F es]
      by (cases "find ?P [Suc i..<Suc i + n]") (simp_all del: upt_Suc of_nat_Suc add_Suc add_Suc_right)
  qed
qed

lemma dirent_search_spec:
  assumes wf: "sfs_wf s" "file_wf s (din sin)" "dtype (din sin) = 2" and name: "length name \<le> 255"
  shows "sfs_dirent_search_nolock s sin name True =
    Inr (s, sin, case find (entry_named s (din sin) name) [0..<nblocks (din sin)] of
        None \<Rightarrow> (- E_NOENT, None, foldl (\<lambda>e k. if entry_ino (dir_entry s (din sin) k) = 0 then of_nat k else e) (dblocks (din sin)) [0..<nblocks (din sin)])
      | Some k \<Rightarrow> (0, Some (entry_ino (dir_entry s (din sin) k), of_nat k),
          foldl (\<lambda>e k. if entry_ino (dir_entry s (din sin) k) = 0 then of_nat k else e) (dblocks (din sin)) [0..<k]))"
proof -
  have "nblocks (din sin) < 2 ^ 31" using wf(2) by (simp add: file_wf_def)
  then have "\<not> sint (dblocks (din sin)) < 0" by (simp add: sint_small)
  then show ?thesis
    using name search_loop_spec [OF wf, of 0 "nblocks (din sin)" name, unfolded add_0 of_nat_0] by (simp add: sfs_dirent_search_nolock_def Let_def)
qed

section \<open>A volume of forty blocks\<close>

text \<open>Blocks 8 to 39 are free; the byte at each position of the image is the low byte of the position.\<close>

definition demo_freemap :: bitmap where
  "demo_freemap = \<lparr>nbits = 40, nwords = 2, bmap = [0xFFFFFF00, 0xFF]\<rparr>"

definition demo_fs :: sfs_fs where
  "demo_fs = \<lparr>blocks = 40, unused_blocks = 32, info = replicate 32 0, super_dirty = False, freemap = demo_freemap,
     disk = ucast, inode_list = [], hash_list = (\<lambda>_. [])\<rparr>"

definition demo_din :: sfs_disk_inode where
  "demo_din = \<lparr>dsize = 8000, dtype = 1, nlinks = 1, dblocks = 2, direct = [5, 7, 0, 0, 0, 0, 0, 0, 0, 0, 0, 0], indirect = 0\<rparr>"

definition demo_sin :: sfs_inode where
  "demo_sin = \<lparr>din = demo_din, ino = 4, dirty = False, reclaim_count = 1\<rparr>"

lemma demo_fs_free_bits: "i < 64 \<Longrightarrow> free_bit [0xFFFFFF00, 0xFF] i \<longleftrightarrow> 8 \<le> i \<and> i < 40"
proof -
  assume i: "i < 64"
  have "\<forall>i \<in> set [0..<64]. free_bit [0xFFFFFF00, 0xFF] i \<longleftrightarrow> 8 \<le> i \<and> i < 40" by code_simp
  with i show ?thesis by simp
qed

lemma demo_fs_free: "bm_free demo_freemap = {8..<40}" "bitmap_wf demo_freemap"
  by (auto simp: bm_free_def bitmap_wf_def demo_freemap_def demo_fs_free_bits)

lemma demo_wf: "sfs_wf demo_fs"
  using demo_fs_free by (auto simp: sfs_wf_def demo_fs_def demo_freemap_def)

lemma demo_used: "block_used demo_fs i \<longleftrightarrow> i \<noteq> 0 \<and> i < 8"
  by (auto simp: block_used_def demo_fs_def demo_fs_free word_less_nat_alt)

lemma demo_file: "direct_wf demo_fs demo_din" "file_wf demo_fs demo_din"
proof -
  have n: "nblocks demo_din = 2" by (simp add: demo_din_def)
  have "direct demo_din ! k = 0" if "2 \<le> k" "k < 12" for k
  proof -
    have all: "\<forall>k \<in> set [2..<12]. direct demo_din ! k = 0" by code_simp
    have "k \<in> set [2..<12]" using that by (simp only: set_upt atLeastLessThan_iff)
    then show ?thesis by (rule bspec [OF all])
  qed
  then show d: "direct_wf demo_fs demo_din"
    unfolding direct_wf_def n by (auto simp: demo_din_def demo_used less_2_cases_iff inj_on_def)
  then show "file_wf demo_fs demo_din" by (rule direct_wf_file_wf)
qed

section \<open>Properties\<close>

text \<open>
  C13. Reading a file returns its bytes: for a file whose blocks are in use, a read that starts below the maximal file size and whose
  length is at most a block (or whose whole blocks are contiguous on the disk) succeeds, changes nothing but
  the buffer, and leaves in it exactly the bytes of the file from the offset up to the end of the range or of the file.
\<close>

theorem sfs_read_exact:
  fixes iob :: iobuf and sin :: sfs_inode
  defines "a \<equiv> unat (io_offset iob)" and "e \<equiv> min (unat (io_offset iob) + unat (io_resid iob)) (unat (dsize (din sin)))"
  assumes "sfs_wf s" "file_wf s (din sin)" "dtype (din sin) = SFS_TYPE_FILE"
    and "unat (dsize (din sin)) \<le> nblocks (din sin) * 4096" "dsize (din sin) \<le> SFS_MAX_FILE_SIZE"
    and "io_offset iob < SFS_MAX_FILE_SIZE" "a + unat (io_resid iob) < 2 ^ 31"
    and "io_base iob + unat (io_resid iob) \<le> length (io_mem iob)"
    and "unat (io_resid iob) \<le> 4096 \<or> contiguous s (din sin) a e"
  shows "sfs_read s sin iob = Inr (s, sin, iobuf_filled (map (content s (din sin)) [a..<e]) iob, 0)"
proof -
  have "contiguous s (din sin) a e"
    using assms(11) contiguous_short [of e a] by (auto simp: a_def e_def)
  then show ?thesis
    using sfs_read_spec [of s sin iob] assms by (simp add: file_bytes_def)
qed

theorem sfs_read_exact_witness:
  "sfs_read demo_fs demo_sin (iobuf_init (replicate 8 0) 0 8 4092) =
    Inr (demo_fs, demo_sin, \<lparr>io_mem = [0xFC, 0xFD, 0xFE, 0xFF, 0, 1, 2, 3], io_base = 8, io_offset = 4100, io_len = 8, io_resid = 0\<rparr>, 0)"
proof -
  have "sfs_read demo_fs demo_sin (iobuf_init (replicate 8 0) 0 8 4092) =
      Inr (demo_fs, demo_sin, iobuf_filled (map (content demo_fs demo_din) [4092..<4100]) (iobuf_init (replicate 8 0) 0 8 4092), 0)"
    using sfs_read_exact [of demo_fs demo_sin "iobuf_init (replicate 8 0) 0 8 4092"] demo_wf demo_file
    by (simp add: demo_sin_def iobuf_init_def demo_din_def)
  moreover have "map (content demo_fs demo_din) [4092..<4100] = [0xFC, 0xFD, 0xFE, 0xFF, 0, 1, 2, 3]"
    by (simp add: upt_rec content_def fblock_def demo_din_def demo_fs_def nth_blk)
  ultimately show ?thesis by (simp add: iobuf_filled_def iobuf_init_def put_bytes_def)
qed

text \<open>
  C37. Writes are lost: writing up to a block's length of data inside a file returns success and advances the buffer by the
  whole length, while the file system, the disk and the inode stay exactly as they were, whatever the data.
\<close>

theorem sfs_write_lost:
  fixes iob :: iobuf
  assumes "sfs_wf s" "file_wf s (din sin)" "dtype (din sin) = SFS_TYPE_FILE"
    and "unat (dsize (din sin)) \<le> nblocks (din sin) * 4096" "dsize (din sin) \<le> SFS_MAX_FILE_SIZE"
    and "unat (io_offset iob) + unat (io_resid iob) \<le> unat (dsize (din sin))" "unat (io_resid iob) \<le> 4096"
    and "io_base iob + unat (io_resid iob) \<le> length (io_mem iob)" "io_resid iob \<noteq> 0"
  shows "sfs_write s sin iob = Inr (s, sin, iob\<lparr>io_base := io_base iob + unat (io_resid iob),
    io_offset := io_offset iob + io_resid iob, io_resid := 0\<rparr>, 0)"
  using assms by (intro sfs_write_spec) simp_all

theorem sfs_write_lost_witness:
  "sfs_write demo_fs demo_sin (iobuf_init [9, 9, 9, 9] 0 4 4094) =
    Inr (demo_fs, demo_sin, \<lparr>io_mem = [9, 9, 9, 9], io_base = 4, io_offset = 4098, io_len = 4, io_resid = 0\<rparr>, 0)"
  using sfs_write_lost [of demo_fs demo_sin "iobuf_init [9, 9, 9, 9] 0 4 4094"] demo_wf demo_file
  by (simp add: demo_sin_def iobuf_init_def demo_din_def)

text \<open>
  C14. \<^verbatim>\<open>sfs_truncfile\<close> resizes a file that has and gets no more than its twelve direct blocks: when the volume has the blocks
  that are missing it succeeds; the file then has the new size and as many blocks as that size needs, its common blocks are
  the old ones, and all its blocks are distinct and in use. Growing keeps the old blocks, and the new ones come from the free
  blocks, which lose exactly these; shrinking gives exactly the blocks that leave the file back to the free blocks. The
  superblock keeps the number of free blocks, and nothing is written to the disk.
\<close>

theorem sfs_truncfile_resizes:
  assumes "sfs_wf s" "direct_wf s (din sin)" "nblocks (din sin) = blocks_for (dsize (din sin))"
    and "len \<le> 12 * SFS_BLKSIZE" "blocks_for len \<le> nblocks (din sin) + card (free_blocks s)"
  shows "\<exists>s' sin'. sfs_truncfile s sin len = Inr (s', sin', 0) \<and> sfs_wf s' \<and> direct_wf s' (din sin') \<and>
    dsize (din sin') = len \<and> nblocks (din sin') = blocks_for len \<and> disk s' = disk s \<and>
    (\<forall>k < min (blocks_for len) (nblocks (din sin)). direct (din sin') ! k = direct (din sin) ! k) \<and>
    card (free_blocks s') + blocks_for len = card (free_blocks s) + nblocks (din sin) \<and>
    unat (unused_blocks s') = card (free_blocks s') \<and>
    (if nblocks (din sin) \<le> blocks_for len
     then file_blocks (din sin) \<subseteq> file_blocks (din sin') \<and> file_blocks (din sin') - file_blocks (din sin) \<subseteq> free_blocks s \<and>
       free_blocks s' = free_blocks s - (file_blocks (din sin') - file_blocks (din sin))
     else file_blocks (din sin') \<subseteq> file_blocks (din sin) \<and>
       free_blocks s' = free_blocks s \<union> (file_blocks (din sin) - file_blocks (din sin')))"
proof (cases "dsize (din sin) = len")
  case True
  have "ROUNDUP_DIV len 4096 = dblocks (din sin)"
    using truncfile_blocks(1) [of len] assms(3,4) True by (simp add: word_unat_eq_iff)
  then have "sfs_truncfile s sin len = Inr (s, sin, 0)"
    using truncfile_blocks(3) [of len] assms(4) True by (simp add: sfs_truncfile_def Let_def)
  moreover have "unat (unused_blocks s) = card (free_blocks s)" using assms(1) by (simp add: sfs_wf_def)
  ultimately show ?thesis using assms True by auto
next
  case False
  have l: "len \<le> 49152" using assms(4) by simp
  from sfs_truncfile_loops [OF assms(1,2) l False] obtain s' sin' where t: "sfs_truncfile s sin len =
      (if blocks_for len \<le> nblocks (din sin) + card (free_blocks s)
       then Inr (s', upd_din (\<lambda>d. d\<lparr>dsize := len\<rparr>) sin'\<lparr>dirty := True\<rparr>, 0) else Inr (s', sin', - E_NO_MEM))"
    "resized s sin s' sin' (min (blocks_for len) (nblocks (din sin) + card (free_blocks s)))" .
  have r: "resized s sin s' sin' (blocks_for len)" using t(2) assms(5) by simp
  let ?y = "upd_din (\<lambda>d. d\<lparr>dsize := len\<rparr>) sin'\<lparr>dirty := True\<rparr>"
  have "file_blocks (din ?y) = file_blocks (din sin')" by (simp add: file_blocks_def)
  moreover have "direct_wf s' (din ?y)" using resizedD(2) [OF r] by (simp add: direct_wf_def)
  moreover have "unat (unused_blocks s') = card (free_blocks s')" using resizedD(1) [OF r] by (simp add: sfs_wf_def)
  moreover have "disk s' = disk s" using resizedD(5) [OF r] by (simp add: same_volume_def)
  ultimately show ?thesis using t(1) r resized_blocks [OF r assms(2)] assms(5)
    by (intro exI [of _ s'] exI [of _ ?y]) (simp add: resizedD(1,3) [OF r] resizedD(6,7) [OF r])
qed

theorem sfs_truncfile_resizes_witness:
  "\<exists>s' sin'. sfs_truncfile demo_fs demo_sin 20000 = Inr (s', sin', 0) \<and> sfs_wf s' \<and> direct_wf s' (din sin') \<and>
    dsize (din sin') = 20000 \<and> nblocks (din sin') = 5 \<and> disk s' = ucast \<and> direct (din sin') ! 0 = 5 \<and> card (free_blocks s') = 29"
proof -
  have f: "card (free_blocks demo_fs) = 32" by (simp add: demo_fs_def demo_fs_free)
  obtain s' sin' where t: "sfs_truncfile demo_fs demo_sin 20000 = Inr (s', sin', 0)" "sfs_wf s'" "direct_wf s' (din sin')"
    "dsize (din sin') = 20000" "nblocks (din sin') = 5" "disk s' = disk demo_fs"
    "\<forall>k < 2. direct (din sin') ! k = direct (din demo_sin) ! k" "card (free_blocks s') + 5 = 32 + 2"
    using sfs_truncfile_resizes [of demo_fs demo_sin 20000] demo_wf demo_file f
    by (auto simp: demo_sin_def demo_din_def)
  have "direct (din sin') ! 0 = 5" using t(7) by (auto simp: demo_sin_def demo_din_def dest: spec [of _ 0])
  then show ?thesis using t by (auto simp: demo_fs_def)
qed

text \<open>
  C38. A failed \<^verbatim>\<open>sfs_truncfile\<close> breaks the file: when the disk fills up while a file grows, the call reports \<^verbatim>\<open>-E_NO_MEM\<close> and keeps the size, but
  the blocks allocated so far stay in the inode. If there was at least one, setting the file to the size it still has then
  fails an assertion of the kernel.
\<close>

theorem sfs_truncfile_full:
  assumes "sfs_wf s" "direct_wf s (din sin)" "nblocks (din sin) = blocks_for (dsize (din sin))"
    and "len \<le> 12 * SFS_BLKSIZE" "nblocks (din sin) + card (free_blocks s) < blocks_for len" "free_blocks s \<noteq> {}"
  shows "\<exists>s' sin'. sfs_truncfile s sin len = Inr (s', sin', - E_NO_MEM) \<and> dsize (din sin') = dsize (din sin) \<and>
    nblocks (din sin') = nblocks (din sin) + card (free_blocks s) \<and> free_blocks s' = {} \<and>
    sfs_truncfile s' sin' (dsize (din sin')) = Inl Assert_failed"
proof -
  have l: "len \<le> 49152" using assms(4) by simp
  have "dsize (din sin) \<noteq> len" using assms(3,5) by auto
  from sfs_truncfile_loops [OF assms(1,2) l this] obtain s' sin' where t: "sfs_truncfile s sin len =
      (if blocks_for len \<le> nblocks (din sin) + card (free_blocks s)
       then Inr (s', upd_din (\<lambda>d. d\<lparr>dsize := len\<rparr>) sin'\<lparr>dirty := True\<rparr>, 0) else Inr (s', sin', - E_NO_MEM))"
    "resized s sin s' sin' (min (blocks_for len) (nblocks (din sin) + card (free_blocks s)))" .
  have r: "resized s sin s' sin' (nblocks (din sin) + card (free_blocks s))" using t(2) assms(5) by simp
  note d = resizedD [OF r]
  have sz: "dsize (din sin') = dsize (din sin)" using d(4) by (simp add: same_inode_def)
  have lt: "blocks_for (dsize (din sin)) < blocks_for len" using assms(3,5) by linarith
  have "dsize (din sin) \<le> 49152"
  proof (rule ccontr)
    assume "\<not> dsize (din sin) \<le> 49152"
    then have "unat len + 4095 \<le> unat (dsize (din sin)) + 4095" using l by (simp add: word_le_nat_alt)
    then have "blocks_for len \<le> blocks_for (dsize (din sin))" by (rule div_le_mono)
    with lt show False by simp
  qed
  note b = truncfile_blocks [OF this]
  have "0 < card (free_blocks s)" using assms(6) by (simp add: card_gt_0_iff)
  then have "ROUNDUP_DIV (dsize (din sin)) 4096 \<noteq> dblocks (din sin')"
    using b(1) d(3) assms(3) by (auto simp: word_unat_eq_iff)
  then have "sfs_truncfile s' sin' (dsize (din sin')) = Inl Assert_failed"
    using b(3) sz by (simp add: sfs_truncfile_def Let_def)
  moreover have "card (free_blocks s') = 0" using d(6) by simp
  ultimately show ?thesis using t(1) assms(5) sz d(3) by auto
qed

definition full_fs :: sfs_fs where
  "full_fs = demo_fs\<lparr>unused_blocks := 1, freemap := demo_freemap\<lparr>bmap := [0x100, 0]\<rparr>\<rparr>"

lemma full_free: "free_blocks full_fs = {8}" "sfs_wf full_fs" "direct_wf full_fs demo_din"
proof -
  have all: "\<forall>i \<in> set [0..<64]. free_bit [0x100, 0] i \<longleftrightarrow> i = 8" by code_simp
  have bits: "free_bit [0x100, 0] i \<longleftrightarrow> i = 8" if "i < 64" for i
    by (rule bspec [OF all]) (use that in \<open>simp only: set_upt atLeastLessThan_iff\<close>, simp)
  show f: "free_blocks full_fs = {8}" by (auto simp: bm_free_def full_fs_def demo_freemap_def bits)
  have "bitmap_wf (freemap full_fs)" by (auto simp: bitmap_wf_def full_fs_def demo_freemap_def bits)
  with f show "sfs_wf full_fs" by (simp add: sfs_wf_def) (simp add: full_fs_def demo_fs_def demo_freemap_def)
  have "block_used full_fs i" if "block_used demo_fs i" for i
    using that unfolding demo_used by (auto simp: block_used_def f word_less_nat_alt) (auto simp: full_fs_def demo_fs_def word_less_nat_alt)
  then show "direct_wf full_fs demo_din" using demo_file(1) by (auto simp: direct_wf_def)
qed

theorem sfs_truncfile_full_witness:
  "\<exists>s' sin'. sfs_truncfile full_fs demo_sin 20000 = Inr (s', sin', - E_NO_MEM) \<and> dsize (din sin') = 8000 \<and>
    nblocks (din sin') = 3 \<and> free_blocks s' = {} \<and> sfs_truncfile s' sin' 8000 = Inl Assert_failed"
proof -
  have d: "din demo_sin = demo_din" "dsize demo_din = 8000" "nblocks demo_din = 2" by (simp_all add: demo_sin_def demo_din_def)
  from sfs_truncfile_full [of full_fs demo_sin 20000, unfolded d full_free(1)] full_free(2,3)
  show ?thesis by auto
qed

text \<open>
  C26. Searching a directory is exact: for a directory whose blocks are in use, the search for a name of legal length
  finds the first slot whose entry is in use and has that name, with its inode number, and reports \<^verbatim>\<open>-E_NOENT\<close> when there is none; the reported
  empty slot is the last unused one before that point, or the number of slots. Nothing is changed.
\<close>

theorem dirent_search_exact:
  assumes "sfs_wf s" "file_wf s (din sin)" "dtype (din sin) = SFS_TYPE_DIR" "length name \<le> SFS_MAX_FNAME_LEN"
  shows "sfs_dirent_search_nolock s sin name True =
    Inr (s, sin, case find (entry_named s (din sin) name) [0..<nblocks (din sin)] of
        None \<Rightarrow> (- E_NOENT, None, foldl (\<lambda>e k. if entry_ino (dir_entry s (din sin) k) = 0 then of_nat k else e) (dblocks (din sin)) [0..<nblocks (din sin)])
      | Some k \<Rightarrow> (0, Some (entry_ino (dir_entry s (din sin) k), of_nat k),
          foldl (\<lambda>e k. if entry_ino (dir_entry s (din sin) k) = 0 then of_nat k else e) (dblocks (din sin)) [0..<k]))"
  using assms by (intro dirent_search_spec) simp_all

text \<open>An image with a directory in block 3: slot 0 is empty, slot 1 (block 6) is the entry \<^verbatim>\<open>ab\<close> of inode 4.\<close>

definition dir_image :: image where
  "dir_image a = (if a = 6 * 4096 then 4 else if a = 6 * 4096 + 4 then 97 else if a = 6 * 4096 + 5 then 98 else 0)"

definition dir_fs :: sfs_fs where
  "dir_fs = demo_fs\<lparr>disk := dir_image\<rparr>"

definition dir_sin :: sfs_inode where
  "dir_sin = \<lparr>din = demo_din\<lparr>dtype := 2, direct := [5, 6, 0, 0, 0, 0, 0, 0, 0, 0, 0, 0]\<rparr>, ino = 3, dirty = False, reclaim_count = 1\<rparr>"

lemma dir_wf: "sfs_wf dir_fs" "file_wf dir_fs (din dir_sin)"
proof -
  show "sfs_wf dir_fs" using demo_wf by (simp add: sfs_wf_def dir_fs_def)
  have u: "block_used dir_fs i \<longleftrightarrow> block_used demo_fs i" for i by (simp add: block_used_def dir_fs_def)
  show "file_wf dir_fs (din dir_sin)"
    by (auto simp: file_wf_def dir_sin_def demo_din_def fblock_def u demo_used less_2_cases_iff inj_on_def)
qed

lemma take_drop_blk:
  "k + n \<le> m \<Longrightarrow> m \<le> 4096 \<Longrightarrow> take n (drop k (take m (blk s b))) = map (\<lambda>i. disk s (b * 4096 + of_nat i)) [k..<k + n]"
  by (rule nth_equalityI) (auto simp: nth_blk)

lemma dir_entries:
  "entry_ino (dir_entry dir_fs (din dir_sin) 0) = 0"
  "entry_ino (dir_entry dir_fs (din dir_sin) 1) = 4"
  "string_of (entry_name (dir_entry dir_fs (din dir_sin) 1)) = [97, 98]"
proof -
  have d: "direct (din dir_sin) ! 0 = 5" "direct (din dir_sin) ! Suc 0 = 6" by (simp_all add: dir_sin_def)
  show "entry_ino (dir_entry dir_fs (din dir_sin) 0) = 0" "entry_ino (dir_entry dir_fs (din dir_sin) 1) = 4"
    by (simp_all add: dir_entry_def read_entry_def le32_def nth_blk fblock_def d dir_fs_def dir_image_def)
  have "take 255 (drop 4 (take 260 (blk dir_fs 6))) = map (\<lambda>i. disk dir_fs (6 * 4096 + of_nat i)) [4..<4 + 255]"
    by (rule take_drop_blk) simp_all
  also have "[4..<4 + 255] = 4 # 5 # 6 # [7..<4 + 255]" by (simp add: upt_conv_Cons)
  finally show "string_of (entry_name (dir_entry dir_fs (din dir_sin) 1)) = [97, 98]"
    by (simp add: dir_entry_def read_entry_def fblock_def d string_of_def dir_image_def dir_fs_def del: upt.simps)
qed

theorem dirent_search_exact_witness:
  "sfs_dirent_search_nolock dir_fs dir_sin [97, 98] True = Inr (dir_fs, dir_sin, 0, Some (4, 1), 0)"
proof -
  have "find (entry_named dir_fs (din dir_sin) [97, 98]) [0..<nblocks (din dir_sin)] = Some 1"
    using dir_entries by (simp add: entry_named_def upt_rec) (simp add: dir_sin_def demo_din_def)
  with dirent_search_exact [of dir_fs dir_sin "[97, 98]"] dir_wf dir_entries
  show ?thesis by (simp add: upt_rec dir_sin_def)
qed

end
