(* ===== verification/Vfs.thy ===== *)
theory Vfs
  imports Sfs
begin

text \<open>
  The virtual file system (\<^verbatim>\<open>kern/fs/vfs/\<close>) with its inodes and reference counts, the devices \<^verbatim>\<open>stdin\<close>,
  \<^verbatim>\<open>stdout\<close> and \<^verbatim>\<open>disk0\<close> (\<^verbatim>\<open>kern/fs/devs/\<close>), and the operations of \<^verbatim>\<open>sfs_inode.c\<close> and \<^verbatim>\<open>sfs_fs.c\<close> on the table of inodes in
  memory. An inode is named by a number, the address that \<^verbatim>\<open>kmalloc\<close> returned; a freed one is \<open>None\<close>, and using it
  is \<open>Inl Bad_pointer\<close>. Which calls of \<^verbatim>\<open>kmalloc\<close> succeed is an argument. The one mounted file system is a field
  of the state, so a pointer to a \<^verbatim>\<open>struct fs\<close> is a flag. Lists are given by their elements in the order of the
  links. The system has one keyboard: the future of the console is a list of the characters typed while the
  reader sleeps.
\<close>

section \<open>State\<close>

datatype device = Dev_stdin | Dev_stdout | Dev_disk0

datatype inode_ops = dev_node_ops | sfs_node_dirops | sfs_node_fileops

datatype in_info = Device_info device | Sfs_inode_info sfs_inode

record inode =
  in_info :: in_info
  ref_count :: int
  open_count :: int
  in_fs :: bool
  in_ops :: inode_ops

record vfs_dev =
  devname :: "u8 list"
  devnode :: "nat option"
  vdev_fs :: bool
  mountable :: bool

record stdin_dev =
  stdin_buffer :: "u8 list"
  p_rpos :: u32
  p_wpos :: u32
  typed :: "(u8 list \<times> bool) list"

record vfs =
  sfs :: sfs_fs
  inodes :: "nat \<Rightarrow> inode option"
  bootfs_node :: "nat option"
  vdev_list :: "vfs_dev list"
  stdin_st :: stdin_dev
  console :: "u8 list"

definition inode_at :: "vfs \<Rightarrow> nat \<Rightarrow> kpanic + inode" where
  "inode_at s n = (case inodes s n of Some nd \<Rightarrow> Inr nd | None \<Rightarrow> Inl Bad_pointer)"

definition set_inode :: "nat \<Rightarrow> inode \<Rightarrow> vfs \<Rightarrow> vfs" where
  "set_inode n nd s = s\<lparr>inodes := (inodes s)(n := Some nd)\<rparr>"

text \<open>\<^verbatim>\<open>vop_info(node, sfs_inode)\<close> and \<^verbatim>\<open>vop_info(node, device)\<close>, with the assertion on the type of the inode.\<close>

definition sfs_info :: "inode \<Rightarrow> kpanic + sfs_inode" where
  "sfs_info nd = (case in_info nd of Sfs_inode_info sin \<Rightarrow> Inr sin | Device_info _ \<Rightarrow> Inl Assert_failed)"

definition device_info :: "inode \<Rightarrow> kpanic + device" where
  "device_info nd = (case in_info nd of Device_info d \<Rightarrow> Inr d | Sfs_inode_info _ \<Rightarrow> Inl Assert_failed)"

text \<open>The write-back of the parts of the state an operation on the inode \<open>n\<close> of the file system has changed.\<close>

definition put_sin :: "nat \<Rightarrow> sfs_fs \<Rightarrow> sfs_inode \<Rightarrow> vfs \<Rightarrow> vfs" where
  "put_sin n f sin s =
     (case inodes s n of
        Some nd \<Rightarrow> set_inode n (nd\<lparr>in_info := Sfs_inode_info sin\<rparr>) (s\<lparr>sfs := f\<rparr>)
      | None \<Rightarrow> s\<lparr>sfs := f\<rparr>)"

section \<open>The operation tables\<close>

datatype vop = Vop_open | Vop_close | Vop_read | Vop_write | Vop_fstat | Vop_fsync | Vop_namefile | Vop_getdirentry
  | Vop_reclaim | Vop_gettype | Vop_tryseek | Vop_truncate | Vop_create | Vop_lookup | Vop_ioctl

fun vops_of :: "inode_ops \<Rightarrow> vop list" where
  "vops_of dev_node_ops =
     [Vop_open, Vop_close, Vop_read, Vop_write, Vop_fstat, Vop_ioctl, Vop_gettype, Vop_tryseek, Vop_lookup]"
| "vops_of sfs_node_dirops =
     [Vop_open, Vop_close, Vop_fstat, Vop_fsync, Vop_namefile, Vop_getdirentry, Vop_reclaim, Vop_gettype, Vop_lookup]"
| "vops_of sfs_node_fileops =
     [Vop_open, Vop_close, Vop_read, Vop_write, Vop_fstat, Vop_fsync, Vop_reclaim, Vop_gettype, Vop_tryseek, Vop_truncate]"

abbreviation (input) MAX_INODE_COUNT :: int where "MAX_INODE_COUNT \<equiv> 0x10000"

definition inode_check :: "inode \<Rightarrow> bool" where
  "inode_check nd \<longleftrightarrow> open_count nd \<le> ref_count nd \<and> 0 \<le> open_count nd \<and>
     ref_count nd < MAX_INODE_COUNT \<and> open_count nd < MAX_INODE_COUNT"

text \<open>\<^verbatim>\<open>__vop_op(node, sym)\<close>: the operation exists and the inode passes its check.\<close>

definition vop_op :: "vfs \<Rightarrow> nat \<Rightarrow> vop \<Rightarrow> kpanic + inode" where
  "vop_op s n v =
     bindE (inode_at s n) (\<lambda>nd.
     bindE (assertE (v \<in> set (vops_of (in_ops nd)))) (\<lambda>_.
     bindE (assertE (inode_check nd)) (\<lambda>_. Inr nd)))"

section \<open>Reference counts\<close>

definition inode_init :: "in_info \<Rightarrow> inode_ops \<Rightarrow> bool \<Rightarrow> inode" where
  "inode_init i ops fs = \<lparr>in_info = i, ref_count = 0 + 1, open_count = 0, in_fs = fs, in_ops = ops\<rparr>"

definition inode_kill :: "vfs \<Rightarrow> nat \<Rightarrow> kpanic + vfs" where
  "inode_kill s n =
     bindE (inode_at s n) (\<lambda>nd.
     bindE (assertE (ref_count nd = 0)) (\<lambda>_. bindE (assertE (open_count nd = 0)) (\<lambda>_.
     Inr (s\<lparr>inodes := (inodes s)(n := None)\<rparr>))))"

definition inode_ref_inc :: "vfs \<Rightarrow> nat \<Rightarrow> kpanic + (vfs \<times> int)" where
  "inode_ref_inc s n =
     bindE (inode_at s n) (\<lambda>nd. Inr (set_inode n (nd\<lparr>ref_count := ref_count nd + 1\<rparr>) s, ref_count nd + 1))"

definition inode_open_inc :: "vfs \<Rightarrow> nat \<Rightarrow> kpanic + (vfs \<times> int)" where
  "inode_open_inc s n =
     bindE (inode_at s n) (\<lambda>nd. Inr (set_inode n (nd\<lparr>open_count := open_count nd + 1\<rparr>) s, open_count nd + 1))"

section \<open>Operations on inodes of the file system\<close>

definition vop_fsync :: "vfs \<Rightarrow> nat \<Rightarrow> kpanic + (vfs \<times> int)" where
  "vop_fsync s n =
     bindE (vop_op s n Vop_fsync) (\<lambda>nd. bindE (sfs_info nd) (\<lambda>sin.
     bindE (sfs_fsync (sfs s) sin) (\<lambda>(f, sin, ret). Inr (put_sin n f sin s, ret))))"

definition vop_truncate :: "vfs \<Rightarrow> nat \<Rightarrow> u32 \<Rightarrow> kpanic + (vfs \<times> int)" where
  "vop_truncate s n len =
     bindE (vop_op s n Vop_truncate) (\<lambda>nd. bindE (sfs_info nd) (\<lambda>sin.
     bindE (sfs_truncfile (sfs s) sin len) (\<lambda>(f, sin, ret). Inr (put_sin n f sin s, ret))))"

definition sin_hashfn :: "u32 \<Rightarrow> u32" where
  "sin_hashfn x = hash32 x 10"

definition sfs_set_links :: "sfs_fs \<Rightarrow> nat \<Rightarrow> u32 \<Rightarrow> sfs_fs" where
  "sfs_set_links f n x = f\<lparr>inode_list := n # inode_list f,
     hash_list := (hash_list f)(sin_hashfn x := n # hash_list f (sin_hashfn x))\<rparr>"

definition sfs_remove_links :: "sfs_fs \<Rightarrow> nat \<Rightarrow> u32 \<Rightarrow> sfs_fs" where
  "sfs_remove_links f n x = f\<lparr>inode_list := remove1 n (inode_list f),
     hash_list := (hash_list f)(sin_hashfn x := remove1 n (hash_list f (sin_hashfn x)))\<rparr>"

text \<open>\<^verbatim>\<open>sfs_reclaim\<close>; the part from the removal of the links on is \<open>sfs_reclaim_free\<close>.\<close>

definition sfs_reclaim_free :: "vfs \<Rightarrow> nat \<Rightarrow> kpanic + (vfs \<times> int)" where
  "sfs_reclaim_free s n =
     bindE (inode_at s n) (\<lambda>nd. bindE (sfs_info nd) (\<lambda>sin.
     let f = sfs_remove_links (sfs s) n (ino sin) in
     bindE
       (if nlinks (din sin) = 0 then
          bindE (sfs_block_free f (ino sin)) (\<lambda>f.
          if indirect (din sin) \<noteq> 0 then sfs_block_free f (indirect (din sin)) else Inr f)
        else Inr f) (\<lambda>f.
     bindE (inode_kill (s\<lparr>sfs := f\<rparr>) n) (\<lambda>s. Inr (s, 0)))))"

definition sfs_reclaim :: "vfs \<Rightarrow> nat \<Rightarrow> kpanic + (vfs \<times> int)" where
  "sfs_reclaim s n =
     bindE (inode_at s n) (\<lambda>nd. bindE (sfs_info nd) (\<lambda>sin.
     bindE (assertE (0 < reclaim_count sin)) (\<lambda>_.
     let s = put_sin n (sfs s) (sin\<lparr>reclaim_count := reclaim_count sin - 1\<rparr>) s in
     if reclaim_count sin - 1 \<noteq> 0 \<or> ref_count nd \<noteq> 0 then Inr (s, - E_BUSY)
     else
       bindE (if nlinks (din sin) = 0 then vop_truncate s n 0 else Inr (s, 0)) (\<lambda>(s, ret).
       if ret \<noteq> 0 then Inr (s, ret)
       else
         bindE (inode_at s n) (\<lambda>nd. bindE (sfs_info nd) (\<lambda>sin.
         bindE (if dirty sin then vop_fsync s n else Inr (s, 0)) (\<lambda>(s, ret).
         if ret \<noteq> 0 then Inr (s, ret) else sfs_reclaim_free s n)))))))"

definition vop_reclaim :: "vfs \<Rightarrow> nat \<Rightarrow> kpanic + (vfs \<times> int)" where
  "vop_reclaim s n = bindE (vop_op s n Vop_reclaim) (\<lambda>_. sfs_reclaim s n)"

definition inode_ref_dec :: "vfs \<Rightarrow> nat \<Rightarrow> kpanic + (vfs \<times> int)" where
  "inode_ref_dec s n =
     bindE (inode_at s n) (\<lambda>nd. bindE (assertE (0 < ref_count nd)) (\<lambda>_.
     let s = set_inode n (nd\<lparr>ref_count := ref_count nd - 1\<rparr>) s in
     if ref_count nd - 1 = 0 then bindE (vop_reclaim s n) (\<lambda>(s, _). Inr (s, 0))
     else Inr (s, ref_count nd - 1)))"

definition vop_close :: "vfs \<Rightarrow> nat \<Rightarrow> kpanic + (vfs \<times> int)" where
  "vop_close s n =
     bindE (vop_op s n Vop_close) (\<lambda>nd.
     if in_ops nd = dev_node_ops then bindE (device_info nd) (\<lambda>_. Inr (s, 0)) else vop_fsync s n)"

definition inode_open_dec :: "vfs \<Rightarrow> nat \<Rightarrow> kpanic + (vfs \<times> int)" where
  "inode_open_dec s n =
     bindE (inode_at s n) (\<lambda>nd. bindE (assertE (0 < open_count nd)) (\<lambda>_.
     let s = set_inode n (nd\<lparr>open_count := open_count nd - 1\<rparr>) s in
     if open_count nd - 1 = 0 then bindE (vop_close s n) (\<lambda>(s, _). Inr (s, 0))
     else Inr (s, open_count nd - 1)))"

section \<open>The inodes in memory\<close>

text \<open>\<^verbatim>\<open>sfs_get_ops\<close> and \<^verbatim>\<open>sfs_create_inode\<close>; \<open>addr\<close> is the result of \<^verbatim>\<open>kmalloc\<close> for the inode.\<close>

definition sfs_get_ops :: "u16 \<Rightarrow> kpanic + inode_ops" where
  "sfs_get_ops t =
     (if t = SFS_TYPE_DIR then Inr sfs_node_dirops
      else if t = SFS_TYPE_FILE then Inr sfs_node_fileops else Inl Panicked)"

definition sfs_create_inode :: "vfs \<Rightarrow> sfs_disk_inode \<Rightarrow> u32 \<Rightarrow> nat option \<Rightarrow> kpanic + (vfs \<times> int)" where
  "sfs_create_inode s d x addr =
     (case addr of
        None \<Rightarrow> Inr (s, - E_NO_MEM)
      | Some n \<Rightarrow>
          bindE (sfs_get_ops (dtype d)) (\<lambda>ops.
          Inr (set_inode n (inode_init (Sfs_inode_info \<lparr>din = d, ino = x, dirty = False, reclaim_count = 1\<rparr>) ops True) s, 0)))"

fun find_sin :: "vfs \<Rightarrow> u32 \<Rightarrow> nat list \<Rightarrow> kpanic + nat option" where
  "find_sin s x [] = Inr None"
| "find_sin s x (n # ns) =
     bindE (inode_at s n) (\<lambda>nd. bindE (sfs_info nd) (\<lambda>sin.
     if ino sin = x then Inr (Some n) else find_sin s x ns))"

definition lookup_sfs_nolock :: "vfs \<Rightarrow> u32 \<Rightarrow> kpanic + (vfs \<times> nat option)" where
  "lookup_sfs_nolock s x =
     bindE (find_sin s x (hash_list (sfs s) (sin_hashfn x))) (\<lambda>r.
     case r of
       None \<Rightarrow> Inr (s, None)
     | Some n \<Rightarrow>
         bindE (inode_ref_inc s n) (\<lambda>(s, c).
         bindE (inode_at s n) (\<lambda>nd. bindE (sfs_info nd) (\<lambda>sin.
         Inr (if c = 1 then put_sin n (sfs s) (sin\<lparr>reclaim_count := reclaim_count sin + 1\<rparr>) s else s, Some n)))))"

text \<open>
  The outcomes of the calls of \<^verbatim>\<open>kmalloc\<close> on the way to an inode: for a directory entry, and for the disk inode and
  the inode with a given number.
\<close>

record kmem =
  entry_mem :: bool
  din_mem :: "u32 \<Rightarrow> bool"
  inode_mem :: "u32 \<Rightarrow> nat option"

definition sfs_load_inode :: "vfs \<Rightarrow> u32 \<Rightarrow> kmem \<Rightarrow> kpanic + (vfs \<times> int \<times> nat option)" where
  "sfs_load_inode s x m =
     bindE (lookup_sfs_nolock s x) (\<lambda>(s, r).
     case r of
       Some n \<Rightarrow> Inr (s, 0, Some n)
     | None \<Rightarrow>
         if \<not> din_mem m x then Inr (s, - E_NO_MEM, None)
         else
           bindE (sfs_block_inuse (sfs s) x) (\<lambda>b. bindE (assertE b) (\<lambda>_.
           bindE (sfs_rbuf (sfs s) (replicate 64 0) 0 64 x 0) (\<lambda>(f, dat, ret).
           let s = s\<lparr>sfs := f\<rparr>; d = read_din dat in
           if ret \<noteq> 0 then Inr (s, ret, None)
           else
             bindE (assertE (nlinks d \<noteq> 0)) (\<lambda>_.
             bindE (sfs_create_inode s d x (inode_mem m x)) (\<lambda>(s, ret).
             if ret \<noteq> 0 then Inr (s, ret, None)
             else
               (case inode_mem m x of
                  None \<Rightarrow> Inr (s, ret, None)
                | Some n \<Rightarrow> Inr (s\<lparr>sfs := sfs_set_links (sfs s) n x\<rparr>, 0, Some n))))))))"

definition sfs_lookup_once :: "vfs \<Rightarrow> nat \<Rightarrow> u8 list \<Rightarrow> kmem \<Rightarrow> kpanic + (vfs \<times> int \<times> nat option)" where
  "sfs_lookup_once s n name m =
     bindE (inode_at s n) (\<lambda>nd. bindE (sfs_info nd) (\<lambda>sin.
     bindE (sfs_dirent_search_nolock (sfs s) sin name (entry_mem m)) (\<lambda>(f, sin, ret, r, _).
     let s = put_sin n f sin s in
     case r of
       Some (x, _) \<Rightarrow> if ret = 0 then sfs_load_inode s x m else Inr (s, ret, None)
     | None \<Rightarrow> Inr (s, ret, None))))"

text \<open>A path is the string without its terminator, so that the first character of the empty one is the terminator.\<close>

abbreviation (input) FS_MAX_DNAME_LEN :: nat where "FS_MAX_DNAME_LEN \<equiv> 31"
abbreviation (input) slash :: u8 where "slash \<equiv> 0x2F"
abbreviation (input) colon :: u8 where "colon \<equiv> 0x3A"

definition sfs_lookup :: "vfs \<Rightarrow> nat \<Rightarrow> u8 list \<Rightarrow> kmem \<Rightarrow> kpanic + (vfs \<times> int \<times> nat option)" where
  "sfs_lookup s n path m =
     bindE (assertE (path \<noteq> [] \<and> hd path \<noteq> slash)) (\<lambda>_.
     bindE (inode_ref_inc s n) (\<lambda>(s, _).
     bindE (inode_at s n) (\<lambda>nd. bindE (sfs_info nd) (\<lambda>sin.
     if dtype (din sin) \<noteq> SFS_TYPE_DIR then
       bindE (inode_ref_dec s n) (\<lambda>(s, _). Inr (s, - E_NOTDIR, None))
     else
       bindE (sfs_lookup_once s n path m) (\<lambda>(s, ret, r).
       bindE (inode_ref_dec s n) (\<lambda>(s, _).
       Inr (s, ret, if ret \<noteq> 0 then None else r)))))))"

fun sync_inodes :: "vfs \<Rightarrow> nat list \<Rightarrow> kpanic + vfs" where
  "sync_inodes s [] = Inr s"
| "sync_inodes s (n # ns) = bindE (vop_fsync s n) (\<lambda>(s, _). sync_inodes s ns)"

definition sfs_sync :: "vfs \<Rightarrow> kpanic + (vfs \<times> int)" where
  "sfs_sync s =
     bindE (sync_inodes s (inode_list (sfs s))) (\<lambda>s.
     if super_dirty (sfs s) then
       bindE (sfs_sync_super ((sfs s)\<lparr>super_dirty := False\<rparr>)) (\<lambda>(f, ret).
       if ret \<noteq> 0 then Inr (s\<lparr>sfs := f\<lparr>super_dirty := True\<rparr>\<rparr>, ret)
       else
         bindE (sfs_sync_freemap f) (\<lambda>(f, ret).
         if ret \<noteq> 0 then Inr (s\<lparr>sfs := f\<lparr>super_dirty := True\<rparr>\<rparr>, ret)
         else Inr (s\<lparr>sfs := f\<rparr>, 0)))
     else Inr (s, 0))"

definition sfs_get_root :: "vfs \<Rightarrow> kmem \<Rightarrow> kpanic + (vfs \<times> nat)" where
  "sfs_get_root s m =
     bindE (sfs_load_inode s SFS_BLKN_ROOT m) (\<lambda>(s, ret, r).
     case r of Some n \<Rightarrow> (if ret = 0 then Inr (s, n) else Inl Panicked) | None \<Rightarrow> Inl Panicked)"

fun sfs_cleanup :: "nat \<Rightarrow> vfs \<Rightarrow> kpanic + vfs" where
  "sfs_cleanup 0 s = Inr s"
| "sfs_cleanup (Suc i) s = bindE (sfs_sync s) (\<lambda>(s, ret). if ret = 0 then Inr s else sfs_cleanup i s)"

section \<open>Devices\<close>

abbreviation (input) STDIN_BUFSIZE :: u32 where "STDIN_BUFSIZE \<equiv> 4096"

text \<open>The index \<^verbatim>\<open>p % STDIN_BUFSIZE\<close> of a signed position.\<close>

definition stdin_index :: "u32 \<Rightarrow> kpanic + nat" where
  "stdin_index p = (if sint p < 0 \<and> p mod STDIN_BUFSIZE \<noteq> 0 then Inl Out_of_bounds else Inr (unat (p mod STDIN_BUFSIZE)))"

text \<open>The wakeup of the sleeping reader is left to the scheduler.\<close>

definition dev_stdin_write :: "stdin_dev \<Rightarrow> u8 \<Rightarrow> kpanic + stdin_dev" where
  "dev_stdin_write t c =
     (if c \<noteq> 0 then
        bindE (stdin_index (p_wpos t)) (\<lambda>i.
        let t = t\<lparr>stdin_buffer := (stdin_buffer t)[i := c]\<rparr> in
        Inr (if sint (p_wpos t - p_rpos t) < 4096 then t\<lparr>p_wpos := p_wpos t + 1\<rparr> else t))
      else Inr t)"

fun type_chars :: "stdin_dev \<Rightarrow> u8 list \<Rightarrow> kpanic + stdin_dev" where
  "type_chars t [] = Inr t"
| "type_chars t (c # cs) = bindE (dev_stdin_write t c) (\<lambda>t. type_chars t cs)"

text \<open>
  The loop of \<^verbatim>\<open>dev_stdin_read\<close>: a character when there is one; otherwise the process sleeps while the next
  characters are typed and, if it was woken by the keyboard, tries again. With no future left it sleeps forever.
  The result is the device, the characters stored and the count.
\<close>

function stdin_read_loop :: "stdin_dev \<Rightarrow> nat \<Rightarrow> u8 list \<Rightarrow> kpanic + (stdin_dev \<times> u8 list)" where
  "stdin_read_loop t len acc =
     (if length acc < len then
        if sint (p_rpos t) < sint (p_wpos t) then
          bindE (stdin_index (p_rpos t)) (\<lambda>i.
          stdin_read_loop (t\<lparr>p_rpos := p_rpos t + 1\<rparr>) len (acc @ [stdin_buffer t ! i]))
        else
          (case typed t of
             [] \<Rightarrow> Inl Fuel_exhausted
           | (cs, by_kbd) # w \<Rightarrow>
               (case type_chars t cs of
                  Inl e \<Rightarrow> Inl e
                | Inr t' \<Rightarrow> if by_kbd then stdin_read_loop (t'\<lparr>typed := w\<rparr>) len acc else Inr (t'\<lparr>typed := w\<rparr>, acc)))
      else Inr (t, acc))"
  by pat_completeness auto
termination
  by (relation "measures [\<lambda>(t, len, acc). length (typed t), \<lambda>(t, len, acc). len - length acc]") auto

declare stdin_read_loop.simps [simp del]

definition dev_stdin_read :: "stdin_dev \<Rightarrow> u32 \<Rightarrow> kpanic + (stdin_dev \<times> u8 list)" where
  "dev_stdin_read t len = stdin_read_loop t (unat len) []"

definition stdin_io :: "vfs \<Rightarrow> iobuf \<Rightarrow> bool \<Rightarrow> kpanic + (vfs \<times> iobuf \<times> int)" where
  "stdin_io s iob write =
     (if write then Inr (s, iob, - E_INVAL)
      else
        bindE (dev_stdin_read (stdin_st s) (io_resid iob)) (\<lambda>(t, cs).
        Inr (s\<lparr>stdin_st := t\<rparr>,
          iob\<lparr>io_mem := put_bytes (io_base iob) cs (io_mem iob), io_resid := io_resid iob - of_nat (length cs)\<rparr>,
          int (length cs))))"

definition stdout_io :: "vfs \<Rightarrow> iobuf \<Rightarrow> bool \<Rightarrow> vfs \<times> iobuf \<times> int" where
  "stdout_io s iob write =
     (if write then
        (s\<lparr>console := console s @ take (unat (io_resid iob)) (drop (io_base iob) (io_mem iob))\<rparr>, iob\<lparr>io_resid := 0\<rparr>, 0)
      else (s, iob, - E_INVAL))"

definition dop_open :: "device \<Rightarrow> u32 \<Rightarrow> int" where
  "dop_open d open_flags =
     (case d of
        Dev_stdin \<Rightarrow> if open_flags \<noteq> O_RDONLY then - E_INVAL else 0
      | Dev_stdout \<Rightarrow> if open_flags \<noteq> O_WRONLY then - E_INVAL else 0
      | Dev_disk0 \<Rightarrow> 0)"

definition dop_io :: "device \<Rightarrow> vfs \<Rightarrow> iobuf \<Rightarrow> bool \<Rightarrow> kpanic + (vfs \<times> iobuf \<times> int)" where
  "dop_io d s iob write =
     (case d of
        Dev_stdin \<Rightarrow> stdin_io s iob write
      | Dev_stdout \<Rightarrow> Inr (stdout_io s iob write)
      | Dev_disk0 \<Rightarrow>
          bindE (disk0_io (disk (sfs s)) iob write) (\<lambda>(img, iob, ret). Inr (s\<lparr>sfs := (sfs s)\<lparr>disk := img\<rparr>\<rparr>, iob, ret)))"

definition d_blocks :: "device \<Rightarrow> u32" where
  "d_blocks d = (case d of Dev_disk0 \<Rightarrow> d_blocks_disk0 | _ \<Rightarrow> 0)"

definition d_blocksize :: "device \<Rightarrow> u32" where
  "d_blocksize d = (case d of Dev_disk0 \<Rightarrow> DISK0_BLKSIZE | _ \<Rightarrow> 1)"

definition dev_open :: "device \<Rightarrow> u32 \<Rightarrow> int" where
  "dev_open d open_flags =
     (if open_flags AND (O_CREAT OR O_TRUNC OR O_EXCL OR O_APPEND) \<noteq> 0 then - E_INVAL else dop_open d open_flags)"

definition dev_gettype :: "device \<Rightarrow> u32" where
  "dev_gettype d = (if 0 < d_blocks d then 0x5000 else 0x4000)"

definition dev_tryseek :: "device \<Rightarrow> u32 \<Rightarrow> kpanic + int" where
  "dev_tryseek d pos =
     (if 0 < d_blocks d then
        bindE (assertE (d_blocksize d = 4096)) (\<lambda>_.
        Inr (if pos AND 0xfff = 0 \<and> 0 \<le> sint pos \<and> pos < d_blocks d * d_blocksize d then 0 else - E_INVAL))
      else Inr (- E_INVAL))"

section \<open>The operations through the tables\<close>

definition vop_open :: "vfs \<Rightarrow> nat \<Rightarrow> u32 \<Rightarrow> kpanic + int" where
  "vop_open s n open_flags =
     bindE (vop_op s n Vop_open) (\<lambda>nd.
     case in_ops nd of
       dev_node_ops \<Rightarrow> bindE (device_info nd) (\<lambda>d. Inr (dev_open d open_flags))
     | sfs_node_dirops \<Rightarrow> Inr (sfs_opendir open_flags)
     | sfs_node_fileops \<Rightarrow> Inr (sfs_openfile open_flags))"

definition vop_rw :: "bool \<Rightarrow> vfs \<Rightarrow> nat \<Rightarrow> iobuf \<Rightarrow> kpanic + (vfs \<times> iobuf \<times> int)" where
  "vop_rw write s n iob =
     bindE (vop_op s n (if write then Vop_write else Vop_read)) (\<lambda>nd.
     if in_ops nd = dev_node_ops then bindE (device_info nd) (\<lambda>d. dop_io d s iob write)
     else
       bindE (sfs_info nd) (\<lambda>sin.
       bindE (sfs_io write (sfs s) sin iob) (\<lambda>(f, sin, iob, ret). Inr (put_sin n f sin s, iob, ret))))"

definition vop_read :: "vfs \<Rightarrow> nat \<Rightarrow> iobuf \<Rightarrow> kpanic + (vfs \<times> iobuf \<times> int)" where
  "vop_read = vop_rw False"

definition vop_write :: "vfs \<Rightarrow> nat \<Rightarrow> iobuf \<Rightarrow> kpanic + (vfs \<times> iobuf \<times> int)" where
  "vop_write = vop_rw True"

definition vop_gettype :: "vfs \<Rightarrow> nat \<Rightarrow> kpanic + (int \<times> u32)" where
  "vop_gettype s n =
     bindE (vop_op s n Vop_gettype) (\<lambda>nd.
     if in_ops nd = dev_node_ops then bindE (device_info nd) (\<lambda>d. Inr (0, dev_gettype d))
     else bindE (sfs_info nd) sfs_gettype)"

record stat =
  st_mode :: u32
  st_nlinks :: u32
  st_blocks :: u32
  st_size :: u32

definition vop_fstat :: "vfs \<Rightarrow> nat \<Rightarrow> kpanic + (int \<times> stat)" where
  "vop_fstat s n =
     bindE (vop_op s n Vop_fstat) (\<lambda>nd.
     bindE (vop_gettype s n) (\<lambda>(ret, mode).
     if ret \<noteq> 0 then Inr (ret, \<lparr>st_mode = mode, st_nlinks = 0, st_blocks = 0, st_size = 0\<rparr>)
     else if in_ops nd = dev_node_ops then
       bindE (device_info nd) (\<lambda>d.
       Inr (0, \<lparr>st_mode = mode, st_nlinks = 1, st_blocks = d_blocks d, st_size = d_blocks d * d_blocksize d\<rparr>))
     else
       bindE (sfs_info nd) (\<lambda>sin.
       Inr (0, \<lparr>st_mode = mode, st_nlinks = ucast (nlinks (din sin)), st_blocks = dblocks (din sin), st_size = dsize (din sin)\<rparr>))))"

definition vop_tryseek :: "vfs \<Rightarrow> nat \<Rightarrow> u32 \<Rightarrow> kpanic + (vfs \<times> int)" where
  "vop_tryseek s n pos =
     bindE (vop_op s n Vop_tryseek) (\<lambda>nd.
     if in_ops nd = dev_node_ops then bindE (device_info nd) (\<lambda>d. bindE (dev_tryseek d pos) (\<lambda>ret. Inr (s, ret)))
     else
       bindE (sfs_info nd) (\<lambda>sin.
       bindE (sfs_tryseek (sfs s) sin pos) (\<lambda>(f, sin, ret). Inr (put_sin n f sin s, ret))))"

definition vop_getdirentry :: "vfs \<Rightarrow> nat \<Rightarrow> iobuf \<Rightarrow> bool \<Rightarrow> kpanic + (vfs \<times> iobuf \<times> int)" where
  "vop_getdirentry s n iob entry_ok =
     bindE (vop_op s n Vop_getdirentry) (\<lambda>nd. bindE (sfs_info nd) (\<lambda>sin.
     bindE (sfs_getdirentry (sfs s) sin iob entry_ok) (\<lambda>(f, sin, iob, ret). Inr (put_sin n f sin s, iob, ret))))"

definition dev_lookup :: "vfs \<Rightarrow> nat \<Rightarrow> u8 list \<Rightarrow> kpanic + (vfs \<times> int \<times> nat option)" where
  "dev_lookup s n path =
     (if path \<noteq> [] then Inr (s, - E_NOENT, None) else bindE (inode_ref_inc s n) (\<lambda>(s, _). Inr (s, 0, Some n)))"

definition vop_lookup :: "vfs \<Rightarrow> nat \<Rightarrow> u8 list \<Rightarrow> kmem \<Rightarrow> kpanic + (vfs \<times> int \<times> nat option)" where
  "vop_lookup s n path m =
     bindE (vop_op s n Vop_lookup) (\<lambda>nd.
     if in_ops nd = dev_node_ops then dev_lookup s n path else sfs_lookup s n path m)"

section \<open>The device list\<close>

definition check_devname_conflict :: "vfs \<Rightarrow> u8 list \<Rightarrow> bool" where
  "check_devname_conflict s name = list_all (\<lambda>v. devname v \<noteq> name) (vdev_list s)"

definition vfs_do_add ::
  "vfs \<Rightarrow> u8 list \<Rightarrow> nat option \<Rightarrow> bool \<Rightarrow> bool \<Rightarrow> bool \<Rightarrow> bool \<Rightarrow> kpanic + (vfs \<times> int)" where
  "vfs_do_add s name node fs mnt strdup_ok vdev_ok =
     bindE
       (case node of
          None \<Rightarrow> assertE (\<not> mnt)
        | Some n \<Rightarrow> bindE (inode_at s n) (\<lambda>nd. bindE (device_info nd) (\<lambda>_. Inr ()))) (\<lambda>_.
     if FS_MAX_DNAME_LEN < length name then Inr (s, - E_TOO_BIG)
     else if \<not> strdup_ok \<or> \<not> vdev_ok then Inr (s, - E_NO_MEM)
     else if \<not> check_devname_conflict s name then Inr (s, - E_EXISTS)
     else Inr (s\<lparr>vdev_list := \<lparr>devname = name, devnode = node, vdev_fs = fs, mountable = mnt\<rparr> # vdev_list s\<rparr>, 0))"

definition vfs_add_fs :: "vfs \<Rightarrow> u8 list \<Rightarrow> bool \<Rightarrow> bool \<Rightarrow> kpanic + (vfs \<times> int)" where
  "vfs_add_fs s name strdup_ok vdev_ok = vfs_do_add s name None True False strdup_ok vdev_ok"

definition vfs_add_dev :: "vfs \<Rightarrow> u8 list \<Rightarrow> nat \<Rightarrow> bool \<Rightarrow> bool \<Rightarrow> bool \<Rightarrow> kpanic + (vfs \<times> int)" where
  "vfs_add_dev s name node mnt strdup_ok vdev_ok = vfs_do_add s name (Some node) False mnt strdup_ok vdev_ok"

definition dev_create_inode :: "vfs \<Rightarrow> device \<Rightarrow> nat option \<Rightarrow> vfs \<times> nat option" where
  "dev_create_inode s d addr =
     (case addr of
        None \<Rightarrow> (s, None)
      | Some n \<Rightarrow> (set_inode n (inode_init (Device_info d) dev_node_ops False) s, Some n))"

text \<open>\<^verbatim>\<open>dev_init_stdin\<close>, \<^verbatim>\<open>dev_init_stdout\<close> and \<^verbatim>\<open>dev_init_disk0\<close> differ in the device, its name and whether it can be mounted.\<close>

definition dev_init_one :: "vfs \<Rightarrow> device \<Rightarrow> u8 list \<Rightarrow> bool \<Rightarrow> nat option \<Rightarrow> bool \<Rightarrow> bool \<Rightarrow> kpanic + vfs" where
  "dev_init_one s d name mnt addr strdup_ok vdev_ok =
     (case dev_create_inode s d addr of
        (s, None) \<Rightarrow> Inl Panicked
      | (s, Some n) \<Rightarrow>
          bindE (vfs_add_dev s name n mnt strdup_ok vdev_ok) (\<lambda>(s, ret). if ret \<noteq> 0 then Inl Panicked else Inr s))"

definition find_mount :: "vfs \<Rightarrow> u8 list \<Rightarrow> vfs_dev option" where
  "find_mount s name = find (\<lambda>v. mountable v \<and> devname v = name) (vdev_list s)"

definition set_vdev_fs :: "u8 list \<Rightarrow> bool \<Rightarrow> vfs \<Rightarrow> vfs" where
  "set_vdev_fs name b s =
     s\<lparr>vdev_list := map (\<lambda>v. if mountable v \<and> devname v = name then v\<lparr>vdev_fs := b\<rparr> else v) (vdev_list s)\<rparr>"

text \<open>\<^verbatim>\<open>vfs_mount\<close> with \<^verbatim>\<open>sfs_do_mount\<close>, the only mount function; it refuses devices with another block size.\<close>

definition vfs_mount :: "vfs \<Rightarrow> u8 list \<Rightarrow> mount_mem \<Rightarrow> kpanic + (vfs \<times> int)" where
  "vfs_mount s name m =
     (case find_mount s name of
        None \<Rightarrow> Inr (s, - E_NO_DEV)
      | Some v \<Rightarrow>
          if vdev_fs v then Inr (s, - E_BUSY)
          else
            (case devnode v of
               None \<Rightarrow> Inl Assert_failed
             | Some n \<Rightarrow>
                 bindE (inode_at s n) (\<lambda>nd. bindE (device_info nd) (\<lambda>d.
                 if d_blocksize d \<noteq> SFS_BLKSIZE then Inr (s, - E_NA_DEV)
                 else
                   bindE (sfs_do_mount (disk (sfs s)) m) (\<lambda>(ret, r).
                   case r of
                     Some f \<Rightarrow> Inr (set_vdev_fs name True (s\<lparr>sfs := f\<rparr>), ret)
                   | None \<Rightarrow> Inr (s, ret))))))"

definition vfs_unmount :: "vfs \<Rightarrow> u8 list \<Rightarrow> kpanic + (vfs \<times> int)" where
  "vfs_unmount s name =
     (case find_mount s name of
        None \<Rightarrow> Inr (s, - E_NO_DEV)
      | Some v \<Rightarrow>
          if \<not> vdev_fs v then Inr (s, - E_INVAL)
          else
            bindE (sfs_sync s) (\<lambda>(s, ret).
            if ret \<noteq> 0 then Inr (s, ret)
            else
              bindE (sfs_unmount (sfs s)) (\<lambda>ret.
              Inr (if ret = 0 then set_vdev_fs name False s else s, ret))))"

fun unmount_all_loop :: "vfs \<Rightarrow> vfs_dev list \<Rightarrow> kpanic + vfs" where
  "unmount_all_loop s [] = Inr s"
| "unmount_all_loop s (v # vs) =
     (if mountable v \<and> vdev_fs v then
        bindE (sfs_sync s) (\<lambda>(s, ret).
        if ret \<noteq> 0 then unmount_all_loop s vs
        else
          bindE (sfs_unmount (sfs s)) (\<lambda>ret.
          unmount_all_loop (if ret = 0 then set_vdev_fs (devname v) False s else s) vs))
      else unmount_all_loop s vs)"

definition vfs_unmount_all :: "vfs \<Rightarrow> kpanic + (vfs \<times> int)" where
  "vfs_unmount_all s = bindE (unmount_all_loop s (vdev_list s)) (\<lambda>s. Inr (s, 0))"

fun cleanup_loop :: "vfs \<Rightarrow> vfs_dev list \<Rightarrow> kpanic + vfs" where
  "cleanup_loop s [] = Inr s"
| "cleanup_loop s (v # vs) = bindE (if vdev_fs v then sfs_cleanup 32 s else Inr s) (\<lambda>s. cleanup_loop s vs)"

definition vfs_cleanup :: "vfs \<Rightarrow> kpanic + vfs" where
  "vfs_cleanup s = cleanup_loop s (vdev_list s)"

definition vfs_get_root :: "vfs \<Rightarrow> u8 list \<Rightarrow> kmem \<Rightarrow> kpanic + (vfs \<times> int \<times> nat option)" where
  "vfs_get_root s name m =
     (case find (\<lambda>v. devname v = name) (vdev_list s) of
        None \<Rightarrow> Inr (s, - E_NO_DEV, None)
      | Some v \<Rightarrow>
          if vdev_fs v then bindE (sfs_get_root s m) (\<lambda>(s, n). Inr (s, 0, Some n))
          else if \<not> mountable v then
            (case devnode v of
               None \<Rightarrow> Inl Null_deref
             | Some n \<Rightarrow> bindE (inode_ref_inc s n) (\<lambda>(s, _). Inr (s, 0, Some n)))
          else Inr (s, - E_NA_DEV, None))"

definition vfs_get_devname :: "vfs \<Rightarrow> u8 list option" where
  "vfs_get_devname s = map_option devname (find vdev_fs (vdev_list s))"

section \<open>Paths\<close>

text \<open>\<open>cwd\<close> is the working directory of the current process, \<^verbatim>\<open>current->filesp->pwd\<close>.\<close>

definition vfs_get_curdir :: "vfs \<Rightarrow> nat option \<Rightarrow> kpanic + (vfs \<times> int \<times> nat option)" where
  "vfs_get_curdir s cwd =
     (case cwd of
        Some n \<Rightarrow> bindE (inode_ref_inc s n) (\<lambda>(s, _). Inr (s, 0, Some n))
      | None \<Rightarrow> Inr (s, - E_NOENT, None))"

definition vfs_get_bootfs :: "vfs \<Rightarrow> kpanic + (vfs \<times> int \<times> nat option)" where
  "vfs_get_bootfs s =
     (case bootfs_node s of
        Some n \<Rightarrow> bindE (inode_ref_inc s n) (\<lambda>(s, _). Inr (s, 0, Some n))
      | None \<Rightarrow> Inr (s, - E_NOENT, None))"

text \<open>
  \<^verbatim>\<open>get_device\<close>: the part of the path before the first separator decides. The results are the return code, the
  inode, \<^verbatim>\<open>*subpath\<close> and the path itself, which a device name cuts off at its colon.
\<close>

definition get_device ::
  "vfs \<Rightarrow> nat option \<Rightarrow> u8 list \<Rightarrow> kmem \<Rightarrow> kpanic + (vfs \<times> int \<times> nat option \<times> u8 list \<times> u8 list)" where
  "get_device s cwd path m =
     (let pre = takeWhile (\<lambda>c. c \<noteq> colon \<and> c \<noteq> slash) path; rest = drop (length pre) path in
      if rest = [] \<or> hd rest = slash \<and> pre \<noteq> [] then
        bindE (vfs_get_curdir s cwd) (\<lambda>(s, ret, r). Inr (s, ret, r, path, path))
      else if pre \<noteq> [] then
        bindE (vfs_get_root s pre m) (\<lambda>(s, ret, r). Inr (s, ret, r, dropWhile (\<lambda>c. c = slash) (tl rest), pre))
      else
        bindE
          (if hd rest = slash then vfs_get_bootfs s
           else
             bindE (vfs_get_curdir s cwd) (\<lambda>(s, ret, r).
             case r of
               None \<Rightarrow> Inr (s, ret, None)
             | Some n \<Rightarrow>
                 bindE (inode_at s n) (\<lambda>nd. bindE (assertE (in_fs nd)) (\<lambda>_.
                 bindE (sfs_get_root s m) (\<lambda>(s, root).
                 bindE (inode_ref_dec s n) (\<lambda>(s, _). Inr (s, 0, Some root))))))) (\<lambda>(s, ret, r).
        Inr (s, ret, r, dropWhile (\<lambda>c. c = slash) (tl rest), path)))"

definition vfs_lookup ::
  "vfs \<Rightarrow> nat option \<Rightarrow> u8 list \<Rightarrow> kmem \<Rightarrow> kpanic + (vfs \<times> int \<times> nat option \<times> u8 list)" where
  "vfs_lookup s cwd path m =
     bindE (get_device s cwd path m) (\<lambda>(s, ret, r, sub, path).
     case r of
       None \<Rightarrow> Inr (s, ret, None, path)
     | Some n \<Rightarrow>
         if ret \<noteq> 0 then Inr (s, ret, None, path)
         else if sub \<noteq> [] then
           bindE (vop_lookup s n sub m) (\<lambda>(s, ret, r).
           bindE (inode_ref_dec s n) (\<lambda>(s, _). Inr (s, ret, r, path)))
         else Inr (s, 0, Some n, path))"

definition vfs_lookup_parent ::
  "vfs \<Rightarrow> nat option \<Rightarrow> u8 list \<Rightarrow> kmem \<Rightarrow> kpanic + (vfs \<times> int \<times> nat option \<times> u8 list)" where
  "vfs_lookup_parent s cwd path m =
     bindE (get_device s cwd path m) (\<lambda>(s, ret, r, sub, _). Inr (s, ret, if ret = 0 then r else None, sub))"

definition vfs_set_curdir :: "vfs \<Rightarrow> nat option \<Rightarrow> nat option \<Rightarrow> kpanic + (vfs \<times> nat option \<times> int)" where
  "vfs_set_curdir s cwd dir =
     (if cwd = dir then Inr (s, cwd, 0)
      else
        bindE
          (case dir of
             None \<Rightarrow> Inr (s, 0)
           | Some n \<Rightarrow>
               bindE (vop_gettype s n) (\<lambda>(ret, t).
               if ret \<noteq> 0 then Inr (s, ret)
               else if t AND 0x7000 \<noteq> 0x2000 then Inr (s, - E_NOTDIR)
               else bindE (inode_ref_inc s n) (\<lambda>(s, _). Inr (s, 0)))) (\<lambda>(s, ret).
        if ret \<noteq> 0 then Inr (s, cwd, ret)
        else
          (case cwd of
             None \<Rightarrow> Inr (s, dir, 0)
           | Some old \<Rightarrow> bindE (inode_ref_dec s old) (\<lambda>(s, _). Inr (s, dir, 0)))))"

definition vfs_chdir :: "vfs \<Rightarrow> nat option \<Rightarrow> u8 list \<Rightarrow> kmem \<Rightarrow> kpanic + (vfs \<times> nat option \<times> int)" where
  "vfs_chdir s cwd path m =
     bindE (vfs_lookup s cwd path m) (\<lambda>(s, ret, r, _).
     case r of
       Some n \<Rightarrow>
         if ret = 0 then
           bindE (vfs_set_curdir s cwd (Some n)) (\<lambda>(s, cwd, ret).
           bindE (inode_ref_dec s n) (\<lambda>(s, _). Inr (s, cwd, ret)))
         else Inr (s, cwd, ret)
     | None \<Rightarrow> Inr (s, cwd, ret))"

definition change_bootfs :: "vfs \<Rightarrow> nat option \<Rightarrow> kpanic + vfs" where
  "change_bootfs s node =
     (let old = bootfs_node s; s = s\<lparr>bootfs_node := node\<rparr> in
      case old of None \<Rightarrow> Inr s | Some n \<Rightarrow> bindE (inode_ref_dec s n) (\<lambda>(s, _). Inr s))"

definition vfs_set_bootfs :: "vfs \<Rightarrow> nat option \<Rightarrow> u8 list option \<Rightarrow> kmem \<Rightarrow> kpanic + (vfs \<times> nat option \<times> int)" where
  "vfs_set_bootfs s cwd fsname m =
     (case fsname of
        None \<Rightarrow> bindE (change_bootfs s None) (\<lambda>s. Inr (s, cwd, 0))
      | Some name \<Rightarrow>
          if dropWhile (\<lambda>c. c \<noteq> colon) name \<noteq> [colon] then Inr (s, cwd, - E_INVAL)
          else
            bindE (vfs_chdir s cwd name m) (\<lambda>(s, cwd, ret).
            if ret \<noteq> 0 then Inr (s, cwd, ret)
            else
              bindE (vfs_get_curdir s cwd) (\<lambda>(s, ret, r).
              if ret \<noteq> 0 then Inr (s, cwd, ret)
              else bindE (change_bootfs s r) (\<lambda>s. Inr (s, cwd, 0)))))"

section \<open>Opening and closing\<close>

text \<open>No table has \<^verbatim>\<open>vop_create\<close>, so that the call of it ends at the assertion of \<open>vop_op\<close>.\<close>

definition vfs_open ::
  "vfs \<Rightarrow> nat option \<Rightarrow> u8 list \<Rightarrow> u32 \<Rightarrow> kmem \<Rightarrow> kpanic + (vfs \<times> int \<times> nat option)" where
  "vfs_open s cwd path open_flags m =
     (if open_flags AND O_ACCMODE = O_ACCMODE then Inr (s, - E_INVAL, None)
      else if open_flags AND O_TRUNC \<noteq> 0 \<and> open_flags AND O_ACCMODE = O_RDONLY then Inr (s, - E_INVAL, None)
      else
        (let excl = (open_flags AND O_EXCL \<noteq> 0); create = (open_flags AND O_CREAT \<noteq> 0) in
         bindE (vfs_lookup s cwd path m) (\<lambda>(s, ret, r, path).
         if ret \<noteq> 0 then
           if ret = -16 \<and> create then
             bindE (vfs_lookup_parent s cwd path m) (\<lambda>(s, ret, r, name).
             case r of
               None \<Rightarrow> Inr (s, ret, None)
             | Some dir \<Rightarrow> bindE (vop_op s dir Vop_create) (\<lambda>_. Inl Null_deref))
           else Inr (s, ret, None)
         else if excl \<and> create then Inr (s, - E_EXISTS, None)
         else
           (case r of
              None \<Rightarrow> Inl Assert_failed
            | Some n \<Rightarrow>
                bindE (vop_open s n open_flags) (\<lambda>ret.
                if ret \<noteq> 0 then bindE (inode_ref_dec s n) (\<lambda>(s, _). Inr (s, ret, None))
                else
                  bindE (inode_open_inc s n) (\<lambda>(s, _).
                  if open_flags AND O_TRUNC \<noteq> 0 \<or> create then
                    bindE (vop_truncate s n 0) (\<lambda>(s, ret).
                    if ret \<noteq> 0 then
                      bindE (inode_open_dec s n) (\<lambda>(s, _).
                      bindE (inode_ref_dec s n) (\<lambda>(s, _). Inr (s, ret, None)))
                    else Inr (s, 0, Some n))
                  else Inr (s, 0, Some n)))))))"

definition vfs_close :: "vfs \<Rightarrow> nat \<Rightarrow> kpanic + vfs" where
  "vfs_close s n =
     bindE (inode_open_dec s n) (\<lambda>(s, _). bindE (inode_ref_dec s n) (\<lambda>(s, _). Inr s))"

end
