(* ===== verification/File.thy ===== *)
theory File
  imports Vfs
begin

text \<open>
  The table of open files of a process (\<^verbatim>\<open>kern/fs/file.c\<close>, \<^verbatim>\<open>kern/fs/fs.c\<close>). A process's \<^verbatim>\<open>files_struct\<close> is a record passed along with the
  state of the virtual file system; a \<^verbatim>\<open>struct file *\<close> is an index into its array.
\<close>

section \<open>The table\<close>

datatype fd_status = FD_NONE | FD_INIT | FD_OPENED | FD_CLOSED

record file_t =
  status :: fd_status
  readable :: bool
  writable :: bool
  fd :: int
  fpos :: u32
  fnode :: "nat option"
  fopen_count :: int

record files_struct =
  pwd :: "nat option"
  fd_array :: "file_t list"
  files_count :: int

text \<open>\<^verbatim>\<open>(PGSIZE - sizeof(struct files_struct)) / sizeof(struct file)\<close>, that is (4096 - 24) / 28.\<close>

abbreviation (input) FILES_STRUCT_NENTRY :: nat where "FILES_STRUCT_NENTRY \<equiv> 145"
abbreviation (input) NO_FD :: int where "NO_FD \<equiv> -0x9527"

definition testfd :: "int \<Rightarrow> bool" where
  "testfd x \<longleftrightarrow> 0 \<le> x \<and> x < int FILES_STRUCT_NENTRY"

definition get_fd_array :: "files_struct \<Rightarrow> kpanic + file_t list" where
  "get_fd_array p = bindE (assertE (0 < files_count p)) (\<lambda>_. Inr (fd_array p))"

definition fd_array_init :: "file_t list \<Rightarrow> file_t list" where
  "fd_array_init fs = map (\<lambda>i. (fs ! i)\<lparr>fopen_count := 0, status := FD_NONE, fd := int i\<rparr>) [0..<FILES_STRUCT_NENTRY]"

definition upd_file :: "nat \<Rightarrow> (file_t \<Rightarrow> file_t) \<Rightarrow> files_struct \<Rightarrow> files_struct" where
  "upd_file i f p = p\<lparr>fd_array := (fd_array p)[i := f (fd_array p ! i)]\<rparr>"

text \<open>The results are the return code and, when it is 0, \<^verbatim>\<open>*file_store\<close>.\<close>

definition fd_array_found :: "files_struct \<Rightarrow> nat \<Rightarrow> kpanic + (files_struct \<times> int \<times> nat)" where
  "fd_array_found p i =
     bindE (assertE (fopen_count (fd_array p ! i) = 0)) (\<lambda>_.
     Inr (upd_file i (\<lambda>f. f\<lparr>status := FD_INIT, fnode := None\<rparr>) p, 0, i))"

definition fd_array_alloc :: "files_struct \<Rightarrow> int \<Rightarrow> kpanic + (files_struct \<times> int \<times> nat)" where
  "fd_array_alloc p x =
     bindE (get_fd_array p) (\<lambda>fs.
     if x = NO_FD then
       (case find (\<lambda>i. status (fs ! i) = FD_NONE) [0..<FILES_STRUCT_NENTRY] of
          Some i \<Rightarrow> fd_array_found p i
        | None \<Rightarrow> Inr (p, - E_MAX_OPEN, 0))
     else if testfd x then
       if status (fs ! nat x) = FD_NONE then fd_array_found p (nat x) else Inr (p, - E_BUSY, 0)
     else Inr (p, - E_INVAL, 0))"

definition fd_array_free :: "vfs \<Rightarrow> files_struct \<Rightarrow> nat \<Rightarrow> kpanic + (vfs \<times> files_struct)" where
  "fd_array_free s p i =
     (let f = fd_array p ! i in
      bindE (assertE (status f = FD_INIT \<or> status f = FD_CLOSED)) (\<lambda>_.
      bindE (assertE (fopen_count f = 0)) (\<lambda>_.
      bindE
        (if status f = FD_CLOSED then
           (case fnode f of None \<Rightarrow> Inl Null_deref | Some n \<Rightarrow> vfs_close s n)
         else Inr s) (\<lambda>s.
      Inr (s, upd_file i (\<lambda>f. f\<lparr>status := FD_NONE\<rparr>) p)))))"

definition fd_array_acquire :: "files_struct \<Rightarrow> nat \<Rightarrow> kpanic + files_struct" where
  "fd_array_acquire p i =
     bindE (assertE (status (fd_array p ! i) = FD_OPENED)) (\<lambda>_.
     Inr (upd_file i (\<lambda>f. f\<lparr>fopen_count := fopen_count f + 1\<rparr>) p))"

definition fd_array_release :: "vfs \<Rightarrow> files_struct \<Rightarrow> nat \<Rightarrow> kpanic + (vfs \<times> files_struct)" where
  "fd_array_release s p i =
     (let f = fd_array p ! i in
      bindE (assertE (status f = FD_OPENED \<or> status f = FD_CLOSED)) (\<lambda>_.
      bindE (assertE (0 < fopen_count f)) (\<lambda>_.
      let p = upd_file i (\<lambda>f. f\<lparr>fopen_count := fopen_count f - 1\<rparr>) p in
      if fopen_count f - 1 = 0 then fd_array_free s p i else Inr (s, p))))"

definition fd_array_open :: "files_struct \<Rightarrow> nat \<Rightarrow> kpanic + files_struct" where
  "fd_array_open p i =
     bindE (assertE (status (fd_array p ! i) = FD_INIT \<and> fnode (fd_array p ! i) \<noteq> None)) (\<lambda>_.
     Inr (upd_file i (\<lambda>f. f\<lparr>status := FD_OPENED, fopen_count := fopen_count f + 1\<rparr>) p))"

definition fd_array_close :: "vfs \<Rightarrow> files_struct \<Rightarrow> nat \<Rightarrow> kpanic + (vfs \<times> files_struct)" where
  "fd_array_close s p i =
     (let f = fd_array p ! i in
      bindE (assertE (status f = FD_OPENED)) (\<lambda>_.
      bindE (assertE (0 < fopen_count f)) (\<lambda>_.
      let p = upd_file i (\<lambda>f. f\<lparr>status := FD_CLOSED, fopen_count := fopen_count f - 1\<rparr>) p in
      if fopen_count f - 1 = 0 then fd_array_free s p i else Inr (s, p))))"

text \<open>\<^verbatim>\<open>fd_array_dup(to, from)\<close>; the two entries may be of different processes.\<close>

definition fd_array_dup :: "vfs \<Rightarrow> files_struct \<Rightarrow> nat \<Rightarrow> file_t \<Rightarrow> kpanic + (vfs \<times> files_struct)" where
  "fd_array_dup s p to from =
     bindE (assertE (status (fd_array p ! to) = FD_INIT \<and> status from = FD_OPENED)) (\<lambda>_.
     case fnode from of
       None \<Rightarrow> Inl Null_deref
     | Some n \<Rightarrow>
         bindE (inode_ref_inc s n) (\<lambda>(s, _). bindE (inode_open_inc s n) (\<lambda>(s, _).
         bindE (fd_array_open (upd_file to (\<lambda>f. f\<lparr>fpos := fpos from, readable := readable from, writable := writable from,
             fnode := Some n\<rparr>) p) to) (\<lambda>p. Inr (s, p)))))"

definition fd2file :: "files_struct \<Rightarrow> int \<Rightarrow> kpanic + (int \<times> nat)" where
  "fd2file p x =
     (if testfd x then
        bindE (get_fd_array p) (\<lambda>fs.
        if status (fs ! nat x) = FD_OPENED \<and> fd (fs ! nat x) = x then Inr (0, nat x) else Inr (- E_INVAL, 0))
      else Inr (- E_INVAL, 0))"

definition file_testfd :: "files_struct \<Rightarrow> int \<Rightarrow> bool \<Rightarrow> bool \<Rightarrow> kpanic + bool" where
  "file_testfd p x rd wr =
     bindE (fd2file p x) (\<lambda>(ret, i).
     Inr (ret = 0 \<and> (rd \<longrightarrow> readable (fd_array p ! i)) \<and> (wr \<longrightarrow> writable (fd_array p ! i))))"

section \<open>Operations on open files\<close>

definition file_open :: "vfs \<Rightarrow> files_struct \<Rightarrow> u8 list \<Rightarrow> u32 \<Rightarrow> kmem \<Rightarrow> kpanic + (vfs \<times> files_struct \<times> int)" where
  "file_open s p path open_flags m =
     (let acc = open_flags AND O_ACCMODE in
      if acc = O_ACCMODE then Inr (s, p, - E_INVAL)
      else
        bindE (fd_array_alloc p NO_FD) (\<lambda>(p, ret, i).
        if ret \<noteq> 0 then Inr (s, p, ret)
        else
          bindE (vfs_open s (pwd p) path open_flags m) (\<lambda>(s, ret, r).
          if ret \<noteq> 0 then bindE (fd_array_free s p i) (\<lambda>(s, p). Inr (s, p, ret))
          else
            (case r of
               None \<Rightarrow> Inl Null_deref
             | Some n \<Rightarrow>
                 bindE
                   (if open_flags AND O_APPEND \<noteq> 0 then
                      bindE (vop_fstat s n) (\<lambda>(ret, st). Inr (ret, st_size st))
                    else Inr (0, 0)) (\<lambda>(ret, pos).
                 if ret \<noteq> 0 then
                   bindE (vfs_close s n) (\<lambda>s. bindE (fd_array_free s p i) (\<lambda>(s, p). Inr (s, p, ret)))
                 else
                   bindE (fd_array_open (upd_file i (\<lambda>f. f\<lparr>fpos := pos, fnode := Some n,
                       readable := (acc = O_RDONLY \<or> acc = O_RDWR), writable := (acc = O_WRONLY \<or> acc = O_RDWR)\<rparr>) p) i) (\<lambda>p.
                   Inr (s, p, fd (fd_array p ! i))))))))"

definition file_close :: "vfs \<Rightarrow> files_struct \<Rightarrow> int \<Rightarrow> kpanic + (vfs \<times> files_struct \<times> int)" where
  "file_close s p x =
     bindE (fd2file p x) (\<lambda>(ret, i).
     if ret \<noteq> 0 then Inr (s, p, ret)
     else bindE (fd_array_close s p i) (\<lambda>(s, p). Inr (s, p, 0)))"

definition file_node :: "files_struct \<Rightarrow> nat \<Rightarrow> kpanic + nat" where
  "file_node p i = (case fnode (fd_array p ! i) of None \<Rightarrow> Inl Null_deref | Some n \<Rightarrow> Inr n)"

text \<open>
  \<^verbatim>\<open>file_read\<close> and \<^verbatim>\<open>file_write\<close> differ in the permission they check and the operation they call. The
  results are the buffer, \<^verbatim>\<open>*copied_store\<close> and the return code.
\<close>

definition file_rw ::
  "bool \<Rightarrow> vfs \<Rightarrow> files_struct \<Rightarrow> int \<Rightarrow> u8 list \<Rightarrow> nat \<Rightarrow> u32 \<Rightarrow> kpanic + (vfs \<times> files_struct \<times> u8 list \<times> u32 \<times> int)" where
  "file_rw write s p x mem base len =
     bindE (fd2file p x) (\<lambda>(ret, i).
     if ret \<noteq> 0 then Inr (s, p, mem, 0, ret)
     else if \<not> (if write then writable (fd_array p ! i) else readable (fd_array p ! i)) then Inr (s, p, mem, 0, - E_INVAL)
     else
       bindE (fd_array_acquire p i) (\<lambda>p.
       bindE (file_node p i) (\<lambda>n.
       bindE (vop_rw write s n (iobuf_init mem base len (fpos (fd_array p ! i)))) (\<lambda>(s, iob, ret).
       let copied = iobuf_used iob;
           p = (if status (fd_array p ! i) = FD_OPENED then upd_file i (\<lambda>f. f\<lparr>fpos := fpos f + copied\<rparr>) p else p) in
       bindE (fd_array_release s p i) (\<lambda>(s, p). Inr (s, p, io_mem iob, copied, ret))))))"

definition file_read ::
  "vfs \<Rightarrow> files_struct \<Rightarrow> int \<Rightarrow> u8 list \<Rightarrow> nat \<Rightarrow> u32 \<Rightarrow> kpanic + (vfs \<times> files_struct \<times> u8 list \<times> u32 \<times> int)" where
  "file_read = file_rw False"

definition file_write ::
  "vfs \<Rightarrow> files_struct \<Rightarrow> int \<Rightarrow> u8 list \<Rightarrow> nat \<Rightarrow> u32 \<Rightarrow> kpanic + (vfs \<times> files_struct \<times> u8 list \<times> u32 \<times> int)" where
  "file_write = file_rw True"

definition file_seek :: "vfs \<Rightarrow> files_struct \<Rightarrow> int \<Rightarrow> u32 \<Rightarrow> int \<Rightarrow> kpanic + (vfs \<times> files_struct \<times> int)" where
  "file_seek s p x pos whence =
     bindE (fd2file p x) (\<lambda>(ret, i).
     if ret \<noteq> 0 then Inr (s, p, ret)
     else
       bindE (fd_array_acquire p i) (\<lambda>p.
       bindE (file_node p i) (\<lambda>n.
       bindE
         (if whence = 0 then Inr (0, pos)
          else if whence = 1 then Inr (0, pos + fpos (fd_array p ! i))
          else if whence = 2 then bindE (vop_fstat s n) (\<lambda>(ret, st). Inr (ret, if ret = 0 then pos + st_size st else pos))
          else Inr (- E_INVAL, pos)) (\<lambda>(ret, pos).
       bindE
         (if ret = 0 then
            bindE (vop_tryseek s n pos) (\<lambda>(s, ret).
            Inr (s, if ret = 0 then upd_file i (\<lambda>f. f\<lparr>fpos := pos\<rparr>) p else p, ret))
          else Inr (s, p, ret)) (\<lambda>(s, p, ret).
       bindE (fd_array_release s p i) (\<lambda>(s, p). Inr (s, p, ret)))))))"

definition file_fstat :: "vfs \<Rightarrow> files_struct \<Rightarrow> int \<Rightarrow> kpanic + (vfs \<times> files_struct \<times> int \<times> stat option)" where
  "file_fstat s p x =
     bindE (fd2file p x) (\<lambda>(ret, i).
     if ret \<noteq> 0 then Inr (s, p, ret, None)
     else
       bindE (fd_array_acquire p i) (\<lambda>p.
       bindE (file_node p i) (\<lambda>n.
       bindE (vop_fstat s n) (\<lambda>(ret, st).
       bindE (fd_array_release s p i) (\<lambda>(s, p). Inr (s, p, ret, Some st))))))"

definition file_fsync :: "vfs \<Rightarrow> files_struct \<Rightarrow> int \<Rightarrow> kpanic + (vfs \<times> files_struct \<times> int)" where
  "file_fsync s p x =
     bindE (fd2file p x) (\<lambda>(ret, i).
     if ret \<noteq> 0 then Inr (s, p, ret)
     else
       bindE (fd_array_acquire p i) (\<lambda>p.
       bindE (file_node p i) (\<lambda>n.
       bindE (vop_fsync s n) (\<lambda>(s, ret).
       bindE (fd_array_release s p i) (\<lambda>(s, p). Inr (s, p, ret))))))"

text \<open>The directory entry of the caller is its offset and the 256 bytes of its name.\<close>

definition file_getdirentry ::
  "vfs \<Rightarrow> files_struct \<Rightarrow> int \<Rightarrow> u32 \<Rightarrow> u8 list \<Rightarrow> bool \<Rightarrow> kpanic + (vfs \<times> files_struct \<times> int \<times> u32 \<times> u8 list)" where
  "file_getdirentry s p x offset name entry_ok =
     bindE (fd2file p x) (\<lambda>(ret, i).
     if ret \<noteq> 0 then Inr (s, p, ret, offset, name)
     else
       bindE (fd_array_acquire p i) (\<lambda>p.
       bindE (file_node p i) (\<lambda>n.
       bindE (vop_getdirentry s n (iobuf_init name 0 256 offset) entry_ok) (\<lambda>(s, iob, ret).
       bindE (fd_array_release s p i) (\<lambda>(s, p).
       Inr (s, p, ret, if ret = 0 then offset + iobuf_used iob else offset, io_mem iob))))))"

definition file_dup :: "vfs \<Rightarrow> files_struct \<Rightarrow> int \<Rightarrow> int \<Rightarrow> kpanic + (vfs \<times> files_struct \<times> int)" where
  "file_dup s p fd1 fd2 =
     bindE (fd2file p fd1) (\<lambda>(ret, i).
     if ret \<noteq> 0 then Inr (s, p, ret)
     else
       bindE (fd_array_alloc p fd2) (\<lambda>(p, ret, j).
       if ret \<noteq> 0 then Inr (s, p, ret)
       else bindE (fd_array_dup s p j (fd_array p ! i)) (\<lambda>(s, p). Inr (s, p, fd (fd_array p ! j)))))"

section \<open>The files of a process\<close>

text \<open>The memory behind a fresh \<^verbatim>\<open>files_struct\<close> is what \<^verbatim>\<open>kmalloc\<close> returned, \<open>mem\<close>.\<close>

definition files_create :: "file_t list option \<Rightarrow> files_struct option" where
  "files_create mem = map_option (\<lambda>fs. \<lparr>pwd = None, fd_array = fd_array_init fs, files_count = 0\<rparr>) mem"

fun destroy_loop :: "vfs \<Rightarrow> files_struct \<Rightarrow> nat list \<Rightarrow> kpanic + (vfs \<times> files_struct)" where
  "destroy_loop s p [] = Inr (s, p)"
| "destroy_loop s p (i # is) =
     bindE (if status (fd_array p ! i) = FD_OPENED then fd_array_close s p i else Inr (s, p)) (\<lambda>(s, p).
     bindE (assertE (status (fd_array p ! i) = FD_NONE)) (\<lambda>_. destroy_loop s p is))"

definition files_destroy :: "vfs \<Rightarrow> files_struct \<Rightarrow> kpanic + vfs" where
  "files_destroy s p =
     bindE (assertE (files_count p = 0)) (\<lambda>_.
     bindE (case pwd p of None \<Rightarrow> Inr s | Some n \<Rightarrow> bindE (inode_ref_dec s n) (\<lambda>(s, _). Inr s)) (\<lambda>s.
     bindE (destroy_loop s p [0..<FILES_STRUCT_NENTRY]) (\<lambda>(s, _). Inr s)))"

fun closeall_loop :: "vfs \<Rightarrow> files_struct \<Rightarrow> nat list \<Rightarrow> kpanic + (vfs \<times> files_struct)" where
  "closeall_loop s p [] = Inr (s, p)"
| "closeall_loop s p (i # is) =
     bindE (if status (fd_array p ! i) = FD_OPENED then fd_array_close s p i else Inr (s, p)) (\<lambda>(s, p).
     closeall_loop s p is)"

definition files_closeall :: "vfs \<Rightarrow> files_struct \<Rightarrow> kpanic + (vfs \<times> files_struct)" where
  "files_closeall s p =
     bindE (assertE (0 < files_count p)) (\<lambda>_. closeall_loop s p [2..<FILES_STRUCT_NENTRY])"

fun dup_loop :: "vfs \<Rightarrow> files_struct \<Rightarrow> files_struct \<Rightarrow> nat list \<Rightarrow> kpanic + (vfs \<times> files_struct)" where
  "dup_loop s to from [] = Inr (s, to)"
| "dup_loop s to from (i # is) =
     bindE
       (if status (fd_array from ! i) = FD_OPENED then
          fd_array_dup s (upd_file i (\<lambda>f. f\<lparr>status := FD_INIT\<rparr>) to) i (fd_array from ! i)
        else Inr (s, to)) (\<lambda>(s, to). dup_loop s to from is)"

definition dup_files :: "vfs \<Rightarrow> files_struct \<Rightarrow> files_struct \<Rightarrow> kpanic + (vfs \<times> files_struct \<times> int)" where
  "dup_files s to from =
     bindE (assertE (files_count to = 0 \<and> 0 < files_count from)) (\<lambda>_.
     bindE (case pwd from of None \<Rightarrow> Inr s | Some n \<Rightarrow> bindE (inode_ref_inc s n) (\<lambda>(s, _). Inr s)) (\<lambda>s.
     bindE (dup_loop s (to\<lparr>pwd := pwd from\<rparr>) from [0..<FILES_STRUCT_NENTRY]) (\<lambda>(s, to). Inr (s, to, 0))))"

section \<open>Boot\<close>

definition vfs_init :: "vfs \<Rightarrow> vfs" where
  "vfs_init s = s\<lparr>vdev_list := []\<rparr>"

text \<open>
  The arguments of \<^verbatim>\<open>dev_init\<close> are the outcomes of \<^verbatim>\<open>kmalloc\<close>: for the inode, the name and the list entry of each device, and
  for the buffer of the disk. \<^verbatim>\<open>stdin_device_init\<close> resets the positions of the keyboard buffer.
\<close>

definition dev_init ::
  "vfs \<Rightarrow> (device \<Rightarrow> nat option) \<Rightarrow> (device \<Rightarrow> bool) \<Rightarrow> (device \<Rightarrow> bool) \<Rightarrow> bool \<Rightarrow> kpanic + vfs" where
  "dev_init s addr strdup_ok vdev_ok disk0_buffer_ok =
     (let one = (\<lambda>s d name mnt. dev_init_one s d (map of_char name) mnt (addr d) (strdup_ok d) (vdev_ok d)) in
      bindE (one s Dev_stdin ''stdin'' False) (\<lambda>s.
      let s = s\<lparr>stdin_st := (stdin_st s)\<lparr>p_rpos := 0, p_wpos := 0\<rparr>\<rparr> in
      bindE (one s Dev_stdout ''stdout'' False) (\<lambda>s.
      if disk0_buffer_ok then one s Dev_disk0 ''disk0'' True else Inl Panicked)))"

definition sfs_init :: "vfs \<Rightarrow> mount_mem \<Rightarrow> kpanic + vfs" where
  "sfs_init s m = bindE (vfs_mount s (map of_char ''disk0'') m) (\<lambda>(s, ret). if ret \<noteq> 0 then Inl Panicked else Inr s)"

definition fs_init ::
  "vfs \<Rightarrow> (device \<Rightarrow> nat option) \<Rightarrow> (device \<Rightarrow> bool) \<Rightarrow> (device \<Rightarrow> bool) \<Rightarrow> bool \<Rightarrow> mount_mem \<Rightarrow> kpanic + vfs" where
  "fs_init s addr strdup_ok vdev_ok disk0_buffer_ok m =
     bindE (dev_init (vfs_init s) addr strdup_ok vdev_ok disk0_buffer_ok) (\<lambda>s. sfs_init s m)"

end
