(* ===== verification/Vfs_Refs.thy ===== *)
theory Vfs_Refs
  imports Vfs Sfs_Props
begin

text \<open>
  The reference counts of the inodes: an invariant that says of every inode how many references and opens are held on it, that its table of
  operations fits its kind, and that the lists of the file system hold exactly its inodes; and what each
  operation of the virtual file system does to it.
\<close>

section \<open>The disk is never changed\<close>

lemma disk0_loop_image: "disk0_loop n img iob resid blkno w = Inr (img', iob') \<Longrightarrow> img' = img"
proof (induction n arbitrary: iob resid blkno)
  case 0
  then show ?case by (simp split: if_splits)
next
  case (Suc n)
  then show ?case
    by (auto simp: bindE_Inr_iff Let_def disk0_write_blks_nolock_def split: if_splits)
qed

lemma disk0_io_image: "disk0_io img iob w = Inr (img', iob', ret) \<Longrightarrow> img' = img"
  by (auto simp: disk0_io_def Let_def bindE_Inr_iff dest: disk0_loop_image split: if_splits)

lemma rwblock_same: "sfs_rwblock_nolock s buf base blkno w c = Inr (s', buf', ret) \<Longrightarrow> s' = s"
  by (auto simp: sfs_rwblock_nolock_def bindE_Inr_iff dest!: disk0_io_image)

lemma rwblock_loop_same: "sfs_rwblock_loop s buf base blkno n w = Inr (s', buf', ret) \<Longrightarrow> s' = s"
proof (induction n arbitrary: s buf base blkno)
  case 0
  then show ?case by simp
next
  case (Suc n)
  then show ?case by (auto simp: bindE_Inr_iff split: if_splits dest: rwblock_same)
qed

lemma rbuf_same: "sfs_rbuf s buf base len blkno off = Inr (s', buf', ret) \<Longrightarrow> s' = s"
  by (auto simp: sfs_rbuf_def bindE_Inr_iff dest: rwblock_same)

lemma wbuf_same: "sfs_wbuf s buf base len blkno off = Inr (s', buf', ret) \<Longrightarrow> s' = s"
  by (auto simp: sfs_wbuf_def bindE_Inr_iff split: if_splits dest!: rwblock_same)

lemma fsync_same: "sfs_fsync s sin = Inr (s', sin', ret) \<Longrightarrow> s' = s \<and> din sin' = din sin \<and> ino sin' = ino sin \<and> reclaim_count sin' = reclaim_count sin"
  by (auto simp: sfs_fsync_def bindE_Inr_iff split: if_splits dest!: wbuf_same)

lemma bmap_get_same: "sfs_bmap_get_nolock s sin index False = Inr (s', sin', ret, i) \<Longrightarrow> s' = s \<and> sin' = sin"
  by (auto simp: sfs_bmap_get_nolock_def sfs_bmap_get_sub_nolock_def bindE_Inr_iff Let_def split: if_splits dest!: rbuf_same)

lemma bmap_load_same:
  assumes "sfs_bmap_load_nolock s sin index = Inr (s', sin', ret, i)" "index < dblocks (din sin)"
  shows "s' = s \<and> sin' = sin"
proof -
  have "(index = dblocks (din sin)) = False" using assms(2) by simp
  with assms(1) show ?thesis
    by (auto simp: sfs_bmap_load_nolock_def bindE_Inr_iff Let_def split: if_splits dest!: bmap_get_same)
qed

lemma dirent_read_same: "sfs_dirent_read_nolock s sin slot = Inr (s', sin', ret, e) \<Longrightarrow> s' = s \<and> sin' = sin"
  by (auto simp: sfs_dirent_read_nolock_def bindE_Inr_iff split: if_splits dest!: bmap_load_same rbuf_same)

lemma search_loop_same: "dirent_search_loop s sin name i n es = Inr (s', sin', r) \<Longrightarrow> s' = s \<and> sin' = sin"
proof (induction n arbitrary: i es)
  case 0
  then show ?case by simp
next
  case (Suc n)
  then show ?case by (auto simp: bindE_Inr_iff split: if_splits dest!: dirent_read_same)
qed

lemma search_same: "sfs_dirent_search_nolock s sin name ok = Inr (s', sin', r) \<Longrightarrow> s' = s \<and> sin' = sin"
  by (auto simp: sfs_dirent_search_nolock_def bindE_Inr_iff Let_def split: if_splits dest: search_loop_same)

lemma search_found: "sfs_dirent_search_nolock s sin name ok = Inr (s', sin', ret, Some r, es) \<Longrightarrow> ret = 0"
proof -
  have "dirent_search_loop s sin name i n es' = Inr (s', sin', ret, Some r, es) \<Longrightarrow> ret = 0" for i n es'
  proof (induction n arbitrary: i es')
    case (Suc n)
    then show ?case by (auto simp: bindE_Inr_iff split: if_splits dest!: dirent_read_same)
  qed simp
  then show "sfs_dirent_search_nolock s sin name ok = Inr (s', sin', ret, Some r, es) \<Longrightarrow> ret = 0"
    by (auto simp: sfs_dirent_search_nolock_def bindE_Inr_iff Let_def split: if_splits)
qed

lemma search_missing: "sfs_dirent_search_nolock s sin name ok = Inr (s', sin', ret, None, es) \<Longrightarrow> ret \<noteq> 0"
proof -
  have "dirent_search_loop s sin name i n es' = Inr (s', sin', ret, None, es) \<Longrightarrow> ret \<noteq> 0" for i n es'
  proof (induction n arbitrary: i es')
    case (Suc n)
    then show ?case by (auto simp: bindE_Inr_iff split: if_splits dest!: dirent_read_same)
  qed simp
  then show "sfs_dirent_search_nolock s sin name ok = Inr (s', sin', ret, None, es) \<Longrightarrow> ret \<noteq> 0"
    by (auto simp: sfs_dirent_search_nolock_def bindE_Inr_iff Let_def split: if_splits)
qed

section \<open>The invariant\<close>

text \<open>The table of operations of an inode fits its kind, and an inode of the file system is alive on the disk.\<close>

definition inode_typed :: "u32 \<Rightarrow> inode \<Rightarrow> bool" where
  "inode_typed b nd \<longleftrightarrow>
     (case in_info nd of
        Device_info d \<Rightarrow> in_ops nd = dev_node_ops \<and> \<not> in_fs nd
      | Sfs_inode_info sin \<Rightarrow> sfs_get_ops (dtype (din sin)) = Inr (in_ops nd) \<and> in_fs nd \<and> reclaim_count sin = 1 \<and>
          nlinks (din sin) \<noteq> 0 \<and> length (direct (din sin)) = 12 \<and> ino sin \<noteq> 0 \<and> ino sin < b)"

lemma inode_typed_counts [simp]:
  "inode_typed b (nd\<lparr>ref_count := r\<rparr>) = inode_typed b nd" "inode_typed b (nd\<lparr>open_count := q\<rparr>) = inode_typed b nd"
  by (auto simp: inode_typed_def split: in_info.splits)

definition sfs_node :: "vfs \<Rightarrow> nat \<Rightarrow> u32 option" where
  "sfs_node s n =
     (case inodes s n of
        Some nd \<Rightarrow> (case in_info nd of Sfs_inode_info sin \<Rightarrow> Some (ino sin) | Device_info _ \<Rightarrow> None)
      | None \<Rightarrow> None)"

text \<open>The lists of the file system hold each of its inodes once, and no two have the same number.\<close>

definition cache_wf :: "vfs \<Rightarrow> bool" where
  "cache_wf s \<longleftrightarrow> distinct (inode_list (sfs s)) \<and> set (inode_list (sfs s)) = dom (sfs_node s) \<and>
     (\<forall>h. distinct (hash_list (sfs s) h) \<and> set (hash_list (sfs s) h) = {n. \<exists>x. sfs_node s n = Some x \<and> sin_hashfn x = h}) \<and>
     inj_on (sfs_node s) (dom (sfs_node s))"

text \<open>\<open>R n\<close> references and \<open>P n\<close> opens are held on the inode \<open>n\<close>, and an inode without references is freed.\<close>

definition slot_ok :: "u32 \<Rightarrow> inode option \<Rightarrow> nat \<Rightarrow> nat \<Rightarrow> bool" where
  "slot_ok b x r q \<longleftrightarrow>
     (case x of
        None \<Rightarrow> r = 0 \<and> q = 0
      | Some nd \<Rightarrow> ref_count nd = int r \<and> open_count nd = int q \<and> q \<le> r \<and> 0 < r \<and> inode_typed b nd)"

lemma slot_ok_simps [simp]:
  "slot_ok b None r q \<longleftrightarrow> r = 0 \<and> q = 0"
  "slot_ok b (Some nd) r q \<longleftrightarrow> ref_count nd = int r \<and> open_count nd = int q \<and> q \<le> r \<and> 0 < r \<and> inode_typed b nd"
  by (simp_all add: slot_ok_def)

definition ref_inv :: "vfs \<Rightarrow> (nat \<Rightarrow> nat) \<Rightarrow> (nat \<Rightarrow> nat) \<Rightarrow> bool" where
  "ref_inv s R P \<longleftrightarrow> blocks (sfs s) \<le> 1024 \<and> cache_wf s \<and> (\<forall>n. slot_ok (blocks (sfs s)) (inodes s n) (R n) (P n))"

lemma ref_inv_slot: "ref_inv s R P \<Longrightarrow> slot_ok (blocks (sfs s)) (inodes s n) (R n) (P n)"
  by (simp add: ref_inv_def)

lemma ref_invD:
  assumes "ref_inv s R P" "0 < R n"
  obtains nd where "inodes s n = Some nd" "ref_count nd = int (R n)" "open_count nd = int (P n)" "P n \<le> R n"
    "inode_typed (blocks (sfs s)) nd"
  using ref_inv_slot [OF assms(1), of n] assms(2) that by (cases "inodes s n") auto

lemma ref_inv_at: "ref_inv s R P \<Longrightarrow> inodes s n = Some nd \<Longrightarrow>
    ref_count nd = int (R n) \<and> open_count nd = int (P n) \<and> P n \<le> R n \<and> 0 < R n \<and> inode_typed (blocks (sfs s)) nd"
  using ref_inv_slot [of s R P n] by simp

lemma set_inode_simps [simp]:
  "sfs (set_inode n nd s) = sfs s" "inodes (set_inode n nd s) = (inodes s)(n := Some nd)"
  "bootfs_node (set_inode n nd s) = bootfs_node s" "vdev_list (set_inode n nd s) = vdev_list s"
  "stdin_st (set_inode n nd s) = stdin_st s" "console (set_inode n nd s) = console s"
  "(set_inode n nd s)\<lparr>sfs := sfs s\<rparr> = set_inode n nd s"
  by (simp_all add: set_inode_def)

lemma sfs_node_set_inode:
  "sfs_node (set_inode n nd s) = (sfs_node s)(n := case in_info nd of Sfs_inode_info sin \<Rightarrow> Some (ino sin) | Device_info _ \<Rightarrow> None)"
  by (rule ext) (simp add: sfs_node_def)

lemma cache_wf_cong: "cache_wf s \<Longrightarrow> sfs_node s' = sfs_node s \<Longrightarrow> inode_list (sfs s') = inode_list (sfs s) \<Longrightarrow>
    hash_list (sfs s') = hash_list (sfs s) \<Longrightarrow> cache_wf s'"
  by (simp add: cache_wf_def)

text \<open>Replacing an inode by one of the same kind, with the counts that go with it.\<close>

lemma ref_inv_set:
  assumes inv: "ref_inv s R P" and nd: "inodes s n = Some nd" and i: "sfs_node (set_inode n nd' s) n = sfs_node s n"
    and t: "inode_typed (blocks (sfs s)) nd'" and c: "ref_count nd' = int r" "open_count nd' = int q" "q \<le> r" "0 < r"
  shows "ref_inv (set_inode n nd' s) (R(n := r)) (P(n := q))"
proof -
  have "sfs_node (set_inode n nd' s) = sfs_node s"
    using i unfolding sfs_node_set_inode fun_upd_same by (simp only: fun_upd_triv)
  with inv have "cache_wf (set_inode n nd' s)" by (simp add: ref_inv_def cache_wf_def)
  then show ?thesis using inv t c by (simp add: ref_inv_def)
qed

lemma sfs_node_eq: "inodes s n = Some nd \<Longrightarrow> in_info nd' = in_info nd \<Longrightarrow> sfs_node (set_inode n nd' s) n = sfs_node s n"
  by (simp add: sfs_node_def)

text \<open>What the operations on references leave alone.\<close>

definition vfs_same :: "vfs \<Rightarrow> vfs \<Rightarrow> bool" where
  "vfs_same s s' \<longleftrightarrow> bootfs_node s' = bootfs_node s \<and> vdev_list s' = vdev_list s \<and>
     blocks (sfs s') = blocks (sfs s) \<and> disk (sfs s') = disk (sfs s)"

lemma vfs_same_refl [simp]: "vfs_same s s"
  by (simp add: vfs_same_def)

lemma vfs_same_trans: "vfs_same s s' \<Longrightarrow> vfs_same s' s'' \<Longrightarrow> vfs_same s s''"
  by (simp add: vfs_same_def)

lemma vfs_same_set_inode [simp]: "vfs_same s (set_inode n nd s)"
  by (simp add: vfs_same_def)

text \<open>An operation that adds no inode and changes the kind of none.\<close>

definition nodes_keep :: "vfs \<Rightarrow> vfs \<Rightarrow> bool" where
  "nodes_keep s s' \<longleftrightarrow> vfs_same s s' \<and>
     (\<forall>n nd. inodes s' n = Some nd \<longrightarrow>
        (\<exists>nd'. inodes s n = Some nd' \<and> sfs_node s' n = sfs_node s n \<and> in_ops nd = in_ops nd'))"

lemma nodes_keep_set:
  "inodes s n = Some nd \<Longrightarrow> in_ops nd' = in_ops nd \<Longrightarrow> sfs_node (set_inode n nd' s) n = sfs_node s n \<Longrightarrow> nodes_keep s (set_inode n nd' s)"
  by (auto simp: nodes_keep_def sfs_node_set_inode)

lemma nodes_keep_trans: "nodes_keep s s' \<Longrightarrow> nodes_keep s' s'' \<Longrightarrow> nodes_keep s s''"
proof -
  assume a: "nodes_keep s s'" and b: "nodes_keep s' s''"
  have "\<exists>nd'. inodes s n = Some nd' \<and> sfs_node s'' n = sfs_node s n \<and> in_ops nd = in_ops nd'" if nd: "inodes s'' n = Some nd" for n nd
  proof -
    from b nd obtain nd' where 1: "inodes s' n = Some nd'" "sfs_node s'' n = sfs_node s' n" "in_ops nd = in_ops nd'"
      unfolding nodes_keep_def by blast
    from a 1(1) obtain nd'' where "inodes s n = Some nd''" "sfs_node s' n = sfs_node s n" "in_ops nd' = in_ops nd''"
      unfolding nodes_keep_def by blast
    with 1 show ?thesis by simp
  qed
  moreover have "vfs_same s s''" using a b vfs_same_trans by (auto simp: nodes_keep_def)
  ultimately show "nodes_keep s s''" by (simp add: nodes_keep_def)
qed

lemma ref_inc_spec:
  assumes "ref_inv s R P" "0 < R n"
  obtains s' where "inode_ref_inc s n = Inr (s', int (R n) + 1)" "ref_inv s' (R(n := R n + 1)) P" "nodes_keep s s'"
    "sfs s' = sfs s"
proof -
  obtain nd where nd: "inodes s n = Some nd" "ref_count nd = int (R n)" "open_count nd = int (P n)" "P n \<le> R n"
    "inode_typed (blocks (sfs s)) nd" using assms by (rule ref_invD)
  let ?nd = "nd\<lparr>ref_count := ref_count nd + 1\<rparr>"
  have "ref_inv (set_inode n ?nd s) (R(n := R n + 1)) (P(n := P n))"
    using assms(1) nd by (intro ref_inv_set) (auto simp: sfs_node_eq)
  then show ?thesis using that [of "set_inode n ?nd s"] nd nodes_keep_set [OF nd(1), of ?nd]
    by (simp add: inode_ref_inc_def inode_at_def sfs_node_eq)
qed

lemma open_inc_spec:
  assumes "ref_inv s R P" "P n < R n"
  obtains s' where "inode_open_inc s n = Inr (s', int (P n) + 1)" "ref_inv s' R (P(n := P n + 1))" "nodes_keep s s'"
    "sfs s' = sfs s"
proof -
  obtain nd where nd: "inodes s n = Some nd" "ref_count nd = int (R n)" "open_count nd = int (P n)" "P n \<le> R n"
    "inode_typed (blocks (sfs s)) nd" using assms by (auto intro: ref_invD [of s R P n])
  let ?nd = "nd\<lparr>open_count := open_count nd + 1\<rparr>"
  have "ref_inv (set_inode n ?nd s) (R(n := R n)) (P(n := P n + 1))"
    using assms nd by (intro ref_inv_set) (auto simp: sfs_node_eq)
  then show ?thesis using that [of "set_inode n ?nd s"] nd nodes_keep_set [OF nd(1), of ?nd]
    by (simp add: inode_open_inc_def inode_at_def sfs_node_eq)
qed

section \<open>Dropping references\<close>

lemma length_din_bytes: "length (direct d) = 12 \<Longrightarrow> length (din_bytes d) = 64"
proof -
  have "length (concat (map le32_bytes xs)) = 4 * length xs" for xs by (induction xs) (simp_all add: le32_bytes_def)
  then show "length (direct d) = 12 \<Longrightarrow> length (din_bytes d) = 64" by (simp add: din_bytes_def le32_bytes_def le16_bytes_def)
qed

lemma sfs_fsync_spec:
  assumes "blocks f \<le> 1024" "ino sin \<noteq> 0" "ino sin < blocks f" "length (direct (din sin)) = 12"
  shows "sfs_fsync f sin = Inr (f, sin\<lparr>dirty := False\<rparr>, 0)"
proof (cases "dirty sin")
  case True
  have "sfs_wbuf f (din_bytes (din sin)) 0 64 (ino sin) 0 = Inr (f, din_bytes (din sin), 0)"
    using assms by (intro sfs_wbuf_spec) (auto simp: in_block_def length_din_bytes)
  with True show ?thesis by (simp add: sfs_fsync_def)
qed (simp add: sfs_fsync_def)

lemma typed_sfs:
  assumes "inode_typed b nd" "in_ops nd \<noteq> dev_node_ops"
  obtains sin where "in_info nd = Sfs_inode_info sin" "sfs_info nd = Inr sin" "ino sin \<noteq> 0" "ino sin < b"
    "length (direct (din sin)) = 12" "reclaim_count sin = 1" "nlinks (din sin) \<noteq> 0" "in_fs nd"
    "sfs_get_ops (dtype (din sin)) = Inr (in_ops nd)"
  using assms that by (cases "in_info nd") (auto simp: inode_typed_def sfs_info_def)

lemma typed_dev:
  assumes "inode_typed b nd" "in_ops nd = dev_node_ops"
  obtains d where "in_info nd = Device_info d" "device_info nd = Inr d"
  using assms that
  by (cases "in_info nd") (auto simp: inode_typed_def device_info_def sfs_get_ops_def split: if_splits)

lemma put_sin_set: "inodes s n = Some nd \<Longrightarrow> put_sin n (sfs s) sin s = set_inode n (nd\<lparr>in_info := Sfs_inode_info sin\<rparr>) s"
  by (simp add: put_sin_def)

lemma vop_fsync_spec:
  assumes nd: "inodes s n = Some nd" and t: "inode_typed (blocks (sfs s)) nd" "in_ops nd \<noteq> dev_node_ops" "inode_check nd"
    and b: "blocks (sfs s) \<le> 1024"
  obtains sin where "vop_fsync s n = Inr (set_inode n (nd\<lparr>in_info := Sfs_inode_info (sin\<lparr>dirty := False\<rparr>)\<rparr>) s, 0)"
    "in_info nd = Sfs_inode_info sin"
proof -
  obtain sin where i: "in_info nd = Sfs_inode_info sin" "sfs_info nd = Inr sin" "ino sin \<noteq> 0" "ino sin < blocks (sfs s)"
    "length (direct (din sin)) = 12" using t(1,2) by (rule typed_sfs)
  have "Vop_fsync \<in> set (vops_of (in_ops nd))" using t(2) by (cases "in_ops nd") auto
  then have "vop_fsync s n = Inr (set_inode n (nd\<lparr>in_info := Sfs_inode_info (sin\<lparr>dirty := False\<rparr>)\<rparr>) s, 0)"
    using nd t(3) i b by (simp add: vop_fsync_def vop_op_def inode_at_def sfs_fsync_spec put_sin_set)
  then show ?thesis using that i(1) by blast
qed

lemma open_dec_spec:
  assumes inv: "ref_inv s R P" and pos: "0 < P n" and max: "R n < 65536"
  obtains s' where "inode_open_dec s n = Inr (s', int (P n) - 1)" "ref_inv s' R (P(n := P n - 1))" "nodes_keep s s'"
    "sfs s' = sfs s"
proof -
  have "0 < R n" using ref_inv_slot [OF inv, of n] pos by (cases "inodes s n") auto
  with inv obtain nd where nd: "inodes s n = Some nd" "ref_count nd = int (R n)" "open_count nd = int (P n)" "P n \<le> R n"
    "inode_typed (blocks (sfs s)) nd" by (rule ref_invD)
  let ?nd = "nd\<lparr>open_count := open_count nd - 1\<rparr>"
  let ?s = "set_inode n ?nd s"
  have inv1: "ref_inv ?s (R(n := R n)) (P(n := P n - 1))"
    using inv nd pos by (intro ref_inv_set) (auto simp: sfs_node_eq)
  have keep: "nodes_keep s ?s" using nd(1) by (rule nodes_keep_set) (simp_all add: sfs_node_eq nd(1))
  show ?thesis
  proof (cases "P n = 1")
    case False
    with keep show ?thesis using that [of ?s] nd pos inv1 by (simp add: inode_open_dec_def inode_at_def Let_def of_nat_diff)
  next
    case True
    have chk: "inode_check ?nd" using nd max True by (simp add: inode_check_def)
    have cl: "Vop_close \<in> set (vops_of (in_ops nd))" by (cases "in_ops nd") auto
    show ?thesis
    proof (cases "in_ops nd = dev_node_ops")
      case dev: True
      then obtain d where "device_info nd = Inr d" using nd(5) by (auto elim: typed_dev)
      then have "device_info ?nd = Inr d" by (simp add: device_info_def)
      then have "vop_close ?s n = Inr (?s, 0)"
        using dev chk cl by (simp add: vop_close_def vop_op_def inode_at_def)
      then show ?thesis using that [of ?s] nd inv1 True keep by (simp add: inode_open_dec_def inode_at_def Let_def)
    next
      case False
      have t: "inode_typed (blocks (sfs ?s)) ?nd" "in_ops ?nd \<noteq> dev_node_ops" using nd(5) False by simp_all
      have b: "blocks (sfs ?s) \<le> 1024" using inv by (simp add: ref_inv_def)
      obtain sin where f: "vop_fsync ?s n = Inr (set_inode n (?nd\<lparr>in_info := Sfs_inode_info (sin\<lparr>dirty := False\<rparr>)\<rparr>) ?s, 0)"
        "in_info ?nd = Sfs_inode_info sin" using vop_fsync_spec [of ?s n ?nd] t chk b by auto
      let ?s' = "set_inode n (?nd\<lparr>in_info := Sfs_inode_info (sin\<lparr>dirty := False\<rparr>)\<rparr>) ?s"
      have "ref_inv ?s' ((R(n := R n))(n := R n)) ((P(n := P n - 1))(n := P n - 1))"
      proof (rule ref_inv_set [OF inv1, of n ?nd])
        show "sfs_node ?s' n = sfs_node ?s n" using f(2) by (simp add: sfs_node_def)
        show "inode_typed (blocks (sfs ?s)) (?nd\<lparr>in_info := Sfs_inode_info (sin\<lparr>dirty := False\<rparr>)\<rparr>)"
          using nd(5) f(2) by (simp add: inode_typed_def)
      qed (use nd True in auto)
      moreover have "vop_close ?s n = Inr (?s', 0)"
        using False chk cl f(1) by (simp add: vop_close_def vop_op_def inode_at_def)
      moreover have "nodes_keep ?s ?s'" by (rule nodes_keep_set [of _ _ ?nd]) (use f(2) in \<open>simp_all add: sfs_node_def\<close>)
      then have "nodes_keep s ?s'" by (rule nodes_keep_trans [OF keep])
      ultimately show ?thesis using that [of ?s'] nd True by (simp add: inode_open_dec_def inode_at_def Let_def)
    qed
  qed
qed

text \<open>Freeing the inode \<open>n\<close> with number \<open>x\<close>.\<close>

lemma cache_wf_remove:
  assumes wf: "cache_wf s" and n: "sfs_node s n = Some x"
    and l: "sfs s' = sfs_remove_links (sfs s) n x" and i: "sfs_node s' = (sfs_node s)(n := None)"
  shows "cache_wf s'"
proof -
  have d: "distinct (inode_list (sfs s))" "set (inode_list (sfs s)) = dom (sfs_node s)" "inj_on (sfs_node s) (dom (sfs_node s))"
    and h: "\<And>h. distinct (hash_list (sfs s) h)" "\<And>h. set (hash_list (sfs s) h) = {n. \<exists>x. sfs_node s n = Some x \<and> sin_hashfn x = h}"
    using wf by (auto simp: cache_wf_def)
  have "set (hash_list (sfs s') h) = {k. \<exists>y. sfs_node s' k = Some y \<and> sin_hashfn y = h}" for h
    using h n by (auto simp: l i sfs_remove_links_def)
  moreover have "inj_on (sfs_node s') (dom (sfs_node s'))"
    using d(3) by (auto simp: i inj_on_def split: if_splits)
  ultimately show ?thesis
    using d(1,2) h(1) unfolding cache_wf_def by (auto simp: l i sfs_remove_links_def)
qed

lemma reclaim_spec:
  assumes inv: "ref_inv s R P" and nd: "inodes s n = Some nd" and r: "R n = 1" "P n = 0" and sfs: "in_ops nd \<noteq> dev_node_ops"
  obtains s' where "vop_reclaim (set_inode n (nd\<lparr>ref_count := 0\<rparr>) s) n = Inr (s', 0)" "ref_inv s' (R(n := 0)) P" "nodes_keep s s'"
proof -
  let ?nd = "nd\<lparr>ref_count := 0\<rparr>" and ?s = "set_inode n (nd\<lparr>ref_count := 0\<rparr>) s"
  have t: "inode_typed (blocks (sfs s)) nd" "open_count nd = 0" and b: "blocks (sfs s) \<le> 1024"
    using ref_inv_at [OF inv nd] r inv by (auto simp: ref_inv_def)
  obtain sin where i: "in_info nd = Sfs_inode_info sin" "sfs_info nd = Inr sin" "ino sin \<noteq> 0" "ino sin < blocks (sfs s)"
    "length (direct (din sin)) = 12" "reclaim_count sin = 1" "nlinks (din sin) \<noteq> 0"
    using t(1) sfs by (rule typed_sfs)
  define sin1 where "sin1 = sin\<lparr>reclaim_count := 0\<rparr>"
  define nd1 where "nd1 = ?nd\<lparr>in_info := Sfs_inode_info sin1\<rparr>"
  define sin2 where "sin2 = sin1\<lparr>dirty := False\<rparr>"
  define nd2 where "nd2 = ?nd\<lparr>in_info := Sfs_inode_info sin2\<rparr>"
  let ?s1 = "set_inode n nd1 ?s" and ?s2 = "set_inode n nd2 ?s"
  have ops: "Vop_reclaim \<in> set (vops_of (in_ops nd))" "Vop_fsync \<in> set (vops_of (in_ops nd))"
    using sfs by (cases "in_ops nd"; simp)+
  have chk: "inode_check ?nd" "inode_check nd1" using t(2) by (simp_all add: inode_check_def nd1_def)
  have "vop_fsync ?s1 n = Inr (?s2, 0)"
    using i b chk(2) ops(2)
    by (simp add: vop_fsync_def vop_op_def inode_at_def nd1_def sfs_info_def sin1_def sfs_fsync_spec put_sin_def nd2_def sin2_def set_inode_def)
  then have f: "(if dirty sin1 then vop_fsync ?s1 n else Inr (?s1, 0)) = Inr (?s2, 0)"
  proof -
    have "nd2 = nd1" if "\<not> dirty sin1" using that by (simp add: nd1_def nd2_def sin2_def)
    with \<open>vop_fsync ?s1 n = Inr (?s2, 0)\<close> show ?thesis by auto
  qed
  let ?f = "sfs_remove_links (sfs s) n (ino sin)"
  let ?s' = "?s2\<lparr>sfs := ?f, inodes := (inodes ?s2)(n := None)\<rparr>"
  have "sfs_reclaim_free ?s2 n = Inr (?s', 0)"
    using i t(2) by (simp add: sfs_reclaim_free_def inode_at_def nd2_def sin2_def sin1_def sfs_info_def inode_kill_def Let_def)
  moreover have "in_info nd1 = Sfs_inode_info sin1" by (simp add: nd1_def)
  then have "sfs_reclaim ?s n = sfs_reclaim_free ?s2 n"
    using i f by (simp add: sfs_reclaim_def inode_at_def Let_def put_sin_def sfs_info_def flip: sin1_def nd1_def)
  ultimately have "vop_reclaim ?s n = Inr (?s', 0)"
    using ops(1) chk(1) by (simp add: vop_reclaim_def vop_op_def inode_at_def)
  moreover have "ref_inv ?s' (R(n := 0)) P"
  proof -
    have x: "sfs_node s n = Some (ino sin)" using nd i(1) by (simp add: sfs_node_def)
    have e: "sfs_node ?s' = (sfs_node s)(n := None)" by (rule ext) (simp add: sfs_node_def)
    have "cache_wf s" using inv by (simp add: ref_inv_def)
    then have "cache_wf ?s'" by (rule cache_wf_remove [OF _ x _ e]) simp
    then show ?thesis using inv r(2) by (simp add: ref_inv_def sfs_remove_links_def)
  qed
  moreover have "vfs_same s ?s'" by (simp add: vfs_same_def sfs_remove_links_def)
  then have "nodes_keep s ?s'" by (auto simp: nodes_keep_def sfs_node_def)
  ultimately show ?thesis by (rule that)
qed

lemma ref_dec_spec:
  assumes inv: "ref_inv s R P" and pos: "P n < R n" and dev: "R n = 1 \<Longrightarrow> sfs_node s n \<noteq> None"
  obtains s' where "inode_ref_dec s n = Inr (s', int (R n) - 1)" "ref_inv s' (R(n := R n - 1)) P" "nodes_keep s s'"
proof -
  obtain nd where nd: "inodes s n = Some nd" "ref_count nd = int (R n)" "open_count nd = int (P n)"
    "inode_typed (blocks (sfs s)) nd" using inv pos by (auto intro: ref_invD [of s R P n])
  let ?s = "set_inode n (nd\<lparr>ref_count := ref_count nd - 1\<rparr>) s"
  show ?thesis
  proof (cases "R n = 1")
    case False
    have "ref_inv ?s (R(n := R n - 1)) (P(n := P n))"
      using inv nd pos False by (intro ref_inv_set) (auto simp: sfs_node_eq)
    moreover have "nodes_keep s ?s" using nd(1) by (rule nodes_keep_set) (simp_all add: sfs_node_eq nd(1))
    ultimately show ?thesis using that [of ?s] nd pos False
      by (simp add: inode_ref_dec_def inode_at_def Let_def of_nat_diff)
  next
    case True
    then have "in_ops nd \<noteq> dev_node_ops"
      using dev nd(1,4) by (auto simp: sfs_node_def inode_typed_def sfs_get_ops_def split: in_info.splits if_splits)
    with inv nd(1) True pos obtain s' where
      "vop_reclaim (set_inode n (nd\<lparr>ref_count := 0\<rparr>) s) n = Inr (s', 0)" "ref_inv s' (R(n := 0)) P" "nodes_keep s s'"
      by (auto elim: reclaim_spec)
    then show ?thesis using that [of s'] nd True by (simp add: inode_ref_dec_def inode_at_def Let_def)
  qed
qed

section \<open>Finding and loading inodes\<close>

lemma find_sin_spec:
  "(\<forall>n \<in> set ns. sfs_node s n \<noteq> None) \<Longrightarrow> find_sin s x ns = Inr (find (\<lambda>n. sfs_node s n = Some x) ns)"
  by (induction ns) (auto simp: inode_at_def sfs_info_def sfs_node_def split: option.splits in_info.splits)

text \<open>Memory for the inode with a given number is not in use by another inode.\<close>

definition fresh_mem :: "vfs \<Rightarrow> kmem \<Rightarrow> bool" where
  "fresh_mem s m \<longleftrightarrow> (\<forall>x n. inode_mem m x = Some n \<longrightarrow> inodes s n = None \<or> sfs_node s n = Some x)"

text \<open>
  What a step may do to the inodes: nothing changes its kind, and a new one lies in the memory for its number.
\<close>

definition nodes_step :: "kmem \<Rightarrow> vfs \<Rightarrow> vfs \<Rightarrow> bool" where
  "nodes_step m s s' \<longleftrightarrow> vfs_same s s' \<and>
     (\<forall>n nd. inodes s' n = Some nd \<longrightarrow>
        (\<exists>nd'. inodes s n = Some nd' \<and> sfs_node s' n = sfs_node s n \<and> in_ops nd = in_ops nd') \<or>
        (\<exists>x. inode_mem m x = Some n \<and> sfs_node s' n = Some x))"

lemma nodes_step_refl [simp]: "nodes_step m s s"
  by (auto simp: nodes_step_def)

lemma nodes_keep_step: "nodes_keep s s' \<Longrightarrow> nodes_step m s s'"
  unfolding nodes_keep_def nodes_step_def by blast

lemma nodes_step_trans: "nodes_step m s s' \<Longrightarrow> nodes_step m s' s'' \<Longrightarrow> nodes_step m s s''"
proof -
  assume a: "nodes_step m s s'" and b: "nodes_step m s' s''"
  have "(\<exists>nd'. inodes s n = Some nd' \<and> sfs_node s'' n = sfs_node s n \<and> in_ops nd = in_ops nd') \<or>
      (\<exists>x. inode_mem m x = Some n \<and> sfs_node s'' n = Some x)" if nd: "inodes s'' n = Some nd" for n nd
  proof -
    from b nd consider nd' where "inodes s' n = Some nd'" "sfs_node s'' n = sfs_node s' n" "in_ops nd = in_ops nd'"
      | x where "inode_mem m x = Some n" "sfs_node s'' n = Some x" unfolding nodes_step_def by blast
    then show ?thesis
    proof cases
      case 1
      from a 1(1) consider nd'' where "inodes s n = Some nd''" "sfs_node s' n = sfs_node s n" "in_ops nd' = in_ops nd''"
        | x where "inode_mem m x = Some n" "sfs_node s' n = Some x" unfolding nodes_step_def by blast
      then show ?thesis using 1 by cases auto
    qed blast
  qed
  moreover have "vfs_same s s''" using a b vfs_same_trans by (auto simp: nodes_step_def)
  ultimately show "nodes_step m s s''" by (simp add: nodes_step_def)
qed

lemma fresh_mem_step:
  assumes "fresh_mem s m" "nodes_step m s s'" "inj_on (inode_mem m) (dom (inode_mem m))"
  shows "fresh_mem s' m"
  unfolding fresh_mem_def
proof (intro allI impI)
  fix x n
  assume x: "inode_mem m x = Some n"
  show "inodes s' n = None \<or> sfs_node s' n = Some x"
  proof (cases "inodes s' n")
    case (Some nd)
    with assms(2) consider nd' where "inodes s n = Some nd'" "sfs_node s' n = sfs_node s n"
      | y where "inode_mem m y = Some n" "sfs_node s' n = Some y" unfolding nodes_step_def by blast
    then show ?thesis
    proof cases
      case 1
      from assms(1) x have "inodes s n = None \<or> sfs_node s n = Some x" by (simp add: fresh_mem_def)
      with 1 show ?thesis by simp
    next
      case 2
      then have "y = x" using assms(3) x by (metis domI inj_onD)
      then show ?thesis using 2 by simp
    qed
  qed simp
qed

definition mem_ok :: "vfs \<Rightarrow> kmem \<Rightarrow> bool" where
  "mem_ok s m \<longleftrightarrow> fresh_mem s m \<and> inj_on (inode_mem m) (dom (inode_mem m))"

lemma mem_ok_step: "mem_ok s m \<Longrightarrow> nodes_step m s s' \<Longrightarrow> mem_ok s' m"
  using fresh_mem_step by (auto simp: mem_ok_def)

text \<open>The outcome of an operation that hands out a reference: an error, or one more reference.\<close>

definition got_ref :: "vfs \<Rightarrow> int \<Rightarrow> nat option \<Rightarrow> (nat \<Rightarrow> nat) \<Rightarrow> (nat \<Rightarrow> nat) \<Rightarrow> bool" where
  "got_ref s ret r R P \<longleftrightarrow>
     (case r of None \<Rightarrow> ret \<noteq> 0 \<and> ref_inv s R P | Some n \<Rightarrow> ret = 0 \<and> ref_inv s (R(n := R n + 1)) P)"

lemma got_ref_simps [simp]:
  "got_ref s ret None R P \<longleftrightarrow> ret \<noteq> 0 \<and> ref_inv s R P"
  "got_ref s ret (Some n) R P \<longleftrightarrow> ret = 0 \<and> ref_inv s (R(n := R n + 1)) P"
  by (simp_all add: got_ref_def)

lemma lookup_sfs_inv:
  assumes inv: "ref_inv s R P" and l: "lookup_sfs_nolock s x = Inr (s', r)"
  shows "case r of None \<Rightarrow> s' = s \<and> (\<forall>k. sfs_node s k \<noteq> Some x)
    | Some n \<Rightarrow> nodes_keep s s' \<and> ref_inv s' (R(n := R n + 1)) P"
proof -
  have h: "set (hash_list (sfs s) (sin_hashfn x)) = {n. \<exists>y. sfs_node s n = Some y \<and> sin_hashfn y = sin_hashfn x}"
    using inv by (simp add: ref_inv_def cache_wf_def)
  then have f: "find_sin s x (hash_list (sfs s) (sin_hashfn x)) = Inr (find (\<lambda>n. sfs_node s n = Some x) (hash_list (sfs s) (sin_hashfn x)))"
    by (intro find_sin_spec) auto
  show ?thesis
  proof (cases "find (\<lambda>n. sfs_node s n = Some x) (hash_list (sfs s) (sin_hashfn x))")
    case None
    then have "r = None" "s' = s" using l f by (auto simp: lookup_sfs_nolock_def)
    moreover have "sfs_node s k \<noteq> Some x" for k using None h by (auto simp: find_None_iff)
    ultimately show ?thesis by simp
  next
    case (Some n)
    then have "sfs_node s n = Some x" by (auto simp: find_Some_iff)
    then have pos: "0 < R n" using ref_inv_slot [OF inv, of n] by (cases "inodes s n") (auto simp: sfs_node_def)
    from ref_inc_spec [OF inv this] obtain s1 where i: "inode_ref_inc s n = Inr (s1, int (R n) + 1)"
      "ref_inv s1 (R(n := R n + 1)) P" "nodes_keep s s1" .
    have "s' = s1 \<and> r = Some n" using l f Some i(1) pos by (auto simp: lookup_sfs_nolock_def bindE_Inr_iff)
    then show ?thesis using i by simp
  qed
qed

lemma cache_wf_add:
  assumes wf: "cache_wf s" and n: "inodes s n = None" and x: "\<And>k. sfs_node s k \<noteq> Some x"
    and l: "sfs s' = sfs_set_links (sfs s) n x" and i: "sfs_node s' = (sfs_node s)(n := Some x)"
  shows "cache_wf s'"
proof -
  have z: "sfs_node s n = None" using n by (simp add: sfs_node_def)
  have d: "distinct (inode_list (sfs s))" "set (inode_list (sfs s)) = dom (sfs_node s)" "inj_on (sfs_node s) (dom (sfs_node s))"
    and h: "\<And>h. distinct (hash_list (sfs s) h)" "\<And>h. set (hash_list (sfs s) h) = {n. \<exists>x. sfs_node s n = Some x \<and> sin_hashfn x = h}"
    using wf by (auto simp: cache_wf_def)
  have "set (hash_list (sfs s') h) = {k. \<exists>y. sfs_node s' k = Some y \<and> sin_hashfn y = h}" for h
    using h(2) z by (auto simp: l i sfs_set_links_def)
  moreover have "distinct (hash_list (sfs s') h)" for h
    using h z by (auto simp: l sfs_set_links_def)
  moreover have "inj_on (sfs_node s') (dom (sfs_node s'))"
    using d(3) x unfolding i inj_on_def by (metis (no_types, lifting) domD domI fun_upd_apply)
  moreover have "distinct (inode_list (sfs s'))" "set (inode_list (sfs s')) = dom (sfs_node s')"
    using d(1,2) z by (auto simp: l i sfs_set_links_def)
  ultimately show ?thesis unfolding cache_wf_def by blast
qed

lemma read_din_direct: "length (direct (read_din b)) = 12"
  by (simp add: read_din_def)

lemma load_inode_inv:
  assumes inv: "ref_inv s R P" and fresh: "fresh_mem s m" and load: "sfs_load_inode s x m = Inr (s', ret, r)"
  shows "nodes_step m s s' \<and> got_ref s' ret r R P"
proof -
  obtain s1 c where l: "lookup_sfs_nolock s x = Inr (s1, c)" using load by (auto simp: sfs_load_inode_def bindE_Inr_iff)
  show ?thesis
  proof (cases c)
    case (Some n)
    with lookup_sfs_inv [OF inv l] load l show ?thesis by (auto simp: sfs_load_inode_def nodes_keep_step)
  next
    case None
    with lookup_sfs_inv [OF inv l] have s1: "s1 = s" and no: "\<And>k. sfs_node s k \<noteq> Some x" by auto
    show ?thesis
    proof (cases "din_mem m x")
      case False
      then show ?thesis using load l None s1 inv by (auto simp: sfs_load_inode_def)
    next
      case True
      with load l None s1 obtain f dat e where
        u: "sfs_block_inuse (sfs s) x = Inr True" and rb: "sfs_rbuf (sfs s) (replicate 64 0) 0 64 x 0 = Inr (f, dat, e)"
        by (auto simp: sfs_load_inode_def bindE_Inr_iff)
      then have f: "f = sfs s" by (auto dest: rbuf_same)
      have x: "x \<noteq> 0" "x < blocks (sfs s)" using u by (auto simp: sfs_block_inuse_def split: if_splits)
      let ?d = "read_din dat"
      show ?thesis
      proof (cases "e = 0 \<and> inode_mem m x \<noteq> None")
        case False
        then show ?thesis using load l None s1 True u rb f inv
          by (auto simp: sfs_load_inode_def Let_def sfs_create_inode_def bindE_Inr_iff split: if_splits option.splits)
      next
        case True': True
        then obtain n where n: "inode_mem m x = Some n" by auto
        then have free: "inodes s n = None" using fresh no [of n] by (auto simp: fresh_mem_def)
        from load l None s1 True u rb f True' n obtain ops where nl: "nlinks ?d \<noteq> 0" and ops: "sfs_get_ops (dtype ?d) = Inr ops"
          and s': "ret = 0" "r = Some n" "s' = (set_inode n (inode_init (Sfs_inode_info \<lparr>din = ?d, ino = x, dirty = False, reclaim_count = 1\<rparr>) ops True) s)\<lparr>sfs := sfs_set_links (sfs s) n x\<rparr>"
          by (auto simp: sfs_load_inode_def Let_def sfs_create_inode_def bindE_Inr_iff split: if_splits)
        have e: "sfs_node s' = (sfs_node s)(n := Some x)" by (rule ext) (simp add: s' sfs_node_def inode_init_def)
        have "cache_wf s" using inv by (simp add: ref_inv_def)
        then have "cache_wf s'" by (rule cache_wf_add [OF _ free no _ e]) (simp add: s')
        moreover have "R n = 0" "P n = 0" using ref_inv_slot [OF inv, of n] free by auto
        moreover have b: "blocks (sfs s') = blocks (sfs s)" by (simp add: s' sfs_set_links_def)
        ultimately have "ref_inv s' (R(n := R n + 1)) P"
          using inv x nl ops by (auto simp: ref_inv_def b) (auto simp: s' inode_init_def inode_typed_def read_din_direct)
        moreover have "nodes_step m s s'"
          using n e by (auto simp: nodes_step_def s' vfs_same_def sfs_set_links_def)
        ultimately show ?thesis using s' by simp
      qed
    qed
  qed
qed

text \<open>The last reference to a device is never dropped: the kernel panics.\<close>

lemma ref_dec_inv:
  assumes inv: "ref_inv s R P" and pos: "P n < R n" and d: "inode_ref_dec s n = Inr (s', c)"
  shows "nodes_keep s s' \<and> ref_inv s' (R(n := R n - 1)) P"
proof (cases "R n = 1 \<and> sfs_node s n = None")
  case False
  then have "R n = 1 \<Longrightarrow> sfs_node s n \<noteq> None" by auto
  from ref_dec_spec [OF inv pos this] obtain t where "inode_ref_dec s n = Inr (t, int (R n) - 1)" "ref_inv t (R(n := R n - 1)) P" "nodes_keep s t" .
  with d show ?thesis by simp
next
  case True
  obtain nd where nd: "inodes s n = Some nd" "ref_count nd = int (R n)" "inode_typed (blocks (sfs s)) nd"
    using inv pos by (auto intro: ref_invD [of s R P n])
  then have "in_ops nd = dev_node_ops" using True by (auto simp: sfs_node_def inode_typed_def split: in_info.splits)
  then have False using d nd True by (simp add: inode_ref_dec_def inode_at_def Let_def vop_reclaim_def vop_op_def)
  then show ?thesis ..
qed

lemma put_sin_same: "inodes s n = Some nd \<Longrightarrow> sfs_info nd = Inr sin \<Longrightarrow> put_sin n (sfs s) sin s = s"
proof -
  assume nd: "inodes s n = Some nd" and i: "sfs_info nd = Inr sin"
  then have "in_info nd = Sfs_inode_info sin" by (simp add: sfs_info_def split: in_info.splits)
  then have "nd\<lparr>in_info := Sfs_inode_info sin\<rparr> = nd" by simp
  then show ?thesis using nd by (simp add: put_sin_def set_inode_def fun_upd_idem)
qed

lemma lookup_once_inv:
  assumes inv: "ref_inv s R P" and m: "mem_ok s m" and l: "sfs_lookup_once s n name m = Inr (s', ret, r)"
  shows "nodes_step m s s' \<and> got_ref s' ret r R P"
proof -
  obtain nd sin f sin' e q es where nd: "inodes s n = Some nd" "sfs_info nd = Inr sin"
    and q: "sfs_dirent_search_nolock (sfs s) sin name (entry_mem m) = Inr (f, sin', e, q, es)"
    using l by (auto simp: sfs_lookup_once_def bindE_Inr_iff inode_at_def split: option.splits)
  then have "f = sfs s" "sin' = sin" by (auto dest: search_same)
  with nd have p: "put_sin n f sin' s = s" by (simp add: put_sin_same)
  show ?thesis
  proof (cases q)
    case None
    then have "ret = e" "e \<noteq> 0" "s' = s" "r = None"
      using l nd q p search_missing by (auto simp: sfs_lookup_once_def inode_at_def)
    then show ?thesis using inv by simp
  next
    case (Some y)
    then have "e = 0" using q by (auto dest: search_found)
    then have "sfs_load_inode s (fst y) m = Inr (s', ret, r)"
      using l nd q p Some by (auto simp: sfs_lookup_once_def inode_at_def split: prod.splits)
    then show ?thesis using inv m by (intro load_inode_inv) (auto simp: mem_ok_def)
  qed
qed

lemma got_ref_dec:
  assumes got: "got_ref s ret r (R(n := R n + 1)) P" and le: "P n \<le> R n" and d: "inode_ref_dec s n = Inr (s', c)"
  shows "nodes_keep s s' \<and> got_ref s' ret r R P"
proof (cases r)
  case None
  then have "ref_inv s (R(n := R n + 1)) P" "ret \<noteq> 0" using got by simp_all
  with ref_dec_inv [OF this(1) _ d] le None show ?thesis by simp
next
  case (Some k)
  let ?R = "(R(n := R n + 1))(k := (R(n := R n + 1)) k + 1)"
  have "ref_inv s ?R P" "ret = 0" using got Some by simp_all
  moreover have "?R(n := ?R n - 1) = R(k := R k + 1)" by (auto simp: fun_eq_iff)
  moreover have "P n < ?R n" using le by auto
  ultimately show ?thesis using ref_dec_inv [of s ?R P n s' c] d Some by (simp only: got_ref_simps simp_thms)
qed

lemma sfs_lookup_inv:
  assumes inv: "ref_inv s R P" and m: "mem_ok s m" and pos: "0 < R n" and l: "sfs_lookup s n path m = Inr (s', ret, r)"
  shows "nodes_step m s s' \<and> got_ref s' ret r R P"
proof -
  from ref_inc_spec [OF inv pos] obtain s1 where i: "inode_ref_inc s n = Inr (s1, int (R n) + 1)"
    "ref_inv s1 (R(n := R n + 1)) P" "nodes_keep s s1" .
  have le: "P n \<le> R n" using ref_inv_slot [OF inv, of n] by (cases "inodes s n") auto
  have m1: "mem_ok s1 m" and k: "nodes_step m s s1" using m i(3) by (auto intro: mem_ok_step nodes_keep_step)
  from l i(1) consider (notdir) c where "inode_ref_dec s1 n = Inr (s', c)" "ret = - E_NOTDIR" "r = None"
    | (dir) s2 q c where "sfs_lookup_once s1 n path m = Inr (s2, ret, q)" "inode_ref_dec s2 n = Inr (s', c)"
      "r = (if ret \<noteq> 0 then None else q)"
    by (auto simp: sfs_lookup_def bindE_Inr_iff split: if_splits)
  then show ?thesis
  proof cases
    case notdir
    have "got_ref s1 ret None (R(n := R n + 1)) P" using i(2) notdir(2) by simp
    from got_ref_dec [OF this le notdir(1)] notdir(3) k show ?thesis by (auto intro: nodes_step_trans nodes_keep_step)
  next
    case dir
    from lookup_once_inv [OF i(2) m1 dir(1)] have g: "nodes_step m s1 s2" "got_ref s2 ret q (R(n := R n + 1)) P" by auto
    then have "r = q" using dir(3) by (cases q) auto
    with got_ref_dec [OF g(2) le dir(2)] g(1) k show ?thesis by (auto intro: nodes_step_trans nodes_keep_step)
  qed
qed

lemma vop_lookup_inv:
  assumes inv: "ref_inv s R P" and m: "mem_ok s m" and l: "vop_lookup s n path m = Inr (s', ret, r)"
  shows "nodes_step m s s' \<and> got_ref s' ret r R P"
proof -
  obtain nd where nd: "inodes s n = Some nd" using l by (auto simp: vop_lookup_def vop_op_def inode_at_def bindE_Inr_iff split: option.splits)
  then have pos: "0 < R n" using ref_inv_at [OF inv nd] by simp
  show ?thesis
  proof (cases "in_ops nd = dev_node_ops")
    case True
    from ref_inc_spec [OF inv pos] obtain s1 where i: "inode_ref_inc s n = Inr (s1, int (R n) + 1)"
      "ref_inv s1 (R(n := R n + 1)) P" "nodes_keep s s1" .
    with l nd True inv show ?thesis
      by (auto simp: vop_lookup_def vop_op_def inode_at_def bindE_Inr_iff dev_lookup_def nodes_keep_step split: if_splits)
  next
    case False
    then have "sfs_lookup s n path m = Inr (s', ret, r)"
      using l nd by (auto simp: vop_lookup_def vop_op_def inode_at_def bindE_Inr_iff)
    with inv m pos show ?thesis by (rule sfs_lookup_inv)
  qed
qed

section \<open>Paths\<close>

lemma ref_inc_inv:
  assumes inv: "ref_inv s R P" and i: "inode_ref_inc s n = Inr (s', c)"
  shows "nodes_keep s s' \<and> ref_inv s' (R(n := R n + 1)) P"
proof -
  have "inodes s n \<noteq> None" using i by (auto simp: inode_ref_inc_def inode_at_def split: option.splits)
  then have "0 < R n" using ref_inv_slot [OF inv, of n] by (cases "inodes s n") auto
  from ref_inc_spec [OF inv this] i show ?thesis by (metis Inr_inject prod.inject)
qed

lemma get_root_inv:
  assumes inv: "ref_inv s R P" and m: "mem_ok s m" and g: "sfs_get_root s m = Inr (s', n)"
  shows "nodes_step m s s' \<and> ref_inv s' (R(n := R n + 1)) P"
proof -
  have "sfs_load_inode s 1 m = Inr (s', 0, Some n)"
    using g by (auto simp: sfs_get_root_def bindE_Inr_iff split: option.splits if_splits)
  with load_inode_inv [OF inv _ this] m show ?thesis by (simp add: mem_ok_def)
qed

lemma vfs_get_root_inv:
  assumes inv: "ref_inv s R P" and m: "mem_ok s m" and g: "vfs_get_root s name m = Inr (s', ret, r)"
  shows "nodes_step m s s' \<and> got_ref s' ret r R P"
proof (cases "find (\<lambda>v. devname v = name) (vdev_list s)")
  case None
  then show ?thesis using g inv by (simp add: vfs_get_root_def)
next
  case (Some v)
  from g Some consider (fs) n where "sfs_get_root s m = Inr (s', n)" "ret = 0" "r = Some n"
    | (dev) n c where "inode_ref_inc s n = Inr (s', c)" "ret = 0" "r = Some n" | (none) "s' = s" "ret = - E_NA_DEV" "r = None"
    by (cases "devnode v") (auto simp: vfs_get_root_def bindE_Inr_iff split: if_splits)
  then show ?thesis
  proof cases
    case fs
    then show ?thesis using get_root_inv [OF inv m] by simp
  next
    case dev
    then show ?thesis using ref_inc_inv [OF inv] by (simp add: nodes_keep_step)
  next
    case none
    then show ?thesis using inv by simp
  qed
qed

lemma get_curdir_inv:
  assumes inv: "ref_inv s R P" and g: "vfs_get_curdir s cwd = Inr (s', ret, r)"
  shows "nodes_keep s s' \<and> got_ref s' ret r R P \<and> (r \<noteq> None \<longrightarrow> r = cwd)"
  using g inv ref_inc_inv [OF inv]
  by (cases cwd) (auto simp: vfs_get_curdir_def bindE_Inr_iff nodes_keep_def)

lemma get_bootfs_inv:
  assumes inv: "ref_inv s R P" and g: "vfs_get_bootfs s = Inr (s', ret, r)"
  shows "nodes_keep s s' \<and> got_ref s' ret r R P"
proof (cases "bootfs_node s")
  case None
  then show ?thesis using g inv by (simp add: vfs_get_bootfs_def nodes_keep_def)
next
  case (Some n)
  then obtain c where "inode_ref_inc s n = Inr (s', c)" "ret = 0" "r = Some n"
    using g by (auto simp: vfs_get_bootfs_def bindE_Inr_iff)
  then show ?thesis using ref_inc_inv [OF inv] by simp
qed

lemma get_device_inv:
  assumes inv: "ref_inv s R P" and m: "mem_ok s m" and g: "get_device s cwd path m = Inr (s', ret, r, sub, path')"
  shows "nodes_step m s s' \<and> got_ref s' ret r R P"
proof -
  let ?pre = "takeWhile (\<lambda>c. c \<noteq> 0x3A \<and> c \<noteq> 0x2F) path"
  from g consider (cur) "vfs_get_curdir s cwd = Inr (s', ret, r)" | (dev) "vfs_get_root s ?pre m = Inr (s', ret, r)"
    | (boot) "vfs_get_bootfs s = Inr (s', ret, r)" | (none) "vfs_get_curdir s cwd = Inr (s', ret, None)" "r = None"
    | (root) s1 e n s2 root c where "vfs_get_curdir s cwd = Inr (s1, e, Some n)" "sfs_get_root s1 m = Inr (s2, root)"
        "inode_ref_dec s2 n = Inr (s', c)" "ret = 0" "r = Some root"
    by (auto simp: get_device_def Let_def bindE_Inr_iff split: if_splits option.splits)
  then show ?thesis
  proof cases
    case cur
    then show ?thesis using get_curdir_inv [OF inv] by (auto intro: nodes_keep_step)
  next
    case dev
    then show ?thesis using vfs_get_root_inv [OF inv m] by blast
  next
    case boot
    then show ?thesis using get_bootfs_inv [OF inv] by (auto intro: nodes_keep_step)
  next
    case none
    then show ?thesis using get_curdir_inv [OF inv none(1)] by (auto intro: nodes_keep_step)
  next
    case root
    have c: "nodes_keep s s1" "ref_inv s1 (R(n := R n + 1)) P" using get_curdir_inv [OF inv root(1)] by auto
    have k1: "nodes_step m s s1" using c(1) by (rule nodes_keep_step)
    have le: "P n \<le> R n" using ref_inv_slot [OF inv, of n] by (cases "inodes s n") auto
    from get_root_inv [OF c(2) mem_ok_step [OF m k1] root(2)]
    have g: "nodes_step m s1 s2" "got_ref s2 0 (Some root) (R(n := R n + 1)) P" by auto
    from got_ref_dec [OF g(2) le root(3)] root(4,5) g(1) k1 show ?thesis
      by (auto intro: nodes_step_trans nodes_keep_step)
  qed
qed

lemma vfs_lookup_inv:
  assumes inv: "ref_inv s R P" and m: "mem_ok s m" and g: "vfs_lookup s cwd path m = Inr (s', ret, r, path')"
  shows "nodes_step m s s' \<and> got_ref s' ret r R P"
proof -
  obtain s1 e q sub where d: "get_device s cwd path m = Inr (s1, e, q, sub, path')"
    using g by (auto simp: vfs_lookup_def bindE_Inr_iff split: option.splits if_splits)
  note i = get_device_inv [OF inv m d]
  show ?thesis
  proof (cases q)
    case None
    then show ?thesis using g d i by (auto simp: vfs_lookup_def)
  next
    case (Some n)
    then have n: "nodes_step m s s1" "ref_inv s1 (R(n := R n + 1)) P" "e = 0" using i by auto
    show ?thesis
    proof (cases "sub = []")
      case True
      then show ?thesis using g d Some n by (auto simp: vfs_lookup_def)
    next
      case False
      then obtain s2 c where l: "vop_lookup s1 n sub m = Inr (s2, ret, r)" "inode_ref_dec s2 n = Inr (s', c)"
        using g d Some n by (auto simp: vfs_lookup_def bindE_Inr_iff)
      have le: "P n \<le> R n" using ref_inv_slot [OF inv, of n] by (cases "inodes s n") auto
      from vop_lookup_inv [OF n(2) mem_ok_step [OF m n(1)] l(1)]
      have "nodes_step m s1 s2" "got_ref s2 ret r (R(n := R n + 1)) P" by auto
      with got_ref_dec [OF this(2) le l(2)] n(1) show ?thesis by (auto intro: nodes_step_trans nodes_keep_step)
    qed
  qed
qed

section \<open>Operations on the content of an inode\<close>

text \<open>What the operations on a file keep of its inode.\<close>

definition sin_keep :: "sfs_inode \<Rightarrow> sfs_inode \<Rightarrow> bool" where
  "sin_keep x y \<longleftrightarrow> ino y = ino x \<and> reclaim_count y = reclaim_count x \<and> dtype (din y) = dtype (din x) \<and>
     nlinks (din y) = nlinks (din x) \<and> length (direct (din y)) = length (direct (din x))"

definition op_keeps :: "sfs_fs \<Rightarrow> sfs_inode \<Rightarrow> sfs_fs \<Rightarrow> sfs_inode \<Rightarrow> bool" where
  "op_keeps f x f' y \<longleftrightarrow> same_volume f f' \<and> sin_keep x y"

lemma op_keeps_refl [simp]: "op_keeps f x f x"
  by (simp add: op_keeps_def sin_keep_def)

lemma op_keeps_trans: "op_keeps f x f' y \<Longrightarrow> op_keeps f' y f'' z \<Longrightarrow> op_keeps f x f'' z"
  by (auto simp: op_keeps_def sin_keep_def intro: same_volume_trans)

lemma clear_block_same: "sfs_clear_block s b n = Inr (s', ret) \<Longrightarrow> s' = s"
proof (induction n arbitrary: s b)
  case (Suc n)
  then show ?case by (auto simp: bindE_Inr_iff split: if_splits dest: rwblock_same)
qed simp

lemma block_alloc_keeps:
  assumes "sfs_block_alloc s = Inr (s', ret, i)"
  shows "same_volume s s'"
proof -
  obtain fm e k where b: "bitmap_alloc (freemap s) = Inr (fm, e, k)"
    using assms by (auto simp: sfs_block_alloc_def bindE_Inr_iff)
  show ?thesis
  proof (cases k)
    case None
    then show ?thesis using assms b by (auto simp: sfs_block_alloc_def same_volume_def)
  next
    case (Some n)
    let ?s = "s\<lparr>freemap := fm, unused_blocks := unused_blocks s - 1, super_dirty := True\<rparr>"
    have "\<exists>c. sfs_clear_block ?s n 1 = Inr (s', c)"
      using assms b Some unfolding sfs_block_alloc_def by (auto simp: bindE_Inr_iff Let_def simp del: sfs_clear_block.simps One_nat_def)
    then have "s' = ?s" by (blast dest: clear_block_same)
    then show ?thesis by (simp add: same_volume_def)
  qed
qed

lemma block_free_keeps: "sfs_block_free s i = Inr s' \<Longrightarrow> same_volume s s'"
  by (auto simp: sfs_block_free_def bindE_Inr_iff same_volume_def)

lemma bmap_new_keeps: "sfs_bmap_new_entry s entp ent off = Inr (s', ret, e, i) \<Longrightarrow> same_volume s s'"
  by (auto simp: sfs_bmap_new_entry_def bindE_Inr_iff Let_def split: if_splits
      dest!: block_alloc_keeps block_free_keeps wbuf_same intro: same_volume_trans)

lemma bmap_get_sub_keeps:
  assumes "sfs_bmap_get_sub_nolock s e index c = Inr (s', ret, e', i)"
  shows "same_volume s s'"
proof -
  from assms consider (same) "s' = s" | (old) dat where "sfs_rbuf s [0, 0, 0, 0] 0 4 e (index * 4) = Inr (s', dat, ret)"
    | (read) t dat where "sfs_rbuf s [0, 0, 0, 0] 0 4 e (index * 4) = Inr (t, dat, 0)"
        "s' = t \<or> sfs_bmap_new_entry t e e (index * 4) = Inr (s', ret, e', i)"
    | (full) k where "sfs_block_alloc s = Inr (s', ret, k)"
    | (new) t k where "sfs_block_alloc s = Inr (t, 0, k)" "sfs_bmap_new_entry t e k (index * 4) = Inr (s', ret, e', i)"
    unfolding sfs_bmap_get_sub_nolock_def Let_def
    by (simp add: bindE_Inr_iff split: if_splits) blast+
  then show ?thesis
  proof cases
    case same
    then show ?thesis by simp
  next
    case old
    then have "s' = s" by (rule rbuf_same)
    then show ?thesis by simp
  next
    case read
    have "t = s" using read(1) by (rule rbuf_same)
    then show ?thesis using read(2) by (auto dest: bmap_new_keeps)
  next
    case full
    then show ?thesis by (rule block_alloc_keeps)
  next
    case new
    show ?thesis using block_alloc_keeps [OF new(1)] bmap_new_keeps [OF new(2)] by (rule same_volume_trans)
  qed
qed

text \<open>Every result of a computation satisfies a predicate; the rules follow the code.\<close>

definition okE :: "('r \<Rightarrow> bool) \<Rightarrow> kpanic + 'r \<Rightarrow> bool" where
  "okE Q x \<longleftrightarrow> (\<forall>r. x = Inr r \<longrightarrow> Q r)"

lemma okE_simps [simp]: "okE Q (Inr r) = Q r" "okE Q (Inl e)"
  by (auto simp: okE_def)

lemma okE_assert [simp]: "okE Q (assertE b) \<longleftrightarrow> (b \<longrightarrow> Q ())"
  by (auto simp: okE_def guardE_def)

lemma okE_bind: "okE Q (bindE x f) \<longleftrightarrow> okE (\<lambda>r. okE Q (f r)) x"
  by (cases x) (auto simp: okE_def)

lemma okE_seq: "okE Q' x \<Longrightarrow> (\<And>r. Q' r \<Longrightarrow> okE Q (f r)) \<Longrightarrow> okE Q (bindE x f)"
  by (cases x) (auto simp: okE_def)

lemma okE_I: "(\<And>r. x = Inr r \<Longrightarrow> Q r) \<Longrightarrow> okE Q x"
  by (simp add: okE_def)

lemma okE_D: "okE Q x \<Longrightarrow> x = Inr r \<Longrightarrow> Q r"
  by (simp add: okE_def)

lemma okE_if: "(b \<Longrightarrow> okE Q x) \<Longrightarrow> (\<not> b \<Longrightarrow> okE Q y) \<Longrightarrow> okE Q (if b then x else y)"
  by simp

lemma okE_true: "okE (\<lambda>r. True) x"
  by (simp add: okE_def)

lemma block_alloc_ok: "okE (\<lambda>(s', ret, i). same_volume s s') (sfs_block_alloc s)"
  by (rule okE_I) (auto dest: block_alloc_keeps)

lemma bmap_get_sub_ok: "okE (\<lambda>(s', ret, e, i). same_volume s s') (sfs_bmap_get_sub_nolock s ent index c)"
  by (rule okE_I) (auto dest: bmap_get_sub_keeps)

lemma op_keeps_volume: "same_volume f f' \<Longrightarrow> sin_keep x y \<Longrightarrow> op_keeps f x f' y"
  by (simp add: op_keeps_def)

lemma bmap_get_ok: "okE (\<lambda>(s', sin', ret, i). op_keeps s sin s' sin') (sfs_bmap_get_nolock s sin index c)"
  unfolding sfs_bmap_get_nolock_def
proof (rule okE_seq [where Q' = "\<lambda>(s', sin', ret, i). op_keeps s sin s' sin'"], intro okE_if)
  show "okE (\<lambda>(s', sin', ret, i). op_keeps s sin s' sin')
     (let i = direct (din sin) ! unat index in
           if i = 0 \<and> c then
             bindE (sfs_block_alloc s) (\<lambda>(s, ret, i).
             if ret \<noteq> 0 then Inr (s, sin, ret, 0)
             else Inr (s, upd_din (\<lambda>d. d\<lparr>direct := (direct d)[unat index := i]\<rparr>) sin\<lparr>dirty := True\<rparr>, 0, i))
           else Inr (s, sin, 0, i))"
    unfolding Let_def by (intro okE_if okE_seq [OF block_alloc_ok]) (auto simp: op_keeps_def sin_keep_def)
next
  show "okE (\<lambda>(s', sin', ret, i). op_keeps s sin s' sin')
     (bindE (sfs_bmap_get_sub_nolock s (indirect (din sin)) (index - SFS_NDIRECT) c) (\<lambda>(s, ret, ent, i).
          if ret \<noteq> 0 then Inr (s, sin, ret, 0)
          else if ent \<noteq> indirect (din sin) then
            bindE (assertE (indirect (din sin) = 0)) (\<lambda>_.
            Inr (s, upd_din (\<lambda>d. d\<lparr>indirect := ent\<rparr>) sin\<lparr>dirty := True\<rparr>, 0, i))
          else Inr (s, sin, 0, i)))"
    by (rule okE_seq [OF bmap_get_sub_ok]) (auto simp: op_keeps_def sin_keep_def okE_bind)
next
  fix r :: "sfs_fs \<times> sfs_inode \<times> int \<times> u32"
  assume "case r of (s', sin', ret, i) \<Rightarrow> op_keeps s sin s' sin'"
  then show "okE (\<lambda>(s', sin', ret, i). op_keeps s sin s' sin') (case r of (s, sin, ret, i) \<Rightarrow>
          if ret \<noteq> 0 then Inr (s, sin, ret, 0)
          else
            bindE (if i = 0 then Inr True else sfs_block_inuse s i) (\<lambda>b.
            bindE (assertE b) (\<lambda>_. Inr (s, sin, 0, i))))"
    by (auto simp: okE_def bindE_Inr_iff split: if_splits)
qed simp

lemmas bmap_get_keeps = okE_D [OF bmap_get_ok, simplified]

lemma bmap_load_keeps: "sfs_bmap_load_nolock s sin index = Inr (s', sin', ret, i) \<Longrightarrow> op_keeps s sin s' sin'"
  by (auto simp: sfs_bmap_load_nolock_def bindE_Inr_iff Let_def op_keeps_def sin_keep_def split: if_splits
      dest!: bmap_get_keeps)

lemma bmap_free_keeps: "sfs_bmap_free_nolock s sin index = Inr (s', sin', ret) \<Longrightarrow> op_keeps s sin s' sin'"
  by (auto simp: sfs_bmap_free_nolock_def sfs_bmap_free_sub_nolock_def bindE_Inr_iff Let_def op_keeps_def sin_keep_def
      split: if_splits dest!: block_free_keeps rbuf_same wbuf_same)

lemma bmap_truncate_keeps: "sfs_bmap_truncate_nolock s sin = Inr (s', sin', ret) \<Longrightarrow> op_keeps s sin s' sin'"
  by (auto simp: sfs_bmap_truncate_nolock_def bindE_Inr_iff op_keeps_def sin_keep_def split: if_splits dest!: bmap_free_keeps)

lemma truncfile_grow_keeps: "truncfile_grow s sin b n = Inr (s', sin', ret) \<Longrightarrow> op_keeps s sin s' sin'"
proof (induction n arbitrary: s sin b)
  case (Suc n)
  then show ?case by (auto simp: bindE_Inr_iff split: if_splits dest!: bmap_load_keeps intro: op_keeps_trans)
qed simp

lemma truncfile_shrink_keeps: "truncfile_shrink s sin n = Inr (s', sin', ret) \<Longrightarrow> op_keeps s sin s' sin'"
proof (induction n arbitrary: s sin)
  case (Suc n)
  then show ?case by (auto simp: bindE_Inr_iff split: if_splits dest!: bmap_truncate_keeps intro: op_keeps_trans)
qed simp

lemma op_keeps_size: "op_keeps f x f' y \<Longrightarrow> op_keeps f x f' (upd_din (\<lambda>d. d\<lparr>dsize := k\<rparr>) y\<lparr>dirty := True\<rparr>)"
  by (simp add: op_keeps_def sin_keep_def)

lemma truncfile_keeps: "sfs_truncfile s sin len = Inr (s', sin', ret) \<Longrightarrow> op_keeps s sin s' sin'"
  by (auto simp: sfs_truncfile_def bindE_Inr_iff Let_def split: if_splits
      dest!: truncfile_grow_keeps truncfile_shrink_keeps intro: op_keeps_size)

lemma tryseek_keeps: "sfs_tryseek s sin pos = Inr (s', sin', ret) \<Longrightarrow> op_keeps s sin s' sin'"
  by (auto simp: sfs_tryseek_def split: if_splits dest: truncfile_keeps)

lemma buf_op_same: "sfs_buf_op w s buf p len b off = Inr (s', buf', ret) \<Longrightarrow> s' = s"
  by (auto simp: sfs_buf_op_def split: if_splits dest: rbuf_same wbuf_same)

lemma block_op_same: "sfs_block_op w s buf p b n = Inr (s', buf', ret) \<Longrightarrow> s' = s"
  by (auto simp: sfs_block_op_def sfs_wblock_def sfs_rblock_def sfs_rwblock_def split: if_splits dest: rwblock_loop_same)

lemma io_part_keeps: "sfs_io_part w s sin buf p len b off = Inr (s', sin', buf') \<Longrightarrow> op_keeps s sin s' sin'"
  by (auto simp: sfs_io_part_def bindE_Inr_iff dest!: bmap_load_keeps buf_op_same)

lemma io_blocks_keeps: "sfs_io_blocks w s sin buf p b n = Inr (s', sin', buf') \<Longrightarrow> op_keeps s sin s' sin'"
  by (auto simp: sfs_io_blocks_def bindE_Inr_iff dest!: bmap_load_keeps block_op_same)

lemma io_part_ok: "okE (\<lambda>(s', sin', buf'). op_keeps s sin s' sin') (sfs_io_part w s sin buf p len b off)"
  by (rule okE_I) (auto dest: io_part_keeps)

lemma io_blocks_ok: "okE (\<lambda>(s', sin', buf'). op_keeps s sin s' sin') (sfs_io_blocks w s sin buf p b n)"
  by (rule okE_I) (auto dest: io_blocks_keeps)

lemma io_range_ok: "okE (\<lambda>(s', sin', buf', ret, n). op_keeps s sin s' sin') (sfs_io_range w s sin buf base a e)"
  unfolding sfs_io_range_def Let_def
  apply (rule okE_seq [where Q' = "\<lambda>(s', sin', _). op_keeps s sin s' sin'"])
   apply (intro okE_if okE_seq [OF io_part_ok])
    apply auto[2]
  apply (simp only: split_paired_all prod.case)
  apply (rule okE_seq [where Q' = "\<lambda>(s', sin', _). op_keeps s sin s' sin'"])
   apply (intro okE_if okE_seq [OF io_blocks_ok])
    apply (auto intro: op_keeps_trans)[2]
  apply (simp only: split_paired_all prod.case)
  apply (rule okE_seq [where Q' = "\<lambda>(s', sin', _). op_keeps s sin s' sin'"])
   apply (intro okE_if okE_seq [OF io_part_ok])
    apply (auto intro: op_keeps_trans)[2]
  apply (auto intro: op_keeps_size)
  done

lemmas io_range_keeps = okE_D [OF io_range_ok, simplified]

lemma io_keeps: "sfs_io w s sin iob = Inr (s', sin', iob', ret) \<Longrightarrow> op_keeps s sin s' sin'"
  by (auto simp: sfs_io_def sfs_io_nolock_def bindE_Inr_iff Let_def split: if_splits dest!: io_range_keeps)

lemma put_sin_inv:
  assumes inv: "ref_inv s R P" and nd: "inodes s n = Some nd" "sfs_info nd = Inr sin" and k: "op_keeps (sfs s) sin f sin'"
  shows "nodes_keep s (put_sin n f sin' s) \<and> ref_inv (put_sin n f sin' s) R P"
proof -
  have i: "in_info nd = Sfs_inode_info sin" using nd(2) by (simp add: sfs_info_def split: in_info.splits)
  let ?nd = "nd\<lparr>in_info := Sfs_inode_info sin'\<rparr>" and ?s = "set_inode n (nd\<lparr>in_info := Sfs_inode_info sin'\<rparr>) s"
  have p: "put_sin n f sin' s = ?s\<lparr>sfs := f\<rparr>" using nd(1) by (simp add: put_sin_def set_inode_def)
  have t: "inode_typed (blocks (sfs s)) nd" "ref_count nd = int (R n)" "open_count nd = int (P n)" "P n \<le> R n" "0 < R n"
    using ref_inv_at [OF inv nd(1)] by auto
  have e: "sfs_node ?s n = sfs_node s n" using nd(1) i k by (simp add: sfs_node_def op_keeps_def sin_keep_def)
  have "inode_typed (blocks (sfs s)) ?nd" using t(1) i k by (simp add: inode_typed_def op_keeps_def sin_keep_def)
  with inv nd(1) e t have r: "ref_inv ?s (R(n := R n)) (P(n := P n))" by (intro ref_inv_set) auto
  have v: "blocks f = blocks (sfs s)" "inode_list f = inode_list (sfs s)" "hash_list f = hash_list (sfs s)" "disk f = disk (sfs s)"
    using k by (auto simp: op_keeps_def same_volume_def)
  have "sfs_node (?s\<lparr>sfs := f\<rparr>) = sfs_node ?s" by (rule ext) (simp add: sfs_node_def)
  with r v have "ref_inv (?s\<lparr>sfs := f\<rparr>) R P" by (simp add: ref_inv_def cache_wf_def)
  moreover have "nodes_keep s ?s" using nd(1) by (rule nodes_keep_set) (simp_all add: e)
  then have "nodes_keep s (?s\<lparr>sfs := f\<rparr>)"
    using v by (auto simp: nodes_keep_def vfs_same_def sfs_node_def split: if_splits)
  ultimately show ?thesis by (simp add: p)
qed

end
