(* ===== verification/Vfs_Open.thy ===== *)
theory Vfs_Open
  imports Vfs_Refs
begin

text \<open>
  Opening, closing and the operations through the tables keep the invariant on references: each states what its
  result holds when it returns. The counts \<open>R\<close> and \<open>P\<close> are the references and opens held on each inode.
\<close>

section \<open>Operations that keep the counts\<close>

lemma vop_op_at: "vop_op s n v = Inr nd \<Longrightarrow> inodes s n = Some nd \<and> v \<in> set (vops_of (in_ops nd)) \<and> inode_check nd"
  by (auto simp: vop_op_def inode_at_def bindE_Inr_iff split: option.splits)

lemma sin_op_inv:
  assumes "ref_inv s R P" "vop_op s n v = Inr nd" "sfs_info nd = Inr sin" "op_keeps (sfs s) sin f sin'" "s' = put_sin n f sin' s"
  shows "nodes_keep s s' \<and> ref_inv s' R P"
  using put_sin_inv [OF assms(1) _ assms(3,4)] vop_op_at [OF assms(2)] assms(5) by simp

lemma vop_fsync_inv:
  assumes inv: "ref_inv s R P" and g: "vop_fsync s n = Inr (s', ret)"
  shows "nodes_keep s s' \<and> ref_inv s' R P"
proof -
  obtain nd sin f sin' where nd: "vop_op s n Vop_fsync = Inr nd" "sfs_info nd = Inr sin" "sfs_fsync (sfs s) sin = Inr (f, sin', ret)"
    "s' = put_sin n f sin' s" using g by (auto simp: vop_fsync_def bindE_Inr_iff)
  have "op_keeps (sfs s) sin f sin'" using fsync_same [OF nd(3)] by (simp add: op_keeps_def sin_keep_def)
  with inv nd(1,2) show ?thesis using nd(4) by (rule sin_op_inv)
qed

lemma vop_truncate_inv:
  assumes inv: "ref_inv s R P" and g: "vop_truncate s n len = Inr (s', ret)"
  shows "nodes_keep s s' \<and> ref_inv s' R P"
proof -
  obtain nd sin f sin' where nd: "vop_op s n Vop_truncate = Inr nd" "sfs_info nd = Inr sin" "sfs_truncfile (sfs s) sin len = Inr (f, sin', ret)"
    "s' = put_sin n f sin' s" using g by (auto simp: vop_truncate_def bindE_Inr_iff)
  show ?thesis using inv nd(1,2) truncfile_keeps [OF nd(3)] nd(4) by (rule sin_op_inv)
qed

lemma nodes_keep_refl [simp]: "nodes_keep s s"
  by (simp add: nodes_keep_def)

lemma vop_tryseek_inv:
  assumes inv: "ref_inv s R P" and g: "vop_tryseek s n pos = Inr (s', ret)"
  shows "nodes_keep s s' \<and> ref_inv s' R P"
proof -
  obtain nd where nd: "vop_op s n Vop_tryseek = Inr nd" using g by (auto simp: vop_tryseek_def bindE_Inr_iff)
  show ?thesis
  proof (cases "in_ops nd = dev_node_ops")
    case True
    then show ?thesis using g nd inv by (auto simp: vop_tryseek_def bindE_Inr_iff)
  next
    case False
    then obtain sin f sin' where f: "sfs_info nd = Inr sin" "sfs_tryseek (sfs s) sin pos = Inr (f, sin', ret)" "s' = put_sin n f sin' s"
      using g nd by (auto simp: vop_tryseek_def bindE_Inr_iff)
    show ?thesis using inv nd f(1) tryseek_keeps [OF f(2)] f(3) by (rule sin_op_inv)
  qed
qed

lemma getdirentry_loop_same: "getdirentry_loop s sin slot i n = Inr (s', sin', ret, e) \<Longrightarrow> s' = s \<and> sin' = sin"
proof (induction n arbitrary: s sin slot i)
  case (Suc n)
  from Suc.prems obtain t x r d where d: "sfs_dirent_read_nolock s sin i = Inr (t, x, r, d)" by (auto simp: bindE_Inr_iff)
  then have "t = s \<and> x = sin" by (rule dirent_read_same)
  with Suc d show ?case by (auto split: if_splits)
qed simp

lemma vop_getdirentry_inv:
  assumes inv: "ref_inv s R P" and g: "vop_getdirentry s n iob ok = Inr (s', iob', ret)"
  shows "nodes_keep s s' \<and> ref_inv s' R P"
proof -
  obtain nd sin f sin' where nd: "vop_op s n Vop_getdirentry = Inr nd" "sfs_info nd = Inr sin"
    "sfs_getdirentry (sfs s) sin iob ok = Inr (f, sin', iob', ret)" "s' = put_sin n f sin' s"
    using g by (auto simp: vop_getdirentry_def bindE_Inr_iff)
  have "f = sfs s \<and> sin' = sin"
    using nd(3) by (auto simp: sfs_getdirentry_def sfs_getdirentry_sub_nolock_def bindE_Inr_iff Let_def split: if_splits
        dest: getdirentry_loop_same)
  with inv nd show ?thesis by (auto dest: vop_op_at simp: put_sin_same)
qed

lemma ref_inv_cong:
  "ref_inv s R P \<Longrightarrow> inodes s' = inodes s \<Longrightarrow> sfs s' = sfs s \<Longrightarrow> ref_inv s' R P"
proof -
  assume "ref_inv s R P" "inodes s' = inodes s" "sfs s' = sfs s"
  moreover from this have "sfs_node s' = sfs_node s" by (simp add: sfs_node_def fun_eq_iff)
  ultimately show "ref_inv s' R P" by (simp add: ref_inv_def cache_wf_def)
qed

lemma nodes_keep_cong:
  "inodes s' = inodes s \<Longrightarrow> sfs s' = sfs s \<Longrightarrow> vdev_list s' = vdev_list s \<Longrightarrow> bootfs_node s' = bootfs_node s \<Longrightarrow> nodes_keep s s'"
  by (auto simp: nodes_keep_def vfs_same_def sfs_node_def)

lemma dop_io_same:
  "dop_io d s iob w = Inr (s', iob', ret) \<Longrightarrow> inodes s' = inodes s \<and> sfs s' = sfs s \<and> vdev_list s' = vdev_list s \<and> bootfs_node s' = bootfs_node s"
  by (auto simp: dop_io_def stdin_io_def stdout_io_def bindE_Inr_iff split: device.splits if_splits dest: disk0_io_image)

lemma vop_rw_inv:
  assumes inv: "ref_inv s R P" and g: "vop_rw w s n iob = Inr (s', iob', ret)"
  shows "nodes_keep s s' \<and> ref_inv s' R P"
proof -
  obtain nd where nd: "vop_op s n (if w then Vop_write else Vop_read) = Inr nd" using g by (auto simp: vop_rw_def bindE_Inr_iff)
  show ?thesis
  proof (cases "in_ops nd = dev_node_ops")
    case True
    then obtain d where "dop_io d s iob w = Inr (s', iob', ret)" using g nd by (auto simp: vop_rw_def bindE_Inr_iff)
    note same = dop_io_same [OF this]
    then show ?thesis using ref_inv_cong [OF inv] nodes_keep_cong by simp
  next
    case False
    then obtain sin f sin' where f: "sfs_info nd = Inr sin" "sfs_io w (sfs s) sin iob = Inr (f, sin', iob', ret)" "s' = put_sin n f sin' s"
      using g nd by (auto simp: vop_rw_def bindE_Inr_iff)
    show ?thesis using inv nd f(1) io_keeps [OF f(2)] f(3) by (rule sin_op_inv)
  qed
qed

section \<open>Opening and closing\<close>

lemma open_dec_inv:
  assumes inv: "ref_inv s R P" and g: "inode_open_dec s n = Inr (s', c)"
  shows "nodes_keep s s' \<and> ref_inv s' R (P(n := P n - 1)) \<and> 0 < P n"
proof -
  obtain nd where nd: "inodes s n = Some nd" "0 < open_count nd"
    using g by (auto simp: inode_open_dec_def inode_at_def bindE_Inr_iff split: option.splits)
  then have c: "open_count nd = int (P n)" "ref_count nd = int (R n)" "P n \<le> R n" "inode_typed (blocks (sfs s)) nd"
    using ref_inv_at [OF inv nd(1)] by auto
  show ?thesis
  proof (cases "P n = 1")
    case True
    then obtain q where "vop_close (set_inode n (nd\<lparr>open_count := 0\<rparr>) s) n = Inr (s', q)"
      using g nd c by (auto simp: inode_open_dec_def inode_at_def bindE_Inr_iff Let_def)
    then have "inode_check (nd\<lparr>open_count := 0\<rparr>)" by (auto simp: vop_close_def bindE_Inr_iff dest: vop_op_at)
    then have "R n < 65536" using c by (simp add: inode_check_def)
    from open_dec_spec [OF inv _ this] True obtain t where
      "inode_open_dec s n = Inr (t, int (P n) - 1)" "ref_inv t R (P(n := P n - 1))" "nodes_keep s t" by auto
    with g True show ?thesis by simp
  next
    case False
    have p: "0 < P n" using nd c by simp
    let ?nd = "nd\<lparr>open_count := open_count nd - 1\<rparr>"
    have "ref_inv (set_inode n ?nd s) (R(n := R n)) (P(n := P n - 1))"
      using inv nd c p by (intro ref_inv_set) (auto simp: sfs_node_eq)
    moreover have "nodes_keep s (set_inode n ?nd s)" using nd(1) by (rule nodes_keep_set) (simp_all add: sfs_node_eq nd(1))
    moreover have "s' = set_inode n ?nd s" using g nd c False p by (auto simp: inode_open_dec_def inode_at_def Let_def)
    ultimately show ?thesis using p by simp
  qed
qed

lemma vfs_close_inv:
  assumes inv: "ref_inv s R P" and g: "vfs_close s n = Inr s'"
  shows "nodes_keep s s' \<and> ref_inv s' (R(n := R n - 1)) (P(n := P n - 1)) \<and> 0 < P n"
proof -
  obtain t c d where d: "inode_open_dec s n = Inr (t, c)" "inode_ref_dec t n = Inr (s', d)"
    using g by (auto simp: vfs_close_def bindE_Inr_iff)
  from open_dec_inv [OF inv d(1)] have t: "nodes_keep s t" "ref_inv t R (P(n := P n - 1))" "0 < P n" by auto
  have "P n \<le> R n" using ref_inv_slot [OF inv, of n] by (cases "inodes s n") auto
  with t(3) have "(P(n := P n - 1)) n < R n" by simp
  from ref_dec_inv [OF t(2) this d(2)] t(1,3) show ?thesis using nodes_keep_trans by blast
qed

text \<open>The outcome of an open: an error, or one more reference and one more open.\<close>

definition got_open :: "vfs \<Rightarrow> int \<Rightarrow> nat option \<Rightarrow> (nat \<Rightarrow> nat) \<Rightarrow> (nat \<Rightarrow> nat) \<Rightarrow> bool" where
  "got_open s ret r R P \<longleftrightarrow>
     (case r of None \<Rightarrow> ret \<noteq> 0 \<and> ref_inv s R P | Some n \<Rightarrow> ret = 0 \<and> ref_inv s (R(n := R n + 1)) (P(n := P n + 1)))"

lemma got_open_simps [simp]:
  "got_open s ret None R P \<longleftrightarrow> ret \<noteq> 0 \<and> ref_inv s R P"
  "got_open s ret (Some n) R P \<longleftrightarrow> ret = 0 \<and> ref_inv s (R(n := R n + 1)) (P(n := P n + 1))"
  by (simp_all add: got_open_def)

text \<open>From the reference the lookup has returned on.\<close>

lemma open_found_inv:
  assumes inv: "ref_inv s (R(n := R n + 1)) P" and le: "P n \<le> R n"
    and g: "bindE (vop_open s n open_flags) (\<lambda>ret.
                if ret \<noteq> 0 then bindE (inode_ref_dec s n) (\<lambda>(s, _). Inr (s, ret, None))
                else
                  bindE (inode_open_inc s n) (\<lambda>(s, _).
                  if trunc then
                    bindE (vop_truncate s n 0) (\<lambda>(s, ret).
                    if ret \<noteq> 0 then
                      bindE (inode_open_dec s n) (\<lambda>(s, _).
                      bindE (inode_ref_dec s n) (\<lambda>(s, _). Inr (s, ret, None)))
                    else Inr (s, 0, Some n))
                  else Inr (s, 0, Some n))) = Inr (s', ret, r)"
  shows "nodes_keep s s' \<and> got_open s' ret r R P"
proof -
  obtain e where e: "vop_open s n open_flags = Inr e" using g by (auto simp: bindE_Inr_iff)
  show ?thesis
  proof (cases "e = 0")
    case False
    then obtain c where "inode_ref_dec s n = Inr (s', c)" "ret = e" "r = None" using g e by (auto simp: bindE_Inr_iff)
    with ref_dec_inv [OF inv _ this(1)] False le show ?thesis by simp
  next
    case True
    have "P n < (R(n := R n + 1)) n" using le by simp
    from open_inc_spec [OF inv this] obtain t where t: "inode_open_inc s n = Inr (t, int (P n) + 1)"
      "ref_inv t (R(n := R n + 1)) (P(n := P n + 1))" "nodes_keep s t" .
    show ?thesis
    proof (cases trunc)
      case False
      then show ?thesis using g e True t by auto
    next
      case trunc: True
      obtain u q where u: "vop_truncate t n 0 = Inr (u, q)" using g e True trunc t by (auto simp: bindE_Inr_iff)
      from vop_truncate_inv [OF t(2) this] t(3)
      have k: "nodes_keep s u" "ref_inv u (R(n := R n + 1)) (P(n := P n + 1))" by (auto intro: nodes_keep_trans)
      show ?thesis
      proof (cases "q = 0")
        case True
        then show ?thesis using g e \<open>e = 0\<close> trunc t u k by auto
      next
        case False
        then obtain c where "vfs_close u n = Inr s'" "ret = q" "r = None"
          using g e True trunc t(1) u by (auto simp: bindE_Inr_iff vfs_close_def)
        with vfs_close_inv [OF k(2) this(1)] k(1) False show ?thesis by (auto intro: nodes_keep_trans)
      qed
    qed
  qed
qed

lemma vfs_open_missing_inv:
  assumes inv: "ref_inv s R P" and m: "mem_ok s m" and l: "vfs_lookup s cwd path m = Inr (t, e, None, path')"
    and acc: "\<not> (open_flags AND O_ACCMODE = O_ACCMODE \<or> open_flags AND O_TRUNC \<noteq> 0 \<and> open_flags AND O_ACCMODE = O_RDONLY)"
    and g: "vfs_open s cwd path open_flags m = Inr (s', ret, r)"
  shows "nodes_step m s s' \<and> got_open s' ret r R P"
proof -
  from vfs_lookup_inv [OF inv m l] have t: "nodes_step m s t" and e: "e \<noteq> 0" "ref_inv t R P" by auto
  show ?thesis
  proof (cases "e = -16 \<and> open_flags AND O_CREAT \<noteq> 0")
    case False
    then show ?thesis using g acc l e t by (auto simp: vfs_open_def Let_def)
  next
    case True
    then obtain u sub x where u: "vfs_lookup_parent t cwd path' m = Inr (u, ret, None, sub)" "s' = u" "r = None"
      using g acc l e by (auto simp: vfs_open_def Let_def bindE_Inr_iff split: option.splits)
    then obtain y sb z where d: "get_device t cwd path' m = Inr (u, ret, y, sb, z)" "(if ret = 0 then y else None) = None"
      by (auto simp: vfs_lookup_parent_def bindE_Inr_iff)
    from get_device_inv [OF e(2) mem_ok_step [OF m t] d(1)] d(2) u t show ?thesis
      by (cases y) (auto intro: nodes_step_trans split: if_splits)
  qed
qed

text \<open>An open that must create the file and finds it.\<close>

lemma vfs_open_exists:
  assumes "vfs_lookup s cwd path m = Inr (t, 0, Some n, path')"
    and "\<not> (open_flags AND O_ACCMODE = O_ACCMODE \<or> open_flags AND O_TRUNC \<noteq> 0 \<and> open_flags AND O_ACCMODE = O_RDONLY)"
    and "open_flags AND O_EXCL \<noteq> 0" "open_flags AND O_CREAT \<noteq> 0"
  shows "vfs_open s cwd path open_flags m = Inr (t, - E_EXISTS, None)"
  using assms by (auto simp: vfs_open_def Let_def)

lemma vfs_open_inv:
  assumes inv: "ref_inv s R P" and m: "mem_ok s m"
    and g: "vfs_open s cwd path open_flags m = Inr (s', ret, r)"
  shows "nodes_step m s s' \<and>
    (got_open s' ret r R P \<or>
     open_flags AND O_EXCL \<noteq> 0 \<and> open_flags AND O_CREAT \<noteq> 0 \<and> ret = - E_EXISTS \<and> r = None \<and> (\<exists>n. ref_inv s' (R(n := R n + 1)) P))"
proof (cases "open_flags AND O_ACCMODE = O_ACCMODE \<or> open_flags AND O_TRUNC \<noteq> 0 \<and> open_flags AND O_ACCMODE = O_RDONLY")
  case True
  then show ?thesis using g inv by (auto simp: vfs_open_def)
next
  case False
  then obtain t e q path' where l: "vfs_lookup s cwd path m = Inr (t, e, q, path')"
    using g by (auto simp: vfs_open_def bindE_Inr_iff Let_def)
  from vfs_lookup_inv [OF inv m this] have t: "nodes_step m s t" "got_ref t e q R P" by auto
  show ?thesis
  proof (cases q)
    case None
    then show ?thesis using vfs_open_missing_inv [OF inv m _ False g] l by simp
  next
    case (Some n)
    then have e: "e = 0" "ref_inv t (R(n := R n + 1)) P" using t(2) by auto
    show ?thesis
    proof (cases "open_flags AND O_EXCL \<noteq> 0 \<and> open_flags AND O_CREAT \<noteq> 0")
      case True
      then show ?thesis using vfs_open_exists [of s cwd path m t n path' open_flags] l e t(1) False Some g by auto
    next
      case excl: False
      have le: "P n \<le> R n" using ref_inv_slot [OF inv, of n] by (cases "inodes s n") auto
      have no: "open_flags AND O_ACCMODE \<noteq> O_ACCMODE" "\<not> (open_flags AND O_TRUNC \<noteq> 0 \<and> open_flags AND O_ACCMODE = O_RDONLY)"
        using False by blast+
      from g l e(1) Some have "bindE (vop_open t n open_flags) (\<lambda>ret.
                if ret \<noteq> 0 then bindE (inode_ref_dec t n) (\<lambda>(s, _). Inr (s, ret, None))
                else
                  bindE (inode_open_inc t n) (\<lambda>(s, _).
                  if open_flags AND O_TRUNC \<noteq> 0 \<or> open_flags AND O_CREAT \<noteq> 0 then
                    bindE (vop_truncate s n 0) (\<lambda>(s, ret).
                    if ret \<noteq> 0 then
                      bindE (inode_open_dec s n) (\<lambda>(s, _).
                      bindE (inode_ref_dec s n) (\<lambda>(s, _). Inr (s, ret, None)))
                    else Inr (s, 0, Some n))
                  else Inr (s, 0, Some n))) = Inr (s', ret, r)"
        unfolding vfs_open_def Let_def if_not_P [OF no(1)] if_not_P [OF no(2)] if_not_P [OF excl]
        by (simp only: if_False simp_thms bindE_simps prod.case option.case)
      from open_found_inv [OF e(2) le this] t(1) show ?thesis by (auto intro: nodes_step_trans nodes_keep_step)
    qed
  qed
qed

section \<open>The current directory\<close>

definition cwd_ref :: "nat option \<Rightarrow> nat \<Rightarrow> nat" where
  "cwd_ref cwd n = (if cwd = Some n then 1 else 0)"

lemma cwd_ref_simps [simp]: "cwd_ref None n = 0" "cwd_ref (Some n) n = 1" "m \<noteq> n \<Longrightarrow> cwd_ref (Some m) n = 0"
  by (simp_all add: cwd_ref_def)

lemma ref_dec_cwd:
  assumes inv: "ref_inv s (\<lambda>k. R k + cwd_ref (Some n) k) P" and le: "P n \<le> R n" and d: "inode_ref_dec s n = Inr (s', c)"
  shows "nodes_keep s s' \<and> ref_inv s' R P"
proof -
  have "(\<lambda>k. R k + cwd_ref (Some n) k)(n := R n + cwd_ref (Some n) n - 1) = R" by (auto simp: fun_eq_iff cwd_ref_def)
  then show ?thesis using ref_dec_inv [OF inv _ d] le by simp
qed

lemma set_curdir_inv:
  assumes inv: "ref_inv s (\<lambda>k. R k + cwd_ref cwd k) P" and le: "\<And>k. P k \<le> R k"
    and g: "vfs_set_curdir s cwd dir = Inr (s', cwd', ret)"
  shows "nodes_keep s s' \<and> ref_inv s' (\<lambda>k. R k + cwd_ref cwd' k) P"
proof (cases "cwd = dir")
  case True
  then show ?thesis using g inv by (simp add: vfs_set_curdir_def)
next
  case False
  let ?enter = "case dir of
             None \<Rightarrow> Inr (s, 0)
           | Some n \<Rightarrow>
               bindE (vop_gettype s n) (\<lambda>(ret, t).
               if ret \<noteq> 0 then Inr (s, ret)
               else if t AND 0x7000 \<noteq> 0x2000 then Inr (s, - E_NOTDIR)
               else bindE (inode_ref_inc s n) (\<lambda>(s, _). Inr (s, 0)))"
  obtain t e where en: "?enter = Inr (t, e)" using g False unfolding vfs_set_curdir_def by (auto simp: bindE_Inr_iff)
  have fin: "(if e \<noteq> 0 then Inr (t, cwd, e)
        else (case cwd of None \<Rightarrow> Inr (t, dir, 0) | Some old \<Rightarrow> bindE (inode_ref_dec t old) (\<lambda>(s, _). Inr (s, dir, 0)))) = Inr (s', cwd', ret)"
    using g unfolding vfs_set_curdir_def if_not_P [OF False] en by simp
  have "e \<noteq> 0 \<and> t = s \<or> e = 0 \<and> (case dir of None \<Rightarrow> t = s | Some n \<Rightarrow> \<exists>c. inode_ref_inc s n = Inr (t, c))"
    using en by (cases dir) (auto simp: bindE_Inr_iff split: if_splits)
  then consider (kept) "s' = s" "cwd' = cwd"
    | (moved) "cwd' = dir" "case dir of None \<Rightarrow> t = s | Some n \<Rightarrow> \<exists>c. inode_ref_inc s n = Inr (t, c)"
        "case cwd of None \<Rightarrow> s' = t | Some old \<Rightarrow> \<exists>c. inode_ref_dec t old = Inr (s', c)"
  proof (elim disjE conjE)
    assume "e \<noteq> 0" "t = s"
    then show ?thesis using fin kept by simp
  next
    assume e: "e = 0" and d: "case dir of None \<Rightarrow> t = s | Some n \<Rightarrow> \<exists>c. inode_ref_inc s n = Inr (t, c)"
    have "cwd' = dir" "case cwd of None \<Rightarrow> s' = t | Some old \<Rightarrow> \<exists>c. inode_ref_dec t old = Inr (s', c)"
      using fin e by (cases cwd; simp add: bindE_Inr_iff; fastforce)+
    then show ?thesis using d by (intro moved)
  qed
  then show ?thesis
  proof cases
    case kept
    then show ?thesis using inv by simp
  next
    case moved
    have t: "nodes_keep s t \<and> ref_inv t (\<lambda>k. R k + cwd_ref dir k + cwd_ref cwd k) P"
    proof (cases dir)
      case None
      then show ?thesis using moved(2) inv by simp
    next
      case (Some n)
      have "(\<lambda>k. R k + cwd_ref cwd k)(n := R n + cwd_ref cwd n + 1) = (\<lambda>k. R k + cwd_ref dir k + cwd_ref cwd k)"
        using Some by (auto simp: fun_eq_iff cwd_ref_def)
      then show ?thesis using moved(2) Some ref_inc_inv [OF inv, of n t] by auto
    qed
    show ?thesis
    proof (cases cwd)
      case None
      then show ?thesis using moved(1,3) t by simp
    next
      case (Some old)
      then obtain c where d: "inode_ref_dec t old = Inr (s', c)" using moved(3) by auto
      have "P old \<le> R old + cwd_ref dir old" using le [of old] by simp
      with ref_dec_cwd [of t "\<lambda>k. R k + cwd_ref dir k" old P s' c] t d Some show ?thesis
        using moved(1) by (auto intro: nodes_keep_trans)
    qed
  qed
qed

lemma vfs_chdir_inv:
  assumes inv: "ref_inv s (\<lambda>k. R k + cwd_ref cwd k) P" and m: "mem_ok s m" and le: "\<And>k. P k \<le> R k"
    and g: "vfs_chdir s cwd path m = Inr (s', cwd', ret)"
  shows "nodes_step m s s' \<and> ref_inv s' (\<lambda>k. R k + cwd_ref cwd' k) P"
proof -
  obtain t e q path' where l: "vfs_lookup s cwd path m = Inr (t, e, q, path')"
    using g by (auto simp: vfs_chdir_def bindE_Inr_iff)
  from vfs_lookup_inv [OF inv m this] have t: "nodes_step m s t" "got_ref t e q (\<lambda>k. R k + cwd_ref cwd k) P" by auto
  show ?thesis
  proof (cases q)
    case None
    then show ?thesis using g l t by (simp add: vfs_chdir_def)
  next
    case (Some n)
    then have e: "e = 0" "ref_inv t ((\<lambda>k. R k + cwd_ref cwd k)(n := R n + cwd_ref cwd n + 1)) P" using t(2) by auto
    obtain u c where u: "vfs_set_curdir t cwd (Some n) = Inr (u, cwd', ret)" "inode_ref_dec u n = Inr (s', c)"
      using g l Some e(1) by (auto simp: vfs_chdir_def bindE_Inr_iff)
    let ?R = "\<lambda>k. R k + cwd_ref (Some n) k"
    have "(\<lambda>k. R k + cwd_ref cwd k)(n := R n + cwd_ref cwd n + 1) = (\<lambda>k. ?R k + cwd_ref cwd k)"
      by (auto simp: fun_eq_iff cwd_ref_def)
    with e(2) have "ref_inv t (\<lambda>k. ?R k + cwd_ref cwd k) P" by simp
    moreover have "P k \<le> ?R k" for k using le [of k] by simp
    ultimately have "nodes_keep t u \<and> ref_inv u (\<lambda>k. ?R k + cwd_ref cwd' k) P" using u(1) by (rule set_curdir_inv)
    then have c: "nodes_keep t u" "ref_inv u (\<lambda>k. ?R k + cwd_ref cwd' k) P" by auto
    have "(\<lambda>k. ?R k + cwd_ref cwd' k) = (\<lambda>k. (R k + cwd_ref cwd' k) + cwd_ref (Some n) k)" by (simp add: fun_eq_iff)
    with c(2) have "ref_inv u (\<lambda>k. (R k + cwd_ref cwd' k) + cwd_ref (Some n) k) P" by simp
    moreover have "P n \<le> R n + cwd_ref cwd' n" using le [of n] by simp
    ultimately have "nodes_keep u s' \<and> ref_inv s' (\<lambda>k. R k + cwd_ref cwd' k) P" using u(2) by (rule ref_dec_cwd)
    then show ?thesis using nodes_step_trans [OF t(1) nodes_keep_step [OF nodes_keep_trans [OF c(1)]]] by blast
  qed
qed

end
