(* ===== verification/File_Props.thy ===== *)
theory File_Props
  imports File Vfs_Open
begin

text \<open>
  The open files of a process and the references they hold: each open descriptor accounts for one reference and one
  open of its inode, the current directory for one reference, and \<open>R\<close> and \<open>Q\<close> for those of the rest of the system.
\<close>

section \<open>The table\<close>

definition entry_wf :: "int \<Rightarrow> file_t \<Rightarrow> bool" where
  "entry_wf i f \<longleftrightarrow> fd f = i \<and> (status f = FD_NONE \<and> fopen_count f = 0 \<or> status f = FD_OPENED \<and> fopen_count f = 1 \<and> fnode f \<noteq> None)"

definition table_wf :: "files_struct \<Rightarrow> bool" where
  "table_wf p \<longleftrightarrow> length (fd_array p) = FILES_STRUCT_NENTRY \<and> (\<forall>i < FILES_STRUCT_NENTRY. entry_wf (int i) (fd_array p ! i))"

text \<open>The descriptors open on an inode.\<close>

definition open_fds :: "files_struct \<Rightarrow> nat \<Rightarrow> nat set" where
  "open_fds p n = {i. i < length (fd_array p) \<and> status (fd_array p ! i) = FD_OPENED \<and> fnode (fd_array p ! i) = Some n}"

definition held :: "files_struct \<Rightarrow> nat \<Rightarrow> nat" where
  "held p n = card (open_fds p n)"

definition files_inv :: "vfs \<Rightarrow> files_struct \<Rightarrow> (nat \<Rightarrow> nat) \<Rightarrow> (nat \<Rightarrow> nat) \<Rightarrow> bool" where
  "files_inv s p R Q \<longleftrightarrow> table_wf p \<and> (\<forall>n. Q n \<le> R n) \<and>
     ref_inv s (\<lambda>n. held p n + R n + cwd_ref (pwd p) n) (\<lambda>n. held p n + Q n)"

lemma finite_open_fds [simp]: "finite (open_fds p n)"
  by (rule finite_subset [of _ "{..<length (fd_array p)}"]) (auto simp: open_fds_def)

lemma upd_file_simps [simp]:
  "length (fd_array (upd_file i g p)) = length (fd_array p)" "pwd (upd_file i g p) = pwd p"
  "files_count (upd_file i g p) = files_count p" "upd_file i g (upd_file i h p) = upd_file i (\<lambda>f. g (h f)) p"
  by (cases "i < length (fd_array p)"; simp add: upd_file_def list_update_beyond)+

lemma upd_file_nth: "i < length (fd_array p) \<Longrightarrow> fd_array (upd_file i g p) ! j = (if i = j then g (fd_array p ! i) else fd_array p ! j)"
  by (simp add: upd_file_def)

lemma upd_file_same [simp]: "i < length (fd_array p) \<Longrightarrow> fd_array (upd_file i g p) ! i = g (fd_array p ! i)"
  by (simp add: upd_file_nth)

lemma upd_file_triv: "i < length (fd_array p) \<Longrightarrow> g (fd_array p ! i) = fd_array p ! i \<Longrightarrow> upd_file i g p = p"
  by (simp add: upd_file_def)

lemma table_wf_upd:
  "table_wf p \<Longrightarrow> i < FILES_STRUCT_NENTRY \<Longrightarrow> entry_wf (int i) (g (fd_array p ! i)) \<Longrightarrow> table_wf (upd_file i g p)"
  by (auto simp: table_wf_def upd_file_nth)

text \<open>Opening, closing and moving the position of an entry.\<close>

lemma held_open:
  assumes "i < length (fd_array p)" "status (fd_array p ! i) \<noteq> FD_OPENED" "status (g (fd_array p ! i)) = FD_OPENED"
    "fnode (g (fd_array p ! i)) = Some n"
  shows "held (upd_file i g p) = (held p)(n := held p n + 1)"
proof (rule ext)
  fix k
  have "open_fds (upd_file i g p) k = (if k = n then insert i (open_fds p k) else open_fds p k)"
    using assms by (auto simp: open_fds_def upd_file_nth)
  moreover have "i \<notin> open_fds p k" using assms(2) by (simp add: open_fds_def)
  ultimately show "held (upd_file i g p) k = ((held p)(n := held p n + 1)) k" by (cases "k = n") (auto simp: held_def)
qed

lemma held_close:
  assumes "i < length (fd_array p)" "status (fd_array p ! i) = FD_OPENED" "fnode (fd_array p ! i) = Some n"
    "status (g (fd_array p ! i)) \<noteq> FD_OPENED"
  shows "held (upd_file i g p) = (held p)(n := held p n - 1)" "0 < held p n"
proof -
  have i: "i \<in> open_fds p n" using assms by (simp add: open_fds_def)
  then show "0 < held p n" unfolding held_def card_gt_0_iff by auto
  show "held (upd_file i g p) = (held p)(n := held p n - 1)"
  proof (rule ext)
    fix k
    have "open_fds (upd_file i g p) k = (if k = n then open_fds p k - {i} else open_fds p k)"
      using assms by (auto simp: open_fds_def upd_file_nth)
    then show "held (upd_file i g p) k = ((held p)(n := held p n - 1)) k" using i by (simp add: held_def)
  qed
qed

lemma held_same:
  assumes "i < length (fd_array p)" "status (g (fd_array p ! i)) = status (fd_array p ! i)" "fnode (g (fd_array p ! i)) = fnode (fd_array p ! i)"
  shows "held (upd_file i g p) = held p"
proof -
  have "open_fds (upd_file i g p) = open_fds p" using assms by (auto simp: open_fds_def upd_file_nth fun_eq_iff)
  then show ?thesis by (simp add: held_def fun_eq_iff)
qed

lemma held_other:
  assumes "i < length (fd_array p)" "status (g (fd_array p ! i)) \<noteq> FD_OPENED" "status (fd_array p ! i) \<noteq> FD_OPENED"
  shows "held (upd_file i g p) = held p"
proof -
  have "open_fds (upd_file i g p) = open_fds p" using assms by (auto simp: open_fds_def upd_file_nth fun_eq_iff)
  then show ?thesis by (simp add: held_def fun_eq_iff)
qed

lemma files_inv_refs:
  "files_inv s p R Q \<Longrightarrow> ref_inv s (\<lambda>n. held p n + R n + cwd_ref (pwd p) n) (\<lambda>n. held p n + Q n)"
  by (simp add: files_inv_def)

lemma files_invI:
  assumes "table_wf p" "\<And>n. Q n \<le> R n" "ref_inv s R' P'" "\<And>n. R' n = held p n + R n + cwd_ref (pwd p) n" "\<And>n. P' n = held p n + Q n"
  shows "files_inv s p R Q"
proof -
  have "R' = (\<lambda>n. held p n + R n + cwd_ref (pwd p) n)" "P' = (\<lambda>n. held p n + Q n)" using assms(4,5) by auto
  then show ?thesis using assms(1-3) by (simp add: files_inv_def)
qed

lemma files_inv_move:
  assumes "files_inv s p R Q" "ref_inv s' (\<lambda>n. held p n + R n + cwd_ref (pwd p) n) (\<lambda>n. held p n + Q n)"
  shows "files_inv s' p R Q"
  using assms by (simp add: files_inv_def)

section \<open>Descriptors\<close>

lemma fd2file_found:
  assumes "table_wf p" "fd2file p x = Inr (0, i)"
  obtains n where "i < FILES_STRUCT_NENTRY" "i < length (fd_array p)" "x = int i" "status (fd_array p ! i) = FD_OPENED"
    "fopen_count (fd_array p ! i) = 1" "fnode (fd_array p ! i) = Some n" "0 < files_count p"
proof -
  have i: "i < 145" "x = int i" "status (fd_array p ! i) = FD_OPENED" "0 < files_count p"
    using assms(2) by (auto simp: fd2file_def testfd_def get_fd_array_def bindE_Inr_iff split: if_splits)
  then have "entry_wf (int i) (fd_array p ! i)" "length (fd_array p) = 145" using assms(1) by (auto simp: table_wf_def)
  with i that show ?thesis by (auto simp: entry_wf_def)
qed

lemma fd_array_alloc_ok:
  assumes wf: "table_wf p" and g: "fd_array_alloc p x = Inr (p', ret, i)"
  shows "ret \<noteq> 0 \<and> p' = p \<or> ret = 0 \<and> i < FILES_STRUCT_NENTRY \<and> status (fd_array p ! i) = FD_NONE \<and>
    fopen_count (fd_array p ! i) = 0 \<and> fd (fd_array p ! i) = int i \<and> p' = upd_file i (\<lambda>f. f\<lparr>status := FD_INIT, fnode := None\<rparr>) p"
proof -
  have e: "entry_wf (int j) (fd_array p ! j)" if "j < 145" for j using wf that by (simp add: table_wf_def)
  have "ret \<noteq> 0 \<and> p' = p \<or> (\<exists>j < 145. status (fd_array p ! j) = FD_NONE \<and> fd_array_found p j = Inr (p', ret, i))"
  proof (cases "x = NO_FD")
    case True
    then show ?thesis
      using g by (auto simp: fd_array_alloc_def get_fd_array_def find_Some_iff bindE_Inr_iff split: option.splits)
  next
    case False
    then show ?thesis using g
      by (auto simp: fd_array_alloc_def get_fd_array_def testfd_def bindE_Inr_iff split: if_splits intro!: exI [of _ "nat x"])
  qed
  then show ?thesis using e by (auto simp: fd_array_found_def entry_wf_def bindE_Inr_iff)
qed

section \<open>Closing, opening and duplicating\<close>

lemma fd_array_close_inv:
  assumes inv: "files_inv s p R Q" and i: "i < FILES_STRUCT_NENTRY" and g: "fd_array_close s p i = Inr (s', p')"
  shows "files_inv s' p' R Q \<and> p' = upd_file i (\<lambda>f. f\<lparr>fopen_count := fopen_count f - 1, status := FD_NONE\<rparr>) p"
proof -
  have wf: "table_wf p" using inv by (simp add: files_inv_def)
  have st: "status (fd_array p ! i) = FD_OPENED" using g by (auto simp: fd_array_close_def bindE_Inr_iff Let_def)
  have "entry_wf (int i) (fd_array p ! i)" "i < length (fd_array p)" using wf i by (auto simp: table_wf_def)
  with st obtain n where e: "fopen_count (fd_array p ! i) = 1" "fnode (fd_array p ! i) = Some n" "i < length (fd_array p)" "fd (fd_array p ! i) = int i"
    by (auto simp: entry_wf_def)
  let ?g = "\<lambda>f. f\<lparr>fopen_count := fopen_count f - 1, status := FD_NONE\<rparr>"
  have c: "vfs_close s n = Inr s'" "p' = upd_file i ?g p"
    using g i st e by (auto simp: fd_array_close_def fd_array_free_def Let_def bindE_Inr_iff)
  note h = held_close [OF e(3) st e(2), of ?g, simplified]
  from vfs_close_inv [OF files_inv_refs [OF inv] c(1)] have
    "ref_inv s' ((\<lambda>n. held p n + R n + cwd_ref (pwd p) n)(n := held p n + R n + cwd_ref (pwd p) n - 1)) ((\<lambda>n. held p n + Q n)(n := held p n + Q n - 1))"
    by blast
  then have "files_inv s' p' R Q"
  proof (rule files_invI [rotated 2])
    show "table_wf p'" unfolding c(2) using wf i by (rule table_wf_upd) (use wf i e in \<open>auto simp: entry_wf_def table_wf_def\<close>)
  qed (use inv h c(2) in \<open>auto simp: files_inv_def\<close>)
  then show ?thesis using c(2) by simp
qed

lemma file_close_inv:
  assumes inv: "files_inv s p R Q" and g: "file_close s p x = Inr (s', p', ret)"
  shows "files_inv s' p' R Q"
proof -
  have wf: "table_wf p" using inv by (simp add: files_inv_def)
  obtain e i where e: "fd2file p x = Inr (e, i)" using g by (auto simp: file_close_def bindE_Inr_iff)
  show ?thesis
  proof (cases "e = 0")
    case False
    then show ?thesis using g e inv by (auto simp: file_close_def)
  next
    case True
    with e have f: "fd2file p x = Inr (0, i)" by simp
    with wf have "i < 145" by (rule fd2file_found)
    then show ?thesis using fd_array_close_inv [OF inv, of i s' p'] g f by (auto simp: file_close_def bindE_Inr_iff)
  qed
qed

text \<open>The entry taken for an open, when the open fails and when it succeeds.\<close>

lemma entry_dropped:
  assumes inv: "files_inv s p R Q" and i: "i < FILES_STRUCT_NENTRY" "status (fd_array p ! i) = FD_NONE"
    and s': "ref_inv s' (\<lambda>n. held p n + R' n + cwd_ref (pwd p) n) (\<lambda>n. held p n + Q n)" "\<And>k. R k \<le> R' k"
    and p': "p' = upd_file i (\<lambda>f. f\<lparr>fnode := None, status := FD_NONE\<rparr>) p"
  shows "files_inv s' p' R' Q"
proof -
  have wf: "table_wf p" using inv by (simp add: files_inv_def)
  then have l: "i < length (fd_array p)" using i by (simp add: table_wf_def)
  have "table_wf p'" unfolding p' using wf i(1) by (rule table_wf_upd) (use wf i in \<open>auto simp: entry_wf_def table_wf_def\<close>)
  moreover have "held p' = held p" unfolding p' using l by (rule held_other) (use i in simp_all)
  moreover have "Q k \<le> R' k" for k using inv s'(2) [of k] by (auto simp: files_inv_def intro: le_trans)
  ultimately show ?thesis using s'(1) p' by (simp add: files_inv_def)
qed

lemma entry_opened:
  assumes inv: "files_inv s p R Q" and i: "i < FILES_STRUCT_NENTRY" "status (fd_array p ! i) = FD_NONE"
    and s': "ref_inv s' ((\<lambda>n. held p n + R n + cwd_ref (pwd p) n)(n := held p n + R n + cwd_ref (pwd p) n + 1))
        ((\<lambda>n. held p n + Q n)(n := held p n + Q n + 1))"
    and g: "status (g (fd_array p ! i)) = FD_OPENED" "fopen_count (g (fd_array p ! i)) = 1" "fnode (g (fd_array p ! i)) = Some n"
      "fd (g (fd_array p ! i)) = int i"
    and p': "p' = upd_file i g p"
  shows "files_inv s' p' R Q"
  using s'
proof (rule files_invI [rotated 2])
  have wf: "table_wf p" using inv by (simp add: files_inv_def)
  then have l: "i < length (fd_array p)" using i by (simp add: table_wf_def)
  show "table_wf p'" unfolding p' using wf i(1) by (rule table_wf_upd) (use g in \<open>simp add: entry_wf_def\<close>)
  have h: "held p' = (held p)(n := held p n + 1)" unfolding p' using l i(2) g(1,3) by (intro held_open) auto
  show "\<And>k. ((\<lambda>n. held p n + R n + cwd_ref (pwd p) n)(n := held p n + R n + cwd_ref (pwd p) n + 1)) k = held p' k + R k + cwd_ref (pwd p') k"
    "\<And>k. ((\<lambda>n. held p n + Q n)(n := held p n + Q n + 1)) k = held p' k + Q k"
    using h p' by auto
qed (use inv in \<open>simp add: files_inv_def\<close>)

text \<open>The end of an open whose lookup has returned an error or an inode.\<close>

lemma file_open_got:
  assumes inv: "files_inv s p R Q" and g: "file_open s p path open_flags m = Inr (s', p', ret)"
    and acc: "open_flags AND O_ACCMODE \<noteq> O_ACCMODE" and a: "fd_array_alloc p NO_FD = Inr (p1, e, i)" and e: "e = 0"
    and i: "i < FILES_STRUCT_NENTRY" "status (fd_array p ! i) = FD_NONE" "fopen_count (fd_array p ! i) = 0" "fd (fd_array p ! i) = int i"
      "p1 = upd_file i (\<lambda>f. f\<lparr>status := FD_INIT, fnode := None\<rparr>) p"
    and l: "i < length (fd_array p)" and o: "vfs_open s (pwd p) path open_flags m = Inr (t, q, r)"
    and t: "got_open t q r (\<lambda>n. held p n + R n + cwd_ref (pwd p) n) (\<lambda>n. held p n + Q n)"
  shows "files_inv s' p' R Q"
proof (cases r)
  case None
  then have "q \<noteq> 0" "s' = t" "p' = upd_file i (\<lambda>f. f\<lparr>fnode := None, status := FD_NONE\<rparr>) p"
    using g acc a e o t i l by (auto simp: file_open_def bindE_Inr_iff Let_def fd_array_free_def)
  with t None entry_dropped [OF inv i(1,2), of s' R] show ?thesis by simp
next
  case (Some n)
  then have q: "q = 0" and t': "ref_inv t ((\<lambda>n. held p n + R n + cwd_ref (pwd p) n)(n := held p n + R n + cwd_ref (pwd p) n + 1))
    ((\<lambda>n. held p n + Q n)(n := held p n + Q n + 1))" using t by auto
  let ?st = "if open_flags AND O_APPEND \<noteq> 0 then bindE (vop_fstat t n) (\<lambda>(ret, st). Inr (ret, st_size st)) else Inr (0, 0)"
  obtain c pos where st: "?st = Inr (c, pos)" using g acc a e o i(5) Some q by (auto simp: file_open_def bindE_Inr_iff Let_def)
  show ?thesis
  proof (cases "c = 0")
    case False
    then have c: "vfs_close t n = Inr s'" "p' = upd_file i (\<lambda>f. f\<lparr>fnode := None, status := FD_NONE\<rparr>) p"
      using g acc a e o i l Some q st by (auto simp: file_open_def bindE_Inr_iff Let_def fd_array_free_def)
    from vfs_close_inv [OF t' c(1)] entry_dropped [OF inv i(1,2) _ _ c(2), of s' R] show ?thesis by (simp add: fun_upd_idem)
  next
    case c0: True
    then have c: "s' = t" "p' = upd_file i (\<lambda>f. f\<lparr>fpos := pos, fnode := Some n,
         readable := (open_flags AND O_ACCMODE = O_RDONLY \<or> open_flags AND O_ACCMODE = O_RDWR),
         writable := (open_flags AND O_ACCMODE = O_WRONLY \<or> open_flags AND O_ACCMODE = O_RDWR),
         status := FD_OPENED, fopen_count := fopen_count f + 1\<rparr>) p"
      using g acc a e o i l Some q st by (auto simp: file_open_def bindE_Inr_iff Let_def fd_array_open_def)
    show ?thesis unfolding c(1) using inv i(1,2) t' by (rule entry_opened) (use c i in simp_all)
  qed
qed

text \<open>An open with \<^verbatim>\<open>O_CREAT | O_EXCL\<close> can leave one reference behind that nobody holds.\<close>

lemma file_open_inv:
  assumes inv: "files_inv s p R Q" and m: "mem_ok s m"
    and g: "file_open s p path open_flags m = Inr (s', p', ret)"
  shows "files_inv s' p' R Q \<or>
    open_flags AND O_EXCL \<noteq> 0 \<and> open_flags AND O_CREAT \<noteq> 0 \<and> ret = - E_EXISTS \<and> (\<exists>n. files_inv s' p' (R(n := R n + 1)) Q)"
proof (cases "open_flags AND O_ACCMODE = O_ACCMODE")
  case True
  then show ?thesis using g inv by (simp add: file_open_def)
next
  case acc: False
  have wf: "table_wf p" using inv by (simp add: files_inv_def)
  obtain p1 e i where a: "fd_array_alloc p NO_FD = Inr (p1, e, i)" using g acc by (auto simp: file_open_def bindE_Inr_iff Let_def)
  show ?thesis
  proof (cases "e = 0")
    case False
    then have "p1 = p" using fd_array_alloc_ok [OF wf a] by auto
    then show ?thesis using g acc a False inv by (auto simp: file_open_def Let_def)
  next
    case True
    then have i: "i < 145" "status (fd_array p ! i) = FD_NONE" "fopen_count (fd_array p ! i) = 0" "fd (fd_array p ! i) = int i"
      "p1 = upd_file i (\<lambda>f. f\<lparr>status := FD_INIT, fnode := None\<rparr>) p" using fd_array_alloc_ok [OF wf a] by auto
    have l: "i < length (fd_array p)" using wf i by (simp add: table_wf_def)
    obtain t q r where o: "vfs_open s (pwd p) path open_flags m = Inr (t, q, r)"
      using g acc a True i(5) by (auto simp: file_open_def bindE_Inr_iff Let_def)
    let ?R = "\<lambda>n. held p n + R n + cwd_ref (pwd p) n" and ?P = "\<lambda>n. held p n + Q n"
    from vfs_open_inv [OF files_inv_refs [OF inv] m o]
    consider (ok) "got_open t q r ?R ?P"
      | (lost) n where "open_flags AND O_EXCL \<noteq> 0" "open_flags AND O_CREAT \<noteq> 0" "q = - E_EXISTS" "r = None" "ref_inv t (?R(n := ?R n + 1)) ?P"
      by blast
    then show ?thesis
    proof cases
      case (lost n)
      then have p': "s' = t" "ret = - E_EXISTS" "p' = upd_file i (\<lambda>f. f\<lparr>fnode := None, status := FD_NONE\<rparr>) p"
        using g acc a True o i l by (auto simp: file_open_def bindE_Inr_iff Let_def fd_array_free_def)
      have "?R(n := ?R n + 1) = (\<lambda>k. held p k + (R(n := R n + 1)) k + cwd_ref (pwd p) k)" by auto
      with lost(5) have "ref_inv t (\<lambda>k. held p k + (R(n := R n + 1)) k + cwd_ref (pwd p) k) ?P" by (simp only:)
      then have "files_inv t p' (R(n := R n + 1)) Q" by (rule entry_dropped [OF inv i(1,2) _ _ p'(3)]) simp
      then show ?thesis using lost(1,2) p'(1,2) by blast
    next
      case ok
      then have "files_inv s' p' R Q" by (rule file_open_got [OF inv g acc a True i l o])
      then show ?thesis ..
    qed
  qed
qed

lemma open_inc_inv:
  assumes inv: "ref_inv s R P" and lt: "P n < R n" and i: "inode_open_inc s n = Inr (s', c)"
  shows "nodes_keep s s' \<and> ref_inv s' R (P(n := P n + 1))"
proof -
  from open_inc_spec [OF inv lt] obtain t where "inode_open_inc s n = Inr (t, int (P n) + 1)" "ref_inv t R (P(n := P n + 1))" "nodes_keep s t" .
  with i show ?thesis by simp
qed

lemma fd_array_dup_inv:
  assumes inv: "files_inv s p R Q" and j: "j < FILES_STRUCT_NENTRY" "status (fd_array p ! j) = FD_NONE" "fopen_count (fd_array p ! j) = 0"
      "fd (fd_array p ! j) = int j"
    and p1: "p1 = upd_file j h p" "h (fd_array p ! j) = (fd_array p ! j)\<lparr>status := FD_INIT, fnode := v\<rparr>"
    and g: "fd_array_dup s p1 j from = Inr (s', p')"
  shows "files_inv s' p' R Q \<and> (\<forall>k. k \<noteq> j \<longrightarrow> fd_array p' ! k = fd_array p ! k) \<and> fd_array p' ! j = from\<lparr>fopen_count := 1, fd := int j\<rparr>"
proof -
  have wf: "table_wf p" and le: "\<And>n. Q n \<le> R n" using inv by (simp_all add: files_inv_def)
  have l: "j < length (fd_array p)" using wf j by (simp add: table_wf_def)
  obtain n t c u d where n: "status from = FD_OPENED" "fnode from = Some n" "inode_ref_inc s n = Inr (t, c)" "inode_open_inc t n = Inr (u, d)"
    using g by (auto simp: fd_array_dup_def bindE_Inr_iff split: option.splits)
  let ?g = "\<lambda>f. f\<lparr>fpos := fpos from, readable := readable from, writable := writable from, fnode := Some n, status := FD_OPENED, fopen_count := 1\<rparr>"
  have p': "s' = u" "p' = upd_file j ?g p"
    using g n l j p1 by (auto simp: fd_array_dup_def bindE_Inr_iff fd_array_open_def upd_file_def)
  let ?R = "\<lambda>n. held p n + R n + cwd_ref (pwd p) n" and ?P = "\<lambda>n. held p n + Q n"
  have t: "ref_inv t (?R(n := ?R n + 1)) ?P" using ref_inc_inv [OF files_inv_refs [OF inv] n(3)] by simp
  have "?P n < (?R(n := ?R n + 1)) n" using le [of n] by simp
  from open_inc_inv [OF t this n(4)] have u: "ref_inv u (?R(n := ?R n + 1)) (?P(n := ?P n + 1))" by (rule conjunct2)
  have "files_inv u p' R Q" using inv j(1,2) u by (rule entry_opened) (use p' j in simp_all)
  moreover have "fd_array p' ! j = from\<lparr>fopen_count := 1, fd := int j\<rparr>" using p'(2) l n j(4) by simp
  ultimately show ?thesis using p' l by (simp add: upd_file_nth)
qed

lemma file_dup_inv:
  assumes inv: "files_inv s p R Q" and g: "file_dup s p fd1 fd2 = Inr (s', p', ret)"
  shows "files_inv s' p' R Q"
proof -
  have wf: "table_wf p" using inv by (simp add: files_inv_def)
  obtain e i where e: "fd2file p fd1 = Inr (e, i)" using g by (auto simp: file_dup_def bindE_Inr_iff)
  show ?thesis
  proof (cases "e = 0")
    case False
    then show ?thesis using g e inv by (auto simp: file_dup_def)
  next
    case True
    obtain p1 q j where a: "fd_array_alloc p fd2 = Inr (p1, q, j)" using g e True by (auto simp: file_dup_def bindE_Inr_iff)
    show ?thesis
    proof (cases "q = 0")
      case False
      then show ?thesis using g e True a inv fd_array_alloc_ok [OF wf a] by (auto simp: file_dup_def)
    next
      case q: True
      then have j: "j < 145" "status (fd_array p ! j) = FD_NONE" "fopen_count (fd_array p ! j) = 0" "fd (fd_array p ! j) = int j"
        "p1 = upd_file j (\<lambda>f. f\<lparr>status := FD_INIT, fnode := None\<rparr>) p" using fd_array_alloc_ok [OF wf a] by auto
      have "fd_array_dup s p1 j (fd_array p1 ! i) = Inr (s', p')" using g e True a q by (auto simp: file_dup_def bindE_Inr_iff)
      from fd_array_dup_inv [OF inv j refl this] show ?thesis by blast
    qed
  qed
qed

section \<open>Reading, writing and seeking\<close>

text \<open>The operations between \<^verbatim>\<open>fd_array_acquire\<close> and \<^verbatim>\<open>fd_array_release\<close> move the position at most.\<close>

lemma release_inv:
  assumes inv: "files_inv s p R Q" and i: "i < FILES_STRUCT_NENTRY" "status (fd_array p ! i) = FD_OPENED"
    and s': "ref_inv s' (\<lambda>n. held p n + R n + cwd_ref (pwd p) n) (\<lambda>n. held p n + Q n)"
    and r: "fd_array_release s' (upd_file i g p) i = Inr (s'', p')"
    and g: "g (fd_array p ! i) = (fd_array p ! i)\<lparr>fpos := pos, fopen_count := 2\<rparr>"
  shows "files_inv s'' p' R Q"
proof -
  have wf: "table_wf p" using inv by (simp add: files_inv_def)
  then have l: "i < length (fd_array p)" and e: "entry_wf (int i) (fd_array p ! i)" using i by (simp_all add: table_wf_def)
  let ?g = "\<lambda>f. (g f)\<lparr>fopen_count := fopen_count (g f) - 1\<rparr>"
  have p': "s'' = s'" "p' = upd_file i ?g p" using r l i(2) g by (auto simp: fd_array_release_def Let_def)
  have "table_wf p'" unfolding p' using wf i(1) by (rule table_wf_upd) (use e i(2) in \<open>simp add: entry_wf_def g\<close>)
  moreover have "held p' = held p" unfolding p' using l by (rule held_same) (simp_all add: g)
  ultimately show ?thesis using inv s' p' by (simp add: files_inv_def)
qed

text \<open>A descriptor in use: its inode, the table after \<^verbatim>\<open>fd_array_acquire\<close> and after \<^verbatim>\<open>fd_array_release\<close>.\<close>

lemma acquired:
  assumes "table_wf p" "fd2file p x = Inr (0, i)"
  obtains n where "i < FILES_STRUCT_NENTRY" "i < length (fd_array p)" "status (fd_array p ! i) = FD_OPENED"
    "fopen_count (fd_array p ! i) = 1" "fnode (fd_array p ! i) = Some n"
    "fd_array_acquire p i = Inr (upd_file i (\<lambda>f. f\<lparr>fopen_count := fopen_count f + 1\<rparr>) p)"
    "file_node (upd_file i (\<lambda>f. f\<lparr>fopen_count := fopen_count f + 1\<rparr>) p) i = Inr n"
proof -
  from assms obtain n where "i < 145" "i < length (fd_array p)" "x = int i" "status (fd_array p ! i) = FD_OPENED"
    "fopen_count (fd_array p ! i) = 1" "fnode (fd_array p ! i) = Some n" by (rule fd2file_found)
  then show ?thesis using that [of n] by (simp add: fd_array_acquire_def file_node_def)
qed

lemma file_rw_inv:
  assumes inv: "files_inv s p R Q" and g: "file_rw w s p x mem base len = Inr (s', p', mem', copied, ret)"
  shows "files_inv s' p' R Q"
proof -
  have wf: "table_wf p" using inv by (simp add: files_inv_def)
  obtain e i where e: "fd2file p x = Inr (e, i)" using g by (auto simp: file_rw_def bindE_Inr_iff)
  show ?thesis
  proof (cases "e = 0 \<and> (if w then writable (fd_array p ! i) else readable (fd_array p ! i))")
    case False
    then show ?thesis using g e inv by (auto simp: file_rw_def split: if_splits)
  next
    case True
    with e have "fd2file p x = Inr (0, i)" by simp
    with wf obtain n where i: "i < 145" "i < length (fd_array p)" "status (fd_array p ! i) = FD_OPENED"
      "fopen_count (fd_array p ! i) = 1" "fnode (fd_array p ! i) = Some n"
      "fd_array_acquire p i = Inr (upd_file i (\<lambda>f. f\<lparr>fopen_count := fopen_count f + 1\<rparr>) p)"
      "file_node (upd_file i (\<lambda>f. f\<lparr>fopen_count := fopen_count f + 1\<rparr>) p) i = Inr n" by (rule acquired)
    obtain t iob q where v: "vop_rw w s n (iobuf_init mem base len (fpos (fd_array p ! i))) = Inr (t, iob, q)"
      using g e True i(2,6,7) by (cases w) (auto simp: file_rw_def bindE_Inr_iff Let_def)
    then have t: "ref_inv t (\<lambda>n. held p n + R n + cwd_ref (pwd p) n) (\<lambda>n. held p n + Q n)"
      using vop_rw_inv [OF files_inv_refs [OF inv]] by blast
    let ?g = "\<lambda>f. f\<lparr>fopen_count := fopen_count f + 1, fpos := fpos f + iobuf_used iob\<rparr>"
    have "fd_array_release t (upd_file i ?g p) i = Inr (s', p')"
      using g e True i(2,3,6,7) v by (cases w) (auto simp: file_rw_def Let_def bindE_Inr_iff)
    with inv i(1,3) t show ?thesis by (rule release_inv [where pos = "fpos (fd_array p ! i) + iobuf_used iob"]) (simp add: i(4))
  qed
qed

lemma file_seek_inv:
  assumes inv: "files_inv s p R Q" and g: "file_seek s p x pos whence = Inr (s', p', ret)"
  shows "files_inv s' p' R Q"
proof -
  have wf: "table_wf p" using inv by (simp add: files_inv_def)
  obtain e i where e: "fd2file p x = Inr (e, i)" using g by (auto simp: file_seek_def bindE_Inr_iff)
  show ?thesis
  proof (cases "e = 0")
    case False
    then show ?thesis using g e inv by (auto simp: file_seek_def)
  next
    case True
    with e have f: "fd2file p x = Inr (0, i)" by simp
    with wf obtain n where i: "i < 145" "i < length (fd_array p)" "status (fd_array p ! i) = FD_OPENED"
      "fopen_count (fd_array p ! i) = 1" "fnode (fd_array p ! i) = Some n"
      "fd_array_acquire p i = Inr (upd_file i (\<lambda>f. f\<lparr>fopen_count := fopen_count f + 1\<rparr>) p)"
      "file_node (upd_file i (\<lambda>f. f\<lparr>fopen_count := fopen_count f + 1\<rparr>) p) i = Inr n" by (rule acquired)
    let ?p = "upd_file i (\<lambda>f. f\<lparr>fopen_count := fopen_count f + 1\<rparr>) p"
    let ?R = "\<lambda>n. held p n + R n + cwd_ref (pwd p) n" and ?P = "\<lambda>n. held p n + Q n"
    obtain c pos' where "bindE
         (if c = 0 then
            bindE (vop_tryseek s n pos') (\<lambda>(s, ret).
            Inr (s, if ret = 0 then upd_file i (\<lambda>f. f\<lparr>fpos := pos'\<rparr>) ?p else ?p, ret))
          else Inr (s, ?p, c)) (\<lambda>(s, p, ret).
       bindE (fd_array_release s p i) (\<lambda>(s, p). Inr (s, p, ret))) = Inr (s', p', ret)"
      using g f i(6,7) unfolding file_seek_def
      by (simp only: bindE_simps prod.case simp_thms if_False bindE_Inr_iff [of "if whence = 0 then _ else _"]) auto
    then consider (stay) t where "t = s \<or> (\<exists>r. vop_tryseek s n pos' = Inr (t, r))" "fd_array_release t ?p i = Inr (s', p')"
      | (seek) t where "vop_tryseek s n pos' = Inr (t, 0)" "fd_array_release t (upd_file i (\<lambda>f. f\<lparr>fpos := pos'\<rparr>) ?p) i = Inr (s', p')"
      by (auto simp: bindE_Inr_iff split: if_splits)
    then show ?thesis
    proof cases
      case stay
      have "ref_inv t ?R ?P" using stay(1) files_inv_refs [OF inv] vop_tryseek_inv [OF files_inv_refs [OF inv]] by blast
      with inv i(1,3) show ?thesis using stay(2)
        by (rule release_inv [where pos = "fpos (fd_array p ! i)"]) (simp add: i(4))
    next
      case seek
      have t: "ref_inv t ?R ?P" using vop_tryseek_inv [OF files_inv_refs [OF inv] seek(1)] by blast
      have "fd_array_release t (upd_file i (\<lambda>f. f\<lparr>fopen_count := fopen_count f + 1, fpos := pos'\<rparr>) p) i = Inr (s', p')"
        using seek(2) by simp
      with inv i(1,3) t show ?thesis by (rule release_inv [where pos = pos']) (simp add: i(4))
    qed
  qed
qed

text \<open>The operations that leave the position alone.\<close>

lemma use_inv:
  assumes inv: "files_inv s p R Q" and f: "fd2file p x = Inr (0, i)"
    and v: "\<And>n t. fnode (fd_array p ! i) = Some n \<Longrightarrow> fd_array_acquire p i = Inr (upd_file i (\<lambda>f. f\<lparr>fopen_count := fopen_count f + 1\<rparr>) p) \<Longrightarrow>
        file_node (upd_file i (\<lambda>f. f\<lparr>fopen_count := fopen_count f + 1\<rparr>) p) i = Inr n \<Longrightarrow>
        \<exists>t. ref_inv t (\<lambda>n. held p n + R n + cwd_ref (pwd p) n) (\<lambda>n. held p n + Q n) \<and>
          fd_array_release t (upd_file i (\<lambda>f. f\<lparr>fopen_count := fopen_count f + 1\<rparr>) p) i = Inr (s', p')"
  shows "files_inv s' p' R Q"
proof -
  have wf: "table_wf p" using inv by (simp add: files_inv_def)
  from wf f obtain n where i: "i < 145" "i < length (fd_array p)" "status (fd_array p ! i) = FD_OPENED"
    "fopen_count (fd_array p ! i) = 1" "fnode (fd_array p ! i) = Some n"
    "fd_array_acquire p i = Inr (upd_file i (\<lambda>f. f\<lparr>fopen_count := fopen_count f + 1\<rparr>) p)"
    "file_node (upd_file i (\<lambda>f. f\<lparr>fopen_count := fopen_count f + 1\<rparr>) p) i = Inr n" by (rule acquired)
  from v [OF i(5-7)] obtain t where t: "ref_inv t (\<lambda>n. held p n + R n + cwd_ref (pwd p) n) (\<lambda>n. held p n + Q n)"
    "fd_array_release t (upd_file i (\<lambda>f. f\<lparr>fopen_count := fopen_count f + 1\<rparr>) p) i = Inr (s', p')" by blast
  show ?thesis using inv i(1,3) t by (rule release_inv [where pos = "fpos (fd_array p ! i)"]) (simp add: i(4))
qed

lemma file_fstat_inv:
  assumes inv: "files_inv s p R Q" and g: "file_fstat s p x = Inr (s', p', ret, st)"
  shows "files_inv s' p' R Q"
proof -
  obtain e i where e: "fd2file p x = Inr (e, i)" using g by (auto simp: file_fstat_def bindE_Inr_iff)
  show ?thesis
  proof (cases "e = 0")
    case False
    then show ?thesis using g e inv by (auto simp: file_fstat_def)
  next
    case True
    with e have f: "fd2file p x = Inr (0, i)" by simp
    show ?thesis using inv f
      by (rule use_inv) (use g f files_inv_refs [OF inv] in \<open>auto simp: file_fstat_def bindE_Inr_iff\<close>)
  qed
qed

lemma file_fsync_inv:
  assumes inv: "files_inv s p R Q" and g: "file_fsync s p x = Inr (s', p', ret)"
  shows "files_inv s' p' R Q"
proof -
  obtain e i where e: "fd2file p x = Inr (e, i)" using g by (auto simp: file_fsync_def bindE_Inr_iff)
  show ?thesis
  proof (cases "e = 0")
    case False
    then show ?thesis using g e inv by (auto simp: file_fsync_def)
  next
    case True
    with e have f: "fd2file p x = Inr (0, i)" by simp
    show ?thesis using inv f
      by (rule use_inv) (use g f vop_fsync_inv [OF files_inv_refs [OF inv]] in \<open>fastforce simp: file_fsync_def bindE_Inr_iff\<close>)
  qed
qed

lemma file_getdirentry_inv:
  assumes inv: "files_inv s p R Q" and g: "file_getdirentry s p x off name ok = Inr (s', p', ret, off', name')"
  shows "files_inv s' p' R Q"
proof -
  obtain e i where e: "fd2file p x = Inr (e, i)" using g by (auto simp: file_getdirentry_def bindE_Inr_iff)
  show ?thesis
  proof (cases "e = 0")
    case False
    then show ?thesis using g e inv by (auto simp: file_getdirentry_def)
  next
    case True
    with e have f: "fd2file p x = Inr (0, i)" by simp
    show ?thesis using inv f
      by (rule use_inv) (use g f vop_getdirentry_inv [OF files_inv_refs [OF inv]] in \<open>fastforce simp: file_getdirentry_def bindE_Inr_iff\<close>)
  qed
qed

end
