(* ===== verification/File_Claims.thy ===== *)
theory File_Claims
  imports File_Props
begin

text \<open>
  What the calls of a process on its files do to the references: each call, closing, forking, and the calls that
  lose a reference or end at an assertion.
\<close>

section \<open>The calls of a process\<close>

datatype file_op = Op_open "u8 list" u32 kmem | Op_close int | Op_dup int int | Op_read int "u8 list" nat u32
  | Op_write int "u8 list" nat u32 | Op_seek int u32 int | Op_fstat int | Op_fsync int | Op_getdirentry int u32 "u8 list" bool
  | Op_chdir "u8 list" kmem

fun file_do :: "vfs \<Rightarrow> files_struct \<Rightarrow> file_op \<Rightarrow> kpanic + (vfs \<times> files_struct)" where
  "file_do s p (Op_open path open_flags m) = bindE (file_open s p path open_flags m) (\<lambda>(s, p, _). Inr (s, p))"
| "file_do s p (Op_close x) = bindE (file_close s p x) (\<lambda>(s, p, _). Inr (s, p))"
| "file_do s p (Op_dup x y) = bindE (file_dup s p x y) (\<lambda>(s, p, _). Inr (s, p))"
| "file_do s p (Op_read x mem base len) = bindE (file_read s p x mem base len) (\<lambda>(s, p, _). Inr (s, p))"
| "file_do s p (Op_write x mem base len) = bindE (file_write s p x mem base len) (\<lambda>(s, p, _). Inr (s, p))"
| "file_do s p (Op_seek x pos whence) = bindE (file_seek s p x pos whence) (\<lambda>(s, p, _). Inr (s, p))"
| "file_do s p (Op_fstat x) = bindE (file_fstat s p x) (\<lambda>(s, p, _). Inr (s, p))"
| "file_do s p (Op_fsync x) = bindE (file_fsync s p x) (\<lambda>(s, p, _). Inr (s, p))"
| "file_do s p (Op_getdirentry x off name ok) = bindE (file_getdirentry s p x off name ok) (\<lambda>(s, p, _). Inr (s, p))"
| "file_do s p (Op_chdir path m) = bindE (vfs_chdir s (pwd p) path m) (\<lambda>(s, cwd, _). Inr (s, p\<lparr>pwd := cwd\<rparr>))"

text \<open>The memory that \<^verbatim>\<open>kmalloc\<close> hands out for inodes is not in use.\<close>

fun op_ok :: "vfs \<Rightarrow> file_op \<Rightarrow> bool" where
  "op_ok s (Op_open path open_flags m) \<longleftrightarrow> mem_ok s m"
| "op_ok s (Op_chdir path m) \<longleftrightarrow> mem_ok s m"
| "op_ok s _ \<longleftrightarrow> True"

text \<open>An open that must create the file; it can lose a reference, as shown below.\<close>

fun exclusive_create :: "file_op \<Rightarrow> bool" where
  "exclusive_create (Op_open path open_flags m) \<longleftrightarrow> open_flags AND O_EXCL \<noteq> 0 \<and> open_flags AND O_CREAT \<noteq> 0"
| "exclusive_create _ \<longleftrightarrow> False"

lemma held_pwd [simp]: "held (p\<lparr>pwd := c\<rparr>) = held p"
  by (simp add: held_def open_fds_def fun_eq_iff)

lemma chdir_inv:
  assumes inv: "files_inv s p R Q" and m: "mem_ok s m" and g: "vfs_chdir s (pwd p) path m = Inr (s', cwd, ret)"
  shows "files_inv s' (p\<lparr>pwd := cwd\<rparr>) R Q"
proof -
  have "held p n + Q n \<le> held p n + R n" for n using inv by (simp add: files_inv_def)
  from vfs_chdir_inv [OF files_inv_refs [OF inv] m this g] inv show ?thesis by (simp add: files_inv_def table_wf_def)
qed

lemma file_do_inv:
  assumes inv: "files_inv s p R Q" and ok: "op_ok s c" and d: "file_do s p c = Inr (s', p')"
  shows "files_inv s' p' R Q \<or> exclusive_create c \<and> (\<exists>n. files_inv s' p' (R(n := R n + 1)) Q)"
  using d
proof (cases c)
  case (Op_open path fl m)
  then obtain r where "file_open s p path fl m = Inr (s', p', r)" using d by (auto simp: bindE_Inr_iff)
  from file_open_inv [OF inv _ this] ok Op_open show ?thesis by auto
next
  case (Op_close x)
  then obtain r where "file_close s p x = Inr (s', p', r)" using d by (auto simp: bindE_Inr_iff)
  with inv have "files_inv s' p' R Q" by (rule file_close_inv)
  then show ?thesis ..
next
  case (Op_dup x y)
  then obtain r where "file_dup s p x y = Inr (s', p', r)" using d by (auto simp: bindE_Inr_iff)
  with inv have "files_inv s' p' R Q" by (rule file_dup_inv)
  then show ?thesis ..
next
  case (Op_read x mem base len)
  then obtain a b r where "file_rw False s p x mem base len = Inr (s', p', a, b, r)"
    using d by (auto simp: bindE_Inr_iff file_read_def)
  with inv have "files_inv s' p' R Q" by (rule file_rw_inv)
  then show ?thesis ..
next
  case (Op_write x mem base len)
  then obtain a b r where "file_rw True s p x mem base len = Inr (s', p', a, b, r)"
    using d by (auto simp: bindE_Inr_iff file_write_def)
  with inv have "files_inv s' p' R Q" by (rule file_rw_inv)
  then show ?thesis ..
next
  case (Op_seek x pos whence)
  then obtain r where "file_seek s p x pos whence = Inr (s', p', r)" using d by (auto simp: bindE_Inr_iff)
  with inv have "files_inv s' p' R Q" by (rule file_seek_inv)
  then show ?thesis ..
next
  case (Op_fstat x)
  then obtain r t where "file_fstat s p x = Inr (s', p', r, t)" using d by (auto simp: bindE_Inr_iff)
  with inv have "files_inv s' p' R Q" by (rule file_fstat_inv)
  then show ?thesis ..
next
  case (Op_fsync x)
  then obtain r where "file_fsync s p x = Inr (s', p', r)" using d by (auto simp: bindE_Inr_iff)
  with inv have "files_inv s' p' R Q" by (rule file_fsync_inv)
  then show ?thesis ..
next
  case (Op_getdirentry x off name ok')
  then obtain r a b where "file_getdirentry s p x off name ok' = Inr (s', p', r, a, b)" using d by (auto simp: bindE_Inr_iff)
  with inv have "files_inv s' p' R Q" by (rule file_getdirentry_inv)
  then show ?thesis ..
next
  case (Op_chdir path m)
  then obtain cwd r where "vfs_chdir s (pwd p) path m = Inr (s', cwd, r)" "p' = p\<lparr>pwd := cwd\<rparr>" using d by (auto simp: bindE_Inr_iff)
  with chdir_inv [OF inv _ this(1)] ok Op_chdir show ?thesis by simp
qed

lemma files_inv_slot:
  assumes "files_inv s p R Q"
  shows "(inodes s n = None \<longleftrightarrow> held p n = 0 \<and> R n = 0 \<and> pwd p \<noteq> Some n) \<and>
    (\<forall>nd. inodes s n = Some nd \<longrightarrow> ref_count nd = int (held p n + R n + cwd_ref (pwd p) n) \<and> open_count nd = int (held p n + Q n) \<and>
       inode_typed (blocks (sfs s)) nd)"
proof -
  have le: "Q n \<le> R n" using assms by (simp add: files_inv_def)
  have "slot_ok (blocks (sfs s)) (inodes s n) (held p n + R n + cwd_ref (pwd p) n) (held p n + Q n)"
    using ref_inv_slot [OF files_inv_refs [OF assms]] .
  then show ?thesis using le by (cases "inodes s n") (auto simp: cwd_ref_def split: if_splits)
qed

section \<open>Closing and duplicating succeed\<close>

lemma file_close_ok:
  assumes inv: "files_inv s p R Q" and f: "fd2file p x = Inr (0, i)" and n: "fnode (fd_array p ! i) = Some n"
    and max: "held p n + R n + cwd_ref (pwd p) n < 65536"
    and dev: "held p n + R n + cwd_ref (pwd p) n = 1 \<Longrightarrow> sfs_node s n \<noteq> None"
  obtains s' where "file_close s p x = Inr (s', upd_file i (\<lambda>f. f\<lparr>fopen_count := fopen_count f - 1, status := FD_NONE\<rparr>) p, 0)"
    "held (upd_file i (\<lambda>f. f\<lparr>fopen_count := fopen_count f - 1, status := FD_NONE\<rparr>) p) = (held p)(n := held p n - 1)" "0 < held p n"
proof -
  have wf: "table_wf p" and le: "Q n \<le> R n" using inv by (simp_all add: files_inv_def)
  from wf f obtain k where i: "i < 145" "i < length (fd_array p)" "x = int i" "status (fd_array p ! i) = FD_OPENED"
    "fopen_count (fd_array p ! i) = 1" "fnode (fd_array p ! i) = Some k" by (rule fd2file_found)
  let ?R = "\<lambda>n. held p n + R n + cwd_ref (pwd p) n" and ?P = "\<lambda>n. held p n + Q n"
  note h = held_close [OF i(2,4) n, of "\<lambda>f. f\<lparr>fopen_count := fopen_count f - 1, status := FD_NONE\<rparr>", simplified]
  note r = files_inv_refs [OF inv]
  have "0 < ?P n" using h(2) by simp
  from open_dec_spec [OF r this max] obtain t where t: "inode_open_dec s n = Inr (t, int (?P n) - 1)"
    "ref_inv t ?R (?P(n := ?P n - 1))" "nodes_keep s t" .
  obtain nd where "inodes t n = Some nd" using t(2) by (rule ref_invD [of t ?R _ n]) (use h(2) in simp_all)
  then have "sfs_node t n = sfs_node s n" using t(3) by (auto simp: nodes_keep_def)
  then have d: "?R n = 1 \<Longrightarrow> sfs_node t n \<noteq> None" using dev by simp
  have "(?P(n := ?P n - 1)) n < ?R n" using le h(2) by simp
  from ref_dec_spec [OF t(2) this d] obtain s' where "inode_ref_dec t n = Inr (s', int (?R n) - 1)" .
  then have "file_close s p x = Inr (s', upd_file i (\<lambda>f. f\<lparr>fopen_count := fopen_count f - 1, status := FD_NONE\<rparr>) p, 0)"
    using f i t(1) n by (simp add: file_close_def fd_array_close_def fd_array_free_def vfs_close_def Let_def)
  then show ?thesis using that h by simp
qed

lemma fd_array_dup_ok:
  assumes inv: "files_inv s p R Q" and j: "j < FILES_STRUCT_NENTRY" "status (fd_array p ! j) = FD_NONE" "fopen_count (fd_array p ! j) = 0"
    and n: "status from = FD_OPENED" "fnode from = Some n" "0 < held p n + R n + cwd_ref (pwd p) n"
    and h: "h (fd_array p ! j) = (fd_array p ! j)\<lparr>status := FD_INIT, fnode := v\<rparr>"
  obtains s' p' where "fd_array_dup s (upd_file j h p) j from = Inr (s', p')"
proof -
  have wf: "table_wf p" and le: "Q n \<le> R n" using inv by (simp_all add: files_inv_def)
  have l: "j < length (fd_array p)" using wf j by (simp add: table_wf_def)
  let ?R = "\<lambda>n. held p n + R n + cwd_ref (pwd p) n" and ?P = "\<lambda>n. held p n + Q n"
  from ref_inc_spec [OF files_inv_refs [OF inv] n(3)] obtain t where
    t: "inode_ref_inc s n = Inr (t, int (?R n) + 1)" "ref_inv t (?R(n := ?R n + 1)) ?P" .
  have "?P n < (?R(n := ?R n + 1)) n" using le by simp
  from open_inc_spec [OF t(2) this] obtain u where "inode_open_inc t n = Inr (u, int (?P n) + 1)" .
  with that show ?thesis using t(1) n l j h by (simp add: fd_array_dup_def fd_array_open_def)
qed

section \<open>Forking\<close>

lemma fd_array_dup_pwd: "fd_array_dup s p j from = Inr (s', p') \<Longrightarrow> pwd p' = pwd p"
  by (auto simp: fd_array_dup_def fd_array_open_def bindE_Inr_iff split: option.splits)

text \<open>The entry of the child after the loop over the table.\<close>

definition dup_entry :: "file_t \<Rightarrow> file_t \<Rightarrow> file_t" where
  "dup_entry old from = (if status from = FD_OPENED then from else old)"

lemma dup_loop_ok:
  assumes inv: "files_inv s to R Q" and src: "table_wf from" "\<And>n. held from n \<le> R n"
    and ks: "distinct ks" "\<And>i. i \<in> set ks \<Longrightarrow> i < FILES_STRUCT_NENTRY \<and> status (fd_array to ! i) = FD_NONE"
  shows "\<exists>s' to'. dup_loop s to from ks = Inr (s', to') \<and> files_inv s' to' R Q \<and> pwd to' = pwd to \<and>
    (\<forall>k. fd_array to' ! k = (if k \<in> set ks then dup_entry (fd_array to ! k) (fd_array from ! k) else fd_array to ! k))"
  using inv ks
proof (induction ks arbitrary: s to)
  case Nil
  then show ?case by simp
next
  case (Cons i ks)
  show ?case
  proof (cases "status (fd_array from ! i) = FD_OPENED")
    case False
    with Cons obtain s' to' where "dup_loop s to from ks = Inr (s', to')" "files_inv s' to' R Q" "pwd to' = pwd to"
      "\<forall>k. fd_array to' ! k = (if k \<in> set ks then dup_entry (fd_array to ! k) (fd_array from ! k) else fd_array to ! k)"
      by (metis distinct.simps(2) list.set_intros(2))
    then show ?thesis using False Cons.prems by (auto simp: dup_entry_def)
  next
    case True
    have i: "i < 145" "status (fd_array to ! i) = FD_NONE" using Cons.prems(3) by auto
    then have e: "entry_wf (int i) (fd_array from ! i)" "entry_wf (int i) (fd_array to ! i)" "i < length (fd_array from)"
      using src(1) Cons.prems(1) by (auto simp: table_wf_def files_inv_def)
    then obtain n where n: "fnode (fd_array from ! i) = Some n" using True by (auto simp: entry_wf_def)
    have "i \<in> open_fds from n" using True n e(3) by (simp add: open_fds_def)
    then have "0 < held from n" unfolding held_def card_gt_0_iff by auto
    then have alive: "0 < held to n + R n + cwd_ref (pwd to) n" using src(2) [of n] by simp
    have e2: "fopen_count (fd_array to ! i) = 0" "fd (fd_array to ! i) = int i" using e(2) i(2) by (auto simp: entry_wf_def)
    let ?h = "\<lambda>f. f\<lparr>status := FD_INIT\<rparr>"
    have h: "?h (fd_array to ! i) = (fd_array to ! i)\<lparr>status := FD_INIT, fnode := fnode (fd_array to ! i)\<rparr>" by simp
    from fd_array_dup_ok [where h = ?h, OF Cons.prems(1) i e2(1) True n alive h] obtain t q where
      d: "fd_array_dup s (upd_file i ?h to) i (fd_array from ! i) = Inr (t, q)" .
    from fd_array_dup_inv [where h = ?h, OF Cons.prems(1) i e2 refl h d]
    have q: "files_inv t q R Q" "\<And>k. k \<noteq> i \<Longrightarrow> fd_array q ! k = fd_array to ! k"
      "fd_array q ! i = (fd_array from ! i)\<lparr>fopen_count := 1, fd := int i\<rparr>" by auto
    have same: "fd_array q ! i = fd_array from ! i" using q(3) e(1) True by (simp add: entry_wf_def)
    have ks': "k < 145 \<and> status (fd_array q ! k) = FD_NONE" if "k \<in> set ks" for k
    proof -
      have "k \<noteq> i" using Cons.prems(2) that by auto
      then show "k < 145 \<and> status (fd_array q ! k) = FD_NONE" using q(2) Cons.prems(3) [of k] that by simp
    qed
    have dk: "distinct ks" using Cons.prems(2) by simp
    from Cons.IH [OF q(1) dk ks'] obtain s' to' where l: "dup_loop t q from ks = Inr (s', to')" "files_inv s' to' R Q" "pwd to' = pwd q"
      "\<forall>k. fd_array to' ! k = (if k \<in> set ks then dup_entry (fd_array q ! k) (fd_array from ! k) else fd_array q ! k)" by blast
    moreover have "pwd q = pwd to" using fd_array_dup_pwd [OF d] by simp
    moreover have "fd_array to' ! k = (if k \<in> set (i # ks) then dup_entry (fd_array to ! k) (fd_array from ! k) else fd_array to ! k)" for k
      using l(4) q(2) [of k] same True Cons.prems(2) by (cases "k = i") (auto simp: dup_entry_def)
    ultimately show ?thesis using d True by simp
  qed
qed

lemma held_none: "(\<And>i. i < length (fd_array p) \<Longrightarrow> status (fd_array p ! i) = FD_NONE) \<Longrightarrow> held p n = 0"
  by (auto simp: held_def open_fds_def)

lemma dup_files_ok:
  assumes inv: "files_inv s from R Q" and cnt: "0 < files_count from" and new: "files_create (Some mem) = Some to"
  shows "\<exists>s' to'. dup_files s to from = Inr (s', to', 0) \<and> pwd to' = pwd from \<and>
    (\<forall>i < FILES_STRUCT_NENTRY. fd_array to' ! i = dup_entry (fd_array to ! i) (fd_array from ! i)) \<and>
    files_inv s' to' (\<lambda>n. held from n + R n + cwd_ref (pwd from) n) (\<lambda>n. held from n + Q n)"
proof -
  have wf: "table_wf from" and le: "\<And>n. Q n \<le> R n" using inv by (simp_all add: files_inv_def)
  have to: "to = \<lparr>pwd = None, fd_array = fd_array_init mem, files_count = 0\<rparr>" using new by (simp add: files_create_def)
  let ?to = "to\<lparr>pwd := pwd from\<rparr>" and ?R = "\<lambda>n. held from n + R n + cwd_ref (pwd from) n" and ?P = "\<lambda>n. held from n + Q n"
  have none: "i < 145 \<Longrightarrow> status (fd_array ?to ! i) = FD_NONE" for i by (simp add: to fd_array_init_def)
  have twf: "table_wf ?to" by (simp add: to fd_array_init_def table_wf_def entry_wf_def)
  have z: "held ?to n = 0" for n using twf none by (intro held_none) (simp add: table_wf_def)
  obtain t where t: "(case pwd from of None \<Rightarrow> Inr s | Some n \<Rightarrow> bindE (inode_ref_inc s n) (\<lambda>(s, _). Inr s)) = Inr t"
    "ref_inv t (\<lambda>n. ?R n + cwd_ref (pwd from) n) ?P"
  proof (cases "pwd from")
    case None
    then show ?thesis using that [of s] files_inv_refs [OF inv] by simp
  next
    case (Some n)
    have "0 < ?R n" using Some by simp
    from ref_inc_spec [OF files_inv_refs [OF inv] this] obtain t where
      t: "inode_ref_inc s n = Inr (t, int (?R n) + 1)" "ref_inv t (?R(n := ?R n + 1)) ?P" .
    moreover have "?R(n := ?R n + 1) = (\<lambda>n. ?R n + cwd_ref (pwd from) n)" using Some by (auto simp: fun_eq_iff cwd_ref_def)
    ultimately show ?thesis using that [of t] Some by simp
  qed
  have ti: "files_inv t ?to ?R ?P"
    using t(2) by (rule files_invI [OF twf, rotated]) (use le z in \<open>auto simp: trans_le_add1\<close>)
  have "\<exists>s' to'. dup_loop t ?to from [0..<145] = Inr (s', to') \<and> files_inv s' to' ?R ?P \<and> pwd to' = pwd ?to \<and>
    (\<forall>k. fd_array to' ! k = (if k \<in> set [0..<145] then dup_entry (fd_array ?to ! k) (fd_array from ! k) else fd_array ?to ! k))"
    by (rule dup_loop_ok [OF ti wf]) (use none in auto)
  then show ?thesis using t(1) cnt to by (auto simp: dup_files_def simp del: upt.simps upt_rec_numeral)
qed

section \<open>A process with an open directory\<close>

text \<open>The root directory at 2 is the working directory and open as descriptor 0; the device at 1 is the keyboard.\<close>

definition root_sin :: sfs_inode where
  "root_sin = \<lparr>din = \<lparr>dsize = 0, dtype = SFS_TYPE_DIR, nlinks = 1, dblocks = 0, direct = replicate 12 0, indirect = 0\<rparr>,
     ino = SFS_BLKN_ROOT, dirty = False, reclaim_count = 1\<rparr>"

definition two_nodes :: "nat \<Rightarrow> inode option" where
  "two_nodes n =
     (if n = 1 then Some \<lparr>in_info = Device_info Dev_stdin, ref_count = 1, open_count = 0, in_fs = False, in_ops = dev_node_ops\<rparr>
      else if n = 2 then Some \<lparr>in_info = Sfs_inode_info root_sin, ref_count = 2, open_count = 1, in_fs = True, in_ops = sfs_node_dirops\<rparr>
      else None)"

definition root_vfs :: vfs where
  "root_vfs = \<lparr>sfs = \<lparr>blocks = 40, unused_blocks = 0, info = [], super_dirty = False, freemap = \<lparr>nbits = 0, nwords = 0, bmap = []\<rparr>,
       disk = (\<lambda>_. 0), inode_list = [2], hash_list = (\<lambda>h. if h = sin_hashfn 1 then [2] else [])\<rparr>,
     inodes = two_nodes, bootfs_node = None,
     vdev_list = [\<lparr>devname = [115, 116, 100, 105, 110], devnode = Some 1, vdev_fs = False, mountable = False\<rparr>],
     stdin_st = \<lparr>stdin_buffer = [], p_rpos = 0, p_wpos = 0, typed = []\<rparr>, console = []\<rparr>"

definition root_entry :: "nat \<Rightarrow> file_t" where
  "root_entry i = \<lparr>status = (if i = 0 then FD_OPENED else FD_NONE), readable = True, writable = False, fd = int i, fpos = 0,
     fnode = Some 2, fopen_count = (if i = 0 then 1 else 0)\<rparr>"

definition root_files :: files_struct where
  "root_files = \<lparr>pwd = Some 2, fd_array = map root_entry [0..<FILES_STRUCT_NENTRY], files_count = 1\<rparr>"

definition dev_refs :: "nat \<Rightarrow> nat" where
  "dev_refs n = (if n = 1 then 1 else 0)"

lemma root_fd: "length (fd_array root_files) = 145" "i < 145 \<Longrightarrow> fd_array root_files ! i = root_entry i" "pwd root_files = Some 2"
    "files_count root_files = 1"
  unfolding root_files_def by (simp_all del: upt.simps upt_rec_numeral)

lemma root_held: "held root_files n = (if n = 2 then 1 else 0)"
proof -
  have "open_fds root_files n = (if n = 2 then {0} else {})" by (auto simp: open_fds_def root_fd root_entry_def split: if_splits)
  then show ?thesis by (simp add: held_def)
qed

lemma root_vfs_simps [simp]:
  "inode_list (sfs root_vfs) = [2]" "hash_list (sfs root_vfs) = (\<lambda>h. if h = sin_hashfn 1 then [2] else [])"
  "blocks (sfs root_vfs) = 40" "inodes root_vfs = two_nodes" "bootfs_node root_vfs = None"
  "vdev_list root_vfs = [\<lparr>devname = [115, 116, 100, 105, 110], devnode = Some 1, vdev_fs = False, mountable = False\<rparr>]"
  by (simp_all add: root_vfs_def)

lemma root_sfs_node: "sfs_node root_vfs n = (if n = 2 then Some 1 else None)"
  by (simp add: sfs_node_def two_nodes_def root_sin_def)

lemma root_inv: "files_inv root_vfs root_files dev_refs (\<lambda>_. 0)"
proof -
  have "table_wf root_files" by (simp add: table_wf_def root_fd entry_wf_def root_entry_def)
  moreover have "cache_wf root_vfs"
    by (auto simp: cache_wf_def root_sfs_node dom_def inj_on_def split: if_splits)
  ultimately show ?thesis
    by (auto simp: files_inv_def ref_inv_def slot_ok_def root_held root_fd dev_refs_def two_nodes_def inode_typed_def
        root_sin_def sfs_get_ops_def cwd_ref_def)
qed

lemma root_fd2file: "fd2file root_files 0 = Inr (0, 0)"
  by (simp add: fd2file_def testfd_def get_fd_array_def root_fd root_entry_def)

definition no_mem :: kmem where
  "no_mem = \<lparr>entry_mem = False, din_mem = (\<lambda>_. False), inode_mem = (\<lambda>_. None)\<rparr>"

lemma no_mem_ok: "mem_ok s no_mem"
  by (simp add: mem_ok_def fresh_mem_def no_mem_def inj_on_def)

section \<open>Properties\<close>

text \<open>
  C16. Closing a descriptor never fails and takes exactly one reference and one open from its inode; the inode is freed
  exactly when that was the last reference. The counts stay below the limit of the kernel's check, and a device is
  still on the device list.
\<close>

theorem file_close_releases:
  assumes "files_inv s p R Q" "fd2file p x = Inr (0, i)" "fnode (fd_array p ! i) = Some n"
    and "held p n + R n + cwd_ref (pwd p) n < 65536" "held p n + R n + cwd_ref (pwd p) n = 1 \<longrightarrow> sfs_node s n \<noteq> None"
  shows "\<exists>s' p'. file_close s p x = Inr (s', p', 0) \<and> files_inv s' p' R Q \<and> status (fd_array p' ! i) = FD_NONE \<and>
    held p' = (held p)(n := held p n - 1) \<and>
    (inodes s' n = None \<longleftrightarrow> held p n = 1 \<and> R n = 0 \<and> pwd p \<noteq> Some n)"
proof -
  let ?p = "upd_file i (\<lambda>f. f\<lparr>fopen_count := fopen_count f - 1, status := FD_NONE\<rparr>) p"
  from file_close_ok [OF assms(1-4)] assms(5) obtain s' where c: "file_close s p x = Inr (s', ?p, 0)"
    "held ?p = (held p)(n := held p n - 1)" "0 < held p n" by auto
  have inv: "files_inv s' ?p R Q" using assms(1) c(1) by (rule file_close_inv)
  have "table_wf p" using assms(1) by (simp add: files_inv_def)
  from fd2file_found [OF this assms(2)] have "i < length (fd_array p)" by blast
  then have "status (fd_array ?p ! i) = FD_NONE" by simp
  moreover have "inodes s' n = None \<longleftrightarrow> held p n = 1 \<and> R n = 0 \<and> pwd p \<noteq> Some n"
    using files_inv_slot [OF inv, of n] c(2,3) by auto
  ultimately show ?thesis using c(1,2) inv by (intro exI [of _ s'] exI [of _ ?p]) simp
qed

theorem file_close_releases_witness:
  "\<exists>s' p'. file_close root_vfs root_files 0 = Inr (s', p', 0) \<and> files_inv s' p' dev_refs (\<lambda>_. 0) \<and> status (fd_array p' ! 0) = FD_NONE \<and>
    held p' = (held root_files)(2 := held root_files 2 - 1) \<and>
    (inodes s' 2 = None \<longleftrightarrow> held root_files 2 = 1 \<and> dev_refs 2 = 0 \<and> pwd root_files \<noteq> Some 2)"
  by (rule file_close_releases [OF root_inv root_fd2file])
    (simp_all add: root_fd root_entry_def root_held dev_refs_def root_sfs_node)

text \<open>
  C15. A fork gives the child the open descriptors and the working directory of the parent, with references of its own: the
  loop never fails, both tables are well formed, and the counts are exact for the two processes together.
\<close>

theorem fork_duplicates_files:
  assumes "files_inv s from R Q" "0 < files_count from" "files_create (Some mem) = Some to"
  shows "\<exists>s' to'. dup_files s to from = Inr (s', to', 0) \<and> pwd to' = pwd from \<and> held to' = held from \<and>
    (\<forall>i < FILES_STRUCT_NENTRY. if status (fd_array from ! i) = FD_OPENED then fd_array to' ! i = fd_array from ! i
       else status (fd_array to' ! i) = FD_NONE) \<and>
    files_inv s' to' (\<lambda>n. held from n + R n + cwd_ref (pwd from) n) (\<lambda>n. held from n + Q n) \<and>
    files_inv s' from (\<lambda>n. held to' n + R n + cwd_ref (pwd to') n) (\<lambda>n. held to' n + Q n)"
proof -
  from dup_files_ok [OF assms] obtain s' to' where d: "dup_files s to from = Inr (s', to', 0)" "pwd to' = pwd from"
    "\<And>i. i < 145 \<Longrightarrow> fd_array to' ! i = dup_entry (fd_array to ! i) (fd_array from ! i)"
    "files_inv s' to' (\<lambda>n. held from n + R n + cwd_ref (pwd from) n) (\<lambda>n. held from n + Q n)" by blast
  have wf: "table_wf from" "length (fd_array from) = 145" "length (fd_array to') = 145" using assms(1) d(4)
    by (simp_all add: files_inv_def table_wf_def)
  have new: "status (fd_array to ! i) = FD_NONE" if "i < 145" for i
    using assms(3) that by (auto simp: files_create_def fd_array_init_def simp del: upt.simps upt_rec_numeral)
  have e: "if status (fd_array from ! i) = FD_OPENED then fd_array to' ! i = fd_array from ! i
       else status (fd_array to' ! i) = FD_NONE" if "i < 145" for i using d(3) [OF that] new [OF that] by (simp add: dup_entry_def)
  have "open_fds to' n = open_fds from n" for n using wf(2,3) e by (fastforce simp: open_fds_def split: if_splits)
  then have h: "held to' = held from" by (simp add: held_def fun_eq_iff)
  have "files_inv s' from (\<lambda>n. held to' n + R n + cwd_ref (pwd to') n) (\<lambda>n. held to' n + Q n)"
    using files_inv_refs [OF d(4)] by (rule files_invI [OF wf(1), rotated]) (use assms(1) h d(2) in \<open>auto simp: files_inv_def intro: trans_le_add1\<close>)
  then show ?thesis using d(1,2,4) h e by blast
qed

theorem fork_duplicates_files_witness:
  "\<exists>s' to' child. files_create (Some (replicate 145 (root_entry 0))) = Some child \<and> dup_files root_vfs child root_files = Inr (s', to', 0) \<and> held to' = held root_files"
proof -
  obtain child where c: "files_create (Some (replicate 145 (root_entry 0))) = Some child" by (simp add: files_create_def)
  have "0 < files_count root_files" by (simp add: root_fd)
  from fork_duplicates_files [OF root_inv this c] c show ?thesis by blast
qed

text \<open>
  C35. A directory can be opened for reading, but its table has no operation to read, write, seek or truncate: a read of the
  descriptor, which every process can ask for, ends at the assertion of \<^verbatim>\<open>__vop_op\<close> and stops the kernel.
\<close>

theorem read_directory_panics:
  assumes "files_inv s p R Q" "fd2file p x = Inr (0, i)" "readable (fd_array p ! i)"
    and "fnode (fd_array p ! i) = Some n" "inodes s n = Some nd" "in_ops nd = sfs_node_dirops" "inode_check nd"
  shows "vop_open s n O_RDONLY = Inr 0 \<and> file_read s p x mem base len = Inl Assert_failed \<and>
    file_seek s p x pos 0 = Inl Assert_failed"
proof -
  have "table_wf p" using assms(1) by (simp add: files_inv_def)
  from acquired [OF this assms(2)] assms(4) have
    a: "fd_array_acquire p i = Inr (upd_file i (\<lambda>f. f\<lparr>fopen_count := fopen_count f + 1\<rparr>) p)"
      "file_node (upd_file i (\<lambda>f. f\<lparr>fopen_count := fopen_count f + 1\<rparr>) p) i = Inr n" by (metis option.inject)+
  have "vop_open s n O_RDONLY = Inr 0" using assms(5-7) by (simp add: vop_open_def vop_op_def inode_at_def sfs_opendir_def)
  moreover have "vop_rw False s n iob = Inl Assert_failed" for iob using assms(5,6) by (simp add: vop_rw_def vop_op_def inode_at_def)
  moreover have "vop_tryseek s n pos = Inl Assert_failed" using assms(5,6) by (simp add: vop_tryseek_def vop_op_def inode_at_def)
  ultimately show ?thesis using assms(2,3) a by (simp add: file_read_def file_rw_def file_seek_def)
qed

theorem read_directory_panics_witness:
  "vop_open root_vfs 2 O_RDONLY = Inr 0 \<and> file_read root_vfs root_files 0 [0] 0 1 = Inl Assert_failed \<and>
    file_seek root_vfs root_files 0 0 0 = Inl Assert_failed"
proof -
  obtain nd where "inodes root_vfs 2 = Some nd" "in_ops nd = sfs_node_dirops" "inode_check nd"
    by (simp add: two_nodes_def inode_check_def)
  then show ?thesis by (intro read_directory_panics [OF root_inv root_fd2file]) (simp_all add: root_fd root_entry_def)
qed

text \<open>
  C36. An open with \<^verbatim>\<open>O_CREAT | O_EXCL\<close> of a file that exists fails with \<^verbatim>\<open>E_EXISTS\<close> and loses the reference that
  the lookup took: no descriptor and no directory holds it, so no close can give it back.
\<close>

theorem create_exclusive_leaks:
  assumes "files_inv s p R Q" "mem_ok s m" "0 < files_count p" "j < FILES_STRUCT_NENTRY" "status (fd_array p ! j) = FD_NONE"
    and "open_flags AND O_CREAT \<noteq> 0" "open_flags AND O_EXCL \<noteq> 0" "open_flags AND O_TRUNC = 0" "open_flags AND O_ACCMODE \<noteq> O_ACCMODE"
    and "vfs_lookup s (pwd p) path m = Inr (t, 0, Some n, path')"
  shows "\<exists>p'. file_open s p path open_flags m = Inr (t, p', - E_EXISTS) \<and> held p' = held p \<and> pwd p' = pwd p \<and>
    files_inv t p' (R(n := R n + 1)) Q"
proof -
  have wf: "table_wf p" and le: "\<And>k. Q k \<le> R k" using assms(1) by (simp_all add: files_inv_def)
  obtain i where i: "find (\<lambda>i. status (fd_array p ! i) = FD_NONE) [0..<145] = Some i"
    using assms(4,5) by (cases "find (\<lambda>i. status (fd_array p ! i) = FD_NONE) [0..<145]") (auto simp: find_None_iff simp del: upt.simps upt_rec_numeral)
  then have n: "i < 145" "status (fd_array p ! i) = FD_NONE" by (auto simp: find_Some_iff simp del: upt.simps upt_rec_numeral)
  then have e: "fopen_count (fd_array p ! i) = 0" "i < length (fd_array p)" using wf by (auto simp: table_wf_def entry_wf_def)
  let ?p = "upd_file i (\<lambda>f. f\<lparr>fnode := None, status := FD_NONE\<rparr>) p"
  have o: "file_open s p path open_flags m = Inr (t, ?p, - E_EXISTS)"
    using assms(3,6-10) i n e
    by (simp add: file_open_def fd_array_alloc_def get_fd_array_def fd_array_found_def vfs_open_def fd_array_free_def Let_def
        del: upt.simps upt_rec_numeral)
  have h: "held ?p = held p" using e(2) by (rule held_other) (use n in simp_all)
  from vfs_lookup_inv [OF files_inv_refs [OF assms(1)] assms(2,10)]
  have r: "ref_inv t ((\<lambda>k. held p k + R k + cwd_ref (pwd p) k)(n := held p n + R n + cwd_ref (pwd p) n + 1)) (\<lambda>k. held p k + Q k)" by simp
  have twf: "table_wf ?p" using wf n(1) by (rule table_wf_upd) (use wf n in \<open>auto simp: entry_wf_def table_wf_def\<close>)
  have "files_inv t ?p (R(n := R n + 1)) Q"
    using r by (rule files_invI [OF twf, rotated]) (use le h in \<open>auto intro: le_SucI\<close>)
  then show ?thesis using o h by (intro exI [of _ ?p]) simp
qed

theorem create_exclusive_leaks_witness:
  "\<exists>s' p'. file_open root_vfs root_files [115, 116, 100, 105, 110, 58] (O_CREAT OR O_EXCL) no_mem = Inr (s', p', - E_EXISTS) \<and>
    held p' = held root_files \<and> files_inv s' p' (dev_refs(1 := dev_refs 1 + 1)) (\<lambda>_. 0)"
proof -
  obtain t path' where "vfs_lookup root_vfs (pwd root_files) [115, 116, 100, 105, 110, 58] no_mem = Inr (t, 0, Some 1, path')"
    by (simp add: vfs_lookup_def get_device_def vfs_get_root_def inode_ref_inc_def inode_at_def two_nodes_def)
  then have "\<exists>p'. file_open root_vfs root_files [115, 116, 100, 105, 110, 58] (O_CREAT OR O_EXCL) no_mem = Inr (t, p', - E_EXISTS) \<and>
    held p' = held root_files \<and> pwd p' = pwd root_files \<and> files_inv t p' (dev_refs(1 := dev_refs 1 + 1)) (\<lambda>_. 0)"
    by (intro create_exclusive_leaks [OF root_inv no_mem_ok, of 1]) (simp_all add: root_fd root_entry_def)
  then show ?thesis by blast
qed

end
