(* ===== verification/Fs_System.thy ===== *)
theory Fs_System
  imports File_Claims "HOL-Library.Multiset"
begin

text \<open>
  The file system from boot on, with any number of processes: the states that \<^verbatim>\<open>fs_init\<close>, the calls of the processes, forks,
  exec and exit lead to, the references every inode has there, and the operations that its table offers.
\<close>

section \<open>Leaving a process\<close>

lemma close_pwd:
  "fd_array_close s p i = Inr (s', p') \<Longrightarrow> fd_array_close s (p\<lparr>pwd := c\<rparr>) i = Inr (s', p'\<lparr>pwd := c\<rparr>)"
  by (auto simp: fd_array_close_def fd_array_free_def upd_file_def bindE_Inr_iff Let_def split: option.splits if_splits)

lemma destroy_loop_inv:
  assumes "destroy_loop s p is = Inr (s', p')" "files_inv s (p\<lparr>pwd := None\<rparr>) R Q" "\<And>i. i \<in> set is \<Longrightarrow> i < FILES_STRUCT_NENTRY"
  shows "files_inv s' (p'\<lparr>pwd := None\<rparr>) R Q \<and>
    (\<forall>k < FILES_STRUCT_NENTRY. k \<in> set is \<or> status (fd_array p ! k) = FD_NONE \<longrightarrow> status (fd_array p' ! k) = FD_NONE)"
  using assms
proof (induction "is" arbitrary: s p)
  case Nil
  then show ?case by simp
next
  case (Cons i js)
  have i: "i < 145" using Cons.prems(3) [of i] by simp
  obtain t q where t: "(if status (fd_array p ! i) = FD_OPENED then fd_array_close s p i else Inr (s, p)) = Inr (t, q)"
    "status (fd_array q ! i) = FD_NONE" "destroy_loop t q js = Inr (s', p')"
    using Cons.prems(1) by (auto simp: bindE_Inr_iff)
  have q: "files_inv t (q\<lparr>pwd := None\<rparr>) R Q \<and> (\<forall>k < 145. status (fd_array p ! k) = FD_NONE \<longrightarrow> status (fd_array q ! k) = FD_NONE)"
  proof (cases "status (fd_array p ! i) = FD_OPENED")
    case True
    then have "fd_array_close s (p\<lparr>pwd := None\<rparr>) i = Inr (t, q\<lparr>pwd := None\<rparr>)" using t(1) by (auto intro: close_pwd)
    from fd_array_close_inv [OF Cons.prems(2) i this] have
      c: "files_inv t (q\<lparr>pwd := None\<rparr>) R Q" "q\<lparr>pwd := None\<rparr> = upd_file i (\<lambda>f. f\<lparr>fopen_count := fopen_count f - 1, status := FD_NONE\<rparr>) (p\<lparr>pwd := None\<rparr>)"
      by auto
    have "i < length (fd_array (p\<lparr>pwd := None\<rparr>))" using Cons.prems(2) i by (simp add: files_inv_def table_wf_def)
    moreover have "fd_array q = fd_array (q\<lparr>pwd := None\<rparr>)" by simp
    ultimately have "fd_array q ! k = (if i = k then (fd_array p ! i)\<lparr>fopen_count := fopen_count (fd_array p ! i) - 1, status := FD_NONE\<rparr> else fd_array p ! k)" for k
      unfolding c(2) by (simp add: upd_file_nth)
    then show ?thesis using c(1) by simp
  next
    case False
    then show ?thesis using t(1) Cons.prems(2) by auto
  qed
  from Cons.IH [OF t(3)] q Cons.prems(3) have
    "files_inv s' (p'\<lparr>pwd := None\<rparr>) R Q \<and>
     (\<forall>k < 145. k \<in> set js \<or> status (fd_array q ! k) = FD_NONE \<longrightarrow> status (fd_array p' ! k) = FD_NONE)" by auto
  then show ?case using q t(2) by auto
qed

lemma files_destroy_inv:
  assumes inv: "files_inv s p R Q" and g: "files_destroy s p = Inr s'"
  shows "ref_inv s' R Q"
proof -
  have wf: "table_wf p" and le: "\<And>n. Q n \<le> R n" using inv by (simp_all add: files_inv_def)
  obtain t q where t: "(case pwd p of None \<Rightarrow> Inr s | Some n \<Rightarrow> bindE (inode_ref_dec s n) (\<lambda>(s, _). Inr s)) = Inr t"
    "destroy_loop t p [0..<145] = Inr (s', q)"
    using g by (auto simp: files_destroy_def bindE_Inr_iff simp del: upt.simps upt_rec_numeral)
  let ?R = "\<lambda>n. held p n + R n" and ?P = "\<lambda>n. held p n + Q n"
  have r: "ref_inv s (\<lambda>k. ?R k + cwd_ref (pwd p) k) ?P" using inv by (simp add: files_inv_def)
  have "ref_inv t ?R ?P"
  proof (cases "pwd p")
    case None
    then show ?thesis using t(1) r by simp
  next
    case (Some n)
    then obtain c where "inode_ref_dec s n = Inr (t, c)" using t(1) by (auto simp: bindE_Inr_iff)
    with ref_dec_cwd [of s ?R n ?P t c] r Some le show ?thesis by simp
  qed
  then have "files_inv t (p\<lparr>pwd := None\<rparr>) R Q"
    using wf le by (simp add: files_inv_def table_wf_def)
  from destroy_loop_inv [OF t(2) this] have
    d: "files_inv s' (q\<lparr>pwd := None\<rparr>) R Q" "\<And>k. k < 145 \<Longrightarrow> status (fd_array q ! k) = FD_NONE" by auto
  have "length (fd_array q) = 145" using d(1) by (simp add: files_inv_def table_wf_def)
  then have "held q n = 0" for n using d(2) by (intro held_none) simp
  then show ?thesis using d(1) by (simp add: files_inv_def)
qed

lemma closeall_loop_inv:
  assumes "closeall_loop s p is = Inr (s', p')" "files_inv s p R Q" "\<And>i. i \<in> set is \<Longrightarrow> i < FILES_STRUCT_NENTRY"
  shows "files_inv s' p' R Q"
  using assms
proof (induction "is" arbitrary: s p)
  case (Cons i js)
  obtain t q where t: "(if status (fd_array p ! i) = FD_OPENED then fd_array_close s p i else Inr (s, p)) = Inr (t, q)"
    "closeall_loop t q js = Inr (s', p')" using Cons.prems(1) by (auto simp: bindE_Inr_iff)
  have "files_inv t q R Q"
    using t(1) Cons.prems(2) fd_array_close_inv [OF Cons.prems(2), of i t q] Cons.prems(3) [of i] by (auto split: if_splits)
  with Cons.IH [OF t(2)] Cons.prems(3) show ?case by simp
qed simp

lemma files_closeall_inv:
  assumes "files_inv s p R Q" "files_closeall s p = Inr (s', p')"
  shows "files_inv s' p' R Q"
  using closeall_loop_inv [of s p "[2..<145]" s' p'] assms
  by (auto simp: files_closeall_def bindE_Inr_iff simp del: upt.simps upt_rec_numeral)

section \<open>Boot\<close>

lemma dev_init_one_nodes:
  "dev_init_one s d name mnt (Some a) x y = Inr s' \<Longrightarrow>
   inodes s' = (inodes s)(a \<mapsto> inode_init (Device_info d) dev_node_ops False) \<and> sfs s' = sfs s \<and> bootfs_node s' = bootfs_node s"
  by (auto simp: dev_init_one_def dev_create_inode_def vfs_add_dev_def vfs_do_add_def bindE_Inr_iff split: if_splits)

lemma sfs_do_mount_result:
  "sfs_do_mount img m = Inr (ret, r) \<Longrightarrow>
   (case r of None \<Rightarrow> ret \<noteq> 0 | Some f \<Rightarrow> blocks f \<le> 1024 \<and> inode_list f = [] \<and> hash_list f = (\<lambda>_. []))"
  by (auto simp: sfs_do_mount_def bindE_Inr_iff Let_def d_blocks_disk0_def not_less split: if_splits option.splits)

lemma vfs_mount_result:
  assumes g: "vfs_mount s name m = Inr (s', 0)"
  shows "inodes s' = inodes s \<and> bootfs_node s' = bootfs_node s \<and> blocks (sfs s') \<le> 1024 \<and>
    inode_list (sfs s') = [] \<and> hash_list (sfs s') = (\<lambda>_. [])"
proof -
  obtain ret r where m: "sfs_do_mount (disk (sfs s)) m = Inr (ret, r)"
    "(case r of Some f \<Rightarrow> Inr (set_vdev_fs name True (s\<lparr>sfs := f\<rparr>), ret) | None \<Rightarrow> Inr (s, ret)) = (Inr (s', 0) :: kpanic + _)"
    using g by (auto simp: vfs_mount_def bindE_Inr_iff split: option.splits if_splits)
  then obtain f where "r = Some f" "ret = 0" using sfs_do_mount_result [OF m(1)] by (cases r) auto
  with m sfs_do_mount_result [OF m(1)] show ?thesis by (auto simp: set_vdev_fs_def)
qed

text \<open>The reference that the device list holds on the inode of each device.\<close>

definition device_refs :: "(device \<Rightarrow> nat) \<Rightarrow> nat \<Rightarrow> nat" where
  "device_refs addr n = (if n \<in> range addr then 1 else 0)"

lemma fs_init_inv:
  assumes none: "inodes s0 = (\<lambda>_. None)" and inj: "inj addr"
    and g: "fs_init s0 (\<lambda>d. Some (addr d)) x y b m = Inr s"
  shows "ref_inv s (device_refs addr) (\<lambda>_. 0) \<and> bootfs_node s = bootfs_node s0"
proof -
  let ?i = "\<lambda>d. inode_init (Device_info d) dev_node_ops False"
  obtain t where t: "dev_init (vfs_init s0) (\<lambda>d. Some (addr d)) x y b = Inr t" "vfs_mount t (map of_char ''disk0'') m = Inr (s, 0)"
    using g by (auto simp: fs_init_def sfs_init_def bindE_Inr_iff split: if_splits)
  have "inodes t = (inodes s0)(addr Dev_stdin \<mapsto> ?i Dev_stdin, addr Dev_stdout \<mapsto> ?i Dev_stdout, addr Dev_disk0 \<mapsto> ?i Dev_disk0) \<and>
      bootfs_node t = bootfs_node s0"
    using t(1) by (auto simp: dev_init_def vfs_init_def Let_def bindE_Inr_iff split: if_splits dest!: dev_init_one_nodes)
  with vfs_mount_result [OF t(2)] none have
    s: "inodes s = [addr Dev_stdin \<mapsto> ?i Dev_stdin, addr Dev_stdout \<mapsto> ?i Dev_stdout, addr Dev_disk0 \<mapsto> ?i Dev_disk0]"
      "bootfs_node s = bootfs_node s0" "blocks (sfs s) \<le> 1024" "inode_list (sfs s) = []" "hash_list (sfs s) = (\<lambda>_. [])" by auto
  have dev: "inodes s (addr d) = Some (?i d)" for d using inj by (cases d) (auto simp: s(1) inj_def)
  have "inodes s n = None" if "n \<notin> range addr" for n using that by (auto simp: s(1))
  then have "slot_ok (blocks (sfs s)) (inodes s n) (device_refs addr n) 0" for n
    using dev by (cases "n \<in> range addr") (auto simp: device_refs_def inode_init_def inode_typed_def)
  moreover have "sfs_node s = (\<lambda>_. None)" by (auto simp: sfs_node_def s(1) inode_init_def)
  then have "cache_wf s" by (simp add: cache_wf_def s(4,5))
  ultimately show ?thesis using s(2,3) by (simp add: ref_inv_def)
qed

lemma set_bootfs_inv:
  assumes inv: "ref_inv s R (\<lambda>_. 0)" and m: "mem_ok s m" and none: "bootfs_node s = None"
    and g: "vfs_set_bootfs s None (Some name) m = Inr (s', cwd, 0)"
  shows "ref_inv s' (\<lambda>n. R n + cwd_ref (bootfs_node s') n + cwd_ref cwd n) (\<lambda>_. 0)"
proof -
  obtain t where t: "vfs_chdir s None name m = Inr (t, cwd, 0)"
    "bindE (vfs_get_curdir t cwd) (\<lambda>(s, ret, r).
       if ret \<noteq> 0 then Inr (s, cwd, ret) else bindE (change_bootfs s r) (\<lambda>s. Inr (s, cwd, 0))) = Inr (s', cwd, 0)"
    using g by (auto simp: vfs_set_bootfs_def bindE_Inr_iff split: if_splits)
  have r: "ref_inv s (\<lambda>k. R k + cwd_ref None k) (\<lambda>_. 0)" using inv by simp
  from vfs_chdir_inv [OF r m _ t(1)] have c: "nodes_step m s t" "ref_inv t (\<lambda>k. R k + cwd_ref cwd k) (\<lambda>_. 0)" by auto
  then have bt: "bootfs_node t = None" using none by (simp add: nodes_step_def vfs_same_def)
  from t(2) obtain n u k where n: "cwd = Some n" "inode_ref_inc t n = Inr (u, k)" "change_bootfs u (Some n) = Inr s'"
    by (auto simp: vfs_get_curdir_def bindE_Inr_iff split: option.splits if_splits)
  from ref_inc_inv [OF c(2) n(2)] have u: "nodes_keep t u"
    "ref_inv u ((\<lambda>k. R k + cwd_ref cwd k)(n := R n + cwd_ref cwd n + 1)) (\<lambda>_. 0)" by auto
  have "bootfs_node u = None" using bt u(1) by (simp add: nodes_keep_def vfs_same_def)
  then have s': "s' = u\<lparr>bootfs_node := Some n\<rparr>" using n(3) by (simp add: change_bootfs_def Let_def)
  have "(\<lambda>k. R k + cwd_ref cwd k)(n := R n + cwd_ref cwd n + 1) = (\<lambda>k. R k + cwd_ref (bootfs_node s') k + cwd_ref cwd k)"
    using n(1) by (auto simp: s' cwd_ref_def fun_eq_iff)
  with u(2) have "ref_inv u (\<lambda>k. R k + cwd_ref (bootfs_node s') k + cwd_ref cwd k) (\<lambda>_. 0)" by simp
  then show ?thesis by (rule ref_inv_cong) (simp_all add: s')
qed

section \<open>The system\<close>

text \<open>
  The states the kernel's files can be in: the virtual file system, the \<^verbatim>\<open>files_struct\<close> of each process, and the number of
  calls of \<^verbatim>\<open>file_open\<close> with \<^verbatim>\<open>O_CREAT | O_EXCL\<close> so far. Boot is \<^verbatim>\<open>fs_init\<close> and the call of \<^verbatim>\<open>vfs_set_bootfs\<close> in \<^verbatim>\<open>init_main\<close>; the inodes of
  the devices are at the addresses \<open>addr\<close> that \<^verbatim>\<open>kmalloc\<close> returned, and \<open>root\<close> is the file system's root. Then the processes
  make their calls in any order; a fork adds a process, exec closes its files and an exit ends it. \<^verbatim>\<open>files_count\<close> is kept
  by the process manager and may be anything.
\<close>

inductive fs_reach :: "(device \<Rightarrow> nat) \<Rightarrow> nat option \<Rightarrow> vfs \<Rightarrow> files_struct list \<Rightarrow> nat \<Rightarrow> bool" for addr root where
  boot: "inodes s0 = (\<lambda>_. None) \<Longrightarrow> bootfs_node s0 = None \<Longrightarrow> inj addr \<Longrightarrow>
    fs_init s0 (\<lambda>d. Some (addr d)) strdup_ok vdev_ok disk0_buffer_ok mm = Inr s1 \<Longrightarrow> files_create (Some mem) = Some p \<Longrightarrow>
    mem_ok s1 m \<Longrightarrow> vfs_set_bootfs s1 (pwd p) (Some (map of_char ''disk0:'')) m = Inr (s2, cwd, 0) \<Longrightarrow> bootfs_node s2 = root \<Longrightarrow>
    fs_reach addr root s2 [p\<lparr>pwd := cwd\<rparr>] 0"
| call: "fs_reach addr root s (ps @ p # qs) e \<Longrightarrow> op_ok s c \<Longrightarrow> file_do s p c = Inr (s', p') \<Longrightarrow>
    fs_reach addr root s' (ps @ p' # qs) (if exclusive_create c then Suc e else e)"
| fork: "fs_reach addr root s (ps @ p # qs) e \<Longrightarrow> files_create (Some mem) = Some to \<Longrightarrow> dup_files s to p = Inr (s', to', ret) \<Longrightarrow>
    fs_reach addr root s' (to' # ps @ p # qs) e"
| exec: "fs_reach addr root s (ps @ p # qs) e \<Longrightarrow> files_closeall s p = Inr (s', p') \<Longrightarrow> fs_reach addr root s' (ps @ p' # qs) e"
| exit: "fs_reach addr root s (ps @ p # qs) e \<Longrightarrow> files_destroy s p = Inr s' \<Longrightarrow> fs_reach addr root s' (ps @ qs) e"
| share: "fs_reach addr root s (ps @ p # qs) e \<Longrightarrow> fs_reach addr root s (ps @ p\<lparr>files_count := k\<rparr> # qs) e"

text \<open>The references and the opens that the processes hold on an inode.\<close>

definition refs_of :: "files_struct list \<Rightarrow> nat \<Rightarrow> nat" where
  "refs_of ps n = sum_list (map (\<lambda>p. held p n + cwd_ref (pwd p) n) ps)"

definition opens_of :: "files_struct list \<Rightarrow> nat \<Rightarrow> nat" where
  "opens_of ps n = sum_list (map (\<lambda>p. held p n) ps)"

lemma refs_of_simps [simp]:
  "refs_of [] n = 0" "refs_of (p # ps) n = held p n + cwd_ref (pwd p) n + refs_of ps n" "refs_of (ps @ qs) n = refs_of ps n + refs_of qs n"
  "opens_of [] n = 0" "opens_of (p # ps) n = held p n + opens_of ps n" "opens_of (ps @ qs) n = opens_of ps n + opens_of qs n"
  by (simp_all add: refs_of_def opens_of_def)

lemma opens_le_refs: "opens_of ps n \<le> refs_of ps n"
  by (induction ps) auto

definition system_inv :: "(nat \<Rightarrow> nat) \<Rightarrow> vfs \<Rightarrow> files_struct list \<Rightarrow> bool" where
  "system_inv B s ps \<longleftrightarrow> (\<forall>p \<in> set ps. table_wf p) \<and> ref_inv s (\<lambda>n. B n + refs_of ps n) (opens_of ps)"

text \<open>Seen from one process, the others are the rest of the system.\<close>

lemma system_inv_process:
  "system_inv B s (ps @ p # qs) \<longleftrightarrow> (\<forall>x \<in> set ps \<union> set qs. table_wf x) \<and>
     files_inv s p (\<lambda>n. B n + refs_of (ps @ qs) n) (opens_of (ps @ qs))"
proof -
  have "(\<lambda>n. B n + refs_of (ps @ p # qs) n) = (\<lambda>n. held p n + (B n + refs_of (ps @ qs) n) + cwd_ref (pwd p) n)"
    "opens_of (ps @ p # qs) = (\<lambda>n. held p n + opens_of (ps @ qs) n)" by (auto simp: fun_eq_iff)
  moreover have "opens_of (ps @ qs) n \<le> B n + refs_of (ps @ qs) n" for n
    using opens_le_refs [of "ps @ qs" n] by linarith
  ultimately show ?thesis unfolding system_inv_def files_inv_def by (auto simp only: set_append list.set)
qed

lemma system_fd_alive:
  assumes "system_inv B s ps" "p \<in> set ps" "i < FILES_STRUCT_NENTRY" "status (fd_array p ! i) = FD_OPENED"
  shows "\<exists>n. fnode (fd_array p ! i) = Some n \<and> inodes s n \<noteq> None"
proof -
  obtain as bs where ps: "ps = as @ p # bs" using assms(2) by (auto dest: split_list)
  have f: "files_inv s p (\<lambda>n. B n + refs_of (as @ bs) n) (opens_of (as @ bs))" using assms(1) unfolding ps system_inv_process by simp
  then have w: "entry_wf (int i) (fd_array p ! i)" "i < length (fd_array p)" using assms(3) by (auto simp: files_inv_def table_wf_def)
  then obtain n where n: "fnode (fd_array p ! i) = Some n" using assms(4) by (auto simp: entry_wf_def)
  then have "i \<in> open_fds p n" using w(2) assms(4) by (simp add: open_fds_def)
  then have "0 < held p n" unfolding held_def card_gt_0_iff by auto
  then show ?thesis using files_inv_slot [OF f, of n] n by auto
qed

lemma system_inv_call:
  assumes "system_inv B s (ps @ p # qs)" "op_ok s c" "file_do s p c = Inr (s', p')"
  shows "system_inv B s' (ps @ p' # qs) \<or> exclusive_create c \<and> (\<exists>n. system_inv (B(n := B n + 1)) s' (ps @ p' # qs))"
proof -
  have w: "\<forall>x \<in> set ps \<union> set qs. table_wf x" and i: "files_inv s p (\<lambda>n. B n + refs_of (ps @ qs) n) (opens_of (ps @ qs))"
    using assms(1) unfolding system_inv_process by auto
  have e: "(\<lambda>n. B n + refs_of (ps @ qs) n)(n := B n + refs_of (ps @ qs) n + 1) = (\<lambda>k. (B(n := B n + 1)) k + refs_of (ps @ qs) k)" for n
    by (auto simp: fun_eq_iff)
  show ?thesis using file_do_inv [OF i assms(2,3)] w unfolding system_inv_process e by blast
qed

lemma system_inv_fork:
  assumes "system_inv B s (ps @ p # qs)" "files_create (Some mem) = Some to" "dup_files s to p = Inr (s', to', ret)"
  shows "system_inv B s' (to' # ps @ p # qs)"
proof -
  have w: "\<forall>x \<in> set ps \<union> set qs. table_wf x" and i: "files_inv s p (\<lambda>n. B n + refs_of (ps @ qs) n) (opens_of (ps @ qs))"
    using assms(1) unfolding system_inv_process by auto
  have "0 < files_count p" using assms(3) by (auto simp: dup_files_def bindE_Inr_iff)
  from dup_files_ok [OF i this assms(2)] assms(3) have
    t: "files_inv s' to' (\<lambda>n. held p n + (B n + refs_of (ps @ qs) n) + cwd_ref (pwd p) n) (\<lambda>n. held p n + opens_of (ps @ qs) n)" by auto
  have "(\<lambda>n. held p n + (B n + refs_of (ps @ qs) n) + cwd_ref (pwd p) n) = (\<lambda>n. B n + refs_of ([] @ ps @ p # qs) n)"
    "(\<lambda>n. held p n + opens_of (ps @ qs) n) = opens_of ([] @ ps @ p # qs)" by (auto simp: fun_eq_iff)
  then have "files_inv s' to' (\<lambda>n. B n + refs_of ([] @ ps @ p # qs) n) (opens_of ([] @ ps @ p # qs))" using t by (simp only:)
  moreover have "table_wf p" using i by (simp add: files_inv_def)
  ultimately show ?thesis using system_inv_process [of B s' "[]" to' "ps @ p # qs"] w by simp
qed

lemma system_inv_exit:
  assumes "system_inv B s (ps @ p # qs)" "files_destroy s p = Inr s'"
  shows "system_inv B s' (ps @ qs)"
proof -
  have w: "\<forall>x \<in> set ps \<union> set qs. table_wf x" and i: "files_inv s p (\<lambda>n. B n + refs_of (ps @ qs) n) (opens_of (ps @ qs))"
    using assms(1) unfolding system_inv_process by auto
  show ?thesis using files_destroy_inv [OF i assms(2)] w unfolding system_inv_def by auto
qed

lemma system_inv_boot:
  assumes "inodes s0 = (\<lambda>_. None)" "bootfs_node s0 = None" "inj addr"
    and "fs_init s0 (\<lambda>d. Some (addr d)) x y b mm = Inr s1" "files_create (Some mem) = Some p"
    and "mem_ok s1 m" "vfs_set_bootfs s1 (pwd p) (Some name) m = Inr (s2, cwd, 0)"
  shows "system_inv (\<lambda>n. device_refs addr n + cwd_ref (bootfs_node s2) n) s2 [p\<lparr>pwd := cwd\<rparr>]"
proof -
  have p: "p = \<lparr>pwd = None, fd_array = fd_array_init mem, files_count = 0\<rparr>" using assms(5) by (simp add: files_create_def)
  have none: "status (fd_array p ! i) = FD_NONE" if "i < 145" for i using that by (simp add: p fd_array_init_def)
  have twf: "table_wf (p\<lparr>pwd := cwd\<rparr>)" by (simp add: p fd_array_init_def table_wf_def entry_wf_def)
  then have "length (fd_array p) = 145" by (simp add: table_wf_def)
  then have "held p n = 0" for n using none by (intro held_none) simp
  then have h: "refs_of [p\<lparr>pwd := cwd\<rparr>] = cwd_ref cwd" "opens_of [p\<lparr>pwd := cwd\<rparr>] = (\<lambda>_. 0)" by (auto simp: fun_eq_iff)
  from fs_init_inv [OF assms(1,3,4)] assms(2) have i: "ref_inv s1 (device_refs addr) (\<lambda>_. 0)" "bootfs_node s1 = None" by auto
  have "vfs_set_bootfs s1 None (Some name) m = Inr (s2, cwd, 0)" using assms(7) by (simp add: p)
  from set_bootfs_inv [OF i(1) assms(6) i(2) this] twf show ?thesis unfolding system_inv_def h by simp
qed

text \<open>The references that nobody holds are those of earlier opens that had to create a file.\<close>

lemma fs_reach_inv:
  "fs_reach addr root s ps e \<Longrightarrow>
   \<exists>L. size L \<le> e \<and> system_inv (\<lambda>n. device_refs addr n + cwd_ref root n + count L n) s ps"
proof (induction rule: fs_reach.induct)
  case (boot s0 strdup_ok vdev_ok disk0_buffer_ok mm s1 mem p m s2 cwd)
  then show ?case using system_inv_boot [OF boot(1-7)] by (intro exI [of _ "{#}"]) simp
next
  case (call s ps p qs e c s' p')
  then obtain L where L: "size L \<le> e" "system_inv (\<lambda>n. device_refs addr n + cwd_ref root n + count L n) s (ps @ p # qs)" by blast
  let ?B = "\<lambda>L n. device_refs addr n + cwd_ref root n + count L n"
  from system_inv_call [OF L(2) call(2,3)] consider "system_inv (?B L) s' (ps @ p' # qs)"
    | n where "exclusive_create c" "system_inv ((?B L)(n := ?B L n + 1)) s' (ps @ p' # qs)" by blast
  then show ?case
  proof cases
    case 1
    then show ?thesis using L(1) by (intro exI [of _ L]) simp
  next
    case (2 n)
    have "(?B L)(n := ?B L n + 1) = ?B (add_mset n L)" by (auto simp: fun_eq_iff)
    with 2(2) have "system_inv (?B (add_mset n L)) s' (ps @ p' # qs)" by (simp only:)
    then show ?thesis using L(1) 2(1) by (intro exI [of _ "add_mset n L"]) simp
  qed
next
  case (fork s ps p qs e mem to s' to' ret)
  then show ?case using system_inv_fork by blast
next
  case (exec s ps p qs e s' p')
  then show ?case using files_closeall_inv unfolding system_inv_process by blast
next
  case (exit s ps p qs e s')
  then show ?case using system_inv_exit by blast
next
  case (share s ps p qs e k)
  then show ?case
    unfolding system_inv_process files_inv_def by (simp add: table_wf_def held_def open_fds_def)
qed

section \<open>A booted system\<close>

text \<open>A disk of three blocks, all in use: the superblock, an empty root directory and the map of free blocks.\<close>

definition boot_image :: image where
  "boot_image a =
     (if a = 0 then 0x2a else if a = 1 then 0xbe else if a = 2 then 0x8d else if a = 3 then 0x2f else if a = 4 then 3
      else if a = 4100 then 2 else if a = 4102 then 1 else 0)"

definition boot_sfs :: sfs_fs where
  "boot_sfs = \<lparr>blocks = 3, unused_blocks = 0, info = replicate 32 0, super_dirty = False,
     freemap = \<lparr>nbits = 32768, nwords = 1024, bmap = replicate 1024 0\<rparr>, disk = boot_image, inode_list = [], hash_list = (\<lambda>_. [])\<rparr>"

lemma boot_sfs_simps [simp]:
  "disk boot_sfs = boot_image" "blocks boot_sfs = 3" "inode_list boot_sfs = []" "hash_list boot_sfs = (\<lambda>_. [])"
  by (simp_all add: boot_sfs_def)

definition all_ok :: mount_mem where
  "all_ok = \<lparr>fs_ok = True, buffer_ok = True, hash_ok = True, bitmap_ok = True, words_ok = True\<rparr>"

lemma boot_image_zero: "unat a \<notin> {0, 1, 2, 3, 4, 4100, 4102} \<Longrightarrow> boot_image a = 0"
  by (auto simp: boot_image_def)

lemma boot_read:
  assumes "b < 1024" "length buf = 4096"
  shows "sfs_init_read boot_image b buf 0 = Inr (blk boot_sfs b, 0)"
  using disk0_io_block(1) [of b 0 buf boot_image] assms
  by (simp add: sfs_init_read_def put_bytes_all blk_def boot_sfs_def del: upt_rec_numeral)

lemma boot_super:
  "le32 (blk boot_sfs 0) = 0x2f8dbe2a" "le32 (drop 4 (blk boot_sfs 0)) = 3" "le32 (drop 8 (blk boot_sfs 0)) = 0"
  "take 31 (drop 12 (blk boot_sfs 0)) @ [0] = replicate 32 0"
proof -
  have z: "take 31 (drop 12 (blk boot_sfs 0)) = replicate 31 0"
  proof (rule nth_equalityI)
    fix i
    assume "i < length (take 31 (drop 12 (blk boot_sfs 0)))"
    then have "i < 31" by simp
    moreover then have "unat (12 + of_nat i :: u32) = 12 + i" by (simp add: unat_word_ariths unat_of_nat)
    then have "boot_image (12 + of_nat i) = 0" using \<open>i < 31\<close> by (intro boot_image_zero) auto
    ultimately show "take 31 (drop 12 (blk boot_sfs 0)) ! i = replicate 31 0 ! i"
      by (simp add: nth_blk boot_sfs_def)
  qed simp
  show "take 31 (drop 12 (blk boot_sfs 0)) @ [0] = replicate 32 0" unfolding z by (simp add: replicate_append_same [symmetric] numeral_eq_Suc)
qed (simp_all add: le32_def nth_blk boot_sfs_def boot_image_def)

lemma boot_free_block: "blk boot_sfs 2 = replicate 4096 0"
proof (rule nth_equalityI)
  fix i
  assume "i < length (blk boot_sfs 2)"
  then have i: "i < 4096" by simp
  then have "unat (8192 + of_nat i :: u32) = 8192 + i" by (simp add: unat_word_ariths unat_of_nat)
  then have "boot_image (8192 + of_nat i) = 0" using i by (intro boot_image_zero) auto
  then show "blk boot_sfs 2 ! i = replicate 4096 0 ! i" using i by (simp add: nth_blk boot_sfs_def)
qed simp

lemma count_none: "(\<And>k. k < n \<Longrightarrow> bitmap_test fm (i + of_nat k) = Inr False) \<Longrightarrow> count_unused fm i n = Inr 0"
proof (induction n arbitrary: i)
  case (Suc n)
  have "bitmap_test fm i = Inr False" using Suc.prems [of 0] by simp
  moreover have "bitmap_test fm (i + 1 + of_nat k) = Inr False" if "k < n" for k using Suc.prems [of "Suc k"] that by (simp add: ac_simps)
  ultimately show ?case using Suc.IH [of "i + 1"] by simp
qed simp

lemma boot_mount: "sfs_do_mount boot_image all_ok = Inr (0, Some boot_sfs)"
proof -
  let ?fm = "\<lparr>nbits = 32768, nwords = 1024, bmap = replicate 1024 0xFFFFFFFF\<rparr>"
  have n: "sfs_freemap_bits 3 = 32768" "sfs_freemap_blocks 3 = 1"
    by (simp_all add: sfs_freemap_bits_def sfs_freemap_blocks_def ROUNDUP_def ROUNDDOWN_def ROUNDUP_DIV_def)
  have c: "bitmap_create 32768 True True = Inr (Some ?fm)" by (simp add: bitmap_create_def ROUNDUP_DIV_def Let_def)
  have l: "length (concat (map le32_bytes (replicate 1024 (0xFFFFFFFF :: u32)))) = 4096"
    by (simp add: length_concat le32_bytes_def sum_list_replicate)
  have w: "words_of (replicate 4096 0) 1024 = replicate 1024 0"
    by (rule nth_equalityI) (simp_all add: words_of_def le32_def del: upt_rec_numeral)
  have f: "sfs_init_freemap boot_image ?fm 2 1 = Inr (freemap boot_sfs, 0)"
    using boot_read [of 2, OF _ l] by (simp add: sfs_init_freemap_def bitmap_getdata_def boot_free_block w) (simp add: boot_sfs_def)
  have "bitmap_test (freemap boot_sfs) (0 + of_nat k) = Inr False" if "k < 32768" for k
  proof -
    have "unat (of_nat k :: u32) = k" using that by (simp add: unat_of_nat)
    then show ?thesis using that by (simp add: bitmap_test_spec word_less_nat_alt bm_free_def free_bit_def boot_sfs_def less_mult_imp_div_less)
  qed
  then have u: "count_unused (freemap boot_sfs) 0 32768 = Inr 0" by (rule count_none)
  show ?thesis
    using boot_read [of 0 zero_block] f u c
    by (simp add: sfs_do_mount_def all_ok_def boot_super d_blocks_disk0_def n Let_def) (simp add: boot_sfs_def)
qed

definition off_vfs :: vfs where
  "off_vfs = \<lparr>sfs = boot_sfs\<lparr>blocks := 0\<rparr>, inodes = (\<lambda>_. None), bootfs_node = None, vdev_list = [],
     stdin_st = \<lparr>stdin_buffer = replicate 4096 0, p_rpos = 0, p_wpos = 0, typed = []\<rparr>, console = []\<rparr>"

fun boot_addr :: "device \<Rightarrow> nat" where
  "boot_addr Dev_stdin = 1" | "boot_addr Dev_stdout = 2" | "boot_addr Dev_disk0 = 3"

definition boot_vfs :: vfs where
  "boot_vfs = off_vfs\<lparr>sfs := boot_sfs,
     inodes := [1 \<mapsto> inode_init (Device_info Dev_stdin) dev_node_ops False, 2 \<mapsto> inode_init (Device_info Dev_stdout) dev_node_ops False,
       3 \<mapsto> inode_init (Device_info Dev_disk0) dev_node_ops False],
     vdev_list := [\<lparr>devname = map of_char ''disk0'', devnode = Some 3, vdev_fs = True, mountable = True\<rparr>,
       \<lparr>devname = map of_char ''stdout'', devnode = Some 2, vdev_fs = False, mountable = False\<rparr>,
       \<lparr>devname = map of_char ''stdin'', devnode = Some 1, vdev_fs = False, mountable = False\<rparr>]\<rparr>"

lemma boot_fs_init: "fs_init off_vfs (\<lambda>d. Some (boot_addr d)) (\<lambda>_. True) (\<lambda>_. True) True all_ok = Inr boot_vfs"
  using boot_mount
  by (simp add: fs_init_def sfs_init_def dev_init_def vfs_init_def dev_init_one_def dev_create_inode_def vfs_add_dev_def vfs_do_add_def
      inode_at_def device_info_def inode_init_def check_devname_conflict_def vfs_mount_def find_mount_def set_vdev_fs_def d_blocksize_def
      off_vfs_def boot_vfs_def Let_def set_inode_def)

definition boot_mem :: kmem where
  "boot_mem = \<lparr>entry_mem = True, din_mem = (\<lambda>_. True), inode_mem = (\<lambda>x. if x = 1 then Some 4 else None)\<rparr>"

lemma boot_mem_ok: "mem_ok boot_vfs boot_mem"
  by (auto simp: mem_ok_def fresh_mem_def boot_mem_def boot_vfs_def inj_on_def split: if_splits)

lemma boot_set_bootfs:
  "\<exists>s. vfs_set_bootfs boot_vfs None (Some (map of_char ''disk0:'')) boot_mem = Inr (s, Some 4, 0) \<and> bootfs_node s = Some 4 \<and>
     vdev_list s = vdev_list boot_vfs \<and> (\<forall>n. n < 4 \<longrightarrow> inodes s n = inodes boot_vfs n) \<and>
     (\<exists>nd sin. inodes s 4 = Some nd \<and> ref_count nd = 2 \<and> in_info nd = Sfs_inode_info sin \<and> dtype (din sin) = SFS_TYPE_DIR)"
proof -
  let ?d = "read_din (put_bytes 0 (take 64 (blk boot_sfs 1)) (replicate 64 0))"
  let ?nd = "inode_init (Sfs_inode_info \<lparr>din = ?d, ino = 1, dirty = False, reclaim_count = 1\<rparr>) sfs_node_dirops True"
  let ?s = "boot_vfs\<lparr>sfs := sfs_set_links boot_sfs 4 1, inodes := (inodes boot_vfs)(4 \<mapsto> ?nd)\<rparr>"
  have d: "dtype ?d = 2" "nlinks ?d = 1"
    by (simp_all add: read_din_def le16_def put_bytes_def nth_blk boot_sfs_def boot_image_def)
  have u: "sfs_block_inuse boot_sfs 1 = Inr True"
    by (simp add: sfs_block_inuse_def bitmap_test_spec boot_sfs_def bm_free_def free_bit_def)
  have r: "sfs_rbuf boot_sfs (replicate 64 0) 0 64 1 0 = Inr (boot_sfs, put_bytes 0 (take 64 (blk boot_sfs 1)) (replicate 64 0), 0)"
    by (subst sfs_rbuf_spec) (simp_all add: boot_sfs_def in_block_def)
  have l: "sfs_load_inode boot_vfs 1 boot_mem = Inr (?s, 0, Some 4)"
    using u r d by (simp add: sfs_load_inode_def lookup_sfs_nolock_def sfs_create_inode_def sfs_get_ops_def set_inode_def
        boot_mem_def boot_vfs_def off_vfs_def Let_def)
  have g: "vfs_get_root boot_vfs (map of_char ''disk0'') boot_mem = Inr (?s, 0, Some 4)"
    using l by (simp add: vfs_get_root_def sfs_get_root_def boot_vfs_def)
  have "bootfs_node boot_vfs = None" by (simp add: boot_vfs_def off_vfs_def)
  then show ?thesis
    using g d by (simp add: vfs_set_bootfs_def vfs_chdir_def vfs_lookup_def get_device_def Let_def vfs_set_curdir_def vop_gettype_def
        vop_op_def inode_at_def inode_check_def inode_init_def sfs_info_def sfs_gettype_def inode_ref_inc_def inode_ref_dec_def set_inode_def
        vfs_get_curdir_def change_bootfs_def)
qed

definition boot_files :: files_struct where
  "boot_files = \<lparr>pwd = None, fd_array = fd_array_init (replicate 145 (root_entry 1)), files_count = 0\<rparr>"

lemma boot_reach:
  "\<exists>s. fs_reach boot_addr (Some 4) s [boot_files\<lparr>pwd := Some 4, files_count := 1\<rparr>] 0 \<and> vdev_list s = vdev_list boot_vfs \<and>
     (\<forall>n. n < 4 \<longrightarrow> inodes s n = inodes boot_vfs n) \<and>
     (\<exists>nd sin. inodes s 4 = Some nd \<and> ref_count nd = 2 \<and> in_info nd = Sfs_inode_info sin \<and> dtype (din sin) = SFS_TYPE_DIR)"
proof -
  obtain s where s: "vfs_set_bootfs boot_vfs None (Some (map of_char ''disk0:'')) boot_mem = Inr (s, Some 4, 0)" "bootfs_node s = Some 4"
    "vdev_list s = vdev_list boot_vfs" "\<forall>n. n < 4 \<longrightarrow> inodes s n = inodes boot_vfs n"
    "\<exists>nd sin. inodes s 4 = Some nd \<and> ref_count nd = 2 \<and> in_info nd = Sfs_inode_info sin \<and> dtype (din sin) = SFS_TYPE_DIR"
    using boot_set_bootfs by blast
  have c: "files_create (Some (replicate 145 (root_entry 1))) = Some boot_files" "pwd boot_files = None"
    by (simp_all add: files_create_def boot_files_def)
  have "inj boot_addr"
  proof (rule injI)
    fix x y
    assume "boot_addr x = boot_addr y"
    then show "x = y" by (cases x; cases y) simp_all
  qed
  moreover have "inodes off_vfs = (\<lambda>_. None)" "bootfs_node off_vfs = None" by (simp_all add: off_vfs_def)
  ultimately have "fs_reach boot_addr (Some 4) s [boot_files\<lparr>pwd := Some 4\<rparr>] 0"
    using fs_reach.boot [OF _ _ _ boot_fs_init c(1) boot_mem_ok] s(1,2) c(2) by auto
  from fs_reach.share [of boot_addr "Some 4" s "[]" "boot_files\<lparr>pwd := Some 4\<rparr>" "[]" 0 1] this s(3-5) show ?thesis by auto
qed

text \<open>The first process opens the keyboard as descriptor 0.\<close>

lemma boot_open:
  "\<exists>s p. fs_reach boot_addr (Some 4) s [p] 0 \<and> status (fd_array p ! 0) = FD_OPENED \<and> fnode (fd_array p ! 0) = Some 1"
proof -
  let ?p = "boot_files\<lparr>pwd := Some 4, files_count := 1\<rparr>"
  obtain s where s: "fs_reach boot_addr (Some 4) s [?p] 0" "vdev_list s = vdev_list boot_vfs" "\<forall>n. n < 4 \<longrightarrow> inodes s n = inodes boot_vfs n"
    using boot_reach by blast
  have "inodes s 1 = Some (inode_init (Device_info Dev_stdin) dev_node_ops False)" using s(3) by (simp add: boot_vfs_def)
  then have "\<exists>t. vfs_open s (Some 4) (map of_char ''stdin:'') O_RDONLY no_mem = Inr (t, 0, Some 1)"
    using s(2) by (simp add: vfs_open_def vfs_lookup_def get_device_def vfs_get_root_def boot_vfs_def inode_ref_inc_def inode_open_inc_def inode_at_def
        set_inode_def inode_init_def vop_open_def vop_op_def inode_check_def device_info_def dev_open_def dop_open_def Let_def)
  then obtain t where t: "vfs_open s (Some 4) (map of_char ''stdin:'') O_RDONLY no_mem = Inr (t, 0, Some 1)" by blast
  have a: "fd_array_alloc ?p NO_FD = Inr (upd_file 0 (\<lambda>f. f\<lparr>status := FD_INIT, fnode := None\<rparr>) ?p, 0, 0)"
  proof -
    have z: "length (fd_array boot_files) = 145" "status (fd_array boot_files ! 0) = FD_NONE" "fopen_count (fd_array boot_files ! 0) = 0"
      by (simp_all add: boot_files_def fd_array_init_def del: upt_rec_numeral)
    moreover have "find (\<lambda>i. status (fd_array boot_files ! i) = FD_NONE) [0..<145] = Some 0"
      using z(2) by (subst upt_conv_Cons) (simp_all del: upt_rec_numeral)
    ultimately show ?thesis by (simp add: fd_array_alloc_def get_fd_array_def fd_array_found_def del: upt_rec_numeral upt.simps)
  qed
  have l: "length (fd_array ?p) = 145" by (simp add: boot_files_def fd_array_init_def del: upt_rec_numeral)
  have "\<exists>q. file_do s ?p (Op_open (map of_char ''stdin:'') O_RDONLY no_mem) = Inr (t, q) \<and> status (fd_array q ! 0) = FD_OPENED \<and> fnode (fd_array q ! 0) = Some 1"
    using a t l by (simp add: file_open_def fd_array_open_def boot_files_def fd_array_init_def del: upt_rec_numeral)
  then obtain q where q: "file_do s ?p (Op_open (map of_char ''stdin:'') O_RDONLY no_mem) = Inr (t, q)" "status (fd_array q ! 0) = FD_OPENED"
    "fnode (fd_array q ! 0) = Some 1" by blast
  from fs_reach.call [of boot_addr "Some 4" s "[]" ?p "[]" 0, OF _ _ q(1)] s(1) no_mem_ok q(2,3) show ?thesis by auto
qed

section \<open>Properties\<close>

text \<open>
  C8. References are exact from boot on, for any number of processes. Whatever calls the processes make (open, close, dup,
  read, write, seek, fstat, fsync, getdirentry, chdir), fork, exec and exit included, as long as they return, every table of
  descriptors stays well formed; the reference count of an inode is the number of descriptors open on it and of
  processes working in it, one for a device of the device list and one for the root of the boot file system, plus the
  references lost, and its open count is the number of open descriptors. An inode is in memory exactly when its count is not zero, so no
  descriptor dangles and no other inode stays behind. At most one reference is lost by each \<^verbatim>\<open>file_open\<close> with
  \<^verbatim>\<open>O_CREAT | O_EXCL\<close>, and none by any other call. The memory \<^verbatim>\<open>kmalloc\<close> returns for an inode is assumed not to be in use.
\<close>

theorem open_files_hold_references:
  assumes "fs_reach addr root s ps e"
  shows "(\<forall>p \<in> set ps. table_wf p) \<and>
    (\<exists>L. size L \<le> e \<and>
      (\<forall>n. let r = device_refs addr n + cwd_ref root n + refs_of ps n + count L n
           in (inodes s n = None \<longleftrightarrow> r = 0) \<and>
              (\<forall>nd. inodes s n = Some nd \<longrightarrow> ref_count nd = int r \<and> open_count nd = int (opens_of ps n))))"
proof -
  from fs_reach_inv [OF assms] obtain L where L: "size L \<le> e" "system_inv (\<lambda>n. device_refs addr n + cwd_ref root n + count L n) s ps" by blast
  let ?R = "\<lambda>n. device_refs addr n + cwd_ref root n + refs_of ps n + count L n"
  have "(\<lambda>n. device_refs addr n + cwd_ref root n + count L n + refs_of ps n) = ?R" by (simp add: ac_simps)
  then have w: "\<forall>p \<in> set ps. table_wf p" and i: "ref_inv s ?R (opens_of ps)" using L(2) by (auto simp: system_inv_def)
  have "\<forall>n. (inodes s n = None \<longleftrightarrow> ?R n = 0) \<and> (\<forall>nd. inodes s n = Some nd \<longrightarrow> ref_count nd = int (?R n) \<and> open_count nd = int (opens_of ps n))"
  proof
    show "(inodes s n = None \<longleftrightarrow> ?R n = 0) \<and> (\<forall>nd. inodes s n = Some nd \<longrightarrow> ref_count nd = int (?R n) \<and> open_count nd = int (opens_of ps n))" for n
      using ref_inv_slot [OF i, of n] by (cases "inodes s n") auto
  qed
  then show ?thesis unfolding Let_def by (intro conjI w exI [of _ L] L(1))
qed

theorem open_files_hold_references_witness:
  "\<exists>s p nd. fs_reach boot_addr (Some 4) s [p] 0 \<and> status (fd_array p ! 0) = FD_OPENED \<and> fnode (fd_array p ! 0) = Some 1 \<and>
    table_wf p \<and> inodes s 1 = Some nd \<and> ref_count nd = int (1 + held p 1 + cwd_ref (pwd p) 1) \<and> open_count nd = int (held p 1)"
proof -
  obtain s p where s: "fs_reach boot_addr (Some 4) s [p] 0" "status (fd_array p ! 0) = FD_OPENED" "fnode (fd_array p ! 0) = Some 1"
    using boot_open by blast
  have d: "device_refs boot_addr 1 = 1" "cwd_ref (Some 4) 1 = 0" by (auto simp: device_refs_def image_iff intro: exI [of _ Dev_stdin])
  from open_files_hold_references [OF s(1)] d have
    "table_wf p" "inodes s 1 \<noteq> None" "\<And>nd. inodes s 1 = Some nd \<Longrightarrow> ref_count nd = int (1 + held p 1 + cwd_ref (pwd p) 1) \<and> open_count nd = int (held p 1)"
    by (auto simp: Let_def)
  with s show ?thesis by auto
qed

text \<open>
  C20. The dispatch through the operation tables is typed, in every state reached from boot: behind every open descriptor there is an
  inode, and each inode in memory has the table of its kind. A device offers open, close, read, write, fstat, ioctl, gettype,
  tryseek and lookup; a directory open, close, fstat, fsync, namefile, getdirentry, reclaim, gettype and lookup; a file
  open, close, read, write, fstat, fsync, reclaim, gettype, tryseek and truncate; there is no other kind. \<^verbatim>\<open>__vop_op\<close> succeeds exactly for
  these, and ends at its assertion for every other operation, \<^verbatim>\<open>vop_create\<close> included. The count of references is below the limit
  that \<^verbatim>\<open>inode_check\<close> sets.
\<close>

theorem dispatch_typed:
  assumes "fs_reach addr root s ps e" "inodes s n = Some nd" "ref_count nd < MAX_INODE_COUNT"
  shows "(\<forall>p \<in> set ps. \<forall>i < FILES_STRUCT_NENTRY. status (fd_array p ! i) = FD_OPENED \<longrightarrow>
      (\<exists>m. fnode (fd_array p ! i) = Some m \<and> inodes s m \<noteq> None)) \<and>
    (case in_info nd of
       Device_info d \<Rightarrow> in_ops nd = dev_node_ops \<and>
         (\<forall>v. vop_op s n v = (if v \<in> {Vop_open, Vop_close, Vop_read, Vop_write, Vop_fstat, Vop_ioctl, Vop_gettype, Vop_tryseek, Vop_lookup}
            then Inr nd else Inl Assert_failed))
     | Sfs_inode_info sin \<Rightarrow>
         dtype (din sin) = SFS_TYPE_DIR \<and> in_ops nd = sfs_node_dirops \<and>
         (\<forall>v. vop_op s n v = (if v \<in> {Vop_open, Vop_close, Vop_fstat, Vop_fsync, Vop_namefile, Vop_getdirentry, Vop_reclaim, Vop_gettype, Vop_lookup}
            then Inr nd else Inl Assert_failed)) \<or>
         dtype (din sin) = SFS_TYPE_FILE \<and> in_ops nd = sfs_node_fileops \<and>
         (\<forall>v. vop_op s n v = (if v \<in> {Vop_open, Vop_close, Vop_read, Vop_write, Vop_fstat, Vop_fsync, Vop_reclaim, Vop_gettype, Vop_tryseek, Vop_truncate}
            then Inr nd else Inl Assert_failed)))"
proof -
  from fs_reach_inv [OF assms(1)] obtain B where B: "system_inv B s ps" by blast
  then have i: "ref_inv s (\<lambda>n. B n + refs_of ps n) (opens_of ps)" by (simp add: system_inv_def)
  from ref_inv_at [OF i assms(2)] assms(3) have t: "inode_typed (blocks (sfs s)) nd" "inode_check nd" by (auto simp: inode_check_def)
  have v: "vop_op s n v = (if v \<in> set (vops_of (in_ops nd)) then Inr nd else Inl Assert_failed)" for v
    using t(2) assms(2) by (simp add: vop_op_def inode_at_def)
  have f: "\<forall>p \<in> set ps. \<forall>i < 145. status (fd_array p ! i) = FD_OPENED \<longrightarrow> (\<exists>m. fnode (fd_array p ! i) = Some m \<and> inodes s m \<noteq> None)"
    using system_fd_alive [OF B] by simp
  show ?thesis
  proof (cases "in_info nd")
    case (Device_info d)
    then have "in_ops nd = dev_node_ops" using t(1) by (simp add: inode_typed_def)
    then show ?thesis using f Device_info by (simp add: v)
  next
    case (Sfs_inode_info sin)
    then have "dtype (din sin) = 2 \<and> in_ops nd = sfs_node_dirops \<or> dtype (din sin) = 1 \<and> in_ops nd = sfs_node_fileops"
      using t(1) by (auto simp: inode_typed_def sfs_get_ops_def split: if_splits)
    then show ?thesis
    proof (elim disjE conjE)
      assume "dtype (din sin) = 2" "in_ops nd = sfs_node_dirops"
      then show ?thesis using f Sfs_inode_info by (simp add: v)
    next
      assume "dtype (din sin) = 1" "in_ops nd = sfs_node_fileops"
      then show ?thesis using f Sfs_inode_info by (simp add: v)
    qed
  qed
qed

theorem dispatch_typed_witness:
  "\<exists>s p nd. fs_reach boot_addr (Some 4) s [p] 0 \<and> inodes s 4 = Some nd \<and> vop_op s 4 Vop_lookup = Inr nd \<and>
    vop_op s 4 Vop_read = Inl Assert_failed"
proof -
  obtain s nd sin where s: "fs_reach boot_addr (Some 4) s [boot_files\<lparr>pwd := Some 4, files_count := 1\<rparr>] 0"
    "inodes s 4 = Some nd" "ref_count nd = 2" "in_info nd = Sfs_inode_info sin" "dtype (din sin) = SFS_TYPE_DIR" using boot_reach by blast
  from dispatch_typed [OF s(1,2)] s(3-5) have "vop_op s 4 Vop_lookup = Inr nd" "vop_op s 4 Vop_read = Inl Assert_failed" by auto
  with s(1,2) show ?thesis by blast
qed

end
