(* ===== verification/Stdin_Props.thy ===== *)
theory Stdin_Props
  imports Vfs
begin

text \<open>The ring buffer of the keyboard (\<^verbatim>\<open>dev_stdin.c\<close>) as a queue of the characters typed and not yet read.\<close>

definition unread :: "stdin_dev \<Rightarrow> u8 list" where
  "unread t = map (\<lambda>k. stdin_buffer t ! (k mod 4096)) [unat (p_rpos t)..<unat (p_wpos t)]"

text \<open>The positions count up from 0; the model covers the first two gigabytes of typing, before they turn negative.\<close>

definition stdin_wf :: "stdin_dev \<Rightarrow> bool" where
  "stdin_wf t \<longleftrightarrow> length (stdin_buffer t) = 4096 \<and> unat (p_rpos t) \<le> unat (p_wpos t) \<and>
     unat (p_wpos t) - unat (p_rpos t) \<le> 4096 \<and> unat (p_wpos t) < 2 ^ 31"

lemma length_unread: "length (unread t) = unat (p_wpos t) - unat (p_rpos t)"
  by (simp add: unread_def)

lemma stdin_index_ok: "unat p < 2 ^ 31 \<Longrightarrow> stdin_index p = Inr (unat p mod 4096)"
  by (simp add: stdin_index_def sint_small unat_mod)

lemma unread_sint: "stdin_wf t \<Longrightarrow> sint (p_wpos t - p_rpos t) = int (length (unread t))"
proof -
  assume "stdin_wf t"
  then have le: "p_rpos t \<le> p_wpos t" "unat (p_wpos t) - unat (p_rpos t) \<le> 4096" by (simp_all add: stdin_wf_def word_le_nat_alt)
  then have "unat (p_wpos t - p_rpos t) = length (unread t)" by (simp add: length_unread unat_sub)
  moreover from this le(2) have "unat (p_wpos t - p_rpos t) < 2 ^ 31" by (simp add: length_unread)
  ultimately show ?thesis by (simp add: sint_small)
qed

lemma unat_next: "unat p + 1 < 2 ^ 31 \<Longrightarrow> unat (p + 1 :: u32) = unat p + 1"
  by (simp add: unat_word_ariths)

lemma mod_window: "k < j \<Longrightarrow> j - k < n \<Longrightarrow> k mod n \<noteq> j mod (n :: nat)"
proof
  assume a: "k < j" "j - k < n" "k mod n = j mod n"
  then have "n dvd j - k" by (metis less_imp_le mod_eq_dvd_iff_nat)
  with a(1,2) show False by (auto dest: dvd_imp_le)
qed

lemma stdin_write_ok:
  assumes wf: "stdin_wf t" and c: "c \<noteq> 0" and room: "length (unread t) < 4096" "unat (p_wpos t) + 1 < 2 ^ 31"
  obtains t' where "dev_stdin_write t c = Inr t'" "stdin_wf t'" "unread t' = unread t @ [c]" "typed t' = typed t"
    "unat (p_wpos t') = unat (p_wpos t) + 1"
proof -
  let ?i = "unat (p_wpos t) mod 4096"
  let ?t = "t\<lparr>stdin_buffer := (stdin_buffer t)[?i := c], p_wpos := p_wpos t + 1\<rparr>"
  have w: "unat (p_wpos t + 1) = unat (p_wpos t) + 1" using room(2) by (rule unat_next)
  have "dev_stdin_write t c = Inr ?t"
    using c wf room unread_sint [OF wf] by (simp add: dev_stdin_write_def stdin_index_ok stdin_wf_def)
  moreover have "stdin_wf ?t" using wf room w by (simp add: stdin_wf_def length_unread)
  moreover have "unread ?t = unread t @ [c]"
  proof -
    have "(stdin_buffer t)[?i := c] ! (k mod 4096) = stdin_buffer t ! (k mod 4096)" if "unat (p_rpos t) \<le> k" "k < unat (p_wpos t)" for k
    proof -
      have "unat (p_wpos t) - k < 4096" using that room(1) unfolding length_unread by linarith
      then show ?thesis using mod_window [of k "unat (p_wpos t)" 4096] that by simp
    qed
    then show ?thesis using w wf by (simp add: unread_def stdin_wf_def)
  qed
  ultimately show ?thesis using that [of ?t] w by simp
qed

lemma type_chars_ok:
  assumes "stdin_wf t" "0 \<notin> set cs" "length (unread t) + length cs \<le> 4096" "unat (p_wpos t) + length cs < 2 ^ 31"
  shows "\<exists>t'. type_chars t cs = Inr t' \<and> stdin_wf t' \<and> unread t' = unread t @ cs \<and> typed t' = typed t"
  using assms
proof (induction cs arbitrary: t)
  case Nil
  then show ?case by simp
next
  case (Cons c cs)
  have a: "c \<noteq> 0" "length (unread t) < 4096" "unat (p_wpos t) + 1 < 2 ^ 31" using Cons.prems by auto
  from stdin_write_ok [OF Cons.prems(1) a] obtain u where u: "dev_stdin_write t c = Inr u" "stdin_wf u" "unread u = unread t @ [c]"
    "typed u = typed t" "unat (p_wpos u) = unat (p_wpos t) + 1" .
  with Cons.IH [OF u(2)] Cons.prems(2-4) show ?case by simp
qed

lemma unread_Cons:
  assumes wf: "stdin_wf t" and ne: "unread t \<noteq> []"
  shows "stdin_wf (t\<lparr>p_rpos := p_rpos t + 1\<rparr>)" "unread t = stdin_buffer t ! (unat (p_rpos t) mod 4096) # unread (t\<lparr>p_rpos := p_rpos t + 1\<rparr>)"
    "unat (p_rpos t) < unat (p_wpos t)"
proof -
  show lt: "unat (p_rpos t) < unat (p_wpos t)" using ne by (auto simp: unread_def)
  have "unat (p_rpos t + 1) = unat (p_rpos t) + 1"
    using lt wf by (intro unat_next) (simp add: stdin_wf_def)
  moreover have "unat (p_wpos t) - Suc (unat (p_rpos t)) \<le> 4096" using wf unfolding stdin_wf_def by linarith
  ultimately show "stdin_wf (t\<lparr>p_rpos := p_rpos t + 1\<rparr>)" "unread t = stdin_buffer t ! (unat (p_rpos t) mod 4096) # unread (t\<lparr>p_rpos := p_rpos t + 1\<rparr>)"
    using wf lt by (simp_all add: stdin_wf_def unread_def upt_conv_Cons)
qed

lemma stdin_read_ok:
  assumes "stdin_wf t" "length acc + k = n" "k \<le> length (unread t)"
  shows "\<exists>t'. stdin_read_loop t n acc = Inr (t', acc @ take k (unread t)) \<and> stdin_wf t' \<and> unread t' = drop k (unread t) \<and>
    stdin_buffer t' = stdin_buffer t \<and> typed t' = typed t"
  using assms
proof (induction k arbitrary: t acc)
  case 0
  then show ?case by (subst stdin_read_loop.simps) simp
next
  case (Suc k)
  then have ne: "unread t \<noteq> []" by auto
  note u = unread_Cons [OF Suc.prems(1) ne]
  let ?t = "t\<lparr>p_rpos := p_rpos t + 1\<rparr>" and ?c = "stdin_buffer t ! (unat (p_rpos t) mod 4096)"
  have small: "unat (p_rpos t) < 2 ^ 31" "unat (p_wpos t) < 2 ^ 31" using Suc.prems(1) by (auto simp: stdin_wf_def)
  then have "sint (p_rpos t) < sint (p_wpos t)" using u(3) sint_small [OF small(1)] sint_small [OF small(2)] by linarith
  moreover have "length acc < n" using Suc.prems(2) by simp
  ultimately have l: "stdin_read_loop t n acc = stdin_read_loop ?t n (acc @ [?c])"
    using small(1) by (subst stdin_read_loop.simps) (simp add: stdin_index_ok)
  have "length (acc @ [?c]) + k = n" "k \<le> length (unread ?t)" using Suc.prems(2,3) u(2) by (simp_all add: length_unread)
  from Suc.IH [OF u(1) this] l show ?case by (subst (1 2) u(2)) simp
qed

text \<open>
  C27. The keyboard buffer is a first-in first-out queue: characters typed while there is room are appended to the
  unread ones, and a read of a number of characters that are there returns the oldest, in order, and keeps the rest.
\<close>

theorem stdin_fifo:
  assumes "stdin_wf t" "0 \<notin> set cs" "length (unread t) + length cs \<le> 4096" "unat (p_wpos t) + length cs < 2 ^ 31"
    and "unat len \<le> length (unread t) + length cs"
  shows "\<exists>t1 t2. type_chars t cs = Inr t1 \<and> dev_stdin_read t1 len = Inr (t2, take (unat len) (unread t @ cs)) \<and>
    stdin_wf t2 \<and> unread t2 = drop (unat len) (unread t @ cs)"
proof -
  from type_chars_ok [OF assms(1-4)] obtain t1 where t1: "type_chars t cs = Inr t1" "stdin_wf t1" "unread t1 = unread t @ cs" by blast
  from stdin_read_ok [OF t1(2), of "[]" "unat len" "unat len"] t1(3) assms(5) obtain t2 where
    "stdin_read_loop t1 (unat len) [] = Inr (t2, take (unat len) (unread t @ cs))" "stdin_wf t2" "unread t2 = drop (unat len) (unread t @ cs)"
    by auto
  then show ?thesis using t1(1) by (auto simp: dev_stdin_read_def)
qed

definition empty_stdin :: stdin_dev where
  "empty_stdin = \<lparr>stdin_buffer = replicate 4096 0, p_rpos = 0, p_wpos = 0, typed = []\<rparr>"

lemma empty_stdin_wf: "stdin_wf empty_stdin" "unread empty_stdin = []" "unat (p_wpos empty_stdin) = 0"
  by (simp_all add: stdin_wf_def empty_stdin_def unread_def)

theorem stdin_fifo_witness:
  "\<exists>t1 t2. type_chars empty_stdin [104, 105, 10] = Inr t1 \<and> dev_stdin_read t1 2 = Inr (t2, [104, 105]) \<and> unread t2 = [10]"
  using stdin_fifo [OF empty_stdin_wf(1), of "[104, 105, 10]" 2] by (simp add: empty_stdin_wf del: type_chars.simps) blast

text \<open>
  C39. With 4096 characters unread, the next key stroke is stored before the buffer is found full: it replaces the
  oldest unread character, so that the reader gets the newest character first and the oldest is lost.
\<close>

theorem stdin_full_overwrites:
  assumes "stdin_wf t" "length (unread t) = 4096" "c \<noteq> 0"
  shows "\<exists>t'. dev_stdin_write t c = Inr t' \<and> unread t' = c # tl (unread t)"
proof -
  let ?r = "unat (p_rpos t)" and ?w = "unat (p_wpos t)" and ?i = "unat (p_wpos t) mod 4096"
  let ?t = "t\<lparr>stdin_buffer := (stdin_buffer t)[?i := c]\<rparr>"
  have w: "?w = ?r + 4096" using assms(1,2) by (simp add: length_unread stdin_wf_def)
  have "dev_stdin_write t c = Inr ?t"
    using assms unread_sint [OF assms(1)] by (simp add: dev_stdin_write_def stdin_index_ok stdin_wf_def)
  moreover have "unread ?t = c # tl (unread t)"
  proof -
    have i: "?i = ?r mod 4096" using w by simp
    have "(stdin_buffer t)[?i := c] ! (k mod 4096) = stdin_buffer t ! (k mod 4096)" if "?r < k" "k < ?r + 4096" for k
      using mod_window [of ?r k 4096] that i by simp
    moreover have "[?r..<?w] = ?r # [Suc ?r..<?w]" by (rule upt_conv_Cons) (simp add: w)
    ultimately show ?thesis using w i assms(1) by (simp add: unread_def stdin_wf_def del: upt.simps)
  qed
  ultimately show ?thesis by blast
qed

definition full_stdin :: stdin_dev where
  "full_stdin = \<lparr>stdin_buffer = replicate 4096 97, p_rpos = 0, p_wpos = 4096, typed = []\<rparr>"

theorem stdin_full_overwrites_witness:
  "\<exists>t'. dev_stdin_write full_stdin 98 = Inr t' \<and> unread t' = 98 # tl (unread full_stdin)"
  by (rule stdin_full_overwrites) (simp_all add: full_stdin_def stdin_wf_def length_unread)

end
