(* ===== verification/Spec2Isabelle.thy ===== *)
theory Spec2Isabelle
  imports Emulator Clist Cstring Kernlib Pmm_free Bitmap Skew_heap_c Timer_Props Sync_Props
    Tlb_Coherence Vm_Map Vmm_Props Printfmt Sfs_Claims Fs_System Stdin_Props
begin

text \<open>
  A verification library for the MIPS32 CPU emulator (\<^verbatim>\<open>src/src/\<close>) and the ucore operating system that runs on it
  (\<^verbatim>\<open>src/ucore_OS/\<close>). The paths below are relative to these two directories.

  \<^bold>\<open>The program.\<close> The emulator fetches, decodes and executes instructions of a MIPS32 CPU with a coprocessor for
  exceptions, a software-managed TLB, RAM, ROM, flash and a serial port. The kernel keeps page tables in that memory and
  refills the TLB from them, schedules processes round robin, lets them wait on semaphores and monitors, and gives them
  files of a simple file system on the flash and two console devices through a virtual file system.

  \<^bold>\<open>Conventions.\<close> A C structure is a record, an enumeration or a union with its tag a datatype, an unsigned or wrapping
  integer a word of its width (\<open>u8\<close>, \<open>u16\<close>, \<open>u32\<close> of \<open>Prelude\<close>), a signed counter that is only compared and
  stepped an \<open>int\<close>. Every function takes the state and returns the new one; a failed assertion, a panic and an access
  outside an object are values \<open>Inl e\<close>, sequenced by \<open>bindE\<close>; undefined behaviour of the C++ emulator is a value too.
  Results of \<^verbatim>\<open>kmalloc\<close> are arguments. A kernel section runs with interrupts off or under an uncontended lock, hence as
  one step; a function that calls \<^verbatim>\<open>schedule()\<close> is split at the call.

  \<^bold>\<open>Emulator.\<close>
  \<^item> \<open>Cp0\<close>: \<^verbatim>\<open>cp0.h\<close>, the system registers and their fields.
  \<^item> \<open>Mmu\<close>: \<^verbatim>\<open>mmu.h\<close>, the TLB, the physical address map, the six accessors. \<open>addr_translate\<close> is shown equal to a
    declarative translation over the segments and the TLB entries.
  \<^item> \<open>Cpu\<close>: \<^verbatim>\<open>cpu.h\<close>, \<^verbatim>\<open>cpu.cc\<close>, \<^verbatim>\<open>cpu_instructions.cc\<close>, all instructions, the decoder, one round of the loop.
  \<^item> \<open>Cpu_Decode\<close>: the nested switches of the decoder against a flat table of the instruction set.
  \<^item> \<open>Cpu_Props\<close>, \<open>Emulator\<close>: what every instruction and, by the locale \<open>round_machine\<close>, every run keeps; exceptions
    are precise and enter the handler, \<^verbatim>\<open>eret\<close> undoes them, the clock interrupts, and a round is undefined in C++ for exactly
    three kinds of instructions and operands.

  \<^bold>\<open>Kernel libraries.\<close>
  \<^item> \<open>Clist\<close>: \<^verbatim>\<open>libs/list.h\<close> on a heap of links, refining lists (locale \<open>linked_list\<close>).
  \<^item> \<open>Cstring\<close>: \<^verbatim>\<open>libs/string.c\<close> on byte memory. \<open>Kernlib\<close>: \<^verbatim>\<open>libs/atomic.h\<close>, \<^verbatim>\<open>defs.h\<close>, \<^verbatim>\<open>hash.c\<close>, \<^verbatim>\<open>rand.c\<close>.
  \<^item> \<open>Skew_heap_c\<close>: \<^verbatim>\<open>libs/skew_heap.h\<close> on a heap of nodes, refining a functional skew heap.
  \<^item> \<open>Divmod\<close>: the divisions in software (\<^verbatim>\<open>kern/libs/divmod.h\<close>, \<^verbatim>\<open>libs/mips32s.h\<close>, \<^verbatim>\<open>user/libs/intrinsic.c\<close>).
  \<^item> \<open>Printfmt\<close>: \<^verbatim>\<open>libs/printfmt.c\<close>, \<^verbatim>\<open>kern/libs/stdio.c\<close>, \<^verbatim>\<open>readline.c\<close>: printing returns for formats that fit their
    arguments (\<open>args_fit\<close>) and stays in the buffer; digits, and the round trip with \<^verbatim>\<open>strtol\<close>.

  \<^bold>\<open>Kernel memory.\<close>
  \<^item> \<open>Pmm_default\<close>, \<open>Pmm_free\<close>: \<^verbatim>\<open>kern/mm/default_pmm.c\<close>; first fit, coalescing, the contract \<open>page_allocator\<close>.
  \<^item> \<open>Vm\<close>: \<^verbatim>\<open>kern/mm/pmm.c\<close>, \<^verbatim>\<open>tlb.c\<close>, \<^verbatim>\<open>swap.c\<close>, \<^verbatim>\<open>swap_fifo.c\<close>, \<^verbatim>\<open>fs/swap/swapfs.c\<close> on the machine of \<open>Mmu\<close>.
  \<^item> \<open>Vm_Props\<close>, \<open>Vm_Map\<close>: page tables as partial maps, with \<^verbatim>\<open>page_insert\<close> and \<^verbatim>\<open>page_remove\<close> as updates and the
    reference counts of the frames exact.
  \<^item> \<open>Tlb_Props\<close>, \<open>Tlb_Kernel\<close>, \<open>Tlb_Coherence\<close>: the TLB holds what the current page table says.
  \<^item> \<open>Vmm\<close>, \<open>Vmm_Props\<close>: \<^verbatim>\<open>kern/mm/vmm.c\<close>, areas, page faults and the TLB miss handler, ending in the theorem that a
    miss is served and the retried access succeeds.

  \<^bold>\<open>Scheduling and synchronisation.\<close>
  \<^item> \<open>Sched\<close>, \<open>Sched_Props\<close>, \<open>Timer_Props\<close>: \<^verbatim>\<open>kern/schedule/\<close>; round robin is fair (locale \<open>sched_policy\<close>), timers
    expire in order at their ticks.
  \<^item> \<open>Sync\<close>, \<open>Sync_Props\<close>: \<^verbatim>\<open>kern/sync/\<close>; the units of a semaphore are conserved in a step relation in which any process may
    call any operation, which is mutual exclusion where only holders call \<^verbatim>\<open>up\<close>; hand-over on wakeup.

  \<^bold>\<open>Files.\<close>
  \<^item> \<open>Bitmap\<close>: \<^verbatim>\<open>kern/fs/sfs/bitmap.c\<close> (locale \<open>index_allocator\<close>).
  \<^item> \<open>Sfs\<close>: \<^verbatim>\<open>kern/fs/iobuf.c\<close>, \<^verbatim>\<open>devs/dev_disk0.c\<close>, \<^verbatim>\<open>sfs/sfs_io.c\<close>, \<^verbatim>\<open>sfs/sfs_inode.c\<close>, \<^verbatim>\<open>sfs/sfs_fs.c\<close>.
  \<^item> \<open>Sfs_Props\<close>, \<open>Sfs_File\<close>, \<open>Sfs_Resize\<close>, \<open>Sfs_Claims\<close>: blocks and free map, the content of a file and that reading
    returns it, resizing with the blocks taken from and given back to the free map, directory search, and the writes that are lost.
  \<^item> \<open>Vfs\<close>: \<^verbatim>\<open>kern/fs/vfs/\<close> and \<^verbatim>\<open>kern/fs/devs/\<close>, inodes in memory, operation tables, devices, paths, opening.
  \<^item> \<open>Vfs_Refs\<close>, \<open>Vfs_Open\<close>: the invariant \<open>ref_inv\<close> says how many references and opens are held on each inode and
    that its operation table fits its type; every operation keeps it with the counts it should have.
  \<^item> \<open>File\<close>, \<open>File_Props\<close>, \<open>File_Claims\<close>: \<^verbatim>\<open>kern/fs/file.c\<close>, \<^verbatim>\<open>kern/fs/fs.c\<close>; what each call on
    descriptors does to the references, closing releases, forking duplicates, and \<^verbatim>\<open>fs_init\<close>.
  \<^item> \<open>Fs_System\<close>: the states reached from boot by any processes (\<open>fs_reach\<close>); the counts of references are exact there, up
    to those that an open with \<^verbatim>\<open>O_CREAT | O_EXCL\<close> loses, and each inode has the operation table of its kind.
  \<^item> \<open>Stdin_Props\<close>: the keyboard buffer as a queue.

  \<^bold>\<open>Bounds and fuel.\<close> A loop over a linked list in \<open>Pmm_default\<close> has fuel \<^verbatim>\<open>npage + 1\<close>, one over areas the number of
  areas plus one, one over a range of addresses one round per page, and \<^verbatim>\<open>disk0_io\<close> one round per block; the
  theorems about these operations state that they return, so that the fuel is enough under the invariant. Loops of the
  string library that need a terminator are partial functions whose result \<open>None\<close> is not returning. The unbounded loop of
  the emulator is any number of its rounds. A read of the keyboard that sleeps takes the characters typed meanwhile
  from a list; at its end it sleeps for ever (\<open>Fuel_exhausted\<close>). Inode counts are below the limit 65536 of
  \<^verbatim>\<open>inode_check\<close>, and positions of the keyboard buffer below \<open>2 ^ 31\<close>, where the statements say so. Resizing is proved for
  files of at most twelve direct blocks, and reading for at most a block's length or for blocks that are consecutive on the disk,
  since the loop over whole blocks reads the blocks that follow the first one on the disk. Values of semaphores and the
  lengths \<^verbatim>\<open>printf\<close> returns are below \<open>2 ^ 31\<close> where the statements say so; the counters of \<^verbatim>\<open>printf\<close> wrap around.

  \<^bold>\<open>Hypotheses.\<close> The memory \<^verbatim>\<open>kmalloc\<close> returns for an inode is not in use (\<open>mem_ok\<close>; distinct addresses at boot). A
  statement about sequences of calls is about calls that return: a call can end at an assertion, as shown for a read of a directory.

  \<^bold>\<open>Not modelled.\<close> The contents of pages other than page tables (the code moves none when it swaps); \<^verbatim>\<open>kmalloc\<close> itself,
  which casts raw pages; \<^verbatim>\<open>proc.c\<close> but for what the scheduler uses of it, since it switches kernel stacks and runs
  loaded programs; the assembly of boot, traps and context switch; the dispatch tables of traps and system calls and the
  copying loops of \<^verbatim>\<open>sysfile.c\<close> around the operations modelled here; device drivers, the debug monitor and the
  emulator's command line, which are input and output; \<^verbatim>\<open>sfs_namefile\<close> and \<^verbatim>\<open>vfs_getcwd\<close>, which fill a buffer from its
  end by pointer arithmetic; the functions of \<^verbatim>\<open>vfsfile.c\<close> that return \<^verbatim>\<open>-E_UNIMP\<close> and the \<^verbatim>\<open>ioctl\<close> operations that
  return an error; the self tests of the kernel, the image builder \<^verbatim>\<open>tools/mksfs.c\<close>, which runs on the build host, and
  the user programs.
\<close>

end
